(* ===== verification/Go_Base.thy ===== *)
theory Go_Base
  imports Main "HOL-Library.Word" "HOL-Library.Char_ord" "HOL-Library.List_Lexorder"
    "HOL-Library.AList" "HOL-Library.Sublist" "HOL-Library.Multiset"
begin

text \<open>
  The prelude of the development: how a Go function of the repository is written in HOL, and the
  generic facts the component theories share.

  \<^item> A Go function with results \<open>(a, capEnv, error)\<close> that may touch mutable state (the resource
    budget carried by its context, the capability maps) becomes a function into
    \<open>('a, 'c, 'e) res \<times> 'w\<close>: the outcome, and the world \<open>'w\<close> after the call. A capability
    environment travels in both the normal and the error outcome, because the code returns one with
    its errors too; the world is not rolled back by an error.
  \<^item> A nil dereference or an out-of-range index is the outcome \<open>Panic\<close>; a bounded model that has run
    out of fuel answers \<open>Diverge\<close>. Both propagate through callers.
  \<^item> \<open>callR p h k\<close> is a call followed by Go's error test: \<open>h\<close> says which capability environment
    the caller returns with the error (its own, or the callee's), \<open>k\<close> is the rest of the body.
  \<^item> A Go map is an association list with distinct keys, as its iteration order is not specified and
    no operation here depends on it; machine integers are \<open>64 word\<close> where wrap-around can matter.
\<close>

section \<open>Outcomes of Go calls\<close>

datatype ('a, 'c, 'e) res =
    Ret 'a 'c
  | Err 'e 'c
  | Panic
  | Diverge

fun callR :: "('a, 'c, 'e) res \<times> 'w \<Rightarrow> ('c \<Rightarrow> 'c) \<Rightarrow>
    ('a \<Rightarrow> 'c \<Rightarrow> 'w \<Rightarrow> ('b, 'c, 'e) res \<times> 'w) \<Rightarrow> ('b, 'c, 'e) res \<times> 'w" where
  "callR (Ret a c, w) h k = k a c w"
| "callR (Err e c, w) h k = (Err e (h c), w)"
| "callR (Panic, w) h k = (Panic, w)"
| "callR (Diverge, w) h k = (Diverge, w)"

text \<open>\<open>args[n]\<close>: a slice access that panics out of range.\<close>

definition argN :: "'v list \<Rightarrow> nat \<Rightarrow> 'w \<Rightarrow> ('v \<Rightarrow> ('b, 'c, 'e) res \<times> 'w) \<Rightarrow> ('b, 'c, 'e) res \<times> 'w"
where
  "argN args n w k = (if n < length args then k (args ! n) else (Panic, w))"

text \<open>Using a value that the code obtained without an error test, with nil as panic.\<close>

fun orPanic :: "'a option \<Rightarrow> 'w \<Rightarrow> ('a \<Rightarrow> ('b, 'c, 'e) res \<times> 'w) \<Rightarrow> ('b, 'c, 'e) res \<times> 'w" where
  "orPanic None w k = (Panic, w)"
| "orPanic (Some a) w k = k a"

named_theorems go_simps \<open>unfolding rules for the Go primitives of the model\<close>

lemma argN_in [simp, go_simps]: "n < length args \<Longrightarrow> argN args n w k = k (args ! n)"
  by (simp add: argN_def)

lemma callR_Ret_iff:
  "callR p h k = (Ret b c, w) \<longleftrightarrow> (\<exists>a c1 w1. p = (Ret a c1, w1) \<and> k a c1 w1 = (Ret b c, w))"
  by (cases "(p, h, k)" rule: callR.cases) auto

lemma callR_Panic_iff:
  "callR p h k = (Panic, w) \<longleftrightarrow>
     p = (Panic, w) \<or> (\<exists>a c1 w1. p = (Ret a c1, w1) \<and> k a c1 w1 = (Panic, w))"
  by (cases "(p, h, k)" rule: callR.cases) auto

lemma callR_Err_iff:
  "callR p h k = (Err e c, w) \<longleftrightarrow>
     (\<exists>c1. p = (Err e c1, w) \<and> c = h c1) \<or> (\<exists>a c1 w1. p = (Ret a c1, w1) \<and> k a c1 w1 = (Err e c, w))"
  by (cases "(p, h, k)" rule: callR.cases) auto

lemma callR_assoc: "callR (callR p h k) (\<lambda>c. c) k2 = callR p h (\<lambda>a c w. callR (k a c w) (\<lambda>c. c) k2)"
  by (cases "(p, h, k)" rule: callR.cases) auto

lemma callR_unit: "callR p (\<lambda>c. c) (\<lambda>a c w. (Ret a c, w)) = p"
  by (cases p; cases "fst p") auto

lemma callR_cont_cong: "(\<And>a c w. p = (Ret a c, w) \<Longrightarrow> k a c w = k' a c w) \<Longrightarrow> callR p h k = callR p h k'"
  by (cases "(p, h, k)" rule: callR.cases) auto

lemma callR_RetE:
  assumes "callR p h k = (Ret b c, w)"
  obtains a c1 w1 where "p = (Ret a c1, w1)" "k a c1 w1 = (Ret b c, w)"
  using assms by (auto simp: callR_Ret_iff)

lemma callR_cong [fundef_cong]:
  assumes "p = p'" "h = h'"
    and "\<And>a c w. p' = (Ret a c, w) \<Longrightarrow> k a c w = k' a c w"
  shows "callR p h k = callR p' h' k'"
  using assms by (cases "(p', h', k')" rule: callR.cases) auto

lemma orPanic_eq_Ret [simp]:
  "orPanic x w k = (Ret b c, w') \<longleftrightarrow> (\<exists>a. x = Some a \<and> k a = (Ret b c, w'))"
  by (cases x) auto

text \<open>Outcomes that satisfy a postcondition whenever they are normal, and that do return.\<close>

definition returns :: "('a, 'c, 'e) res \<times> 'w \<Rightarrow> bool" where
  "returns p \<longleftrightarrow> (\<exists>a c w. p = (Ret a c, w))"

lemma returnsI [intro]: "p = (Ret a c, w) \<Longrightarrow> returns p"
  by (auto simp: returns_def)

lemma returns_Ret [simp]: "returns (Ret a c, w)"
  by (auto simp: returns_def)

lemma returns_callR:
  "returns p \<Longrightarrow> (\<And>a c w. p = (Ret a c, w) \<Longrightarrow> returns (k a c w)) \<Longrightarrow> returns (callR p h k)"
  by (auto simp: returns_def)

section \<open>Machine integers\<close>

type_synonym int64 = "64 word"

abbreviation MaxInt64 :: int64 where "MaxInt64 \<equiv> 0x7FFFFFFFFFFFFFFF"

text \<open>Signed 64-bit comparisons are those of \<open>sint\<close>.\<close>

lemma sint64_bounds: "- (2 ^ 63) \<le> sint (x :: int64)" "sint (x :: int64) < 2 ^ 63"
  using sint_range_size [of x] by (simp_all add: word_size)

lemma sint64_add_no_overflow:
  fixes x y :: int64
  assumes "- (2 ^ 63) \<le> sint x + sint y" "sint x + sint y < 2 ^ 63"
  shows "sint (x + y) = sint x + sint y"
  using assms by (simp add: sint_word_ariths signed_take_bit_int_eq_self)

lemma sint64_MaxInt64: "sint MaxInt64 = 2 ^ 63 - 1"
  by simp

section \<open>Lists\<close>

lemma sorted_wrt_map_fst:
  "sorted_wrt (\<lambda>x y. P (fst x) (fst y)) xs \<longleftrightarrow> sorted_wrt P (map fst xs)"
  by (simp add: sorted_wrt_map)

lemma map_of_sorted_distinct:
  "sorted_wrt (<) (map fst xs) \<Longrightarrow> distinct (map fst (xs :: ('a :: linorder \<times> 'b) list))"
  by (simp add: strict_sorted_iff)

lemma distinct_sort_key_fst [simp]: "distinct (map fst (sort_key f xs)) = distinct (map fst xs)"
  by (metis mset_map mset_sort mset_eq_imp_distinct_iff)

lemma map_of_sort_key_fst:
  assumes "distinct (map fst xs)"
  shows "map_of (sort_key fst xs) = map_of (xs :: ('a :: linorder \<times> 'b) list)"
  by (rule map_of_inject_set [THEN iffD2]) (simp_all add: assms)

lemma sort_key_fst_strict:
  "distinct (map fst xs) \<Longrightarrow> sorted_wrt (<) (map fst (sort_key fst (xs :: ('a :: linorder \<times> 'b) list)))"
  by (simp add: strict_sorted_iff)

lemma map_of_map_keyed: "map_of (map (\<lambda>(l, v). (l, g l v)) xs) k = map_option (g k) (map_of xs k)"
  by (induction xs) auto

section \<open>Decimal numerals\<close>

text \<open>\<^verbatim>\<open>strconv.Itoa\<close> on a non-negative argument.\<close>

fun itoa :: "nat \<Rightarrow> string" where
  "itoa n = (if n < 10 then [char_of (48 + n)] else itoa (n div 10) @ [char_of (48 + n mod 10)])"

declare itoa.simps [simp del]

definition isDigit :: "char \<Rightarrow> bool" where
  "isDigit c \<longleftrightarrow> CHR ''0'' \<le> c \<and> c \<le> CHR ''9''"

lemma isDigit_char_of: "n < 10 \<Longrightarrow> isDigit (char_of (48 + n :: nat))"
  by (simp add: isDigit_def less_eq_char_def)

lemma itoa_digits: "list_all isDigit (itoa n) \<and> itoa n \<noteq> []"
proof (induction n rule: itoa.induct)
  case (1 n)
  then show ?case by (subst (1 2) itoa.simps) (auto simp: isDigit_char_of)
qed

end
