(* ===== verification/Budget.thy ===== *)
theory Budget
  imports Go_Base
begin

unbundle bit_operations_syntax

text \<open>
  The resource limiters of \<^verbatim>\<open>internal/infra/budget\<close>: \<open>budget\<close> is the runtime \<^verbatim>\<open>Budget\<close> (steps, call
  depth, allocated bytes), \<open>checkBudget\<close> the compiler's \<^verbatim>\<open>CheckBudget\<close> (nesting, type family and
  solver steps, resolution depth). Counters are Go's 64-bit \<^verbatim>\<open>int\<close> and \<^verbatim>\<open>int64\<close>, so they are
  \<open>64 word\<close> and compared as signed values. The context a budget carries is its observable state:
  live, past its deadline, or cancelled; nothing here changes it, it is the caller's to set. Every
  method is a function from the budget to its result and the budget after the call. The results
  show which calls the limits admit, for single calls and for whole sequences of calls, that a
  cancelled context is noticed within 64 charged operations, and where the 64-bit addition of
  \<^verbatim>\<open>Alloc\<close> defeats the allocation limit.
\<close>

section \<open>Errors and contexts\<close>

datatype ctxErr = DeadlineExceeded | Canceled

text \<open>The state of a context: \<open>None\<close> while its Done channel is open.\<close>

type_synonym ctxState = "ctxErr option"

datatype limitError =
    StepLimitError
  | DepthLimitError
  | NestingLimitError
  | AllocLimitError int64 int64
  | TimeoutError ctxErr
  | CancelledError ctxErr
  | TFStepLimitError
  | SolverStepLimitError
  | ResolveDepthLimitError

definition wrapCtxErr :: "ctxErr \<Rightarrow> limitError" where
  "wrapCtxErr err = (if err = DeadlineExceeded then TimeoutError err else CancelledError err)"

section \<open>The runtime budget\<close>

record budget =
  b_ctx :: ctxState
  b_ops :: int64
  b_steps :: int64
  b_max :: int64
  b_depth :: int64
  b_peakDepth :: int64
  b_maxDepth :: int64
  b_alloc :: int64
  b_maxAlloc :: int64

definition newBudget :: "ctxState \<Rightarrow> int64 \<Rightarrow> int64 \<Rightarrow> budget" where
  "newBudget ctx maxSteps maxDepth =
     (let maxSteps = (if maxSteps <s 0 then 0 else maxSteps);
          maxDepth = (if maxDepth <s 0 then 0 else maxDepth)
      in \<lparr> b_ctx = ctx, b_ops = 0, b_steps = 0, b_max = maxSteps, b_depth = 0, b_peakDepth = 0,
           b_maxDepth = maxDepth, b_alloc = 0, b_maxAlloc = 0 \<rparr>)"

definition setAllocLimit :: "int64 \<Rightarrow> budget \<Rightarrow> budget" where
  "setAllocLimit bytes b = b\<lparr> b_maxAlloc := (if bytes <s 0 then 0 else bytes) \<rparr>"

definition checkCtx :: "ctxState \<Rightarrow> limitError option" where
  "checkCtx ctx = (case ctx of None \<Rightarrow> None | Some e \<Rightarrow> Some (wrapCtxErr e))"

text \<open>\<open>check\<close>: the cross-cutting test, run on every 64th operation.\<close>

definition checkB :: "budget \<Rightarrow> limitError option \<times> budget" where
  "checkB b =
     (let b1 = b\<lparr> b_ops := b_ops b + 1 \<rparr>
      in if (b_ops b1 AND 63) \<noteq> 0 then (None, b1)
         else case checkCtx (b_ctx b1) of
                Some err \<Rightarrow> (Some err, b1)
              | None \<Rightarrow>
                  (None, if b_peakDepth b1 <s b_depth b1 then b1\<lparr> b_peakDepth := b_depth b1 \<rparr> else b1))"

definition stepB :: "budget \<Rightarrow> limitError option \<times> budget" where
  "stepB b =
     (let b1 = b\<lparr> b_steps := b_steps b + 1 \<rparr>
      in if 0 <s b_max b1 \<and> b_max b1 \<le>s b_steps b1 then (Some StepLimitError, b1) else checkB b1)"

definition enterB :: "budget \<Rightarrow> limitError option \<times> budget" where
  "enterB b =
     (let b1 = b\<lparr> b_depth := b_depth b + 1 \<rparr>
      in if 0 <s b_maxDepth b1 \<and> b_maxDepth b1 \<le>s b_depth b1 then (Some DepthLimitError, b1)
         else checkB b1)"

definition leaveB :: "budget \<Rightarrow> budget" where
  "leaveB b = (if 0 <s b_depth b then b\<lparr> b_depth := b_depth b - 1 \<rparr> else b)"

definition allocB :: "int64 \<Rightarrow> budget \<Rightarrow> limitError option \<times> budget" where
  "allocB bytes b =
     (if bytes <s 0 then (Some (AllocLimitError (b_alloc b) (b_maxAlloc b)), b)
      else let b1 = b\<lparr> b_alloc := b_alloc b + bytes \<rparr>
           in if 0 <s b_maxAlloc b1 \<and> b_maxAlloc b1 \<le>s b_alloc b1
              then (Some (AllocLimitError (b_alloc b1) (b_maxAlloc b1)), b1)
              else checkB b1)"

definition resetCounters :: "budget \<Rightarrow> budget" where
  "resetCounters b =
     b\<lparr> b_ops := 0, b_steps := 0, b_depth := 0, b_peakDepth := 0, b_alloc := 0 \<rparr>"

definition remaining :: "budget \<Rightarrow> int64" where
  "remaining b =
     (if b_max b \<le>s 0 then - 1
      else let r = b_max b - b_steps b in if r <s 0 then 0 else r)"

text \<open>The helpers that find a budget in a context: \<open>None\<close> is a context that carries none.\<close>

definition chargeAlloc :: "int64 \<Rightarrow> budget option \<Rightarrow> limitError option \<times> budget option" where
  "chargeAlloc bytes bo =
     (case bo of None \<Rightarrow> (None, None)
      | Some b \<Rightarrow> (case allocB bytes b of (err, b') \<Rightarrow> (err, Some b')))"

definition resetBudgetCounters :: "budget option \<Rightarrow> budget option" where
  "resetBudgetCounters bo = map_option resetCounters bo"

definition checkContext :: "budget option \<Rightarrow> limitError option" where
  "checkContext bo = (case bo of None \<Rightarrow> None | Some b \<Rightarrow> checkCtx (b_ctx b))"

section \<open>The compiler's budget\<close>

record checkBudget =
  k_ctx :: ctxState
  k_nesting :: int64
  k_maxNesting :: int64
  k_tfSteps :: int64
  k_maxTFSteps :: int64
  k_solverSteps :: int64
  k_maxSolverSteps :: int64
  k_resolveDepth :: int64
  k_maxResolveDepth :: int64

definition newCheckBudget :: "ctxState \<Rightarrow> checkBudget" where
  "newCheckBudget ctx =
     \<lparr> k_ctx = ctx, k_nesting = 0, k_maxNesting = 0, k_tfSteps = 0, k_maxTFSteps = 0,
       k_solverSteps = 0, k_maxSolverSteps = 0, k_resolveDepth = 0, k_maxResolveDepth = 0 \<rparr>"

definition setNestingLimit :: "int64 \<Rightarrow> checkBudget \<Rightarrow> checkBudget" where
  "setNestingLimit n b = b\<lparr> k_maxNesting := (if n <s 0 then 0 else n) \<rparr>"

definition nest :: "checkBudget \<Rightarrow> limitError option \<times> checkBudget" where
  "nest b =
     (let b1 = b\<lparr> k_nesting := k_nesting b + 1 \<rparr>
      in if 0 <s k_maxNesting b1 \<and> k_maxNesting b1 <s k_nesting b1
         then (Some NestingLimitError, b1) else (None, b1))"

definition unnest :: "checkBudget \<Rightarrow> checkBudget" where
  "unnest b = b\<lparr> k_nesting := k_nesting b - 1 \<rparr>"

definition setTFStepLimit :: "int64 \<Rightarrow> checkBudget \<Rightarrow> checkBudget" where
  "setTFStepLimit n b = b\<lparr> k_maxTFSteps := (if n <s 0 then 0 else n) \<rparr>"

definition tfStep :: "checkBudget \<Rightarrow> limitError option \<times> checkBudget" where
  "tfStep b =
     (case checkCtx (k_ctx b) of Some err \<Rightarrow> (Some err, b)
      | None \<Rightarrow>
        let b1 = b\<lparr> k_tfSteps := k_tfSteps b + 1 \<rparr>
        in if 0 <s k_maxTFSteps b1 \<and> k_maxTFSteps b1 <s k_tfSteps b1
           then (Some TFStepLimitError, b1) else (None, b1))"

definition resetTFSteps :: "checkBudget \<Rightarrow> checkBudget" where
  "resetTFSteps b = b\<lparr> k_tfSteps := 0 \<rparr>"

definition setSolverStepLimit :: "int64 \<Rightarrow> checkBudget \<Rightarrow> checkBudget" where
  "setSolverStepLimit n b = b\<lparr> k_maxSolverSteps := (if n <s 0 then 0 else n) \<rparr>"

definition solverStep :: "checkBudget \<Rightarrow> limitError option \<times> checkBudget" where
  "solverStep b =
     (case checkCtx (k_ctx b) of Some err \<Rightarrow> (Some err, b)
      | None \<Rightarrow>
        let b1 = b\<lparr> k_solverSteps := k_solverSteps b + 1 \<rparr>
        in if 0 <s k_maxSolverSteps b1 \<and> k_maxSolverSteps b1 <s k_solverSteps b1
           then (Some SolverStepLimitError, b1) else (None, b1))"

definition resetSolverSteps :: "checkBudget \<Rightarrow> checkBudget" where
  "resetSolverSteps b = b\<lparr> k_solverSteps := 0 \<rparr>"

definition setResolveDepthLimit :: "int64 \<Rightarrow> checkBudget \<Rightarrow> checkBudget" where
  "setResolveDepthLimit n b = b\<lparr> k_maxResolveDepth := (if n <s 0 then 0 else n) \<rparr>"

definition enterResolve :: "checkBudget \<Rightarrow> limitError option \<times> checkBudget" where
  "enterResolve b =
     (case checkCtx (k_ctx b) of Some err \<Rightarrow> (Some err, b)
      | None \<Rightarrow>
        let b1 = b\<lparr> k_resolveDepth := k_resolveDepth b + 1 \<rparr>
        in if 0 <s k_maxResolveDepth b1 \<and> k_maxResolveDepth b1 <s k_resolveDepth b1
           then (Some ResolveDepthLimitError, b1) else (None, b1))"

definition leaveResolve :: "checkBudget \<Rightarrow> checkBudget" where
  "leaveResolve b = b\<lparr> k_resolveDepth := k_resolveDepth b - 1 \<rparr>"

section \<open>One charge\<close>

lemma sint64_lt [go_simps]: "x <s y \<longleftrightarrow> sint (x :: int64) < sint y"
  by (simp add: word_sless_alt)

lemma sint64_le [go_simps]: "x \<le>s y \<longleftrightarrow> sint (x :: int64) \<le> sint y"
  by (simp add: word_sle_eq)

lemma and63: "unat ((x :: int64) AND 63) = unat x mod 64"
proof -
  have "x AND 63 = take_bit 6 x"
    by (simp add: take_bit_eq_mask mask_numeral)
  then have "x AND 63 = x mod 64"
    by (simp add: take_bit_eq_mod)
  then show ?thesis
    by (simp add: unat_mod)
qed

lemma and63_zero_iff: "((x :: int64) AND 63 = 0) \<longleftrightarrow> unat x mod 64 = 0"
  using and63 [of x] by (metis unat_0 unat_eq_zero)

lemmas budget_defs = stepB_def enterB_def leaveB_def allocB_def checkB_def

lemma checkB_live: "b_ctx b = None \<Longrightarrow> fst (checkB b) = None"
  by (simp add: checkB_def checkCtx_def Let_def)

lemma checkB_frame [simp]:
  "b_ctx (snd (checkB b)) = b_ctx b" "b_steps (snd (checkB b)) = b_steps b"
  "b_max (snd (checkB b)) = b_max b" "b_depth (snd (checkB b)) = b_depth b"
  "b_maxDepth (snd (checkB b)) = b_maxDepth b" "b_alloc (snd (checkB b)) = b_alloc b"
  "b_maxAlloc (snd (checkB b)) = b_maxAlloc b" "b_ops (snd (checkB b)) = b_ops b + 1"
  by (auto simp: checkB_def checkCtx_def Let_def split: option.splits)

text \<open>A context that is done is reported exactly when the operation counter reaches a multiple of 64.\<close>

lemma checkB_done:
  assumes "b_ctx b = Some e"
  shows "fst (checkB b) = (if (unat (b_ops b) + 1) mod 64 = 0 then Some (wrapCtxErr e) else None)"
proof -
  have "unat (b_ops b + 1) mod 64 = (unat (b_ops b) + 1) mod 64"
    by (simp add: unat_word_ariths mod_mod_cancel)
  then show ?thesis
    using assms by (auto simp: checkB_def checkCtx_def Let_def and63_zero_iff)
qed

section \<open>Metered operations\<close>

text \<open>
  Six of the limiters are the same device: a call adds one to a counter and fails when the counter
  has reached the limit (\<open>slack = 0\<close>: Step, Enter) or passed it (\<open>slack = 1\<close>: Nest, TFStep,
  SolverStep, EnterResolve), unless the limit is zero. The contract is stated once; each limiter is
  an instance while its context is live.
\<close>

fun charges :: "('b \<Rightarrow> limitError option \<times> 'b) \<Rightarrow> nat \<Rightarrow> 'b \<Rightarrow> limitError option \<times> 'b" where
  "charges f 0 b = (None, b)"
| "charges f (Suc n) b = (case f b of (None, b') \<Rightarrow> charges f n b' | (Some e, b') \<Rightarrow> (Some e, b'))"

locale metered =
  fixes charge :: "'b \<Rightarrow> limitError option \<times> 'b"
    and count :: "'b \<Rightarrow> int64" and cap :: "'b \<Rightarrow> int64"
    and slack :: int and E :: limitError and live :: "'b \<Rightarrow> bool"
  assumes slack_01: "slack = 0 \<or> slack = 1"
    and charge_count: "live b \<Longrightarrow> count (snd (charge b)) = count b + 1"
    and charge_cap: "live b \<Longrightarrow> cap (snd (charge b)) = cap b"
    and charge_live: "live b \<Longrightarrow> live (snd (charge b))"
    and charge_err: "live b \<Longrightarrow> fst (charge b) =
      (if 0 < sint (cap b) \<and> sint (cap b) + slack \<le> sint (count b + 1) then Some E else None)"
begin

lemma charge_cases:
  assumes "live b"
  obtains b' where "charge b = (if 0 < sint (cap b) \<and> sint (cap b) + slack \<le> sint (count b + 1)
      then Some E else None, b')" "live b'" "count b' = count b + 1" "cap b' = cap b"
  using that [of "snd (charge b)"] charge_count [OF assms] charge_cap [OF assms]
    charge_live [OF assms] charge_err [OF assms]
  by (simp add: prod_eq_iff)

text \<open>With a positive limit, \<open>n\<close> further charges all succeed exactly when they stay below it.\<close>

lemma charges_exact:
  assumes "live b" "0 < sint (cap b)" "sint (cap b) < 2 ^ 63 - 1"
    and "0 \<le> sint (count b)" "sint (count b) < sint (cap b) + slack"
  shows "fst (charges charge n b) =
    (if sint (count b) + int n < sint (cap b) + slack then None else Some E)"
  using assms
proof (induction n arbitrary: b)
  case 0
  then show ?case by simp
next
  case (Suc n)
  obtain b' where b': "charge b = (if 0 < sint (cap b) \<and> sint (cap b) + slack \<le> sint (count b + 1)
      then Some E else None, b')" "live b'" "count b' = count b + 1" "cap b' = cap b"
    using charge_cases [OF Suc.prems(1)] by blast
  have one: "sint (count b + 1) = sint (count b) + 1"
    using Suc.prems slack_01 sint64_add_no_overflow [of "count b" 1] by auto
  show ?case
  proof (cases "sint (cap b) + slack \<le> sint (count b) + 1")
    case True
    then show ?thesis using b' one Suc.prems by simp
  next
    case False
    then show ?thesis using b' one Suc.prems Suc.IH [of b'] by simp
  qed
qed

text \<open>With the limit disabled no charge fails.\<close>

lemma charges_unlimited: "live b \<Longrightarrow> sint (cap b) \<le> 0 \<Longrightarrow> fst (charges charge n b) = None"
proof (induction n arbitrary: b)
  case (Suc n)
  obtain b' where "charge b = (if 0 < sint (cap b) \<and> sint (cap b) + slack \<le> sint (count b + 1)
      then Some E else None, b')" "live b'" "cap b' = cap b"
    using charge_cases [OF Suc.prems(1)] by blast
  then show ?case using Suc by simp
qed simp

end

interpretation step_meter: metered stepB b_steps b_max 0 StepLimitError "\<lambda>b. b_ctx b = None"
  by unfold_locales (auto simp: stepB_def Let_def go_simps checkB_live)

interpretation enter_meter: metered enterB b_depth b_maxDepth 0 DepthLimitError "\<lambda>b. b_ctx b = None"
  by unfold_locales (auto simp: enterB_def Let_def go_simps checkB_live)

interpretation nest_meter: metered nest k_nesting k_maxNesting 1 NestingLimitError "\<lambda>_. True"
  by unfold_locales (auto simp: nest_def Let_def go_simps)

interpretation tf_meter: metered tfStep k_tfSteps k_maxTFSteps 1 TFStepLimitError "\<lambda>b. k_ctx b = None"
  by unfold_locales (auto simp: tfStep_def checkCtx_def Let_def go_simps)

interpretation solver_meter: metered solverStep k_solverSteps k_maxSolverSteps 1 SolverStepLimitError
    "\<lambda>b. k_ctx b = None"
  by unfold_locales (auto simp: solverStep_def checkCtx_def Let_def go_simps)

interpretation resolve_meter: metered enterResolve k_resolveDepth k_maxResolveDepth 1
    ResolveDepthLimitError "\<lambda>b. k_ctx b = None"
  by unfold_locales (auto simp: enterResolve_def checkCtx_def Let_def go_simps)

section \<open>Sequences of operations\<close>

text \<open>The calls an execution makes on its budget, in order, stopping at the first error.\<close>

datatype bop = OStep | OEnter | OLeave | OAlloc int64

fun opB :: "bop \<Rightarrow> budget \<Rightarrow> limitError option \<times> budget" where
  "opB OStep b = stepB b"
| "opB OEnter b = enterB b"
| "opB OLeave b = (None, leaveB b)"
| "opB (OAlloc n) b = allocB n b"

fun runB :: "bop list \<Rightarrow> budget \<Rightarrow> limitError option \<times> budget" where
  "runB [] b = (None, b)"
| "runB (x # xs) b = (case opB x b of (None, b') \<Rightarrow> runB xs b' | (Some e, b') \<Rightarrow> (Some e, b'))"

text \<open>The counters are within every enabled limit.\<close>

definition within_limits :: "budget \<Rightarrow> bool" where
  "within_limits b \<longleftrightarrow>
     (0 <s b_max b \<longrightarrow> 0 \<le>s b_steps b \<and> b_steps b <s b_max b) \<and>
     (0 <s b_maxDepth b \<longrightarrow> 0 \<le>s b_depth b \<and> b_depth b <s b_maxDepth b) \<and>
     (0 <s b_maxAlloc b \<longrightarrow> 0 \<le>s b_alloc b \<and> b_alloc b <s b_maxAlloc b)"

definition same_limits :: "budget \<Rightarrow> budget \<Rightarrow> bool" where
  "same_limits b b' \<longleftrightarrow>
     b_max b' = b_max b \<and> b_maxDepth b' = b_maxDepth b \<and> b_maxAlloc b' = b_maxAlloc b \<and> b_ctx b' = b_ctx b"

text \<open>An allocation whose size cannot carry an admissible counter past the 64-bit range.\<close>

fun safe_op :: "int64 \<Rightarrow> bop \<Rightarrow> bool" where
  "safe_op lim (OAlloc n) = (sint lim + sint n < 2 ^ 63)"
| "safe_op lim _ = True"

lemma opB_same_limits: "same_limits b (snd (opB x b))"
  by (cases x) (auto simp: same_limits_def stepB_def enterB_def leaveB_def allocB_def Let_def)

lemma succ_below:
  "0 \<le> sint (x :: int64) \<Longrightarrow> sint x < sint (m :: int64) \<Longrightarrow> sint (x + 1) = sint x + 1"
  using sint64_add_no_overflow [of x 1] sint64_bounds [of m] by simp

lemma stepB_within:
  "within_limits b \<Longrightarrow> fst (stepB b) = None \<Longrightarrow> within_limits (snd (stepB b))"
  using succ_below [of "b_steps b" "b_max b"]
  by (auto simp: within_limits_def stepB_def Let_def go_simps split: if_splits)

lemma enterB_within:
  "within_limits b \<Longrightarrow> fst (enterB b) = None \<Longrightarrow> within_limits (snd (enterB b))"
  using succ_below [of "b_depth b" "b_maxDepth b"]
  by (auto simp: within_limits_def enterB_def Let_def go_simps split: if_splits)

lemma leaveB_within: "within_limits b \<Longrightarrow> within_limits (leaveB b)"
proof -
  have "0 < sint (b_depth b) \<Longrightarrow> sint (b_depth b - 1) = sint (b_depth b) - 1"
    using sint64_add_no_overflow [of "b_depth b" "- 1"] sint64_bounds [of "b_depth b"] by simp
  then show "within_limits b \<Longrightarrow> within_limits (leaveB b)"
    by (auto simp: within_limits_def leaveB_def go_simps)
qed

lemma allocB_within:
  assumes "within_limits b" "fst (allocB n b) = None"
    and "0 < sint (b_maxAlloc b) \<Longrightarrow> sint (b_maxAlloc b) + sint n < 2 ^ 63"
  shows "within_limits (snd (allocB n b))"
proof -
  have "0 < sint (b_maxAlloc b) \<Longrightarrow> 0 \<le> sint n \<Longrightarrow> sint (b_alloc b + n) = sint (b_alloc b) + sint n"
    using assms sint64_add_no_overflow [of "b_alloc b" n]
    by (simp add: within_limits_def go_simps)
  then show ?thesis
    using assms by (auto simp: within_limits_def allocB_def Let_def go_simps split: if_splits)
qed

lemma opB_within:
  "within_limits b \<Longrightarrow> safe_op (b_maxAlloc b) x \<Longrightarrow> fst (opB x b) = None \<Longrightarrow> within_limits (snd (opB x b))"
  by (cases x) (simp_all add: stepB_within enterB_within leaveB_within allocB_within)

lemma runB_within:
  "within_limits b \<Longrightarrow> list_all (safe_op (b_maxAlloc b)) xs \<Longrightarrow> fst (runB xs b) = None \<Longrightarrow>
     within_limits (snd (runB xs b)) \<and> same_limits b (snd (runB xs b))"
proof (induction xs arbitrary: b)
  case Nil
  then show ?case by (simp add: same_limits_def)
next
  case (Cons x xs)
  obtain r b' where op: "opB x b = (r, b')" by fastforce
  with Cons.prems have r: "r = None" by (auto split: option.splits)
  have "within_limits b'" "same_limits b b'"
    using opB_within [of b x] opB_same_limits [of b x] Cons.prems op r by simp_all
  with Cons op r show ?case by (auto simp: same_limits_def)
qed

section \<open>Cancellation\<close>

fun charged :: "bop \<Rightarrow> bool" where
  "charged OLeave = False"
| "charged _ = True"

text \<open>How many more charged calls can pass before the counter reaches the next multiple of 64.\<close>

definition ops_left :: "budget \<Rightarrow> nat" where
  "ops_left b = 63 - unat (b_ops b) mod 64"

lemma opB_cancelled:
  assumes "b_ctx b = Some e" "charged x" "fst (opB x b) = None"
  shows "ops_left b = Suc (ops_left (snd (opB x b)))"
proof -
  have chk: "ops_left b = Suc (ops_left (snd (checkB c)))"
    if "fst (checkB c) = None" "b_ctx c = Some e" "b_ops c = b_ops b" for c
  proof -
    have "(unat (b_ops b) + 1) mod 64 \<noteq> 0"
      using that checkB_done [of c e] by (auto split: if_splits)
    moreover have "unat (b_ops b + 1) mod 64 = (unat (b_ops b) + 1) mod 64"
      by (simp add: unat_word_ariths mod_mod_cancel)
    ultimately show ?thesis
      using that by (simp add: ops_left_def mod_Suc split: if_splits)
  qed
  show ?thesis
    using assms by (cases x) (auto simp: stepB_def enterB_def allocB_def Let_def chk split: if_splits)
qed

lemma leaveB_ops: "ops_left (leaveB b) = ops_left b"
  by (simp add: leaveB_def ops_left_def)

lemma runB_cancelled:
  "b_ctx b = Some e \<Longrightarrow> fst (runB xs b) = None \<Longrightarrow> length (filter charged xs) \<le> ops_left b"
proof (induction xs arbitrary: b)
  case (Cons x xs)
  obtain r b' where op: "opB x b = (r, b')" by fastforce
  with Cons.prems have r: "r = None" and rest: "fst (runB xs b') = None" by (auto split: option.splits)
  have ctx: "b_ctx b' = Some e"
    using opB_same_limits [of b x] op Cons.prems by (simp add: same_limits_def)
  show ?case
  proof (cases "charged x")
    case True
    then show ?thesis using Cons.IH [OF ctx rest] opB_cancelled [OF Cons.prems(1) True] op r by simp
  next
    case False
    then have "x = OLeave" by (cases x) auto
    then show ?thesis using Cons.IH [OF ctx rest] op leaveB_ops [of b] by auto
  qed
qed simp

section \<open>Properties\<close>

text \<open>With a live context and a positive step limit \<open>m\<close>, exactly the first \<open>m - 1\<close> calls of
  \<^verbatim>\<open>Step\<close> on a new budget succeed; the next one fails with the step limit error.\<close>

theorem step_limit_exact:
  assumes "0 < sint m" "sint m < 2 ^ 63 - 1"
  shows "fst (charges stepB n (newBudget None m d)) = (if int n < sint m then None else Some StepLimitError)"
  using step_meter.charges_exact [of "newBudget None m d" n] assms
  by (simp add: newBudget_def Let_def go_simps)

theorem step_limit_exact_witness:
  "fst (charges stepB 2 (newBudget None 3 0)) = None \<and>
   fst (charges stepB 3 (newBudget None 3 0)) = Some StepLimitError"
  using step_limit_exact [of 3 2 0] step_limit_exact [of 3 3 0] by simp

text \<open>With a positive limit and a live context, a new compiler budget admits exactly \<open>n\<close> nested
  levels, type family steps, solver steps and resolution levels up to the limit, and reports the
  limit of that dimension at the next call.\<close>

theorem check_limits_exact:
  assumes "0 < sint m" "sint m < 2 ^ 63 - 1"
  shows "fst (charges nest n (setNestingLimit m (newCheckBudget ctx))) =
           (if int n \<le> sint m then None else Some NestingLimitError) \<and>
         fst (charges tfStep n (setTFStepLimit m (newCheckBudget None))) =
           (if int n \<le> sint m then None else Some TFStepLimitError) \<and>
         fst (charges solverStep n (setSolverStepLimit m (newCheckBudget None))) =
           (if int n \<le> sint m then None else Some SolverStepLimitError) \<and>
         fst (charges enterResolve n (setResolveDepthLimit m (newCheckBudget None))) =
           (if int n \<le> sint m then None else Some ResolveDepthLimitError)"
  using nest_meter.charges_exact [of "setNestingLimit m (newCheckBudget ctx)" n]
    tf_meter.charges_exact [of "setTFStepLimit m (newCheckBudget None)" n]
    solver_meter.charges_exact [of "setSolverStepLimit m (newCheckBudget None)" n]
    resolve_meter.charges_exact [of "setResolveDepthLimit m (newCheckBudget None)" n] assms
  by (simp add: newCheckBudget_def setNestingLimit_def setTFStepLimit_def setSolverStepLimit_def
      setResolveDepthLimit_def go_simps)

theorem check_limits_exact_witness:
  "fst (charges nest 2 (setNestingLimit 2 (newCheckBudget None))) = None \<and>
   fst (charges nest 3 (setNestingLimit 2 (newCheckBudget None))) = Some NestingLimitError"
  using check_limits_exact [of 2 2 None] check_limits_exact [of 2 3 None] by simp

text \<open>C23: However Step, Enter, Leave and Alloc calls are interleaved, as long as none has failed every
  enabled counter is below its limit, provided no single allocation is so large that the limit
  plus its size leaves the 64-bit range; the limits themselves never change.\<close>

theorem budget_run_within_limits:
  assumes "within_limits b" "list_all (safe_op (b_maxAlloc b)) xs" "fst (runB xs b) = None"
  shows "within_limits (snd (runB xs b)) \<and> same_limits b (snd (runB xs b))"
  using runB_within [OF assms] .

theorem budget_run_within_limits_witness:
  "within_limits (snd (runB [OStep, OEnter, OAlloc 100, OLeave] (setAllocLimit 1000 (newBudget None 5 5))))"
proof -
  let ?b = "setAllocLimit 1000 (newBudget None 5 5)" and ?xs = "[OStep, OEnter, OAlloc 100, OLeave]"
  have "within_limits ?b" "list_all (safe_op (b_maxAlloc ?b)) ?xs" "fst (runB ?xs ?b) = None"
    by (simp_all add: within_limits_def setAllocLimit_def newBudget_def budget_defs go_simps)
  then show ?thesis using budget_run_within_limits [of ?b ?xs] by blast
qed

text \<open>C39: A context that is done (deadline passed or cancelled) is noticed: no run that contains 64
  charged calls (Step, Enter or Alloc, with any Leave calls between them) completes without an
  error.\<close>

theorem cancellation_noticed:
  assumes "b_ctx b = Some e" "64 \<le> length (filter charged xs)"
  shows "fst (runB xs b) \<noteq> None"
proof
  assume "fst (runB xs b) = None"
  then have "length (filter charged xs) \<le> ops_left b"
    by (rule runB_cancelled [OF assms(1)])
  then have "length (filter charged xs) \<le> 63"
    by (simp add: ops_left_def)
  with assms(2) show False by simp
qed

theorem cancellation_noticed_witness:
  "fst (runB (replicate 64 OStep) (newBudget (Some Canceled) 0 0)) \<noteq> None"
  by (rule cancellation_noticed [of _ Canceled]) (simp_all add: newBudget_def)

lemma sint64_add_MaxInt64:
  assumes "0 < sint (x :: int64)"
  shows "sint (x + MaxInt64) = sint x - 2 ^ 63 - 1"
proof -
  have pred: "sint (x - 1) = sint x - 1"
    using sint64_add_no_overflow [of x "- 1"] assms sint64_bounds [of x] by simp
  have "x + MaxInt64 = (x - 1) + 0x8000000000000000" by simp
  also have "sint \<dots> = sint (x - 1) + sint (0x8000000000000000 :: int64)"
    using pred assms sint64_bounds [of x] by (intro sint64_add_no_overflow) simp_all
  finally show ?thesis using pred by simp
qed

text \<open>The guard of \<^verbatim>\<open>Alloc\<close> is defeated by 64-bit wrap-around: once anything has been allocated, a
  request of the largest \<^verbatim>\<open>int64\<close> size is not refused by the allocation limit, and it leaves the
  counter negative.\<close>

theorem alloc_limit_bypass:
  assumes "0 < sint (b_alloc b)"
  shows "fst (allocB MaxInt64 b) \<noteq> Some (AllocLimitError u l) \<and> sint (b_alloc (snd (allocB MaxInt64 b))) < 0"
proof -
  have "sint (b_alloc b + MaxInt64) < 0"
    using sint64_add_MaxInt64 [OF assms] sint64_bounds [of "b_alloc b"] by simp
  then show ?thesis
    by (auto simp: allocB_def Let_def go_simps checkB_def checkCtx_def wrapCtxErr_def split: option.splits)
qed

theorem alloc_limit_bypass_witness:
  "fst (allocB MaxInt64 (snd (allocB 1 (setAllocLimit 1000 (newBudget None 0 0))))) \<noteq>
     Some (AllocLimitError 0 1000)"
  using alloc_limit_bypass [of "snd (allocB 1 (setAllocLimit 1000 (newBudget None 0 0)))" 0 1000]
  by (simp add: setAllocLimit_def newBudget_def budget_defs go_simps)

end
