(* ===== verification/Span_Source.thy ===== *)
theory Span_Source
  imports Go_Base
begin

text \<open>
  Source positions: \<^verbatim>\<open>internal/infra/span/span.go\<close>. A \<open>source\<close> holds the text and the byte offsets of
  its line starts; \<open>location\<close> finds the 1-based line and column of an offset by binary search and
  \<open>excerpt\<close> cuts the text of a span. Text is a list of bytes (\<open>char\<close>), positions are Go \<^verbatim>\<open>int\<close>s that
  never leave the text's range, so they are mathematical integers. The results say that the line
  table is sorted and starts at 0, that the binary search returns the number of line starts at or
  before the offset, that this agrees with counting newlines, and that an excerpt is the span
  clamped to the text.
\<close>

section \<open>Definitions\<close>

record span =
  spanStart :: int
  spanEnd :: int

definition isZero :: "span \<Rightarrow> bool" where
  "isZero s \<longleftrightarrow> s = \<lparr> spanStart = 0, spanEnd = 0 \<rparr>"

record source =
  srcName :: string
  srcText :: string
  srcLines :: "int list"

text \<open>The loop of \<^verbatim>\<open>NewSource\<close> over the remaining text, from byte \<open>i\<close>.\<close>

fun lineStarts :: "int \<Rightarrow> string \<Rightarrow> int list" where
  "lineStarts i [] = []"
| "lineStarts i (c # cs) = (if c = CHR 0x0A then (i + 1) # lineStarts (i + 1) cs else lineStarts (i + 1) cs)"

definition newSource :: "string \<Rightarrow> string \<Rightarrow> source" where
  "newSource name src = \<lparr> srcName = name, srcText = src, srcLines = 0 # lineStarts 0 src \<rparr>"

text \<open>The binary search of \<^verbatim>\<open>Location\<close>: the first index in \<open>[lo, hi)\<close> whose line start is beyond \<open>p\<close>.\<close>

function locSearch :: "int list \<Rightarrow> int \<Rightarrow> nat \<Rightarrow> nat \<Rightarrow> nat" where
  "locSearch lns p lo hi =
     (if lo < hi
      then let mid = lo + (hi - lo) div 2
           in if lns ! mid \<le> p then locSearch lns p (mid + 1) hi else locSearch lns p lo mid
      else lo)"
  by pat_completeness auto
termination
  by (relation "measure (\<lambda>(lns, p, lo, hi). hi - lo)") (auto simp: Let_def)

declare locSearch.simps [simp del]

lemma locSearch_step:
  "\<not> lo < hi \<Longrightarrow> locSearch lns p lo hi = lo"
  "lo < hi \<Longrightarrow> lns ! (lo + (hi - lo) div 2) \<le> p \<Longrightarrow>
     locSearch lns p lo hi = locSearch lns p (lo + (hi - lo) div 2 + 1) hi"
  "lo < hi \<Longrightarrow> \<not> lns ! (lo + (hi - lo) div 2) \<le> p \<Longrightarrow>
     locSearch lns p lo hi = locSearch lns p lo (lo + (hi - lo) div 2)"
  by (subst locSearch.simps, simp add: Let_def)+

text \<open>\<open>Location\<close>; \<open>None\<close> is the out-of-range panic of \<^verbatim>\<open>s.Lines[lo-1]\<close> when no line starts at or
  before the position.\<close>

definition location :: "source \<Rightarrow> int \<Rightarrow> (nat \<times> int) option" where
  "location s p =
     (let lo = locSearch (srcLines s) p 0 (length (srcLines s))
      in if lo = 0 then None else Some (lo, (p - srcLines s ! (lo - 1)) + 1))"

definition excerpt :: "source \<Rightarrow> span \<Rightarrow> string" where
  "excerpt s sp =
     (let start = (if spanStart sp < 0 then 0 else spanStart sp);
          stop = (if spanEnd sp > int (length (srcText s)) then int (length (srcText s)) else spanEnd sp)
      in if start \<ge> stop then [] else take (nat (stop - start)) (drop (nat start) (srcText s)))"

section \<open>The line table\<close>

lemma lineStarts_bounds: "x \<in> set (lineStarts i cs) \<Longrightarrow> i < x \<and> x \<le> i + int (length cs)"
  by (induction cs arbitrary: i) (fastforce split: if_splits)+

lemma lineStarts_sorted: "sorted_wrt (<) (lineStarts i cs)"
proof (induction cs arbitrary: i)
  case (Cons c cs)
  then show ?case using lineStarts_bounds [of _ "i + 1" cs] by auto
qed simp

lemma srcLines_sorted: "sorted_wrt (<) (srcLines (newSource name src))"
  using lineStarts_bounds [of _ 0 src] lineStarts_sorted [of 0 src] by (auto simp: newSource_def)

text \<open>How many newlines occur before offset \<open>p\<close>.\<close>

definition newlinesBefore :: "string \<Rightarrow> nat \<Rightarrow> nat" where
  "newlinesBefore src p = length (filter (\<lambda>c. c = CHR 0x0A) (take p src))"

lemma lineStarts_upto:
  "length (filter (\<lambda>x. x \<le> i + int p) (lineStarts i cs)) = newlinesBefore cs p"
proof (induction cs arbitrary: i p)
  case Nil
  then show ?case by (simp add: newlinesBefore_def)
next
  case (Cons c cs)
  show ?case
  proof (cases p)
    case 0
    then have "filter (\<lambda>x. x \<le> i + int p) (lineStarts i (c # cs)) = []"
      using lineStarts_bounds [where i = i and cs = "c # cs"] by (simp add: filter_empty_conv not_le)
    then show ?thesis using 0 by (simp add: newlinesBefore_def)
  next
    case (Suc q)
    then show ?thesis using Cons.IH [of "i + 1" q] by (simp add: newlinesBefore_def add.assoc)
  qed
qed

section \<open>The search\<close>

text \<open>On a sorted table the search returns the number of entries at or before \<open>p\<close>.\<close>

lemma locSearch_bounds: "lo \<le> hi \<Longrightarrow> lo \<le> locSearch lns p lo hi \<and> locSearch lns p lo hi \<le> hi"
proof (induction lns p lo hi rule: locSearch.induct)
  case (1 lns p lo hi)
  let ?mid = "lo + (hi - lo) div 2"
  consider "\<not> lo < hi" | "lo < hi" "lns ! ?mid \<le> p" | "lo < hi" "\<not> lns ! ?mid \<le> p" by blast
  then show ?case
  proof cases
    case 1
    then show ?thesis using "1.prems" by (simp add: locSearch_step(1))
  next
    case 2
    then have "?mid + 1 \<le> hi" by linarith
    then show ?thesis using 2 "1.IH"(1) [OF 2(1) refl 2(2)] by (simp add: locSearch_step(2))
  next
    case 3
    then have "?mid \<le> hi" by linarith
    then show ?thesis using 3 "1.IH"(2) [OF 3(1) refl 3(2)] by (simp add: locSearch_step(3))
  qed
qed

lemma locSearch_splits:
  assumes "sorted_wrt (<) lns" "lo \<le> hi" "hi \<le> length lns"
    and "\<And>i. i < lo \<Longrightarrow> lns ! i \<le> p" "\<And>i. hi \<le> i \<Longrightarrow> i < length lns \<Longrightarrow> p < lns ! i"
  shows "(\<forall>i < locSearch lns p lo hi. lns ! i \<le> p) \<and>
         (\<forall>i. locSearch lns p lo hi \<le> i \<longrightarrow> i < length lns \<longrightarrow> p < lns ! i)"
  using assms
proof (induction lns p lo hi rule: locSearch.induct)
  case (1 lns p lo hi)
  let ?mid = "lo + (hi - lo) div 2"
  show ?case
  proof (cases "lo < hi")
    case False
    then show ?thesis using "1.prems" by (simp add: locSearch_step(1))
  next
    case True
    then have mid: "lo \<le> ?mid" "?mid < hi" by auto
    show ?thesis
    proof (cases "lns ! ?mid \<le> p")
      case le: True
      have "lns ! i \<le> p" if "i < ?mid + 1" for i
        using le that mid "1.prems"(1,3) sorted_wrt_nth_less [OF "1.prems"(1), of i ?mid]
        by (cases "i = ?mid") auto
      then show ?thesis
        using "1.IH"(1) [OF True refl le "1.prems"(1) _ "1.prems"(3) _ "1.prems"(5)] mid
        by (simp add: locSearch_step(2) [OF True le])
    next
      case gt: False
      have "p < lns ! i" if "?mid \<le> i" "i < length lns" for i
        using gt that mid sorted_wrt_nth_less [OF "1.prems"(1), of ?mid i] by (cases "i = ?mid") auto
      then show ?thesis
        using "1.IH"(2) [OF True refl gt "1.prems"(1) _ _ "1.prems"(4)] mid "1.prems"(3)
        by (simp add: locSearch_step(3) [OF True gt])
    qed
  qed
qed

lemma filter_prefix_length:
  assumes "n \<le> length xs" "\<forall>i<n. P (xs ! i)" "\<forall>i. n \<le> i \<longrightarrow> i < length xs \<longrightarrow> \<not> P (xs ! i)"
  shows "length (filter P xs) = n"
proof -
  have "filter P (take n xs) = take n xs"
    using assms(1,2) by (auto simp: filter_id_conv in_set_conv_nth)
  moreover have "filter P (drop n xs) = []"
    using assms(3) by (fastforce simp: filter_empty_conv in_set_conv_nth)
  ultimately have "filter P xs = take n xs"
    using filter_append [of P "take n xs" "drop n xs"] by simp
  then show ?thesis using assms(1) by simp
qed

lemma locSearch_count:
  assumes "sorted_wrt (<) lns"
  shows "locSearch lns p 0 (length lns) = length (filter (\<lambda>x. x \<le> p) lns)"
proof -
  let ?n = "locSearch lns p 0 (length lns)"
  have "?n \<le> length lns" using locSearch_bounds [of 0 "length lns" lns p] by simp
  then show ?thesis
    using locSearch_splits [OF assms, of 0 "length lns" p]
    by (intro filter_prefix_length [symmetric]) (auto simp: not_le)
qed

section \<open>Properties\<close>

text \<open>For every offset inside the text, \<^verbatim>\<open>Location\<close> returns (it does not index out of range), its line
  is one more than the number of newlines before the offset, and the column is one more than the
  distance to the start of that line, which is not past the offset.\<close>

theorem location_correct:
  assumes "p \<le> length src"
  shows "\<exists>line col. location (newSource name src) (int p) = Some (line, col) \<and>
    line = newlinesBefore src p + 1 \<and>
    col = int p - srcLines (newSource name src) ! (line - 1) + 1 \<and> 1 \<le> col"
proof -
  let ?s = "newSource name src"
  let ?n = "locSearch (srcLines ?s) (int p) 0 (length (srcLines ?s))"
  have "?n = length (filter (\<lambda>x. x \<le> int p) (srcLines ?s))"
    by (rule locSearch_count [OF srcLines_sorted])
  also have "\<dots> = newlinesBefore src p + 1"
    using lineStarts_upto [of 0 p src] by (simp add: newSource_def)
  finally have n: "?n = newlinesBefore src p + 1" .
  have "srcLines ?s ! (?n - 1) \<le> int p"
    using locSearch_splits [OF srcLines_sorted, of 0 "length (srcLines ?s)" name src "int p"] n by simp
  then show ?thesis using n by (simp add: location_def)
qed

theorem location_correct_witness:
  "\<exists>line col. location (newSource ''f'' [CHR ''a'', CHR 0x0A, CHR ''b'']) (int 2) = Some (line, col) \<and> line = 2"
  using location_correct [of 2 "[CHR ''a'', CHR 0x0A, CHR ''b'']" "''f''"]
  by (auto simp: newlinesBefore_def numeral_2_eq_2)

text \<open>An excerpt is exactly the bytes of the span that lie inside the text.\<close>

theorem excerpt_clamped:
  "excerpt s sp = map ((!) (srcText s)) [nat (max 0 (spanStart sp)) ..< nat (min (spanEnd sp) (int (length (srcText s))))]"
proof -
  have "take (nat (b - a)) (drop (nat a) xs) = map ((!) xs) [nat a ..< nat b]"
    if "0 \<le> a" "a < b" "b \<le> int (length xs)" for a b :: int and xs :: string
    using that by (intro nth_equalityI) (auto simp: nat_diff_distrib')
  then show ?thesis by (auto simp: excerpt_def Let_def max_def min_def)
qed

end
