(* ===== verification/Edit_Suggest.thy ===== *)
theory Edit_Suggest
  imports Go_Base "HOL-Library.Product_Lexorder"
begin

text \<open>
  Name suggestions for diagnostics: \<^verbatim>\<open>internal/infra/diagnostic/suggest.go\<close>. A Go string is the list
  of its code points (the \<^verbatim>\<open>[]rune\<close> of a valid UTF-8 string); \<open>goLen\<close> is its length in bytes, which is
  what \<^verbatim>\<open>len\<close> counts. \<open>levenshtein\<close> is the single-row dynamic program, \<open>suggest\<close> the filter, sort and
  cut. The program is shown equal to the recursive edit distance \<open>editDist\<close>, whose basic laws
  follow; suggestions are within the threshold, ordered, and complete for candidates the length test
  lets through. That test compares byte lengths although the distance counts runes, and so drops
  some candidates that are within the threshold.
\<close>

section \<open>Definitions\<close>

type_synonym rune = nat
type_synonym gostring = "rune list"

definition runeLen :: "rune \<Rightarrow> nat" where
  "runeLen c = (if c < 0x80 then 1 else if c < 0x800 then 2 else if c < 0x10000 then 3 else 4)"

definition goLen :: "gostring \<Rightarrow> nat" where
  "goLen s = sum_list (map runeLen s)"

text \<open>The inner loop: \<open>left\<close> is \<^verbatim>\<open>curr[j-1]\<close>, \<open>diag\<close> is \<^verbatim>\<open>prev[j-1]\<close>; \<open>ups\<close> are \<^verbatim>\<open>prev[j..]\<close>.\<close>

fun levRow :: "rune \<Rightarrow> nat \<Rightarrow> nat \<Rightarrow> gostring \<Rightarrow> nat list \<Rightarrow> nat list" where
  "levRow a left diag (b # bs) (up # ups) =
     (let cost = (if a = b then 0 else 1);
          cell = min (min (left + 1) (up + 1)) (diag + cost)
      in cell # levRow a cell up bs ups)"
| "levRow a left diag _ _ = []"

text \<open>The outer loop: row \<open>i\<close> is built from the previous row.\<close>

fun levRows :: "nat \<Rightarrow> gostring \<Rightarrow> gostring \<Rightarrow> nat list \<Rightarrow> nat list" where
  "levRows i [] bs prev = prev"
| "levRows i (a # as) bs prev = levRows (i + 1) as bs (i # levRow a i (hd prev) bs (tl prev))"

definition levenshtein :: "gostring \<Rightarrow> gostring \<Rightarrow> nat" where
  "levenshtein a b =
     (if length a = 0 then length b
      else if length b = 0 then length a
      else levRows 1 a b [0 ..< length b + 1] ! length b)"

definition suggest :: "gostring \<Rightarrow> gostring list \<Rightarrow> int \<Rightarrow> nat \<Rightarrow> gostring list" where
  "suggest target candidates threshold maxResults =
     (let keep = (\<lambda>c. c \<noteq> target \<and>
            (let d = int (goLen c) - int (goLen target) in \<not> (d > threshold \<or> d < - threshold)) \<and>
            int (levenshtein target c) \<le> threshold);
          hits = map (\<lambda>c. (levenshtein target c, c)) (filter keep candidates)
      in map snd (take maxResults (sort hits)))"

section \<open>Edit distance\<close>

text \<open>The distance of the reversed strings, by the last characters, as the table computes it.\<close>

fun editDist :: "'a list \<Rightarrow> 'a list \<Rightarrow> nat" where
  "editDist [] ys = length ys"
| "editDist xs [] = length xs"
| "editDist (x # xs) (y # ys) =
     min (min (editDist (x # xs) ys + 1) (editDist xs (y # ys) + 1))
         (editDist xs ys + (if x = y then 0 else 1))"

lemma editDist_Nil2 [simp]: "editDist xs [] = length xs"
  by (cases xs) auto

text \<open>Distance between prefixes of \<open>a\<close> and \<open>b\<close>, read from their ends.\<close>

abbreviation preDist :: "'a list \<Rightarrow> 'a list \<Rightarrow> nat" where
  "preDist p q \<equiv> editDist (rev p) (rev q)"

lemma preDist_snoc:
  "preDist (p @ [x]) (q @ [y]) =
     min (min (preDist (p @ [x]) q + 1) (preDist p (q @ [y]) + 1)) (preDist p q + (if x = y then 0 else 1))"
  by simp

text \<open>One row: with the previous row holding the distances from \<open>p\<close>, the new row holds those from
  \<open>p @ [a]\<close>.\<close>

lemma levRow_correct:
  "levRow a (preDist (p @ [a]) q) (preDist p q) bs
      (map (\<lambda>j. preDist p (q @ take j bs)) [1 ..< length bs + 1]) =
   map (\<lambda>j. preDist (p @ [a]) (q @ take j bs)) [1 ..< length bs + 1]"
proof (induction bs arbitrary: q)
  case Nil
  then show ?case by simp
next
  case (Cons b bs)
  have shift: "map f [1 ..< length (b # bs) + 1] = f 1 # map (\<lambda>j. f (Suc j)) [1 ..< length bs + 1]"
    for f :: "nat \<Rightarrow> nat"
    by (subst upt_conv_Cons) (simp_all add: map_Suc_upt [symmetric] del: upt_Suc)
  have cell: "min (min (preDist (p @ [a]) q + 1) (preDist p (q @ [b]) + 1)) (preDist p q + (if a = b then 0 else 1))
      = preDist (p @ [a]) (q @ [b])"
    by (simp only: preDist_snoc)
  show ?case
    using Cons.IH [of "q @ [b]"] cell
    by (simp only: shift) (simp add: Let_def del: editDist.simps upt_Suc)
qed

lemma preDist_row_split:
  "map (\<lambda>j. preDist p (take j bs)) [0 ..< length bs + 1] =
     length p # map (\<lambda>j. preDist p (take j bs)) [1 ..< length bs + 1]"
  by (subst upt_conv_Cons) (simp_all del: upt_Suc)

lemma levRows_correct:
  "levRows (length p + 1) as bs (map (\<lambda>j. preDist p (take j bs)) [0 ..< length bs + 1]) =
     map (\<lambda>j. preDist (p @ as) (take j bs)) [0 ..< length bs + 1]"
proof (induction as arbitrary: p)
  case Nil
  then show ?case by simp
next
  case (Cons a as)
  have row: "(length p + 1) # levRow a (length p + 1) (length p) bs
        (map (\<lambda>j. preDist p (take j bs)) [1 ..< length bs + 1]) =
      map (\<lambda>j. preDist (p @ [a]) (take j bs)) [0 ..< length bs + 1]"
    using levRow_correct [of a p "[]" bs] preDist_row_split [of "p @ [a]" bs]
    by (simp del: editDist.simps(3) upt_Suc)
  show ?case
    using Cons.IH [of "p @ [a]"] row preDist_row_split [of p bs] by (simp del: upt_Suc)
qed

lemma levenshtein_preDist: "levenshtein a b = preDist a b"
proof (cases "a = [] \<or> b = []")
  case False
  have init: "[0 ..< length b + 1] = map (\<lambda>j. preDist [] (take j b)) [0 ..< length b + 1]"
    by (intro nth_equalityI) (simp_all del: upt_Suc)
  have "levRows 1 a b [0 ..< length b + 1] = map (\<lambda>j. preDist a (take j b)) [0 ..< length b + 1]"
    using levRows_correct [of "[]" a b] init by simp
  then show ?thesis using False by (simp add: levenshtein_def del: upt_Suc)
qed (auto simp: levenshtein_def)

text \<open>Alignments: the specification of the distance that does not mention any recursion order.\<close>

inductive edits :: "'a list \<Rightarrow> 'a list \<Rightarrow> nat \<Rightarrow> bool" where
  edits_Nil: "edits [] [] 0"
| edits_keep: "edits xs ys n \<Longrightarrow> edits (x # xs) (x # ys) n"
| edits_change: "edits xs ys n \<Longrightarrow> edits (x # xs) (y # ys) (Suc n)"
| edits_delete: "edits xs ys n \<Longrightarrow> edits (x # xs) ys (Suc n)"
| edits_insert: "edits xs ys n \<Longrightarrow> edits xs (y # ys) (Suc n)"

lemma edits_deletes: "edits xs [] (length xs)"
  by (induction xs) (auto intro: edits.intros)

lemma edits_inserts: "edits [] ys (length ys)"
  by (induction ys) (auto intro: edits.intros)

lemma editDist_edits: "edits xs ys (editDist xs ys)"
proof (induction xs ys rule: editDist.induct)
  case (3 x xs y ys)
  then show ?case by (auto simp: min_def intro: edits.intros)
qed (use edits_inserts edits_deletes [of "x # xs" for x xs] in auto)

lemma editDist_Cons_le:
  "editDist (x # xs) ys \<le> Suc (editDist xs ys)" "editDist xs (y # ys) \<le> Suc (editDist xs ys)"
proof -
  show "editDist (x # xs) ys \<le> Suc (editDist xs ys)" by (cases ys) auto
  show "editDist xs (y # ys) \<le> Suc (editDist xs ys)" by (cases xs) auto
qed

lemma editDist_le_edits: "edits xs ys n \<Longrightarrow> editDist xs ys \<le> n"
proof (induction rule: edits.induct)
  case (edits_delete xs ys n x)
  then show ?case using editDist_Cons_le(1) [of x xs ys] by simp
next
  case (edits_insert xs ys n y)
  then show ?case using editDist_Cons_le(2) [of xs y ys] by simp
qed (auto simp: min_def)

lemma edits_snoc:
  assumes "edits xs ys n"
  shows "edits (xs @ [x]) (ys @ [x]) n" "edits (xs @ [x]) (ys @ [y]) (Suc n)"
    "edits (xs @ [x]) ys (Suc n)" "edits xs (ys @ [y]) (Suc n)"
  using assms by (induction rule: edits.induct) (auto intro: edits.intros)

lemma edits_rev: "edits xs ys n \<Longrightarrow> edits (rev xs) (rev ys) n"
  by (induction rule: edits.induct) (auto intro: edits_snoc edits.edits_Nil)

lemma edits_length: "edits xs ys n \<Longrightarrow> length xs \<le> length ys + n \<and> length ys \<le> length xs + n"
  by (induction rule: edits.induct) auto

lemma editDist_rev: "editDist (rev xs) (rev ys) = editDist xs ys"
  using editDist_le_edits [OF edits_rev [OF editDist_edits [of xs ys]]]
    editDist_le_edits [OF edits_rev [OF editDist_edits [of "rev xs" "rev ys"]]] by simp

section \<open>Properties\<close>

text \<open>The single-row dynamic program computes the least number of insertions, deletions and
  substitutions that turn one string into the other.\<close>

theorem levenshtein_optimal:
  "edits a b (levenshtein a b) \<and> (\<forall>n. edits a b n \<longrightarrow> levenshtein a b \<le> n)"
  using editDist_edits [of a b] editDist_le_edits [of a b] by (simp add: levenshtein_preDist editDist_rev)

theorem levenshtein_optimal_witness:
  "edits [1 :: nat, 2, 3] [1, 3] (levenshtein [1, 2, 3] [1, 3]) \<and> levenshtein [1, 2, 3] [1, 3] = 1"
proof -
  have "levenshtein [1, 2, 3] [1, 3] = 1" by code_simp
  then show ?thesis using levenshtein_optimal [of "[1, 2, 3]" "[1, 3]"] by simp
qed

lemma suggest_hit:
  assumes "c \<in> set (suggest t cs k m)"
  shows "c \<in> set cs" "c \<noteq> t" "int (levenshtein t c) \<le> k"
  using assms by (auto simp: suggest_def Let_def dest: in_set_takeD)

text \<open>A suggestion is a candidate other than the target within the threshold, there are at most
  \<open>maxResults\<close> of them, and they come in order of distance, then lexicographically.\<close>

theorem suggest_sound:
  assumes "c \<in> set (suggest t cs k m)"
  shows "c \<in> set cs \<and> c \<noteq> t \<and> int (levenshtein t c) \<le> k \<and> length (suggest t cs k m) \<le> m \<and>
    sorted (map (\<lambda>c. (levenshtein t c, c)) (suggest t cs k m))"
proof -
  define hits where "hits = map (\<lambda>c. (levenshtein t c, c)) (filter (\<lambda>c. c \<noteq> t \<and>
      (let d = int (goLen c) - int (goLen t) in \<not> (d > k \<or> d < - k)) \<and> int (levenshtein t c) \<le> k) cs)"
  have eq: "suggest t cs k m = map snd (take m (sort hits))"
    by (simp add: suggest_def hits_def)
  have "map (\<lambda>h. (levenshtein t (snd h), snd h)) (take m (sort hits)) = take m (sort hits)"
    by (intro map_idI) (auto simp: hits_def dest!: in_set_takeD)
  then have "sorted (map (\<lambda>c. (levenshtein t c, c)) (suggest t cs k m))"
    by (simp add: eq comp_def sorted_wrt_take)
  then show ?thesis using suggest_hit [OF assms] eq by simp
qed

theorem suggest_sound_witness:
  "[1, 3] \<in> set (suggest [1, 2] [[1, 3], [9, 9]] 1 5) \<and> length (suggest [1, 2] [[1, 3], [9, 9]] 1 5) \<le> 5"
proof -
  have "[1, 3] \<in> set (suggest [1, 2] [[1, 3], [9, 9]] 1 5)" by code_simp
  then show ?thesis using suggest_sound [of "[1, 3]" "[1, 2]" "[[1, 3], [9, 9]]" 1 5] by simp
qed

text \<open>The length test is meant as a shortcut that no string within the threshold fails, and on
  strings of single-byte characters it is one: nothing within the threshold is lost.\<close>

theorem suggest_complete_ascii:
  assumes "c \<in> set cs" "c \<noteq> t" "int (levenshtein t c) \<le> k" "\<forall>x \<in> set c \<union> set t. x < 0x80"
    and "length cs \<le> m"
  shows "c \<in> set (suggest t cs k m)"
proof -
  have len: "goLen s = length s" if "\<forall>x \<in> set s. x < 0x80" for s
    using that by (induction s) (simp_all add: goLen_def runeLen_def)
  have "edits t c (levenshtein t c)" using levenshtein_preDist editDist_rev editDist_edits by metis
  then have "length t \<le> length c + levenshtein t c" "length c \<le> length t + levenshtein t c"
    using edits_length by blast+
  then have "\<not> (int (goLen c) - int (goLen t) > k \<or> int (goLen c) - int (goLen t) < - k)"
    using assms(3,4) by (simp add: len)
  moreover have "length (filter P cs) \<le> m" for P using assms(5) length_filter_le le_trans by blast
  ultimately show ?thesis using assms by (force simp: suggest_def Let_def)
qed

theorem suggest_complete_ascii_witness: "[1, 3] \<in> set (suggest [1, 2] [[1, 3], [9, 9]] 1 5)"
proof -
  have "int (levenshtein [1, 2] [1, 3]) \<le> 1" by code_simp
  then show ?thesis using suggest_complete_ascii [of "[1, 3]" "[[1, 3], [9, 9]]" "[1, 2]" 1 5] by simp
qed

text \<open>Outside ASCII the test compares byte lengths while the distance counts runes, so a candidate
  one substitution away from the target is dropped.\<close>

theorem suggest_drops_multibyte:
  "levenshtein [0x61] [0x3042] = 1 \<and> suggest [0x61] [[0x3042]] 1 5 = []"
  by (simp add: levenshtein_def suggest_def goLen_def runeLen_def Let_def)

end
