(* ===== verification/Bounded_Cache.thy ===== *)
theory Bounded_Cache
  imports Go_Base
begin

text \<open>
  The compilation cache: \<^verbatim>\<open>internal/infra/cache/cache.go\<close>. Each method of \<^verbatim>\<open>Map\<close> holds the mutex for its
  whole body, so concurrent use is some sequence of atomic calls; the step relation \<open>cacheStep\<close> has
  one rule per method. Which entry \<^verbatim>\<open>Put\<close> evicts is the first that Go's map iteration happens to
  yield: it is the argument \<open>i\<close> here, and the step relation allows every choice. Shown: the capacity
  bound holds in every reachable state, a stored value is read back until it is overwritten,
  evicted or reset, and a Put removes at most one other entry.
\<close>

section \<open>Definitions\<close>

record ('k, 'v) cache =
  c_items :: "('k \<times> 'v) list"
  c_cap :: int

definition newMap :: "int \<Rightarrow> ('k, 'v) cache" where
  "newMap cap = \<lparr> c_items = [], c_cap = cap \<rparr>"

definition cacheGet :: "'k \<Rightarrow> ('k, 'v) cache \<Rightarrow> 'v option" where
  "cacheGet key m = map_of (c_items m) key"

text \<open>The eviction loop: delete the first key the iteration yields, then break.\<close>

definition evictOne :: "nat \<Rightarrow> ('k \<times> 'v) list \<Rightarrow> ('k \<times> 'v) list" where
  "evictOne i its = (if its = [] then [] else AList.delete (fst (its ! (i mod length its))) its)"

definition cachePut :: "nat \<Rightarrow> 'k \<Rightarrow> 'v \<Rightarrow> ('k, 'v) cache \<Rightarrow> ('k, 'v) cache" where
  "cachePut i key val m =
     (let its = (if 0 < c_cap m \<and> c_cap m \<le> int (length (c_items m)) then evictOne i (c_items m)
                 else c_items m)
      in m\<lparr> c_items := AList.update key val its \<rparr>)"

definition cacheLen :: "('k, 'v) cache \<Rightarrow> int" where
  "cacheLen m = int (length (c_items m))"

definition cacheReset :: "('k, 'v) cache \<Rightarrow> ('k, 'v) cache" where
  "cacheReset m = m\<lparr> c_items := [] \<rparr>"

text \<open>One atomic call of a method that changes the map.\<close>

inductive cacheStep :: "('k, 'v) cache \<Rightarrow> ('k, 'v) cache \<Rightarrow> bool" where
  put: "cacheStep m (cachePut i key val m)"
| reset: "cacheStep m (cacheReset m)"

section \<open>The invariant\<close>

definition cache_inv :: "('k, 'v) cache \<Rightarrow> bool" where
  "cache_inv m \<longleftrightarrow> distinct (map fst (c_items m)) \<and> (0 < c_cap m \<longrightarrow> cacheLen m \<le> c_cap m)"

lemma evictOne_length:
  assumes "distinct (map fst its)" "its \<noteq> []"
  shows "length (evictOne i its) + 1 = length its"
proof -
  let ?k = "fst (its ! (i mod length its))"
  have "i mod length its < length its" using assms(2) by simp
  then have "?k \<in> set (map fst its)" by (metis in_set_conv_nth length_map nth_map)
  then have "length (filter (\<lambda>x. fst x = ?k) its) = 1"
    using assms(1) distinct_length_filter [of "map fst its" "\<lambda>x. x = ?k"]
    by (simp add: filter_map comp_def Collect_conv_if Int_absorb2)
  moreover have "AList.delete ?k its = filter (\<lambda>x. fst x \<noteq> ?k) its"
    by (simp add: AList.delete_eq) (rule filter_cong, auto)
  ultimately show ?thesis
    using assms(2) sum_length_filter_compl [of "\<lambda>x. fst x = ?k" its] by (simp add: evictOne_def)
qed

lemma evictOne_distinct: "distinct (map fst its) \<Longrightarrow> distinct (map fst (evictOne i its))"
  by (simp add: evictOne_def AList.distinct_delete)

lemma update_length: "length (AList.update k v xs) \<le> length xs + 1"
  by (induction xs) auto

lemma cache_inv_new: "cache_inv (newMap cap)"
  by (simp add: cache_inv_def newMap_def cacheLen_def)

lemma cache_inv_put:
  assumes "cache_inv m"
  shows "cache_inv (cachePut i key val m)"
proof (cases "0 < c_cap m \<and> c_cap m \<le> int (length (c_items m))")
  case True
  then have ne: "c_items m \<noteq> []" by auto
  have "int (length (AList.update key val (evictOne i (c_items m)))) \<le> c_cap m"
    using update_length [of key val "evictOne i (c_items m)"] evictOne_length [OF _ ne, of i] assms True
    by (auto simp: cache_inv_def cacheLen_def)
  then show ?thesis
    using True assms by (simp add: cache_inv_def cachePut_def Let_def cacheLen_def evictOne_distinct distinct_update)
next
  case False
  then show ?thesis
    using assms update_length [of key val "c_items m"]
    by (auto simp: cache_inv_def cachePut_def Let_def cacheLen_def distinct_update)
qed

lemma cacheStep_inv: "cacheStep m m' \<Longrightarrow> cache_inv m \<Longrightarrow> cache_inv m' \<and> c_cap m' = c_cap m"
proof (induction rule: cacheStep.induct)
  case (put m i key val)
  then show ?case using cache_inv_put [of m i key val] by (simp add: cachePut_def Let_def)
next
  case (reset m)
  then show ?case by (auto simp: cacheReset_def cache_inv_def cacheLen_def)
qed

lemma map_of_evictOne:
  "map_of (evictOne i its) k = None \<or> map_of (evictOne i its) k = map_of its k"
  by (simp add: evictOne_def AList.delete_conv fun_upd_apply)

section \<open>Properties\<close>

text \<open>In every state that any interleaving of atomic Put and Reset calls can reach, whatever entries
  the evictions choose, a cache with a positive capacity holds at most that many entries.\<close>

theorem cache_bounded:
  assumes "cacheStep\<^sup>*\<^sup>* (newMap cap) m" "0 < cap"
  shows "cacheLen m \<le> cap"
proof -
  from assms(1) have "cache_inv m \<and> c_cap m = cap"
    by (induction rule: rtranclp_induct)
      (use cache_inv_new in \<open>auto simp: newMap_def dest: cacheStep_inv\<close>)
  then show ?thesis using assms(2) by (auto simp: cache_inv_def)
qed

theorem cache_bounded_witness:
  "cacheLen (cachePut 0 (2 :: nat) True (cachePut 0 1 True (newMap 1))) \<le> 1"
  by (rule cache_bounded [of 1]) (auto intro: rtranclp.intros cacheStep.put)

text \<open>A Get directly after a Put of the same key returns the stored value, and a Put never changes
  the value stored under another key: it can only drop it.\<close>

theorem cache_get_put:
  "cacheGet k (cachePut i key val m) =
     (if k = key then Some val
      else if 0 < c_cap m \<and> c_cap m \<le> cacheLen m \<and> map_of (evictOne i (c_items m)) k = None
      then None else cacheGet k m)"
  using map_of_evictOne [of i "c_items m" k]
  by (auto simp: cacheGet_def cachePut_def cacheLen_def Let_def AList.update_conv')

end
