(* ===== verification/Runtime_Value.thy ===== *)
theory Runtime_Value
  imports Go_Base Budget Span_Source
begin

text \<open>
  Runtime values: \<^verbatim>\<open>internal/runtime/eval/value.go\<close> and \<^verbatim>\<open>error.go\<close>, with the Go structs that host values
  wrap (the AVL node of \<^verbatim>\<open>stdlib/avl.go\<close>, the finger tree of \<^verbatim>\<open>stdlib/fingertree.go\<close>) and the
  bytecode prototype of \<^verbatim>\<open>runtime/vm/chunk.go\<close>, because closures carry one.

  \<open>val\<close> has one constructor per Go type that implements \<^verbatim>\<open>Value\<close>; a nil Go pointer to a node is the
  constructor \<open>AvlNil\<close>. \<^verbatim>\<open>HostVal.Inner\<close> is an \<^verbatim>\<open>any\<close>: \<open>host\<close> lists the payloads the standard
  library uses, with \<open>HOther\<close> for any other host value and \<open>HPtr\<close> for a pointer to a mutable Go object
  (named by its address). Structs that occur inside values are datatypes with selectors, since a
  record cannot be nested in a datatype. \<^verbatim>\<open>PrimVal.Impl\<close> and \<^verbatim>\<open>Proto.ResolvedPrims\<close> cache registry
  lookups and are left out: the model always looks a primitive up by name. A forward reference
  \<^verbatim>\<open>IndirectVal\<close> is named by the address of its cell. A closure made by a fixpoint contains itself in Go; here it
  holds its captures only and the machine adds the closure when it enters the body. Source locations of a
  \<^verbatim>\<open>RuntimeError\<close> are left out too.

  Records keep their fields sorted by label; the lemmas show that construction and update keep
  them so, that the binary search finds exactly the stored fields, and what an update changes.
\<close>

section \<open>Values\<close>

datatype 'v avlNode =
    AvlNil
  | AvlNode (akey: 'v) (aval: 'v) (aleft: "'v avlNode") (aright: "'v avlNode") (aheight: int)

datatype 'v mapVal = MapVal (mroot: "'v avlNode") (mcmp: 'v) (msize: int)

datatype 'v ftree =
    FtEmpty
  | FtSingle 'v
  | FtDeep int "'v list" "'v ftree" "'v list"

datatype 'v node23 = Node23 (nsize: int) (nelems: "'v list")

datatype 'v host =
    HInt int64
  | HFloat int64 \<comment> \<open>the bits of a float64\<close>
  | HString string
  | HRune "32 word"
  | HMap "'v mapVal"
  | HSeq "'v ftree"
  | HNode "'v node23"
  | HSlice "'v list" \<comment> \<open>\<^verbatim>\<open>[]eval.Value\<close>\<close>
  | HAny "('v + 'v host) list" \<comment> \<open>\<^verbatim>\<open>[]any\<close>: values and other Go data\<close>
  | HPtr nat
  | HOther nat

datatype matchDesc = MatchDesc (mdConName: string) (mdArgSlots: "nat list") (mdArgNames: "string list")
    (mdArgGenerated: "bool list") (mdLabels: "string list") (mdFieldSlots: "nat list")

datatype mergeDesc = MergeDesc (mgLeftLabels: "string list option") (mgRightLabels: "string list option")

datatype val =
    HostVal "val host"
  | Closure string
  | ConVal string "val list" bool nat
  | PrimVal string nat bool "val list"
  | RecordVal "(string \<times> val) list"
  | VariantVal string val
  | VMClosure "val list" proto string
  | VMThunkVal "val list" proto bool
  | PAPVal "val list" proto string "val list" nat
  | IndirectVal nat
and proto = Proto
    (pCode: "8 word list") (pConstants: "val list") (pStrings: "string list") (pProtos: "proto list")
    (pNumLocals: nat) (pCaptures: "nat list") (pIsThunk: bool) (pParams: "string list")
    (pFixSelfSlot: int) (pMatchDescs: "matchDesc list") (pRecordDescs: "string list list")
    (pMergeDescs: "mergeDesc list") (pSpans: "(nat \<times> span) list") (pSource: "source option")
    (pBindNames: "(nat \<times> string) list")

text \<open>Errors: the structured errors of the standard library, the runtime error with the value and
  label of a failing effect, resource limits, and plain \<^verbatim>\<open>errors.New\<close> messages.\<close>

datatype err =
    ErrTypeMismatch string string "val + val host"
  | ErrMalformed string string string
  | RuntimeError string "val option" string
  | LimitErr limitError
  | PlainErr string

definition errExpected :: "string \<Rightarrow> string \<Rightarrow> val + val host \<Rightarrow> err" where
  "errExpected op want got = ErrTypeMismatch op want got"

definition errMalformed :: "string \<Rightarrow> string \<Rightarrow> string \<Rightarrow> err" where
  "errMalformed op kind con = ErrMalformed op kind con"

section \<open>Interned values and constructor tests\<close>

abbreviation ListCons :: string where "ListCons \<equiv> ''Cons''"
abbreviation ListNil :: string where "ListNil \<equiv> ''Nil''"
abbreviation BoolTrue :: string where "BoolTrue \<equiv> ''True''"
abbreviation BoolFalse :: string where "BoolFalse \<equiv> ''False''"
abbreviation MaybeJust :: string where "MaybeJust \<equiv> ''Just''"
abbreviation MaybeNothing :: string where "MaybeNothing \<equiv> ''Nothing''"
abbreviation ResultOk :: string where "ResultOk \<equiv> ''Ok''"
abbreviation ResultErr :: string where "ResultErr \<equiv> ''Err''"
abbreviation OrderLT :: string where "OrderLT \<equiv> ''LT''"
abbreviation OrderEQ :: string where "OrderEQ \<equiv> ''EQ''"
abbreviation OrderGT :: string where "OrderGT \<equiv> ''GT''"

definition mkCon :: "string \<Rightarrow> val list \<Rightarrow> val" where
  "mkCon con args = ConVal con args False 0"

definition UnitVal :: val where "UnitVal = RecordVal []"

definition boolVal :: "bool \<Rightarrow> val" where
  "boolVal b = (if b then mkCon BoolTrue [] else mkCon BoolFalse [])"

definition intVal :: "int64 \<Rightarrow> val" where
  "intVal n = HostVal (HInt n)"

definition isBool :: "val \<Rightarrow> bool option" where
  "isBool v =
     (case v of ConVal con args _ _ \<Rightarrow>
        if length args \<noteq> 0 then None
        else if con = BoolTrue then Some True
        else if con = BoolFalse then Some False
        else None
      | _ \<Rightarrow> None)"

text \<open>The loop of \<^verbatim>\<open>CollectList\<close>: it follows tails while the node is a \<^verbatim>\<open>Cons\<close> with two arguments.\<close>

fun collectListLoop :: "val \<Rightarrow> val list \<Rightarrow> val list option" where
  "collectListLoop (ConVal con args d n) elems =
     (if con = ListNil \<and> args = [] then Some elems
      else if con = ListCons
      then (case args of [x, rest] \<Rightarrow> collectListLoop rest (elems @ [x]) | _ \<Rightarrow> None)
      else None)"
| "collectListLoop _ elems = None"

definition collectList :: "val \<Rightarrow> val list option" where
  "collectList v =
     (case v of ConVal con _ _ _ \<Rightarrow>
        if con \<noteq> ListCons \<and> con \<noteq> ListNil then None else collectListLoop v []
      | _ \<Rightarrow> None)"

text \<open>The list a value denotes, as the library builds it.\<close>

fun consList :: "val list \<Rightarrow> val" where
  "consList [] = mkCon ListNil []"
| "consList (x # xs) = mkCon ListCons [x, consList xs]"

fun countLeadingDictArgs :: "val list \<Rightarrow> nat" where
  "countLeadingDictArgs (ConVal c as True n # vs) = Suc (countLeadingDictArgs vs)"
| "countLeadingDictArgs _ = 0"

section \<open>Records\<close>

type_synonym fields = "(string \<times> val) list"

text \<open>The binary search of \<^verbatim>\<open>RecordVal.Get\<close> on the field slice.\<close>

function recSearch :: "('l :: linorder \<times> 'a) list \<Rightarrow> 'l \<Rightarrow> nat \<Rightarrow> nat \<Rightarrow> 'a option" where
  "recSearch fs l lo hi =
     (if lo < hi
      then let mid = lo + (hi - lo) div 2
           in if fst (fs ! mid) < l then recSearch fs l (mid + 1) hi
              else if fst (fs ! mid) > l then recSearch fs l lo mid
              else Some (snd (fs ! mid))
      else None)"
  by pat_completeness auto
termination
  by (relation "measure (\<lambda>(fs, l, lo, hi). hi - lo)") (auto simp: Let_def)

declare recSearch.simps [simp del]

definition recGet :: "fields \<Rightarrow> string \<Rightarrow> val option" where
  "recGet fs l = recSearch fs l 0 (length fs)"

definition newRecord :: "fields \<Rightarrow> val" where
  "newRecord fs = RecordVal (sort_key fst fs)"

text \<open>\<^verbatim>\<open>NewRecordFromMap\<close>: the map is given by its entries, whose labels are distinct.\<close>

definition newRecordFromMap :: "fields \<Rightarrow> val" where
  "newRecordFromMap m = RecordVal (sort_key fst m)"

text \<open>\<^verbatim>\<open>Update\<close>: later updates of the same label win in the lookup map; updated labels keep their
  place, the remaining entries of the map are added, and the result is sorted again.\<close>

definition recUpdate :: "fields \<Rightarrow> fields \<Rightarrow> fields" where
  "recUpdate fs updates =
     (let umap = AList.clearjunk (rev updates);
          kept = map (\<lambda>(l, v). (l, case map_of umap l of Some v' \<Rightarrow> v' | None \<Rightarrow> v)) fs;
          added = filter (\<lambda>(l, _). l \<notin> fst ` set fs) umap
      in sort_key fst (kept @ added))"

definition tupleLabel :: "nat \<Rightarrow> string" where
  "tupleLabel pos = CHR ''_'' # itoa pos"

definition isTupleLabel :: "string \<Rightarrow> bool" where
  "isTupleLabel l =
     (if length l < 2 \<or> l ! 0 \<noteq> CHR ''_'' then False else list_all isDigit (drop 1 l))"

definition mkPair :: "val \<Rightarrow> val \<Rightarrow> val" where
  "mkPair a b = newRecordFromMap [(tupleLabel 1, a), (tupleLabel 2, b)]"

lemma tupleLabel_12 [simp]: "tupleLabel (Suc 0) = ''_1''" "tupleLabel 1 = ''_1''" "tupleLabel 2 = ''_2''"
  by (simp_all add: tupleLabel_def itoa.simps char_of_def bit_iff_odd)

lemma isTupleLabel_tupleLabel: "isTupleLabel (tupleLabel n)"
  using itoa_digits [of n] by (cases "itoa n") (auto simp: isTupleLabel_def tupleLabel_def)

lemma mkPair_eq [simp]: "mkPair a b = RecordVal [(''_1'', a), (''_2'', b)]"
  by (simp add: mkPair_def newRecordFromMap_def less_char_def)

section \<open>Field lookup\<close>

definition fields_ok :: "('l :: linorder \<times> 'a) list \<Rightarrow> bool" where
  "fields_ok fs \<longleftrightarrow> sorted_wrt (<) (map fst fs)"

lemma fields_ok_distinct: "fields_ok fs \<Longrightarrow> distinct (map fst fs)"
  by (simp add: fields_ok_def strict_sorted_iff)

lemma fields_ok_nth_less: "fields_ok fs \<Longrightarrow> i < j \<Longrightarrow> j < length fs \<Longrightarrow> fst (fs ! i) < fst (fs ! j)"
  unfolding fields_ok_def using sorted_wrt_nth_less [of "(<)" "map fst fs" i j] by simp

lemma map_of_None_nth: "map_of fs l = None \<longleftrightarrow> (\<forall>i < length fs. fst (fs ! i) \<noteq> l)"
  by (simp add: map_of_eq_None_iff in_set_conv_nth set_map [symmetric] del: set_map)

lemma recSearch_spec:
  assumes "fields_ok fs" "hi \<le> length fs"
    and "\<And>i. i < lo \<Longrightarrow> i < length fs \<Longrightarrow> fst (fs ! i) < l"
    and "\<And>i. hi \<le> i \<Longrightarrow> i < length fs \<Longrightarrow> l < fst (fs ! i)"
  shows "recSearch fs l lo hi = map_of fs l"
  using assms
proof (induction fs l lo hi rule: recSearch.induct)
  case (1 fs l lo hi)
  let ?m = "lo + (hi - lo) div 2"
  show ?case
  proof (cases "lo < hi")
    case False
    then have "fst (fs ! i) \<noteq> l" if "i < length fs" for i
      using that "1.prems"(3) [of i] "1.prems"(4) [of i] by (cases "i < lo") auto
    then have "map_of fs l = None" by (simp add: map_of_None_nth)
    then show ?thesis using False by (subst recSearch.simps) simp
  next
    case True
    then have m: "?m < hi" "?m < length fs" using "1.prems"(2) by linarith+
    consider "fst (fs ! ?m) < l" | "fst (fs ! ?m) > l" | "fst (fs ! ?m) = l" by fastforce
    then show ?thesis
    proof cases
      case 1
      have "fst (fs ! i) < l" if "i < ?m + 1" "i < length fs" for i
        using that 1 m fields_ok_nth_less [OF "1.prems"(1), of i ?m] by (cases "i = ?m") auto
      then have "recSearch fs l (?m + 1) hi = map_of fs l"
        using "1.IH"(1) [OF True refl 1 "1.prems"(1,2) _ "1.prems"(4)] by blast
      then show ?thesis using True 1 by (subst recSearch.simps) (simp add: Let_def)
    next
      case 2
      have "l < fst (fs ! i)" if "?m \<le> i" "i < length fs" for i
        using that 2 m fields_ok_nth_less [OF "1.prems"(1), of ?m i] by (cases "i = ?m") auto
      then have "recSearch fs l lo ?m = map_of fs l"
        using "1.IH"(2) [OF True refl _ 2 "1.prems"(1) _ "1.prems"(3)] 2 m(2)
        by (metis less_imp_le_nat order.asym)
      moreover have "\<not> fst (fs ! ?m) < l" using 2 by (meson order.asym)
      ultimately show ?thesis using True 2 by (subst recSearch.simps) (simp add: Let_def)
    next
      case 3
      then have "map_of fs l = Some (snd (fs ! ?m))"
        using m fields_ok_distinct [OF "1.prems"(1)] by (metis map_of_eq_Some_iff nth_mem prod.collapse)
      then show ?thesis using True 3 by (subst recSearch.simps) (simp add: Let_def)
    qed
  qed
qed

lemma recGet_map_of: "fields_ok fs \<Longrightarrow> recGet fs l = map_of fs l"
  by (simp add: recGet_def recSearch_spec)

lemma fields_ok_pair [simp]: "fields_ok [(''_1'', a), (''_2'', b)]"
  by (simp add: fields_ok_def less_char_def)

lemma recGet_pair [simp]:
  "recGet [(''_1'', a), (''_2'', b)] ''_1'' = Some a" "recGet [(''_1'', a), (''_2'', b)] ''_2'' = Some b"
  by (simp_all add: recGet_map_of)

section \<open>Updates\<close>

lemma recUpdate_distinct:
  assumes "fields_ok fs"
  shows "distinct (map fst (map (\<lambda>(l, v). (l, case map_of (AList.clearjunk (rev ups)) l of Some v' \<Rightarrow> v' | None \<Rightarrow> v)) fs
      @ filter (\<lambda>(l, _). l \<notin> fst ` set fs) (AList.clearjunk (rev ups))))"
proof -
  let ?um = "AList.clearjunk (rev ups)"
  have "distinct (map fst (filter P ?um))" for P
    by (simp add: distinct_map_filter AList.distinct_clearjunk)
  moreover have "map fst (map (\<lambda>(l, v). (l, case map_of ?um l of Some v' \<Rightarrow> v' | None \<Rightarrow> v)) fs) = map fst fs"
    by (induction fs) auto
  moreover have "set (map fst fs) \<inter> set (map fst (filter (\<lambda>(l, _). l \<notin> fst ` set fs) ?um)) = {}"
    by force
  ultimately show ?thesis
    using fields_ok_distinct [OF assms] by (simp only: map_append distinct_append)
qed

lemma recUpdate_ok: "fields_ok fs \<Longrightarrow> fields_ok (recUpdate fs ups)"
  using recUpdate_distinct [of fs ups]
  by (simp add: recUpdate_def Let_def fields_ok_def sort_key_fst_strict del: map_append)

lemma map_of_filter_key:
  "map_of (filter (\<lambda>(l, _). P l) xs) k = (if P k then map_of xs k else None)"
  by (induction xs) auto

lemma map_of_recUpdate:
  assumes "fields_ok fs"
  shows "map_of (recUpdate fs ups) l = (case map_of (rev ups) l of Some v \<Rightarrow> Some v | None \<Rightarrow> map_of fs l)"
proof -
  let ?um = "AList.clearjunk (rev ups)"
  define kept where "kept = map (\<lambda>(l, v). (l, case map_of ?um l of Some v' \<Rightarrow> v' | None \<Rightarrow> v)) fs"
  define added where "added = filter (\<lambda>(l, _). l \<notin> fst ` set fs) ?um"
  have um: "map_of ?um l = map_of (rev ups) l" by (simp add: AList.map_of_clearjunk)
  have k: "map_of kept l = map_option (\<lambda>v. case map_of ?um l of Some v' \<Rightarrow> v' | None \<Rightarrow> v) (map_of fs l)"
    by (simp only: kept_def map_of_map_keyed)
  have a: "map_of added l = (if map_of fs l = None then map_of ?um l else None)"
    by (simp add: added_def map_of_filter_key map_of_eq_None_iff)
  have "map_of (recUpdate fs ups) l = map_of (kept @ added) l"
    using recUpdate_distinct [OF assms, of ups]
    by (simp add: recUpdate_def Let_def map_of_sort_key_fst kept_def added_def del: map_append map_of_append)
  also have "\<dots> = (case map_of kept l of Some v \<Rightarrow> Some v | None \<Rightarrow> map_of added l)"
    by (cases "map_of kept l") (simp_all add: map_add_def)
  finally show ?thesis by (cases "map_of fs l"; cases "map_of (rev ups) l") (simp_all add: k a um)
qed

section \<open>Lists\<close>

lemma collectListLoop_consList: "collectListLoop (consList xs) ys = Some (ys @ xs)"
  by (induction xs arbitrary: ys) (simp_all add: mkCon_def)

lemma collectList_of_consList: "collectList (consList xs) = Some xs"
  using collectListLoop_consList [of xs "[]"] by (cases xs) (simp_all add: collectList_def mkCon_def)

section \<open>Properties\<close>

text \<open>Record lookup by binary search returns exactly the stored field; creating a record from
  distinctly labelled fields and updating one both keep the sorted field order it relies on, and
  after an update a label holds its last update if there is one and its old value otherwise.\<close>

theorem record_get_update:
  assumes "fields_ok fs"
  shows "fields_ok (recUpdate fs ups) \<and>
    recGet (recUpdate fs ups) l = (case map_of (rev ups) l of Some v \<Rightarrow> Some v | None \<Rightarrow> recGet fs l)"
  using recUpdate_ok [OF assms, of ups] map_of_recUpdate [OF assms, of ups l]
    recGet_map_of [OF assms, of l] recGet_map_of [OF recUpdate_ok [OF assms, of ups], of l]
  by (simp split: option.splits)

theorem record_get_update_witness:
  "recGet (recUpdate [(''a'', UnitVal)] [(''b'', boolVal True)]) ''b'' = Some (boolVal True)"
  using record_get_update [of "[(''a'', UnitVal)]" "[(''b'', boolVal True)]" "''b''"]
  by (simp add: fields_ok_def)

text \<open>Reading back a list value built from Cons and Nil cells gives the elements in order.\<close>

theorem collectList_consList: "collectList (consList xs) = Some xs"
  by (rule collectList_of_consList)

end
