(* ===== verification/Cap_Env.thy ===== *)
theory Cap_Env
  imports Runtime_Value
begin

text \<open>
  Capability environments, \<^verbatim>\<open>internal/runtime/eval/capenv.go\<close>, and the world that stateful code passes
  along. A \<open>capEnv\<close> is a handle: a pointer to a Go map (or nil) and the \<^verbatim>\<open>shared\<close> flag. The maps live in
  the world's store \<open>w_caps\<close>, so that in-place mutation and aliasing are visible: a Set or Delete
  on an unshared handle changes the map that every copy of the handle sees, one on a shared handle
  copies first. \<open>view\<close> is the finite map a handle denotes in a world.

  Shown: each operation has the effect on the view that its name says, no operation ever changes a
  map reached through a shared handle, for any sequence of operations on handles derived from it
  (the copy-on-write isolation that lets the handlers of \<open>Effect_Prims\<close> roll back), and what an
  unshared handle does instead.
\<close>

section \<open>The world\<close>

text \<open>A capability is any Go value: a GICEL value or something else.\<close>

datatype capAny = CapVal val | CapOther nat

type_synonym capMap = "(string \<times> capAny) list"

text \<open>
  Mutable Go objects that values point to: the \<^verbatim>\<open>refCell\<close> of \<^verbatim>\<open>ref.go\<close>, the \<^verbatim>\<open>mutArray\<close> of \<^verbatim>\<open>array.go\<close>, the \<^verbatim>\<open>mutMapVal\<close> of \<^verbatim>\<open>mmap.go\<close>.
\<close>

datatype obj = ORefCell val | OMutArray "val list" | OMutMap "val mapVal"

record capEnv =
  caps :: "nat option"
  shared :: bool

text \<open>
  The mutable part of the machine, the structs \<^verbatim>\<open>Frame\<close> and \<^verbatim>\<open>VM\<close> of \<^verbatim>\<open>internal/runtime/vm/vm.go\<close>: callbacks run on the machine that called the primitive.
  The operand stack is a list with its top first and the frames are a list with the current frame first; a barrier frame has no prototype. A local slot that was
  never assigned is \<open>None\<close>. Go code holds pointers into the slice of frames, which go stale when the slice grows beyond its capacity \<open>m_fcap\<close>
  and moves; \<open>m_gen\<close> counts those moves.
\<close>

record frame =
  fr_proto :: "proto option"
  fr_ip :: nat
  fr_bp :: nat
  fr_cap :: capEnv
  fr_barrier :: bool

record machine =
  m_stack :: "val list"
  m_locals :: "val option list"
  m_frames :: "frame list"
  m_fcap :: nat
  m_gen :: nat

record world =
  w_budget :: "budget option"
  w_caps :: "nat \<Rightarrow> capMap"
  w_next :: nat
  w_objs :: "nat \<Rightarrow> obj option"
  w_onext :: nat
  w_vm :: machine

type_synonym 'a gores = "('a, capEnv, err) res \<times> world"

definition allocMap :: "capMap \<Rightarrow> world \<Rightarrow> nat \<times> world" where
  "allocMap m w = (w_next w, w\<lparr> w_caps := (w_caps w)(w_next w := m), w_next := w_next w + 1 \<rparr>)"

definition writeMap :: "nat \<Rightarrow> capMap \<Rightarrow> world \<Rightarrow> world" where
  "writeMap a m w = w\<lparr> w_caps := (w_caps w)(a := m) \<rparr>"

section \<open>Operations\<close>

definition emptyCapEnv :: capEnv where
  "emptyCapEnv = \<lparr> caps = None, shared = False \<rparr>"

definition newCapEnv :: "nat option \<Rightarrow> capEnv" where
  "newCapEnv m =
     (case m of None \<Rightarrow> \<lparr> caps = None, shared = True \<rparr> | Some a \<Rightarrow> \<lparr> caps = Some a, shared = True \<rparr>)"

definition capsOf :: "capEnv \<Rightarrow> world \<Rightarrow> capMap" where
  "capsOf c w = (case caps c of None \<Rightarrow> [] | Some a \<Rightarrow> w_caps w a)"

definition capGet :: "string \<Rightarrow> capEnv \<Rightarrow> world \<Rightarrow> capAny option" where
  "capGet l c w = (case caps c of None \<Rightarrow> None | Some a \<Rightarrow> map_of (w_caps w a) l)"

definition capSet :: "string \<Rightarrow> capAny \<Rightarrow> capEnv \<Rightarrow> world \<Rightarrow> capEnv \<times> world" where
  "capSet l v c w =
     (case (caps c, shared c) of
        (Some a, False) \<Rightarrow> (c, writeMap a (AList.update l v (w_caps w a)) w)
      | _ \<Rightarrow> (case allocMap (AList.update l v (capsOf c w)) w of
               (a, w') \<Rightarrow> (\<lparr> caps = Some a, shared = False \<rparr>, w')))"

definition capDelete :: "string \<Rightarrow> capEnv \<Rightarrow> world \<Rightarrow> capEnv \<times> world" where
  "capDelete l c w =
     (case caps c of
        None \<Rightarrow> (c, w)
      | Some a \<Rightarrow>
          if shared c
          then (case allocMap (filter (\<lambda>(k, _). k \<noteq> l) (w_caps w a)) w of
                  (a', w') \<Rightarrow> (\<lparr> caps = Some a', shared = False \<rparr>, w'))
          else (c, writeMap a (AList.delete l (w_caps w a)) w))"

definition capLabels :: "capEnv \<Rightarrow> world \<Rightarrow> string list" where
  "capLabels c w = (case caps c of None \<Rightarrow> [] | Some a \<Rightarrow> sort (map fst (w_caps w a)))"

definition markShared :: "capEnv \<Rightarrow> capEnv" where
  "markShared c = c\<lparr> shared := True \<rparr>"

fun filterLoop :: "string list \<Rightarrow> capMap \<Rightarrow> capMap \<Rightarrow> capMap" where
  "filterLoop [] src m = m"
| "filterLoop (l # ls) src m =
     filterLoop ls src (case map_of src l of Some v \<Rightarrow> AList.update l v m | None \<Rightarrow> m)"

definition capFilter :: "string list \<Rightarrow> capEnv \<Rightarrow> world \<Rightarrow> capEnv \<times> world" where
  "capFilter labels c w =
     (case caps c of
        None \<Rightarrow> (emptyCapEnv, w)
      | Some a \<Rightarrow>
          if labels = [] then (emptyCapEnv, w)
          else (case allocMap (filterLoop labels (w_caps w a) []) w of
                  (a', w') \<Rightarrow> (\<lparr> caps = Some a', shared = False \<rparr>, w')))"

text \<open>\<^verbatim>\<open>maps.Copy\<close> of a map into another.\<close>

fun copyInto :: "capMap \<Rightarrow> capMap \<Rightarrow> capMap" where
  "copyInto m [] = m"
| "copyInto m ((k, v) # xs) = copyInto (AList.update k v m) xs"

definition capMergeWith :: "capEnv \<Rightarrow> capEnv \<Rightarrow> world \<Rightarrow> capEnv \<times> world" where
  "capMergeWith c other w =
     (if caps c = None \<and> caps other = None then (emptyCapEnv, w)
      else case allocMap (copyInto (copyInto [] (capsOf c w)) (capsOf other w)) w of
             (a, w') \<Rightarrow> (\<lparr> caps = Some a, shared = False \<rparr>, w'))"

section \<open>The view of a handle\<close>

definition view :: "capEnv \<Rightarrow> world \<Rightarrow> string \<rightharpoonup> capAny" where
  "view c w = (\<lambda>l. capGet l c w)"

text \<open>A handle is valid when its map has been allocated; maps have distinct keys.\<close>

definition valid :: "capEnv \<Rightarrow> world \<Rightarrow> bool" where
  "valid c w \<longleftrightarrow> (case caps c of None \<Rightarrow> True | Some a \<Rightarrow> a < w_next w \<and> distinct (map fst (w_caps w a)))"

lemma view_capsOf: "view c w = map_of (capsOf c w)"
  by (auto simp: view_def capGet_def capsOf_def split: option.splits)

lemma valid_distinct: "valid c w \<Longrightarrow> distinct (map fst (capsOf c w))"
  by (auto simp: valid_def capsOf_def split: option.splits)

lemma view_markShared [simp]: "view (markShared c) w = view c w"
  by (simp add: view_def capGet_def markShared_def)

lemma valid_markShared [simp]: "valid (markShared c) w = valid c w"
  by (simp add: valid_def markShared_def)

lemma copyInto_conv: "distinct (map fst xs) \<Longrightarrow> map_of (copyInto m xs) = map_of m ++ map_of xs"
proof (induction m xs rule: copyInto.induct)
  case (2 m k v xs)
  then have "map_of xs k = None" by (simp add: map_of_eq_None_iff)
  with 2 show ?case by (auto simp: AList.update_conv map_add_def fun_eq_iff split: option.splits)
qed simp

lemma copyInto_distinct: "distinct (map fst m) \<Longrightarrow> distinct (map fst (copyInto m xs))"
  by (induction m xs rule: copyInto.induct) (auto simp: AList.distinct_update)

lemma filterLoop_conv: "map_of (filterLoop ls src m) = map_of m ++ (map_of src |` set ls)"
proof (induction ls src m rule: filterLoop.induct)
  case (2 l ls src m)
  then show ?case
    by (auto simp: AList.update_conv map_add_def fun_eq_iff restrict_map_def split: option.splits)
qed simp

lemma filterLoop_distinct: "distinct (map fst m) \<Longrightarrow> distinct (map fst (filterLoop ls src m))"
  by (induction ls src m rule: filterLoop.induct) (auto simp: AList.distinct_update split: option.splits)

lemma map_of_filter_neq: "map_of (filter (\<lambda>(k, _). k \<noteq> l) m) = (map_of m)(l := None)"
  by (auto simp: map_of_filter_key fun_eq_iff)

named_theorems cap_defs \<open>definitions of the capability environment operations\<close>

declare capSet_def [cap_defs] capDelete_def [cap_defs] capFilter_def [cap_defs] capMergeWith_def [cap_defs]
  allocMap_def [cap_defs] writeMap_def [cap_defs] capsOf_def [cap_defs] emptyCapEnv_def [cap_defs]
  markShared_def [cap_defs]

lemma capSet_view: "capSet l v c w = (c', w') \<Longrightarrow> view c' w' = (view c w)(l \<mapsto> v)"
  by (auto simp: cap_defs view_capsOf AList.update_conv split: option.splits bool.splits)

lemma capSet_valid: "capSet l v c w = (c', w') \<Longrightarrow> valid c w \<Longrightarrow> valid c' w'"
  by (auto simp: cap_defs valid_def AList.distinct_update split: option.splits bool.splits)

lemma capDelete_view: "capDelete l c w = (c', w') \<Longrightarrow> view c' w' = (view c w)(l := None)"
  by (auto simp: cap_defs view_capsOf map_of_filter_neq AList.delete_conv split: option.splits if_splits)

lemma capDelete_valid: "capDelete l c w = (c', w') \<Longrightarrow> valid c w \<Longrightarrow> valid c' w'"
  by (auto simp: cap_defs valid_def AList.distinct_delete distinct_map_filter split: option.splits if_splits)

lemma capFilter_view: "capFilter ls c w = (c', w') \<Longrightarrow> view c' w' = view c w |` set ls"
  by (auto simp: cap_defs view_capsOf filterLoop_conv restrict_map_def fun_eq_iff split: option.splits if_splits)

lemma capMergeWith_view:
  "capMergeWith c d w = (c', w') \<Longrightarrow> valid c w \<Longrightarrow> valid d w \<Longrightarrow> view c' w' = view c w ++ view d w"
  using valid_distinct [of c w] valid_distinct [of d w]
  by (auto simp: capMergeWith_def allocMap_def view_capsOf copyInto_conv capsOf_def emptyCapEnv_def
      split: if_splits option.splits)

section \<open>Copy on write\<close>

text \<open>The maps below address \<open>n\<close> are the same in both worlds, and no address is forgotten.\<close>

definition maps_kept :: "nat \<Rightarrow> world \<Rightarrow> world \<Rightarrow> bool" where
  "maps_kept n w w' \<longleftrightarrow> w_next w \<le> w_next w' \<and> (\<forall>a < n. w_caps w' a = w_caps w a)"

lemma maps_kept_refl [simp]: "maps_kept n w w"
  by (simp add: maps_kept_def)

lemma maps_kept_trans: "maps_kept n w w' \<Longrightarrow> maps_kept n w' w'' \<Longrightarrow> maps_kept n w w''"
  by (auto simp: maps_kept_def)

lemma maps_kept_view:
  "maps_kept n w w' \<Longrightarrow> caps c = Some a \<Longrightarrow> a < n \<Longrightarrow> view c w' = view c w"
  by (auto simp: maps_kept_def view_def capGet_def)

text \<open>A handle may write only to maps at or above \<open>n\<close>: it is shared, or nil, or its map is that new.\<close>

definition owns_from :: "nat \<Rightarrow> capEnv \<Rightarrow> bool" where
  "owns_from n c \<longleftrightarrow> (case caps c of None \<Rightarrow> True | Some a \<Rightarrow> shared c \<or> n \<le> a)"

lemma capSet_isolated:
  assumes "capSet l v c w = (c', w')" "owns_from n c" "n \<le> w_next w"
  shows "maps_kept n w w' \<and> owns_from n c'"
  using assms by (auto simp: cap_defs owns_from_def maps_kept_def split: option.splits bool.splits)

lemma capDelete_isolated:
  assumes "capDelete l c w = (c', w')" "owns_from n c" "n \<le> w_next w"
  shows "maps_kept n w w' \<and> owns_from n c'"
  using assms by (auto simp: cap_defs owns_from_def maps_kept_def split: option.splits if_splits)

datatype capOp = CSet string capAny | CDelete string | CShare | CFilter "string list"

fun opC :: "capOp \<Rightarrow> capEnv \<Rightarrow> world \<Rightarrow> capEnv \<times> world" where
  "opC (CSet l v) c w = capSet l v c w"
| "opC (CDelete l) c w = capDelete l c w"
| "opC CShare c w = (markShared c, w)"
| "opC (CFilter ls) c w = capFilter ls c w"

fun runC :: "capOp list \<Rightarrow> capEnv \<Rightarrow> world \<Rightarrow> capEnv \<times> world" where
  "runC [] c w = (c, w)"
| "runC (x # xs) c w = (case opC x c w of (c', w') \<Rightarrow> runC xs c' w')"

lemma opC_isolated:
  assumes "opC x c w = (c', w')" "owns_from n c" "n \<le> w_next w"
  shows "maps_kept n w w' \<and> owns_from n c'"
proof (cases x)
  case (CFilter ls)
  then show ?thesis
    using assms by (auto simp: cap_defs owns_from_def maps_kept_def split: option.splits if_splits)
qed (use assms capSet_isolated capDelete_isolated in
    \<open>auto simp: markShared_def owns_from_def maps_kept_def split: option.splits\<close>)

lemma runC_isolated:
  "runC xs c w = (c', w') \<Longrightarrow> owns_from n c \<Longrightarrow> n \<le> w_next w \<Longrightarrow> maps_kept n w w' \<and> owns_from n c'"
proof (induction xs arbitrary: c w)
  case (Cons x xs)
  obtain c1 w1 where op: "opC x c w = (c1, w1)" by fastforce
  have "maps_kept n w w1" "owns_from n c1"
    using opC_isolated [OF op Cons.prems(2,3)] by auto
  moreover from this have "n \<le> w_next w1"
    using Cons.prems(3) by (auto simp: maps_kept_def)
  ultimately show ?case
    using Cons.IH [of c1 w1] Cons.prems(1) op maps_kept_trans by auto
qed simp

section \<open>Properties\<close>

text \<open>C10: Copy-on-write isolation. After a handle has been marked shared, no sequence of Set, Delete,
  MarkShared and Filter calls on the handles derived from it changes any map that existed at that
  point; in particular every handle that was valid then still denotes the same capabilities.\<close>

theorem capenv_cow_isolation:
  assumes "runC xs (markShared c) w = (c', w')" "valid d w"
  shows "view d w' = view d w"
proof (cases "caps d")
  case None
  then show ?thesis by (simp add: view_def capGet_def)
next
  case (Some a)
  then have "a < w_next w" using assms(2) by (simp add: valid_def)
  moreover have "owns_from (w_next w) (markShared c)"
    by (simp add: owns_from_def markShared_def split: option.splits)
  ultimately show ?thesis
    using runC_isolated [OF assms(1)] maps_kept_view Some by blast
qed

text \<open>A machine as \<^verbatim>\<open>NewVM\<close> makes it, with room for 64 frames.\<close>

definition newVM :: machine where
  "newVM = \<lparr> m_stack = [], m_locals = [], m_frames = [], m_fcap = 64, m_gen = 0 \<rparr>"

definition world0 :: world where
  "world0 = \<lparr> w_budget = None, w_caps = (\<lambda>_. []), w_next = 0, w_objs = (\<lambda>_. None), w_onext = 0, w_vm = newVM \<rparr>"

theorem capenv_cow_isolation_witness:
  "\<exists>c w c' w'. capSet ''state'' (CapVal UnitVal) emptyCapEnv world0 = (c, w) \<and>
     capSet ''state'' (CapOther 1) (markShared c) w = (c', w') \<and>
     view c w' ''state'' = Some (CapVal UnitVal) \<and> view c' w' ''state'' = Some (CapOther 1)"
proof -
  obtain c w where s1: "capSet ''state'' (CapVal UnitVal) emptyCapEnv world0 = (c, w)" by fastforce
  obtain c' w' where s2: "capSet ''state'' (CapOther 1) (markShared c) w = (c', w')" by fastforce
  have "valid c w"
    using capSet_valid [OF s1] by (simp add: valid_def emptyCapEnv_def)
  then have "view c w' = view c w"
    using capenv_cow_isolation [of "[CSet ''state'' (CapOther 1)]" c w c' w' c] s2 by simp
  then show ?thesis
    using s1 s2 capSet_view [OF s1] capSet_view [OF s2] by auto
qed

text \<open>On the view, Set binds, Delete removes, Filter restricts and MergeWith overrides with its
  argument, whether the handle is nil, shared or unshared.\<close>

theorem capenv_view_ops:
  assumes "valid c w" "valid d w"
  shows "view (fst (capSet l v c w)) (snd (capSet l v c w)) = (view c w)(l \<mapsto> v) \<and>
    view (fst (capDelete l c w)) (snd (capDelete l c w)) = (view c w)(l := None) \<and>
    view (fst (capFilter ls c w)) (snd (capFilter ls c w)) = view c w |` set ls \<and>
    view (fst (capMergeWith c d w)) (snd (capMergeWith c d w)) = view c w ++ view d w"
  using assms capSet_view [of l v c w] capDelete_view [of l c w] capFilter_view [of ls c w]
    capMergeWith_view [of c d w] by (metis prod.collapse)

theorem capenv_view_ops_witness:
  "view (fst (capSet ''a'' (CapOther 7) emptyCapEnv world0)) (snd (capSet ''a'' (CapOther 7) emptyCapEnv world0)) ''a''
     = Some (CapOther 7)"
proof -
  have "valid emptyCapEnv world0" by (simp add: valid_def emptyCapEnv_def)
  then show ?thesis
    using capenv_view_ops [of emptyCapEnv world0 emptyCapEnv "''a''" "CapOther 7" "[]"] by simp
qed

text \<open>An unshared handle is mutated in place: after Set on it, the old handle itself shows the new
  value.\<close>

theorem capenv_unshared_in_place:
  assumes "caps c = Some a" "\<not> shared c"
  shows "fst (capSet l v c w) = c \<and> view c (snd (capSet l v c w)) = (view c w)(l \<mapsto> v)"
  using assms capSet_view [of l v c w] by (auto simp: capSet_def)

theorem capenv_unshared_in_place_witness:
  "view \<lparr> caps = Some 0, shared = False \<rparr>
     (snd (capSet ''a'' (CapOther 1) \<lparr> caps = Some 0, shared = False \<rparr> world0)) ''a'' = Some (CapOther 1)"
  using capenv_unshared_in_place [of "\<lparr> caps = Some 0, shared = False \<rparr>" 0 "''a''" "CapOther 1" world0] by simp

end
