(* ===== verification/Vm_Apply.thy ===== *)
theory Vm_Apply
  imports Cap_Env
begin

text \<open>
  Applying functions from host code: \<^verbatim>\<open>internal/runtime/eval/prim.go\<close> (the \<^verbatim>\<open>Applier\<close> callbacks, the
  primitive registry) and the host side of the machine's application code,
  \<^verbatim>\<open>internal/runtime/vm/vm_apply_host.go\<close>, with \<^verbatim>\<open>callPrim\<close>, \<^verbatim>\<open>wrapPrimError\<close>, \<^verbatim>\<open>copyPrimVal\<close> and
  \<^verbatim>\<open>combineArgs\<close> of its neighbours.

  A primitive is a function of the capability environment, its arguments, the applier and the world.
  The applier it gets is the machine itself, so the definitions are open: each takes the applier
  \<open>self\<close> that callbacks and recursive calls go to, and \<open>vmApplier\<close> ties the knot with a fuel that
  bounds the nesting of such calls; out of fuel is the outcome \<open>Diverge\<close>. The bytecode loop is a
  parameter: \<open>vm_exec\<close> runs a callee that \<^verbatim>\<open>runCallee\<close> has set up on its barrier frame until the frame
  returns. The texts of Go type names and of printed values, which occur only in messages, are
  parameters as well. Observer events are not modelled. Argument slices are values here, so the
  shared scratch buffer of the machine is the argument list it holds at the call.
\<close>

section \<open>Appliers and primitives\<close>

record applier =
  applyA :: "val \<Rightarrow> val \<Rightarrow> capEnv \<Rightarrow> world \<Rightarrow> val gores"
  applyNA :: "val \<Rightarrow> val list \<Rightarrow> capEnv \<Rightarrow> world \<Rightarrow> val gores"
  forceEffA :: "(val \<Rightarrow> capEnv \<Rightarrow> world \<Rightarrow> val gores) option"

type_synonym primImpl = "capEnv \<Rightarrow> val list \<Rightarrow> applier \<Rightarrow> world \<Rightarrow> val gores"

fun applySeq :: "(val \<Rightarrow> val \<Rightarrow> capEnv \<Rightarrow> world \<Rightarrow> val gores) \<Rightarrow> val \<Rightarrow> val list \<Rightarrow> capEnv \<Rightarrow> world \<Rightarrow> val gores"
where
  "applySeq apply1 fn [] ce w = (Ret fn ce, w)"
| "applySeq apply1 fn (arg # args) ce w =
     callR (apply1 fn arg ce w) (\<lambda>c. c) (\<lambda>fn' ce' w'. applySeq apply1 fn' args ce' w')"

definition applierFrom :: "(val \<Rightarrow> val \<Rightarrow> capEnv \<Rightarrow> world \<Rightarrow> val gores) \<Rightarrow> applier" where
  "applierFrom apply1 = \<lparr> applyA = apply1, applyNA = applySeq apply1, forceEffA = None \<rparr>"

section \<open>The primitive registry\<close>

record 'i primRegistry =
  impls :: "(string \<times> 'i) list"
  sortedNames :: "string list option"

definition newPrimRegistry :: "'i primRegistry" where
  "newPrimRegistry = \<lparr> impls = [], sortedNames = None \<rparr>"

definition register :: "string \<Rightarrow> 'i \<Rightarrow> 'i primRegistry \<Rightarrow> 'i primRegistry" where
  "register name impl r = r\<lparr> impls := AList.update name impl (impls r), sortedNames := None \<rparr>"

definition lookupPrim :: "string \<Rightarrow> 'i primRegistry \<Rightarrow> 'i option" where
  "lookupPrim name r = map_of (impls r) name"

definition cloneReg :: "'i primRegistry \<Rightarrow> 'i primRegistry" where
  "cloneReg r = \<lparr> impls = impls r, sortedNames = None \<rparr>"

definition sortedNamesOf :: "'i primRegistry \<Rightarrow> string list \<times> 'i primRegistry" where
  "sortedNamesOf r =
     (case sortedNames r of
        Some names \<Rightarrow> (names, r)
      | None \<Rightarrow> let names = sort (map fst (impls r)) in (names, r\<lparr> sortedNames := Some names \<rparr>))"

section \<open>Running callees\<close>

datatype callee =
    CallClosure proto "val list" val
  | CallClosureMulti proto "val list" "val list"
  | CallThunk proto "val list"
  | CallApply val val
  | CallForce val

record vmEnv =
  vm_prims :: "primImpl primRegistry"
  vm_exec :: "applier \<Rightarrow> callee \<Rightarrow> capEnv \<Rightarrow> world \<Rightarrow> val gores"
  vm_show :: "val \<Rightarrow> string"
  vm_typeOf :: "val + val host \<Rightarrow> string"

text \<open>
  What \<^verbatim>\<open>setup\<close> does on the barrier frame: enter a closure with one or more arguments, enter a thunk, or dispatch \<^verbatim>\<open>apply\<close> or \<^verbatim>\<open>force\<close>,
  which the machine does for the remaining arguments of an over-applied function.
\<close>

text \<open>The loop that undoes the \<^verbatim>\<open>Enter\<close> calls of a failed callee. \<^verbatim>\<open>Leave\<close> does nothing at depth zero, so
  above a negative saved depth the loop would not end: \<open>None\<close>.\<close>

function leaveTo :: "int64 \<Rightarrow> budget \<Rightarrow> budget option" where
  "leaveTo saved b =
     (if saved <s b_depth b
      then if 0 <s b_depth b then leaveTo saved (leaveB b) else None
      else Some b)"
  by pat_completeness auto

lemma leaveB_depth:
  assumes "0 <s b_depth b"
  shows "sint (b_depth (leaveB b)) = sint (b_depth b) - 1"
proof -
  have "sint (b_depth b + (- 1)) = sint (b_depth b) + sint (- 1 :: int64)"
    using assms sint64_bounds [of "b_depth b"] by (intro sint64_add_no_overflow) (auto simp: go_simps)
  then show ?thesis using assms by (simp add: leaveB_def)
qed

termination leaveTo
  by (relation "measure (\<lambda>(saved, b). nat (sint (b_depth b)))") (auto simp: go_simps leaveB_depth)

declare leaveTo.simps [simp del]

definition runCallee :: "vmEnv \<Rightarrow> applier \<Rightarrow> callee \<Rightarrow> capEnv \<Rightarrow> world \<Rightarrow> val gores" where
  "runCallee E self cl ce w =
     (case w_budget w of
        None \<Rightarrow> (Panic, w)
      | Some b \<Rightarrow>
        (case vm_exec E self cl ce w of
           (Err e c, w') \<Rightarrow>
             (case w_budget w' of
                None \<Rightarrow> (Panic, w')
              | Some b' \<Rightarrow>
                (case leaveTo (b_depth b) b' of
                   None \<Rightarrow> (Diverge, w')
                 | Some b'' \<Rightarrow> (Err e c, w'\<lparr> w_budget := Some b'' \<rparr>)))
         | r \<Rightarrow> r))"

section \<open>Calling primitives\<close>

text \<open>\<^verbatim>\<open>wrapPrimError\<close>: structured errors and resource limits (which include cancellation and timeout)
  pass through, the others become runtime errors with the text of their \<^verbatim>\<open>Error()\<close> method.\<close>

fun wrapPrimError :: "vmEnv \<Rightarrow> err \<Rightarrow> err" where
  "wrapPrimError E (RuntimeError msg detail label) = RuntimeError msg detail label"
| "wrapPrimError E (LimitErr e) = LimitErr e"
| "wrapPrimError E (ErrTypeMismatch op want got) =
     RuntimeError (op @ '': expected '' @ want @ '', got '' @ vm_typeOf E got) None []"
| "wrapPrimError E (ErrMalformed op kind con) = RuntimeError (op @ '': malformed '' @ kind @ '': '' @ con) None []"
| "wrapPrimError E (PlainErr msg) = RuntimeError msg None []"

definition callPrim :: "vmEnv \<Rightarrow> applier \<Rightarrow> primImpl \<Rightarrow> capEnv \<Rightarrow> val list \<Rightarrow> world \<Rightarrow> val gores" where
  "callPrim E self impl ce args w =
     (case impl ce args self w of
        (Err e _, w') \<Rightarrow> (Err (wrapPrimError E e) ce, w')
      | r \<Rightarrow> r)"

definition resolvePrimImplBare :: "vmEnv \<Rightarrow> string \<Rightarrow> err + primImpl" where
  "resolvePrimImplBare E name =
     (case lookupPrim name (vm_prims E) of
        None \<Rightarrow> Inl (PlainErr (''missing primitive: '' @ name))
      | Some impl \<Rightarrow> Inr impl)"

definition copyPrimVal :: "string \<Rightarrow> nat \<Rightarrow> val list \<Rightarrow> bool \<Rightarrow> val" where
  "copyPrimVal name arity args effectful = PrimVal name arity effectful args"

definition combineArgs :: "val list \<Rightarrow> val list \<Rightarrow> val list" where
  "combineArgs old new = old @ new"

section \<open>Application\<close>

definition applyForPrim :: "vmEnv \<Rightarrow> applier \<Rightarrow> val \<Rightarrow> val \<Rightarrow> capEnv \<Rightarrow> world \<Rightarrow> val gores" where
  "applyForPrim E self fn arg ce w =
     (case fn of
        VMClosure captured proto name \<Rightarrow>
          if length (pParams proto) > 1
          then (Ret (PAPVal captured proto name [arg] (length (pParams proto))) ce, w)
          else callR (runCallee E self (CallClosure proto captured arg) ce w) (\<lambda>_. ce) (\<lambda>v c w'. (Ret v c, w'))
      | PAPVal captured proto name args arity \<Rightarrow>
          let newArgs = args @ [arg]
          in if length newArgs = arity
             then callR (runCallee E self (CallClosureMulti proto captured newArgs) ce w) (\<lambda>_. ce)
                    (\<lambda>v c w'. (Ret v c, w'))
             else (Ret (PAPVal captured proto name newArgs arity) ce, w)
      | ConVal con args isDict dictArgCount \<Rightarrow>
          let newArgs = args @ [arg];
              dc = (if dictArgCount = length args then countLeadingDictArgs newArgs else dictArgCount)
          in (Ret (ConVal con newArgs isDict dc) ce, w)
      | PrimVal name arity effectful args \<Rightarrow>
          let newLen = length args + 1
          in if newLen = arity \<and> \<not> effectful \<and> newLen \<le> 8
             then (case resolvePrimImplBare E name of
                     Inl e \<Rightarrow> (Err e ce, w)
                   | Inr impl \<Rightarrow> callR (callPrim E self impl ce (args @ [arg]) w) (\<lambda>_. ce) (\<lambda>v c w'. (Ret v c, w')))
             else if newLen < arity then (Ret (copyPrimVal name arity (args @ [arg]) effectful) ce, w)
             else if effectful then (Ret (copyPrimVal name arity (args @ [arg]) True) ce, w)
             else (case resolvePrimImplBare E name of
                     Inl e \<Rightarrow> (Err e ce, w)
                   | Inr impl \<Rightarrow> callR (callPrim E self impl ce (args @ [arg]) w) (\<lambda>_. ce) (\<lambda>v c w'. (Ret v c, w')))
      | VMThunkVal captured proto autoForce \<Rightarrow>
          callR (runCallee E self (CallThunk proto captured) ce w) (\<lambda>_. ce) (\<lambda>v c w'. (Ret v c, w'))
      | _ \<Rightarrow> (Err (PlainErr (''application of non-function in Applier: '' @ vm_show E fn)) ce, w))"

definition applyNForPrim :: "vmEnv \<Rightarrow> applier \<Rightarrow> val \<Rightarrow> val list \<Rightarrow> capEnv \<Rightarrow> world \<Rightarrow> val gores" where
  "applyNForPrim E self fn args ce w =
     (if length args = 0 then (Ret fn ce, w)
      else if length args = 1 then applyForPrim E self fn (args ! 0) ce w
      else case fn of
        VMClosure captured proto name \<Rightarrow>
          let arity = length (pParams proto)
          in if length args = arity
             then callR (runCallee E self (CallClosureMulti proto captured args) ce w) (\<lambda>_. ce) (\<lambda>v c w'. (Ret v c, w'))
             else if length args < arity then (Ret (PAPVal captured proto name args arity) ce, w)
             else callR (runCallee E self (CallClosureMulti proto captured (take arity args)) ce w) (\<lambda>_. ce)
                    (\<lambda>v c w'. applyNA self v (drop arity args) c w')
      | PAPVal captured proto name pargs arity \<Rightarrow>
          let combined = combineArgs pargs args
          in if length combined = arity
             then callR (runCallee E self (CallClosureMulti proto captured combined) ce w) (\<lambda>_. ce) (\<lambda>v c w'. (Ret v c, w'))
             else if length combined < arity then (Ret (PAPVal captured proto name combined arity) ce, w)
             else callR (runCallee E self (CallClosureMulti proto captured (take arity combined)) ce w) (\<lambda>_. ce)
                    (\<lambda>v c w'. applyNA self v (drop arity combined) c w')
      | ConVal con cargs isDict dictArgCount \<Rightarrow>
          let newArgs = cargs @ args;
              dc = (if dictArgCount = length cargs then countLeadingDictArgs newArgs else dictArgCount)
          in (Ret (ConVal con newArgs isDict dc) ce, w)
      | PrimVal name arity effectful pargs \<Rightarrow>
          let newLen = length pargs + length args; combined = combineArgs pargs args
          in if newLen = arity \<and> \<not> effectful \<and> newLen \<le> 8
             then (case resolvePrimImplBare E name of
                     Inl e \<Rightarrow> (Err e ce, w)
                   | Inr impl \<Rightarrow> callR (callPrim E self impl ce combined w) (\<lambda>_. ce) (\<lambda>v c w'. (Ret v c, w')))
             else if newLen < arity then (Ret (copyPrimVal name arity combined effectful) ce, w)
             else if effectful
             then if newLen = arity then (Ret (copyPrimVal name arity combined True) ce, w)
                  else applyNA self (copyPrimVal name arity (take arity combined) True) (drop arity combined) ce w
             else (case resolvePrimImplBare E name of
                     Inl e \<Rightarrow> (Err e ce, w)
                   | Inr impl \<Rightarrow>
                       if newLen = arity
                       then callR (callPrim E self impl ce combined w) (\<lambda>_. ce) (\<lambda>v c w'. (Ret v c, w'))
                       else callR (callPrim E self impl ce (take arity combined) w) (\<lambda>_. ce)
                              (\<lambda>v c w'. applyNA self v (drop arity combined) c w'))
      | VMThunkVal captured proto autoForce \<Rightarrow>
          callR (runCallee E self (CallThunk proto captured) ce w) (\<lambda>_. ce) (\<lambda>v c w'. applyNA self v args c w')
      | _ \<Rightarrow> (Err (PlainErr (''application of non-function in ApplyN: '' @ vm_show E fn)) ce, w))"

text \<open>\<^verbatim>\<open>vm.budget.Step()\<close> before a forced thunk.\<close>

definition budgetStep :: "capEnv \<Rightarrow> world \<Rightarrow> (world \<Rightarrow> 'a gores) \<Rightarrow> 'a gores" where
  "budgetStep ce w k =
     (case w_budget w of
        None \<Rightarrow> (Panic, w)
      | Some b \<Rightarrow> (case stepB b of
          (Some e, b') \<Rightarrow> (Err (LimitErr e) ce, w\<lparr> w_budget := Some b' \<rparr>)
        | (None, b') \<Rightarrow> k (w\<lparr> w_budget := Some b' \<rparr>)))"

definition forceEffectfulForPrim :: "vmEnv \<Rightarrow> applier \<Rightarrow> val \<Rightarrow> capEnv \<Rightarrow> world \<Rightarrow> val gores" where
  "forceEffectfulForPrim E self v ce w =
     (case v of
        VMThunkVal captured proto True \<Rightarrow>
          budgetStep ce w (\<lambda>w.
            callR (runCallee E self (CallThunk proto captured) ce w) (\<lambda>_. ce) (\<lambda>v c w'. (Ret v c, w')))
      | PrimVal name arity effectful args \<Rightarrow>
          if effectful \<and> length args \<ge> arity
          then (case resolvePrimImplBare E name of
                  Inl e \<Rightarrow> (Err e ce, w)
                | Inr impl \<Rightarrow>
                    callR (callPrim E self impl (markShared ce) args w) (\<lambda>_. ce) (\<lambda>v c w'. (Ret v c, w')))
          else (Ret v ce, w)
      | _ \<Rightarrow> (Ret v ce, w))"

definition forceMergeChild :: "vmEnv \<Rightarrow> applier \<Rightarrow> val \<Rightarrow> capEnv \<Rightarrow> world \<Rightarrow> val gores" where
  "forceMergeChild E self v ce w =
     (case v of
        VMThunkVal captured proto _ \<Rightarrow>
          budgetStep ce w (\<lambda>w.
            callR (runCallee E self (CallThunk proto captured) ce w) (\<lambda>_. ce) (\<lambda>v c w'. (Ret v c, w')))
      | _ \<Rightarrow> (Ret v ce, w))"

text \<open>The machine's \<^verbatim>\<open>cachedApplier\<close>.\<close>

fun vmApplier :: "vmEnv \<Rightarrow> nat \<Rightarrow> applier" where
  "vmApplier E 0 =
     \<lparr> applyA = (\<lambda>_ _ _ w. (Diverge, w)), applyNA = (\<lambda>_ _ _ w. (Diverge, w)),
       forceEffA = Some (\<lambda>_ _ w. (Diverge, w)) \<rparr>"
| "vmApplier E (Suc n) =
     \<lparr> applyA = applyForPrim E (vmApplier E n), applyNA = applyNForPrim E (vmApplier E n),
       forceEffA = Some (forceEffectfulForPrim E (vmApplier E n)) \<rparr>"

section \<open>Multi-argument application is iterated application\<close>

text \<open>\<open>saturable f n\<close>: \<open>f\<close> accepts \<open>n\<close> arguments without being over-saturated. A constructor value counts
  no more dictionary arguments than it has arguments.\<close>

fun saturable :: "val \<Rightarrow> nat \<Rightarrow> bool" where
  "saturable (VMClosure captured proto name) n \<longleftrightarrow> 2 \<le> length (pParams proto) \<and> n \<le> length (pParams proto)"
| "saturable (PAPVal captured proto name args arity) n \<longleftrightarrow> length args + n \<le> arity"
| "saturable (ConVal con args d k) n \<longleftrightarrow> k \<le> length args"
| "saturable (PrimVal name arity effectful args) n \<longleftrightarrow> length args + n \<le> arity"
| "saturable _ n \<longleftrightarrow> False"

lemma countLeadingDictArgs_le: "countLeadingDictArgs xs \<le> length xs"
  by (induction xs rule: countLeadingDictArgs.induct) auto

fun isDictVal :: "val \<Rightarrow> bool" where
  "isDictVal (ConVal con args d n) = d"
| "isDictVal _ = False"

lemma countLeadingDictArgs_Cons:
  "countLeadingDictArgs (a # xs) = (if isDictVal a then Suc (countLeadingDictArgs xs) else 0)"
  by (cases a) auto

lemma countLeadingDictArgs_append:
  "countLeadingDictArgs (xs @ ys) =
     (if countLeadingDictArgs xs = length xs then length xs + countLeadingDictArgs ys else countLeadingDictArgs xs)"
  by (induction xs rule: countLeadingDictArgs.induct) auto

text \<open>A saturated call of a non-effectful primitive, with or without the scratch buffer.\<close>

definition primCall :: "vmEnv \<Rightarrow> applier \<Rightarrow> string \<Rightarrow> val list \<Rightarrow> capEnv \<Rightarrow> world \<Rightarrow> val gores" where
  "primCall E self name args ce w =
     (case resolvePrimImplBare E name of
        Inl e \<Rightarrow> (Err e ce, w)
      | Inr impl \<Rightarrow> callR (callPrim E self impl ce args w) (\<lambda>_. ce) (\<lambda>v c w'. (Ret v c, w')))"

lemma applyForPrim_PrimVal:
  "length args < arity \<Longrightarrow> applyForPrim E self (PrimVal name arity eff args) a c w =
     (if length args + 1 < arity \<or> eff then (Ret (PrimVal name arity eff (args @ [a])) c, w)
      else primCall E self name (args @ [a]) c w)"
  by (simp add: applyForPrim_def primCall_def copyPrimVal_def Let_def)

lemma applyNForPrim_PrimVal:
  "length args + length as \<le> arity \<Longrightarrow> as \<noteq> [] \<Longrightarrow> applyNForPrim E self (PrimVal name arity eff args) as c w =
     (if length args + length as < arity \<or> eff then (Ret (PrimVal name arity eff (args @ as)) c, w)
      else primCall E self name (args @ as) c w)"
  by (cases as; cases "tl as")
    (auto simp: applyNForPrim_def applyForPrim_PrimVal primCall_def copyPrimVal_def combineArgs_def Let_def
      split: sum.splits)

lemma applyNForPrim_PAPVal:
  "length args + length as \<le> arity \<Longrightarrow> as \<noteq> [] \<Longrightarrow> applyNForPrim E self (PAPVal cs p name args arity) as c w =
     (if length args + length as < arity then (Ret (PAPVal cs p name (args @ as) arity) c, w)
      else callR (runCallee E self (CallClosureMulti p cs (args @ as)) c w) (\<lambda>_. c) (\<lambda>v c w'. (Ret v c, w')))"
  by (cases as; cases "tl as") (auto simp: applyNForPrim_def applyForPrim_def combineArgs_def Let_def)

lemma applyNForPrim_ConVal:
  "as \<noteq> [] \<Longrightarrow> applyNForPrim E self (ConVal con args d k) as c w =
     (Ret (ConVal con (args @ as) d (if k = length args then countLeadingDictArgs (args @ as) else k)) c, w)"
  by (cases as; cases "tl as") (auto simp: applyNForPrim_def applyForPrim_def Let_def)

lemma applyNForPrim_VMClosure:
  "2 \<le> length (pParams p) \<Longrightarrow> length as \<le> length (pParams p) \<Longrightarrow> as \<noteq> [] \<Longrightarrow>
   applyNForPrim E self (VMClosure cs p name) as c w =
     (if length as < length (pParams p) then (Ret (PAPVal cs p name as (length (pParams p))) c, w)
      else callR (runCallee E self (CallClosureMulti p cs as) c w) (\<lambda>_. c) (\<lambda>v c w'. (Ret v c, w')))"
  by (cases as; cases "tl as") (auto simp: applyNForPrim_def applyForPrim_def Let_def)

lemmas applyN_cases = applyNForPrim_PrimVal applyNForPrim_PAPVal applyNForPrim_ConVal applyNForPrim_VMClosure

fun partialApp :: "val \<Rightarrow> val \<Rightarrow> val" where
  "partialApp (VMClosure cs p name) a = PAPVal cs p name [a] (length (pParams p))"
| "partialApp (PAPVal cs p name args arity) a = PAPVal cs p name (args @ [a]) arity"
| "partialApp (ConVal con args d k) a =
     ConVal con (args @ [a]) d (if k = length args then countLeadingDictArgs (args @ [a]) else k)"
| "partialApp (PrimVal name arity eff args) a = PrimVal name arity eff (args @ [a])"
| "partialApp v a = v"

lemma applyForPrim_partial:
  "saturable f (Suc (Suc n)) \<Longrightarrow> applyForPrim E self f a c w = (Ret (partialApp f a) c, w)"
  by (cases f) (simp_all add: applyForPrim_def copyPrimVal_def Let_def)

lemma saturable_partialApp: "saturable f (Suc (Suc n)) \<Longrightarrow> saturable (partialApp f a) (Suc n)"
  using countLeadingDictArgs_le by (cases f) (auto simp: countLeadingDictArgs_append countLeadingDictArgs_Cons le_Suc_eq)

lemma applyNForPrim_partialApp:
  "saturable f (Suc (length as)) \<Longrightarrow> as \<noteq> [] \<Longrightarrow>
     applyNForPrim E self (partialApp f a) as c w = applyNForPrim E self f (a # as) c w"
  by (cases f) (auto simp: applyN_cases countLeadingDictArgs_append countLeadingDictArgs_Cons)

lemma applyForPrim_err_cap: "applyForPrim E self f a c w = (Err e c', w') \<Longrightarrow> c' = c"
  by (auto simp: applyForPrim_def callR_Err_iff Let_def split: val.splits if_splits sum.splits)

lemma applyNForPrim_seq:
  "saturable f (length as) \<Longrightarrow> applyNForPrim E self f as c w = applySeq (applyForPrim E self) f as c w"
proof (induction as arbitrary: f)
  case Nil
  then show ?case by (simp add: applyNForPrim_def)
next
  case (Cons a as)
  show ?case
  proof (cases as)
    case Nil
    obtain r w' where r: "applyForPrim E self f a c w = (r, w')" by fastforce
    then show ?thesis using Nil by (cases r) (auto simp: applyNForPrim_def)
  next
    case (Cons b bs)
    then have "saturable f (Suc (Suc (length bs)))" using Cons.prems by simp
    then show ?thesis
      using Cons Cons.IH [of "partialApp f a"] saturable_partialApp [of f "length bs" a]
        applyForPrim_partial [of f "length bs" E self a c w] applyNForPrim_partialApp [of f as E self a c w]
      by simp
  qed
qed

section \<open>Depth after a failed callee\<close>

lemma leaveTo_spec:
  assumes "0 \<le> sint saved"
  shows "\<exists>b'. leaveTo saved b = Some b' \<and> sint (b_depth b') = min (sint saved) (sint (b_depth b)) \<and>
    b' = b\<lparr> b_depth := b_depth b' \<rparr>"
  using assms
proof (induction saved b rule: leaveTo.induct)
  case (1 saved b)
  show ?case
  proof (cases "saved <s b_depth b")
    case False
    then show ?thesis by (subst leaveTo.simps) (auto simp: go_simps)
  next
    case True
    then have pos: "0 <s b_depth b" using 1(2) by (simp add: go_simps)
    obtain b' where b': "leaveTo saved (leaveB b) = Some b'"
      "sint (b_depth b') = min (sint saved) (sint (b_depth (leaveB b)))"
      "b' = (leaveB b)\<lparr> b_depth := b_depth b' \<rparr>"
      using 1(1) [OF True pos 1(2)] by blast
    have "b' = b\<lparr> b_depth := b_depth b' \<rparr>"
      by (subst b'(3)) (simp add: leaveB_def)
    moreover have "sint (b_depth b') = min (sint saved) (sint (b_depth b))"
      using b'(2) leaveB_depth [OF pos] True by (simp add: go_simps)
    ultimately show ?thesis using True pos b'(1) by (subst leaveTo.simps) auto
  qed
qed

section \<open>Over-saturation\<close>

lemma oversaturated_Diverge:
  assumes "length args = arity" "2 \<le> length as"
  shows "applyNA (vmApplier E n) (PrimVal name arity True args) as c w = (Diverge, w)"
proof (induction n)
  case (Suc n)
  have "length as \<noteq> 0" "length as \<noteq> 1" using assms(2) by auto
  then show ?case
    using Suc assms by (simp add: applyNForPrim_def combineArgs_def copyPrimVal_def Let_def)
qed simp

lemma applySeq_effectful:
  "arity \<le> length args \<Longrightarrow> applySeq (applyForPrim E self) (PrimVal name arity True args) as c w =
     (Ret (PrimVal name arity True (args @ as)) c, w)"
  by (induction as arbitrary: args) (simp_all add: applyForPrim_def copyPrimVal_def Let_def)

section \<open>The registry\<close>

datatype 'i regOp = RRegister string 'i | RNames | RClone

fun opR :: "'i regOp \<Rightarrow> 'i primRegistry \<Rightarrow> 'i primRegistry" where
  "opR (RRegister name impl) r = register name impl r"
| "opR RNames r = snd (sortedNamesOf r)"
| "opR RClone r = cloneReg r"

definition reg_ok :: "'i primRegistry \<Rightarrow> bool" where
  "reg_ok r \<longleftrightarrow> distinct (map fst (impls r)) \<and>
     (case sortedNames r of None \<Rightarrow> True | Some names \<Rightarrow> names = sort (map fst (impls r)))"

lemma reg_ok_op: "reg_ok r \<Longrightarrow> reg_ok (opR x r)"
  by (cases x) (auto simp: reg_ok_def register_def sortedNamesOf_def cloneReg_def Let_def AList.distinct_update
      split: option.splits)

lemma reg_ok_run: "reg_ok r \<Longrightarrow> reg_ok (fold opR xs r)"
  by (induction xs arbitrary: r) (auto simp: reg_ok_op)

lemma opR_lookup:
  "lookupPrim name (opR x r) = (case x of RRegister m i \<Rightarrow> if name = m then Some i else lookupPrim name r
     | _ \<Rightarrow> lookupPrim name r)"
  by (cases x) (auto simp: lookupPrim_def register_def cloneReg_def sortedNamesOf_def Let_def AList.update_conv
      split: option.splits)

lemma fold_opR_lookup:
  "lookupPrim name (fold opR xs r) =
     fold (\<lambda>x m. case x of RRegister k i \<Rightarrow> (if name = k then Some i else m) | _ \<Rightarrow> m) xs (lookupPrim name r)"
  by (induction xs arbitrary: r) (auto simp: opR_lookup split: regOp.splits intro!: arg_cong2 [where f = "fold _"])

section \<open>Properties\<close>

text \<open>A machine whose every callee fails one call deep, and an empty prototype, for the instances below.\<close>

definition failingEnv :: vmEnv where
  "failingEnv = \<lparr> vm_prims = newPrimRegistry,
     vm_exec = (\<lambda>_ _ c w. (Err (PlainErr ''x'') c, w\<lparr> w_budget := map_option (snd \<circ> enterB) (w_budget w) \<rparr>)),
     vm_show = (\<lambda>_. []), vm_typeOf = (\<lambda>_. []) \<rparr>"

definition emptyProto :: proto where
  "emptyProto = Proto [] [] [] [] 0 [] True [] (- 1) [] [] [] [] None []"

text \<open>C22: The native multi-argument callback computes what applying the arguments one by one computes
  (the contract of \<^verbatim>\<open>ApplierFrom\<close>), outcome and world alike, for every closure of two or more parameters,
  partial application, constructor and primitive that is not over-saturated by the arguments.\<close>

theorem applyN_iterates_apply:
  assumes "saturable f (length as)"
  shows "applyNA (vmApplier E (Suc n)) f as c w =
    applyNA (applierFrom (applyA (vmApplier E (Suc n)))) f as c w"
  using applyNForPrim_seq [OF assms] by (simp add: applierFrom_def)

theorem applyN_iterates_apply_witness:
  "saturable (mkCon ''Just'' []) (length [UnitVal]) \<and>
   applyNA (vmApplier failingEnv (Suc 0)) (mkCon ''Just'' []) [UnitVal] emptyCapEnv world0 =
     applyNA (applierFrom (applyA (vmApplier failingEnv (Suc 0)))) (mkCon ''Just'' []) [UnitVal] emptyCapEnv world0"
  using applyN_iterates_apply [of "mkCon ''Just'' []" "[UnitVal]" failingEnv 0 emptyCapEnv world0] by (simp add: mkCon_def)

text \<open>C40: Applying a saturated effectful primitive to two or more further arguments in one call never
  returns: the branch for over-saturated effectful primitives calls itself on the arguments it was given.
  Applying the same arguments one at a time returns a primitive value.\<close>

theorem applyN_oversaturated_effectful_diverges:
  assumes "length args = arity" "2 \<le> length as"
  shows "applyNA (vmApplier E n) (PrimVal name arity True args) as c w = (Diverge, w) \<and>
    applySeq (applyA (vmApplier E (Suc n))) (PrimVal name arity True args) as c w =
      (Ret (PrimVal name arity True (args @ as)) c, w)"
  using oversaturated_Diverge [OF assms] applySeq_effectful [of arity args] assms(1) by simp

theorem applyN_oversaturated_effectful_diverges_witness:
  "applyNA (vmApplier failingEnv 5) (PrimVal ''get'' 0 True []) [UnitVal, UnitVal] emptyCapEnv world0 = (Diverge, world0)"
  using applyN_oversaturated_effectful_diverges [of "[]" 0 "[UnitVal, UnitVal]" failingEnv 5 "''get''" emptyCapEnv world0]
  by simp

text \<open>When a callee fails, \<^verbatim>\<open>runCallee\<close> always comes back with its error, and the call depth of the
  budget is again at most what it was before the call; nothing else of the budget is touched.\<close>

theorem runCallee_restores_depth:
  assumes "w_budget w = Some b" "0 \<le> sint (b_depth b)"
    and "vm_exec E self cl c w = (Err e c', w')" "w_budget w' = Some b'"
  shows "\<exists>b''. runCallee E self cl c w = (Err e c', w'\<lparr> w_budget := Some b'' \<rparr>) \<and>
    sint (b_depth b'') = min (sint (b_depth b)) (sint (b_depth b')) \<and> b'' = b'\<lparr> b_depth := b_depth b'' \<rparr>"
  using leaveTo_spec [OF assms(2), of b'] assms(1,3,4) by (auto simp: runCallee_def)

theorem runCallee_restores_depth_witness:
  "\<exists>b. w_budget (snd (runCallee failingEnv (vmApplier failingEnv 0) (CallThunk emptyProto []) emptyCapEnv
       (world0\<lparr> w_budget := Some (newBudget None 0 0) \<rparr>))) = Some b \<and> sint (b_depth b) = 0"
proof -
  let ?w = "world0\<lparr> w_budget := Some (newBudget None 0 0) \<rparr>"
  have "w_budget ?w = Some (newBudget None 0 0)" "0 \<le> sint (b_depth (newBudget None 0 0))"
    "vm_exec failingEnv (vmApplier failingEnv 0) (CallThunk emptyProto []) emptyCapEnv ?w =
       (Err (PlainErr ''x'') emptyCapEnv, ?w\<lparr> w_budget := Some (snd (enterB (newBudget None 0 0))) \<rparr>)"
    "sint (b_depth (snd (enterB (newBudget None 0 0)))) = 1"
    by (simp_all add: failingEnv_def newBudget_def Let_def enterB_def go_simps)
  then show ?thesis
    using runCallee_restores_depth [of ?w "newBudget None 0 0" failingEnv "vmApplier failingEnv 0" "CallThunk emptyProto []"
        emptyCapEnv "PlainErr ''x''" emptyCapEnv "?w\<lparr> w_budget := Some (snd (enterB (newBudget None 0 0))) \<rparr>"
        "snd (enterB (newBudget None 0 0))"]
    by (auto simp: newBudget_def)
qed

text \<open>The registry's cached name list is never stale: after any sequence of Register, SortedNames and
  Clone calls on a new registry, SortedNames returns the sorted list of exactly the registered names,
  and Lookup finds the implementation registered last.\<close>

theorem registry_names_coherent:
  "let r = fold opR xs newPrimRegistry; names = fst (sortedNamesOf r)
   in sorted_wrt (<) names \<and> set names = {name. lookupPrim name r \<noteq> None} \<and>
      (\<forall>name. lookupPrim name r =
         fold (\<lambda>x m. case x of RRegister k i \<Rightarrow> (if name = k then Some i else m) | _ \<Rightarrow> m) xs None)"
proof -
  have "reg_ok (fold opR xs newPrimRegistry)"
    by (rule reg_ok_run) (simp add: reg_ok_def newPrimRegistry_def)
  then show ?thesis
    by (auto simp: reg_ok_def sortedNamesOf_def Let_def lookupPrim_def map_of_eq_None_iff strict_sorted_iff
        fold_opR_lookup [unfolded lookupPrim_def] newPrimRegistry_def dom_map_of_conv_image_fst
        split: option.splits dest: map_of_SomeD)
qed

end
