(* ===== verification/Stdlib_Base.thy ===== *)
theory Stdlib_Base
  imports Vm_Apply
begin

text \<open>
  The helpers of \<^verbatim>\<open>internal/host/stdlib/stdlib.go\<close> and the integer primitives of \<^verbatim>\<open>num.go\<close>. An \<open>Int\<close> is a
  signed 64-bit word with Go's wrapping addition and truncating division. Primitives read their
  arguments with \<open>argN\<close>, convert them with a function into \<open>err + 'a\<close>, and return the capability
  environment they were given. The results fix the arithmetic: the division law, that comparison
  is the order of the signed values, that costs saturate, and where the greatest common divisor is
  not one.
\<close>

section \<open>Helpers\<close>

definition costSlotSize :: int64 where "costSlotSize = 16"
definition costConsNode :: int64 where "costConsNode = 64"
definition costTupleNode :: int64 where "costTupleNode = 80"
definition costAVLNode :: int64 where "costAVLNode = 64"
definition costPerByte :: int64 where "costPerByte = 1"

text \<open>Go's signed division truncates towards zero.\<close>

definition quotT :: "int \<Rightarrow> int \<Rightarrow> int" where
  "quotT x y = (if (x < 0) = (y < 0) then \<bar>x\<bar> div \<bar>y\<bar> else - (\<bar>x\<bar> div \<bar>y\<bar>))"

definition remT :: "int \<Rightarrow> int \<Rightarrow> int" where
  "remT x y = (if x < 0 then - (\<bar>x\<bar> mod \<bar>y\<bar>) else \<bar>x\<bar> mod \<bar>y\<bar>)"

definition goDiv :: "int64 \<Rightarrow> int64 \<Rightarrow> int64" where
  "goDiv a b = word_of_int (quotT (sint a) (sint b))"

definition goMod :: "int64 \<Rightarrow> int64 \<Rightarrow> int64" where
  "goMod a b = word_of_int (remT (sint a) (sint b))"

definition checkedMulCost :: "int64 \<Rightarrow> int64 \<Rightarrow> int64" where
  "checkedMulCost n costPerUnit =
     (if 0 <s costPerUnit \<and> goDiv MaxInt64 costPerUnit <s n then MaxInt64 else n * costPerUnit)"

definition asInt64 :: "val \<Rightarrow> string \<Rightarrow> err + int64" where
  "asInt64 v pack =
     (case v of
        HostVal h \<Rightarrow> (case h of HInt n \<Rightarrow> Inr n | _ \<Rightarrow> Inl (errExpected (''stdlib/'' @ pack) ''int64'' (Inr h)))
      | _ \<Rightarrow> Inl (errExpected (''stdlib/'' @ pack) ''HostVal'' (Inl v)))"

definition asFloat64 :: "val \<Rightarrow> string \<Rightarrow> err + int64" where
  "asFloat64 v pack =
     (case v of
        HostVal h \<Rightarrow> (case h of HFloat f \<Rightarrow> Inr f | _ \<Rightarrow> Inl (errExpected (''stdlib/'' @ pack) ''float64'' (Inr h)))
      | _ \<Rightarrow> Inl (errExpected (''stdlib/'' @ pack) ''HostVal'' (Inl v)))"

definition ordVal :: "int \<Rightarrow> val" where
  "ordVal cmp = (if cmp < 0 then mkCon OrderLT [] else if cmp > 0 then mkCon OrderGT [] else mkCon OrderEQ [])"

text \<open>A conversion with its error test: the error is returned with the caller's environment.\<close>

fun tryE :: "err + 'a \<Rightarrow> capEnv \<Rightarrow> world \<Rightarrow> ('a \<Rightarrow> 'b gores) \<Rightarrow> 'b gores" where
  "tryE (Inl e) ce w k = (Err e ce, w)"
| "tryE (Inr a) ce w k = k a"

text \<open>\<^verbatim>\<open>budget.ChargeAlloc(ctx, n)\<close> with its error test.\<close>

definition charge :: "int64 \<Rightarrow> capEnv \<Rightarrow> world \<Rightarrow> (world \<Rightarrow> 'b gores) \<Rightarrow> 'b gores" where
  "charge n ce w k =
     (case chargeAlloc n (w_budget w) of
        (Some e, b) \<Rightarrow> (Err (LimitErr e) ce, w\<lparr> w_budget := b \<rparr>)
      | (None, b) \<Rightarrow> k (w\<lparr> w_budget := b \<rparr>))"

definition driveEffectful :: "val \<Rightarrow> capEnv \<Rightarrow> applier \<Rightarrow> world \<Rightarrow> val gores" where
  "driveEffectful thunk ce ap w =
     callR (applyA ap thunk UnitVal ce w) (\<lambda>_. ce)
       (\<lambda>v newCe w'. case forceEffA ap of Some force \<Rightarrow> force v newCe w' | None \<Rightarrow> (Ret v newCe, w'))"

definition validateLabelArg :: "val list \<Rightarrow> err option" where
  "validateLabelArg args =
     (case args of
        [] \<Rightarrow> Some (RuntimeError ''named capability operation requires @#label argument'' None [])
      | HostVal (HString _) # _ \<Rightarrow> None
      | _ \<Rightarrow> Some (RuntimeError ''named capability operation requires @#label argument; got a non-label value (missing @#label?)'' None []))"

definition withLabel :: "primImpl \<Rightarrow> primImpl" where
  "withLabel fn ce args ap w =
     (case validateLabelArg args of Some e \<Rightarrow> (Err e ce, w) | None \<Rightarrow> fn ce (drop 1 args) ap w)"

definition extractLabel :: "val list \<Rightarrow> err + string" where
  "extractLabel args =
     (case args of
        [] \<Rightarrow> Inl (RuntimeError ''named capability operation requires @#label argument'' None [])
      | HostVal (HString s) # _ \<Rightarrow> Inr s
      | _ \<Rightarrow> Inl (RuntimeError ''named capability operation requires @#label argument; got a non-label value (missing @#label?)'' None []))"

section \<open>Integer primitives\<close>

definition asInt64Num :: "val \<Rightarrow> err + int64" where
  "asInt64Num v = asInt64 v ''num''"

definition intResult :: "int64 \<Rightarrow> capEnv \<Rightarrow> world \<Rightarrow> val gores" where
  "intResult n ce w = (Ret (intVal n) ce, w)"

text \<open>The two operand reads every binary primitive starts with.\<close>

definition intArgs2 :: "capEnv \<Rightarrow> val list \<Rightarrow> world \<Rightarrow> (int64 \<Rightarrow> int64 \<Rightarrow> val gores) \<Rightarrow> val gores" where
  "intArgs2 ce args w k =
     argN args 0 w (\<lambda>x. tryE (asInt64Num x) ce w (\<lambda>a.
     argN args 1 w (\<lambda>y. tryE (asInt64Num y) ce w (\<lambda>b. k a b))))"

definition addIntImpl :: primImpl where
  "addIntImpl ce args ap w = intArgs2 ce args w (\<lambda>a b. intResult (a + b) ce w)"

definition subIntImpl :: primImpl where
  "subIntImpl ce args ap w = intArgs2 ce args w (\<lambda>a b. intResult (a - b) ce w)"

definition mulIntImpl :: primImpl where
  "mulIntImpl ce args ap w = intArgs2 ce args w (\<lambda>a b. intResult (a * b) ce w)"

definition errDivisionByZero :: err where "errDivisionByZero = PlainErr ''division by zero''"
definition errModuloByZero :: err where "errModuloByZero = PlainErr ''modulo by zero''"

definition divIntImpl :: primImpl where
  "divIntImpl ce args ap w =
     intArgs2 ce args w (\<lambda>a b. if b = 0 then (Err errDivisionByZero ce, w) else intResult (goDiv a b) ce w)"

definition modIntImpl :: primImpl where
  "modIntImpl ce args ap w =
     intArgs2 ce args w (\<lambda>a b. if b = 0 then (Err errModuloByZero ce, w) else intResult (goMod a b) ce w)"

definition negIntImpl :: primImpl where
  "negIntImpl ce args ap w =
     argN args 0 w (\<lambda>x. tryE (asInt64Num x) ce w (\<lambda>a. intResult (- a) ce w))"

definition eqIntImpl :: primImpl where
  "eqIntImpl ce args ap w = intArgs2 ce args w (\<lambda>a b. (Ret (boolVal (a = b)) ce, w))"

definition formatInt :: "int64 \<Rightarrow> string" where
  "formatInt n = (if n <s 0 then CHR ''-'' # itoa (nat \<bar>sint n\<bar>) else itoa (nat (sint n)))"

definition numShowIntImpl :: primImpl where
  "numShowIntImpl ce args ap w =
     argN args 0 w (\<lambda>x. tryE (asInt64Num x) ce w (\<lambda>n. (Ret (HostVal (HString (formatInt n))) ce, w)))"

definition cmpIntImpl :: primImpl where
  "cmpIntImpl ce args ap w =
     intArgs2 ce args w (\<lambda>a b.
       (Ret (if a <s b then ordVal (- 1) else if b <s a then ordVal 1 else ordVal 0) ce, w))"

lemma sint64_eq0 [simp]: "sint (x :: int64) = 0 \<longleftrightarrow> x = 0"
  using signed_word_eqI [of x 0] by auto

lemma remT_abs: "y \<noteq> 0 \<Longrightarrow> \<bar>remT x y\<bar> < \<bar>y\<bar>"
  by (auto simp: remT_def abs_of_nonneg)

lemma goMod_sint:
  assumes "b \<noteq> 0"
  shows "sint (goMod a b) = remT (sint a) (sint b)"
proof -
  have "\<bar>remT (sint a) (sint b)\<bar> < \<bar>sint b\<bar>" using assms by (intro remT_abs) simp
  moreover have "\<bar>sint b\<bar> \<le> 2 ^ 63" using sint64_bounds [of b] by simp
  ultimately show ?thesis unfolding goMod_def
    by (subst sint_sbintrunc') (auto simp: signed_take_bit_int_eq_self)
qed

text \<open>The loop of \<^verbatim>\<open>gcdImpl\<close>.\<close>

function gcdLoop :: "int64 \<Rightarrow> int64 \<Rightarrow> int64" where
  "gcdLoop a b = (if b \<noteq> 0 then gcdLoop b (goMod a b) else a)"
  by pat_completeness auto
termination
  by (relation "measure (\<lambda>(a, b). nat \<bar>sint b\<bar>)") (auto simp: goMod_sint intro!: remT_abs)

declare gcdLoop.simps [simp del]

definition gcdImpl :: primImpl where
  "gcdImpl ce args ap w =
     intArgs2 ce args w (\<lambda>a b.
       let a = (if a <s 0 then - a else a); b = (if b <s 0 then - b else b)
       in intResult (gcdLoop a b) ce w)"

section \<open>Arithmetic\<close>

lemma quotT_remT: "quotT x y * y + remT x y = x"
proof -
  define q r where "q = \<bar>x\<bar> div \<bar>y\<bar>" and "r = \<bar>x\<bar> mod \<bar>y\<bar>"
  have "q * \<bar>y\<bar> + r = \<bar>x\<bar>" unfolding q_def r_def by (rule div_mult_mod_eq)
  then show ?thesis unfolding quotT_def remT_def q_def [symmetric] r_def [symmetric]
    by (cases "x < 0"; cases "y < 0") (auto simp: abs_if)
qed

lemma remT_dvd: "d dvd y \<Longrightarrow> d dvd remT x y \<longleftrightarrow> d dvd x"
  by (metis quotT_remT dvd_add_right_iff dvd_mult)

lemma gcd_remT: "gcd y (remT x y) = gcd x y"
  by (rule gcdI [symmetric]) (auto simp: remT_dvd intro: gcd_greatest dvd_trans)

lemma remT_nonneg: "0 \<le> x \<Longrightarrow> y \<noteq> 0 \<Longrightarrow> 0 \<le> remT x y"
  by (simp add: remT_def)

lemma gcdLoop_gcd: "0 \<le> sint a \<Longrightarrow> 0 \<le> sint b \<Longrightarrow> sint (gcdLoop a b) = gcd (sint a) (sint b)"
proof (induction a b rule: gcdLoop.induct)
  case (1 a b)
  show ?case
  proof (cases "b = 0")
    case False
    then show ?thesis
      using 1 by (subst gcdLoop.simps) (simp add: goMod_sint gcd_remT remT_nonneg)
  next
    case True
    then show ?thesis using 1 by (subst gcdLoop.simps) simp
  qed
qed

lemma sint64_uminus:
  assumes "- (2 ^ 63) < sint (a :: int64)"
  shows "sint (- a) = - sint a"
  using assms sint64_bounds [of a] by (simp add: sint_word_ariths signed_take_bit_int_eq_self)

lemma sint64_abs:
  "- (2 ^ 63) < sint (a :: int64) \<Longrightarrow> sint (if a <s 0 then - a else a) = \<bar>sint a\<bar>"
  by (simp add: sint64_uminus go_simps)

lemma quotT_pos: "0 \<le> x \<Longrightarrow> 0 < y \<Longrightarrow> quotT x y = x div y"
  by (simp add: quotT_def)

lemma div_pos_less_iff: "0 < y \<Longrightarrow> x div y < n \<longleftrightarrow> x < n * (y :: int)"
proof -
  assume y: "0 < y"
  have x: "x div y * y + x mod y = x" "0 \<le> x mod y" "x mod y < y" using y by simp_all
  show ?thesis
  proof
    assume "x div y < n"
    then have "(x div y + 1) * y \<le> n * y" using y by (intro mult_right_mono) auto
    then have "x div y * y + y \<le> n * y" by (simp add: distrib_right)
    then show "x < n * y" using x by linarith
  next
    assume "x < n * y"
    moreover have "n * y \<le> x div y * y" if "n \<le> x div y" using that y by (intro mult_right_mono) auto
    ultimately show "x div y < n" using x by linarith
  qed
qed

lemma div_le_dividend_int: "0 \<le> x \<Longrightarrow> 0 < y \<Longrightarrow> x div y \<le> (x :: int)"
  by (metis div_by_1 zdiv_mono2 zless_add1_eq add_0 int_one_le_iff_zero_less zero_less_one)

lemma goDiv_pos:
  assumes "0 \<le> sint a" "0 < sint b"
  shows "sint (goDiv a b) = sint a div sint b"
proof -
  have "0 \<le> sint a div sint b" "sint a div sint b \<le> sint a"
    using assms by (simp_all add: pos_imp_zdiv_nonneg_iff div_le_dividend_int)
  then show ?thesis
    using assms sint64_bounds [of a] unfolding goDiv_def
    by (subst sint_sbintrunc') (auto simp: quotT_pos intro!: signed_take_bit_int_eq_self)
qed

section \<open>Reading operands\<close>

lemma asInt64Num_intVal [simp]: "asInt64Num (intVal n) = Inr n"
  by (simp add: asInt64Num_def asInt64_def intVal_def)

lemma intVal_inject [simp]: "intVal a = intVal b \<longleftrightarrow> a = b"
  by (simp add: intVal_def)

lemma intArgs2_ints [simp]: "intArgs2 ce [intVal a, intVal b] w k = k a b"
  by (simp add: intArgs2_def)

section \<open>Properties\<close>

text \<open>Integer division truncates and agrees with the remainder: for a non-zero divisor both
  primitives return, \<open>q * b + r = a\<close> holds on 64-bit words (also where the quotient wraps), the
  remainder is smaller than the divisor in magnitude and never has the opposite sign of the dividend;
  a zero divisor is the error of its operation.\<close>

theorem int_division_law:
  "(b \<noteq> 0 \<longrightarrow> (\<exists>q r. divIntImpl ce [intVal a, intVal b] ap w = (Ret (intVal q) ce, w) \<and>
      modIntImpl ce [intVal a, intVal b] ap w = (Ret (intVal r) ce, w) \<and>
      q * b + r = a \<and> \<bar>sint r\<bar> < \<bar>sint b\<bar> \<and> 0 \<le> sint a * sint r)) \<and>
   divIntImpl ce [intVal a, intVal 0] ap w = (Err errDivisionByZero ce, w) \<and>
   modIntImpl ce [intVal a, intVal 0] ap w = (Err errModuloByZero ce, w)"
proof -
  have "goDiv a b * b + goMod a b = word_of_int (quotT (sint a) (sint b) * sint b + remT (sint a) (sint b))"
    by (simp add: goDiv_def goMod_def)
  then have "goDiv a b * b + goMod a b = a" by (simp add: quotT_remT)
  moreover have "0 \<le> sint a * remT (sint a) (sint b)"
    by (cases "sint b = 0") (auto simp: remT_def mult_le_0_iff zero_le_mult_iff)
  ultimately show ?thesis
    using remT_abs [of "sint b" "sint a"] goMod_sint [of b a]
    by (auto simp: divIntImpl_def modIntImpl_def intResult_def)
qed

theorem int_division_law_witness:
  "\<exists>q r. divIntImpl emptyCapEnv [intVal (- 7), intVal 2] (vmApplier failingEnv 0) world0 =
     (Ret (intVal q) emptyCapEnv, world0) \<and> q * 2 + r = - 7 \<and> sint r \<le> 0"
proof -
  have "sint (- 7 :: int64) = - 7" by simp
  then show ?thesis
    using int_division_law [of 2 emptyCapEnv "- 7" "vmApplier failingEnv 0" world0] by (auto simp: mult_le_0_iff)
qed

text \<open>Comparing two integers yields LT, EQ or GT as their signed values are ordered.\<close>

theorem cmpInt_signed_order:
  "cmpIntImpl ce [intVal a, intVal b] ap w =
     (Ret (mkCon (if sint a < sint b then OrderLT else if sint a = sint b then OrderEQ else OrderGT) []) ce, w)"
  by (simp add: cmpIntImpl_def ordVal_def go_simps)

text \<open>\<^verbatim>\<open>checkedMulCost\<close> saturates: for a non-negative count and a positive unit cost it is the product
  when that fits in 63 bits and the greatest 64-bit integer otherwise.\<close>

theorem checkedMulCost_saturates:
  assumes "0 \<le> sint n" "0 < sint c"
  shows "sint (checkedMulCost n c) = min (sint n * sint c) (2 ^ 63 - 1)"
proof -
  have d: "sint (goDiv MaxInt64 c) = (2 ^ 63 - 1) div sint c"
    using assms(2) goDiv_pos [of MaxInt64 c] by simp
  have iff: "(2 ^ 63 - 1) div sint c < sint n \<longleftrightarrow> 2 ^ 63 - 1 < sint n * sint c"
    using assms(2) by (rule div_pos_less_iff)
  show ?thesis
  proof (cases "2 ^ 63 - 1 < sint n * sint c")
    case True
    then show ?thesis using d iff assms by (simp add: checkedMulCost_def go_simps)
  next
    case False
    then have "sint (n * c) = sint n * sint c"
      using assms signed_take_bit_int_eq_self [of 63 "sint n * sint c"] mult_nonneg_nonneg [of "sint n" "sint c"]
      by (simp add: sint_word_ariths del: mult_nonneg_nonneg)
    then show ?thesis using False d iff assms by (simp add: checkedMulCost_def go_simps)
  qed
qed

theorem checkedMulCost_saturates_witness: "sint (checkedMulCost 0x4000000000000000 64) = 2 ^ 63 - 1"
  using checkedMulCost_saturates [of "0x4000000000000000" 64] by simp

text \<open>The gcd primitive returns the greatest common divisor of its operands when neither is the
  least 64-bit integer.\<close>

theorem gcd_correct:
  assumes "- (2 ^ 63) < sint a" "- (2 ^ 63) < sint b"
  shows "\<exists>g. gcdImpl ce [intVal a, intVal b] ap w = (Ret (intVal g) ce, w) \<and> sint g = gcd (sint a) (sint b)"
proof -
  have "sint (gcdLoop (if a <s 0 then - a else a) (if b <s 0 then - b else b)) = gcd (sint a) (sint b)"
    using assms by (subst gcdLoop_gcd) (simp_all only: sint64_abs, simp_all)
  then show ?thesis unfolding gcdImpl_def intArgs2_ints Let_def intResult_def by blast
qed

theorem gcd_correct_witness:
  "\<exists>g. gcdImpl emptyCapEnv [intVal 12, intVal (- 18)] (vmApplier failingEnv 0) world0 =
     (Ret (intVal g) emptyCapEnv, world0) \<and> sint g = 6"
proof -
  have "gcd (12 :: int) (- 18) = 6" by code_simp
  then show ?thesis
    using gcd_correct [of 12 "- 18" emptyCapEnv "vmApplier failingEnv 0" world0] by simp
qed

text \<open>With the least 64-bit integer as an operand, negating it leaves it negative, and the gcd
  primitive returns a negative number: \<open>gcd(-2^63, 6)\<close> is \<open>-2\<close>.\<close>

theorem gcd_min_int_negative:
  "gcdImpl ce [intVal 0x8000000000000000, intVal 6] ap w = (Ret (intVal (- 2)) ce, w)"
proof -
  have "goMod 0x8000000000000000 6 = - 2" "goMod 6 (- 2) = 0"
    by (simp_all add: goMod_def remT_def)
  then have "gcdLoop 0x8000000000000000 6 = - 2"
    by (simp add: gcdLoop.simps)
  moreover have "- (0x8000000000000000 :: int64) = 0x8000000000000000" by simp
  ultimately show ?thesis by (simp only: gcdImpl_def intArgs2_ints intResult_def Let_def) (simp add: go_simps)
qed

end
