(* ===== verification/Vm_Code.thy ===== *)
theory Vm_Code
  imports Vm_Apply
begin

text \<open>
  The instruction set, \<^verbatim>\<open>internal/runtime/vm/opcode.go\<close>, and the span table of a prototype, \<^verbatim>\<open>chunk.go\<close>. An opcode is a byte, numbered
  in the order of the Go constants, followed by operands whose number and width its entry in \<^verbatim>\<open>instructionSizes\<close> tells. \<open>fetch\<close> is what the
  dispatch loop and its \<^verbatim>\<open>DecodeU16\<close> calls read at an instruction pointer; reading beyond the end of the code panics in Go and is \<open>None\<close> here.

  Shown: an instruction that was emitted is read back, whatever surrounds it, and the span table finds the entry of an offset.
\<close>

unbundle bit_operations_syntax

section \<open>Opcodes\<close>

datatype opcode =
    OpLoadLocal | OpLoadGlobal | OpStoreLocal
  | OpConst | OpConstUnit
  | OpClosure | OpApply | OpTailApply | OpReturn
  | OpThunk | OpForce | OpForceTail | OpForceEffectful
  | OpBind
  | OpCon | OpRecord | OpRecordProj | OpRecordUpdate | OpVariant
  | OpMatchCon | OpMatchLit | OpMatchRecord | OpMatchLabel | OpMatchWild | OpMatchFail
  | OpJump | OpPop
  | OpFixClosure | OpFixThunk
  | OpPrim | OpPrimPartial | OpApplyN | OpTailApplyN | OpRecurseSelf | OpTailRecurseSelf | OpEffectPrim
  | OpMerge
  | OpRaise | OpStep

text \<open>The constants in the order of their declaration; the position is the number.\<close>

definition opcodes :: "opcode list" where
  "opcodes =
     [OpLoadLocal, OpLoadGlobal, OpStoreLocal, OpConst, OpConstUnit, OpClosure, OpApply, OpTailApply, OpReturn, OpThunk,
      OpForce, OpForceTail, OpForceEffectful, OpBind, OpCon, OpRecord, OpRecordProj, OpRecordUpdate, OpVariant, OpMatchCon,
      OpMatchLit, OpMatchRecord, OpMatchLabel, OpMatchWild, OpMatchFail, OpJump, OpPop, OpFixClosure, OpFixThunk, OpPrim,
      OpPrimPartial, OpApplyN, OpTailApplyN, OpRecurseSelf, OpTailRecurseSelf, OpEffectPrim, OpMerge, OpRaise, OpStep]"

fun indexIn :: "'a \<Rightarrow> 'a list \<Rightarrow> nat" where
  "indexIn x [] = 0"
| "indexIn x (y # ys) = (if x = y then 0 else Suc (indexIn x ys))"

definition opByte :: "opcode \<Rightarrow> 8 word" where "opByte op = of_nat (indexIn op opcodes)"

definition opOf :: "8 word \<Rightarrow> opcode option" where
  "opOf b = (if unat b < length opcodes then Some (opcodes ! unat b) else None)"

text \<open>The table \<^verbatim>\<open>instructionSizes\<close>.\<close>

definition InstructionSize :: "opcode \<Rightarrow> nat" where
  "InstructionSize op =
     (if op \<in> {OpLoadLocal, OpLoadGlobal, OpStoreLocal, OpConst, OpClosure, OpThunk, OpRecordProj, OpRecord, OpRecordUpdate, OpVariant,
         OpFixClosure, OpFixThunk, OpPrimPartial, OpBind, OpMerge, OpJump, OpStep} then 3
      else if op \<in> {OpCon, OpPrim, OpEffectPrim} then 4
      else if op \<in> {OpMatchCon, OpMatchRecord, OpMatchLit, OpMatchLabel} then 5
      else if op \<in> {OpApplyN, OpTailApplyN, OpRecurseSelf, OpTailRecurseSelf} then 2
      else 1)"

section \<open>Operands\<close>

definition EncodeU16 :: "16 word \<Rightarrow> 8 word list" where
  "EncodeU16 v = [ucast v, ucast (drop_bit 8 v)]"

definition DecodeU16 :: "8 word list \<Rightarrow> nat \<Rightarrow> 16 word option" where
  "DecodeU16 code offset =
     (if offset + 1 < length code then Some (ucast (code ! offset) OR push_bit 8 (ucast (code ! (offset + 1)))) else None)"

definition decodeU8 :: "8 word list \<Rightarrow> nat \<Rightarrow> 8 word option" where
  "decodeU8 code offset = (if offset < length code then Some (code ! offset) else None)"

text \<open>An instruction with its operands: the 16-bit operands and the 8-bit one; those an opcode does not have are zero.\<close>

datatype instr = Instr (iop: opcode) (ia: "16 word") (ib: "16 word") (ik: "8 word")

definition encodeI :: "instr \<Rightarrow> 8 word list" where
  "encodeI i =
     opByte (iop i) #
       (let n = InstructionSize (iop i)
        in if n = 2 then [ik i]
           else if n = 3 then EncodeU16 (ia i)
           else if n = 4 then EncodeU16 (ia i) @ [ik i]
           else if n = 5 then EncodeU16 (ia i) @ EncodeU16 (ib i)
           else [])"

text \<open>The operands that follow an opcode at \<open>ip - 1\<close>.\<close>

definition operands :: "opcode \<Rightarrow> 8 word list \<Rightarrow> nat \<Rightarrow> instr option" where
  "operands op code ip =
     (let n = InstructionSize op
      in if n = 2 then map_option (\<lambda>k. Instr op 0 0 k) (decodeU8 code ip)
         else if n = 3 then map_option (\<lambda>a. Instr op a 0 0) (DecodeU16 code ip)
         else if n = 4 then Option.bind (DecodeU16 code ip) (\<lambda>a. map_option (\<lambda>k. Instr op a 0 k) (decodeU8 code (ip + 2)))
         else if n = 5 then Option.bind (DecodeU16 code ip) (\<lambda>a. map_option (\<lambda>b. Instr op a b 0) (DecodeU16 code (ip + 2)))
         else Some (Instr op 0 0 0))"

datatype fetched = Fetched instr nat | Unknown "8 word" | OutOfCode

definition fetch :: "8 word list \<Rightarrow> nat \<Rightarrow> fetched" where
  "fetch code ip =
     (if ip < length code
      then case opOf (code ! ip) of
             None \<Rightarrow> Unknown (code ! ip)
           | Some op \<Rightarrow> (case operands op code (ip + 1) of None \<Rightarrow> OutOfCode | Some i \<Rightarrow> Fetched i (ip + InstructionSize op))
      else OutOfCode)"

text \<open>Operands an opcode does not have are zero.\<close>

definition plain :: "instr \<Rightarrow> bool" where
  "plain i \<longleftrightarrow>
     (InstructionSize (iop i) \<in> {1, 2} \<longrightarrow> ia i = 0) \<and> (InstructionSize (iop i) \<noteq> 5 \<longrightarrow> ib i = 0) \<and>
     (InstructionSize (iop i) \<notin> {2, 4} \<longrightarrow> ik i = 0)"

section \<open>Emitted instructions are read back\<close>

lemma opcodes_all: "op \<in> set opcodes"
  by (cases op) (simp_all add: opcodes_def)

lemma indexIn_less: "x \<in> set xs \<Longrightarrow> indexIn x xs < length xs \<and> xs ! indexIn x xs = x"
  by (induction xs) auto

lemma opOf_opByte [simp]: "opOf (opByte op) = Some op"
proof -
  have "indexIn op opcodes < length opcodes" "opcodes ! indexIn op opcodes = op"
    using indexIn_less [OF opcodes_all] by auto
  moreover have "length opcodes < 256" by (simp add: opcodes_def)
  ultimately show ?thesis by (simp add: opOf_def opByte_def unat_of_nat)
qed

lemma u16_bytes: "ucast (ucast v :: 8 word) OR push_bit 8 (ucast (ucast (drop_bit 8 v) :: 8 word)) = (v :: 16 word)"
  by (rule bit_word_eqI) (auto simp: bit_simps)

lemma DecodeU16_EncodeU16:
  assumes "n = length xs"
  shows "DecodeU16 (xs @ EncodeU16 v @ ys) n = Some v"
  using assms by (simp add: DecodeU16_def EncodeU16_def nth_append u16_bytes)

lemma DecodeU16_prefix [simp]: "DecodeU16 (x # xs) (Suc n) = DecodeU16 xs n"
  by (simp add: DecodeU16_def)

lemma DecodeU16_here [simp]: "DecodeU16 (EncodeU16 v @ ys) 0 = Some v"
  using DecodeU16_EncodeU16 [of 0 "[]"] by simp

lemma DecodeU16_skip [simp]: "DecodeU16 (EncodeU16 v @ ys) (Suc (Suc n)) = DecodeU16 ys n"
  by (simp add: DecodeU16_def EncodeU16_def)

lemma decodeU8_skip [simp]: "decodeU8 (EncodeU16 v @ ys) (Suc (Suc n)) = decodeU8 ys n"
  by (simp add: decodeU8_def EncodeU16_def)

lemma DecodeU16_append: "n = length xs + k \<Longrightarrow> DecodeU16 (xs @ ys) n = DecodeU16 ys k"
  by (simp add: DecodeU16_def nth_append)

lemma decodeU8_append: "n = length xs + k \<Longrightarrow> decodeU8 (xs @ ys) n = decodeU8 ys k"
  by (simp add: decodeU8_def nth_append)

lemma decodeU8_here [simp]: "decodeU8 (k # ys) 0 = Some k" "decodeU8 (k # ys) (Suc n) = decodeU8 ys n"
  by (simp_all add: decodeU8_def)

lemma operands_append: "n = length xs + k \<Longrightarrow> operands op (xs @ ys) n = operands op ys k"
  using DecodeU16_append [of n xs k ys] DecodeU16_append [of "n + 2" xs "k + 2" ys] decodeU8_append [of n xs k ys]
    decodeU8_append [of "n + 2" xs "k + 2" ys]
  by (simp only: operands_def add.assoc refl simp_thms)

lemma fetch_append: "n = length xs + k \<Longrightarrow> fetch (xs @ ys) n = (case fetch ys k of Fetched i m \<Rightarrow> Fetched i (length xs + m) | r \<Rightarrow> r)"
  using operands_append [of "Suc n" xs "Suc k" _ ys]
  by (auto simp: fetch_def nth_append split: option.splits)

lemma length_encodeI: "length (encodeI i) = InstructionSize (iop i)"
  by (auto simp: encodeI_def EncodeU16_def InstructionSize_def Let_def)

lemma encodeI_not_Nil [simp]: "encodeI i \<noteq> []"
  by (simp add: encodeI_def)

lemma InstructionSize_cases:
  obtains "InstructionSize op = 1" | "InstructionSize op = 2" | "InstructionSize op = 3" | "InstructionSize op = 4" | "InstructionSize op = 5"
proof -
  have "InstructionSize op \<in> {1, 2, 3, 4, 5}" by (cases op) (simp_all add: InstructionSize_def)
  then show ?thesis using that by blast
qed

lemma operands_encodeI: "plain i \<Longrightarrow> operands (iop i) (encodeI i @ ys) 1 = Some i"
proof (cases i)
  case (Instr op a b k)
  assume "plain i"
  then show ?thesis
    unfolding Instr by (cases op rule: InstructionSize_cases) (simp_all add: operands_def encodeI_def plain_def numeral_2_eq_2)
qed

lemma fetch_here: "plain i \<Longrightarrow> fetch (encodeI i @ ys) 0 = Fetched i (length (encodeI i))"
proof -
  assume "plain i"
  then have "operands (iop i) (encodeI i @ ys) 1 = Some i" by (rule operands_encodeI)
  moreover have "(encodeI i @ ys) ! 0 = opByte (iop i)" by (simp add: encodeI_def)
  moreover have "0 < length (encodeI i @ ys)" by simp
  ultimately show ?thesis by (simp only: fetch_def) (simp add: length_encodeI)
qed

section \<open>The span table\<close>

text \<open>\<^verbatim>\<open>SpanAt\<close>: the last entry at or before the offset, by binary search.\<close>

function spanSearch :: "(nat \<times> span) list \<Rightarrow> nat \<Rightarrow> nat \<Rightarrow> nat \<Rightarrow> nat" where
  "spanSearch spans offset lo hi =
     (if lo < hi
      then let mid = (lo + hi + 1) div 2
           in if fst (spans ! mid) \<le> offset then spanSearch spans offset mid hi else spanSearch spans offset lo (mid - 1)
      else lo)"
  by pat_completeness auto
termination by (relation "measure (\<lambda>(_, _, lo, hi). hi - lo)") auto

declare spanSearch.simps [simp del]

definition SpanAt :: "proto \<Rightarrow> nat \<Rightarrow> span option" where
  "SpanAt p offset =
     (if pSpans p = [] then None
      else Some (snd (pSpans p ! spanSearch (pSpans p) offset 0 (length (pSpans p) - 1))))"

lemma spanSearch_spec:
  assumes "lo \<le> hi" "hi < length spans" "sorted_wrt (\<le>) (map fst spans)"
    and "\<And>i. hi < i \<Longrightarrow> i < length spans \<Longrightarrow> offset < fst (spans ! i)"
    and "lo = 0 \<or> fst (spans ! lo) \<le> offset"
  shows "let r = spanSearch spans offset lo hi
    in r < length spans \<and> (r = 0 \<or> fst (spans ! r) \<le> offset) \<and> (\<forall>i. r < i \<longrightarrow> i < length spans \<longrightarrow> offset < fst (spans ! i))"
  using assms
proof (induction spans offset lo hi rule: spanSearch.induct)
  case (1 spans offset lo hi)
  let ?m = "(lo + hi + 1) div 2"
  show ?case
  proof (cases "lo < hi")
    case False
    then show ?thesis using "1.prems" by (subst spanSearch.simps) (auto simp: Let_def)
  next
    case True
    then have m: "lo < ?m" "?m \<le> hi" by linarith+
    have step: "spanSearch spans offset lo hi =
        (if fst (spans ! ?m) \<le> offset then spanSearch spans offset ?m hi else spanSearch spans offset lo (?m - 1))"
      using True by (subst spanSearch.simps) (simp only: Let_def if_True)
    show ?thesis
    proof (cases "fst (spans ! ?m) \<le> offset")
      case True
      then show ?thesis
        using "1.IH"(1) [OF \<open>lo < hi\<close> refl True] "1.prems" m step by (simp only: if_True) simp
    next
      case False
      have "offset < fst (spans ! i)" if "?m - 1 < i" "i < length spans" for i
        using that False "1.prems"(3) m sorted_wrt_nth_less [of "(\<le>)" "map fst spans" ?m i]
        by (cases "i = ?m") force+
      then show ?thesis
        using "1.IH"(2) [OF \<open>lo < hi\<close> refl False] "1.prems" m step False by (simp only: if_False)
    qed
  qed
qed

section \<open>Properties\<close>



text \<open>\<^verbatim>\<open>SpanAt\<close> finds the last span entry at or before the offset, or the first entry when all are after it.\<close>

theorem span_at_correct:
  assumes "sorted_wrt (\<le>) (map fst (pSpans p))" "pSpans p \<noteq> []"
  shows "\<exists>r < length (pSpans p). SpanAt p offset = Some (snd (pSpans p ! r)) \<and> (r = 0 \<or> fst (pSpans p ! r) \<le> offset) \<and>
    (\<forall>i. r < i \<longrightarrow> i < length (pSpans p) \<longrightarrow> offset < fst (pSpans p ! i))"
proof -
  let ?r = "spanSearch (pSpans p) offset 0 (length (pSpans p) - 1)"
  have "?r < length (pSpans p) \<and> (?r = 0 \<or> fst (pSpans p ! ?r) \<le> offset) \<and>
      (\<forall>i. ?r < i \<longrightarrow> i < length (pSpans p) \<longrightarrow> offset < fst (pSpans p ! i))"
    using spanSearch_spec [of 0 "length (pSpans p) - 1" "pSpans p" offset] assms by (simp add: Let_def)
  then show ?thesis using assms(2) by (auto simp: SpanAt_def)
qed

end
