(* ===== verification/Vm_Machine.thy ===== *)
theory Vm_Machine
  imports Vm_Code
begin

text \<open>
  The bytecode machine: \<^verbatim>\<open>internal/runtime/vm/vm.go\<close> (frames, stack, locals, \<^verbatim>\<open>Run\<close>), \<^verbatim>\<open>vm_apply.go\<close>, \<^verbatim>\<open>vm_apply_multi.go\<close>, \<^verbatim>\<open>vm_apply_prim.go\<close> (calls
  inside the dispatch loop), \<^verbatim>\<open>runCallee\<close> and \<^verbatim>\<open>forceEffectful\<close> of \<^verbatim>\<open>vm_apply_host.go\<close>, and \<^verbatim>\<open>vm_execute.go\<close>. The state is the field
  \<open>w_vm\<close> of the world, because primitives call back into the machine that runs them; the callbacks of \<open>Vm_Apply\<close> reach it through the parameter
  \<open>vm_exec\<close>, which \<open>machineEnv\<close> instantiates with the definitions of this theory. The dispatch loop has a fuel, one unit for each instruction; each level of
  nested runs inside the loop has one unit less.

  A panic of the Go runtime (a stack underflow, an index out of range, a nil dereference) is \<open>Panic\<close>. The error that is located at a frame needs the prototype of
  the frame, so locating an error at a barrier frame is a panic as well. A write to the capability environment of the current frame goes through a pointer that was
  taken before the instruction ran; \<open>setCap\<close> loses it when a nested run has moved the frames. Reading a local slot that was never assigned pushes a nil value in Go;
  the model stops with \<open>Panic\<close> there, as values have no nil. Slicing a Go slice beyond its length and within its capacity is a panic here too. The observer, the trace hook and the
  statistics are not modelled.
\<close>

section \<open>Configuration and results\<close>

text \<open>The globals with the cells of forward references, the growth of a slice by \<^verbatim>\<open>append\<close>, and the rendering of a value in messages.\<close>

record vmCfg =
  vc_globals :: "val option list"
  vc_cells :: "nat \<Rightarrow> val option"
  vc_grow :: "nat \<Rightarrow> nat"
  vc_pretty :: "val \<Rightarrow> string"

type_synonym 'a vmres = "('a, unit, err) res \<times> world"

abbreviation ok :: "'a \<Rightarrow> world \<Rightarrow> 'a vmres" where "ok a w \<equiv> (Ret a (), w)"

text \<open>The calling convention between the machine and code that returns a capability environment.\<close>

fun callG :: "'a gores \<Rightarrow> ('a \<Rightarrow> capEnv \<Rightarrow> world \<Rightarrow> 'b vmres) \<Rightarrow> 'b vmres" where
  "callG (Ret a c, w) k = k a c w"
| "callG (Err e c, w) k = (Err e (), w)"
| "callG (Panic, w) k = (Panic, w)"
| "callG (Diverge, w) k = (Diverge, w)"

fun callV :: "'a vmres \<Rightarrow> ('a \<Rightarrow> world \<Rightarrow> 'b vmres) \<Rightarrow> 'b vmres" where
  "callV (Ret a u, w) k = k a w"
| "callV (Err e u, w) k = (Err e (), w)"
| "callV (Panic, w) k = (Panic, w)"
| "callV (Diverge, w) k = (Diverge, w)"

definition budgetOp :: "(budget \<Rightarrow> limitError option \<times> budget) \<Rightarrow> world \<Rightarrow> (world \<Rightarrow> 'a vmres) \<Rightarrow> 'a vmres" where
  "budgetOp f w k =
     (case w_budget w of
        None \<Rightarrow> (Panic, w)
      | Some b \<Rightarrow>
          (case f b of
             (Some e, b') \<Rightarrow> (Err (LimitErr e) (), w\<lparr> w_budget := Some b' \<rparr>)
           | (None, b') \<Rightarrow> k (w\<lparr> w_budget := Some b' \<rparr>)))"

abbreviation allocV :: "int64 \<Rightarrow> world \<Rightarrow> (world \<Rightarrow> 'a vmres) \<Rightarrow> 'a vmres" where "allocV n \<equiv> budgetOp (allocB n)"
abbreviation enterV :: "world \<Rightarrow> (world \<Rightarrow> 'a vmres) \<Rightarrow> 'a vmres" where "enterV \<equiv> budgetOp enterB"
abbreviation stepV :: "world \<Rightarrow> (world \<Rightarrow> 'a vmres) \<Rightarrow> 'a vmres" where "stepV \<equiv> budgetOp stepB"

definition leaveV :: "world \<Rightarrow> world" where "leaveV w = w\<lparr> w_budget := map_option leaveB (w_budget w) \<rparr>"

text \<open>The costs of \<^verbatim>\<open>eval.go\<close>.\<close>

definition CostClosure :: int64 where "CostClosure = 48"
definition CostConBase :: int64 where "CostConBase = 32"
definition CostConArg :: int64 where "CostConArg = 16"
definition CostThunk :: int64 where "CostThunk = 32"
definition CostRecord :: int64 where "CostRecord = 32"
definition CostRecordField :: int64 where "CostRecordField = 24"
definition CostFix :: int64 where "CostFix = CostClosure + 40"
definition CostPAP :: int64 where "CostPAP = 32"
definition CostPAPArg :: int64 where "CostPAPArg = 16"

section \<open>Stack, locals, frames\<close>

abbreviation stackOf :: "world \<Rightarrow> val list" where "stackOf w \<equiv> m_stack (w_vm w)"
abbreviation localsOf :: "world \<Rightarrow> val option list" where "localsOf w \<equiv> m_locals (w_vm w)"
abbreviation framesOf :: "world \<Rightarrow> frame list" where "framesOf w \<equiv> m_frames (w_vm w)"

definition setStack :: "val list \<Rightarrow> world \<Rightarrow> world" where "setStack s w = w\<lparr> w_vm := (w_vm w)\<lparr> m_stack := s \<rparr> \<rparr>"
definition setLocals :: "val option list \<Rightarrow> world \<Rightarrow> world" where "setLocals l w = w\<lparr> w_vm := (w_vm w)\<lparr> m_locals := l \<rparr> \<rparr>"
definition setFrames :: "frame list \<Rightarrow> world \<Rightarrow> world" where "setFrames fs w = w\<lparr> w_vm := (w_vm w)\<lparr> m_frames := fs \<rparr> \<rparr>"

text \<open>The lowest \<open>n\<close> entries of a list with its top first: a Go slice cut to length \<open>n\<close>.\<close>

definition keepBottom :: "nat \<Rightarrow> 'a list \<Rightarrow> 'a list" where "keepBottom n s = drop (length s - n) s"

definition pushV :: "val \<Rightarrow> world \<Rightarrow> world" where "pushV v w = setStack (v # stackOf w) w"

definition popV :: "world \<Rightarrow> (val \<Rightarrow> world \<Rightarrow> 'a vmres) \<Rightarrow> 'a vmres" where
  "popV w k = (case stackOf w of [] \<Rightarrow> (Panic, w) | v # s \<Rightarrow> k v (setStack s w))"

text \<open>The loop that pops the arguments of a constructor, record or primitive, the last one first.\<close>

definition popN :: "nat \<Rightarrow> world \<Rightarrow> (val list \<Rightarrow> world \<Rightarrow> 'a vmres) \<Rightarrow> 'a vmres" where
  "popN n w k = (if n \<le> length (stackOf w) then k (rev (take n (stackOf w))) (setStack (drop n (stackOf w)) w) else (Panic, w))"

definition appendFrame :: "vmCfg \<Rightarrow> frame \<Rightarrow> world \<Rightarrow> world" where
  "appendFrame G f w =
     (let m = (w_vm w)\<lparr> m_frames := f # framesOf w \<rparr>
      in if length (framesOf w) < m_fcap (w_vm w) then w\<lparr> w_vm := m \<rparr>
         else w\<lparr> w_vm := m\<lparr> m_fcap := vc_grow G (m_fcap m), m_gen := m_gen m + 1 \<rparr> \<rparr>)"

definition pushFrame :: "vmCfg \<Rightarrow> proto \<Rightarrow> nat \<Rightarrow> capEnv \<Rightarrow> world \<Rightarrow> world" where
  "pushFrame G p bp c = appendFrame G \<lparr> fr_proto = Some p, fr_ip = 0, fr_bp = bp, fr_cap = c, fr_barrier = False \<rparr>"

definition popFrame :: "world \<Rightarrow> world" where "popFrame w = setFrames (drop 1 (framesOf w)) w"

text \<open>Updates of the current frame. \<open>setCap g\<close> writes through a pointer taken when the frames had moved \<open>g\<close> times.\<close>

definition updTop :: "(frame \<Rightarrow> frame) \<Rightarrow> world \<Rightarrow> world" where
  "updTop h w = (case framesOf w of [] \<Rightarrow> w | f # fs \<Rightarrow> setFrames (h f # fs) w)"

definition setCap :: "nat \<Rightarrow> capEnv \<Rightarrow> world \<Rightarrow> world" where
  "setCap g c w = (if m_gen (w_vm w) = g then updTop (\<lambda>f. f\<lparr> fr_cap := c \<rparr>) w else w)"

definition topCap :: "world \<Rightarrow> capEnv" where "topCap w = (case framesOf w of [] \<Rightarrow> emptyCapEnv | f # fs \<Rightarrow> fr_cap f)"

definition ensureLocals :: "nat \<Rightarrow> val option list \<Rightarrow> val option list" where
  "ensureLocals n l = l @ replicate (n - length l) None"

definition setLocal :: "nat \<Rightarrow> nat \<Rightarrow> val \<Rightarrow> world \<Rightarrow> world" where
  "setLocal bp slot v w = setLocals ((ensureLocals (bp + slot + 1) (localsOf w))[bp + slot := Some v]) w"

definition getLocal :: "nat \<Rightarrow> nat \<Rightarrow> world \<Rightarrow> val option" where
  "getLocal bp slot w = (if bp + slot < length (localsOf w) then localsOf w ! (bp + slot) else None)"

definition captureLocals :: "nat \<Rightarrow> nat list \<Rightarrow> world \<Rightarrow> val list option" where
  "captureLocals bp indices w = those (map (\<lambda>i. getLocal bp i w) indices)"

text \<open>Go's \<^verbatim>\<open>copy(l[i:], xs)\<close> and \<^verbatim>\<open>clear(l[i:j])\<close>.\<close>

definition copyAt :: "nat \<Rightarrow> 'a list \<Rightarrow> 'a list \<Rightarrow> 'a list" where
  "copyAt i xs l = take i l @ take (length l - i) xs @ drop (i + length xs) l"

definition clearRange :: "nat \<Rightarrow> nat \<Rightarrow> val option list \<Rightarrow> val option list" where
  "clearRange i j l = (if i < j then take i l @ replicate (j - i) None @ drop j l else l)"

text \<open>The current frame with its prototype.\<close>

definition atFrame :: "world \<Rightarrow> (frame \<Rightarrow> proto \<Rightarrow> 'a vmres) \<Rightarrow> 'a vmres" where
  "atFrame w k =
     (case framesOf w of
        f # fs \<Rightarrow> (case fr_proto f of Some p \<Rightarrow> k f p | None \<Rightarrow> (Panic, w))
      | [] \<Rightarrow> (Panic, w))"

definition runtimeError :: "string \<Rightarrow> world \<Rightarrow> 'a vmres" where
  "runtimeError msg w = atFrame w (\<lambda>f p. (Err (RuntimeError msg None []) (), w))"

section \<open>Entering closures and thunks\<close>

text \<open>
  The slice \<^verbatim>\<open>Captured\<close> of a closure or thunk. For a prototype with a self slot it has the size of the locals, with the closure or thunk itself in the self slot.
\<close>

definition selfVal :: "proto \<Rightarrow> val list \<Rightarrow> val" where
  "selfVal p captured = (if pIsThunk p then VMThunkVal captured p True else VMClosure captured p '''')"

definition capturedSlots :: "proto \<Rightarrow> val list \<Rightarrow> val option list" where
  "capturedSlots p captured =
     (if 0 \<le> pFixSelfSlot p
      then (copyAt 0 (map Some captured) (replicate (pNumLocals p) None))[nat (pFixSelfSlot p) := Some (selfVal p captured)]
      else map Some captured)"

definition paramBase :: "nat \<Rightarrow> proto \<Rightarrow> nat" where
  "paramBase numCaptures p = (if 0 \<le> pFixSelfSlot p then nat (pFixSelfSlot p) + 1 else numCaptures)"

definition storeParam :: "proto \<Rightarrow> nat \<Rightarrow> val \<Rightarrow> val option list \<Rightarrow> val option list option" where
  "storeParam p bp arg l =
     (if pParams p = [] then Some l
      else let i = bp + paramBase (length (pCaptures p)) p in if i < length l then Some (l[i := Some arg]) else None)"

definition callClosure :: "vmCfg \<Rightarrow> proto \<Rightarrow> val list \<Rightarrow> val \<Rightarrow> world \<Rightarrow> unit vmres" where
  "callClosure G p captured arg w =
     enterV w (\<lambda>w.
       let bp = length (localsOf w);
           l = copyAt bp (capturedSlots p captured) (ensureLocals (bp + pNumLocals p) (localsOf w))
       in case storeParam p bp arg l of
            None \<Rightarrow> (Panic, w)
          | Some l' \<Rightarrow> ok () (pushFrame G p bp (topCap w) (setLocals l' w)))"

definition callClosureMulti :: "vmCfg \<Rightarrow> proto \<Rightarrow> val list \<Rightarrow> val list \<Rightarrow> world \<Rightarrow> unit vmres" where
  "callClosureMulti G p captured args w =
     enterV w (\<lambda>w.
       let bp = length (localsOf w);
           l = copyAt bp (capturedSlots p captured) (ensureLocals (bp + pNumLocals p) (localsOf w));
           i = bp + paramBase (length (pCaptures p)) p
       in if i \<le> length l then ok () (pushFrame G p bp (topCap w) (setLocals (copyAt i (map Some args) l) w)) else (Panic, w))"

definition callThunk :: "vmCfg \<Rightarrow> proto \<Rightarrow> val list \<Rightarrow> world \<Rightarrow> unit vmres" where
  "callThunk G p captured w =
     enterV w (\<lambda>w.
       let bp = length (localsOf w)
       in ok () (pushFrame G p bp (topCap w) (setLocals (copyAt bp (capturedSlots p captured) (ensureLocals (bp + pNumLocals p) (localsOf w))) w)))"

definition restart :: "proto \<Rightarrow> world \<Rightarrow> world" where
  "restart p = updTop (\<lambda>f. f\<lparr> fr_proto := Some p, fr_ip := 0 \<rparr>)"

definition tailLocals :: "proto \<Rightarrow> proto \<Rightarrow> nat \<Rightarrow> nat \<Rightarrow> val option list \<Rightarrow> val option list" where
  "tailLocals old p bp writtenUpTo l =
     (let clearN = max (pNumLocals p) (pNumLocals old)
      in take (bp + pNumLocals p) (clearRange (bp + writtenUpTo) (bp + clearN) (ensureLocals (bp + clearN) l)))"

definition tailCallClosure :: "proto \<Rightarrow> val list \<Rightarrow> val \<Rightarrow> world \<Rightarrow> unit vmres" where
  "tailCallClosure p captured arg w =
     atFrame w (\<lambda>f old.
          (let bp = fr_bp f; cs = capturedSlots p captured;
               writtenUpTo = (if pParams p = [] then length cs else paramBase (length cs) p + 1)
           in case storeParam p bp arg (copyAt bp cs (tailLocals old p bp writtenUpTo (localsOf w))) of
                None \<Rightarrow> (Panic, w)
              | Some l \<Rightarrow> ok () (restart p (setLocals l w))))"

definition tailCallClosureMulti :: "proto \<Rightarrow> val list \<Rightarrow> val list \<Rightarrow> world \<Rightarrow> unit vmres" where
  "tailCallClosureMulti p captured args w =
     atFrame w (\<lambda>f old.
          (let bp = fr_bp f; cs = capturedSlots p captured;
               base = paramBase (length cs) p;
               l = copyAt bp cs (tailLocals old p bp (base + length args) (localsOf w))
           in if bp + base \<le> length l then ok () (restart p (setLocals (copyAt (bp + base) (map Some args) l) w)) else (Panic, w)))"

text \<open>\<^verbatim>\<open>tailCallThunk\<close>, and the same steps where \<^verbatim>\<open>OpReturn\<close> runs an auto-force thunk in the current frame.\<close>

definition tailCallThunk :: "proto \<Rightarrow> val list \<Rightarrow> world \<Rightarrow> unit vmres" where
  "tailCallThunk p captured w =
     (case framesOf w of
        f # _ \<Rightarrow>
          (let bp = fr_bp f; n = pNumLocals p; cs = capturedSlots p captured
           in ok () (restart p (setLocals (copyAt bp cs (clearRange (bp + length cs) (bp + n) (ensureLocals (bp + n) (localsOf w)))) w)))
      | [] \<Rightarrow> (Panic, w))"

section \<open>Application inside the loop\<close>

definition resolvePrimImplFrame :: "vmEnv \<Rightarrow> string \<Rightarrow> world \<Rightarrow> (primImpl \<Rightarrow> 'a vmres) \<Rightarrow> 'a vmres" where
  "resolvePrimImplFrame E name w k =
     (case lookupPrim name (vm_prims E) of
        None \<Rightarrow> runtimeError (''missing primitive: '' @ name) w
      | Some impl \<Rightarrow> k impl)"

text \<open>A call of a primitive from an instruction: the environment it returns is stored in the frame.\<close>

definition primValue :: "vmEnv \<Rightarrow> applier \<Rightarrow> string \<Rightarrow> val list \<Rightarrow> world \<Rightarrow> val vmres" where
  "primValue E self name args w =
     resolvePrimImplFrame E name w (\<lambda>impl.
       callG (callPrim E self impl (topCap w) args w) (\<lambda>v c w'. ok v (setCap (m_gen (w_vm w)) c w')))"

definition applyPrim :: "vmEnv \<Rightarrow> applier \<Rightarrow> string \<Rightarrow> nat \<Rightarrow> bool \<Rightarrow> val list \<Rightarrow> val \<Rightarrow> world \<Rightarrow> unit vmres" where
  "applyPrim E self name arity effectful pargs arg w =
     (let newLen = length pargs + 1; args = pargs @ [arg]
      in if arity \<le> newLen \<and> \<not> effectful \<and> newLen \<le> 8 then callV (primValue E self name args w) (\<lambda>v w. ok () (pushV v w))
         else if newLen < arity then ok () (pushV (copyPrimVal name arity args effectful) w)
         else if effectful then ok () (pushV (copyPrimVal name arity args True) w)
         else callV (primValue E self name args w) (\<lambda>v w. ok () (pushV v w)))"

definition force :: "vmCfg \<Rightarrow> vmEnv \<Rightarrow> val \<Rightarrow> bool \<Rightarrow> world \<Rightarrow> unit vmres" where
  "force G E v tail w =
     (case v of
        VMThunkVal captured p _ \<Rightarrow> if tail then tailCallThunk p captured w else callThunk G p captured w
      | _ \<Rightarrow> runtimeError (''force on non-thunk: '' @ vm_show E v) w)"

definition applySingle :: "vmCfg \<Rightarrow> proto \<Rightarrow> val list \<Rightarrow> val \<Rightarrow> bool \<Rightarrow> world \<Rightarrow> unit vmres" where
  "applySingle G p captured arg tail w = (if tail then tailCallClosure p captured arg w else callClosure G p captured arg w)"

text \<open>\<^verbatim>\<open>enterClosureMulti\<close> reads \<^verbatim>\<open>args[0]\<close> for the observer.\<close>

definition enterClosureMulti :: "vmCfg \<Rightarrow> proto \<Rightarrow> val list \<Rightarrow> val list \<Rightarrow> bool \<Rightarrow> world \<Rightarrow> unit vmres" where
  "enterClosureMulti G p captured args tail w =
     (if args = [] then (Panic, w)
      else if tail then tailCallClosureMulti p captured args w else callClosureMulti G p captured args w)"

definition notFunction :: "vmEnv \<Rightarrow> val \<Rightarrow> world \<Rightarrow> 'a vmres" where
  "notFunction E fn w = runtimeError (''application of non-function: '' @ vm_show E fn) w"

definition conApplied :: "string \<Rightarrow> val list \<Rightarrow> bool \<Rightarrow> nat \<Rightarrow> val list \<Rightarrow> val" where
  "conApplied con cargs isDict dictArgCount args =
     ConVal con (cargs @ args) isDict (if dictArgCount = length cargs then countLeadingDictArgs (cargs @ args) else dictArgCount)"

definition applyV :: "vmCfg \<Rightarrow> vmEnv \<Rightarrow> applier \<Rightarrow> val \<Rightarrow> val \<Rightarrow> bool \<Rightarrow> world \<Rightarrow> unit vmres" where
  "applyV G E self fn arg tail w =
     (case fn of
        VMClosure captured p name \<Rightarrow>
          let arity = length (pParams p)
          in if arity > 1 then allocV (CostPAP + CostPAPArg) w (\<lambda>w. ok () (pushV (PAPVal captured p name [arg] arity) w))
             else applySingle G p captured arg tail w
      | PAPVal captured p name args arity \<Rightarrow>
          let newArgs = args @ [arg]
          in if length newArgs = arity then enterClosureMulti G p captured newArgs tail w
             else allocV CostPAPArg w (\<lambda>w. ok () (pushV (PAPVal captured p name newArgs arity) w))
      | ConVal con args isDict dictArgCount \<Rightarrow>
          allocV (CostConBase + CostConArg * of_nat (length args + 1)) w (\<lambda>w. ok () (pushV (conApplied con args isDict dictArgCount [arg]) w))
      | PrimVal name arity effectful args \<Rightarrow> applyPrim E self name arity effectful args arg w
      | VMThunkVal captured p autoForce \<Rightarrow> force G E fn tail w
      | _ \<Rightarrow> notFunction E fn w)"

text \<open>The remaining arguments of an over-application, each in a run of its own.\<close>

fun applyExtras :: "vmEnv \<Rightarrow> applier \<Rightarrow> val \<Rightarrow> val list \<Rightarrow> capEnv \<Rightarrow> world \<Rightarrow> val gores" where
  "applyExtras E self cur [] ce w = (Ret cur ce, w)"
| "applyExtras E self cur (extra # extras) ce w =
     callR (runCallee E self (CallApply cur extra) ce w) (\<lambda>c. c) (\<lambda>next c w'. applyExtras E self next extras c w')"

definition withExtras :: "vmEnv \<Rightarrow> applier \<Rightarrow> val \<Rightarrow> val list \<Rightarrow> capEnv \<Rightarrow> world \<Rightarrow> val option vmres" where
  "withExtras E self cur extras ce w =
     callG (applyExtras E self cur extras ce w) (\<lambda>v c w'. ok (Some v) (updTop (\<lambda>f. f\<lparr> fr_cap := c \<rparr>) w'))"

definition entered :: "unit vmres \<Rightarrow> val option vmres" where "entered r = callV r (\<lambda>_ w. ok None w)"

definition produced :: "val vmres \<Rightarrow> val option vmres" where "produced r = callV r (\<lambda>v w. ok (Some v) w)"

text \<open>
  \<^verbatim>\<open>applyN\<close>: the value it produces, or none when it has entered a frame. A thunk is forced and the arguments are applied to its result, for which the model needs a fuel.
\<close>

fun applyN :: "vmCfg \<Rightarrow> vmEnv \<Rightarrow> applier \<Rightarrow> nat \<Rightarrow> val \<Rightarrow> val list \<Rightarrow> bool \<Rightarrow> world \<Rightarrow> val option vmres" where
  "applyN G E self n fn args tail w =
     (case fn of
        VMClosure captured p name \<Rightarrow>
          let arity = length (pParams p)
          in if length args = arity
             then entered (if arity = 1 then applySingle G p captured (args ! 0) tail w else enterClosureMulti G p captured args tail w)
             else if length args < arity
             then allocV (CostPAP + CostPAPArg * of_nat (length args)) w (\<lambda>w. ok (Some (PAPVal captured p name args arity)) w)
             else callG (runCallee E self (CallClosureMulti p captured (take arity args)) (topCap w) w) (\<lambda>v c w'.
                    withExtras E self v (drop arity args) c w')
      | PAPVal captured p name pargs arity \<Rightarrow>
          let combined = combineArgs pargs args
          in if length combined = arity then entered (enterClosureMulti G p captured combined tail w)
             else if length combined < arity then ok (Some (PAPVal captured p name combined arity)) w
             else callG (runCallee E self (CallClosureMulti p captured (take arity combined)) (topCap w) w) (\<lambda>v c w'.
                    withExtras E self v (drop arity combined) c w')
      | PrimVal name arity effectful pargs \<Rightarrow>
          let newLen = length pargs + length args; combined = combineArgs pargs args
          in if newLen = arity \<and> \<not> effectful \<and> newLen \<le> 8 then produced (primValue E self name combined w)
             else if newLen < arity then ok (Some (copyPrimVal name arity combined effectful)) w
             else if newLen = arity \<and> effectful then ok (Some (copyPrimVal name arity combined True)) w
             else if newLen = arity then produced (primValue E self name combined w)
             else if effectful
             then withExtras E self (copyPrimVal name arity (take arity combined) True) (drop arity combined) (topCap w) w
             else resolvePrimImplFrame E name w (\<lambda>impl.
                    callG (callPrim E self impl (topCap w) (take arity combined) w) (\<lambda>v c w'. withExtras E self v (drop arity combined) c w'))
      | ConVal con cargs isDict dictArgCount \<Rightarrow>
          allocV (CostConBase + CostConArg * of_nat (length cargs + length args)) w (\<lambda>w. ok (Some (conApplied con cargs isDict dictArgCount args)) w)
      | VMThunkVal captured p autoForce \<Rightarrow>
          (case n of
             0 \<Rightarrow> (Diverge, w)
           | Suc n' \<Rightarrow> callG (runCallee E self (CallForce fn) (topCap w) w) (\<lambda>v c w'. applyN G E self n' v args tail w'))
      | _ \<Rightarrow> notFunction E fn w)"

declare applyN.simps [simp del]

text \<open>\<^verbatim>\<open>dispatchApplyN\<close>: the function and its arguments stay on the stack while \<^verbatim>\<open>applyN\<close> runs.\<close>

definition dispatchApplyN :: "vmCfg \<Rightarrow> vmEnv \<Rightarrow> applier \<Rightarrow> nat \<Rightarrow> nat \<Rightarrow> bool \<Rightarrow> world \<Rightarrow> unit vmres" where
  "dispatchApplyN G E self n argc tail w =
     (if argc + 1 \<le> length (stackOf w)
      then let fnIdx = length (stackOf w) - argc - 1
           in callV (applyN G E self n (stackOf w ! argc) (rev (take argc (stackOf w))) tail w) (\<lambda>val w'.
                let w'' = setStack (keepBottom fnIdx (stackOf w')) w'
                in ok () (case val of None \<Rightarrow> w'' | Some v \<Rightarrow> pushV v w''))
      else (Panic, w))"

text \<open>\<^verbatim>\<open>forceEffectful\<close>: run an auto-force thunk or a saturated effectful primitive; other values are left as they are.\<close>

definition forceEffectful :: "vmEnv \<Rightarrow> applier \<Rightarrow> val \<Rightarrow> capEnv \<Rightarrow> world \<Rightarrow> (val \<Rightarrow> capEnv \<Rightarrow> world \<Rightarrow> 'a vmres) \<Rightarrow> 'a vmres" where
  "forceEffectful E self v ce w k =
     (case v of
        VMThunkVal captured p autoForce \<Rightarrow>
          if autoForce then stepV w (\<lambda>w. callG (runCallee E self (CallThunk p captured) ce w) k) else k v ce w
      | PrimVal name arity effectful args \<Rightarrow>
          if effectful \<and> arity \<le> length args
          then resolvePrimImplFrame E name w (\<lambda>impl. callG (callPrim E self impl (markShared ce) args w) k)
          else k v ce w
      | _ \<Rightarrow> k v ce w)"

end
