(* ===== verification/Vm_Execute.thy ===== *)
theory Vm_Execute
  imports Vm_Machine
begin

text \<open>
  The dispatch loop of the machine, \<^verbatim>\<open>internal/runtime/vm/vm_execute.go\<close>, with \<^verbatim>\<open>runCallee\<close> and \<^verbatim>\<open>Run\<close>. The cases of the instruction switch are grouped into one definition for
  each kind of instruction; \<open>stepVM\<close> is one turn of the loop and \<open>execute\<close> the loop.
\<close>

section \<open>Instructions\<close>

datatype signal = Next | Done val capEnv

text \<open>Indexing a pool of the prototype.\<close>

definition nthV :: "'a list \<Rightarrow> nat \<Rightarrow> world \<Rightarrow> ('a \<Rightarrow> 'b vmres) \<Rightarrow> 'b vmres" where
  "nthV xs i w k = (if i < length xs then k (xs ! i) else (Panic, w))"

definition jumpTo :: "nat \<Rightarrow> world \<Rightarrow> world" where "jumpTo ip = updTop (\<lambda>f. f\<lparr> fr_ip := ip \<rparr>)"

definition pushNext :: "val \<Rightarrow> world \<Rightarrow> signal vmres" where "pushNext v w = ok Next (pushV v w)"

definition thenNext :: "unit vmres \<Rightarrow> signal vmres" where "thenNext r = callV r (\<lambda>_ w. ok Next w)"

text \<open>A loaded value: a forward reference is replaced by what its cell holds.\<close>

definition loadV :: "vmCfg \<Rightarrow> val \<Rightarrow> world \<Rightarrow> signal vmres" where
  "loadV G v w =
     (case v of
        IndirectVal a \<Rightarrow> (case vc_cells G a of None \<Rightarrow> runtimeError ''uninitialized forward reference'' w | Some v' \<Rightarrow> pushNext v' w)
      | _ \<Rightarrow> pushNext v w)"

definition loadNil :: "vmCfg \<Rightarrow> val option \<Rightarrow> world \<Rightarrow> signal vmres" where
  "loadNil G v w = (case v of None \<Rightarrow> (Panic, w) | Some v' \<Rightarrow> loadV G v' w)"

definition execVar :: "vmCfg \<Rightarrow> proto \<Rightarrow> nat \<Rightarrow> instr \<Rightarrow> world \<Rightarrow> signal vmres" where
  "execVar G p bp i w =
     (case iop i of
        OpStep \<Rightarrow> stepV w (ok Next)
      | OpLoadLocal \<Rightarrow> loadNil G (getLocal bp (unat (ia i)) w) w
      | OpLoadGlobal \<Rightarrow> nthV (vc_globals G) (unat (ia i)) w (\<lambda>v. loadNil G v w)
      | OpStoreLocal \<Rightarrow> popV w (\<lambda>v w. ok Next (setLocal bp (unat (ia i)) v w))
      | OpConst \<Rightarrow> nthV (pConstants p) (unat (ia i)) w (\<lambda>v.
          case v of
            HostVal (HString s) \<Rightarrow> if s \<noteq> [] then allocV (of_nat (length s)) w (pushNext v) else pushNext v w
          | _ \<Rightarrow> pushNext v w)
      | OpConstUnit \<Rightarrow> pushNext UnitVal w
      | OpPop \<Rightarrow> popV w (\<lambda>_ w. ok Next w)
      | OpJump \<Rightarrow> atFrame w (\<lambda>f _.
          let ip = int (fr_ip f) + sint (ia i) in if ip < 0 then (Panic, w) else ok Next (jumpTo (nat ip) w))
      | _ \<Rightarrow> (Panic, w))"

text \<open>
  Calls. \<^verbatim>\<open>OpRecurseSelf\<close> copies the captures and the self slot of the running frame to the new one; \<^verbatim>\<open>OpTailRecurseSelf\<close> only rewrites the parameters.
\<close>

definition recurseSelf :: "vmCfg \<Rightarrow> proto \<Rightarrow> nat \<Rightarrow> nat \<Rightarrow> world \<Rightarrow> unit vmres" where
  "recurseSelf G p bp arity w =
     enterV w (\<lambda>w.
       let numCaptured = nat (pFixSelfSlot p + 1); newBp = length (localsOf w); l = ensureLocals (newBp + pNumLocals p) (localsOf w)
       in if arity \<le> length (stackOf w) \<and> bp + numCaptured \<le> length l \<and> newBp + numCaptured + arity \<le> length l
          then let l = copyAt newBp (take numCaptured (drop bp l)) l;
                   l = copyAt (newBp + numCaptured) (map Some (rev (take arity (stackOf w)))) l
               in ok () (pushFrame G p newBp (topCap w) (setStack (drop arity (stackOf w)) (setLocals l w)))
          else (Panic, w))"

definition tailRecurseSelf :: "proto \<Rightarrow> nat \<Rightarrow> nat \<Rightarrow> world \<Rightarrow> unit vmres" where
  "tailRecurseSelf p bp arity w =
     (let base = nat (pFixSelfSlot p + 1); writtenUpTo = base + arity
      in if arity \<le> length (stackOf w) \<and> bp + max writtenUpTo (pNumLocals p) \<le> length (localsOf w)
         then let l = clearRange (bp + writtenUpTo) (bp + pNumLocals p) (localsOf w);
                  l = copyAt (bp + base) (map Some (rev (take arity (stackOf w)))) l
              in ok () (jumpTo 0 (setStack (drop arity (stackOf w)) (setLocals l w)))
         else (Panic, w))"

definition execCall :: "vmCfg \<Rightarrow> vmEnv \<Rightarrow> applier \<Rightarrow> nat \<Rightarrow> proto \<Rightarrow> nat \<Rightarrow> instr \<Rightarrow> world \<Rightarrow> signal vmres" where
  "execCall G E self n p bp i w =
     (case iop i of
        OpClosure \<Rightarrow> nthV (pProtos p) (unat (ia i)) w (\<lambda>q.
          allocV (CostClosure + of_nat (length (pCaptures q)) * CostPAPArg) w (\<lambda>w.
          case captureLocals bp (pCaptures q) w of None \<Rightarrow> (Panic, w) | Some captured \<Rightarrow> pushNext (VMClosure captured q '''') w))
      | OpApply \<Rightarrow> popV w (\<lambda>arg w. popV w (\<lambda>fn w. thenNext (applyV G E self fn arg False w)))
      | OpTailApply \<Rightarrow> popV w (\<lambda>arg w. popV w (\<lambda>fn w. thenNext (applyV G E self fn arg True w)))
      | OpApplyN \<Rightarrow> thenNext (dispatchApplyN G E self n (unat (ik i)) False w)
      | OpTailApplyN \<Rightarrow> thenNext (dispatchApplyN G E self n (unat (ik i)) True w)
      | OpRecurseSelf \<Rightarrow> thenNext (recurseSelf G p bp (unat (ik i)) w)
      | OpTailRecurseSelf \<Rightarrow> thenNext (tailRecurseSelf p bp (unat (ik i)) w)
      | _ \<Rightarrow> (Panic, w))"

text \<open>Back to the caller with a result: \<^verbatim>\<open>OpReturn\<close>, and the end of the code, where a barrier frame below is not looked at.\<close>

definition returnTo :: "nat \<Rightarrow> capEnv \<Rightarrow> val \<Rightarrow> world \<Rightarrow> world" where
  "returnTo bp c v w = updTop (\<lambda>f. f\<lparr> fr_cap := c \<rparr>) (pushV v (popFrame (setLocals (take bp (localsOf w)) (leaveV w))))"

definition endOfCode :: "nat \<Rightarrow> capEnv \<Rightarrow> world \<Rightarrow> signal vmres" where
  "endOfCode bp c w =
     (case stackOf w of
        [] \<Rightarrow> (Err (RuntimeError ''empty stack at return'' None []) (), w)
      | result # s \<Rightarrow>
          let w = setStack s w in if length (framesOf w) = 1 then ok (Done result c) w else ok Next (returnTo bp c result w))"

definition execReturn :: "nat \<Rightarrow> capEnv \<Rightarrow> world \<Rightarrow> signal vmres" where
  "execReturn bp c w =
     popV w (\<lambda>result w.
       case result of
         VMThunkVal captured q True \<Rightarrow> stepV w (\<lambda>w. thenNext (tailCallThunk q captured w))
       | _ \<Rightarrow>
           if length (framesOf w) = 1 then ok (Done result c) w
           else if fr_barrier (framesOf w ! 1) then ok (Done result c) (popFrame (setLocals (take bp (localsOf w)) (leaveV w)))
           else ok Next (returnTo bp c result w))"

text \<open>Computations: thunks, forcing, binding, and the parallel composition.\<close>

definition execMerge :: "vmEnv \<Rightarrow> applier \<Rightarrow> mergeDesc \<Rightarrow> val \<Rightarrow> val \<Rightarrow> world \<Rightarrow> signal vmres" where
  "execMerge E self desc leftVal rightVal w =
     (let orig = markShared (topCap w);
          split = (if mgLeftLabels desc \<noteq> None \<or> mgRightLabels desc \<noteq> None
            then let (l, w1) = capFilter (case mgLeftLabels desc of None \<Rightarrow> [] | Some ls \<Rightarrow> ls) orig w;
                     (r, w2) = capFilter (case mgRightLabels desc of None \<Rightarrow> [] | Some ls \<Rightarrow> ls) orig w1 in (l, r, w2)
            else (orig, orig, w))
      in case split of (leftCap, rightCap, w1) \<Rightarrow>
        callG (forceMergeChild E self leftVal leftCap w1) (\<lambda>val1 leftCE w2.
        callG (forceMergeChild E self rightVal rightCap w2) (\<lambda>val2 rightCE w3.
        case capMergeWith leftCE rightCE w3 of (c, w4) \<Rightarrow> pushNext (mkPair val1 val2) (setCap (m_gen (w_vm w)) c w4))))"

definition execComp :: "vmCfg \<Rightarrow> vmEnv \<Rightarrow> applier \<Rightarrow> proto \<Rightarrow> nat \<Rightarrow> instr \<Rightarrow> world \<Rightarrow> signal vmres" where
  "execComp G E self p bp i w =
     (case iop i of
        OpThunk \<Rightarrow> nthV (pProtos p) (unat (ia i)) w (\<lambda>q.
          allocV (CostThunk + of_nat (length (pCaptures q)) * CostPAPArg) w (\<lambda>w.
          case captureLocals bp (pCaptures q) w of
            None \<Rightarrow> (Panic, w)
          | Some captured \<Rightarrow> pushNext (VMThunkVal captured q False) (updTop (\<lambda>f. f\<lparr> fr_cap := markShared (fr_cap f) \<rparr>) w)))
      | OpForce \<Rightarrow> popV w (\<lambda>v w. thenNext (force G E v False w))
      | OpForceTail \<Rightarrow> popV w (\<lambda>v w. thenNext (force G E v True w))
      | OpForceEffectful \<Rightarrow> popV w (\<lambda>v w.
          forceEffectful E self v (topCap w) w (\<lambda>result c w'. pushNext result (setCap (m_gen (w_vm w)) c w')))
      | OpBind \<Rightarrow> popV w (\<lambda>v w.
          forceEffectful E self v (topCap w) w (\<lambda>result c w'. ok Next (setLocal bp (unat (ia i)) result (setCap (m_gen (w_vm w)) c w'))))
      | OpMerge \<Rightarrow> nthV (pMergeDescs p) (unat (ia i)) w (\<lambda>desc.
          popV w (\<lambda>rightVal w. popV w (\<lambda>leftVal w. execMerge E self desc leftVal rightVal w)))
      | _ \<Rightarrow> (Panic, w))"

text \<open>Data. The arity of a constructor is in the lower seven bits of its operand, the highest bit marks a dictionary.\<close>

definition quote :: "string \<Rightarrow> string" where "quote s = CHR 0x22 # s @ [CHR 0x22]"

definition execData :: "vmEnv \<Rightarrow> proto \<Rightarrow> instr \<Rightarrow> world \<Rightarrow> signal vmres" where
  "execData E p i w =
     (case iop i of
        OpCon \<Rightarrow>
          let arity = unat (ik i AND 0x7F); isDict = (ik i AND 0x80 \<noteq> 0)
          in allocV (CostConBase + CostConArg * of_nat arity) w (\<lambda>w. nthV (pStrings p) (unat (ia i)) w (\<lambda>name.
             popN arity w (\<lambda>args w. pushNext (ConVal name args isDict (countLeadingDictArgs args)) w)))
      | OpRecord \<Rightarrow> nthV (pRecordDescs p) (unat (ia i)) w (\<lambda>labels.
          allocV (CostRecord + CostRecordField * of_nat (length labels)) w (\<lambda>w.
          popN (length labels) w (\<lambda>vals w. pushNext (newRecord (zip labels vals)) w)))
      | OpRecordProj \<Rightarrow> nthV (pStrings p) (unat (ia i)) w (\<lambda>label.
          popV w (\<lambda>r w.
            case r of
              RecordVal fs \<Rightarrow>
                (case recGet fs label of
                   None \<Rightarrow> runtimeError (''missing field '' @ quote label @ '' in record'') w
                 | Some v \<Rightarrow> pushNext v w)
            | _ \<Rightarrow> runtimeError (''record projection on non-record: '' @ vm_show E r) w))
      | OpRecordUpdate \<Rightarrow> nthV (pRecordDescs p) (unat (ia i)) w (\<lambda>labels.
          allocV (of_nat (length labels) * CostRecordField) w (\<lambda>w.
          popN (length labels) w (\<lambda>vals w. popV w (\<lambda>r w.
            case r of
              RecordVal fs \<Rightarrow>
                allocV (CostRecord + CostRecordField * of_nat (length fs + length labels)) w (pushNext (RecordVal (recUpdate fs (zip labels vals))))
            | _ \<Rightarrow> runtimeError (''record update on non-record: '' @ vm_show E r) w))))
      | OpVariant \<Rightarrow> nthV (pStrings p) (unat (ia i)) w (\<lambda>tag. popV w (\<lambda>payload w. pushNext (VariantVal tag payload) w))
      | _ \<Rightarrow> (Panic, w))"

text \<open>
  Matching. Literals are numbers, strings and runes; two Go floats are equal when they have the same bits or are both zero, and a NaN equals nothing.
\<close>

definition floatNaN :: "int64 \<Rightarrow> bool" where
  "floatNaN x \<longleftrightarrow> take_bit 11 (drop_bit 52 x) = 0x7FF \<and> take_bit 52 x \<noteq> 0"

definition floatEq :: "int64 \<Rightarrow> int64 \<Rightarrow> bool" where
  "floatEq x y \<longleftrightarrow> \<not> floatNaN x \<and> \<not> floatNaN y \<and> (x = y \<or> take_bit 63 x = 0 \<and> take_bit 63 y = 0)"

definition scalarEq :: "val host \<Rightarrow> val host \<Rightarrow> bool" where
  "scalarEq x y =
     (case x of
        HInt n \<Rightarrow> y = HInt n
      | HFloat n \<Rightarrow> (case y of HFloat m \<Rightarrow> floatEq n m | _ \<Rightarrow> False)
      | HString s \<Rightarrow> y = HString s
      | HRune r \<Rightarrow> y = HRune r
      | _ \<Rightarrow> False)"

definition litEqual :: "val \<Rightarrow> val \<Rightarrow> bool" where
  "litEqual a b = (case a of HostVal x \<Rightarrow> (case b of HostVal y \<Rightarrow> scalarEq x y | _ \<Rightarrow> False) | _ \<Rightarrow> False)"

definition setSlots :: "nat \<Rightarrow> nat list \<Rightarrow> val list \<Rightarrow> world \<Rightarrow> world" where
  "setSlots bp slots vals w = fold (\<lambda>(slot, v). setLocal bp slot v) (zip slots vals) w"

definition execMatch :: "vmCfg \<Rightarrow> proto \<Rightarrow> nat \<Rightarrow> instr \<Rightarrow> world \<Rightarrow> signal vmres" where
  "execMatch G p bp i w =
     (let failed = (\<lambda>w. ok Next (jumpTo (unat (ib i)) w))
      in case iop i of
        OpMatchCon \<Rightarrow> nthV (pMatchDescs p) (unat (ia i)) w (\<lambda>desc. popV w (\<lambda>scrut w.
          case scrut of
            ConVal con args _ _ \<Rightarrow>
              if con = mdConName desc \<and> length args = length (mdArgSlots desc) then ok Next (setSlots bp (mdArgSlots desc) args w) else failed w
          | _ \<Rightarrow> failed w))
      | OpMatchLit \<Rightarrow> nthV (pConstants p) (unat (ia i)) w (\<lambda>expected. popV w (\<lambda>scrut w.
          if litEqual scrut expected then ok Next w else failed w))
      | OpMatchLabel \<Rightarrow> nthV (pConstants p) (unat (ia i)) w (\<lambda>expected.
          case expected of
            HostVal (HString tag) \<Rightarrow> popV w (\<lambda>scrut w.
              case scrut of VariantVal t v \<Rightarrow> if t = tag then pushNext v w else failed w | _ \<Rightarrow> failed w)
          | _ \<Rightarrow> (Panic, w))
      | OpMatchRecord \<Rightarrow> nthV (pMatchDescs p) (unat (ia i)) w (\<lambda>desc. popV w (\<lambda>scrut w.
          case scrut of
            RecordVal fs \<Rightarrow>
              allocV (of_nat (length (mdLabels desc)) * CostPAPArg) w (\<lambda>w.
              case those (map (recGet fs) (mdLabels desc)) of
                None \<Rightarrow> failed w
              | Some vals \<Rightarrow>
                  if length (mdFieldSlots desc) \<le> length vals then ok Next (setSlots bp (mdFieldSlots desc) vals w) else (Panic, w))
          | _ \<Rightarrow> failed w))
      | OpMatchWild \<Rightarrow> popV w (\<lambda>_ w. ok Next w)
      | OpMatchFail \<Rightarrow>
          (case stackOf w of
             [] \<Rightarrow> runtimeError ''non-exhaustive pattern match'' w
           | v # s \<Rightarrow> runtimeError (''non-exhaustive pattern match on '' @ vc_pretty G v) (setStack s w))
      | OpRaise \<Rightarrow> popV w (\<lambda>v w. runtimeError (case v of HostVal (HString s) \<Rightarrow> s | _ \<Rightarrow> vc_pretty G v) w)
      | _ \<Rightarrow> (Panic, w))"

text \<open>Fixpoints and primitives.\<close>

definition fixCost :: "proto \<Rightarrow> int64" where
  "fixCost q = CostFix + of_nat (length (pCaptures q)) * CostPAPArg + of_nat (pNumLocals q) * CostPAPArg"

definition fixCaptured :: "proto \<Rightarrow> nat \<Rightarrow> world \<Rightarrow> (val list \<Rightarrow> world \<Rightarrow> 'a vmres) \<Rightarrow> 'a vmres" where
  "fixCaptured q bp w k =
     allocV (fixCost q) w (\<lambda>w.
       case captureLocals bp (pCaptures q) w of
         None \<Rightarrow> (Panic, w)
       | Some captured \<Rightarrow> if 0 \<le> pFixSelfSlot q \<and> nat (pFixSelfSlot q) < pNumLocals q then k captured w else (Panic, w))"

definition execPrim :: "vmEnv \<Rightarrow> applier \<Rightarrow> proto \<Rightarrow> nat \<Rightarrow> instr \<Rightarrow> world \<Rightarrow> signal vmres" where
  "execPrim E self p bp i w =
     (case iop i of
        OpFixClosure \<Rightarrow> nthV (pProtos p) (unat (ia i)) w (\<lambda>q. fixCaptured q bp w (\<lambda>captured w. pushNext (VMClosure captured q '''') w))
      | OpFixThunk \<Rightarrow> nthV (pProtos p) (unat (ia i)) w (\<lambda>q. fixCaptured q bp w (\<lambda>captured w. pushNext (VMThunkVal captured q True) w))
      | OpPrim \<Rightarrow> nthV (pStrings p) (unat (ia i)) w (\<lambda>name.
          resolvePrimImplFrame E name w (\<lambda>impl.
          let arity = unat (ik i); base = length (stackOf w) - arity
          in if arity \<le> length (stackOf w)
             then callG (callPrim E self impl (topCap w) (rev (take arity (stackOf w))) w) (\<lambda>v c w'.
                    pushNext v (setCap (m_gen (w_vm w)) c (setStack (keepBottom base (stackOf w')) w')))
             else (Panic, w)))
      | OpPrimPartial \<Rightarrow> nthV (pConstants p) (unat (ia i)) w (\<lambda>v. pushNext v w)
      | OpEffectPrim \<Rightarrow> nthV (pStrings p) (unat (ia i)) w (\<lambda>name.
          let arity = unat (ik i)
          in allocV (CostPAP + of_nat arity * CostPAPArg) w (\<lambda>w. popN arity w (\<lambda>args w. pushNext (PrimVal name arity True args) w)))
      | _ \<Rightarrow> (Panic, w))"

section \<open>The loop\<close>

definition execInstr :: "vmCfg \<Rightarrow> vmEnv \<Rightarrow> applier \<Rightarrow> nat \<Rightarrow> proto \<Rightarrow> nat \<Rightarrow> capEnv \<Rightarrow> instr \<Rightarrow> world \<Rightarrow> signal vmres" where
  "execInstr G E self n p bp c i w =
     (let op = iop i
      in if op \<in> {OpStep, OpLoadLocal, OpLoadGlobal, OpStoreLocal, OpConst, OpConstUnit, OpPop, OpJump} then execVar G p bp i w
         else if op \<in> {OpClosure, OpApply, OpTailApply, OpApplyN, OpTailApplyN, OpRecurseSelf, OpTailRecurseSelf} then execCall G E self n p bp i w
         else if op = OpReturn then execReturn bp c w
         else if op \<in> {OpThunk, OpForce, OpForceTail, OpForceEffectful, OpBind, OpMerge} then execComp G E self p bp i w
         else if op \<in> {OpCon, OpRecord, OpRecordProj, OpRecordUpdate, OpVariant} then execData E p i w
         else if op \<in> {OpMatchCon, OpMatchLit, OpMatchRecord, OpMatchLabel, OpMatchWild, OpMatchFail, OpRaise} then execMatch G p bp i w
         else execPrim E self p bp i w)"

definition stepVM :: "vmCfg \<Rightarrow> vmEnv \<Rightarrow> applier \<Rightarrow> nat \<Rightarrow> world \<Rightarrow> signal vmres" where
  "stepVM G E self n w =
     (case framesOf w of
        [] \<Rightarrow> (Panic, w)
      | f # fs \<Rightarrow>
          if fr_barrier f then (Err (RuntimeError ''executed barrier frame'' None []) (), w)
          else atFrame w (\<lambda>f p.
            if length (pCode p) \<le> fr_ip f then endOfCode (fr_bp f) (fr_cap f) w
            else case fetch (pCode p) (fr_ip f) of
                   Fetched i ip \<Rightarrow> execInstr G E self n p (fr_bp f) (fr_cap f) i (jumpTo ip w)
                 | Unknown b \<Rightarrow> runtimeError (''unknown opcode: '' @ itoa (unat b)) w
                 | OutOfCode \<Rightarrow> (Panic, w)))"

fun execute :: "vmCfg \<Rightarrow> vmEnv \<Rightarrow> applier \<Rightarrow> nat \<Rightarrow> world \<Rightarrow> (val \<times> capEnv) vmres" where
  "execute G E self 0 w = (Diverge, w)"
| "execute G E self (Suc n) w =
     callV (stepVM G E self n w) (\<lambda>s w'. case s of Done v c \<Rightarrow> ok (v, c) w' | Next \<Rightarrow> execute G E self n w')"

section \<open>Nested runs\<close>

text \<open>What \<^verbatim>\<open>setup\<close> does on the barrier frame that \<^verbatim>\<open>runCallee\<close> has pushed.\<close>

fun setupCallee :: "vmCfg \<Rightarrow> vmEnv \<Rightarrow> applier \<Rightarrow> callee \<Rightarrow> world \<Rightarrow> unit vmres" where
  "setupCallee G E self (CallClosure p captured arg) w = callClosure G p captured arg w"
| "setupCallee G E self (CallClosureMulti p captured args) w = callClosureMulti G p captured args w"
| "setupCallee G E self (CallThunk p captured) w = callThunk G p captured w"
| "setupCallee G E self (CallApply fn arg) w = applyV G E self fn arg False w"
| "setupCallee G E self (CallForce v) w = force G E v False w"

text \<open>
  The body of \<^verbatim>\<open>runCallee\<close>, whose treatment of the budget is \<open>Vm_Apply.runCallee\<close>. Frames and locals are cut back in every case, the operand stack in none.
\<close>

definition execCallee :: "vmCfg \<Rightarrow> vmEnv \<Rightarrow> nat \<Rightarrow> applier \<Rightarrow> callee \<Rightarrow> capEnv \<Rightarrow> world \<Rightarrow> val gores" where
  "execCallee G E n self cl ce w =
     (let savedLocals = length (localsOf w); savedFrames = length (framesOf w); savedSP = length (stackOf w);
          back = (\<lambda>w. setFrames (keepBottom savedFrames (framesOf w)) (setLocals (take savedLocals (localsOf w)) w));
          w1 = appendFrame G \<lparr> fr_proto = None, fr_ip = 0, fr_bp = savedLocals, fr_cap = ce, fr_barrier = True \<rparr> w;
          result = callV (setupCallee G E self cl w1) (\<lambda>_ w2.
            if length (framesOf w2) > savedFrames + 1 then execute G E self n w2
            else if length (stackOf w2) > savedSP then popV w2 (\<lambda>v w3. ok (v, topCap w3) w3)
            else (Err (RuntimeError ''runCallee: setup pushed neither frame nor value'' None []) (), w2))
      in case result of
           (Ret (v, c) _, w') \<Rightarrow> (Ret v c, back w')
         | (Err e _, w') \<Rightarrow> (Err e ce, back w')
         | (Panic, w') \<Rightarrow> (Panic, w')
         | (Diverge, w') \<Rightarrow> (Diverge, w'))"

text \<open>The machine with its nested runs.\<close>

fun machineEnv :: "vmCfg \<Rightarrow> vmEnv \<Rightarrow> nat \<Rightarrow> vmEnv" where
  "machineEnv G E 0 = E\<lparr> vm_exec := \<lambda>self cl ce w. (Diverge, w) \<rparr>"
| "machineEnv G E (Suc n) = E\<lparr> vm_exec := execCallee G (machineEnv G E n) n \<rparr>"

definition machineApplier :: "vmCfg \<Rightarrow> vmEnv \<Rightarrow> nat \<Rightarrow> applier" where
  "machineApplier G E n = vmApplier (machineEnv G E n) n"

text \<open>\<^verbatim>\<open>Run\<close>: a fresh stack with one frame; after an error the depth of the budget is restored and the state cleared.\<close>

definition cleared :: "world \<Rightarrow> world" where
  "cleared w = setFrames [] (setLocals [] (setStack [] w))"

definition Run :: "vmCfg \<Rightarrow> vmEnv \<Rightarrow> nat \<Rightarrow> proto \<Rightarrow> capEnv \<Rightarrow> world \<Rightarrow> (val \<times> capEnv) vmres" where
  "Run G E n p ce w =
     (case w_budget w of
        None \<Rightarrow> (Panic, w)
      | Some b \<Rightarrow>
          (case execute G (machineEnv G E n) (machineApplier G E n) n (pushFrame G p 0 ce (cleared w)) of
             (Err e u, w') \<Rightarrow>
               (case w_budget w' of
                  None \<Rightarrow> (Panic, w')
                | Some b' \<Rightarrow>
                    (case leaveTo (b_depth b) b' of
                       None \<Rightarrow> (Diverge, w')
                     | Some b'' \<Rightarrow> (Err e (), cleared (w'\<lparr> w_budget := Some b'' \<rparr>))))
           | r \<Rightarrow> r))"

end
