(* ===== verification/Effect_Prims.thy ===== *)
theory Effect_Prims
  imports Stdlib_Base
begin

text \<open>
  The effect handlers of the standard library: \<^verbatim>\<open>internal/host/stdlib/state.go\<close> (state capabilities and
  \<^verbatim>\<open>runState\<close>) and \<^verbatim>\<open>fail.go\<close> (failing and catching). A handler runs a suspended computation with
  \<^verbatim>\<open>driveEffectful\<close> on a capability environment it has changed, and undoes the change afterwards.
  \<^verbatim>\<open>eval.PrettyValue\<close>, which only formats a message, is the parameter \<open>pretty\<close>.

  The results: a state handler gives the label it handles back to the enclosing handler, whatever
  happened inside; on an error the environment it returns still denotes what it denoted before, provided
  the applier writes no map it does not own (the contract \<open>isolating\<close>, which the machine satisfies when
  its primitives and its bytecode do); a \<^verbatim>\<open>try\<close> catches exactly the failures of its own label.
\<close>

section \<open>State\<close>

definition capState :: string where "capState = ''state''"

definition rtErr :: "string \<Rightarrow> err" where "rtErr msg = RuntimeError msg None []"

definition getImpl :: primImpl where
  "getImpl ce args ap w =
     (case capGet capState ce w of
        None \<Rightarrow> (Err (rtErr ''get: no state capability'') ce, w)
      | Some (CapOther _) \<Rightarrow> (Err (rtErr ''get: state capability is not a Value'') ce, w)
      | Some (CapVal v) \<Rightarrow> (Ret v ce, w))"

definition putImpl :: primImpl where
  "putImpl ce args ap w =
     argN args 0 w (\<lambda>v. case capSet capState (CapVal v) ce w of (newCe, w') \<Rightarrow> (Ret UnitVal newCe, w'))"

text \<open>The label test at the start of the named variants.\<close>

definition labelArg :: "string \<Rightarrow> string \<Rightarrow> capEnv \<Rightarrow> val list \<Rightarrow> world \<Rightarrow> (string \<Rightarrow> val gores) \<Rightarrow> val gores" where
  "labelArg notHost notString ce args w k =
     argN args 0 w (\<lambda>l. case l of
       HostVal h \<Rightarrow> (case h of HString name \<Rightarrow> k name | _ \<Rightarrow> (Err (rtErr notString) ce, w))
     | _ \<Rightarrow> (Err (rtErr notHost) ce, w))"

definition getAtImpl :: primImpl where
  "getAtImpl ce args ap w =
     labelArg ''getAt: label argument is not a string'' ''getAt: label argument is not a string'' ce args w (\<lambda>name.
       case capGet name ce w of
         None \<Rightarrow> (Err (rtErr (''getAt: no capability '' @ name)) ce, w)
       | Some (CapOther _) \<Rightarrow> (Err (rtErr (''getAt: capability '' @ name @ '' is not a Value'')) ce, w)
       | Some (CapVal v) \<Rightarrow> (Ret v ce, w))"

definition putAtImpl :: primImpl where
  "putAtImpl ce args ap w =
     labelArg ''putAt: label argument is not a string'' ''putAt: label argument is not a string'' ce args w (\<lambda>name.
       argN args 1 w (\<lambda>v. case capSet name (CapVal v) ce w of (newCe, w') \<Rightarrow> (Ret UnitVal newCe, w')))"

definition doRunState :: "string \<Rightarrow> val \<Rightarrow> val \<Rightarrow> capEnv \<Rightarrow> applier \<Rightarrow> world \<Rightarrow> val gores" where
  "doRunState label initVal thunk ce ap w =
     (let saved = capGet label ce w
      in case capSet label (CapVal initVal) ce w of (innerCe, w) \<Rightarrow>
         callR (driveEffectful thunk innerCe ap w) (\<lambda>_. ce) (\<lambda>v finalCe w.
           case capGet label finalCe w of
             None \<Rightarrow> (Err (rtErr ''runState: state capability lost during execution'') ce, w)
           | Some (CapOther _) \<Rightarrow> (Err (rtErr ''runState: state capability is not a Value'') ce, w)
           | Some (CapVal stateVal) \<Rightarrow>
               (case (case saved of
                        Some s \<Rightarrow> capSet label s finalCe w
                      | None \<Rightarrow> capDelete label finalCe w) of
                  (cleanCe, w) \<Rightarrow> (Ret (mkPair stateVal v) cleanCe, w))))"

definition runStateImpl :: primImpl where
  "runStateImpl ce args ap w =
     argN args 0 w (\<lambda>s. argN args 1 w (\<lambda>thunk. doRunState capState s thunk ce ap w))"

definition doRunStateDrive :: "string \<Rightarrow> val \<Rightarrow> val \<Rightarrow> capEnv \<Rightarrow> applier \<Rightarrow> world \<Rightarrow> val gores" where
  "doRunStateDrive label initVal thunk ce ap w =
     (let saved = capGet label ce w
      in case capSet label (CapVal initVal) ce w of (innerCe, w) \<Rightarrow>
         callR (driveEffectful thunk innerCe ap w) (\<lambda>_. ce) (\<lambda>v finalCe w.
           case capGet label finalCe w of
             None \<Rightarrow> (Err (rtErr ''runStateAt: state capability lost during execution'') ce, w)
           | Some (CapOther _) \<Rightarrow> (Err (rtErr ''runStateAt: state capability is not a Value'') ce, w)
           | Some (CapVal stateVal) \<Rightarrow>
               (case (case saved of
                        Some s \<Rightarrow> capSet label s finalCe w
                      | None \<Rightarrow> capDelete label finalCe w) of
                  (cleanCe, w) \<Rightarrow> (Ret (mkPair stateVal v) cleanCe, w))))"

definition runStateAtImpl :: primImpl where
  "runStateAtImpl ce args ap w =
     labelArg ''runStateAt: label argument is not a string'' ''runStateAt: label argument is not a string'' ce args w (\<lambda>name.
       argN args 1 w (\<lambda>s. argN args 2 w (\<lambda>thunk. doRunStateDrive name s thunk ce ap w)))"

text \<open>The component of a handler's result tuple; a missing one would be a nil value.\<close>

definition tupleField :: "nat \<Rightarrow> val \<Rightarrow> capEnv \<Rightarrow> capEnv \<Rightarrow> world \<Rightarrow> val gores" where
  "tupleField i tuple ce newCe w =
     (case tuple of
        RecordVal fs \<Rightarrow> orPanic (recGet fs (tupleLabel i)) w (\<lambda>v. (Ret v newCe, w))
      | _ \<Rightarrow> (Err (rtErr ''internal: state handler returned non-record'') ce, w))"

definition evalStateAtImpl :: primImpl where
  "evalStateAtImpl ce args ap w =
     labelArg ''evalStateAt: label argument is not a string'' ''evalStateAt: label inner is not a string'' ce args w (\<lambda>name.
       argN args 1 w (\<lambda>s. argN args 2 w (\<lambda>thunk.
       callR (doRunStateDrive name s thunk ce ap w) (\<lambda>_. ce) (\<lambda>tuple newCe w. tupleField 2 tuple ce newCe w))))"

definition execStateAtImpl :: primImpl where
  "execStateAtImpl ce args ap w =
     labelArg ''execStateAt: label argument is not a string'' ''execStateAt: label inner is not a string'' ce args w (\<lambda>name.
       argN args 1 w (\<lambda>s. argN args 2 w (\<lambda>thunk.
       callR (doRunState name s thunk ce ap w) (\<lambda>_. ce) (\<lambda>tuple newCe w. tupleField 1 tuple ce newCe w))))"

definition modifyAtImpl :: primImpl where
  "modifyAtImpl ce args ap w =
     labelArg ''modifyAt: label argument is not a string'' ''modifyAt: label argument is not a string'' ce args w (\<lambda>name.
       case capGet name ce w of
         None \<Rightarrow> (Err (rtErr (''modifyAt: no capability '' @ name)) ce, w)
       | Some (CapOther _) \<Rightarrow> (Err (rtErr (''modifyAt: capability '' @ name @ '' is not a Value'')) ce, w)
       | Some (CapVal v) \<Rightarrow>
           argN args 1 w (\<lambda>f.
           callR (applyA ap f v ce w) (\<lambda>_. ce) (\<lambda>newVal newCe w.
             case capSet name (CapVal newVal) newCe w of (ce', w') \<Rightarrow> (Ret UnitVal ce', w'))))"

section \<open>Failure\<close>

fun catchFail :: "string \<Rightarrow> capEnv \<Rightarrow> val gores \<Rightarrow> val gores" where
  "catchFail label ce (Ret v newCe, w) = (Ret (mkCon ResultOk [v]) newCe, w)"
| "catchFail label ce (Err (RuntimeError msg (Some detail) failLabel) c, w) =
     (if failLabel = label then (Ret (mkCon ResultErr [detail]) ce, w)
      else (Err (RuntimeError msg (Some detail) failLabel) ce, w))"
| "catchFail label ce (Err e c, w) = (Err e ce, w)"
| "catchFail label ce (r, w) = (r, w)"

definition tryImpl :: primImpl where
  "tryImpl ce args ap w = argN args 0 w (\<lambda>thunk. catchFail [] ce (driveEffectful thunk ce ap w))"

definition tryAtImpl :: primImpl where
  "tryAtImpl ce args ap w =
     tryE (extractLabel args) ce w (\<lambda>label.
       argN args 1 w (\<lambda>thunk. catchFail label ce (driveEffectful thunk ce ap w)))"

definition failImpl :: "(val \<Rightarrow> string) \<Rightarrow> primImpl" where
  "failImpl pretty ce args ap w =
     (case args of
        [] \<Rightarrow> (Err (RuntimeError ''fail'' None []) ce, w)
      | detail # _ \<Rightarrow> (Err (RuntimeError (''fail: '' @ pretty detail) (Some detail) []) ce, w))"

definition failAtImpl :: "(val \<Rightarrow> string) \<Rightarrow> primImpl" where
  "failAtImpl pretty ce args ap w =
     tryE (extractLabel args) ce w (\<lambda>label.
       if length args > 1
       then (Err (RuntimeError (''fail: '' @ pretty (args ! 1)) (Some (args ! 1)) label) ce, w)
       else (Err (RuntimeError ''fail'' None label) ce, w))"

definition statePack :: "primImpl primRegistry \<Rightarrow> primImpl primRegistry" where
  "statePack r = fold (\<lambda>(name, impl). register name impl)
     [(''get'', getImpl), (''put'', putImpl), (''getAt'', getAtImpl), (''putAt'', putAtImpl), (''modifyAt'', modifyAtImpl),
      (''_runState'', runStateImpl), (''runStateAt'', runStateAtImpl), (''evalStateAt'', evalStateAtImpl),
      (''execStateAt'', execStateAtImpl)] r"

definition failPack :: "(val \<Rightarrow> string) \<Rightarrow> primImpl primRegistry \<Rightarrow> primImpl primRegistry" where
  "failPack pretty r = fold (\<lambda>(name, impl). register name impl)
     [(''failWith'', failImpl pretty), (''failWithAt'', failAtImpl pretty), (''_try'', tryImpl), (''tryAt'', tryAtImpl)] r"

section \<open>Handled labels are restored\<close>

lemma doRunState_restores:
  assumes "doRunState label s thunk ce ap w = (Ret res ce', w')"
  obtains innerCe w1 v finalCe w2 st where
    "capSet label (CapVal s) ce w = (innerCe, w1)" "driveEffectful thunk innerCe ap w1 = (Ret v finalCe, w2)"
    "view finalCe w2 label = Some (CapVal st)" "res = mkPair st v"
    "view ce' w' = (view finalCe w2)(label := view ce w label)"
proof -
  obtain innerCe w1 where set1: "capSet label (CapVal s) ce w = (innerCe, w1)" by fastforce
  with assms obtain v finalCe w2 where run: "driveEffectful thunk innerCe ap w1 = (Ret v finalCe, w2)"
    and rest: "(case capGet label finalCe w2 of
             None \<Rightarrow> (Err (rtErr ''runState: state capability lost during execution'') ce, w2)
           | Some (CapOther _) \<Rightarrow> (Err (rtErr ''runState: state capability is not a Value'') ce, w2)
           | Some (CapVal stateVal) \<Rightarrow>
               (case (case capGet label ce w of Some s \<Rightarrow> capSet label s finalCe w2 | None \<Rightarrow> capDelete label finalCe w2) of
                  (cleanCe, w) \<Rightarrow> (Ret (mkPair stateVal v) cleanCe, w))) = (Ret res ce', w')"
    by (auto simp: doRunState_def callR_Ret_iff Let_def)
  then obtain st where st: "capGet label finalCe w2 = Some (CapVal st)"
    by (auto split: option.splits capAny.splits)
  show ?thesis
  proof (cases "capGet label ce w")
    case None
    obtain c3 w3 where d: "capDelete label finalCe w2 = (c3, w3)" by fastforce
    show ?thesis
      using set1 run rest st None d capDelete_view [OF d] by (intro that) (auto simp: view_def)
  next
    case (Some sv)
    obtain c3 w3 where d: "capSet label sv finalCe w2 = (c3, w3)" by fastforce
    show ?thesis
      using set1 run rest st Some d capSet_view [OF d] by (intro that) (auto simp: view_def)
  qed
qed

lemma doRunState_Err:
  assumes "doRunState label s thunk ce ap w = (Err e ce', w')"
  shows "ce' = ce"
proof -
  obtain innerCe w1 where set1: "capSet label (CapVal s) ce w = (innerCe, w1)" by fastforce
  obtain r w2 where run: "driveEffectful thunk innerCe ap w1 = (r, w2)" by fastforce
  show ?thesis
  proof (cases r)
    case (Ret v finalCe)
    then show ?thesis
    proof (cases "capGet label finalCe w2")
      case (Some a)
      then show ?thesis
        using assms set1 run Ret by (cases a) (auto simp: doRunState_def Let_def split: prod.splits)
    qed (use assms set1 run Ret in \<open>simp add: doRunState_def Let_def\<close>)
  qed (use assms set1 run in \<open>simp_all add: doRunState_def Let_def\<close>)
qed

lemma doRunStateDrive_Ret:
  "doRunStateDrive label s thunk ce ap w = (Ret res ce', w') \<longleftrightarrow> doRunState label s thunk ce ap w = (Ret res ce', w')"
  by (auto simp: doRunState_def doRunStateDrive_def Let_def callR_Ret_iff split: prod.splits option.splits capAny.splits)

section \<open>Appliers that write only what they own\<close>

text \<open>The maps below address \<open>n\<close> survive the call, and the environment it returns owns none of them.\<close>

definition isoRes :: "nat \<Rightarrow> world \<Rightarrow> val gores \<Rightarrow> bool" where
  "isoRes n w p \<longleftrightarrow> maps_kept n w (snd p) \<and>
     (case fst p of Ret _ c \<Rightarrow> owns_from n c | Err _ c \<Rightarrow> owns_from n c | _ \<Rightarrow> True)"

locale isolating =
  fixes ap :: applier
  assumes apply_iso: "owns_from n c \<Longrightarrow> n \<le> w_next w \<Longrightarrow> isoRes n w (applyA ap f a c w)"
    and applyN_iso: "owns_from n c \<Longrightarrow> n \<le> w_next w \<Longrightarrow> isoRes n w (applyNA ap f as c w)"
    and force_iso: "forceEffA ap = Some g \<Longrightarrow> owns_from n c \<Longrightarrow> n \<le> w_next w \<Longrightarrow> isoRes n w (g v c w)"

definition isoImpl :: "primImpl \<Rightarrow> bool" where
  "isoImpl impl \<longleftrightarrow> (\<forall>ap n c args w. isolating ap \<longrightarrow> owns_from n c \<longrightarrow> n \<le> w_next w \<longrightarrow> isoRes n w (impl c args ap w))"

definition isoExec :: "(applier \<Rightarrow> callee \<Rightarrow> capEnv \<Rightarrow> world \<Rightarrow> val gores) \<Rightarrow> bool" where
  "isoExec ex \<longleftrightarrow> (\<forall>ap n cl c w. isolating ap \<longrightarrow> owns_from n c \<longrightarrow> n \<le> w_next w \<longrightarrow> isoRes n w (ex ap cl c w))"

lemma isoRes_Ret [simp]: "isoRes n w (Ret v c, w') \<longleftrightarrow> maps_kept n w w' \<and> owns_from n c"
  by (simp add: isoRes_def)

lemma isoRes_Err [simp]: "isoRes n w (Err e c, w') \<longleftrightarrow> maps_kept n w w' \<and> owns_from n c"
  by (simp add: isoRes_def)

lemma isoRes_Panic [simp]: "isoRes n w (Panic, w') \<longleftrightarrow> maps_kept n w w'"
  by (simp add: isoRes_def)

lemma isoRes_Diverge [simp]: "isoRes n w (Diverge, w') \<longleftrightarrow> maps_kept n w w'"
  by (simp add: isoRes_def)

lemma isoRes_trans: "maps_kept n w w1 \<Longrightarrow> isoRes n w1 p \<Longrightarrow> isoRes n w p"
  using maps_kept_trans by (auto simp: isoRes_def)

lemma maps_kept_next: "maps_kept n w w' \<Longrightarrow> n \<le> w_next w \<Longrightarrow> n \<le> w_next w'"
  by (simp add: maps_kept_def)

lemma maps_kept_budget [simp]: "maps_kept n w (w'\<lparr> w_budget := b \<rparr>) \<longleftrightarrow> maps_kept n w w'"
  by (simp add: maps_kept_def)

lemma owns_from_markShared [simp]: "owns_from n (markShared c)"
  by (simp add: owns_from_def markShared_def split: option.splits)

lemma isoRes_callR:
  assumes "isoRes n w p" "n \<le> w_next w"
    and "\<And>c. owns_from n c \<Longrightarrow> owns_from n (h c)"
    and "\<And>v c w1. owns_from n c \<Longrightarrow> n \<le> w_next w1 \<Longrightarrow> isoRes n w1 (k v c w1)"
  shows "isoRes n w (callR p h k)"
proof -
  obtain r w1 where p: "p = (r, w1)" by fastforce
  have kept: "maps_kept n w w1" using assms(1) p by (simp add: isoRes_def)
  show ?thesis
    using assms p kept isoRes_trans [OF kept] maps_kept_next [OF kept assms(2)] by (cases r) auto
qed

text \<open>Writing a capability keeps the contract.\<close>

lemma isoRes_capSet:
  assumes "owns_from n c" "n \<le> w_next w"
    and "\<And>c' w'. owns_from n c' \<Longrightarrow> n \<le> w_next w' \<Longrightarrow> isoRes n w' (k c' w')"
  shows "isoRes n w (case capSet l v c w of (c', w') \<Rightarrow> k c' w')"
proof -
  obtain c' w' where r: "capSet l v c w = (c', w')" by fastforce
  note iso = capSet_isolated [OF r assms(1,2)]
  show ?thesis
    using r iso assms(3) [of c' w'] maps_kept_next [OF conjunct1 [OF iso] assms(2)] isoRes_trans [of n w w'] by simp
qed

lemma isoRes_capDelete:
  assumes "owns_from n c" "n \<le> w_next w"
    and "\<And>c' w'. owns_from n c' \<Longrightarrow> n \<le> w_next w' \<Longrightarrow> isoRes n w' (k c' w')"
  shows "isoRes n w (case capDelete l c w of (c', w') \<Rightarrow> k c' w')"
proof -
  obtain c' w' where r: "capDelete l c w = (c', w')" by fastforce
  note iso = capDelete_isolated [OF r assms(1,2)]
  show ?thesis
    using r iso assms(3) [of c' w'] maps_kept_next [OF conjunct1 [OF iso] assms(2)] isoRes_trans [of n w w'] by simp
qed

lemma isoRes_argN:
  assumes "\<And>v. isoRes n w (k v)"
  shows "isoRes n w (argN args i w k)"
  using assms by (simp add: argN_def)

lemma isoRes_orPanic:
  assumes "\<And>v. isoRes n w (k v)"
  shows "isoRes n w (orPanic x w k)"
  using assms by (cases x) simp_all

lemma isoRes_labelArg:
  assumes "owns_from n c" "\<And>name. isoRes n w (k name)"
  shows "isoRes n w (labelArg a b c args w k)"
  unfolding labelArg_def using assms by (intro isoRes_argN) (simp split: val.splits host.splits)

context isolating
begin

lemma drive_iso: "owns_from n c \<Longrightarrow> n \<le> w_next w \<Longrightarrow> isoRes n w (driveEffectful thunk c ap w)"
  unfolding driveEffectful_def
  by (intro isoRes_callR apply_iso) (auto simp: force_iso split: option.splits)

lemma doRunState_iso:
  assumes "owns_from n c" "n \<le> w_next w"
  shows "isoRes n w (doRunState label s thunk c ap w)" "isoRes n w (doRunStateDrive label s thunk c ap w)"
  unfolding doRunState_def doRunStateDrive_def Let_def
  by (intro isoRes_capSet isoRes_callR drive_iso assms; use assms(1) in
      \<open>auto split: option.splits capAny.splits intro!: isoRes_capSet isoRes_capDelete\<close>)+

end

lemma state_prims_iso:
  "isoImpl getImpl" "isoImpl putImpl" "isoImpl getAtImpl" "isoImpl putAtImpl" "isoImpl modifyAtImpl"
  "isoImpl runStateImpl" "isoImpl runStateAtImpl" "isoImpl evalStateAtImpl" "isoImpl execStateAtImpl"
  unfolding isoImpl_def
  by (auto simp: getImpl_def putImpl_def getAtImpl_def putAtImpl_def modifyAtImpl_def runStateImpl_def runStateAtImpl_def
      evalStateAtImpl_def execStateAtImpl_def tupleField_def
      split: option.splits capAny.splits val.splits
      intro!: isoRes_argN isoRes_orPanic isoRes_labelArg isoRes_capSet isoRes_callR isolating.doRunState_iso isolating.apply_iso)

lemma isoRes_catchFail: "isoRes n w p \<Longrightarrow> owns_from n c \<Longrightarrow> isoRes n w (catchFail label c p)"
  by (cases "(label, c, p)" rule: catchFail.cases) auto

lemma isoRes_tryE: "owns_from n c \<Longrightarrow> (\<And>a. isoRes n w (k a)) \<Longrightarrow> isoRes n w (tryE x c w k)"
  by (cases x) auto

lemma fail_prims_iso: "isoImpl tryImpl" "isoImpl tryAtImpl" "isoImpl (failImpl pretty)" "isoImpl (failAtImpl pretty)"
  unfolding isoImpl_def
  by (auto simp: tryImpl_def tryAtImpl_def failImpl_def failAtImpl_def split: list.splits
      intro!: isoRes_argN isoRes_tryE isoRes_catchFail isolating.drive_iso)

section \<open>The machine is isolating when its primitives are\<close>

lemma runCallee_iso:
  assumes "isoExec (vm_exec E)" "isolating self" "owns_from n c" "n \<le> w_next w"
  shows "isoRes n w (runCallee E self cl c w)"
proof -
  have "isoRes n w (vm_exec E self cl c w)" using assms by (simp add: isoExec_def)
  then show ?thesis
    by (auto simp: runCallee_def isoRes_def split: option.splits prod.splits res.splits)
qed

lemma callPrim_iso:
  assumes "isoImpl impl" "isolating self" "owns_from n c" "n \<le> w_next w"
  shows "isoRes n w (callPrim E self impl c args w)"
proof -
  have "isoRes n w (impl c args self w)" using assms by (simp add: isoImpl_def)
  then show ?thesis using assms(3) by (auto simp: callPrim_def isoRes_def split: prod.splits res.splits)
qed

definition isoEnv :: "vmEnv \<Rightarrow> bool" where
  "isoEnv E \<longleftrightarrow> isoExec (vm_exec E) \<and> (\<forall>name impl. lookupPrim name (vm_prims E) = Some impl \<longrightarrow> isoImpl impl)"

lemma resolve_iso: "isoEnv E \<Longrightarrow> resolvePrimImplBare E name = Inr impl \<Longrightarrow> isoImpl impl"
  by (auto simp: isoEnv_def resolvePrimImplBare_def split: option.splits)

lemma budgetStep_iso:
  assumes "owns_from n c" "n \<le> w_next w" "\<And>w1. n \<le> w_next w1 \<Longrightarrow> isoRes n w1 (k w1)"
  shows "isoRes n w (budgetStep c w k)"
proof (cases "w_budget w")
  case (Some b)
  obtain e b' where s: "stepB b = (e, b')" by fastforce
  have "isoRes n w (k (w\<lparr> w_budget := Some b' \<rparr>))"
    using assms(3) [of "w\<lparr> w_budget := Some b' \<rparr>"] assms(2) isoRes_trans [of n w "w\<lparr> w_budget := Some b' \<rparr>"] by simp
  then show ?thesis using Some s assms(1) by (simp add: budgetStep_def split: option.splits)
qed (simp add: budgetStep_def)

lemma callee_iso:
  "isoEnv E \<Longrightarrow> isolating self \<Longrightarrow> owns_from n c \<Longrightarrow> n \<le> w_next w \<Longrightarrow> isoRes n w (runCallee E self cl c w)"
  by (simp add: runCallee_iso isoEnv_def)

lemma prim_iso:
  "resolvePrimImplBare E name = Inr impl \<Longrightarrow> isoEnv E \<Longrightarrow> isolating self \<Longrightarrow> owns_from n c \<Longrightarrow> n \<le> w_next w \<Longrightarrow>
     isoRes n w (callPrim E self impl c args w)"
  by (simp add: callPrim_iso resolve_iso)

lemma applyForPrim_iso:
  "isoEnv E \<Longrightarrow> isolating self \<Longrightarrow> owns_from n c \<Longrightarrow> n \<le> w_next w \<Longrightarrow> isoRes n w (applyForPrim E self f a c w)"
  by (auto simp: applyForPrim_def Let_def split: val.splits sum.splits intro!: isoRes_callR callee_iso prim_iso)

lemma applyNForPrim_iso:
  "isoEnv E \<Longrightarrow> isolating self \<Longrightarrow> owns_from n c \<Longrightarrow> n \<le> w_next w \<Longrightarrow> isoRes n w (applyNForPrim E self f as c w)"
  by (auto simp: applyNForPrim_def Let_def applyForPrim_iso split: val.splits sum.splits
      intro!: isoRes_callR callee_iso prim_iso isolating.applyN_iso)

lemma forceEffectfulForPrim_iso:
  "isoEnv E \<Longrightarrow> isolating self \<Longrightarrow> owns_from n c \<Longrightarrow> n \<le> w_next w \<Longrightarrow> isoRes n w (forceEffectfulForPrim E self v c w)"
  by (auto simp: forceEffectfulForPrim_def split: val.splits sum.splits bool.splits
      intro!: isoRes_callR callee_iso prim_iso budgetStep_iso)

lemma vmApplier_isolating: "isoEnv E \<Longrightarrow> isolating (vmApplier E fuel)"
proof (induction fuel)
  case (Suc fuel)
  then show ?case
    by unfold_locales (auto intro: applyForPrim_iso applyNForPrim_iso forceEffectfulForPrim_iso)
qed (unfold_locales, auto)

section \<open>A machine with the effect primitives\<close>

text \<open>The state and failure packs on a machine whose closures do not run: the computations it drives are
  built from primitives alone.\<close>

definition effEnv :: "(val \<Rightarrow> string) \<Rightarrow> vmEnv" where
  "effEnv pretty = \<lparr> vm_prims = failPack pretty (statePack newPrimRegistry),
     vm_exec = (\<lambda>_ _ c w. (Err (PlainErr ''no bytecode'') c, w)), vm_show = pretty, vm_typeOf = (\<lambda>_. []) \<rparr>"

lemma effEnv_prims:
  "map_of (impls (vm_prims (effEnv pretty))) name = Some impl \<Longrightarrow>
     impl \<in> {getImpl, putImpl, getAtImpl, putAtImpl, modifyAtImpl, runStateImpl, runStateAtImpl, evalStateAtImpl,
       execStateAtImpl, tryImpl, tryAtImpl, failImpl pretty, failAtImpl pretty}"
  by (simp add: effEnv_def failPack_def statePack_def register_def AList.update_conv newPrimRegistry_def split: if_splits)

lemma effEnv_iso: "isoEnv (effEnv pretty)"
  unfolding isoEnv_def lookupPrim_def
  using effEnv_prims [of pretty] state_prims_iso fail_prims_iso by (fastforce simp: isoExec_def effEnv_def)

interpretation effects: isolating "vmApplier (effEnv pretty) fuel" for pretty fuel
  by (rule vmApplier_isolating [OF effEnv_iso])

lemma effEnv_failWithAt: "lookupPrim ''failWithAt'' (vm_prims (effEnv pretty)) = Some (failAtImpl pretty)"
  by (simp add: effEnv_def failPack_def lookupPrim_def register_def AList.update_conv)

section \<open>Properties\<close>

text \<open>C9: State handlers nest. Whatever the handled computation did, when a state handler (\<^verbatim>\<open>runState\<close>, or
  \<^verbatim>\<open>runStateAt\<close> for a label) returns, the label it handled denotes again what it denoted outside, or is gone
  if it was unbound; every other label is as the computation left it; and the result pairs the final
  inner state with the computation's value.\<close>

theorem runState_restores_label:
  assumes "doRunState label s thunk ce ap w = (Ret res ce', w') \<or> doRunStateDrive label s thunk ce ap w = (Ret res ce', w')"
  shows "\<exists>innerCe w1 v finalCe w2 st. capSet label (CapVal s) ce w = (innerCe, w1) \<and>
    driveEffectful thunk innerCe ap w1 = (Ret v finalCe, w2) \<and> view finalCe w2 label = Some (CapVal st) \<and>
    res = mkPair st v \<and> view ce' w' = (view finalCe w2)(label := view ce w label)"
proof -
  have "doRunState label s thunk ce ap w = (Ret res ce', w')" using assms doRunStateDrive_Ret by blast
  then show ?thesis by (rule doRunState_restores) blast
qed

lemma drive_put:
  "driveEffectful (PrimVal ''put'' (Suc 0) True []) ce (vmApplier (effEnv pretty) (Suc fuel)) w =
     (case capSet capState (CapVal UnitVal) (markShared ce) w of (c, w') \<Rightarrow> (Ret UnitVal c, w'))"
proof -
  have "lookupPrim ''put'' (vm_prims (effEnv pretty)) = Some putImpl"
    by (simp add: effEnv_def failPack_def statePack_def lookupPrim_def register_def AList.update_conv)
  then show ?thesis
    by (simp add: driveEffectful_def applyForPrim_def forceEffectfulForPrim_def resolvePrimImplBare_def callPrim_def
        copyPrimVal_def putImpl_def split: prod.splits)
qed

theorem runState_restores_label_witness:
  "\<exists>res ce' w'. doRunState capState (boolVal True) (PrimVal ''put'' 1 True []) emptyCapEnv
      (vmApplier (effEnv (\<lambda>_. [])) 1) world0 = (Ret res ce', w') \<and>
    res = mkPair UnitVal UnitVal \<and> view ce' w' capState = None"
proof -
  let ?run = "doRunState capState (boolVal True) (PrimVal ''put'' 1 True []) emptyCapEnv (vmApplier (effEnv (\<lambda>_. [])) (Suc 0)) world0"
  obtain c1 w1 where s1: "capSet capState (CapVal (boolVal True)) emptyCapEnv world0 = (c1, w1)" by fastforce
  obtain c2 w2 where s2: "capSet capState (CapVal UnitVal) (markShared c1) w1 = (c2, w2)" by fastforce
  have get: "capGet capState c2 w2 = Some (CapVal UnitVal)" "capGet capState emptyCapEnv world0 = None"
    using capSet_view [OF s2] by (auto simp: view_def fun_eq_iff capGet_def emptyCapEnv_def)
  have "\<exists>ce' w'. ?run = (Ret (mkPair UnitVal UnitVal) ce', w')"
    using s1 s2 get by (auto simp: doRunState_def drive_put simp del: vmApplier.simps mkPair_eq split: prod.splits)
  then obtain ce' w' where r: "?run = (Ret (mkPair UnitVal UnitVal) ce', w')" by blast
  then have "view ce' w' capState = view emptyCapEnv world0 capState"
    using runState_restores_label [OF disjI1 [OF r]] by auto
  then show ?thesis using r get(2) by (auto simp: view_def)
qed

text \<open>C37: A failing state handler rolls back. Called with a shared environment, as the machine calls effectful
  primitives, and an applier that writes only the maps it owns, \<^verbatim>\<open>runState\<close> returns on every error the
  environment it was given, and no environment that was valid before the call denotes anything else
  afterwards.\<close>

theorem runState_rolls_back:
  assumes "isolating ap" "shared ce" "doRunState label s thunk ce ap w = (Err e ce', w')" "valid d w"
  shows "ce' = ce \<and> view d w' = view d w"
proof -
  have own: "owns_from (w_next w) ce" using assms(2) by (simp add: owns_from_def split: option.splits)
  have "maps_kept (w_next w) w w'"
    using isolating.doRunState_iso(1) [OF assms(1) own order_refl, of label s thunk] assms(3) by simp
  then have "view d w' = view d w"
    using assms(4) by (cases "caps d") (auto simp: view_def capGet_def valid_def maps_kept_def)
  moreover have "ce' = ce" using doRunState_Err [OF assms(3)] .
  ultimately show ?thesis by blast
qed

lemma drive_failWithAt:
  "driveEffectful (PrimVal ''failWithAt'' 2 True [HostVal (HString l)]) ce (vmApplier (effEnv pretty) (Suc fuel)) w =
     (Err (RuntimeError (''fail: '' @ pretty UnitVal) (Some UnitVal) l) ce, w)"
  by (simp add: driveEffectful_def applyForPrim_def forceEffectfulForPrim_def resolvePrimImplBare_def callPrim_def
      copyPrimVal_def effEnv_failWithAt failAtImpl_def extractLabel_def)

theorem runState_rolls_back_witness:
  "\<exists>e ce' w'. doRunState capState UnitVal (PrimVal ''failWithAt'' 2 True [HostVal (HString ''l'')]) (markShared emptyCapEnv)
     (vmApplier (effEnv (\<lambda>_. [])) 1) world0 = (Err e ce', w') \<and> ce' = markShared emptyCapEnv"
proof -
  let ?run = "doRunState capState UnitVal (PrimVal ''failWithAt'' 2 True [HostVal (HString ''l'')]) (markShared emptyCapEnv)
     (vmApplier (effEnv (\<lambda>_. [])) (Suc 0)) world0"
  obtain c1 w1 where s1: "capSet capState (CapVal UnitVal) (markShared emptyCapEnv) world0 = (c1, w1)" by fastforce
  then obtain e c w' where r: "?run = (Err e c, w')"
    by (auto simp: doRunState_def drive_failWithAt simp del: vmApplier.simps)
  have "shared (markShared emptyCapEnv)" "valid emptyCapEnv world0"
    by (simp_all add: markShared_def valid_def emptyCapEnv_def)
  from runState_rolls_back [OF effects.isolating_axioms this(1) r this(2)] show ?thesis using r by auto
qed


text \<open>\<^verbatim>\<open>try\<close> never hides an error that is not a failure: resource limits, type errors and runtime errors
  without a failure value leave every handler unchanged, with the handler's own environment.\<close>

theorem try_passes_other_errors:
  assumes "driveEffectful thunk ce ap w = (Err e c, w')" "\<forall>msg v label. e \<noteq> RuntimeError msg (Some v) label"
  shows "tryImpl ce [thunk] ap w = (Err e ce, w') \<and> tryAtImpl ce [HostVal (HString l), thunk] ap w = (Err e ce, w')"
proof (cases e)
  case (RuntimeError msg detail label)
  then show ?thesis
    using assms by (cases detail) (simp_all add: tryImpl_def tryAtImpl_def extractLabel_def)
qed (use assms(1) in \<open>simp_all add: tryImpl_def tryAtImpl_def extractLabel_def\<close>)

theorem try_passes_other_errors_witness:
  "tryImpl emptyCapEnv [UnitVal] (applierFrom (\<lambda>_ _ c w. (Err (LimitErr StepLimitError) c, w))) world0 =
     (Err (LimitErr StepLimitError) emptyCapEnv, world0)"
  using try_passes_other_errors [of UnitVal emptyCapEnv "applierFrom (\<lambda>_ _ c w. (Err (LimitErr StepLimitError) c, w))" world0
      "LimitErr StepLimitError" emptyCapEnv world0 "''x''"]
  by (simp add: driveEffectful_def applierFrom_def)

end
