(* ===== verification/Vm_Laws.thy ===== *)
theory Vm_Laws
  imports Vm_Execute Effect_Prims
begin

text \<open>
  Laws of the machine: the specialised self-call is the general call of the closure, tail calls take no space, and what the nested runs of the loop do to the
  capability environment of the running frame.
\<close>

section \<open>Locals as lists\<close>

lemma copyAt_end: "copyAt (length xs) ys (xs @ zs) = xs @ copyAt 0 ys zs"
  by (simp add: copyAt_def)

lemma copyAt_add: "copyAt (length xs + n) ys (xs @ zs) = xs @ copyAt n ys zs"
  by (simp add: copyAt_def)

lemma length_copyAt: "i \<le> length l \<Longrightarrow> length (copyAt i xs l) = length l"
  by (simp add: copyAt_def min_def)

lemma copyAt_fit: "length xs \<le> length l \<Longrightarrow> copyAt 0 xs l = xs @ drop (length xs) l"
  by (simp add: copyAt_def)

lemma copyAt_one: "i < length l \<Longrightarrow> copyAt i [x] l = l[i := x]"
  by (simp add: copyAt_def upd_conv_take_nth_drop)

lemma ensureLocals_append: "ensureLocals (length l + n) l = l @ replicate n None"
  by (simp add: ensureLocals_def)

lemma ensureLocals_id: "n \<le> length l \<Longrightarrow> ensureLocals n l = l"
  by (simp add: ensureLocals_def)

text \<open>The slots of a new frame of a fixpoint: captures, the closure, then nil.\<close>

lemma capturedSlots_fix:
  assumes "pFixSelfSlot p = int s" "length captured \<le> s" "s < pNumLocals p"
  shows "capturedSlots p captured =
    map Some captured @ replicate (s - length captured) None @ Some (selfVal p captured) # replicate (pNumLocals p - s - 1) None"
proof (rule nth_equalityI)
  show "length (capturedSlots p captured) =
      length (map Some captured @ replicate (s - length captured) None @ Some (selfVal p captured) # replicate (pNumLocals p - s - 1) None)"
    using assms by (simp add: capturedSlots_def length_copyAt)
  fix i assume "i < length (capturedSlots p captured)"
  then have i: "i < pNumLocals p" using assms by (simp add: capturedSlots_def length_copyAt)
  show "capturedSlots p captured ! i =
      (map Some captured @ replicate (s - length captured) None @ Some (selfVal p captured) # replicate (pNumLocals p - s - 1) None) ! i"
    using assms i by (auto simp: capturedSlots_def copyAt_def nth_append nth_list_update nth_Cons')
qed

lemma length_capturedSlots_fix:
  "pFixSelfSlot p = int s \<Longrightarrow> length (capturedSlots p captured) = pNumLocals p"
  by (simp add: capturedSlots_def length_copyAt)

text \<open>What a frame of a fixpoint looks like after the arguments have been stored.\<close>

definition fixSlots :: "proto \<Rightarrow> val list \<Rightarrow> val list \<Rightarrow> val option list" where
  "fixSlots p captured args =
     take (nat (pFixSelfSlot p + 1)) (capturedSlots p captured) @ map Some args @
     replicate (pNumLocals p - nat (pFixSelfSlot p + 1) - length args) None"

lemma fixSlots_copyAt:
  assumes "pFixSelfSlot p = int s" "length captured \<le> s" "s + 1 + length args \<le> pNumLocals p"
  shows "copyAt (s + 1) (map Some args) (capturedSlots p captured) = fixSlots p captured args"
  using assms by (simp add: fixSlots_def capturedSlots_fix copyAt_def nat_add_distrib)

text \<open>Two runs agree when they have the same outcome and, if they return, the same state.\<close>

definition sameOutcome :: "'a vmres \<Rightarrow> 'a vmres \<Rightarrow> bool" where
  "sameOutcome r r' \<longleftrightarrow> fst r = fst r' \<and> (\<forall>a u. fst r = Ret a u \<longrightarrow> snd r = snd r')"

lemma sameOutcome_refl [simp]: "sameOutcome r r"
  by (simp add: sameOutcome_def)

lemma world_fields [simp]:
  "m_stack (w_vm (setStack s w)) = s" "m_stack (w_vm (setLocals l w)) = m_stack (w_vm w)" "m_stack (w_vm (setFrames fs w)) = m_stack (w_vm w)"
  "m_locals (w_vm (setStack s w)) = m_locals (w_vm w)" "m_locals (w_vm (setLocals l w)) = l" "m_locals (w_vm (setFrames fs w)) = m_locals (w_vm w)"
  "m_frames (w_vm (setStack s w)) = m_frames (w_vm w)" "m_frames (w_vm (setLocals l w)) = m_frames (w_vm w)" "m_frames (w_vm (setFrames fs w)) = fs"
  "m_gen (w_vm (setStack s w)) = m_gen (w_vm w)" "m_gen (w_vm (setLocals l w)) = m_gen (w_vm w)" "m_gen (w_vm (setFrames fs w)) = m_gen (w_vm w)"
  "m_fcap (w_vm (setStack s w)) = m_fcap (w_vm w)" "m_fcap (w_vm (setLocals l w)) = m_fcap (w_vm w)" "m_fcap (w_vm (setFrames fs w)) = m_fcap (w_vm w)"
  "w_budget (setStack s w) = w_budget w" "w_budget (setLocals l w) = w_budget w" "w_budget (setFrames fs w) = w_budget w"
  "setStack s (setStack s' w) = setStack s w" "setLocals l (setLocals l' w) = setLocals l w" "setFrames fs (setFrames fs' w) = setFrames fs w"
  "setLocals l (setStack s w) = setStack s (setLocals l w)"
  by (simp_all add: setStack_def setLocals_def setFrames_def)

lemma budget_set [simp]:
  "(setStack s w)\<lparr> w_budget := b \<rparr> = setStack s (w\<lparr> w_budget := b \<rparr>)" "(setLocals l w)\<lparr> w_budget := b \<rparr> = setLocals l (w\<lparr> w_budget := b \<rparr>)"
  "topCap (w\<lparr> w_budget := b \<rparr>) = topCap w"
  by (simp_all add: setStack_def setLocals_def topCap_def)

lemma updTop_set [simp]:
  "updTop h (setStack s w) = setStack s (updTop h w)" "m_stack (w_vm (updTop h w)) = m_stack (w_vm w)" "m_locals (w_vm (updTop h w)) = m_locals (w_vm w)"
  "w_budget (updTop h w) = w_budget w" "length (m_frames (w_vm (updTop h w))) = length (m_frames (w_vm w))"
  "m_gen (w_vm (updTop h w)) = m_gen (w_vm w)" "m_fcap (w_vm (updTop h w)) = m_fcap (w_vm w)"
  by (simp_all add: updTop_def setStack_def setFrames_def split: list.split)

lemma restart_set [simp]:
  "restart p (setStack s w) = setStack s (restart p w)" "m_stack (w_vm (restart p w)) = m_stack (w_vm w)" "m_locals (w_vm (restart p w)) = m_locals (w_vm w)"
  "w_budget (restart p w) = w_budget w" "length (m_frames (w_vm (restart p w))) = length (m_frames (w_vm w))"
  "m_gen (w_vm (restart p w)) = m_gen (w_vm w)" "m_fcap (w_vm (restart p w)) = m_fcap (w_vm w)"
  by (simp_all add: restart_def)

lemma jumpTo_restart: "framesOf w = f # fs \<Longrightarrow> fr_proto f = Some p \<Longrightarrow> jumpTo 0 w = restart p w"
  by (cases f) (simp add: jumpTo_def restart_def updTop_def)

lemma topCap_set [simp]: "topCap (setStack s w) = topCap w" "topCap (setLocals l w) = topCap w"
  by (simp_all add: topCap_def)

lemma pushFrame_set [simp]:
  "pushFrame G p bp c (setStack s w) = setStack s (pushFrame G p bp c w)"
  "m_stack (w_vm (pushFrame G p bp c w)) = m_stack (w_vm w)" "m_locals (w_vm (pushFrame G p bp c w)) = m_locals (w_vm w)"
  by (simp_all add: pushFrame_def appendFrame_def setStack_def Let_def)

lemma budgetOp_stack:
  assumes "\<And>w b. w_budget w = Some b \<Longrightarrow> sameOutcome (k (setStack s w)) (k' (setStack s' w))"
  shows "sameOutcome (budgetOp f (setStack s w) k) (budgetOp f (setStack s' w) k')"
proof -
  have "(setStack s w)\<lparr> w_budget := b \<rparr> = setStack s (w\<lparr> w_budget := b \<rparr>)" for s b
    by (simp add: setStack_def)
  then show ?thesis
    using assms by (auto simp: budgetOp_def sameOutcome_def split: option.splits prod.splits)
qed

lemma setStack_id: "stackOf w = s \<Longrightarrow> setStack s w = w"
  by (auto simp: setStack_def)

section \<open>Self-calls\<close>

lemma keepBottom_all: "length s \<le> n \<Longrightarrow> keepBottom n s = s" by (simp add: keepBottom_def)

lemma keepBottom_append: "length s = n \<Longrightarrow> keepBottom n (xs @ s) = s" "length s = n \<Longrightarrow> keepBottom n (xs @ x # s) = s"
  by (simp_all add: keepBottom_def)

text \<open>Entering a fixpoint with all its arguments.\<close>

lemma enter_fix:
  assumes "pFixSelfSlot p = int s" "length captured \<le> s" "s + 1 + length args \<le> pNumLocals p" "args \<noteq> []" "length (pParams p) = length args"
  shows "applyN G E self n (VMClosure captured p nm) args False w =
    enterV w (\<lambda>w. ok None (pushFrame G p (length (localsOf w)) (topCap w) (setLocals (localsOf w @ fixSlots p captured args) w)))"
proof -
  have base: "paramBase (length (pCaptures p)) p = s + 1" using assms(1) by (simp add: paramBase_def)
  have slots: "copyAt (length l) (capturedSlots p captured) (ensureLocals (length l + pNumLocals p) l) = l @ capturedSlots p captured" for l
    using length_capturedSlots_fix [OF assms(1), of captured] by (simp add: ensureLocals_append copyAt_end copyAt_fit)
  have multi: "copyAt (length l + (s + 1)) (map Some args) (l @ capturedSlots p captured) = l @ fixSlots p captured args" for l :: "val option list"
    using fixSlots_copyAt [OF assms(1-3)] by (simp only: copyAt_add)
  have le: "length l + (s + 1) \<le> length (l @ capturedSlots p captured)" for l :: "val option list"
    using assms(3) length_capturedSlots_fix [OF assms(1), of captured] by simp
  show ?thesis
  proof (cases "length args = 1")
    case True
    then obtain a where a: "args = [a]" by (cases args) auto
    have "storeParam p (length l) a (l @ capturedSlots p captured) = Some (l @ fixSlots p captured args)" for l
      using multi [of l] le [of l] assms(3,5) a length_capturedSlots_fix [OF assms(1), of captured]
      by (auto simp: storeParam_def base copyAt_one Let_def)
    then show ?thesis
      using a assms(5) by (simp add: applyN.simps entered_def applySingle_def callClosure_def slots budgetOp_def callV.simps split: option.split prod.split)
  next
    case False
    then show ?thesis
      using assms(4,5) multi le
      by (simp add: applyN.simps entered_def enterClosureMulti_def callClosureMulti_def slots base budgetOp_def Let_def split: option.split prod.split)
  qed
qed

lemma length_clearRange: "j \<le> length l \<Longrightarrow> length (clearRange i j l) = length l"
  by (auto simp: clearRange_def)

text \<open>Entering a fixpoint again from its own frame, whose locals are the last ones.\<close>

lemma tail_slots:
  assumes "pFixSelfSlot p = int s" "length l = bp + pNumLocals p" "s + 1 \<le> pNumLocals p"
  shows "copyAt bp (capturedSlots p captured) (tailLocals p p bp (s + 1 + k) l) = take bp l @ capturedSlots p captured"
proof -
  let ?l = "clearRange (bp + (s + 1 + k)) (bp + pNumLocals p) l"
  have len: "length ?l = bp + pNumLocals p" using assms(2) by (simp add: length_clearRange)
  have "take bp ?l = take bp l"
    using assms(2) by (auto simp: clearRange_def min_def)
  moreover have "tailLocals p p bp (s + 1 + k) l = ?l"
    using assms(2) len by (simp add: tailLocals_def ensureLocals_id Let_def)
  ultimately show ?thesis
    using len length_capturedSlots_fix [OF assms(1), of captured] by (simp add: copyAt_def)
qed

lemma tail_enter_fix:
  assumes "pFixSelfSlot p = int s" "length captured \<le> s" "s + 1 + length args \<le> pNumLocals p" "args \<noteq> []" "length (pParams p) = length args"
    and "framesOf w = f # fs" "fr_proto f = Some p" "fr_bp f = bp" "length (localsOf w) = bp + pNumLocals p"
  shows "applyN G E self n (VMClosure captured p nm) args True w =
    ok None (restart p (setLocals (take bp (localsOf w) @ fixSlots p captured args) w))"
proof -
  have base: "paramBase k p = s + 1" for k using assms(1) by (simp add: paramBase_def)
  have slots: "copyAt bp (capturedSlots p captured) (tailLocals p p bp (s + 1 + k) (localsOf w)) = take bp (localsOf w) @ capturedSlots p captured" for k
    using tail_slots [OF assms(1,9)] assms(3) by simp
  have bp: "length (take bp (localsOf w)) = bp" using assms(9) by simp
  have multi: "copyAt (bp + (s + 1)) (map Some args) (take bp (localsOf w) @ capturedSlots p captured) = take bp (localsOf w) @ fixSlots p captured args"
    using fixSlots_copyAt [OF assms(1-3)] copyAt_add [of "take bp (localsOf w)" "s + 1" "map Some args"] bp by simp
  have le: "bp + (s + 1) < length (take bp (localsOf w) @ capturedSlots p captured)"
    using assms(3,4) length_capturedSlots_fix [OF assms(1), of captured] bp by (cases args) auto
  show ?thesis
  proof (cases "length args = 1")
    case True
    then obtain a where a: "args = [a]" by (cases args) auto
    have params: "pParams p \<noteq> []" using assms(4,5) by auto
    have "storeParam p bp a (take bp (localsOf w) @ capturedSlots p captured) = Some (take bp (localsOf w) @ fixSlots p captured args)"
      using multi le assms(5) a by (auto simp: storeParam_def base copyAt_one Let_def)
    then show ?thesis
      using a assms(5-8) slots [of 1] params by (simp add: applyN.simps entered_def applySingle_def tailCallClosure_def atFrame_def base Let_def)
  next
    case False
    then show ?thesis
      using assms(4-8) multi le slots [of "length args"]
      by (simp add: applyN.simps entered_def enterClosureMulti_def tailCallClosureMulti_def atFrame_def base Let_def)
  qed
qed

lemma dispatch_self:
  "applyN G E self n fn args tail (setStack (rev args @ fn # st) w) = r \<Longrightarrow>
   dispatchApplyN G E self n (length args) tail (setStack (rev args @ fn # st) w) =
     callV r (\<lambda>val w'. let w'' = setStack (keepBottom (length st) (stackOf w')) w' in ok () (case val of None \<Rightarrow> w'' | Some v \<Rightarrow> pushV v w''))"
  by (simp add: dispatchApplyN_def nth_append Let_def)

lemma recurse_new:
  assumes "pFixSelfSlot p = int s" "length captured \<le> s" "s + 1 + length args \<le> pNumLocals p"
    and "bp + (s + 1) \<le> length l" "take (s + 1) (drop bp l) = take (s + 1) (capturedSlots p captured)"
  shows "copyAt (length l + (s + 1)) (map Some args) (copyAt (length l) (take (s + 1) (drop bp (l @ replicate (pNumLocals p) None))) (l @ replicate (pNumLocals p) None)) =
    l @ fixSlots p captured args"
proof -
  have len: "length (take (s + 1) (capturedSlots p captured)) = s + 1"
    using length_capturedSlots_fix [OF assms(1), of captured] assms(3) by simp
  have "take (s + 1) (drop bp (l @ replicate (pNumLocals p) None)) = take (s + 1) (capturedSlots p captured)"
    using assms(4,5) by simp
  then have "copyAt (length l) (take (s + 1) (drop bp (l @ replicate (pNumLocals p) None))) (l @ replicate (pNumLocals p) None) =
      l @ take (s + 1) (capturedSlots p captured) @ replicate (pNumLocals p - (s + 1)) None"
    using len assms(3) by (simp only: copyAt_end) (simp add: copyAt_fit)
  moreover have "copyAt (s + 1) (map Some args) (take (s + 1) (capturedSlots p captured) @ replicate (pNumLocals p - (s + 1)) None) = fixSlots p captured args"
  proof -
    have "copyAt (length (take (s + 1) (capturedSlots p captured))) (map Some args) (take (s + 1) (capturedSlots p captured) @ replicate (pNumLocals p - (s + 1)) None) =
        take (s + 1) (capturedSlots p captured) @ copyAt 0 (map Some args) (replicate (pNumLocals p - (s + 1)) None)"
      by (rule copyAt_end)
    then show ?thesis using len assms(1,3) by (simp add: copyAt_fit fixSlots_def nat_add_distrib)
  qed
  ultimately show ?thesis by (simp only: copyAt_add)
qed

lemma recurse_tail:
  assumes "pFixSelfSlot p = int s" "length captured \<le> s" "s + 1 + length args \<le> pNumLocals p"
    and "length l = bp + pNumLocals p" "take (s + 1) (drop bp l) = take (s + 1) (capturedSlots p captured)"
  shows "copyAt (bp + (s + 1)) (map Some args) (clearRange (bp + (s + 1 + length args)) (bp + pNumLocals p) l) = take bp l @ fixSlots p captured args"
proof -
  have "take (bp + (s + 1)) l = take bp l @ take (s + 1) (capturedSlots p captured)"
    using assms(5) by (simp only: take_add)
  then show ?thesis
    using assms(1,3,4) by (auto simp: copyAt_def clearRange_def fixSlots_def nat_add_distrib min_def)
qed

section \<open>Tail calls\<close>

text \<open>What entering \<open>p\<close> in the frame of the caller does to the machine: the frame restarts, nothing is pushed.\<close>

definition reentered :: "proto \<Rightarrow> world \<Rightarrow> world \<Rightarrow> bool" where
  "reentered p w w' \<longleftrightarrow>
     (\<exists>f fs. framesOf w = f # fs \<and> framesOf w' = f\<lparr> fr_proto := Some p, fr_ip := 0 \<rparr> # fs \<and>
       take (fr_bp f) (localsOf w') = take (fr_bp f) (localsOf w) \<and>
       length (localsOf w') \<le> max (length (localsOf w)) (fr_bp f + pNumLocals p)) \<and>
     stackOf w' = stackOf w \<and> w_budget w' = w_budget w"

lemma reenteredI:
  assumes "framesOf w = f # fs" "take (fr_bp f) l = take (fr_bp f) (localsOf w)" "length l \<le> max (length (localsOf w)) (fr_bp f + pNumLocals p)"
  shows "reentered p w (restart p (setLocals l w))"
  using assms by (simp add: reentered_def restart_def updTop_def)

lemma take_copyAt: "i \<le> j \<Longrightarrow> j \<le> length l \<Longrightarrow> take i (copyAt j xs l) = take i l"
  by (simp add: copyAt_def min_def)

lemma take_clearRange: "i \<le> j \<Longrightarrow> k \<le> length l \<Longrightarrow> take i (clearRange j k l) = take i l"
  by (auto simp: clearRange_def min_def)

lemma tailLocals_frame:
  assumes "bp \<le> length l"
  shows "length (tailLocals old p bp k l) = bp + pNumLocals p" "take bp (tailLocals old p bp k l) = take bp l"
proof -
  let ?n = "bp + max (pNumLocals p) (pNumLocals old)"
  have len: "length (ensureLocals ?n l) = max (length l) ?n" by (simp add: ensureLocals_def)
  have "length (clearRange (bp + k) ?n (ensureLocals ?n l)) = max (length l) ?n" by (simp add: length_clearRange len)
  then show "length (tailLocals old p bp k l) = bp + pNumLocals p" by (simp add: tailLocals_def Let_def)
  have "take bp (clearRange (bp + k) ?n (ensureLocals ?n l)) = take bp (ensureLocals ?n l)"
    by (rule take_clearRange) (simp_all add: len)
  then show "take bp (tailLocals old p bp k l) = take bp l"
    using assms by (simp add: tailLocals_def Let_def ensureLocals_def)
qed

lemma length_storeParam: "storeParam p bp a l = Some l' \<Longrightarrow> length l' = length l \<and> take bp l' = take bp l"
  by (auto simp: storeParam_def Let_def split: if_splits)

lemma tail_closure_reentered:
  assumes "framesOf w = f # fs" "fr_bp f \<le> length (localsOf w)"
  shows "tailCallClosure p captured arg w = (Ret u v, w') \<Longrightarrow> reentered p w w'"
    "tailCallClosureMulti p captured args w = (Ret u v, w') \<Longrightarrow> reentered p w w'"
    "tailCallThunk p captured w = (Ret u v, w') \<Longrightarrow> reentered p w w'"
proof -
  let ?l = "\<lambda>old k. tailLocals old p (fr_bp f) k (localsOf w)"
  have l: "length (copyAt (fr_bp f) xs (?l old k)) = fr_bp f + pNumLocals p" "take (fr_bp f) (copyAt (fr_bp f) xs (?l old k)) = take (fr_bp f) (localsOf w)" for old k xs
    using tailLocals_frame [OF assms(2)] by (simp_all add: length_copyAt take_copyAt)
  show "reentered p w w'" if "tailCallClosure p captured arg w = (Ret u v, w')"
    using that assms(1) l by (auto simp: tailCallClosure_def atFrame_def Let_def dest: length_storeParam split: option.splits intro!: reenteredI [OF assms(1)])
  show "reentered p w w'" if "tailCallClosureMulti p captured args w = (Ret u v, w')"
    using that assms(1) l
    by (auto simp: tailCallClosureMulti_def atFrame_def Let_def length_copyAt take_copyAt split: option.splits if_splits intro!: reenteredI [OF assms(1)])
  show "reentered p w w'" if "tailCallThunk p captured w = (Ret u v, w')"
  proof -
    let ?e = "ensureLocals (fr_bp f + pNumLocals p) (localsOf w)"
    let ?c = "clearRange (fr_bp f + length (capturedSlots p captured)) (fr_bp f + pNumLocals p) ?e"
    have e: "length ?e = max (length (localsOf w)) (fr_bp f + pNumLocals p)" by (simp add: ensureLocals_def)
    have "length ?c = length ?e" using e by (simp add: length_clearRange)
    moreover have "take (fr_bp f) ?c = take (fr_bp f) (localsOf w)"
      using assms(2) e by (simp add: take_clearRange ensureLocals_def)
    ultimately show ?thesis
      using that assms(1) e by (auto simp: tailCallThunk_def Let_def length_copyAt take_copyAt intro!: reenteredI [OF assms(1)])
  qed
qed

text \<open>The values whose application to the last missing argument enters a prototype.\<close>

fun enterable :: "val \<Rightarrow> nat \<Rightarrow> proto option" where
  "enterable (VMClosure captured p name) k = (if length (pParams p) = k then Some p else None)"
| "enterable (PAPVal captured p name args arity) k = (if length args + k = arity then Some p else None)"
| "enterable _ k = None"

lemma applyV_reentered:
  assumes "enterable fn 1 = Some p" "framesOf w = f # fs" "fr_bp f \<le> length (localsOf w)" "applyV G E self fn arg True w = (Ret u v, w')"
  shows "reentered p w w'"
  using assms tail_closure_reentered [OF assms(2,3)]
  by (cases fn) (auto simp: applyV_def applySingle_def enterClosureMulti_def Let_def split: if_splits)

lemma applyN_reentered:
  assumes "enterable fn (length args) = Some p" "framesOf w = f # fs" "fr_bp f \<le> length (localsOf w)" "applyN G E self n fn args True w = (Ret r v, w')"
  shows "reentered p w w' \<and> r = None"
  using assms tail_closure_reentered [OF assms(2,3)]
  by (cases fn; subst (asm) applyN.simps)
    (auto simp: entered_def applySingle_def enterClosureMulti_def combineArgs_def Let_def split: if_splits
      elim!: callV.elims)

section \<open>Properties\<close>

text \<open>
  C7: The specialised self-calls do what the general call does. In a frame of a fixpoint that still has its captures and itself in the leading slots, \<^verbatim>\<open>OpRecurseSelf\<close> on the arguments
  has the outcome, and on success the machine state, of \<^verbatim>\<open>OpApplyN\<close> on the closure and the arguments; and \<^verbatim>\<open>OpTailRecurseSelf\<close> that of \<^verbatim>\<open>OpTailApplyN\<close> when the frame's
  locals are the last ones.
\<close>

theorem self_call_is_call:
  assumes "pFixSelfSlot p = int s" "\<not> pIsThunk p" "length captured \<le> s" "s + 1 + length args \<le> pNumLocals p" "args \<noteq> []" "length (pParams p) = length args"
    and "framesOf w = f # fs" "fr_proto f = Some p" "fr_bp f = bp"
    and "bp + (s + 1) \<le> length (localsOf w)" "take (s + 1) (drop bp (localsOf w)) = take (s + 1) (capturedSlots p captured)"
  shows "sameOutcome (recurseSelf G p bp (length args) (setStack (rev args @ st) w))
      (dispatchApplyN G E self n (length args) False (setStack (rev args @ selfVal p captured # st) w)) \<and>
    (length (localsOf w) = bp + pNumLocals p \<longrightarrow>
      sameOutcome (tailRecurseSelf p bp (length args) (setStack (rev args @ st) w))
        (dispatchApplyN G E self n (length args) True (setStack (rev args @ selfVal p captured # st) w)))"
proof
  have self: "selfVal p captured = VMClosure captured p ''''" using assms(2) by (simp add: selfVal_def)
  let ?new = "\<lambda>w. pushFrame G p (length (localsOf w)) (topCap w) (setLocals (localsOf w @ fixSlots p captured args) w)"
  have call: "dispatchApplyN G E self n (length args) False (setStack (rev args @ selfVal p captured # st) w) =
      callV (enterV (setStack (rev args @ selfVal p captured # st) w) (\<lambda>w. ok None (?new w)))
        (\<lambda>val w'. let w'' = setStack (keepBottom (length st) (stackOf w')) w' in ok () (case val of None \<Rightarrow> w'' | Some v \<Rightarrow> pushV v w''))"
    unfolding self by (rule dispatch_self [OF enter_fix [OF assms(1,3-6)]])
  have l: "bp + (s + 1) \<le> length (localsOf w) + pNumLocals p" "length (localsOf w) + (s + 1) + length args \<le> length (localsOf w) + pNumLocals p"
    using assms(4,10) by simp_all
  note new = recurse_new [OF assms(1,3,4,10,11)]
  show "sameOutcome (recurseSelf G p bp (length args) (setStack (rev args @ st) w))
      (dispatchApplyN G E self n (length args) False (setStack (rev args @ selfVal p captured # st) w))"
    using assms(1) l new unfolding call recurseSelf_def
    by (auto simp: budgetOp_def sameOutcome_def ensureLocals_append keepBottom_append nat_add_distrib Let_def
        split: option.splits prod.splits)
  show "length (localsOf w) = bp + pNumLocals p \<longrightarrow>
      sameOutcome (tailRecurseSelf p bp (length args) (setStack (rev args @ st) w))
        (dispatchApplyN G E self n (length args) True (setStack (rev args @ selfVal p captured # st) w))"
  proof
    assume full: "length (localsOf w) = bp + pNumLocals p"
    have "dispatchApplyN G E self n (length args) True (setStack (rev args @ selfVal p captured # st) w) =
        ok () (setStack st (restart p (setLocals (take bp (localsOf w) @ fixSlots p captured args) w)))"
      unfolding self
      using dispatch_self [OF tail_enter_fix [OF assms(1,3-6), of "setStack (rev args @ VMClosure captured p '''' # st) w" f fs bp G E self n]]
        assms(7-9) full by (simp add: keepBottom_append)
    then show "sameOutcome (tailRecurseSelf p bp (length args) (setStack (rev args @ st) w))
        (dispatchApplyN G E self n (length args) True (setStack (rev args @ selfVal p captured # st) w))"
      using assms(1,4,7,8) full recurse_tail [OF assms(1,3,4) full assms(11)]
      by (simp add: tailRecurseSelf_def nat_add_distrib max_def jumpTo_restart [of _ f fs p] Let_def)
  qed
qed

text \<open>A fixpoint of one parameter that calls itself, in its first frame.\<close>

definition loopProto :: proto where
  "loopProto = Proto (encodeI (Instr OpLoadLocal 1 0 0) @ encodeI (Instr OpTailRecurseSelf 0 0 1)) [] [] [] 2 [] False [''x''] 0 [] [] [] [] None []"

definition loopWorld :: world where
  "loopWorld = world0\<lparr> w_budget := Some (newBudget None 0 0),
     w_vm := newVM\<lparr> m_frames := [\<lparr> fr_proto = Some loopProto, fr_ip = 3, fr_bp = 0, fr_cap = emptyCapEnv, fr_barrier = False \<rparr>],
       m_locals := [Some (selfVal loopProto []), Some (intVal 7)] \<rparr> \<rparr>"

definition demoCfg :: vmCfg where
  "demoCfg = \<lparr> vc_globals = [], vc_cells = \<lambda>_. None, vc_grow = \<lambda>n. 2 * n + 1, vc_pretty = \<lambda>_. [] \<rparr>"

theorem self_call_is_call_witness:
  "sameOutcome (recurseSelf demoCfg loopProto 0 1 (setStack [intVal 7] loopWorld))
     (dispatchApplyN demoCfg (effEnv (\<lambda>_. [])) (applierFrom (\<lambda>_ _ ce w. (Panic, w))) 1 1 False
       (setStack [intVal 7, selfVal loopProto []] loopWorld)) \<and>
   sameOutcome (tailRecurseSelf loopProto 0 1 (setStack [intVal 7] loopWorld))
     (dispatchApplyN demoCfg (effEnv (\<lambda>_. [])) (applierFrom (\<lambda>_ _ ce w. (Panic, w))) 1 1 True
       (setStack [intVal 7, selfVal loopProto []] loopWorld))"
  using self_call_is_call [of loopProto 0 "[]" "[intVal 7]" loopWorld _ "[]" 0
      demoCfg "[]" "effEnv (\<lambda>_. [])" "applierFrom (\<lambda>_ _ ce w. (Panic, w))" 1]
  by (simp add: loopWorld_def loopProto_def capturedSlots_def selfVal_def copyAt_def numeral_2_eq_2)

lemma reentered_stack: "reentered p w w' \<Longrightarrow> reentered p (setStack st w) (setStack st w')"
  by (simp add: reentered_def)

text \<open>
  C6: Tail calls take no space. When \<^verbatim>\<open>OpTailApply\<close> applies a function to its last missing argument, or \<^verbatim>\<open>OpTailApplyN\<close> to all of them, and succeeds, the running frame
  restarts with the prototype of the function: no frame is pushed, the operands are consumed, the nesting depth of the budget is as before, the locals below the frame are
  untouched, and those of the frame are no more than it had or the function needs.
\<close>

theorem tail_call_constant_space:
  assumes "framesOf w = f # fs" "fr_bp f \<le> length (localsOf w)" "enterable fn (length args) = Some p" "stackOf w = rev args @ fn # st"
    and "iop i = OpTailApply \<and> length args = 1 \<or> iop i = OpTailApplyN \<and> unat (ik i) = length args"
    and "execCall G E self n q bp i w = (Ret s u, w')"
  shows "s = Next \<and> reentered p (setStack st w) w'"
  using assms(5)
proof
  assume op: "iop i = OpTailApply \<and> length args = 1"
  then obtain arg where "args = [arg]" by (cases args) auto
  then obtain u' where "applyV G E self fn arg True (setStack st w) = (Ret u' u, w')" "s = Next"
    using op assms(4,6) by (auto simp: execCall_def popV_def thenNext_def elim!: callV.elims)
  then show ?thesis
    using applyV_reentered [of fn p "setStack st w" f fs G E self arg] assms(1-3) op by auto
next
  assume op: "iop i = OpTailApplyN \<and> unat (ik i) = length args"
  have w: "w = setStack (rev args @ fn # st) w" using assms(4) by (simp add: setStack_id)
  let ?run = "applyN G E self n fn args True (setStack (rev args @ fn # st) w)"
  have "execCall G E self n q bp i (setStack (rev args @ fn # st) w) = thenNext (callV ?run
      (\<lambda>val w'. let w'' = setStack (keepBottom (length st) (stackOf w')) w' in ok () (case val of None \<Rightarrow> w'' | Some v \<Rightarrow> pushV v w'')))"
    using op dispatch_self [of G E self n fn args True st w, OF refl] by (simp add: execCall_def)
  with assms(6) w obtain r w1 where r: "?run = (Ret r u, w1)" "s = Next"
    "w' = (let w'' = setStack (keepBottom (length st) (stackOf w1)) w1 in case r of None \<Rightarrow> w'' | Some v \<Rightarrow> pushV v w'')"
    by (cases ?run, rename_tac x w2, case_tac x) (auto simp: thenNext_def Let_def)
  from applyN_reentered [OF assms(3) _ _ r(1)] have "reentered p (setStack (rev args @ fn # st) w) w1" "r = None"
    using assms(1,2) by auto
  moreover from this(1) have "stackOf w1 = rev args @ fn # st" by (simp add: reentered_def)
  ultimately show ?thesis
    using r(2,3) reentered_stack [of p _ w1 st] by (simp add: keepBottom_append Let_def) fastforce
qed

lemma tail_loop: "fst (execCall demoCfg (effEnv (\<lambda>_. [])) (applierFrom (\<lambda>_ _ ce w. (Panic, w))) 1 loopProto 0 (Instr OpTailApply 0 0 0)
    (setStack [intVal 7, selfVal loopProto []] loopWorld)) = Ret Next ()"
  by code_simp

theorem tail_call_constant_space_witness:
  "\<exists>w'. execCall demoCfg (effEnv (\<lambda>_. [])) (applierFrom (\<lambda>_ _ ce w. (Panic, w))) 1 loopProto 0 (Instr OpTailApply 0 0 0)
      (setStack [intVal 7, selfVal loopProto []] loopWorld) = (Ret Next (), w') \<and> reentered loopProto loopWorld w'"
proof -
  let ?run = "execCall demoCfg (effEnv (\<lambda>_. [])) (applierFrom (\<lambda>_ _ ce w. (Panic, w))) 1 loopProto 0 (Instr OpTailApply 0 0 0)
      (setStack [intVal 7, selfVal loopProto []] loopWorld)"
  have r: "?run = (Ret Next (), snd ?run)" using tail_loop by (metis prod.collapse)
  from tail_call_constant_space [OF _ _ _ _ _ r, of _ "[]" "selfVal loopProto []" "[intVal 7]" loopProto "[]"]
  have "reentered loopProto (setStack [] loopWorld) (snd ?run)"
    by (simp add: loopWorld_def loopProto_def selfVal_def)
  then show ?thesis using r by (intro exI [of _ "snd ?run"]) (simp add: loopWorld_def setStack_def newVM_def)
qed

end
