(* ===== verification/Vm_Nested.thy ===== *)
theory Vm_Nested
  imports Vm_Laws
begin

text \<open>
  Nested runs of the dispatch loop. A primitive or an instruction that calls back into the machine (\<^verbatim>\<open>runCallee\<close>) finds its own frames and locals as they were, and the
  capability maps that only it owns unchanged; so the machine fulfils the contract \<open>isolating\<close> that the effect handlers rely on, bytecode included.
\<close>

section \<open>Callbacks that keep frames and locals\<close>

fun keptRes :: "world \<Rightarrow> val gores \<Rightarrow> bool" where
  "keptRes w (Ret v c, w') \<longleftrightarrow> framesOf w' = framesOf w \<and> localsOf w' = localsOf w"
| "keptRes w (Err e c, w') \<longleftrightarrow> framesOf w' = framesOf w \<and> localsOf w' = localsOf w"
| "keptRes w (_, w') \<longleftrightarrow> True"

locale framed =
  fixes ap :: applier
  assumes apply_kept: "keptRes w (applyA ap f a c w)"
    and applyN_kept: "keptRes w (applyNA ap f as c w)"
    and force_kept: "forceEffA ap = Some g \<Longrightarrow> keptRes w (g v c w)"

definition keptImpl :: "primImpl \<Rightarrow> bool" where
  "keptImpl impl \<longleftrightarrow> (\<forall>ap c args w. framed ap \<longrightarrow> keptRes w (impl c args ap w))"

text \<open>The environment of a machine whose primitives and callees keep frames, locals and the maps they do not own.\<close>

definition keptEnv :: "vmEnv \<Rightarrow> bool" where
  "keptEnv E \<longleftrightarrow>
     (\<forall>ap cl c w. framed ap \<longrightarrow> isolating ap \<longrightarrow> keptRes w (vm_exec E ap cl c w)) \<and>
     (\<forall>ap cl n c w. framed ap \<longrightarrow> isolating ap \<longrightarrow> owns_from n c \<longrightarrow> n \<le> w_next w \<longrightarrow> isoRes n w (vm_exec E ap cl c w)) \<and>
     (\<forall>name impl. lookupPrim name (vm_prims E) = Some impl \<longrightarrow> keptImpl impl \<and> isoImpl impl)"

lemma keptRes_cong: "framesOf w1 = framesOf w \<Longrightarrow> localsOf w1 = localsOf w \<Longrightarrow> keptRes w1 p \<Longrightarrow> keptRes w p"
  by (cases "(w, p)" rule: keptRes.cases) auto

lemma keptRes_callR:
  assumes "keptRes w p" "\<And>v c w1. framesOf w1 = framesOf w \<Longrightarrow> localsOf w1 = localsOf w \<Longrightarrow> keptRes w1 (k v c w1)"
  shows "keptRes w (callR p h k)"
  using assms by (cases "(w, p)" rule: keptRes.cases) (auto intro: keptRes_cong)

lemma keptRes_argN: "(\<And>v. keptRes w (k v)) \<Longrightarrow> keptRes w (argN args i w k)"
  by (simp add: argN_def)

lemma keptRes_orPanic: "(\<And>v. keptRes w (k v)) \<Longrightarrow> keptRes w (orPanic x w k)"
  by (cases x) simp_all

lemma keptRes_labelArg: "(\<And>name. keptRes w (k name)) \<Longrightarrow> keptRes w (labelArg a b c args w k)"
  unfolding labelArg_def by (intro keptRes_argN) (simp split: val.splits host.splits)

lemma keptRes_tryE: "(\<And>a. keptRes w (k a)) \<Longrightarrow> keptRes w (tryE x c w k)"
  by (cases x) auto

lemma keptRes_catchFail: "keptRes w p \<Longrightarrow> keptRes w (catchFail label c p)"
  by (cases "(label, c, p)" rule: catchFail.cases) auto

lemma cap_keeps_vm [simp]:
  "w_vm (snd (capSet l v c w)) = w_vm w" "w_vm (snd (capDelete l c w)) = w_vm w"
  "w_vm (snd (capFilter ls c w)) = w_vm w" "w_vm (snd (capMergeWith c c' w)) = w_vm w"
  by (auto simp: cap_defs split: option.splits bool.splits)

lemma cap_kept:
  "(\<And>c' w'. w_vm w' = w_vm w \<Longrightarrow> keptRes w' (k c' w')) \<Longrightarrow> keptRes w (case capSet l v c w of (c', w') \<Rightarrow> k c' w')"
  "(\<And>c' w'. w_vm w' = w_vm w \<Longrightarrow> keptRes w' (k c' w')) \<Longrightarrow> keptRes w (case capDelete l c w of (c', w') \<Rightarrow> k c' w')"
  using keptRes_cong [of "snd (capSet l v c w)" w "k (fst (capSet l v c w)) (snd (capSet l v c w))"]
    keptRes_cong [of "snd (capDelete l c w)" w "k (fst (capDelete l c w)) (snd (capDelete l c w))"]
  by (simp_all add: case_prod_unfold)

context framed
begin

lemma drive_kept: "keptRes w (driveEffectful thunk c ap w)"
  unfolding driveEffectful_def
  by (intro keptRes_callR apply_kept) (auto simp: force_kept split: option.splits)

lemma doRunState_kept: "keptRes w (doRunState label s thunk c ap w)" "keptRes w (doRunStateDrive label s thunk c ap w)"
  unfolding doRunState_def doRunStateDrive_def Let_def
  by (intro cap_kept keptRes_callR drive_kept; auto split: option.splits capAny.splits intro!: cap_kept)+

end

lemma effect_prims_kept:
  "keptImpl getImpl" "keptImpl putImpl" "keptImpl getAtImpl" "keptImpl putAtImpl" "keptImpl modifyAtImpl"
  "keptImpl runStateImpl" "keptImpl runStateAtImpl" "keptImpl evalStateAtImpl" "keptImpl execStateAtImpl"
  "keptImpl tryImpl" "keptImpl tryAtImpl" "keptImpl (failImpl pretty)" "keptImpl (failAtImpl pretty)"
  unfolding keptImpl_def
  by (auto simp: getImpl_def putImpl_def getAtImpl_def putAtImpl_def modifyAtImpl_def runStateImpl_def runStateAtImpl_def
      evalStateAtImpl_def execStateAtImpl_def tupleField_def tryImpl_def tryAtImpl_def failImpl_def failAtImpl_def
      split: option.splits capAny.splits val.splits list.splits
      intro!: keptRes_argN keptRes_orPanic keptRes_labelArg keptRes_tryE keptRes_catchFail cap_kept keptRes_callR
        framed.doRunState_kept framed.apply_kept framed.drive_kept)

section \<open>The applier of the machine\<close>

lemma runCallee_kept:
  assumes "keptEnv E" "framed self" "isolating self"
  shows "keptRes w (runCallee E self cl c w)"
proof -
  have "keptRes w (vm_exec E self cl c w)" using assms by (simp add: keptEnv_def)
  then show ?thesis by (auto simp: runCallee_def split: option.splits prod.splits res.splits)
qed

lemma runCallee_keptEnv_iso:
  assumes "keptEnv E" "framed self" "isolating self" "owns_from n c" "n \<le> w_next w"
  shows "isoRes n w (runCallee E self cl c w)"
proof -
  have "isoRes n w (vm_exec E self cl c w)" using assms by (simp add: keptEnv_def)
  then show ?thesis by (auto simp: runCallee_def isoRes_def split: option.splits prod.splits res.splits)
qed

lemma callPrim_kept:
  assumes "keptImpl impl" "framed self"
  shows "keptRes w (callPrim E self impl c args w)"
proof -
  have "keptRes w (impl c args self w)" using assms by (simp add: keptImpl_def)
  then show ?thesis by (auto simp: callPrim_def split: prod.splits res.splits)
qed

lemma resolve_kept: "keptEnv E \<Longrightarrow> resolvePrimImplBare E name = Inr impl \<Longrightarrow> keptImpl impl \<and> isoImpl impl"
  by (auto simp: keptEnv_def resolvePrimImplBare_def split: option.splits)

lemma resolved_kept: "resolvePrimImplBare E name = Inr impl \<Longrightarrow> keptEnv E \<Longrightarrow> framed self \<Longrightarrow> keptRes w (callPrim E self impl c args w)"
  by (simp add: callPrim_kept resolve_kept)

lemma resolved_iso:
  "resolvePrimImplBare E name = Inr impl \<Longrightarrow> keptEnv E \<Longrightarrow> isolating self \<Longrightarrow> owns_from n c \<Longrightarrow> n \<le> w_next w \<Longrightarrow>
     isoRes n w (callPrim E self impl c args w)"
  by (simp add: callPrim_iso resolve_kept)

lemma budgetStep_kept: "(\<And>w1. w_vm w1 = w_vm w \<Longrightarrow> keptRes w1 (k w1)) \<Longrightarrow> keptRes w (budgetStep c w k)"
proof -
  assume k: "\<And>w1. w_vm w1 = w_vm w \<Longrightarrow> keptRes w1 (k w1)"
  have "keptRes w (k (w\<lparr> w_budget := b \<rparr>))" for b
    by (rule keptRes_cong [OF _ _ k]) simp_all
  then show ?thesis by (simp add: budgetStep_def split: option.splits prod.splits)
qed

text \<open>The three callbacks of the applier keep both contracts when the applier below them does.\<close>

locale kept_machine = framed self + isolating self for self +
  fixes E :: vmEnv
  assumes env: "keptEnv E"
begin

lemma callee_kept: "keptRes w (runCallee E self cl c w)"
  by (rule runCallee_kept [OF env]) unfold_locales

lemma callee_kept_iso: "owns_from n c \<Longrightarrow> n \<le> w_next w \<Longrightarrow> isoRes n w (runCallee E self cl c w)"
  by (rule runCallee_keptEnv_iso [OF env]) unfold_locales

lemma prim_kept: "resolvePrimImplBare E name = Inr impl \<Longrightarrow> keptRes w (callPrim E self impl c args w)"
  by (rule resolved_kept [OF _ env]) unfold_locales

lemma prim_kept_iso:
  "resolvePrimImplBare E name = Inr impl \<Longrightarrow> owns_from n c \<Longrightarrow> n \<le> w_next w \<Longrightarrow> isoRes n w (callPrim E self impl c args w)"
  by (rule resolved_iso [OF _ env]) unfold_locales

lemma applier_kept:
  "keptRes w (applyForPrim E self f a c w)" "keptRes w (applyNForPrim E self f as c w)" "keptRes w (forceEffectfulForPrim E self v c w)"
proof -
  show one: "keptRes w (applyForPrim E self f a c w)" for f a
    by (auto simp: applyForPrim_def Let_def split: val.splits sum.splits intro!: keptRes_callR callee_kept prim_kept)
  show "keptRes w (applyNForPrim E self f as c w)"
    by (auto simp: applyNForPrim_def Let_def one split: val.splits sum.splits
        intro!: keptRes_callR callee_kept prim_kept applyN_kept)
  show "keptRes w (forceEffectfulForPrim E self v c w)"
    by (auto simp: forceEffectfulForPrim_def split: val.splits sum.splits bool.splits
        intro!: keptRes_callR callee_kept prim_kept budgetStep_kept)
qed

lemma applier_iso:
  assumes "owns_from n c" "n \<le> w_next w"
  shows "isoRes n w (applyForPrim E self f a c w)" "isoRes n w (applyNForPrim E self f as c w)" "isoRes n w (forceEffectfulForPrim E self v c w)"
proof -
  show one: "isoRes n w (applyForPrim E self f a c w)" for f a
    using assms by (auto simp: applyForPrim_def Let_def split: val.splits sum.splits intro!: isoRes_callR callee_kept_iso prim_kept_iso)
  show "isoRes n w (applyNForPrim E self f as c w)"
    using assms by (auto simp: applyNForPrim_def Let_def one split: val.splits sum.splits
        intro!: isoRes_callR callee_kept_iso prim_kept_iso applyN_iso)
  show "isoRes n w (forceEffectfulForPrim E self v c w)"
    using assms by (auto simp: forceEffectfulForPrim_def split: val.splits sum.splits bool.splits
        intro!: isoRes_callR callee_kept_iso prim_kept_iso budgetStep_iso)
qed

end

lemma vmApplier_kept: "keptEnv E \<Longrightarrow> kept_machine (vmApplier E fuel) E"
proof (induction fuel)
  case 0
  then show ?case by unfold_locales auto
next
  case (Suc fuel)
  then have ap: "kept_machine (vmApplier E fuel) E" by simp
  show ?case
    using Suc.prems kept_machine.applier_kept [OF ap] kept_machine.applier_iso [OF ap] by unfold_locales auto
qed

section \<open>The invariant of a nested run\<close>

text \<open>
  During a nested run the frames of the caller are below the barrier, the frames above it have their locals above the caller's, and every environment in them owns
  only maps from \<open>n\<close> on.
\<close>

record caller =
  cl_frames :: "frame list"
  cl_locals :: "val option list"
  cl_maps :: nat
  cl_world :: world

definition goodFrames :: "caller \<Rightarrow> frame list \<Rightarrow> bool" where
  "goodFrames K fs \<longleftrightarrow>
     (\<exists>top b. fs = top @ b # cl_frames K \<and> fr_barrier b \<and> fr_proto b = None \<and> owns_from (cl_maps K) (fr_cap b) \<and>
       (\<forall>f\<in>set top. length (cl_locals K) \<le> fr_bp f \<and> owns_from (cl_maps K) (fr_cap f)))"

definition goodLocals :: "caller \<Rightarrow> val option list \<Rightarrow> bool" where
  "goodLocals K l \<longleftrightarrow> length (cl_locals K) \<le> length l \<and> take (length (cl_locals K)) l = cl_locals K"

definition keptMaps :: "caller \<Rightarrow> world \<Rightarrow> bool" where
  "keptMaps K w \<longleftrightarrow> maps_kept (cl_maps K) (cl_world K) w \<and> cl_maps K \<le> w_next w"

definition nestedInv :: "caller \<Rightarrow> world \<Rightarrow> bool" where
  "nestedInv K w \<longleftrightarrow> goodFrames K (framesOf w) \<and> goodLocals K (localsOf w) \<and> keptMaps K w"

text \<open>The outcome of an operation: the invariant holds after a result or an error, and a result satisfies \<open>Q\<close>.\<close>

definition invR :: "caller \<Rightarrow> ('a \<Rightarrow> bool) \<Rightarrow> 'a vmres \<Rightarrow> bool" where
  "invR K Q r \<longleftrightarrow> keptMaps K (snd r) \<and>
     (case fst r of Ret a _ \<Rightarrow> nestedInv K (snd r) \<and> Q a | Err _ _ \<Rightarrow> nestedInv K (snd r) | _ \<Rightarrow> True)"

abbreviation live :: "world \<Rightarrow> bool" where "live w \<equiv> framesOf w \<noteq> [] \<and> \<not> fr_barrier (hd (framesOf w))"

lemma invR_simps [simp]:
  "invR K Q (Ret a u, w) \<longleftrightarrow> nestedInv K w \<and> Q a" "invR K Q (Err e u, w) \<longleftrightarrow> nestedInv K w"
  "invR K Q (Panic, w) \<longleftrightarrow> keptMaps K w" "invR K Q (Diverge, w) \<longleftrightarrow> keptMaps K w"
  by (auto simp: invR_def nestedInv_def)

lemma invR_callV:
  assumes "invR K P r" "\<And>a w. P a \<Longrightarrow> nestedInv K w \<Longrightarrow> invR K Q (k a w)"
  shows "invR K Q (callV r k)"
  using assms by (cases "(r, k)" rule: callV.cases) auto

lemma inv_maps: "nestedInv K w \<Longrightarrow> keptMaps K w"
  by (simp add: nestedInv_def)

lemma inv_budget [simp]: "nestedInv K (w\<lparr> w_budget := b \<rparr>) = nestedInv K w" "keptMaps K (w\<lparr> w_budget := b \<rparr>) = keptMaps K w"
  by (simp_all add: nestedInv_def keptMaps_def)

lemma maps_set [simp]:
  "keptMaps K (setStack s w) = keptMaps K w" "keptMaps K (setLocals l w) = keptMaps K w" "keptMaps K (setFrames fs w) = keptMaps K w"
  by (simp_all add: keptMaps_def maps_kept_def setStack_def setLocals_def setFrames_def)

lemma inv_stack [simp]: "nestedInv K (setStack s w) = nestedInv K w" "nestedInv K (pushV v w) = nestedInv K w"
  by (simp_all add: nestedInv_def pushV_def)

lemma invR_budgetOp:
  assumes "nestedInv K w" "\<And>w1. w_vm w1 = w_vm w \<Longrightarrow> nestedInv K w1 \<Longrightarrow> invR K Q (k w1)"
  shows "invR K Q (budgetOp f w k)"
  using assms by (auto simp: budgetOp_def inv_maps split: option.splits prod.splits)

lemma invR_popV:
  assumes "nestedInv K w" "\<And>v s. invR K Q (k v (setStack s w))"
  shows "invR K Q (popV w k)"
  using assms by (auto simp: popV_def inv_maps split: list.splits)

lemma invR_popN:
  assumes "nestedInv K w" "\<And>vs s. invR K Q (k vs (setStack s w))"
  shows "invR K Q (popN n w k)"
  using assms by (auto simp: popN_def inv_maps)

lemma invR_nthV: "nestedInv K w \<Longrightarrow> (\<And>x. invR K Q (k x)) \<Longrightarrow> invR K Q (nthV xs i w k)"
  by (simp add: nthV_def inv_maps)

lemma invR_atFrame:
  assumes "nestedInv K w" "\<And>f p fs. framesOf w = f # fs \<Longrightarrow> fr_proto f = Some p \<Longrightarrow> invR K Q (k f p)"
  shows "invR K Q (atFrame w k)"
  using assms by (auto simp: atFrame_def inv_maps split: list.splits option.splits)

lemma invR_runtimeError: "nestedInv K w \<Longrightarrow> invR K Q (runtimeError msg w)"
  unfolding runtimeError_def by (rule invR_atFrame) simp_all

lemma goodFrames_push: "goodFrames K fs \<Longrightarrow> length (cl_locals K) \<le> fr_bp f \<Longrightarrow> owns_from (cl_maps K) (fr_cap f) \<Longrightarrow> goodFrames K (f # fs)"
  unfolding goodFrames_def by (metis append_Cons set_ConsD)

lemma goodFrames_live:
  "goodFrames K (f # fs) \<Longrightarrow> \<not> fr_barrier f \<or> fr_proto f \<noteq> None \<Longrightarrow>
     length (cl_locals K) \<le> fr_bp f \<and> owns_from (cl_maps K) (fr_cap f) \<and> goodFrames K fs"
  unfolding goodFrames_def by (auto simp: Cons_eq_append_conv)

lemma goodFrames_cap: "goodFrames K (f # fs) \<Longrightarrow> owns_from (cl_maps K) c \<Longrightarrow> goodFrames K (f\<lparr> fr_cap := c \<rparr> # fs)"
  unfolding goodFrames_def by (auto simp: Cons_eq_append_conv)

lemma goodFrames_top: "goodFrames K fs \<Longrightarrow> fs \<noteq> [] \<and> owns_from (cl_maps K) (fr_cap (hd fs))"
  unfolding goodFrames_def by (auto simp: hd_append)

lemma topCap_owns: "nestedInv K w \<Longrightarrow> owns_from (cl_maps K) (topCap w)"
  using goodFrames_top [of K "framesOf w"] by (auto simp: nestedInv_def topCap_def split: list.splits)

lemma inv_live: "nestedInv K w \<Longrightarrow> framesOf w = f # fs \<Longrightarrow> \<not> fr_barrier f \<or> fr_proto f \<noteq> None \<Longrightarrow> length (cl_locals K) \<le> fr_bp f"
  using goodFrames_live [of K f fs] by (auto simp: nestedInv_def)

section \<open>State changes that keep the invariant\<close>

lemma inv_pushFrame:
  assumes "nestedInv K w" "length (cl_locals K) \<le> bp" "owns_from (cl_maps K) c" "goodLocals K l"
  shows "nestedInv K (pushFrame G p bp c (setLocals l w))"
  using assms by (auto simp: nestedInv_def pushFrame_def appendFrame_def setLocals_def keptMaps_def maps_kept_def Let_def intro: goodFrames_push)

lemma inv_setCap: "nestedInv K w \<Longrightarrow> owns_from (cl_maps K) c \<Longrightarrow> nestedInv K (updTop (\<lambda>f. f\<lparr> fr_cap := c \<rparr>) w)"
  by (auto simp: nestedInv_def updTop_def intro: goodFrames_cap split: list.splits)

lemma inv_setCap_ptr: "nestedInv K w \<Longrightarrow> owns_from (cl_maps K) c \<Longrightarrow> nestedInv K (setCap g c w)"
  by (simp add: setCap_def inv_setCap)

lemma inv_markCap: "nestedInv K w \<Longrightarrow> nestedInv K (updTop (\<lambda>f. f\<lparr> fr_cap := markShared (fr_cap f) \<rparr>) w)"
  by (auto simp: nestedInv_def updTop_def intro: goodFrames_cap split: list.splits)

lemma inv_restart:
  assumes "nestedInv K w" "framesOf w = f # fs" "\<not> fr_barrier f \<or> fr_proto f \<noteq> None" "goodLocals K l"
  shows "nestedInv K (restart p (setLocals l w))"
  using assms goodFrames_live [of K f fs] by (auto simp: nestedInv_def restart_def updTop_def intro: goodFrames_push)

lemma inv_jump:
  assumes "nestedInv K w" "framesOf w = f # fs" "\<not> fr_barrier f \<or> fr_proto f \<noteq> None"
  shows "nestedInv K (jumpTo ip w)"
  using assms goodFrames_live [of K f fs] by (auto simp: nestedInv_def jumpTo_def updTop_def intro: goodFrames_push)

lemma inv_pop:
  assumes "nestedInv K w" "framesOf w = f # fs" "\<not> fr_barrier f \<or> fr_proto f \<noteq> None"
  shows "nestedInv K (popFrame (setLocals (take (fr_bp f) (localsOf w)) (leaveV w)))"
  using assms goodFrames_live [of K f fs]
  by (auto simp: nestedInv_def popFrame_def leaveV_def setLocals_def setFrames_def goodLocals_def keptMaps_def maps_kept_def min_def)

lemma good_ensure: "goodLocals K l \<Longrightarrow> goodLocals K (ensureLocals n l)"
  by (simp add: goodLocals_def ensureLocals_def)

lemma good_copyAt: "goodLocals K l \<Longrightarrow> length (cl_locals K) \<le> i \<Longrightarrow> goodLocals K (copyAt i xs l)"
  by (auto simp: goodLocals_def copyAt_def min_def)

lemma good_clear: "goodLocals K l \<Longrightarrow> length (cl_locals K) \<le> i \<Longrightarrow> goodLocals K (clearRange i j l)"
  by (auto simp: goodLocals_def clearRange_def min_def)

lemma good_take: "goodLocals K l \<Longrightarrow> length (cl_locals K) \<le> i \<Longrightarrow> goodLocals K (take i l)"
  by (auto simp: goodLocals_def min_def)

lemma good_update: "goodLocals K l \<Longrightarrow> length (cl_locals K) \<le> i \<Longrightarrow> goodLocals K (l[i := x])"
  by (auto simp: goodLocals_def)

lemmas good_locals = good_ensure good_copyAt good_clear good_take good_update

lemma inv_setLocal: "nestedInv K w \<Longrightarrow> length (cl_locals K) \<le> bp \<Longrightarrow> nestedInv K (setLocal bp slot v w)"
  by (simp add: setLocal_def nestedInv_def good_locals)

lemma inv_setSlots: "nestedInv K w \<Longrightarrow> length (cl_locals K) \<le> bp \<Longrightarrow> nestedInv K (setSlots bp sl vs w)"
  unfolding setSlots_def by (induction sl vs arbitrary: w rule: list_induct2') (auto simp: inv_setLocal)

section \<open>Operations of the machine\<close>

lemma inv_enter:
  assumes "nestedInv K w"
  shows "invR K (\<lambda>_. True) (callClosure G p captured arg w)" "invR K (\<lambda>_. True) (callClosureMulti G p captured args w)"
    "invR K (\<lambda>_. True) (callThunk G p captured w)" "invR K (\<lambda>_. True) (recurseSelf G p bp m w)"
proof -
  have good: "length (cl_locals K) \<le> length (localsOf w1)" "goodLocals K (localsOf w1)" if "nestedInv K w1" for w1
    using that by (simp_all add: nestedInv_def goodLocals_def)
  show "invR K (\<lambda>_. True) (callClosure G p captured arg w)"
    unfolding callClosure_def Let_def storeParam_def using assms good
    by (intro invR_budgetOp) (auto split: option.splits if_splits simp: topCap_owns inv_maps intro!: inv_pushFrame good_locals trans_le_add1)
  show "invR K (\<lambda>_. True) (callClosureMulti G p captured args w)"
    unfolding callClosureMulti_def Let_def using assms good
    by (intro invR_budgetOp) (auto simp: topCap_owns inv_maps intro!: inv_pushFrame good_locals trans_le_add1)
  show "invR K (\<lambda>_. True) (callThunk G p captured w)"
    unfolding callThunk_def Let_def using assms good
    by (intro invR_budgetOp) (auto simp: topCap_owns intro!: inv_pushFrame good_locals)
  show "invR K (\<lambda>_. True) (recurseSelf G p bp m w)"
    unfolding recurseSelf_def Let_def using assms good
    by (intro invR_budgetOp) (auto simp: topCap_owns inv_maps intro!: inv_pushFrame good_locals trans_le_add1)
qed

lemma inv_tail:
  assumes "nestedInv K w" "live w"
  shows "invR K (\<lambda>_. True) (tailCallClosure p captured arg w)" "invR K (\<lambda>_. True) (tailCallClosureMulti p captured args w)"
    "invR K (\<lambda>_. True) (tailCallThunk p captured w)" "length (cl_locals K) \<le> bp \<Longrightarrow> invR K (\<lambda>_. True) (tailRecurseSelf p bp m w)"
proof -
  obtain f fs where f: "framesOf w = f # fs" "\<not> fr_barrier f" using assms(2) by (cases "framesOf w") auto
  have bp: "length (cl_locals K) \<le> fr_bp f" and good: "goodLocals K (localsOf w)"
    using inv_live [OF assms(1) f(1)] f(2) assms(1) by (simp_all add: nestedInv_def)
  show "invR K (\<lambda>_. True) (tailCallClosure p captured arg w)"
    unfolding tailCallClosure_def Let_def storeParam_def tailLocals_def using assms f bp good
    by (intro invR_atFrame) (auto split: option.splits if_splits simp: inv_maps intro!: inv_restart good_locals trans_le_add1)
  show "invR K (\<lambda>_. True) (tailCallClosureMulti p captured args w)"
    unfolding tailCallClosureMulti_def Let_def tailLocals_def using assms f bp good
    by (intro invR_atFrame) (auto simp: inv_maps intro!: inv_restart good_locals trans_le_add1)
  show "invR K (\<lambda>_. True) (tailCallThunk p captured w)"
    unfolding tailCallThunk_def Let_def using assms f bp good by (auto intro!: inv_restart good_locals trans_le_add1)
  show "invR K (\<lambda>_. True) (tailRecurseSelf p bp m w)" if "length (cl_locals K) \<le> bp"
  proof -
    have "nestedInv K (setLocals l w)" if "goodLocals K l" for l
      using assms(1) that by (simp add: nestedInv_def)
    note set = this [OF good_copyAt, OF good_clear]
    show ?thesis
      using assms f that good
      by (auto simp: tailRecurseSelf_def Let_def inv_maps intro!: inv_jump [of _ _ f fs] set trans_le_add1)
  qed
qed

text \<open>A run that is done returns an environment that owns no map of the caller.\<close>

fun doneOwns :: "caller \<Rightarrow> signal \<Rightarrow> bool" where
  "doneOwns K Next \<longleftrightarrow> True"
| "doneOwns K (Done v c) \<longleftrightarrow> owns_from (cl_maps K) c"

lemma inv_pushNext: "nestedInv K w \<Longrightarrow> invR K (doneOwns K) (pushNext v w)"
  by (simp add: pushNext_def)

lemma inv_thenNext: "invR K (\<lambda>_. True) r \<Longrightarrow> invR K (doneOwns K) (thenNext r)"
  unfolding thenNext_def by (erule invR_callV) simp

locale nested_run = kept_machine self E for self E +
  fixes G :: vmCfg and K :: caller
begin

lemma inv_kept:
  assumes "nestedInv K w" "keptRes w p" "isoRes (cl_maps K) w p"
    and "\<And>v c w'. nestedInv K w' \<Longrightarrow> framesOf w' = framesOf w \<Longrightarrow> owns_from (cl_maps K) c \<Longrightarrow> invR K Q (k v c w')"
  shows "invR K Q (callG p k)"
proof -
  obtain r w' where p: "p = (r, w')" by fastforce
  have maps: "keptMaps K w'"
    using assms(1,3) maps_kept_trans by (auto simp: nestedInv_def keptMaps_def isoRes_def p maps_kept_def)
  have "nestedInv K w'" if "framesOf w' = framesOf w" "localsOf w' = localsOf w"
    using assms(1) that maps by (simp add: nestedInv_def)
  then show ?thesis using assms(2-4) maps p by (cases r) auto
qed

lemma inv_callee:
  assumes "nestedInv K w" "owns_from (cl_maps K) c"
    and "\<And>v c w'. nestedInv K w' \<Longrightarrow> framesOf w' = framesOf w \<Longrightarrow> owns_from (cl_maps K) c \<Longrightarrow> invR K Q (k v c w')"
  shows "invR K Q (callG (runCallee E self cl c w) k)"
proof (rule inv_kept [OF assms(1) callee_kept callee_kept_iso])
  show "cl_maps K \<le> w_next w" using assms(1) by (simp add: nestedInv_def keptMaps_def)
qed (use assms(2,3) in auto)

lemma inv_prim:
  assumes "nestedInv K w" "owns_from (cl_maps K) c" "lookupPrim name (vm_prims E) = Some impl"
    and "\<And>v c w'. nestedInv K w' \<Longrightarrow> framesOf w' = framesOf w \<Longrightarrow> owns_from (cl_maps K) c \<Longrightarrow> invR K Q (k v c w')"
  shows "invR K Q (callG (callPrim E self impl c args w) k)"
proof -
  have r: "resolvePrimImplBare E name = Inr impl" using assms(3) by (simp add: resolvePrimImplBare_def)
  show ?thesis
  proof (rule inv_kept [OF assms(1) prim_kept [OF r] prim_kept_iso [OF r]])
    show "cl_maps K \<le> w_next w" using assms(1) by (simp add: nestedInv_def keptMaps_def)
  qed (use assms(2,4) in auto)
qed

lemma inv_resolve:
  assumes "nestedInv K w" "\<And>impl. lookupPrim name (vm_prims E) = Some impl \<Longrightarrow> invR K Q (k impl)"
  shows "invR K Q (resolvePrimImplFrame E name w k)"
  using assms by (auto simp: resolvePrimImplFrame_def invR_runtimeError split: option.splits)

lemma inv_primValue: "nestedInv K w \<Longrightarrow> invR K (\<lambda>_. True) (primValue E self name args w)"
  unfolding primValue_def by (intro inv_resolve inv_prim topCap_owns) (auto intro: inv_setCap_ptr)

lemma inv_applyPrim: "nestedInv K w \<Longrightarrow> invR K (\<lambda>_. True) (applyPrim E self name arity eff pargs arg w)"
  unfolding applyPrim_def Let_def by (auto intro!: invR_callV [OF inv_primValue])

lemma inv_force: "nestedInv K w \<Longrightarrow> tail \<longrightarrow> live w \<Longrightarrow> invR K (\<lambda>_. True) (force G E v tail w)"
  unfolding force_def by (auto simp: inv_tail inv_enter invR_runtimeError split: val.splits)

lemma inv_applySingle: "nestedInv K w \<Longrightarrow> tail \<longrightarrow> live w \<Longrightarrow> invR K (\<lambda>_. True) (applySingle G p captured arg tail w)"
  unfolding applySingle_def by (auto simp: inv_tail inv_enter)

lemma inv_enterMulti: "nestedInv K w \<Longrightarrow> tail \<longrightarrow> live w \<Longrightarrow> invR K (\<lambda>_. True) (enterClosureMulti G p captured args tail w)"
  unfolding enterClosureMulti_def by (auto simp: inv_tail inv_enter inv_maps)

lemma inv_notFunction: "nestedInv K w \<Longrightarrow> invR K Q (notFunction E fn w)"
  unfolding notFunction_def by (rule invR_runtimeError)

lemma inv_applyV: "nestedInv K w \<Longrightarrow> tail \<longrightarrow> live w \<Longrightarrow> invR K (\<lambda>_. True) (applyV G E self fn arg tail w)"
  unfolding applyV_def Let_def
  by (auto split: val.splits intro!: invR_budgetOp inv_applySingle inv_enterMulti inv_applyPrim inv_force inv_notFunction)

lemma inv_applyExtras:
  "nestedInv K w \<Longrightarrow> owns_from (cl_maps K) c \<Longrightarrow>
     (\<And>v c w'. nestedInv K w' \<Longrightarrow> framesOf w' = framesOf w \<Longrightarrow> owns_from (cl_maps K) c \<Longrightarrow> invR K Q (k v c w')) \<Longrightarrow>
     invR K Q (callG (applyExtras E self cur extras c w) k)"
proof (induction extras arbitrary: cur c w)
  case (Cons extra extras)
  have "callG (applyExtras E self cur (extra # extras) c w) k =
      callG (runCallee E self (CallApply cur extra) c w) (\<lambda>next c w'. callG (applyExtras E self next extras c w') k)"
    by (cases "runCallee E self (CallApply cur extra) c w") (simp, rename_tac r w', case_tac r; simp)
  also have "invR K Q \<dots>"
    using Cons.prems by (intro inv_callee Cons.IH) auto
  finally show ?case .
qed simp

lemma inv_withExtras: "nestedInv K w \<Longrightarrow> owns_from (cl_maps K) c \<Longrightarrow> invR K (\<lambda>_. True) (withExtras E self cur extras c w)"
  unfolding withExtras_def by (intro inv_applyExtras) (auto intro: inv_setCap)

lemma inv_applyN: "nestedInv K w \<Longrightarrow> tail \<longrightarrow> live w \<Longrightarrow> invR K (\<lambda>_. True) (applyN G E self m fn args tail w)"
proof (induction m arbitrary: fn args w)
  case 0
  then show ?case
    unfolding applyN.simps [of _ _ _ 0] Let_def entered_def produced_def
    by (cases fn) (auto intro!: invR_budgetOp inv_applySingle inv_enterMulti inv_notFunction inv_callee topCap_owns inv_withExtras inv_resolve inv_prim
        invR_callV [OF inv_applySingle] invR_callV [OF inv_enterMulti] invR_callV [OF inv_primValue] simp: inv_maps)
next
  case (Suc m)
  then show ?case
    unfolding applyN.simps [of _ _ _ "Suc m"] Let_def entered_def produced_def
    by (cases fn) (auto intro!: invR_budgetOp inv_applySingle inv_enterMulti inv_notFunction inv_callee topCap_owns inv_withExtras inv_resolve inv_prim
        invR_callV [OF inv_applySingle] invR_callV [OF inv_enterMulti] invR_callV [OF inv_primValue] Suc.IH simp: inv_maps)
qed

lemma inv_dispatch: "nestedInv K w \<Longrightarrow> tail \<longrightarrow> live w \<Longrightarrow> invR K (\<lambda>_. True) (dispatchApplyN G E self m argc tail w)"
  unfolding dispatchApplyN_def Let_def
  by (auto simp: inv_maps intro!: invR_callV [OF inv_applyN] split: option.splits)

lemma inv_forceEffectful:
  assumes "nestedInv K w" "owns_from (cl_maps K) c"
    and "\<And>v c w'. nestedInv K w' \<Longrightarrow> framesOf w' = framesOf w \<Longrightarrow> owns_from (cl_maps K) c \<Longrightarrow> invR K Q (k v c w')"
  shows "invR K Q (forceEffectful E self v c w k)"
  unfolding forceEffectful_def
  using assms by (auto split: val.splits intro!: invR_budgetOp inv_callee inv_resolve inv_prim)

lemma inv_loadNil: "nestedInv K w \<Longrightarrow> invR K (doneOwns K) (loadNil G v w)"
  unfolding loadNil_def loadV_def by (auto simp: inv_maps intro!: inv_pushNext invR_runtimeError split: option.splits val.splits)

lemma live_proto: "framesOf w = f # fs \<Longrightarrow> \<not> fr_barrier f \<Longrightarrow> live w"
  by simp

lemma inv_execVar:
  assumes "nestedInv K w" "live w" "length (cl_locals K) \<le> bp"
  shows "invR K (doneOwns K) (execVar G p bp i w)"
  unfolding execVar_def Let_def using assms
  by (auto split: opcode.splits val.splits host.splits simp: inv_maps
      intro!: invR_budgetOp inv_loadNil invR_nthV invR_popV invR_atFrame inv_pushNext inv_setLocal inv_jump)

lemma inv_execCall:
  assumes "nestedInv K w" "live w" "length (cl_locals K) \<le> bp"
  shows "invR K (doneOwns K) (execCall G E self m p bp i w)"
  unfolding execCall_def using assms
  by (auto split: opcode.splits option.splits simp: inv_maps
      intro!: invR_budgetOp invR_nthV invR_popV inv_pushNext inv_thenNext inv_applyV inv_dispatch inv_enter inv_tail)

lemma inv_execReturn:
  assumes "nestedInv K w" "framesOf w = f # fs" "\<not> fr_barrier f" "fr_bp f = bp" "owns_from (cl_maps K) c"
  shows "invR K (doneOwns K) (execReturn bp c w)"
proof -
  have pop: "nestedInv K (popFrame (setLocals (take bp (localsOf w)) (leaveV (setStack s w))))" for s
    using inv_pop [of K "setStack s w" f fs] assms by simp
  then have ret: "nestedInv K (returnTo bp c v (setStack s w))" for v s
    using assms(5) by (simp add: returnTo_def inv_setCap)
  show ?thesis
    unfolding execReturn_def using assms pop ret
    by (auto split: val.splits bool.splits intro!: invR_popV invR_budgetOp inv_thenNext inv_tail)
qed

lemma inv_endOfCode:
  assumes "nestedInv K w" "framesOf w = f # fs" "\<not> fr_barrier f" "fr_bp f = bp" "owns_from (cl_maps K) c"
  shows "invR K (doneOwns K) (endOfCode bp c w)"
proof -
  have "nestedInv K (popFrame (setLocals (take bp (localsOf w)) (leaveV (setStack s w))))" for s
    using inv_pop [of K "setStack s w" f fs] assms by simp
  then have "nestedInv K (returnTo bp c v (setStack s w))" for v s
    using assms(5) by (simp add: returnTo_def inv_setCap)
  then show ?thesis using assms by (simp add: endOfCode_def Let_def split: list.splits)
qed

lemma inv_cap:
  assumes "nestedInv K w" "w_vm w' = w_vm w" "maps_kept (cl_maps K) w w'"
  shows "nestedInv K w'"
  using assms maps_kept_trans by (auto simp: nestedInv_def keptMaps_def maps_kept_def)

text \<open>Filtered and merged environments are fresh.\<close>

lemma fresh_cap:
  assumes "nestedInv K w"
  shows "nestedInv K (snd (capFilter ls c w))" "owns_from (cl_maps K) (fst (capFilter ls c w))"
    "nestedInv K (snd (capMergeWith c c' w))" "owns_from (cl_maps K) (fst (capMergeWith c c' w))"
proof -
  have n: "cl_maps K \<le> w_next w" using assms by (simp add: nestedInv_def keptMaps_def)
  show "nestedInv K (snd (capFilter ls c w))"
    using n by (intro inv_cap [OF assms]) (auto simp: cap_defs maps_kept_def split: option.splits)
  show "nestedInv K (snd (capMergeWith c c' w))"
    using n by (intro inv_cap [OF assms]) (auto simp: cap_defs maps_kept_def)
  show "owns_from (cl_maps K) (fst (capFilter ls c w))" "owns_from (cl_maps K) (fst (capMergeWith c c' w))"
    using n by (auto simp: cap_defs owns_from_def split: option.splits)
qed

lemma inv_mergeChild:
  assumes "nestedInv K w" "owns_from (cl_maps K) c"
    and "\<And>v c w'. nestedInv K w' \<Longrightarrow> owns_from (cl_maps K) c \<Longrightarrow> invR K Q (k v c w')"
  shows "invR K Q (callG (forceMergeChild E self v c w) k)"
proof (cases "\<exists>captured q a. v = VMThunkVal captured q a")
  case True
  then obtain captured q a where v: "v = VMThunkVal captured q a" by blast
  have ret: "callG (callR r (\<lambda>_. c) (\<lambda>v c w'. (Ret v c, w'))) k = callG r k" for r
    by (cases r, rename_tac x w', case_tac x) simp_all
  have "invR K Q (callG (runCallee E self (CallThunk q captured) c (w\<lparr> w_budget := b \<rparr>)) k)" for b
    using assms by (intro inv_callee) auto
  then show ?thesis
    using assms(1) by (auto simp: v forceMergeChild_def budgetStep_def ret inv_maps split: option.splits prod.splits)
next
  case False
  then have "forceMergeChild E self v c w = (Ret v c, w)" by (cases v) (auto simp: forceMergeChild_def)
  then show ?thesis using assms by simp
qed

lemma inv_execMerge: "nestedInv K w \<Longrightarrow> invR K (doneOwns K) (execMerge E self desc leftVal rightVal w)"
  unfolding execMerge_def Let_def case_prod_unfold
  by (auto simp: topCap_owns fresh_cap intro!: inv_mergeChild inv_pushNext inv_setCap_ptr)

lemma inv_execComp:
  assumes "nestedInv K w" "live w" "length (cl_locals K) \<le> bp"
  shows "invR K (doneOwns K) (execComp G E self p bp i w)"
  unfolding execComp_def using assms
  by (auto split: opcode.splits option.splits simp: inv_maps topCap_owns
      intro!: invR_budgetOp invR_nthV invR_popV inv_pushNext inv_thenNext inv_force inv_forceEffectful inv_setCap_ptr inv_markCap inv_setLocal
        inv_execMerge)

lemma inv_execData: "nestedInv K w \<Longrightarrow> invR K (doneOwns K) (execData E p i w)"
  unfolding execData_def Let_def
  by (auto split: opcode.splits option.splits val.splits simp: inv_maps
      intro!: invR_budgetOp invR_nthV invR_popV invR_popN inv_pushNext invR_runtimeError)

lemma inv_execMatch:
  assumes "nestedInv K w" "live w" "length (cl_locals K) \<le> bp"
  shows "invR K (doneOwns K) (execMatch G p bp i w)"
proof -
  have failed: "nestedInv K (jumpTo ip w1)" if "nestedInv K w1" "framesOf w1 = framesOf w" for ip w1
    using inv_jump [OF that(1)] that(2) assms(2) by (cases "framesOf w") auto
  show ?thesis
    unfolding execMatch_def Let_def using assms
    by (auto split: opcode.splits option.splits val.splits host.splits list.splits simp: inv_maps
        intro!: invR_budgetOp invR_nthV invR_popV inv_pushNext invR_runtimeError inv_setSlots failed)
qed

lemma inv_execPrim:
  assumes "nestedInv K w"
  shows "invR K (doneOwns K) (execPrim E self p bp i w)"
  unfolding execPrim_def Let_def fixCaptured_def using assms
  by (auto split: opcode.splits option.splits simp: inv_maps topCap_owns
      intro!: invR_budgetOp invR_nthV invR_popN inv_pushNext inv_resolve inv_prim inv_setCap_ptr)

lemma inv_stepVM:
  assumes "nestedInv K w"
  shows "invR K (doneOwns K) (stepVM G E self m w)"
proof (cases "framesOf w")
  case Nil
  then show ?thesis using assms by (simp add: stepVM_def inv_maps)
next
  case (Cons f fs)
  show ?thesis
  proof (cases "fr_barrier f")
    case False
    have bp: "length (cl_locals K) \<le> fr_bp f" and owns: "owns_from (cl_maps K) (fr_cap f)"
      using goodFrames_live [of K f fs] assms Cons False by (simp_all add: nestedInv_def)
    have jump: "nestedInv K (jumpTo ip w)" "framesOf (jumpTo ip w) = f\<lparr> fr_ip := ip \<rparr> # fs" for ip
      using inv_jump [OF assms Cons] Cons False by (simp_all add: jumpTo_def updTop_def)
    have instr: "invR K (doneOwns K) (execInstr G E self m p (fr_bp f) (fr_cap f) i (jumpTo ip w))" for p i ip
      unfolding execInstr_def Let_def using jump [of ip] False bp owns
      by (auto intro!: inv_execVar inv_execCall inv_execReturn inv_execComp inv_execData inv_execMatch inv_execPrim)
    show ?thesis
      unfolding stepVM_def using assms Cons False owns instr
      by (auto intro!: invR_atFrame inv_endOfCode invR_runtimeError simp: inv_maps split: fetched.splits)
  qed (use Cons assms in \<open>simp add: stepVM_def\<close>)
qed

lemma inv_execute: "nestedInv K w \<Longrightarrow> invR K (\<lambda>(v, c). owns_from (cl_maps K) c) (execute G E self m w)"
proof (induction m arbitrary: w)
  case (Suc m)
  show ?case
    unfolding execute.simps
    by (rule invR_callV [OF inv_stepVM [OF Suc.prems]]) (auto split: signal.splits intro: Suc.IH)
qed (simp add: inv_maps)

lemma inv_setup: "nestedInv K w \<Longrightarrow> invR K (\<lambda>_. True) (setupCallee G E self cl w)"
  by (cases cl) (auto intro!: inv_enter inv_applyV inv_force)

end

section \<open>Nested runs\<close>

lemma goodFrames_bottom: "goodFrames K fs \<Longrightarrow> keepBottom (length (cl_frames K)) fs = cl_frames K"
  by (auto simp: goodFrames_def keepBottom_def)

lemma execCallee_kept:
  assumes "kept_machine self E" "n \<le> w_next w" "owns_from n ce"
  shows "keptRes w (execCallee G E m self cl ce w) \<and> isoRes n w (execCallee G E m self cl ce w)"
proof -
  define K where "K = \<lparr> cl_frames = framesOf w, cl_locals = localsOf w, cl_maps = n, cl_world = w \<rparr>"
  have run: "nested_run self E" using assms(1) by (simp add: nested_run_def)
  define cut where "cut = (\<lambda>w'. setFrames (keepBottom (length (framesOf w)) (framesOf w')) (setLocals (take (length (localsOf w)) (localsOf w')) w'))"
  define w1 where "w1 = appendFrame G \<lparr> fr_proto = None, fr_ip = 0, fr_bp = length (localsOf w), fr_cap = ce, fr_barrier = True \<rparr> w"
  define result where "result = callV (setupCallee G E self cl w1) (\<lambda>_ w2.
      if length (framesOf w2) > length (framesOf w) + 1 then execute G E self m w2
      else if length (stackOf w2) > length (stackOf w) then popV w2 (\<lambda>v w3. ok (v, topCap w3) w3)
      else (Err (RuntimeError ''runCallee: setup pushed neither frame nor value'' None []) (), w2))"
  have "nestedInv K w1"
    using assms(2,3)
    by (auto simp: K_def w1_def nestedInv_def goodFrames_def goodLocals_def keptMaps_def maps_kept_def appendFrame_def Let_def)
  then have "invR K (\<lambda>_. True) (setupCallee G E self cl w1)" by (rule nested_run.inv_setup [OF run])
  then have res: "invR K (\<lambda>(v, c). owns_from (cl_maps K) c) result"
    unfolding result_def
    by (rule invR_callV) (auto intro!: nested_run.inv_execute [OF run] invR_popV simp: topCap_owns)
  have kept: "framesOf (cut w') = framesOf w" "localsOf (cut w') = localsOf w" if "nestedInv K w'" for w'
    using that goodFrames_bottom [of K "framesOf w'"] by (simp_all add: cut_def nestedInv_def goodLocals_def K_def)
  have maps: "maps_kept n w (cut w')" "maps_kept n w w'" if "keptMaps K w'" for w'
    using that by (simp_all add: cut_def keptMaps_def K_def maps_kept_def setFrames_def setLocals_def)
  have eq: "execCallee G E m self cl ce w =
      (case result of (Ret (v, c) _, w') \<Rightarrow> (Ret v c, cut w') | (Err e _, w') \<Rightarrow> (Err e ce, cut w') | (Panic, w') \<Rightarrow> (Panic, w') | (Diverge, w') \<Rightarrow> (Diverge, w'))"
    unfolding execCallee_def result_def w1_def cut_def Let_def by (simp split: res.split prod.split)
  show ?thesis
    unfolding eq using res assms(3) kept maps inv_maps [of K]
    by (cases result, rename_tac x w', case_tac x) (auto simp: K_def)
qed

definition keptPrims :: "vmEnv \<Rightarrow> bool" where
  "keptPrims E \<longleftrightarrow> (\<forall>name impl. lookupPrim name (vm_prims E) = Some impl \<longrightarrow> keptImpl impl \<and> isoImpl impl)"

lemma kept_machineI: "keptEnv E \<Longrightarrow> framed ap \<Longrightarrow> isolating ap \<Longrightarrow> kept_machine ap E"
  by (simp add: kept_machine_def kept_machine_axioms_def)

lemma owns_next: "owns_from 0 c"
  by (simp add: owns_from_def split: option.splits)

lemma machineEnv_kept: "keptPrims E \<Longrightarrow> keptEnv (machineEnv G E n)"
proof (induction n)
  case (Suc n)
  then have env: "keptEnv (machineEnv G E n)" by simp
  have "keptRes w (execCallee G (machineEnv G E n) n ap cl c w)" if "framed ap" "isolating ap" for ap cl c w
    using execCallee_kept [OF kept_machineI [OF env that], of 0 w c] owns_next by simp
  moreover have "isoRes k w (execCallee G (machineEnv G E n) n ap cl c w)"
    if "framed ap" "isolating ap" "owns_from k c" "k \<le> w_next w" for ap cl c w k
    using execCallee_kept [OF kept_machineI [OF env that(1,2)] that(4,3)] by simp
  ultimately show ?case using Suc.prems by (simp add: keptEnv_def keptPrims_def)
qed (simp add: keptEnv_def keptPrims_def)

lemma machineApplier_kept: "keptPrims E \<Longrightarrow> kept_machine (machineApplier G E n) (machineEnv G E n)"
  unfolding machineApplier_def by (rule vmApplier_kept [OF machineEnv_kept])

lemma effEnv_kept: "keptPrims (effEnv pretty)"
  unfolding keptPrims_def lookupPrim_def
  using effEnv_prims [of pretty] state_prims_iso fail_prims_iso effect_prims_kept by fastforce

interpretation bytecode: kept_machine "machineApplier G (effEnv pretty) n" "machineEnv G (effEnv pretty) n" for G pretty n
  by (rule machineApplier_kept [OF effEnv_kept])

interpretation nested: nested_run "machineApplier G (effEnv pretty) n" "machineEnv G (effEnv pretty) n" G K for G pretty n K
  by unfold_locales

section \<open>Properties\<close>

text \<open>
  C5: A nested run of the machine leaves its caller as it was. When \<^verbatim>\<open>runCallee\<close> returns, with a value or with an error, after the bytecode, the primitives and the
  callbacks it ran, the frames and the locals of the machine are those of the call; and if it was given a shared environment, every environment that was valid before
  denotes what it did. The primitives have to keep frames and maps when the applier they are given does, which those of the state and failure effects do.
\<close>

theorem nested_run_isolated:
  assumes "keptPrims E" "runCallee (machineEnv G E n) (machineApplier G E m) cl ce w = (r, w')" "r = Ret v c \<or> r = Err e c"
  shows "framesOf w' = framesOf w \<and> localsOf w' = localsOf w \<and> (\<forall>d. shared ce \<and> valid d w \<longrightarrow> view d w' = view d w)"
proof (intro conjI allI impI)
  have ap: "framed (machineApplier G E m)" "isolating (machineApplier G E m)"
    using machineApplier_kept [OF assms(1), of G m] by (simp_all add: kept_machine_def)
  note run = kept_machineI [OF machineEnv_kept [OF assms(1)] ap, of G n]
  show "framesOf w' = framesOf w" "localsOf w' = localsOf w"
    using kept_machine.callee_kept [OF run, of w cl ce] assms(2,3) by auto
  fix d assume d: "shared ce \<and> valid d w"
  then have "owns_from (w_next w) ce" by (simp add: owns_from_def split: option.splits)
  from kept_machine.callee_kept_iso [OF run this order_refl, of cl] have "maps_kept (w_next w) w w'"
    using assms(2,3) by auto
  then show "view d w' = view d w"
    using d by (cases "caps d") (auto simp: view_def capGet_def valid_def maps_kept_def)
qed

text \<open>The identity function, called from the frame of another.\<close>

definition idProto :: proto where
  "idProto = Proto (encodeI (Instr OpLoadLocal 0 0 0) @ encodeI (Instr OpReturn 0 0 0)) [] [] [] 1 [] False [''x''] (- 1) [] [] [] [] None []"

lemma nested_id:
  "fst (runCallee (machineEnv demoCfg (effEnv (\<lambda>_. [])) 4) (machineApplier demoCfg (effEnv (\<lambda>_. [])) 1)
     (CallClosure idProto [] (intVal 7)) emptyCapEnv loopWorld) = Ret (intVal 7) emptyCapEnv"
  by code_simp

theorem nested_run_isolated_witness:
  "\<exists>w'. runCallee (machineEnv demoCfg (effEnv (\<lambda>_. [])) 4) (machineApplier demoCfg (effEnv (\<lambda>_. [])) 1)
      (CallClosure idProto [] (intVal 7)) emptyCapEnv loopWorld = (Ret (intVal 7) emptyCapEnv, w') \<and>
     framesOf w' = framesOf loopWorld \<and> localsOf w' = localsOf loopWorld"
proof -
  let ?run = "runCallee (machineEnv demoCfg (effEnv (\<lambda>_. [])) 4) (machineApplier demoCfg (effEnv (\<lambda>_. [])) 1)
      (CallClosure idProto [] (intVal 7)) emptyCapEnv loopWorld"
  have r: "?run = (Ret (intVal 7) emptyCapEnv, snd ?run)"
    using nested_id by (metis prod.collapse)
  from nested_run_isolated [OF effEnv_kept r] show ?thesis using r by blast
qed

end
