(* ===== verification/Vm_Faults.thy ===== *)
theory Vm_Faults
  imports Vm_Nested
begin

text \<open>
  Where the machine loses updates of the capability environment, and where it panics. Each theorem runs a small program to the point of interest.
\<close>

section \<open>A pointer into frames that have moved\<close>

text \<open>A recursive computation that sets the state to five and returns the unit value of the primitive.\<close>

definition putProto :: proto where
  "putProto = Proto (encodeI (Instr OpConst 0 0 0) @ encodeI (Instr OpEffectPrim 0 0 1) @ encodeI (Instr OpForceEffectful 0 0 0) @ encodeI (Instr OpReturn 0 0 0))
     [intVal 5] [''put''] [] 1 [] True [] 0 [] [] [] [] None []"

definition idleFrame :: frame where
  "idleFrame = \<lparr> fr_proto = Some idProto, fr_ip = 0, fr_bp = 0, fr_cap = emptyCapEnv, fr_barrier = False \<rparr>"

text \<open>A machine of \<open>k\<close> frames that is about to bind the result of a computation.\<close>

definition deepWorld :: "nat \<Rightarrow> val \<Rightarrow> world" where
  "deepWorld k v = world0\<lparr> w_budget := Some (newBudget None 0 0), w_vm := newVM\<lparr> m_stack := [v], m_frames := replicate k idleFrame \<rparr> \<rparr>"

definition stateAfter :: "signal vmres \<Rightarrow> capAny option" where
  "stateAfter r = (case r of (Ret _ _, w') \<Rightarrow> capGet capState (topCap w') w' | _ \<Rightarrow> None)"

definition bindAt :: "nat \<Rightarrow> signal vmres" where
  "bindAt k = execComp demoCfg (machineEnv demoCfg (effEnv (\<lambda>_. [])) 8) (machineApplier demoCfg (effEnv (\<lambda>_. [])) 2) idProto 0 (Instr OpBind 0 0 0)
     (deepWorld k (VMThunkVal [] putProto True))"

text \<open>
  Binding a computation that sets the state leaves the new state in the frame when the frames have room for the nested run, and loses it when they do not: the slice of
  frames has room for 64, and \<^verbatim>\<open>OpBind\<close> writes through the pointer it took before the slice grew.
\<close>

theorem bind_update_lost: "stateAfter (bindAt 1) = Some (CapVal (intVal 5)) \<and> stateAfter (bindAt 64) = None"
proof
  show "stateAfter (bindAt 1) = Some (CapVal (intVal 5))" by code_simp
  show "stateAfter (bindAt 64) = None" by code_simp
qed

section \<open>Forcing a thunk in function position\<close>

text \<open>A computation that sets the state to five and returns a constructor.\<close>

definition putConProto :: proto where
  "putConProto = Proto (encodeI (Instr OpConst 0 0 0) @ encodeI (Instr OpEffectPrim 0 0 1) @ encodeI (Instr OpForceEffectful 0 0 0) @ encodeI (Instr OpPop 0 0 0) @
       encodeI (Instr OpCon 1 0 0) @ encodeI (Instr OpReturn 0 0 0))
     [intVal 5] [''put'', ''K''] [] 0 [] True [] (- 1) [] [] [] [] None []"

text \<open>
  Applying a thunk to several arguments forces it and applies its result. The call from host code returns the environment the thunk has left; the call of the machine
  gives the same value and drops the environment.
\<close>

theorem thunk_call_drops_environment:
  "(case applyNForPrim (machineEnv demoCfg (effEnv (\<lambda>_. [])) 10) (machineApplier demoCfg (effEnv (\<lambda>_. [])) 2)
        (VMThunkVal [] putConProto False) [UnitVal, UnitVal] emptyCapEnv (deepWorld 1 UnitVal) of
      (Ret v c, w') \<Rightarrow> v = mkCon ''K'' [UnitVal, UnitVal] \<and> capGet capState c w' = Some (CapVal (intVal 5)) | _ \<Rightarrow> False) \<and>
   (case applyN demoCfg (machineEnv demoCfg (effEnv (\<lambda>_. [])) 10) (machineApplier demoCfg (effEnv (\<lambda>_. [])) 2) 1
        (VMThunkVal [] putConProto False) [UnitVal, UnitVal] False (deepWorld 1 UnitVal) of
      (Ret v _, w') \<Rightarrow> v = Some (mkCon ''K'' [UnitVal, UnitVal]) \<and> capGet capState (topCap w') w' = None | _ \<Rightarrow> False)"
proof
  show "case applyNForPrim (machineEnv demoCfg (effEnv (\<lambda>_. [])) 10) (machineApplier demoCfg (effEnv (\<lambda>_. [])) 2)
        (VMThunkVal [] putConProto False) [UnitVal, UnitVal] emptyCapEnv (deepWorld 1 UnitVal) of
      (Ret v c, w') \<Rightarrow> v = mkCon ''K'' [UnitVal, UnitVal] \<and> capGet capState c w' = Some (CapVal (intVal 5)) | _ \<Rightarrow> False" by code_simp
  show "case applyN demoCfg (machineEnv demoCfg (effEnv (\<lambda>_. [])) 10) (machineApplier demoCfg (effEnv (\<lambda>_. [])) 2) 1
        (VMThunkVal [] putConProto False) [UnitVal, UnitVal] False (deepWorld 1 UnitVal) of
      (Ret v _, w') \<Rightarrow> v = Some (mkCon ''K'' [UnitVal, UnitVal]) \<and> capGet capState (topCap w') w' = None | _ \<Rightarrow> False" by code_simp
qed

section \<open>Errors on a barrier frame\<close>

text \<open>
  Too many arguments for a function whose result is not a function: with one surplus argument applied directly the machine reports the error, in an over-application the
  error is located at the barrier frame, which has no prototype, and the machine panics.
\<close>

theorem over_application_panics:
  "fst (applyV demoCfg (machineEnv demoCfg (effEnv (\<lambda>_. [])) 6) (machineApplier demoCfg (effEnv (\<lambda>_. [])) 2) (intVal 1) (intVal 2) False (deepWorld 1 UnitVal)) =
     Err (RuntimeError ''application of non-function: '' None []) () \<and>
   fst (applyN demoCfg (machineEnv demoCfg (effEnv (\<lambda>_. [])) 6) (machineApplier demoCfg (effEnv (\<lambda>_. [])) 2) 1
     (VMClosure [] idProto []) [intVal 1, intVal 2] False (deepWorld 1 UnitVal)) = Panic"
proof
  show "fst (applyV demoCfg (machineEnv demoCfg (effEnv (\<lambda>_. [])) 6) (machineApplier demoCfg (effEnv (\<lambda>_. [])) 2) (intVal 1) (intVal 2) False (deepWorld 1 UnitVal)) =
     Err (RuntimeError ''application of non-function: '' None []) ()" by code_simp
  show "fst (applyN demoCfg (machineEnv demoCfg (effEnv (\<lambda>_. [])) 6) (machineApplier demoCfg (effEnv (\<lambda>_. [])) 2) 1
     (VMClosure [] idProto []) [intVal 1, intVal 2] False (deepWorld 1 UnitVal)) = Panic" by code_simp
qed

end
