(* ===== verification/Type_Terms.thy ===== *)
theory Type_Terms
  imports Go_Base
begin

text \<open>
  The type terms of \<^verbatim>\<open>internal/lang/types\<close>: universe levels (\<^verbatim>\<open>level.go\<close>), the type formers of \<^verbatim>\<open>type.go\<close>,
  \<^verbatim>\<open>type_family.go\<close> and \<^verbatim>\<open>evidence.go\<close> with the entries of capability and constraint rows, and the built-in
  kinds (\<^verbatim>\<open>builtin.go\<close>). Source positions are left out. An optional pointer is an option, the stability
  flags of a node are its byte. The field that Go types as a row pointer (\<^verbatim>\<open>TyEvidence.Constraints\<close>) is a type here.
  Types' applications are called \<open>TApp\<close>, as \<open>TyApp\<close> is the former of the Core
  IR.
\<close>

section \<open>Universe levels\<close>

datatype levelExpr =
    LevelLit int
  | LevelVar string
  | LevelMax levelExpr levelExpr
  | LevelSucc levelExpr
  | LevelMeta int

abbreviation L0 :: levelExpr where "L0 \<equiv> LevelLit 0"
abbreviation L1 :: levelExpr where "L1 \<equiv> LevelLit 1"
abbreviation L2 :: levelExpr where "L2 \<equiv> LevelLit 2"

definition normalizeLevel :: "levelExpr option \<Rightarrow> levelExpr" where
  "normalizeLevel l = (case l of None \<Rightarrow> L0 | Some e \<Rightarrow> e)"

text \<open>\<^verbatim>\<open>LevelEqual\<close> below the optional roots; inner levels are never nil.\<close>

fun levelEq :: "levelExpr \<Rightarrow> levelExpr \<Rightarrow> bool" where
  "levelEq (LevelLit m) (LevelLit n) \<longleftrightarrow> m = n"
| "levelEq (LevelVar a) (LevelVar b) \<longleftrightarrow> a = b"
| "levelEq (LevelMax a b) (LevelMax c d) \<longleftrightarrow> levelEq a c \<and> levelEq b d"
| "levelEq (LevelSucc a) (LevelSucc b) \<longleftrightarrow> levelEq a b"
| "levelEq (LevelMeta m) (LevelMeta n) \<longleftrightarrow> m = n"
| "levelEq _ _ \<longleftrightarrow> False"

definition LevelEqual :: "levelExpr option \<Rightarrow> levelExpr option \<Rightarrow> bool" where
  "LevelEqual a b = levelEq (normalizeLevel a) (normalizeLevel b)"

definition IsValueLevel :: "levelExpr option \<Rightarrow> bool" where
  "IsValueLevel l = (case normalizeLevel l of LevelLit n \<Rightarrow> n = 0 | _ \<Rightarrow> False)"

definition IsKindLevel :: "levelExpr option \<Rightarrow> bool" where
  "IsKindLevel l = (case normalizeLevel l of LevelLit n \<Rightarrow> n = 1 | _ \<Rightarrow> False)"

definition IsSortLevel :: "levelExpr option \<Rightarrow> bool" where
  "IsSortLevel l = (case normalizeLevel l of LevelLit n \<Rightarrow> n \<ge> 2 | _ \<Rightarrow> False)"

lemma levelEq_iff [simp]: "levelEq a b \<longleftrightarrow> a = b"
  by (induction a b rule: levelEq.induct) auto

section \<open>Types\<close>

datatype cbpvTag = TagComp | TagThunk

type_synonym flags = "8 word"

datatype ty =
    TyVar string
  | TyCon string "levelExpr option" bool
  | TApp ty ty bool flags
  | TyArrow ty ty flags
  | TyForall string ty ty flags
  | TyCBPV cbpvTag ty ty ty "ty option" flags
  | TyEvidence ty ty flags
  | TyEvidenceRow entries "ty option" flags
  | TyFamilyApp string "ty list" "ty option" flags
  | TyMeta int ty int
  | TySkolem int string ty
  | TyError
and entries =
    CapabilityEntries "rowField list"
  | ConstraintEntries "conEntry list"
and rowField = RowField string ty "ty list" bool
and conEntry =
    ClassEntry string "ty list"
  | EqualityEntry ty ty
  | VarEntry ty
  | QuantifiedConstraint "(string \<times> ty) list" "conEntry list" "(string \<times> ty list) option"

abbreviation TypeOfTypes :: ty where "TypeOfTypes \<equiv> TyCon ''Type'' (Some L1) False"
abbreviation TypeOfRows :: ty where "TypeOfRows \<equiv> TyCon ''Row'' (Some L1) False"
abbreviation TypeOfConstraints :: ty where "TypeOfConstraints \<equiv> TyCon ''Constraint'' (Some L1) False"
abbreviation TypeOfLabels :: ty where "TypeOfLabels \<equiv> TyCon ''Label'' (Some L1) False"

text \<open>\<^verbatim>\<open>ops.Equal(k, TypeOfLabels)\<close>: against a constructor, \<^verbatim>\<open>Equal\<close> answers by the name and the level; the label
  flag is not compared.\<close>

definition equalsTyCon :: "ty \<Rightarrow> string \<Rightarrow> levelExpr option \<Rightarrow> bool" where
  "equalsTyCon k name lvl = (case k of TyCon n l _ \<Rightarrow> n = name \<and> LevelEqual l lvl | _ \<Rightarrow> False)"

end
