(* ===== verification/Core_IR.thy ===== *)
theory Core_IR
  imports Type_Terms
begin

text \<open>
  The Core intermediate representation, \<^verbatim>\<open>internal/lang/ir/core.go\<close>, \<^verbatim>\<open>pattern.go\<close>, \<^verbatim>\<open>spine.go\<close> and \<^verbatim>\<open>builtin.go\<close>.
  Free-variable metadata lives in Go in a table keyed by the node pointers of abstractions, thunks and
  merges; here each of these formers has a slot of type \<open>'a\<close> for its entry (two for a merge), which is the same
  for trees, where a node is reached once. \<open>scoped c\<close> lists the children of a node with the names the node
  binds in them, in the order in which they are bound; specifications recurse over it.
\<close>

section \<open>Patterns\<close>

datatype genKind = UserWritten | GenDict | GenAutoForce | GenSection | GenDictExtract | GenAutoBind

definition IsGenerated :: "genKind \<Rightarrow> bool" where "IsGenerated g \<longleftrightarrow> g \<noteq> UserWritten"

datatype litVal = LitInt int64 | LitDouble int64 | LitString string | LitRune "32 word"

datatype pat =
    PVar string genKind
  | PWild
  | PCon string string "pat list"
  | PRecord "(string \<times> pat) list"
  | PLit litVal
  | PLabel string string

definition HasPayload :: "string \<Rightarrow> bool" where "HasPayload payloadVar \<longleftrightarrow> payloadVar \<noteq> []"

fun Bindings :: "pat \<Rightarrow> string list" where
  "Bindings (PVar x g) = [x]"
| "Bindings PWild = []"
| "Bindings (PCon c m args) = concat (map Bindings args)"
| "Bindings (PRecord fs) = concat (map (\<lambda>(l, p). Bindings p) fs)"
| "Bindings (PLit v) = []"
| "Bindings (PLabel l x) = (if HasPayload x then [x] else [])"

section \<open>Terms\<close>

datatype 'a core =
    Var string string int
  | Lam 'a string "ty option" "'a core" genKind
  | App "'a core" "'a core"
  | TyApp "'a core" ty
  | TyLam string ty "'a core"
  | Con string string "'a core list" bool
  | Case "'a core" "(pat \<times> 'a core \<times> genKind) list"
  | Fix string "'a core"
  | Pure "'a core"
  | Bind "'a core" string "'a core" bool genKind
  | Thunk 'a "'a core"
  | Force "'a core"
  | Merge 'a 'a "'a core" "'a core" "string list option" "string list option"
  | PrimOp string nat bool "'a core list"
  | Lit litVal
  | RecordLit "(string \<times> 'a core) list"
  | RecordProj "'a core" string
  | RecordUpdate "'a core" "(string \<times> 'a core) list"
  | VariantLit string "'a core"
  | CoreError

type_synonym 'a binding = "string \<times> 'a core"

text \<open>Keys of variables: module and name.\<close>

type_synonym varKey = "string \<times> string"

definition IsUnqualified :: "varKey \<Rightarrow> bool" where "IsUnqualified k \<longleftrightarrow> fst k = []"
definition QualifiedKey :: "string \<Rightarrow> string \<Rightarrow> varKey" where "QualifiedKey m n = (m, n)"
definition LocalKey :: "string \<Rightarrow> varKey" where "LocalKey n = ([], n)"

section \<open>Children and their scopes\<close>

fun scoped :: "'a core \<Rightarrow> (string list \<times> 'a core) list" where
  "scoped (Var n m i) = []"
| "scoped (Lam s x t b g) = [([x], b)]"
| "scoped (App f a) = [([], f), ([], a)]"
| "scoped (TyApp e t) = [([], e)]"
| "scoped (TyLam a k b) = [([], b)]"
| "scoped (Con n m args d) = map (Pair []) args"
| "scoped (Case e alts) = ([], e) # map (\<lambda>(p, b, g). (Bindings p, b)) alts"
| "scoped (Fix x b) = [([x], b)]"
| "scoped (Pure e) = [([], e)]"
| "scoped (Bind c x b d g) = [([], c), ([x], b)]"
| "scoped (Thunk s c) = [([], c)]"
| "scoped (Force e) = [([], e)]"
| "scoped (Merge s1 s2 l r ls rs) = [([], l), ([], r)]"
| "scoped (PrimOp n k e args) = map (Pair []) args"
| "scoped (Lit v) = []"
| "scoped (RecordLit fs) = map (\<lambda>(l, e). ([], e)) fs"
| "scoped (RecordProj r l) = [([], r)]"
| "scoped (RecordUpdate r fs) = ([], r) # map (\<lambda>(l, e). ([], e)) fs"
| "scoped (VariantLit t e) = [([], e)]"
| "scoped CoreError = []"

abbreviation kids :: "'a core \<Rightarrow> 'a core list" where "kids c \<equiv> map snd (scoped c)"

lemma size_mem_pair [termination_simp]: "(l, e) \<in> set fs \<Longrightarrow> size e < Suc (size_list (size_prod (\<lambda>_. 0) size) fs)"
  using size_list_estimation [of "(l, e)" fs "size e" "size_prod (\<lambda>_. 0) size"] by (induction fs) auto

lemma size_mem_alt [termination_simp]: "(p, b, g) \<in> set alts \<Longrightarrow> size b < Suc (size_list (size_prod (\<lambda>_. 0) (size_prod size (\<lambda>_. 0))) alts)"
  by (induction alts) auto

lemma size_mem_list [termination_simp]: "(e :: 'a core) \<in> set xs \<Longrightarrow> size e < Suc (size_list size xs)"
  by (induction xs) auto

lemma scoped_size: "(ns, ch) \<in> set (scoped c) \<Longrightarrow> size ch < size c"
  by (cases c) (force dest: size_mem_pair size_mem_alt size_mem_list)+

lemma kids_size [termination_simp]: "ch \<in> set (kids c) \<Longrightarrow> size ch < size c"
  using scoped_size by fastforce

lemma core_induct [case_names node]:
  assumes "\<And>c. (\<And>ns ch. (ns, ch) \<in> set (scoped c) \<Longrightarrow> P ch) \<Longrightarrow> P c"
  shows "P c"
  by (induction c rule: measure_induct_rule [where f = size]) (blast intro: assms scoped_size)

section \<open>The left spine of applications\<close>

fun unwindLeftSpine :: "'a core \<Rightarrow> 'a core list \<Rightarrow> 'a core \<times> 'a core list" where
  "unwindLeftSpine (App f a) rights = unwindLeftSpine f (rights @ [a])"
| "unwindLeftSpine (TyApp e t) rights = unwindLeftSpine e rights"
| "unwindLeftSpine (TyLam x k b) rights = unwindLeftSpine b rights"
| "unwindLeftSpine c rights = (c, rights)"

fun PeelTyLam :: "'a core \<Rightarrow> 'a core" where
  "PeelTyLam (TyLam x k b) = PeelTyLam b"
| "PeelTyLam c = c"

text \<open>Nodes the spine walk goes through.\<close>

fun spineNode :: "'a core \<Rightarrow> bool" where
  "spineNode (App f a) \<longleftrightarrow> True"
| "spineNode (TyApp e t) \<longleftrightarrow> True"
| "spineNode (TyLam x k b) \<longleftrightarrow> True"
| "spineNode c \<longleftrightarrow> False"

lemma unwind_rights: "unwindLeftSpine c rs = (h, rs') \<Longrightarrow> \<exists>qs. rs' = rs @ qs"
  by (induction c rs rule: unwindLeftSpine.induct) auto

lemma unwind_acc: "unwindLeftSpine c rs = (fst (unwindLeftSpine c []), rs @ snd (unwindLeftSpine c []))"
proof (induction c arbitrary: rs rule: core_induct)
  case (node c)
  show ?case
  proof (cases c)
    case (App f a)
    then show ?thesis using node [of "[]" f "rs @ [a]"] node [of "[]" f "[a]"] by simp
  next
    case (TyApp e t)
    then show ?thesis using node [of "[]" e rs] by simp
  next
    case (TyLam x k b)
    then show ?thesis using node [of "[]" b rs] by simp
  qed simp_all
qed

lemma unwind_head: "\<not> spineNode (fst (unwindLeftSpine c rs))"
  by (induction c rs rule: unwindLeftSpine.induct) auto

lemma PeelTyLam_size: "size (PeelTyLam c) \<le> size c"
  by (induction c rule: PeelTyLam.induct) auto

lemma PeelTyLam_not_TyLam: "PeelTyLam c \<noteq> TyLam x k b"
  by (induction c rule: PeelTyLam.induct) auto

section \<open>Built-in terms\<close>

definition localVar :: "string \<Rightarrow> 'a core" where "localVar x = Var x [] 0"

definition PureBody :: "unit core" where "PureBody = Lam () ''_v'' None (localVar ''_v'') UserWritten"

definition BindBody :: "unit core" where
  "BindBody = Lam () ''_comp'' None (Lam () ''_f'' None (App (localVar ''_f'') (localVar ''_comp'')) UserWritten) UserWritten"

definition fixBody :: "unit core" where
  "fixBody = Fix ''_x''
     (Lam () ''_arg'' None (App (App (localVar ''_f'') (localVar ''_x'')) (localVar ''_arg'')) UserWritten)"

definition recBody :: "unit core" where
  "recBody = Force (Fix ''_thk'' (Thunk () (App (localVar ''_f'') (localVar ''_thk''))))"

end
