(* ===== verification/Core_Free.thy ===== *)
theory Core_Free
  imports Core_IR
begin

text \<open>
  Free variables of Core terms, \<^verbatim>\<open>internal/lang/ir/free.go\<close>. One traversal computes the free variables and
  writes the annotation of every abstraction, thunk and merge it reaches; beyond the depth limit it
  answers overflow and writes nothing, so the slots there stay empty (\<open>None\<close>). The set of names is held as a single
  inline key or, from two keys on, as a Go map, here a list without repetition, since only its elements
  are observed. The reference \<open>freeKeys\<close> is the usual structural definition over \<open>scoped\<close>.
\<close>

section \<open>Results of the traversal\<close>

abbreviation maxTraversalDepth :: nat where "maxTraversalDepth \<equiv> 512"

abbreviation emptyKey :: varKey where "emptyKey \<equiv> ([], [])"

record fvResult =
  fv_single :: varKey
  fv_vars :: "varKey list option"
  fv_overflow :: bool

record fvInfo =
  fvi_vars :: "string list"
  fvi_indices :: "nat list option"
  fvi_overflow :: bool

definition fvNone :: fvResult where
  "fvNone = \<lparr> fv_single = emptyKey, fv_vars = None, fv_overflow = False \<rparr>"

definition fvOverflow :: fvResult where
  "fvOverflow = \<lparr> fv_single = emptyKey, fv_vars = None, fv_overflow = True \<rparr>"

definition deleteByName :: "string \<Rightarrow> fvResult \<Rightarrow> fvResult" where
  "deleteByName name r =
     (case fv_vars r of
        Some vs \<Rightarrow> r\<lparr> fv_vars := Some (removeAll (LocalKey name) vs) \<rparr>
      | None \<Rightarrow>
          if snd (fv_single r) = name \<and> IsUnqualified (fv_single r) then r\<lparr> fv_single := emptyKey \<rparr> else r)"

fun deletePatternBindings :: "pat \<Rightarrow> fvResult \<Rightarrow> fvResult" where
  "deletePatternBindings (PVar x g) r = deleteByName x r"
| "deletePatternBindings (PCon c m args) r = fold deletePatternBindings args r"
| "deletePatternBindings (PRecord fs) r = fold (\<lambda>(l, p). deletePatternBindings p) fs r"
| "deletePatternBindings _ r = r"

definition mergeFV :: "fvResult \<Rightarrow> fvResult \<Rightarrow> fvResult" where
  "mergeFV a b =
     (if fv_overflow a \<or> fv_overflow b then fvOverflow
      else if fv_vars a = None \<and> fv_single a = emptyKey then b
      else if fv_vars b = None \<and> fv_single b = emptyKey then a
      else case (fv_vars a, fv_vars b) of
        (None, None) \<Rightarrow>
          if fv_single a = fv_single b then a
          else fvNone\<lparr> fv_vars := Some [fv_single a, fv_single b] \<rparr>
      | (None, Some bs) \<Rightarrow> b\<lparr> fv_vars := Some (List.insert (fv_single a) bs) \<rparr>
      | (Some as, None) \<Rightarrow> a\<lparr> fv_vars := Some (List.insert (fv_single b) as) \<rparr>
      | (Some as, Some bs) \<Rightarrow> a\<lparr> fv_vars := Some (List.union bs as) \<rparr>)"

definition setToSlice :: "varKey list \<Rightarrow> string list" where
  "setToSlice s = sort (map snd (filter IsUnqualified s))"

definition fvResultToSlice :: "fvResult \<Rightarrow> string list" where
  "fvResultToSlice r =
     (case fv_vars r of
        None \<Rightarrow>
          if fv_single r = emptyKey then []
          else if \<not> IsUnqualified (fv_single r) then []
          else [snd (fv_single r)]
      | Some vs \<Rightarrow> setToSlice vs)"

definition fvResultToMap :: "fvResult \<Rightarrow> varKey list" where
  "fvResultToMap r =
     (case fv_vars r of
        Some vs \<Rightarrow> vs
      | None \<Rightarrow> if fv_single r = emptyKey then [] else [fv_single r])"

definition fvInfoFromResult :: "fvResult \<Rightarrow> fvInfo" where
  "fvInfoFromResult r =
     (if fv_overflow r then \<lparr> fvi_vars = [], fvi_indices = None, fvi_overflow = True \<rparr>
      else \<lparr> fvi_vars = fvResultToSlice r, fvi_indices = None, fvi_overflow = False \<rparr>)"

section \<open>The traversal\<close>

type_synonym annotated = "fvInfo option core"

definition unvisited :: "'a core \<Rightarrow> annotated" where "unvisited c = map_core (\<lambda>_. None) c"

definition mergeAll :: "fvResult \<Rightarrow> (fvResult \<times> 'b) list \<Rightarrow> fvResult" where
  "mergeAll r rs = foldl (\<lambda>r x. mergeFV r (fst x)) r rs"

function (sequential) traverseFV :: "'a core \<Rightarrow> nat \<Rightarrow> fvResult \<times> annotated"
  and traverseFVLeftSpine :: "'a core \<Rightarrow> nat \<Rightarrow> fvResult \<times> annotated" where
  "traverseFV c d =
     (if d > maxTraversalDepth then (fvOverflow, unvisited c)
      else case c of
        Var n m i \<Rightarrow> (fvNone\<lparr> fv_single := (m, n) \<rparr>, Var n m i)
      | Lam s x t b g \<Rightarrow>
          (case traverseFV b (d + 1) of (r, b') \<Rightarrow>
             let bodyFV = deleteByName x r
             in (if fv_overflow bodyFV then fvOverflow else bodyFV, Lam (Some (fvInfoFromResult bodyFV)) x t b' g))
      | App f a \<Rightarrow> traverseFVLeftSpine c d
      | TyApp e t \<Rightarrow> (case traverseFV e (d + 1) of (r, e') \<Rightarrow> (r, TyApp e' t))
      | TyLam x k b \<Rightarrow> (case traverseFV b (d + 1) of (r, b') \<Rightarrow> (r, TyLam x k b'))
      | Con n m args dict \<Rightarrow>
          let rs = map (\<lambda>a. traverseFV a (d + 1)) args
          in (mergeAll fvNone rs, Con n m (map snd rs) dict)
      | Case e alts \<Rightarrow>
          (case traverseFV e (d + 1) of (r, e') \<Rightarrow>
             let rs = map (\<lambda>(p, b, g). case traverseFV b (d + 1) of (rb, b') \<Rightarrow>
                             (deletePatternBindings p rb, (p, b', g))) alts
             in (mergeAll r rs, Case e' (map snd rs)))
      | Fix x b \<Rightarrow> (case traverseFV b (d + 1) of (r, b') \<Rightarrow> (deleteByName x r, Fix x b'))
      | Pure e \<Rightarrow> (case traverseFV e (d + 1) of (r, e') \<Rightarrow> (r, Pure e'))
      | Bind c x b disc g \<Rightarrow>
          (case traverseFV c (d + 1) of (rc, c') \<Rightarrow>
           case traverseFV b (d + 1) of (rb, b') \<Rightarrow>
             (mergeFV rc (deleteByName x rb), Bind c' x b' disc g))
      | Thunk s c \<Rightarrow>
          (case traverseFV c (d + 1) of (r, c') \<Rightarrow>
             (if fv_overflow r then fvOverflow else r, Thunk (Some (fvInfoFromResult r)) c'))
      | Force e \<Rightarrow> (case traverseFV e (d + 1) of (r, e') \<Rightarrow> (r, Force e'))
      | Merge s1 s2 l r ll rl \<Rightarrow>
          (case traverseFV l (d + 1) of (fl, l') \<Rightarrow>
           case traverseFV r (d + 1) of (fr, r') \<Rightarrow>
             (mergeFV fl fr, Merge (Some (fvInfoFromResult fl)) (Some (fvInfoFromResult fr)) l' r' ll rl))
      | PrimOp n k eff args \<Rightarrow>
          let rs = map (\<lambda>a. traverseFV a (d + 1)) args
          in (mergeAll fvNone rs, PrimOp n k eff (map snd rs))
      | Lit v \<Rightarrow> (fvNone, Lit v)
      | RecordLit fs \<Rightarrow>
          let rs = map (\<lambda>(l, e). case traverseFV e (d + 1) of (r, e') \<Rightarrow> (r, (l, e'))) fs
          in (mergeAll fvNone rs, RecordLit (map snd rs))
      | RecordProj e l \<Rightarrow> (case traverseFV e (d + 1) of (r, e') \<Rightarrow> (r, RecordProj e' l))
      | RecordUpdate e fs \<Rightarrow>
          (case traverseFV e (d + 1) of (r, e') \<Rightarrow>
             let rs = map (\<lambda>(l, e). case traverseFV e (d + 1) of (r, e') \<Rightarrow> (r, (l, e'))) fs
             in (mergeAll r rs, RecordUpdate e' (map snd rs)))
      | VariantLit t e \<Rightarrow> (case traverseFV e (d + 1) of (r, e') \<Rightarrow> (r, VariantLit t e'))
      | CoreError \<Rightarrow> (fvNone, CoreError))"
| "traverseFVLeftSpine (App f a) d =
     (case traverseFVLeftSpine f d of (r, f') \<Rightarrow>
      case traverseFV a (d + 1) of (ra, a') \<Rightarrow> (mergeFV r ra, App f' a'))"
| "traverseFVLeftSpine (TyApp e t) d = (case traverseFVLeftSpine e d of (r, e') \<Rightarrow> (r, TyApp e' t))"
| "traverseFVLeftSpine (TyLam x k b) d = (case traverseFVLeftSpine b d of (r, b') \<Rightarrow> (r, TyLam x k b'))"
| "traverseFVLeftSpine c d = traverseFV c (d + 1)"
  by pat_completeness auto
termination
  by (relation "measures [\<lambda>x. case x of Inl (c, d) \<Rightarrow> size c | Inr (c, d) \<Rightarrow> size c,
      \<lambda>x. case x of Inl (c, d) \<Rightarrow> (case c of App _ _ \<Rightarrow> 2 | _ \<Rightarrow> 0) | Inr (c, d) \<Rightarrow> (1 :: nat)]")
    (auto dest!: size_mem_list size_mem_pair size_mem_alt)

declare traverseFV.simps [simp del]

definition FreeVars :: "'a core \<Rightarrow> varKey list \<times> bool" where
  "FreeVars c =
     (let result = fst (traverseFV c 0)
      in if fv_overflow result then ([], True) else (fvResultToMap result, False))"

definition AnnotateFreeVars :: "'a core \<Rightarrow> annotated" where
  "AnnotateFreeVars c = snd (traverseFV c 0)"

definition AnnotateFreeVarsProgram :: "'a binding list \<Rightarrow> (string \<times> annotated) list" where
  "AnnotateFreeVarsProgram bs = map (\<lambda>(n, e). (n, AnnotateFreeVars e)) bs"

section \<open>Reference definitions\<close>

text \<open>\<open>patDeleted\<close> lists the names that \<^verbatim>\<open>deletePatternBindings\<close> removes.\<close>

fun patDeleted :: "pat \<Rightarrow> string list" where
  "patDeleted (PVar x g) = [x]"
| "patDeleted (PCon c m args) = concat (map patDeleted args)"
| "patDeleted (PRecord fs) = concat (map (\<lambda>(l, p). patDeleted p) fs)"
| "patDeleted _ = []"

definition scopedBy :: "(pat \<Rightarrow> string list) \<Rightarrow> 'a core \<Rightarrow> (string list \<times> 'a core) list" where
  "scopedBy pb c =
     (case c of Case e alts \<Rightarrow> ([], e) # map (\<lambda>(p, b, g). (pb p, b)) alts | _ \<Rightarrow> scoped c)"

lemma scopedBy_size [termination_simp]: "(ns, ch) \<in> set (scopedBy pb c) \<Longrightarrow> size ch < size c"
  by (cases c) (force simp: scopedBy_def dest: size_mem_pair size_mem_alt size_mem_list)+

text \<open>The free variables of a term, for a given choice of the names a pattern binds.\<close>

function freeBy :: "(pat \<Rightarrow> string list) \<Rightarrow> 'a core \<Rightarrow> varKey set" where
  "freeBy pb c =
     (case c of
        Var n m i \<Rightarrow> {(m, n)} - {emptyKey}
      | _ \<Rightarrow> \<Union> (set (map (\<lambda>(ns, ch). freeBy pb ch - LocalKey ` set ns) (scopedBy pb c))))"
  by auto
termination by (relation "measure (\<lambda>(pb, c). size c)") (auto dest: scopedBy_size)

declare freeBy.simps [simp del]

abbreviation freeKeys :: "'a core \<Rightarrow> varKey set" where "freeKeys \<equiv> freeBy Bindings"

lemma freeBy_simps [simp]:
  "freeBy pb (Var n m idx) = {(m, n)} - {emptyKey}"
  "freeBy pb (Lam s x pty b g) = freeBy pb b - {LocalKey x}"
  "freeBy pb (App f a) = freeBy pb f \<union> freeBy pb a"
  "freeBy pb (TyApp e t) = freeBy pb e"
  "freeBy pb (TyLam x k b) = freeBy pb b"
  "freeBy pb (Con n m args dict) = (\<Union>a \<in> set args. freeBy pb a)"
  "freeBy pb (Case e alts) = freeBy pb e \<union> (\<Union>(p, b, g) \<in> set alts. freeBy pb b - LocalKey ` set (pb p))"
  "freeBy pb (Fix x b) = freeBy pb b - {LocalKey x}"
  "freeBy pb (Pure e) = freeBy pb e"
  "freeBy pb (Bind e x b disc g) = freeBy pb e \<union> (freeBy pb b - {LocalKey x})"
  "freeBy pb (Thunk s e) = freeBy pb e"
  "freeBy pb (Force e) = freeBy pb e"
  "freeBy pb (Merge s1 s2 l r ls rs) = freeBy pb l \<union> freeBy pb r"
  "freeBy pb (PrimOp n ar eff args) = (\<Union>a \<in> set args. freeBy pb a)"
  "freeBy pb (Lit v) = {}"
  "freeBy pb (RecordLit fs) = (\<Union>(l, e) \<in> set fs. freeBy pb e)"
  "freeBy pb (RecordProj e lbl) = freeBy pb e"
  "freeBy pb (RecordUpdate e fs) = freeBy pb e \<union> (\<Union>(l, e) \<in> set fs. freeBy pb e)"
  "freeBy pb (VariantLit tag e) = freeBy pb e"
  "freeBy pb CoreError = {}"
  by (subst freeBy.simps, force simp: scopedBy_def)+

text \<open>The nesting of a term as the passes count it: a chain of applications counts once, a bind twice.\<close>

function (sequential) irDepth :: "'a core \<Rightarrow> nat" and spineDepth :: "'a core \<Rightarrow> nat" where
  "irDepth (App f a) = max (spineDepth f) (Suc (irDepth a))"
| "irDepth (Bind e x b disc g) = 2 + max (irDepth e) (irDepth b)"
| "irDepth c = (if kids c = [] then 0 else Suc (Max (set (map irDepth (kids c)))))"
| "spineDepth (App f a) = max (spineDepth f) (Suc (irDepth a))"
| "spineDepth (TyApp e t) = spineDepth e"
| "spineDepth (TyLam x k b) = spineDepth b"
| "spineDepth c = Suc (irDepth c)"
  by pat_completeness auto
termination
  by (relation "measures [\<lambda>x. case x of Inl c \<Rightarrow> size c | Inr c \<Rightarrow> size c,
      \<lambda>x. case x of Inl c \<Rightarrow> 0 | Inr c \<Rightarrow> (1 :: nat)]")
    (auto dest!: size_mem_list size_mem_pair size_mem_alt)

end
