(* ===== verification/Core_Free_Laws.thy ===== *)
theory Core_Free_Laws
  imports Core_Free
begin

text \<open>
  The traversal computes the free variables. \<open>holds r K\<close> relates a result to a set of keys; every combination
  step of the traversal is described once by it, and the laws of the traversal follow by induction on
  the term.
\<close>

section \<open>Results and the sets they denote\<close>

definition keysOf :: "fvResult \<Rightarrow> varKey set" where "keysOf r = set (fvResultToMap r)"

definition holds :: "fvResult \<Rightarrow> varKey set \<Rightarrow> bool" where
  "holds r K \<longleftrightarrow>
     (case fv_vars r of None \<Rightarrow> True | Some vs \<Rightarrow> distinct vs \<and> emptyKey \<notin> set vs) \<and>
     (fv_overflow r \<or> keysOf r = K)"

lemma holds_simps [simp]: "holds fvNone {}" "fv_overflow fvOverflow" "\<not> fv_overflow fvNone" "holds fvOverflow K"
  by (simp_all add: holds_def fvNone_def fvOverflow_def keysOf_def fvResultToMap_def)

lemma holds_single: "holds (fvNone\<lparr> fv_single := k \<rparr>) ({k} - {emptyKey})"
  by (simp add: holds_def fvNone_def keysOf_def fvResultToMap_def)

lemma overflow_deleteByName [simp]: "fv_overflow (deleteByName x r) = fv_overflow r"
  by (simp add: deleteByName_def split: option.splits)

lemma holds_deleteByName: "holds r K \<Longrightarrow> holds (deleteByName x r) (K - {LocalKey x})"
  by (cases r) (auto simp: holds_def deleteByName_def keysOf_def fvResultToMap_def LocalKey_def IsUnqualified_def
      distinct_removeAll split: option.splits if_splits)

lemma overflow_deletePattern [simp]: "fv_overflow (deletePatternBindings p r) = fv_overflow r"
proof (induction p r rule: deletePatternBindings.induct)
  case (2 c m args r)
  then show ?case by (induction args arbitrary: r) auto
next
  case (3 fs r)
  then show ?case by (induction fs arbitrary: r) force+
qed auto

lemma holds_deletePattern:
  "holds r K \<Longrightarrow> holds (deletePatternBindings p r) (K - LocalKey ` set (patDeleted p))"
proof (induction p r arbitrary: K rule: deletePatternBindings.induct)
  case (1 x g r)
  then show ?case using holds_deleteByName by simp
next
  case (2 c m args r)
  then show ?case
  proof (induction args arbitrary: r K)
    case (Cons a args)
    have "holds (deletePatternBindings a r) (K - LocalKey ` set (patDeleted a))" using Cons.prems by simp
    then have "holds (fold deletePatternBindings args (deletePatternBindings a r))
        (K - LocalKey ` set (patDeleted a) - LocalKey ` (\<Union>p \<in> set args. set (patDeleted p)))"
      using Cons.IH [of "deletePatternBindings a r"] Cons.prems(1) by simp
    then show ?case by (simp add: image_Un Diff_eq Compl_Un Int_assoc)
  qed simp
next
  case (3 fs r)
  then show ?case
  proof (induction fs arbitrary: r K)
    case (Cons f fs)
    obtain l q where f: "f = (l, q)" by fastforce
    have "holds (deletePatternBindings q r) (K - LocalKey ` set (patDeleted q))"
      using Cons.prems(1) [of "(l, q)" l q r K] Cons.prems(2) f by simp
    then have "holds (deletePatternBindings (PRecord fs) (deletePatternBindings q r))
        (K - LocalKey ` set (patDeleted q) - LocalKey ` set (patDeleted (PRecord fs)))"
      by (rule Cons.IH [rotated]) (metis Cons.prems(1) list.set_intros(2))
    then show ?case using f by (simp add: image_Un Diff_eq Compl_Un Int_assoc case_prod_unfold)
  qed simp
qed auto

lemma overflow_mergeFV [simp]: "fv_overflow (mergeFV a b) = (fv_overflow a \<or> fv_overflow b)"
  by (auto simp: mergeFV_def fvNone_def split: option.splits)

lemma holds_mergeFV: "holds a A \<Longrightarrow> holds b B \<Longrightarrow> holds (mergeFV a b) (A \<union> B)"
  by (cases a; cases b)
    (auto simp: holds_def mergeFV_def fvNone_def fvOverflow_def keysOf_def fvResultToMap_def split: option.splits if_splits)

lemma overflow_mergeAll: "fv_overflow (mergeAll r rs) \<longleftrightarrow> fv_overflow r \<or> (\<exists>x \<in> set rs. fv_overflow (fst x))"
  unfolding mergeAll_def by (induction rs arbitrary: r) auto

lemma holds_mergeAll:
  "holds r K \<Longrightarrow> (\<And>x. x \<in> set xs \<Longrightarrow> holds (fst (g x)) (f x)) \<Longrightarrow> holds (mergeAll r (map g xs)) (K \<union> (\<Union>x \<in> set xs. f x))"
  unfolding mergeAll_def
proof (induction xs arbitrary: r K)
  case (Cons x xs)
  have "holds (mergeFV r (fst (g x))) (K \<union> f x)" using Cons.prems by (simp add: holds_mergeFV)
  then have "holds (foldl (\<lambda>r x. mergeFV r (fst x)) (mergeFV r (fst (g x))) (map g xs)) (K \<union> f x \<union> (\<Union>x \<in> set xs. f x))"
    using Cons.IH Cons.prems(2) by simp
  then show ?case by (simp add: Un_assoc)
qed simp

lemma alt_kid: "(p, b, g) \<in> set alts \<Longrightarrow> b \<in> (\<lambda>x. snd (case x of (p, b, g) \<Rightarrow> (Bindings p, b))) ` set alts"
  by force

lemma field_kid: "(l, e) \<in> set fs \<Longrightarrow> e \<in> (\<lambda>x. snd (case x of (l, e) \<Rightarrow> ([] :: string list, e))) ` set fs"
  by force

section \<open>The traversal computes the free variables\<close>

lemmas traverse_node =
  traverseFV.simps [of "Var n m i" d for n m i d, simplified core.case]
  traverseFV.simps [of "Lam s x t b g" d for s x t b g d, simplified core.case]
  traverseFV.simps [of "App f a" d for f a d, simplified core.case]
  traverseFV.simps [of "TyApp e t" d for e t d, simplified core.case]
  traverseFV.simps [of "TyLam x k b" d for x k b d, simplified core.case]
  traverseFV.simps [of "Con n m args dict" d for n m args dict d, simplified core.case]
  traverseFV.simps [of "Case e alts" d for e alts d, simplified core.case]
  traverseFV.simps [of "Fix x b" d for x b d, simplified core.case]
  traverseFV.simps [of "Pure e" d for e d, simplified core.case]
  traverseFV.simps [of "Bind e x b disc g" d for e x b disc g d, simplified core.case]
  traverseFV.simps [of "Thunk s e" d for s e d, simplified core.case]
  traverseFV.simps [of "Force e" d for e d, simplified core.case]
  traverseFV.simps [of "Merge s1 s2 l r ls rs" d for s1 s2 l r ls rs d, simplified core.case]
  traverseFV.simps [of "PrimOp n k eff args" d for n k eff args d, simplified core.case]
  traverseFV.simps [of "Lit v" d for v d, simplified core.case]
  traverseFV.simps [of "RecordLit fs" d for fs d, simplified core.case]
  traverseFV.simps [of "RecordProj e l" d for e l d, simplified core.case]
  traverseFV.simps [of "RecordUpdate e fs" d for e fs d, simplified core.case]
  traverseFV.simps [of "VariantLit t e" d for t e d, simplified core.case]
  traverseFV.simps [of "CoreError" d for d, simplified core.case]

lemma traverse_holds:
  "holds (fst (traverseFV c d)) (freeBy patDeleted c) \<and> holds (fst (traverseFVLeftSpine c d)) (freeBy patDeleted c)"
proof (induction c arbitrary: d rule: core_induct)
  case (node c)
  have kid: "holds (fst (traverseFV k d)) (freeBy patDeleted k)" if "k \<in> set (kids c)" for k d using node that by auto
  have spine: "holds (fst (traverseFVLeftSpine k d)) (freeBy patDeleted k)" if "k \<in> set (kids c)" for k d using node that by auto
  have left: "holds (fst (traverseFVLeftSpine c d)) (freeBy patDeleted c)" if "spineNode c" for d
    using that kid spine by (cases c) (auto simp: holds_mergeFV case_prod_unfold)
  have main: "holds (fst (traverseFV c d)) (freeBy patDeleted c)" for d
  proof (cases "d > maxTraversalDepth")
    case True
    then show ?thesis by (simp add: traverseFV.simps [of c])
  next
    case ok: False
    show ?thesis
    proof (cases c)
      case (Case e alts)
      have "holds (mergeAll (fst (traverseFV e (d + 1)))
          (map (\<lambda>(p, b, g). (deletePatternBindings p (fst (traverseFV b (d + 1))), (p, snd (traverseFV b (d + 1)), g))) alts))
          (freeBy patDeleted e \<union> (\<Union>(p, b, g) \<in> set alts. freeBy patDeleted b - LocalKey ` set (patDeleted p)))"
        using kid Case
        by (intro holds_mergeAll [where f = "\<lambda>(p, b, g). freeBy patDeleted b - LocalKey ` set (patDeleted p)"])
          (auto intro!: holds_deletePattern kid alt_kid)
      then show ?thesis using ok Case by (simp add: traverse_node case_prod_unfold)
    next
      case (Con n m args dict)
      then show ?thesis using ok kid holds_mergeAll [of fvNone "{}" args "\<lambda>a. traverseFV a (d + 1)" "freeBy patDeleted"]
        by (simp add: traverse_node)
    next
      case (PrimOp n k eff args)
      then show ?thesis using ok kid holds_mergeAll [of fvNone "{}" args "\<lambda>a. traverseFV a (d + 1)" "freeBy patDeleted"]
        by (simp add: traverse_node)
    next
      case (RecordLit fs)
      have "holds (mergeAll fvNone (map (\<lambda>(l, e). (fst (traverseFV e (d + 1)), (l, snd (traverseFV e (d + 1))))) fs))
          ({} \<union> (\<Union>(l, e) \<in> set fs. freeBy patDeleted e))"
        using kid RecordLit by (intro holds_mergeAll [where f = "\<lambda>(l, e). freeBy patDeleted e"]) (auto intro!: kid field_kid)
      then show ?thesis using ok RecordLit by (simp add: traverse_node case_prod_unfold)
    next
      case (RecordUpdate e fs)
      have "holds (mergeAll (fst (traverseFV e (d + 1)))
          (map (\<lambda>(l, e). (fst (traverseFV e (d + 1)), (l, snd (traverseFV e (d + 1))))) fs))
          (freeBy patDeleted e \<union> (\<Union>(l, e) \<in> set fs. freeBy patDeleted e))"
        using kid RecordUpdate by (intro holds_mergeAll [where f = "\<lambda>(l, e). freeBy patDeleted e"]) (auto intro!: kid field_kid)
      then show ?thesis using ok RecordUpdate by (simp add: traverse_node case_prod_unfold)
    next
      case (Lam s x t b g)
      then show ?thesis using ok holds_deleteByName [OF kid [of b "d + 1"], of x]
        by (auto simp: traverse_node Let_def case_prod_unfold)
    next
      case (Bind e x b disc g)
      then show ?thesis using ok holds_mergeFV [OF kid [of e "d + 1"] holds_deleteByName [OF kid [of b "d + 1"], of x]]
        by (auto simp: traverse_node case_prod_unfold)
    next
      case (Fix x b)
      then show ?thesis using ok holds_deleteByName [OF kid [of b "d + 1"], of x]
        by (auto simp: traverse_node case_prod_unfold)
    next
      case (Merge s1 s2 l r ls rs)
      then show ?thesis using ok holds_mergeFV [OF kid [of l "d + 1"] kid [of r "d + 1"]]
        by (auto simp: traverse_node case_prod_unfold)
    next
      case (Var n m i)
      then show ?thesis using ok by (simp add: traverse_node holds_single)
    next
      case (App f a)
      then show ?thesis using ok left [of d] by (simp add: traverse_node del: traverseFVLeftSpine.simps)
    next
      case (Thunk s e)
      then show ?thesis using ok kid [of e "d + 1"] by (auto simp: traverse_node case_prod_unfold)
    qed (use ok kid in \<open>auto simp: traverse_node case_prod_unfold\<close>)
  qed
  show ?case
  proof (cases "spineNode c")
    case False
    then have "traverseFVLeftSpine c d = traverseFV c (d + 1)" by (cases c) auto
    then show ?thesis using main by simp
  qed (use main left in blast)
qed

section \<open>Depth and overflow\<close>

fun isApp :: "'a core \<Rightarrow> bool" where
  "isApp (App f a) \<longleftrightarrow> True"
| "isApp c \<longleftrightarrow> False"

fun isBind :: "'a core \<Rightarrow> bool" where
  "isBind (Bind e x b disc g) \<longleftrightarrow> True"
| "isBind c \<longleftrightarrow> False"

lemma irDepth_node:
  "\<not> isApp c \<Longrightarrow> \<not> isBind c \<Longrightarrow>
   irDepth c = (if kids c = [] then 0 else Suc (Max (irDepth ` set (kids c))))"
  by (cases c) (auto simp: image_image)

lemma kid_depth:
  assumes "k \<in> set (kids c)" "\<not> isApp c"
  shows "irDepth k < irDepth c"
proof (cases "isBind c")
  case True
  then show ?thesis using assms by (cases c) auto
next
  case False
  then have "irDepth c = Suc (Max (irDepth ` set (kids c)))" using irDepth_node [of c] assms by (auto split: if_splits)
  moreover have "irDepth k \<le> Max (irDepth ` set (kids c))" using assms(1) by (intro Max_ge) auto
  ultimately show ?thesis by simp
qed

lemma traverse_no_overflow:
  "(irDepth c + d \<le> maxTraversalDepth \<longrightarrow> \<not> fv_overflow (fst (traverseFV c d))) \<and>
   (spineDepth c + d \<le> maxTraversalDepth \<longrightarrow> \<not> fv_overflow (fst (traverseFVLeftSpine c d)))"
proof (induction c arbitrary: d rule: core_induct)
  case (node c)
  have kid: "\<not> fv_overflow (fst (traverseFV k d))" if "k \<in> set (kids c)" "irDepth k + d \<le> maxTraversalDepth" for k d
    using node that by auto
  have spine: "\<not> fv_overflow (fst (traverseFVLeftSpine k d))" if "k \<in> set (kids c)" "spineDepth k + d \<le> maxTraversalDepth" for k d
    using node that by auto
  have left: "\<not> fv_overflow (fst (traverseFVLeftSpine c d))" if "spineNode c" "spineDepth c + d \<le> maxTraversalDepth" for d
    using that kid spine by (cases c) (auto simp: case_prod_unfold)
  have main: "\<not> fv_overflow (fst (traverseFV c d))" if lim: "irDepth c + d \<le> maxTraversalDepth" for d
  proof -
    have step: "\<not> fv_overflow (fst (traverseFV k (Suc d)))" if "k \<in> set (kids c)" "\<not> isApp c" for k
      using kid [OF that(1), of "Suc d"] kid_depth [OF that] lim by simp
    show ?thesis
    proof (cases c)
      case (App f a)
      then have "spineDepth c + d \<le> maxTraversalDepth" using lim by simp
      then show ?thesis using left App lim by (simp add: traverse_node del: traverseFVLeftSpine.simps)
    next
      case (Case e alts)
      then show ?thesis using step lim by (auto simp: traverse_node case_prod_unfold overflow_mergeAll)
    next
      case (RecordLit fs)
      then show ?thesis using step lim by (auto simp: traverse_node case_prod_unfold overflow_mergeAll)
    next
      case (RecordUpdate e fs)
      then show ?thesis using step lim by (auto simp: traverse_node case_prod_unfold overflow_mergeAll)
    next
      case (Var n m i)
      then show ?thesis using lim by (simp add: traverse_node fvNone_def)
    qed (use step lim in \<open>auto simp: traverse_node case_prod_unfold overflow_mergeAll Let_def\<close>)
  qed
  show ?case
  proof (cases "spineNode c")
    case False
    then have "traverseFVLeftSpine c d = traverseFV c (d + 1)" "spineDepth c = Suc (irDepth c)" by (cases c; auto)+
    then show ?thesis using main by simp
  qed (use main left in blast)
qed

lemma FreeVars_complete: "irDepth c \<le> maxTraversalDepth \<Longrightarrow> snd (FreeVars c) = False"
  using traverse_no_overflow [of c 0] by (simp add: FreeVars_def Let_def)

lemma FreeVars_keys: "FreeVars c = (ks, False) \<Longrightarrow> set ks = freeBy patDeleted c"
  using traverse_holds [of c 0] by (auto simp: FreeVars_def Let_def holds_def keysOf_def split: if_splits)

section \<open>The names patterns bind\<close>

lemma patDeleted_Bindings: "set (patDeleted p) \<subseteq> set (Bindings p)"
proof (induction p rule: patDeleted.induct)
  case (3 fs)
  then have "set (case f of (l, p) \<Rightarrow> patDeleted p) \<subseteq> set (case f of (l, p) \<Rightarrow> Bindings p)" if "f \<in> set fs" for f
    using that by (cases f) auto
  then have "(\<Union>f \<in> set fs. set (case f of (l, p) \<Rightarrow> patDeleted p)) \<subseteq> (\<Union>f \<in> set fs. set (case f of (l, p) \<Rightarrow> Bindings p))"
    by (rule UN_mono [OF subset_refl])
  then show ?case by simp
qed auto

fun noPayloadPat :: "pat \<Rightarrow> bool" where
  "noPayloadPat (PCon c m args) \<longleftrightarrow> list_all noPayloadPat args"
| "noPayloadPat (PRecord fs) \<longleftrightarrow> list_all (\<lambda>(l, p). noPayloadPat p) fs"
| "noPayloadPat (PLabel l x) \<longleftrightarrow> \<not> HasPayload x"
| "noPayloadPat p \<longleftrightarrow> True"

lemma noPayload_Bindings: "noPayloadPat p \<Longrightarrow> set (patDeleted p) = set (Bindings p)"
proof (induction p rule: patDeleted.induct)
  case (3 fs)
  then have "set (case f of (l, p) \<Rightarrow> patDeleted p) = set (case f of (l, p) \<Rightarrow> Bindings p)" if "f \<in> set fs" for f
    using that by (cases f) (auto simp: list_all_iff)
  then show ?case by auto
qed (auto simp: list_all_iff)

text \<open>No pattern of the term binds the payload of a variant.\<close>

function noPayload :: "'a core \<Rightarrow> bool" where
  "noPayload c \<longleftrightarrow>
     (case c of Case e alts \<Rightarrow> list_all (\<lambda>(p, b, g). noPayloadPat p) alts | _ \<Rightarrow> True) \<and> (\<forall>k \<in> set (kids c). noPayload k)"
  by auto
termination by (relation "measure size") (auto dest: kids_size simp: scoped_size)

declare noPayload.simps [simp del]

lemma freeBy_node: "(\<forall>n m i. c \<noteq> Var n m i) \<Longrightarrow>
    freeBy pb c = (\<Union>(ns, k) \<in> set (scopedBy pb c). freeBy pb k - LocalKey ` set ns)"
  by (subst freeBy.simps) (cases c; simp)

lemma freeBy_mono:
  assumes "\<And>p. set (pb p) \<subseteq> set (pb' p)"
  shows "freeBy pb' c \<subseteq> freeBy pb c"
proof (induction c rule: core_induct)
  case (node c)
  have kid: "freeBy pb' k \<subseteq> freeBy pb k" if k: "k \<in> set (kids c)" for k
  proof -
    obtain ns where "(ns, k) \<in> set (scoped c)" using k by auto
    then show ?thesis by (rule node)
  qed
  show ?case
  proof (cases c)
    case (Case e alts)
    have "freeBy pb' b - LocalKey ` set (pb' p) \<subseteq> freeBy pb b - LocalKey ` set (pb p)" if "(p, b, g) \<in> set alts" for p b g
      using kid [of b] alt_kid [OF that] Case assms [of p] by auto
    then have "(\<Union>(p, b, g) \<in> set alts. freeBy pb' b - LocalKey ` set (pb' p)) \<subseteq>
        (\<Union>(p, b, g) \<in> set alts. freeBy pb b - LocalKey ` set (pb p))"
      by (intro UN_mono subset_refl) (simp only: split_paired_all prod.case)
    then show ?thesis using kid [of e] Case by (simp add: le_supI1 le_supI2)
  next
    case (RecordLit fs)
    have "freeBy pb' e \<subseteq> freeBy pb e" if "(l, e) \<in> set fs" for l e using kid [of e] field_kid [OF that] RecordLit by simp
    then have "(\<Union>(l, e) \<in> set fs. freeBy pb' e) \<subseteq> (\<Union>(l, e) \<in> set fs. freeBy pb e)"
      by (intro UN_mono subset_refl) (simp only: split_paired_all prod.case)
    then show ?thesis using RecordLit by simp
  next
    case (RecordUpdate r fs)
    have "freeBy pb' e \<subseteq> freeBy pb e" if "(l, e) \<in> set fs" for l e using kid [of e] field_kid [OF that] RecordUpdate by simp
    then have "(\<Union>(l, e) \<in> set fs. freeBy pb' e) \<subseteq> (\<Union>(l, e) \<in> set fs. freeBy pb e)"
      by (intro UN_mono subset_refl) (simp only: split_paired_all prod.case)
    then show ?thesis using RecordUpdate kid [of r] by (simp add: le_supI1 le_supI2)
  qed (use kid in \<open>auto dest!: subsetD\<close>)
qed

lemma freeBy_noPayload: "noPayload c \<Longrightarrow> freeBy patDeleted c = freeKeys c"
proof (induction c rule: core_induct)
  case (node c)
  have kid: "freeBy patDeleted k = freeKeys k" if "k \<in> set (kids c)" for k
    using node that noPayload.simps [of c] by auto
  show ?case
  proof (cases c)
    case (Case e alts)
    have "list_all (\<lambda>(p, b, g). noPayloadPat p) alts" using node.prems noPayload.simps [of c] Case by simp
    then have "freeBy patDeleted b - LocalKey ` set (patDeleted p) = freeKeys b - LocalKey ` set (Bindings p)"
      if "(p, b, g) \<in> set alts" for p b g
      using that kid [of b] noPayload_Bindings [of p] alt_kid [OF that] Case by (auto simp: list_all_iff)
    then have "(\<Union>(p, b, g) \<in> set alts. freeBy patDeleted b - LocalKey ` set (patDeleted p)) =
        (\<Union>(p, b, g) \<in> set alts. freeKeys b - LocalKey ` set (Bindings p))"
      by (intro SUP_cong refl) (simp only: split_paired_all prod.case)
    then show ?thesis using Case kid [of e] by simp
  qed (use kid in \<open>auto simp: field_kid case_prod_unfold\<close>)
qed

section \<open>The annotations\<close>

text \<open>The free variables each slot of a node should list.\<close>

fun slots :: "'a core \<Rightarrow> ('a \<times> varKey set) list" where
  "slots (Lam s x t b g) = [(s, freeBy patDeleted b - {LocalKey x})]"
| "slots (Thunk s e) = [(s, freeBy patDeleted e)]"
| "slots (Merge s1 s2 l r ls rs) = [(s1, freeBy patDeleted l), (s2, freeBy patDeleted r)]"
| "slots c = []"

definition slotOK :: "fvInfo option \<Rightarrow> varKey set \<Rightarrow> bool" where
  "slotOK s K \<longleftrightarrow> (\<exists>i. s = Some i \<and> \<not> fvi_overflow i \<and> fvi_indices i = None \<and> sorted (fvi_vars i) \<and>
     distinct (fvi_vars i) \<and> set (fvi_vars i) = {n. LocalKey n \<in> K})"

function annOK :: "annotated \<Rightarrow> bool" where
  "annOK c \<longleftrightarrow> (\<forall>(s, K) \<in> set (slots c). slotOK s K) \<and> (\<forall>k \<in> set (kids c). annOK k)"
  by auto
termination by (relation "measure size") (auto dest: kids_size simp: scoped_size)

declare annOK.simps [simp del]

lemma slotOK_result:
  assumes "holds r K" "\<not> fv_overflow r"
  shows "slotOK (Some (fvInfoFromResult r)) K"
proof (cases "fv_vars r")
  case None
  then show ?thesis using assms
    by (auto simp: slotOK_def fvInfoFromResult_def fvResultToSlice_def holds_def keysOf_def fvResultToMap_def
        IsUnqualified_def LocalKey_def prod_eq_iff)
next
  case (Some vs)
  have "inj_on snd (set (filter IsUnqualified vs))" by (auto simp: inj_on_def IsUnqualified_def)
  then have "distinct (map snd (filter IsUnqualified vs))" using assms(1) Some by (simp add: distinct_map holds_def)
  moreover have "snd ` set (filter IsUnqualified vs) = {n. LocalKey n \<in> set vs}"
    by (force simp: IsUnqualified_def LocalKey_def)
  moreover have "K = set vs" using assms Some by (simp add: holds_def keysOf_def fvResultToMap_def)
  ultimately show ?thesis using assms(2) Some
    by (simp add: slotOK_def fvInfoFromResult_def fvResultToSlice_def setToSlice_def)
qed

lemma scoped_map: "scoped (map_core f c) = map (apsnd (map_core f)) (scoped c)"
  by (cases c) (auto simp: apsnd_def)

lemma freeBy_map [simp]: "freeBy pb (map_core f c) = freeBy pb c"
proof (induction c rule: core_induct)
  case (node c)
  have kid: "freeBy pb (map_core f k) = freeBy pb k" if "k \<in> set (kids c)" for k using node that by auto
  show ?case
  proof (cases c)
    case (Case e alts)
    have "freeBy pb (map_core f b) = freeBy pb b" if "(p, b, g) \<in> set alts" for p b g
      using kid [of b] alt_kid [OF that] Case by simp
    then show ?thesis using Case kid [of e] by (auto simp: case_prod_unfold)
  next
    case (RecordLit fs)
    have "freeBy pb (map_core f e) = freeBy pb e" if "(l, e) \<in> set fs" for l e
      using kid [of e] field_kid [OF that] RecordLit by simp
    then show ?thesis using RecordLit by (auto simp: case_prod_unfold)
  next
    case (RecordUpdate r fs)
    have "freeBy pb (map_core f e) = freeBy pb e" if "(l, e) \<in> set fs" for l e
      using kid [of e] field_kid [OF that] RecordUpdate by simp
    then show ?thesis using RecordUpdate kid [of r] by (auto simp: case_prod_unfold)
  qed (use kid in auto)
qed

abbreviation erase :: "'a core \<Rightarrow> unit core" where "erase c \<equiv> map_core (\<lambda>_. ()) c"

lemma freeBy_erase: "erase c = erase c' \<Longrightarrow> freeBy pb c = freeBy pb c'"
  by (metis freeBy_map)

lemma traverse_shape:
  "erase (snd (traverseFV c d)) = erase c \<and> erase (snd (traverseFVLeftSpine c d)) = erase c"
proof (induction c arbitrary: d rule: core_induct)
  case (node c)
  have kid: "erase (snd (traverseFV k d)) = erase k" if "k \<in> set (kids c)" for k d using node that by auto
  have spine: "erase (snd (traverseFVLeftSpine k d)) = erase k" if "k \<in> set (kids c)" for k d using node that by auto
  have left: "erase (snd (traverseFVLeftSpine c d)) = erase c" if "spineNode c" for d
    using that kid spine by (cases c) (auto simp: case_prod_unfold)
  have main: "erase (snd (traverseFV c d)) = erase c" for d
  proof (cases "d > maxTraversalDepth")
    case True
    then show ?thesis by (simp add: traverseFV.simps [of c] unvisited_def core.map_comp comp_def)
  next
    case ok: False
    show ?thesis
    proof (cases c)
      case (App f a)
      then show ?thesis using left ok by (simp add: traverse_node del: traverseFVLeftSpine.simps)
    next
      case (Case e alts)
      have "erase (snd (traverseFV b d)) = erase b" if "(p, b, g) \<in> set alts" for p b g d
        using kid [of b] alt_kid [OF that] Case by simp
      then show ?thesis using Case ok kid [of e] by (auto simp: traverse_node case_prod_unfold)
    next
      case (RecordLit fs)
      have "erase (snd (traverseFV e d)) = erase e" if "(l, e) \<in> set fs" for l e d
        using kid [of e] field_kid [OF that] RecordLit by simp
      then show ?thesis using RecordLit ok by (auto simp: traverse_node case_prod_unfold)
    next
      case (RecordUpdate r fs)
      have "erase (snd (traverseFV e d)) = erase e" if "(l, e) \<in> set fs" for l e d
        using kid [of e] field_kid [OF that] RecordUpdate by simp
      then show ?thesis using RecordUpdate ok kid [of r] by (auto simp: traverse_node case_prod_unfold)
    qed (use ok kid in \<open>auto simp: traverse_node case_prod_unfold Let_def\<close>)
  qed
  show ?case
  proof (cases "spineNode c")
    case False
    then have "traverseFVLeftSpine c d = traverseFV c (d + 1)" by (cases c) auto
    then show ?thesis using main by simp
  qed (use main left in blast)
qed

lemmas traverse_free [simp] = freeBy_erase [OF traverse_shape [THEN conjunct1]] freeBy_erase [OF traverse_shape [THEN conjunct2]]

lemma annOK_node:
  "annOK c \<longleftrightarrow> (\<forall>(s, K) \<in> set (slots c). slotOK s K) \<and> list_all annOK (kids c)"
  by (subst annOK.simps) (simp add: list_all_iff)

lemma traverse_annOK:
  "(irDepth c + d \<le> maxTraversalDepth \<longrightarrow> annOK (snd (traverseFV c d))) \<and>
   (spineDepth c + d \<le> maxTraversalDepth \<longrightarrow> annOK (snd (traverseFVLeftSpine c d)))"
proof (induction c arbitrary: d rule: core_induct)
  case (node c)
  have kid: "annOK (snd (traverseFV k d))" if "k \<in> set (kids c)" "irDepth k + d \<le> maxTraversalDepth" for k d
    using node that by auto
  have spine: "annOK (snd (traverseFVLeftSpine k d))" if "k \<in> set (kids c)" "spineDepth k + d \<le> maxTraversalDepth" for k d
    using node that by auto
  have left: "annOK (snd (traverseFVLeftSpine c d))" if "spineNode c" "spineDepth c + d \<le> maxTraversalDepth" for d
    using that kid spine by (cases c) (auto simp: case_prod_unfold annOK_node [of "App _ _"] annOK_node [of "TyApp _ _"] annOK_node [of "TyLam _ _ _"])
  have main: "annOK (snd (traverseFV c d))" if lim: "irDepth c + d \<le> maxTraversalDepth" for d
  proof -
    have d: "\<not> d > maxTraversalDepth" using lim by simp
    have step: "annOK (snd (traverseFV k (Suc d)))" if "k \<in> set (kids c)" "\<not> isApp c" for k
      using kid [OF that(1), of "Suc d"] kid_depth [OF that] lim by simp
    have slot: "slotOK (Some (fvInfoFromResult (fst (traverseFV k (Suc d))))) (freeBy patDeleted k)"
      "slotOK (Some (fvInfoFromResult (deleteByName x (fst (traverseFV k (Suc d)))))) (freeBy patDeleted k - {LocalKey x})"
      if "k \<in> set (kids c)" "\<not> isApp c" for k x
      using traverse_no_overflow [of k "Suc d"] kid_depth [OF that] lim traverse_holds [of k "Suc d"]
      by (auto intro!: slotOK_result holds_deleteByName)
    show ?thesis
    proof (cases c)
      case (App f a)
      then have "spineDepth c + d \<le> maxTraversalDepth" using lim by simp
      then show ?thesis using left App lim d by (simp add: traverse_node del: traverseFVLeftSpine.simps)
    next
      case (Case e alts)
      have "annOK (snd (traverseFV b (Suc d)))" if "(p, b, g) \<in> set alts" for p b g
        using step [of b] alt_kid [OF that] Case by simp
      then show ?thesis using Case d step [of e]
        by (auto simp: traverse_node case_prod_unfold annOK_node [of "Case _ _"] list_all_iff)
    next
      case (RecordLit fs)
      have "annOK (snd (traverseFV e (Suc d)))" if "(l, e) \<in> set fs" for l e
        using step [of e] field_kid [OF that] RecordLit by simp
      then show ?thesis using RecordLit d by (auto simp: traverse_node case_prod_unfold annOK_node [of "RecordLit _"] list_all_iff)
    next
      case (RecordUpdate r fs)
      have "annOK (snd (traverseFV e (Suc d)))" if "(l, e) \<in> set fs" for l e
        using step [of e] field_kid [OF that] RecordUpdate by simp
      then show ?thesis using RecordUpdate d step [of r]
        by (auto simp: traverse_node case_prod_unfold annOK_node [of "RecordUpdate _ _"] list_all_iff)
    next
      case (Lam s x t b g)
      then show ?thesis using d step [of b] slot(2) [of b x]
        by (simp add: traverse_node case_prod_unfold Let_def annOK_node [of "Lam _ _ _ _ _"])
    next
      case (Thunk s e)
      then show ?thesis using d step [of e] slot(1) [of e] by (simp add: traverse_node case_prod_unfold annOK_node [of "Thunk _ _"])
    next
      case (Merge s1 s2 l r ls rs)
      then show ?thesis using d step [of l] step [of r] slot(1) [of l] slot(1) [of r]
        by (simp add: traverse_node case_prod_unfold annOK_node [of "Merge _ _ _ _ _ _"])
    qed (use d step in \<open>auto simp: traverse_node case_prod_unfold Let_def list_all_iff annOK_node [of "Var _ _ _"] annOK_node [of "TyApp _ _"]
        annOK_node [of "TyLam _ _ _"] annOK_node [of "Con _ _ _ _"] annOK_node [of "Fix _ _"] annOK_node [of "Pure _"]
        annOK_node [of "Bind _ _ _ _ _"] annOK_node [of "Force _"] annOK_node [of "PrimOp _ _ _ _"] annOK_node [of "Lit _"]
        annOK_node [of "RecordProj _ _"] annOK_node [of "VariantLit _ _"] annOK_node [of CoreError]\<close>)
  qed
  show ?case
  proof (cases "spineNode c")
    case False
    then have "traverseFVLeftSpine c d = traverseFV c (d + 1)" "spineDepth c = Suc (irDepth c)" by (cases c; auto)+
    then show ?thesis using main by simp
  qed (use main left in blast)
qed

section \<open>Properties\<close>

text \<open>
  C12: \<^verbatim>\<open>FreeVars\<close> is complete on every term whose nesting (a chain of applications counted once) is within
  the traversal limit, and returns each free variable of the term once: the result always contains the
  variables that are free under the scoping of all binders, and is exactly that set for terms in which no
  pattern binds a variant payload.
\<close>

theorem free_vars_correct:
  assumes "irDepth c \<le> maxTraversalDepth"
  shows "\<exists>ks. FreeVars c = (ks, False) \<and> distinct ks \<and> freeKeys c \<subseteq> set ks \<and> (noPayload c \<longrightarrow> set ks = freeKeys c)"
proof -
  obtain ks where ks: "FreeVars c = (ks, False)" using FreeVars_complete [OF assms] by (cases "FreeVars c") auto
  then have "set ks = freeBy patDeleted c" by (rule FreeVars_keys)
  moreover have "distinct ks"
    using ks traverse_holds [of c 0]
    by (auto simp: FreeVars_def Let_def holds_def fvResultToMap_def split: if_splits option.splits)
  ultimately show ?thesis
    using ks freeBy_mono [of patDeleted Bindings c] patDeleted_Bindings freeBy_noPayload [of c] by auto
qed

theorem free_vars_correct_witness:
  "\<exists>ks. FreeVars (Lam () ''x'' None (App (localVar ''f'') (localVar ''x'')) UserWritten) = (ks, False) \<and>
     LocalKey ''f'' \<in> set ks \<and> set ks = {LocalKey ''f''}"
proof -
  let ?c = "Lam () ''x'' None (App (localVar ''f'') (localVar ''x'')) UserWritten"
  have "noPayload ?c"
    by (simp add: noPayload.simps [of "Lam _ _ _ _ _"] noPayload.simps [of "App _ _"] noPayload.simps [of "Var _ _ _"] localVar_def)
  moreover have "freeKeys ?c = {LocalKey ''f''}" by (auto simp: localVar_def LocalKey_def)
  ultimately show ?thesis using free_vars_correct [of ?c] by (auto simp: localVar_def)
qed



text \<open>A pattern that binds a variant payload leaves its variable in the result.\<close>

theorem payload_stays_free:
  "freeKeys (Case (localVar ''v'') [(PLabel ''tag'' ''x'', localVar ''x'', UserWritten)]) = {LocalKey ''v''} \<and>
   FreeVars (Case (localVar ''v'') [(PLabel ''tag'' ''x'', localVar ''x'', UserWritten)]) = ([LocalKey ''v'', LocalKey ''x''], False)"
  by (simp add: localVar_def FreeVars_def traverse_node Let_def mergeAll_def mergeFV_def fvNone_def fvResultToMap_def
      LocalKey_def HasPayload_def)

end
