(* ===== verification/Core_Index.thy ===== *)
theory Core_Index
  imports Core_Free_Laws
begin

text \<open>
  De Bruijn indices, \<^verbatim>\<open>internal/lang/ir/index.go\<close>. A scope maps the local names in reach to their positions in the
  runtime environment, innermost first; a Go map without entries and nil behave the same. The pass
  reads the annotation of each closure it meets and stores the captured positions there; where an
  annotation is missing, \<^verbatim>\<open>LookupLam\<close>, \<^verbatim>\<open>LookupThunk\<close> and \<^verbatim>\<open>LookupMerge\<close> panic, and so does the model (\<open>None\<close>).
\<close>

section \<open>Scopes\<close>

type_synonym scope = "string \<Rightarrow> nat option"

definition shiftScope :: "scope \<Rightarrow> nat \<Rightarrow> scope" where
  "shiftScope sc n = (\<lambda>k. map_option (\<lambda>i. i + n) (sc k))"

text \<open>The positions a loop \<^verbatim>\<open>for i, name := range names\<close> assigns: \<^verbatim>\<open>off + len(names) - 1 - i\<close>.\<close>

definition ranks :: "nat \<Rightarrow> nat \<Rightarrow> nat list" where
  "ranks off n = map (\<lambda>i. off + (n - 1 - i)) [0..<n]"

definition bindScope :: "scope \<Rightarrow> string list \<Rightarrow> scope" where
  "bindScope sc names = (shiftScope sc (length names))(names [\<mapsto>] ranks 0 (length names))"

text \<open>The names a closure captures from the enclosing scope with their positions there.\<close>

definition localFVs :: "string list \<Rightarrow> string option \<Rightarrow> scope \<Rightarrow> (string \<times> nat) list" where
  "localFVs vars fixName sc =
     List.map_filter (\<lambda>n. if fixName = Some n then None else map_option (Pair n) (sc n)) vars"

definition withIndices :: "fvInfo \<Rightarrow> (string \<times> nat) list \<Rightarrow> fvInfo" where
  "withIndices info locs = info\<lparr> fvi_indices := Some (map snd locs) \<rparr>"

section \<open>The pass\<close>

lemma option_bind_cong [fundef_cong]:
  "x = x' \<Longrightarrow> (\<And>a. x' = Some a \<Longrightarrow> f a = f' a) \<Longrightarrow> Option.bind x f = Option.bind x' f'"
  by (cases x') auto

function (sequential) assignIndices :: "annotated \<Rightarrow> scope \<Rightarrow> nat \<Rightarrow> annotated option"
  and assignIndicesLeftSpine :: "annotated \<Rightarrow> scope \<Rightarrow> annotated option"
  and assignBindChain :: "annotated \<Rightarrow> scope \<Rightarrow> nat \<Rightarrow> annotated option"
  and assignFixBody :: "string \<Rightarrow> annotated \<Rightarrow> scope \<Rightarrow> nat \<Rightarrow> annotated option" where
  "assignIndices c sc d =
     (if d > maxTraversalDepth then (case c of App f a \<Rightarrow> assignIndicesLeftSpine c sc | _ \<Rightarrow> Some c)
      else case c of
        Var n m i \<Rightarrow> Some (Var n m (case sc n of Some idx \<Rightarrow> int idx | None \<Rightarrow> - 1))
      | Lam s x t b g \<Rightarrow>
          (case s of
             None \<Rightarrow> None
           | Some info \<Rightarrow>
               if fvi_overflow info
               then map_option (\<lambda>b'. Lam (Some (info\<lparr> fvi_indices := None \<rparr>)) x t b' g)
                      (assignIndices b ((shiftScope sc 1)(x \<mapsto> 0)) (d + 1))
               else let locs = localFVs (fvi_vars info) None sc;
                        captured = [x \<mapsto> 0](map fst locs [\<mapsto>] ranks 1 (length locs))
                    in map_option (\<lambda>b'. Lam (Some (withIndices info locs)) x t b' g) (assignIndices b captured (d + 1)))
      | App f a \<Rightarrow> assignIndicesLeftSpine c sc
      | TyApp e t \<Rightarrow> map_option (\<lambda>e'. TyApp e' t) (assignIndices e sc (d + 1))
      | TyLam x k b \<Rightarrow> map_option (\<lambda>b'. TyLam x k b') (assignIndices b sc (d + 1))
      | Con n m args dict \<Rightarrow> map_option (\<lambda>as. Con n m as dict) (those (map (\<lambda>a. assignIndices a sc (d + 1)) args))
      | Case e alts \<Rightarrow>
          Option.bind (assignIndices e sc (d + 1)) (\<lambda>e'.
          map_option (Case e') (those (map (\<lambda>(p, b, g).
            map_option (\<lambda>b'. (p, b', g)) (assignIndices b (bindScope sc (Bindings p)) (d + 1))) alts)))
      | Fix x b \<Rightarrow>
          map_option (Fix x)
            (case PeelTyLam b of
               Lam s y t b' g \<Rightarrow> assignFixBody x b sc (d + 1)
             | Thunk s e \<Rightarrow> assignFixBody x b sc (d + 1)
             | _ \<Rightarrow> assignIndices b sc (d + 1))
      | Pure e \<Rightarrow> map_option Pure (assignIndices e sc (d + 1))
      | Bind e x b disc g \<Rightarrow>
          Option.bind (assignIndices e sc (d + 1)) (\<lambda>e'.
          map_option (\<lambda>b'. Bind e' x b' disc g) (assignBindChain b ((shiftScope sc 1)(x \<mapsto> 0)) (d + 1)))
      | Thunk s e \<Rightarrow>
          (case s of
             None \<Rightarrow> None
           | Some info \<Rightarrow>
               if fvi_overflow info
               then map_option (Thunk (Some (info\<lparr> fvi_indices := None \<rparr>))) (assignIndices e sc (d + 1))
               else let locs = localFVs (fvi_vars info) None sc;
                        captured = Map.empty(map fst locs [\<mapsto>] ranks 0 (length locs))
                    in map_option (Thunk (Some (withIndices info locs))) (assignIndices e captured (d + 1)))
      | Force e \<Rightarrow> map_option Force (assignIndices e sc (d + 1))
      | Merge s1 s2 l r ll rl \<Rightarrow>
          (case (s1, s2) of
             (Some i1, Some i2) \<Rightarrow>
               let locs1 = localFVs (fvi_vars i1) None sc; locs2 = localFVs (fvi_vars i2) None sc;
                   sc1 = (if fvi_overflow i1 then sc else Map.empty(map fst locs1 [\<mapsto>] ranks 0 (length locs1)));
                   sc2 = (if fvi_overflow i2 then sc else Map.empty(map fst locs2 [\<mapsto>] ranks 0 (length locs2)));
                   i1' = (if fvi_overflow i1 then i1\<lparr> fvi_indices := None \<rparr> else withIndices i1 locs1);
                   i2' = (if fvi_overflow i2 then i2\<lparr> fvi_indices := None \<rparr> else withIndices i2 locs2)
               in Option.bind (assignIndices l sc1 (d + 1)) (\<lambda>l'.
                  map_option (\<lambda>r'. Merge (Some i1') (Some i2') l' r' ll rl) (assignIndices r sc2 (d + 1)))
           | _ \<Rightarrow> None)
      | PrimOp n k eff args \<Rightarrow> map_option (PrimOp n k eff) (those (map (\<lambda>a. assignIndices a sc (d + 1)) args))
      | Lit v \<Rightarrow> Some (Lit v)
      | RecordLit fs \<Rightarrow>
          map_option RecordLit (those (map (\<lambda>(l, e). map_option (Pair l) (assignIndices e sc (d + 1))) fs))
      | RecordProj e l \<Rightarrow> map_option (\<lambda>e'. RecordProj e' l) (assignIndices e sc (d + 1))
      | RecordUpdate e fs \<Rightarrow>
          Option.bind (assignIndices e sc (d + 1)) (\<lambda>e'.
          map_option (RecordUpdate e') (those (map (\<lambda>(l, e). map_option (Pair l) (assignIndices e sc (d + 1))) fs)))
      | VariantLit t e \<Rightarrow> map_option (VariantLit t) (assignIndices e sc (d + 1))
      | CoreError \<Rightarrow> Some CoreError)"
| "assignIndicesLeftSpine (App f a) sc =
     Option.bind (assignIndicesLeftSpine f sc) (\<lambda>f'. map_option (App f') (assignIndices a sc 0))"
| "assignIndicesLeftSpine (TyApp e t) sc = map_option (\<lambda>e'. TyApp e' t) (assignIndicesLeftSpine e sc)"
| "assignIndicesLeftSpine (TyLam x k b) sc = map_option (\<lambda>b'. TyLam x k b') (assignIndicesLeftSpine b sc)"
| "assignIndicesLeftSpine c sc = assignIndices c sc 0"
| "assignBindChain (Bind e x b disc g) sc d =
     Option.bind (assignIndices e sc (d + 1)) (\<lambda>e'.
     map_option (\<lambda>b'. Bind e' x b' disc g) (assignBindChain b ((shiftScope sc 1)(x \<mapsto> 0)) (d + 1)))"
| "assignBindChain c sc d = assignIndices c sc (d + 1)"
| "assignFixBody f (TyLam x k b) sc d = map_option (\<lambda>b'. TyLam x k b') (assignFixBody f b sc d)"
| "assignFixBody f (Lam s x t b g) sc d =
     (case s of
        None \<Rightarrow> None
      | Some info \<Rightarrow>
          if fvi_overflow info
          then map_option (\<lambda>b'. Lam (Some (info\<lparr> fvi_indices := None \<rparr>)) x t b' g)
                 (assignIndices b ((shiftScope ((shiftScope sc 1)(x \<mapsto> 0)) 1)(f \<mapsto> 0)) (d + 1))
          else let locs = localFVs (fvi_vars info) (Some f) sc;
                   captured = [x \<mapsto> 0, f \<mapsto> 1](map fst locs [\<mapsto>] ranks 2 (length locs))
               in map_option (\<lambda>b'. Lam (Some (withIndices info locs)) x t b' g) (assignIndices b captured (d + 1)))"
| "assignFixBody f (Thunk s e) sc d =
     (case s of
        None \<Rightarrow> None
      | Some info \<Rightarrow>
          if fvi_overflow info
          then map_option (Thunk (Some (info\<lparr> fvi_indices := None \<rparr>))) (assignIndices e ((shiftScope sc 1)(f \<mapsto> 0)) (d + 1))
          else let locs = localFVs (fvi_vars info) (Some f) sc;
                   captured = [f \<mapsto> 0](map fst locs [\<mapsto>] ranks 1 (length locs))
               in map_option (Thunk (Some (withIndices info locs))) (assignIndices e captured (d + 1)))"
| "assignFixBody f c sc d = assignIndices c sc d"
  by pat_completeness auto
termination
  by (relation "measures [\<lambda>x. case x of Inl (Inl (c, _)) \<Rightarrow> size c | Inl (Inr (c, _)) \<Rightarrow> size c
        | Inr (Inl (c, _)) \<Rightarrow> size c | Inr (Inr (_, c, _)) \<Rightarrow> size c,
      \<lambda>x. case x of Inl (Inl (c, _)) \<Rightarrow> (case c of App _ _ \<Rightarrow> 2 | _ \<Rightarrow> 0) | Inl (Inr (c, _)) \<Rightarrow> (1 :: nat)
        | Inr (Inl (c, _)) \<Rightarrow> 3 | Inr (Inr (_, c, _)) \<Rightarrow> 3]")
    (auto dest!: size_mem_list size_mem_pair size_mem_alt)

declare assignIndices.simps [simp del]

definition AssignIndices :: "annotated \<Rightarrow> annotated option" where
  "AssignIndices c = assignIndices c Map.empty 0"

definition AssignIndicesProgram :: "(string \<times> annotated) list \<Rightarrow> (string \<times> annotated) list option" where
  "AssignIndicesProgram bs = those (map (\<lambda>(n, e). map_option (Pair n) (AssignIndices e)) bs)"

end
