(* ===== verification/Vm_Compiler.thy ===== *)
theory Vm_Compiler
  imports Vm_Code Core_Index
begin

text \<open>
  The bytecode compiler, \<^verbatim>\<open>internal/runtime/vm/compiler.go\<close> (frames and pools), \<^verbatim>\<open>compiler_emit.go\<close>, \<^verbatim>\<open>compiler_expr.go\<close>, \<^verbatim>\<open>compiler_match.go\<close>, \<^verbatim>\<open>compiler_closure.go\<close>. The compiler
  is a stack of frames, the current one first, with pools of descriptors and locals that the frames share; each operation is a function on it that may panic. Terms carry the annotations of
  \<open>Core_Index\<close>. Terms have no spans here, so the span table of a prototype is empty. A constant is a fresh Go pointer each time, so the search for an equal constant in
  \<^verbatim>\<open>addConstant\<close> never succeeds and is left out.
\<close>

section \<open>The compiler's state\<close>

record cframe =
  cf_code :: "8 word list"
  cf_constants :: "val list"
  cf_strings :: "string list"
  cf_protos :: "proto list"
  cf_matchStart :: nat
  cf_matchEnd :: nat
  cf_recordStart :: nat
  cf_recordEnd :: nat
  cf_mergeStart :: nat
  cf_mergeEnd :: nat
  cf_localsStart :: nat
  cf_localsEnd :: nat
  cf_numLocals :: nat
  cf_captures :: "nat list"
  cf_bindNames :: "(nat \<times> string) list"
  cf_isThunk :: bool
  cf_params :: "string list"
  cf_fixSelfSlot :: int

record compiler =
  co_frames :: "cframe list"
  co_matchDescs :: "matchDesc list"
  co_recordDescs :: "string list list"
  co_mergeDescs :: "mergeDesc list"
  co_locals :: "(string \<times> nat) list"

datatype primInfo = PrimInfo (piName: string) (piArity: nat) (piEffectful: bool)

record compEnv =
  ce_globalSlots :: "varKey \<Rightarrow> nat option"
  ce_globalPrims :: "varKey \<Rightarrow> primInfo option"
  ce_source :: "source option"

datatype cpanic = PoolOverflowError string | CompilerPanic string

type_synonym 'a comp = "compiler \<Rightarrow> cpanic + 'a \<times> compiler"

definition retC :: "'a \<Rightarrow> 'a comp" where "retC a st = Inr (a, st)"

definition thenC :: "'a comp \<Rightarrow> ('a \<Rightarrow> 'b comp) \<Rightarrow> 'b comp" where
  "thenC m k st = (case m st of Inl e \<Rightarrow> Inl e | Inr (a, st') \<Rightarrow> k a st')"

definition panicC :: "cpanic \<Rightarrow> 'a comp" where "panicC e st = Inl e"

abbreviation seqC :: "'a comp \<Rightarrow> 'b comp \<Rightarrow> 'b comp" where "seqC m k \<equiv> thenC m (\<lambda>_. k)"

text \<open>Reading and updating the current frame; without a frame \<^verbatim>\<open>top()\<close> is an index out of range.\<close>

definition withTop :: "(cframe \<Rightarrow> 'a comp) \<Rightarrow> 'a comp" where
  "withTop k st = (case co_frames st of [] \<Rightarrow> Inl (CompilerPanic ''no frame'') | f # fs \<Rightarrow> k f st)"

definition putTop :: "cframe \<Rightarrow> unit comp" where
  "putTop f st = Inr ((), st\<lparr> co_frames := f # drop 1 (co_frames st) \<rparr>)"

definition modTop :: "(cframe \<Rightarrow> cframe) \<Rightarrow> unit comp" where
  "modTop h = withTop (\<lambda>f. putTop (h f))"

section \<open>Frames and pools\<close>

definition newFrame :: "compiler \<Rightarrow> cframe" where
  "newFrame st =
     \<lparr> cf_code = [], cf_constants = [], cf_strings = [], cf_protos = [],
       cf_matchStart = length (co_matchDescs st), cf_matchEnd = length (co_matchDescs st),
       cf_recordStart = length (co_recordDescs st), cf_recordEnd = length (co_recordDescs st),
       cf_mergeStart = length (co_mergeDescs st), cf_mergeEnd = length (co_mergeDescs st),
       cf_localsStart = length (co_locals st), cf_localsEnd = length (co_locals st),
       cf_numLocals = 0, cf_captures = [], cf_bindNames = [], cf_isThunk = False, cf_params = [], cf_fixSelfSlot = - 1 \<rparr>"

definition enterFrame :: "unit comp" where
  "enterFrame st = Inr ((), st\<lparr> co_frames := newFrame st # co_frames st \<rparr>)"

definition subPool :: "'a list \<Rightarrow> nat \<Rightarrow> nat \<Rightarrow> 'a list" where
  "subPool pool start stop = drop start (take stop pool)"

definition leaveFrame :: "compEnv \<Rightarrow> proto comp" where
  "leaveFrame E = withTop (\<lambda>f st.
     let p = Proto (cf_code f) (cf_constants f) (cf_strings f) (cf_protos f) (cf_numLocals f) (cf_captures f) (cf_isThunk f) (cf_params f)
           (cf_fixSelfSlot f) (subPool (co_matchDescs st) (cf_matchStart f) (cf_matchEnd f))
           (subPool (co_recordDescs st) (cf_recordStart f) (cf_recordEnd f)) (subPool (co_mergeDescs st) (cf_mergeStart f) (cf_mergeEnd f))
           [] (ce_source E) (cf_bindNames f)
     in Inr (p, st\<lparr> co_locals := take (cf_localsStart f) (co_locals st), co_frames := drop 1 (co_frames st) \<rparr>))"

abbreviation maxPoolSize :: nat where "maxPoolSize \<equiv> 65535"

definition poolOverflow :: "string \<Rightarrow> 'a comp" where "poolOverflow pool = panicC (PoolOverflowError pool)"

definition addConstant :: "val \<Rightarrow> 16 word comp" where
  "addConstant v = withTop (\<lambda>f.
     if length (cf_constants f) \<ge> maxPoolSize then poolOverflow ''constant''
     else seqC (putTop (f\<lparr> cf_constants := cf_constants f @ [v] \<rparr>)) (retC (of_nat (length (cf_constants f)))))"

definition addString :: "string \<Rightarrow> 16 word comp" where
  "addString s = withTop (\<lambda>f.
     if s \<in> set (cf_strings f) then retC (of_nat (indexIn s (cf_strings f)))
     else if length (cf_strings f) \<ge> maxPoolSize then poolOverflow ''string''
     else seqC (putTop (f\<lparr> cf_strings := cf_strings f @ [s] \<rparr>)) (retC (of_nat (length (cf_strings f)))))"

definition addMatchDesc :: "matchDesc \<Rightarrow> 16 word comp" where
  "addMatchDesc md = withTop (\<lambda>f st.
     let pool = co_matchDescs st @ [md]; idx = length pool - 1 - cf_matchStart f
     in if idx \<ge> maxPoolSize then Inl (PoolOverflowError ''match desc'')
        else seqC (putTop (f\<lparr> cf_matchEnd := length pool \<rparr>)) (retC (of_nat idx)) (st\<lparr> co_matchDescs := pool \<rparr>))"

definition addRecordDesc :: "string list \<Rightarrow> 16 word comp" where
  "addRecordDesc labels = withTop (\<lambda>f st.
     let pool = co_recordDescs st @ [labels]; idx = length pool - 1 - cf_recordStart f
     in if idx \<ge> maxPoolSize then Inl (PoolOverflowError ''record desc'')
        else seqC (putTop (f\<lparr> cf_recordEnd := length pool \<rparr>)) (retC (of_nat idx)) (st\<lparr> co_recordDescs := pool \<rparr>))"

definition addMergeDesc :: "mergeDesc \<Rightarrow> 16 word comp" where
  "addMergeDesc md = withTop (\<lambda>f st.
     let pool = co_mergeDescs st @ [md]; idx = length pool - 1 - cf_mergeStart f
     in if idx \<ge> maxPoolSize then Inl (PoolOverflowError ''merge desc'')
        else seqC (putTop (f\<lparr> cf_mergeEnd := length pool \<rparr>)) (retC (of_nat idx)) (st\<lparr> co_mergeDescs := pool \<rparr>))"

definition addProto :: "proto \<Rightarrow> 16 word comp" where
  "addProto p = withTop (\<lambda>f.
     if length (cf_protos f) \<ge> maxPoolSize then poolOverflow ''proto''
     else seqC (putTop (f\<lparr> cf_protos := cf_protos f @ [p] \<rparr>)) (retC (of_nat (length (cf_protos f)))))"

section \<open>Locals\<close>

definition localCount :: "nat comp" where "localCount = withTop (\<lambda>f. retC (cf_localsEnd f - cf_localsStart f))"

definition allocLocal :: "string \<Rightarrow> nat comp" where
  "allocLocal name = withTop (\<lambda>f st.
     let slot = cf_numLocals f; pool = co_locals st @ [(name, slot)]
     in seqC (putTop (f\<lparr> cf_numLocals := slot + 1, cf_localsEnd := length pool \<rparr>)) (retC slot) (st\<lparr> co_locals := pool \<rparr>))"

fun allocLocals :: "string list \<Rightarrow> nat list comp" where
  "allocLocals [] = retC []"
| "allocLocals (x # xs) = thenC (allocLocal x) (\<lambda>s. thenC (allocLocals xs) (\<lambda>ss. retC (s # ss)))"

text \<open>The names of the frame, searched from the last one.\<close>

definition frameLocals :: "cframe \<Rightarrow> compiler \<Rightarrow> (string \<times> nat) list" where
  "frameLocals f st = subPool (co_locals st) (cf_localsStart f) (cf_localsEnd f)"

definition resolveLocalInFrame :: "cframe \<Rightarrow> string \<Rightarrow> compiler \<Rightarrow> nat option" where
  "resolveLocalInFrame f name st = map_of (rev (frameLocals f st)) name"

definition resolveLocal :: "string \<Rightarrow> nat option comp" where
  "resolveLocal name = withTop (\<lambda>f st. Inr (resolveLocalInFrame f name st, st))"

definition popLocals :: "nat \<Rightarrow> unit comp" where
  "popLocals n = withTop (\<lambda>f st.
     let target = cf_localsStart f + n
     in putTop (f\<lparr> cf_localsEnd := target \<rparr>) (st\<lparr> co_locals := take target (co_locals st) \<rparr>))"

definition varGlobalPrim :: "compEnv \<Rightarrow> 'a core \<Rightarrow> primInfo option" where
  "varGlobalPrim E c = (case c of Var n m i \<Rightarrow> if 0 \<le> i then None else ce_globalPrims E (m, n) | _ \<Rightarrow> None)"

text \<open>Captured names with their slots in the current frame; names that are neither local nor indexed are globals.\<close>

fun captureNames :: "cframe \<Rightarrow> compiler \<Rightarrow> string list \<Rightarrow> nat list \<Rightarrow> (string \<times> nat) list" where
  "captureNames f st [] is = []"
| "captureNames f st (x # xs) is =
     (case resolveLocalInFrame f x st of
        Some slot \<Rightarrow> (x, slot) # captureNames f st xs (drop 1 is)
      | None \<Rightarrow> (case is of [] \<Rightarrow> captureNames f st xs [] | i # is' \<Rightarrow> (x, i) # captureNames f st xs is'))"

definition resolveCapturesFiltered :: "string list \<Rightarrow> nat list option \<Rightarrow> (string \<times> nat) list comp" where
  "resolveCapturesFiltered fv fvIndices = withTop (\<lambda>f st.
     Inr (captureNames f st fv (case fvIndices of None \<Rightarrow> [] | Some is \<Rightarrow> is), st))"

section \<open>Emission\<close>

definition appendCode :: "8 word list \<Rightarrow> nat comp" where
  "appendCode bytes = withTop (\<lambda>f. seqC (putTop (f\<lparr> cf_code := cf_code f @ bytes \<rparr>)) (retC (length (cf_code f))))"

definition emit :: "opcode \<Rightarrow> nat comp" where "emit op = appendCode [opByte op]"
definition emitU16 :: "opcode \<Rightarrow> 16 word \<Rightarrow> nat comp" where "emitU16 op a = appendCode (opByte op # EncodeU16 a)"
definition emitU8 :: "opcode \<Rightarrow> 8 word \<Rightarrow> nat comp" where "emitU8 op k = appendCode [opByte op, k]"
definition emitU16U8 :: "opcode \<Rightarrow> 16 word \<Rightarrow> 8 word \<Rightarrow> nat comp" where "emitU16U8 op a k = appendCode (opByte op # EncodeU16 a @ [k])"
definition emitU16U16 :: "opcode \<Rightarrow> 16 word \<Rightarrow> 16 word \<Rightarrow> nat comp" where
  "emitU16U16 op a b = appendCode (opByte op # EncodeU16 a @ EncodeU16 b)"
definition emitJump :: "opcode \<Rightarrow> nat comp" where "emitJump op = appendCode [opByte op, 0, 0]"

definition patchU16 :: "nat \<Rightarrow> 16 word \<Rightarrow> 8 word list \<Rightarrow> 8 word list" where
  "patchU16 pos v code = take pos code @ EncodeU16 v @ drop (pos + 2) code"

definition patchJumpTo :: "nat \<Rightarrow> unit comp" where
  "patchJumpTo pos = modTop (\<lambda>f. f\<lparr> cf_code := patchU16 (pos + 1) (of_int (int (length (cf_code f)) - int pos - 3)) (cf_code f) \<rparr>)"

definition irNodeKind :: "'a core \<Rightarrow> string" where
  "irNodeKind c =
     (case c of
        Var _ _ _ \<Rightarrow> ''Var'' | Lit _ \<Rightarrow> ''Lit'' | Lam _ _ _ _ _ \<Rightarrow> ''Lam'' | App _ _ \<Rightarrow> ''App'' | Con _ _ _ _ \<Rightarrow> ''Con'' | Case _ _ \<Rightarrow> ''Case''
      | Fix _ _ \<Rightarrow> ''Fix'' | Bind _ _ _ _ _ \<Rightarrow> ''Bind'' | Thunk _ _ \<Rightarrow> ''Thunk'' | Force _ \<Rightarrow> ''Force'' | Merge _ _ _ _ _ _ \<Rightarrow> ''Merge''
      | PrimOp _ _ _ _ \<Rightarrow> ''PrimOp'' | RecordLit _ \<Rightarrow> ''RecordLit'' | RecordProj _ _ \<Rightarrow> ''RecordProj'' | RecordUpdate _ _ \<Rightarrow> ''RecordUpdate''
      | VariantLit _ _ \<Rightarrow> ''VariantLit'' | _ \<Rightarrow> ''?'')"

definition emitStep :: "'a core \<Rightarrow> nat comp" where
  "emitStep c = thenC (addString (irNodeKind c)) (\<lambda>idx. emitU16 OpStep idx)"

section \<open>Patterns\<close>

definition patternSlotInfo :: "pat \<Rightarrow> nat \<Rightarrow> string \<times> bool" where
  "patternSlotInfo p idx = (case p of PVar x g \<Rightarrow> (x, IsGenerated g) | _ \<Rightarrow> (''$match_'' @ itoa idx, True))"

definition isIrrefutableBinding :: "pat \<Rightarrow> bool" where
  "isIrrefutableBinding p = (case p of PVar _ _ \<Rightarrow> True | PWild \<Rightarrow> True | _ \<Rightarrow> False)"

definition hostLit :: "litVal \<Rightarrow> val" where
  "hostLit l = HostVal (case l of LitInt n \<Rightarrow> HInt n | LitDouble d \<Rightarrow> HFloat d | LitString s \<Rightarrow> HString s | LitRune r \<Rightarrow> HRune r)"

definition slotInfos :: "pat list \<Rightarrow> (string \<times> bool) list" where
  "slotInfos ps = map2 patternSlotInfo ps [0..<length ps]"

text \<open>The positions of the instructions whose fail address is still to be written, in the order of their emission.\<close>

fun compilePatternCollect :: "pat \<Rightarrow> nat list comp"
  and compileSubpatterns :: "pat list \<Rightarrow> nat list \<Rightarrow> nat list comp" where
  "compilePatternCollect (PVar x g) = thenC (allocLocal x) (\<lambda>slot. seqC (emitU16 OpStoreLocal (of_nat slot)) (retC []))"
| "compilePatternCollect PWild = seqC (emit OpPop) (retC [])"
| "compilePatternCollect (PCon con m args) =
     thenC (allocLocals (map fst (slotInfos args))) (\<lambda>argSlots.
     thenC (addMatchDesc (MatchDesc con argSlots (map fst (slotInfos args)) (map snd (slotInfos args)) [] [])) (\<lambda>descIdx.
     thenC (emitU16U16 OpMatchCon descIdx 0) (\<lambda>pos.
     thenC (compileSubpatterns args argSlots) (\<lambda>ps. retC (pos # ps)))))"
| "compilePatternCollect (PLit l) =
     thenC (addConstant (hostLit l)) (\<lambda>litIdx. thenC (emitU16U16 OpMatchLit litIdx 0) (\<lambda>pos. retC [pos]))"
| "compilePatternCollect (PRecord fs) =
     thenC (allocLocals (map fst (slotInfos (map snd fs)))) (\<lambda>fieldSlots.
     thenC (addMatchDesc (MatchDesc [] [] [] [] (map fst fs) fieldSlots)) (\<lambda>descIdx.
     thenC (emitU16U16 OpMatchRecord descIdx 0) (\<lambda>pos.
     thenC (compileSubpatterns (map snd fs) fieldSlots) (\<lambda>ps. retC (pos # ps)))))"
| "compilePatternCollect (PLabel l x) =
     thenC (addConstant (HostVal (HString (CHR ''#'' # l)))) (\<lambda>tagIdx.
     thenC (emitU16U16 OpMatchLabel tagIdx 0) (\<lambda>pos.
     if HasPayload x then thenC (allocLocal x) (\<lambda>slot. seqC (emitU16 OpStoreLocal (of_nat slot)) (retC [pos]))
     else seqC (emit OpPop) (retC [pos])))"
| "compileSubpatterns [] ss = retC []"
| "compileSubpatterns (p # ps) ss =
     (case ss of
        [] \<Rightarrow> retC []
      | slot # ss' \<Rightarrow>
          if isIrrefutableBinding p then compileSubpatterns ps ss'
          else seqC (emitU16 OpLoadLocal (of_nat slot)) (thenC (compilePatternCollect p) (\<lambda>as.
               thenC (compileSubpatterns ps ss') (\<lambda>bs. retC (as @ bs)))))"

section \<open>Expressions\<close>



definition lookupFVInfo :: "fvInfo \<Rightarrow> string list \<times> nat list option" where
  "lookupFVInfo info = (if fvi_overflow info then ([], None) else (fvi_vars info, fvi_indices info))"

definition lookupInfo :: "fvInfo option \<Rightarrow> (fvInfo \<Rightarrow> 'a comp) \<Rightarrow> 'a comp" where
  "lookupInfo s k = (case s of None \<Rightarrow> panicC (CompilerPanic ''node missing from annotation table'') | Some info \<Rightarrow> k info)"

definition compileVar :: "compEnv \<Rightarrow> string \<Rightarrow> string \<Rightarrow> int \<Rightarrow> nat comp" where
  "compileVar E n m i =
     (if 0 \<le> i
      then thenC (resolveLocal n) (\<lambda>r.
             case r of
               Some slot \<Rightarrow> emitU16 OpLoadLocal (of_nat slot)
             | None \<Rightarrow> panicC (CompilerPanic ''unresolved local variable''))
      else (case ce_globalSlots E (m, n) of
              Some slot \<Rightarrow> emitU16 OpLoadGlobal (of_nat slot)
            | None \<Rightarrow> panicC (CompilerPanic ''global not in globalSlots'')))"

definition compileLit :: "litVal \<Rightarrow> nat comp" where
  "compileLit l = thenC (addConstant (hostLit l)) (\<lambda>idx. emitU16 OpConst idx)"

text \<open>\<^verbatim>\<open>flattenLamChain\<close> below the outermost abstraction: the further parameters and the body.\<close>

fun lamChain :: "'a core \<Rightarrow> string list \<times> 'a core" where
  "lamChain (Lam s x t b g) = (case lamChain b of (xs, body) \<Rightarrow> (x # xs, body))"
| "lamChain (TyLam a k b) = (case lamChain b of (xs, body) \<Rightarrow> if xs = [] then ([], TyLam a k b) else (xs, body))"
| "lamChain c = ([], c)"

fun collectAppSpine :: "'a core \<Rightarrow> 'a core list \<Rightarrow> 'a core \<times> 'a core list" where
  "collectAppSpine (App f a) args = collectAppSpine f (a # args)"
| "collectAppSpine (TyApp e t) args = (if args = [] then (TyApp e t, []) else collectAppSpine e args)"
| "collectAppSpine c args = (c, args)"

text \<open>A child frame: the captures, the self slot of a fixpoint, the parameters, then the body.\<close>

datatype selfKind = NoSelf | SelfAt string

definition openChild :: "bool \<Rightarrow> string list \<Rightarrow> (string \<times> nat) list \<Rightarrow> selfKind \<Rightarrow> unit comp" where
  "openChild isThunk params captured self =
     seqC enterFrame (
     seqC (modTop (\<lambda>f. f\<lparr> cf_isThunk := isThunk, cf_params := params, cf_captures := map snd captured \<rparr>)) (
     seqC (allocLocals (map fst captured)) (
     seqC (case self of
             NoSelf \<Rightarrow> retC ()
           | SelfAt x \<Rightarrow> thenC (allocLocal x) (\<lambda>slot. modTop (\<lambda>f. f\<lparr> cf_fixSelfSlot := int slot \<rparr>))) (
     seqC (allocLocals params) (retC ())))))"

definition fixMessage :: "string \<Rightarrow> 'a core \<Rightarrow> string" where
  "fixMessage x body =
     ''fix binding '' @ x @ '' requires a lambda or thunk body (got *ir.'' @ irNodeKind body @
     ''); in CBV evaluation, fix creates a self-referential closure and cannot produce data constructor values directly '' @
     [CHR 0xE2, CHR 0x80, CHR 0x94] @ '' wrap the body in a lambda or use thunk/force''"

definition conFlags :: "nat \<Rightarrow> bool \<Rightarrow> 8 word" where
  "conFlags n isDict = (if isDict then of_nat n OR 0x80 else of_nat n)"

lemma thenC_cong [fundef_cong]:
  assumes "m = m'" "\<And>a. k a = k' a"
  shows "thenC m k = thenC m' k'"
  using assms by presburger

lemma withTop_cong [fundef_cong]:
  assumes "\<And>f. k f = k' f"
  shows "withTop k = withTop k'"
  using assms by presburger

lemma lookupInfo_cong [fundef_cong]:
  assumes "s = s'" "\<And>info. s' = Some info \<Longrightarrow> k info = k' info"
  shows "lookupInfo s k = lookupInfo s' k'"
  using assms by (cases s') (auto simp: lookupInfo_def)

lemma collectAppSpine_size:
  "collectAppSpine c args = (h, args') \<Longrightarrow> size h + size_list size args' \<le> size c + size_list size args"
  by (induction c args rule: collectAppSpine.induct) (auto split: if_splits)

lemma collectAppSpine_head: "collectAppSpine c (a # args) = (h, args') \<Longrightarrow> size h < size c + size_list size (a # args) \<and> args' \<noteq> []"
  by (induction c "a # args" arbitrary: a args rule: collectAppSpine.induct) fastforce+

lemma lamChain_size: "lamChain c = (xs, b) \<Longrightarrow> size b \<le> size c"
  by (induction c arbitrary: xs b rule: lamChain.induct) (fastforce split: prod.splits if_splits)+

lemma size_list_take: "size_list f (take n xs) \<le> size_list f xs" "size_list f (drop n xs) \<le> size_list f xs"
proof -
  have "size_list f (take n xs @ drop n xs) = size_list f (take n xs) + size_list f (drop n xs)" by (rule size_list_append)
  then show "size_list f (take n xs) \<le> size_list f xs" "size_list f (drop n xs) \<le> size_list f xs" by simp_all
qed

lemma size_list_comp_snd: "size_list (size \<circ> snd) fs \<le> size_list (size_prod (\<lambda>_. 0) size) fs"
  by (induction fs) auto

lemma app_spine_sizes:
  assumes "(h, args) = collectAppSpine f [a]"
  shows "size h \<le> size f + size a \<and> size_list size args \<le> size f + size a + 1 \<and>
    (\<forall>n. size_list size (take n args) \<le> size f + size a + 1) \<and> (\<forall>n. size_list size (drop n args) \<le> size f + size a + 1)"
proof -
  have le: "size h + size_list size args \<le> size f + size a + 1" using collectAppSpine_size [OF assms [symmetric]] by simp
  moreover have "args \<noteq> []" using collectAppSpine_head assms by metis
  then have "1 \<le> size_list size args" by (cases args) auto
  moreover have "size_list size (take n args) \<le> size f + size a + 1" "size_list size (drop n args) \<le> size f + size a + 1" for n
    using le size_list_take [of size n args] by linarith+
  ultimately show ?thesis by auto
qed

lemma peel_sizes: "PeelTyLam b = Lam s y t e g \<Longrightarrow> size e < size b" "PeelTyLam b = Thunk s e \<Longrightarrow> size e < size b"
  using PeelTyLam_size [of b] by simp_all

text \<open>The alternatives of a case: each starts with the scrutinee, and its fail addresses are the start of the next one.\<close>

definition patchFails :: "nat list \<Rightarrow> nat \<Rightarrow> unit comp" where
  "patchFails ps target = modTop (\<lambda>f. f\<lparr> cf_code := fold (\<lambda>pos. patchU16 (pos + 3) (of_nat target)) ps (cf_code f) \<rparr>)"

definition codeLen :: "nat comp" where "codeLen = withTop (\<lambda>f. retC (length (cf_code f)))"

function compileExpr :: "compEnv \<Rightarrow> annotated \<Rightarrow> bool \<Rightarrow> unit comp"
  and compileArgs :: "compEnv \<Rightarrow> annotated list \<Rightarrow> unit comp"
  and compileExtras :: "compEnv \<Rightarrow> annotated list \<Rightarrow> bool \<Rightarrow> unit comp"
  and compileChunks :: "compEnv \<Rightarrow> annotated list \<Rightarrow> bool \<Rightarrow> unit comp"
  and compileAlts :: "compEnv \<Rightarrow> nat \<Rightarrow> (pat \<times> annotated \<times> genKind) list \<Rightarrow> bool \<Rightarrow> (nat list \<times> nat list) comp"
  and compileChild :: "compEnv \<Rightarrow> opcode \<Rightarrow> bool \<Rightarrow> string list \<Rightarrow> selfKind \<Rightarrow> fvInfo \<Rightarrow> annotated \<Rightarrow> bool \<Rightarrow> unit comp"
where
  "compileExpr E (TyApp e t) tail = compileExpr E e tail"
| "compileExpr E (TyLam a k b) tail = compileExpr E b tail"
| "compileExpr E (Pure e) tail = compileExpr E e tail"
| "compileExpr E (Var n m i) tail = seqC (compileVar E n m i) (retC ())"
| "compileExpr E (Lit l) tail = seqC (compileLit l) (retC ())"
| "compileExpr E (Lam s x t b g) tail =
     lookupInfo s (\<lambda>info. case lamChain b of (xs, body) \<Rightarrow> compileChild E OpClosure False (x # xs) NoSelf info body True)"
| "compileExpr E (App f a) tail =
     seqC (emitStep (App f a)) (
     case collectAppSpine (App f a) [] of
       (fn, args) \<Rightarrow>
         (case varGlobalPrim E fn of
            Some (PrimInfo name arity eff) \<Rightarrow>
              if 0 < arity \<and> arity \<le> 255 \<and> arity \<le> length args
              then seqC (compileArgs E (take arity args)) (
                   thenC (addString name) (\<lambda>nameIdx.
                   seqC (emitU16U8 (if eff then OpEffectPrim else OpPrim) nameIdx (of_nat arity)) (compileExtras E (drop arity args) tail)))
              else seqC (compileExpr E fn False) (
                   if length args = 1 then seqC (compileArgs E args) (seqC (emit (if tail then OpTailApply else OpApply)) (retC ()))
                   else compileChunks E args tail)
          | None \<Rightarrow>
              withTop (\<lambda>fr st.
                if (case fn of Var n m i \<Rightarrow> 0 \<le> i \<and> args \<noteq> [] \<and> length args \<le> 255 \<and> 0 \<le> cf_fixSelfSlot fr \<and> length args = length (cf_params fr) \<and>
                      map_option int (resolveLocalInFrame fr n st) = Some (cf_fixSelfSlot fr) | _ \<Rightarrow> False)
                then seqC (compileArgs E args) (seqC (emitU8 (if tail then OpTailRecurseSelf else OpRecurseSelf) (of_nat (length args))) (retC ())) st
                else seqC (compileExpr E fn False) (
                     if length args = 1 then seqC (compileArgs E args) (seqC (emit (if tail then OpTailApply else OpApply)) (retC ()))
                     else compileChunks E args tail) st)))"
| "compileExpr E (Con n m args isDict) tail =
     seqC (compileArgs E args) (thenC (addString n) (\<lambda>nameIdx. seqC (emitU16U8 OpCon nameIdx (conFlags (length args) isDict)) (retC ())))"
| "compileExpr E (Case e alts) tail =
     seqC (emitStep (Case e alts)) (
     seqC (compileExpr E e False) (
     thenC localCount (\<lambda>saved.
     thenC (allocLocal ''$scrut'') (\<lambda>scrutSlot.
     seqC (emitU16 OpStoreLocal (of_nat scrutSlot)) (
     thenC (compileAlts E scrutSlot alts tail) (\<lambda>(endJumps, lastFails).
     seqC (emitU16 OpLoadLocal (of_nat scrutSlot)) (
     thenC codeLen (\<lambda>matchFailPos.
     seqC (emit OpMatchFail) (
     seqC (patchFails lastFails matchFailPos) (
     seqC (fold (\<lambda>pos m. seqC m (patchJumpTo pos)) endJumps (retC ())) (popLocals saved)))))))))))"
| "compileExpr E (Fix x b) tail =
     seqC (emitStep (Fix x b)) (
     case PeelTyLam b of
       Lam s y t e g \<Rightarrow>
         lookupInfo s (\<lambda>info. case lamChain e of (ys, body) \<Rightarrow> compileChild E OpFixClosure False (y # ys) (SelfAt x) info body True)
     | Thunk s e \<Rightarrow> lookupInfo s (\<lambda>info. compileChild E OpFixThunk True [] (SelfAt x) info e True)
     | body \<Rightarrow> thenC (addConstant (HostVal (HString (fixMessage x body)))) (\<lambda>idx.
                seqC (emitU16 OpConst idx) (seqC (emit OpRaise) (retC ()))))"
| "compileExpr E (Bind e x b isDiscard g) tail =
     seqC (emitStep (Bind e x b isDiscard g)) (
     seqC (compileExpr E e False) (
     thenC (allocLocal x) (\<lambda>slot.
     seqC (emitU16 OpBind (of_nat slot)) (
     seqC (if \<not> isDiscard \<and> \<not> IsGenerated g then modTop (\<lambda>f. f\<lparr> cf_bindNames := cf_bindNames f @ [(slot, x)] \<rparr>) else retC ())
       (compileExpr E b tail)))))"
| "compileExpr E (Thunk s e) tail = lookupInfo s (\<lambda>info. compileChild E OpThunk True [] NoSelf info e True)"
| "compileExpr E (Force e) tail =
     seqC (emitStep (Force e)) (seqC (compileExpr E e False) (seqC (emit (if tail then OpForceTail else OpForce)) (retC ())))"
| "compileExpr E (Merge sl sr l r ls rs) tail =
     lookupInfo sl (\<lambda>li. lookupInfo sr (\<lambda>ri.
     seqC (compileChild E OpThunk True [] NoSelf li l False) (
     seqC (compileChild E OpThunk True [] NoSelf ri r False) (
     thenC (addMergeDesc (MergeDesc ls rs)) (\<lambda>descIdx. seqC (emitU16 OpMerge descIdx) (retC ()))))))"
| "compileExpr E (PrimOp name arity eff args) tail =
     seqC (emitStep (PrimOp name arity eff args)) (
     if args = [] \<and> arity = 0 \<and> \<not> eff then thenC (addString name) (\<lambda>nameIdx. seqC (emitU16U8 OpPrim nameIdx 0) (retC ()))
     else if args = [] then thenC (addConstant (PrimVal name arity eff [])) (\<lambda>idx. seqC (emitU16 OpPrimPartial idx) (retC ()))
     else if length args = arity
     then seqC (compileArgs E args) (
          thenC (addString name) (\<lambda>nameIdx. seqC (emitU16U8 (if eff then OpEffectPrim else OpPrim) nameIdx (of_nat arity)) (retC ())))
     else thenC (addConstant (PrimVal name arity eff [])) (\<lambda>idx.
          seqC (emitU16 OpPrimPartial idx) (
          seqC (compileArgs E args) (
          seqC (if length args = 1 then emit OpApply else emitU8 OpApplyN (of_nat (length args))) (retC ())))))"
| "compileExpr E (RecordLit fs) tail =
     (if fs = [] then seqC (emit OpConstUnit) (retC ())
      else seqC (compileArgs E (map snd fs)) (
           thenC (addRecordDesc (map fst fs)) (\<lambda>descIdx. seqC (emitU16 OpRecord descIdx) (retC ()))))"
| "compileExpr E (RecordProj r l) tail =
     seqC (compileExpr E r False) (thenC (addString l) (\<lambda>labelIdx. seqC (emitU16 OpRecordProj labelIdx) (retC ())))"
| "compileExpr E (RecordUpdate r fs) tail =
     seqC (compileExpr E r False) (
     seqC (compileArgs E (map snd fs)) (
     thenC (addRecordDesc (map fst fs)) (\<lambda>descIdx. seqC (emitU16 OpRecordUpdate descIdx) (retC ()))))"
| "compileExpr E (VariantLit tag e) tail =
     seqC (compileExpr E e False) (thenC (addString tag) (\<lambda>tagIdx. seqC (emitU16 OpVariant tagIdx) (retC ())))"
| "compileExpr E CoreError tail = panicC (CompilerPanic ''unhandled Core node'')"
| "compileArgs E [] = retC ()"
| "compileArgs E (e # es) = seqC (compileExpr E e False) (compileArgs E es)"
| "compileExtras E [] tail = retC ()"
| "compileExtras E (e # es) tail =
     seqC (compileExpr E e False) (seqC (emit (if tail \<and> es = [] then OpTailApply else OpApply)) (compileExtras E es tail))"
| "compileChunks E [] tail = retC ()"
| "compileChunks E (e # es) tail =
     (let chunk = take 255 (e # es); remaining = drop 255 (e # es)
      in seqC (compileArgs E chunk) (
         seqC (emitU8 (if tail \<and> remaining = [] then OpTailApplyN else OpApplyN) (of_nat (length chunk))) (compileChunks E remaining tail)))"
| "compileAlts E scrutSlot [] tail = retC ([], [])"
| "compileAlts E scrutSlot ((p, b, g) # alts) tail =
     thenC localCount (\<lambda>saved.
     seqC (emitU16 OpLoadLocal (of_nat scrutSlot)) (
     thenC (compilePatternCollect p) (\<lambda>fails.
     seqC (compileExpr E b (tail \<and> alts = [])) (
     seqC (popLocals saved) (
     thenC (emitJump OpJump) (\<lambda>jump.
     if alts = [] then retC ([jump], fails)
     else thenC codeLen (\<lambda>target.
          seqC (patchFails fails target) (
          thenC (compileAlts E scrutSlot alts tail) (\<lambda>(endJumps, lastFails). retC (jump # endJumps, lastFails))))))))))"
| "compileChild E op isThunk params self info body isTail =
     (case lookupFVInfo info of
        (fv, fvIndices) \<Rightarrow>
          thenC (resolveCapturesFiltered fv fvIndices) (\<lambda>captured.
          seqC (openChild isThunk params captured self) (
          seqC (compileExpr E body isTail) (
          seqC (if isTail then retC 0 else emit OpForceEffectful) (
          seqC (emit OpReturn) (
          thenC (leaveFrame E) (\<lambda>child.
          thenC (addProto child) (\<lambda>idx. seqC (emitU16 op idx) (retC ())))))))))"
  by pat_completeness auto

termination
proof (relation "measure (\<lambda>x. case x of
    Inl (Inl (E, e, tail)) \<Rightarrow> 4 * size e + 3 | Inl (Inr (Inl (E, es))) \<Rightarrow> 4 * size_list size es
  | Inl (Inr (Inr (E, es, tail))) \<Rightarrow> 4 * size_list size es + 1 | Inr (Inl (E, es, tail)) \<Rightarrow> 4 * size_list size es + 1
  | Inr (Inr (Inl (E, s, alts, tail))) \<Rightarrow> 4 * size_list (size_prod (\<lambda>_. 0) (size_prod size (\<lambda>_. 0))) alts
  | Inr (Inr (Inr (E, op, th, ps, self, info, body, tail))) \<Rightarrow> 4 * size body + 4)", goal_cases)
  case 1 then show ?case by simp
qed (use size_list_take in \<open>auto dest!: app_spine_sizes lamChain_size [OF sym] peel_sizes simp: less_Suc_eq_le le_imp_less_Suc
  intro!: le_less_trans [OF mult_le_mono2 [OF size_list_comp_snd]] le_less_trans [OF mult_le_mono2 [OF size_list_take(1)]]
    le_less_trans [OF mult_le_mono2 [OF size_list_take(2)]]\<close>)

declare compileExpr.simps [simp del] compileArgs.simps [simp del] compileExtras.simps [simp del] compileChunks.simps [simp del]
  compileAlts.simps [simp del] compileChild.simps [simp del]

section \<open>Entry points\<close>

definition NewCompiler :: compiler where
  "NewCompiler = \<lparr> co_frames = [], co_matchDescs = [], co_recordDescs = [], co_mergeDescs = [], co_locals = [] \<rparr>"

definition CompileExpr :: "compEnv \<Rightarrow> annotated \<Rightarrow> proto comp" where
  "CompileExpr E e =
     seqC enterFrame (seqC (compileExpr E e False) (seqC (emit OpForceEffectful) (seqC (emit OpReturn) (leaveFrame E))))"

definition CompileBinding :: "compEnv \<Rightarrow> annotated \<Rightarrow> proto comp" where
  "CompileBinding E e = seqC enterFrame (seqC (compileExpr E e False) (seqC (emit OpReturn) (leaveFrame E)))"

definition RecordGlobalPrim :: "varKey \<Rightarrow> string \<Rightarrow> nat \<Rightarrow> bool \<Rightarrow> compEnv \<Rightarrow> compEnv" where
  "RecordGlobalPrim key name arity isEffectful E = E\<lparr> ce_globalPrims := (ce_globalPrims E)(key \<mapsto> PrimInfo name arity isEffectful) \<rparr>"

definition compileBuiltinLam :: "compEnv \<Rightarrow> string \<Rightarrow> unit core \<Rightarrow> val comp" where
  "compileBuiltinLam E name lam =
     (case AssignIndices (AnnotateFreeVars lam) of
        None \<Rightarrow> panicC (CompilerPanic ''node missing from annotation table'')
      | Some e \<Rightarrow>
          thenC (CompileBinding E e) (\<lambda>p.
            case pProtos p of [child] \<Rightarrow> retC (VMClosure [] child name) | _ \<Rightarrow> panicC (CompilerPanic ''expected 1 nested proto'')))"

fun compileBuiltins :: "compEnv \<Rightarrow> (string \<times> unit core) list \<Rightarrow> (string \<times> val) list comp" where
  "compileBuiltins E [] = retC []"
| "compileBuiltins E ((name, lam) # bs) =
     thenC (compileBuiltinLam E name lam) (\<lambda>v. thenC (compileBuiltins E bs) (\<lambda>vs. retC ((name, v) # vs)))"

definition CompileBuiltinGlobals :: "compEnv \<Rightarrow> bool \<Rightarrow> bool \<Rightarrow> (string \<times> val) list comp" where
  "CompileBuiltinGlobals E enableFix enableRec =
     compileBuiltins E
       ([(''pure'', PureBody), (''bind'', BindBody)] @
        (if enableFix then [(''fix'', Lam () ''_f'' None fixBody UserWritten)] else []) @
        (if enableRec then [(''rec'', Lam () ''_f'' None recBody UserWritten)] else []))"

end
