(* ===== verification/Vm_Compiler_Faults.thy ===== *)
theory Vm_Compiler_Faults
  imports Vm_Compiler
begin

text \<open>
  Where the compiled code differs from the term: a local that stays in scope, an operand that does not fit its field, and an offset that wraps around.
\<close>

section \<open>The scope of a bind\<close>

text \<open>A function of \<open>y\<close> whose result is a pair: first a computation that binds its own \<open>y\<close>, then the parameter.\<close>

definition emptyComp :: compEnv where
  "emptyComp = \<lparr> ce_globalSlots = (\<lambda>_. None), ce_globalPrims = (\<lambda>_. None), ce_source = None \<rparr>"

definition shadowing :: annotated where
  "shadowing = Lam (Some \<lparr> fvi_vars = [], fvi_indices = Some [], fvi_overflow = False \<rparr>) ''y'' None
     (Con ''P'' [] [Bind (Pure (Lit (LitInt 1))) ''y'' (Var ''y'' [] 0) False UserWritten, Var ''y'' [] 0] False) UserWritten"

definition bodyCode :: "cpanic + proto \<times> compiler \<Rightarrow> 8 word list option" where
  "bodyCode r = (case r of Inr (p, _) \<Rightarrow> (case pProtos p of [q] \<Rightarrow> Some (pCode q) | _ \<Rightarrow> None) | Inl _ \<Rightarrow> None)"

lemmas compiler_ops = NewCompiler_def enterFrame_def newFrame_def leaveFrame_def withTop_def putTop_def modTop_def thenC_def retC_def addConstant_def addString_def
  addProto_def allocLocal_def allocLocals.simps resolveLocal_def frameLocals_def resolveCapturesFiltered_def openChild_def lookupInfo_def lookupFVInfo_def emit_def
  emitU16_def emitU8_def emitU16U8_def emitStep_def appendCode_def irNodeKind_def compileVar_def compileLit_def subPool_def indexIn.simps resolveLocalInFrame_def IsGenerated_def conFlags_def encodeI_def InstructionSize_def

text \<open>
  The local of a bind is never popped, so the second component of the pair, which is the parameter in slot 0, is loaded from slot 1, the variable of the bind.
\<close>

theorem bind_scope_leaks:
  "bodyCode (CompileBinding emptyComp shadowing NewCompiler) =
     Some (encodeI (Instr OpStep 0 0 0) @ encodeI (Instr OpConst 0 0 0) @ encodeI (Instr OpBind 1 0 0) @ encodeI (Instr OpLoadLocal 1 0 0) @
           encodeI (Instr OpLoadLocal 1 0 0) @ encodeI (Instr OpCon 1 0 2) @ encodeI (Instr OpReturn 0 0 0))"
  by (simp add: shadowing_def bodyCode_def CompileBinding_def compileExpr.simps compileArgs.simps compileChild.simps compiler_ops)

section \<open>Operands that do not fit\<close>

text \<open>
  The operand of a constructor has seven bits for the arity and one for the dictionary flag; the compiler does not check the arity, so a constructor of 128 arguments is
  compiled to a dictionary without arguments.
\<close>

theorem con_arity_collides: "conFlags 128 False AND 0x7F = 0 \<and> conFlags 128 False AND 0x80 \<noteq> 0"
  by code_simp

text \<open>
  The offset of a jump is a signed 16-bit word; across 32768 bytes or more it wraps around, and the jump goes backwards.
\<close>

theorem jump_offset_wraps:
  assumes "patchJumpTo pos st = Inr ((), st')" "co_frames st = f # fs" "length (cf_code f) = pos + 3 + 32768"
  shows "\<exists>f' fs'. co_frames st' = f' # fs' \<and> map_option sint (DecodeU16 (cf_code f') (pos + 1)) = Some (- 32768)"
proof -
  have "cf_code f' = patchU16 (pos + 1) 0x8000 (cf_code f)" if "f' = f\<lparr> cf_code := patchU16 (pos + 1) (of_int (int (length (cf_code f)) - int pos - 3)) (cf_code f) \<rparr>" for f'
    using that assms(3) by simp
  moreover have "DecodeU16 (patchU16 (pos + 1) 0x8000 (cf_code f)) (pos + 1) = Some 0x8000"
    using assms(3) by (simp add: DecodeU16_def EncodeU16_def patchU16_def nth_append)
  ultimately show ?thesis using assms by (auto simp: patchJumpTo_def modTop_def withTop_def putTop_def)
qed

end
