(* ===== verification/Vm_Run.thy ===== *)
theory Vm_Run
  imports Vm_Laws
begin

text \<open>
  Running code inside one frame. A computation that only works on the operand stack and the locals of its frame goes from one instruction to another, or stops because the
  budget is exhausted; \<open>leads\<close> says so for the dispatch loop itself, and the rules below give the effect of each instruction of that kind.
\<close>

section \<open>Runs of the loop\<close>

text \<open>After some turns the loop is in a state with \<open>P\<close>, or a limit has stopped it.\<close>

definition leads :: "vmCfg \<Rightarrow> vmEnv \<Rightarrow> applier \<Rightarrow> world \<Rightarrow> (world \<Rightarrow> bool) \<Rightarrow> bool" where
  "leads G E self w P \<longleftrightarrow>
     (\<exists>k. (\<exists>w'. P w' \<and> (\<forall>n. execute G E self (k + n) w = execute G E self n w')) \<or>
          (\<exists>e w'. \<forall>n. execute G E self (k + n) w = (Err (LimitErr e) (), w')))"

lemma leads_refl: "P w \<Longrightarrow> leads G E self w P"
  unfolding leads_def by (rule exI [of _ 0]) auto

lemma leads_trans:
  assumes "leads G E self w P" "\<And>w'. P w' \<Longrightarrow> leads G E self w' Q"
  shows "leads G E self w Q"
proof -
  obtain k where k: "(\<exists>w'. P w' \<and> (\<forall>n. execute G E self (k + n) w = execute G E self n w')) \<or>
      (\<exists>e w'. \<forall>n. execute G E self (k + n) w = (Err (LimitErr e) (), w'))"
    using assms(1) unfolding leads_def by blast
  from k show ?thesis
  proof
    assume "\<exists>w'. P w' \<and> (\<forall>n. execute G E self (k + n) w = execute G E self n w')"
    then obtain w' where w': "P w'" "\<And>n. execute G E self (k + n) w = execute G E self n w'" by blast
    then obtain j where j: "(\<exists>w''. Q w'' \<and> (\<forall>n. execute G E self (j + n) w' = execute G E self n w'')) \<or>
        (\<exists>e w''. \<forall>n. execute G E self (j + n) w' = (Err (LimitErr e) (), w''))"
      using assms(2) unfolding leads_def by blast
    then show ?thesis
      unfolding leads_def using w'(2) by (intro exI [of _ "k + j"]) (simp add: add.assoc)
  qed (auto simp: leads_def)
qed

lemma leads_step:
  assumes "\<And>n. stepVM G E self n w = (Ret Next (), w1)" "leads G E self w1 P"
  shows "leads G E self w P"
proof -
  have "leads G E self w (\<lambda>w'. w' = w1)"
    unfolding leads_def using assms(1) by (intro exI [of _ 1]) auto
  then show ?thesis by (rule leads_trans) (simp add: assms(2))
qed

lemma leads_limit:
  assumes "\<And>n. stepVM G E self n w = (Err (LimitErr e) (), w1)"
  shows "leads G E self w P"
  unfolding leads_def using assms by (intro exI [of _ 1]) auto

section \<open>One frame\<close>

text \<open>The state with the frame of \<open>w\<close> at \<open>ip\<close>, the operands \<open>s\<close>, the locals \<open>l\<close> and the budget \<open>b\<close>.\<close>

definition stateAt :: "world \<Rightarrow> nat \<Rightarrow> val list \<Rightarrow> val option list \<Rightarrow> budget \<Rightarrow> world" where
  "stateAt w ip s l b = (setLocals l (setStack s (jumpTo ip w)))\<lparr> w_budget := Some b \<rparr>"

definition runsTo :: "vmCfg \<Rightarrow> vmEnv \<Rightarrow> applier \<Rightarrow> world \<Rightarrow> nat \<Rightarrow> val list \<Rightarrow> val option list \<Rightarrow> nat \<Rightarrow> val list \<Rightarrow> (val option list \<Rightarrow> bool) \<Rightarrow> bool" where
  "runsTo G E self w ip s l ip' s' Q \<longleftrightarrow>
     (\<forall>b. leads G E self (stateAt w ip s l b) (\<lambda>w'. \<exists>l' b'. Q l' \<and> w' = stateAt w ip' s' l' b'))"

lemma runsTo_refl: "Q l \<Longrightarrow> runsTo G E self w ip s l ip s Q"
  unfolding runsTo_def by (blast intro: leads_refl)

lemma runsTo_trans:
  assumes "runsTo G E self w ip s l ip1 s1 P" "\<And>l1. P l1 \<Longrightarrow> runsTo G E self w ip1 s1 l1 ip2 s2 Q"
  shows "runsTo G E self w ip s l ip2 s2 Q"
  unfolding runsTo_def
proof
  fix b
  have "leads G E self (stateAt w ip s l b) (\<lambda>w'. \<exists>l' b'. P l' \<and> w' = stateAt w ip1 s1 l' b')"
    using assms(1) unfolding runsTo_def by blast
  then show "leads G E self (stateAt w ip s l b) (\<lambda>w'. \<exists>l' b'. Q l' \<and> w' = stateAt w ip2 s2 l' b')"
    by (rule leads_trans) (use assms(2) in \<open>auto simp: runsTo_def\<close>)
qed

lemma runsTo_mono: "runsTo G E self w ip s l ip' s' P \<Longrightarrow> (\<And>l'. P l' \<Longrightarrow> Q l') \<Longrightarrow> runsTo G E self w ip s l ip' s' Q"
  by (erule runsTo_trans) (simp add: runsTo_refl)

text \<open>The locals of the frame, from its base on.\<close>

definition slotVal :: "nat \<Rightarrow> val option list \<Rightarrow> nat \<Rightarrow> val option" where
  "slotVal bp l slot = (if bp + slot < length l then l ! (bp + slot) else None)"

definition putSlot :: "nat \<Rightarrow> nat \<Rightarrow> val \<Rightarrow> val option list \<Rightarrow> val option list" where
  "putSlot bp slot v l = (ensureLocals (bp + slot + 1) l)[bp + slot := Some v]"

lemma slotVal_putSlot [simp]: "slotVal bp (putSlot bp slot v l) slot' = (if slot' = slot then Some v else slotVal bp l slot')"
  by (auto simp: slotVal_def putSlot_def ensureLocals_def nth_append nth_list_update)

lemma getLocal_slotVal: "getLocal bp slot w = slotVal bp (localsOf w) slot"
  by (simp add: getLocal_def slotVal_def)

definition putSlots :: "nat \<Rightarrow> nat list \<Rightarrow> val list \<Rightarrow> val option list \<Rightarrow> val option list" where
  "putSlots bp sl vs l = fold (\<lambda>(slot, v). putSlot bp slot v) (zip sl vs) l"

lemma stateAt_fields [simp]:
  "stackOf (stateAt w ip s l b) = s" "localsOf (stateAt w ip s l b) = l" "w_budget (stateAt w ip s l b) = Some b"
  "setStack s' (stateAt w ip s l b) = stateAt w ip s' l b" "setLocals l' (stateAt w ip s l b) = stateAt w ip s l' b"
  "(stateAt w ip s l b)\<lparr> w_budget := Some b' \<rparr> = stateAt w ip s l b'"
  "pushV v (stateAt w ip s l b) = stateAt w ip (v # s) l b"
  "setLocal bp slot v (stateAt w ip s l b) = stateAt w ip s (putSlot bp slot v l) b"
  by (simp_all add: stateAt_def setStack_def setLocals_def pushV_def setLocal_def putSlot_def jumpTo_def updTop_def setFrames_def split: list.split)

lemma setSlots_stateAt [simp]: "setSlots bp sl vs (stateAt w ip s l b) = stateAt w ip s (putSlots bp sl vs l) b"
  unfolding setSlots_def putSlots_def by (induction sl vs arbitrary: l rule: list_induct2') auto

lemma jumpTo_jumpTo [simp]: "jumpTo ip (jumpTo ip' w) = jumpTo ip w"
  by (simp add: jumpTo_def updTop_def setFrames_def split: list.split)

lemma jumpTo_stateAt [simp]: "jumpTo ip' (stateAt w ip s l b) = stateAt w ip' s l b"
  by (simp add: stateAt_def jumpTo_def updTop_def setStack_def setLocals_def setFrames_def split: list.split)

lemma framesOf_stateAt: "framesOf (stateAt w ip s l b) = framesOf (jumpTo ip w)"
  by (simp add: stateAt_def)

lemma budgetOp_stateAt:
  "budgetOp f (stateAt w ip s l b) k =
     (case f b of (Some e, b') \<Rightarrow> (Err (LimitErr e) (), stateAt w ip s l b') | (None, b') \<Rightarrow> k (stateAt w ip s l b'))"
  by (simp add: budgetOp_def split: prod.split option.split)

text \<open>A loaded value after forward references.\<close>

definition derefV :: "vmCfg \<Rightarrow> val \<Rightarrow> val option" where
  "derefV G v = (case v of IndirectVal a \<Rightarrow> vc_cells G a | _ \<Rightarrow> Some v)"

section \<open>The instructions of a frame\<close>

text \<open>The frame runs the prototype \<open>p\<close>, its locals start at \<open>bp\<close>.\<close>

definition runsIn :: "world \<Rightarrow> proto \<Rightarrow> nat \<Rightarrow> bool" where
  "runsIn w p bp \<longleftrightarrow> (case framesOf w of f # fs \<Rightarrow> fr_proto f = Some p \<and> fr_bp f = bp \<and> \<not> fr_barrier f | [] \<Rightarrow> False)"

definition hasI :: "proto \<Rightarrow> nat \<Rightarrow> instr \<Rightarrow> bool" where
  "hasI p ip i \<longleftrightarrow> ip < length (pCode p) \<and> fetch (pCode p) ip = Fetched i (ip + InstructionSize (iop i))"

lemma runsIn_frame:
  assumes "runsIn w p bp"
  shows "\<exists>c fs. \<forall>ip s l b. framesOf (stateAt w ip s l b) = \<lparr> fr_proto = Some p, fr_ip = ip, fr_bp = bp, fr_cap = c, fr_barrier = False \<rparr> # fs"
proof -
  obtain f fs where f: "framesOf w = f # fs" "fr_proto f = Some p" "fr_bp f = bp" "\<not> fr_barrier f"
    using assms by (auto simp: runsIn_def split: list.splits)
  then have "framesOf (stateAt w ip s l b) = \<lparr> fr_proto = Some p, fr_ip = ip, fr_bp = bp, fr_cap = fr_cap f, fr_barrier = False \<rparr> # fs" for ip s l b
    by (cases f) (simp add: framesOf_stateAt jumpTo_def updTop_def)
  then show ?thesis by blast
qed

lemma stepVM_instr:
  assumes "runsIn w p bp" "hasI p ip i"
  shows "\<exists>c. stepVM G E self n (stateAt w ip s l b) = execInstr G E self n p bp c i (stateAt w (ip + InstructionSize (iop i)) s l b)"
proof -
  obtain c fs where "\<And>ip s l b. framesOf (stateAt w ip s l b) = \<lparr> fr_proto = Some p, fr_ip = ip, fr_bp = bp, fr_cap = c, fr_barrier = False \<rparr> # fs"
    using runsIn_frame [OF assms(1)] by blast
  then show ?thesis using assms(2) by (auto simp: stepVM_def atFrame_def hasI_def)
qed

text \<open>An instruction whose effect is to continue, or to stop at a limit, whatever the budget is.\<close>

definition plainEffect :: "(world \<Rightarrow> signal vmres) \<Rightarrow> (budget \<Rightarrow> world) \<Rightarrow> (budget \<Rightarrow> world) \<Rightarrow> bool" where
  "plainEffect f start stop \<longleftrightarrow>
     (\<forall>b. (\<exists>b'. f (start b) = (Ret Next (), stop b')) \<or> (\<exists>e w'. f (start b) = (Err (LimitErr e) (), w')))"

lemma runsTo_instr:
  assumes "runsIn w p bp" "hasI p ip i"
    and "\<And>n c. execInstr G E self n p bp c i = f"
    and "plainEffect f (stateAt w (ip + InstructionSize (iop i)) s l) (stateAt w ip' s' l')"
    and "Q l'"
  shows "runsTo G E self w ip s l ip' s' Q"
  unfolding runsTo_def
proof
  fix b
  have step: "stepVM G E self n (stateAt w ip s l b) = f (stateAt w (ip + InstructionSize (iop i)) s l b)" for n
    using stepVM_instr [OF assms(1,2), of G E self n s l b] assms(3) by auto
  from assms(4) consider b' where "f (stateAt w (ip + InstructionSize (iop i)) s l b) = (Ret Next (), stateAt w ip' s' l' b')"
    | e w' where "f (stateAt w (ip + InstructionSize (iop i)) s l b) = (Err (LimitErr e) (), w')"
    unfolding plainEffect_def by blast
  then show "leads G E self (stateAt w ip s l b) (\<lambda>w'. \<exists>l' b'. Q l' \<and> w' = stateAt w ip' s' l' b')"
  proof cases
    case 1
    then show ?thesis using step assms(5) by (intro leads_step [OF _ leads_refl]) auto
  next
    case 2
    then show ?thesis using step by (intro leads_limit) auto
  qed
qed

lemma plainEffect_budget:
  assumes "\<And>b. plainEffect k (\<lambda>_. stateAt w ip s l b) stop"
  shows "plainEffect (\<lambda>w'. budgetOp f w' k) (stateAt w ip s l) stop"
  unfolding plainEffect_def
proof
  fix b
  obtain r b' where f: "f b = (r, b')" by fastforce
  show "(\<exists>b'. budgetOp f (stateAt w ip s l b) k = (Ret Next (), stop b')) \<or>
      (\<exists>e w'. budgetOp f (stateAt w ip s l b) k = (Err (LimitErr e) (), w'))"
    using assms [of b'] f by (cases r) (auto simp: budgetOp_stateAt plainEffect_def)
qed

section \<open>The effect of each instruction\<close>

named_theorems frame_run

lemma run_step [frame_run]:
  assumes "runsIn w p bp" "hasI p ip (Instr OpStep a 0 0)" "Q l"
  shows "runsTo G E self w ip s l (ip + 3) s Q"
  using assms(3)
  by (intro runsTo_instr [OF assms(1,2), where f = "\<lambda>w. stepV w (ok Next)" and l' = l])
    (auto simp: execInstr_def execVar_def InstructionSize_def fun_eq_iff plainEffect_def budgetOp_stateAt split: prod.splits option.splits)

lemma run_loadLocal [frame_run]:
  assumes "runsIn w p bp" "hasI p ip (Instr OpLoadLocal a 0 0)" "slotVal bp l (unat a) = Some v" "derefV G v = Some v'" "Q l"
  shows "runsTo G E self w ip s l (ip + 3) (v' # s) Q"
  using assms(3-5)
  by (intro runsTo_instr [OF assms(1,2), where f = "\<lambda>w. loadNil G (getLocal bp (unat a) w) w" and l' = l])
    (auto simp: execInstr_def execVar_def InstructionSize_def fun_eq_iff plainEffect_def getLocal_slotVal loadNil_def loadV_def derefV_def pushNext_def split: val.splits)

lemma run_loadGlobal [frame_run]:
  assumes "runsIn w p bp" "hasI p ip (Instr OpLoadGlobal a 0 0)" "unat a < length (vc_globals G)" "vc_globals G ! unat a = Some v" "derefV G v = Some v'" "Q l"
  shows "runsTo G E self w ip s l (ip + 3) (v' # s) Q"
  using assms(3-6)
  by (intro runsTo_instr [OF assms(1,2), where f = "\<lambda>w. nthV (vc_globals G) (unat a) w (\<lambda>v. loadNil G v w)" and l' = l])
    (auto simp: execInstr_def execVar_def InstructionSize_def fun_eq_iff plainEffect_def nthV_def loadNil_def loadV_def derefV_def pushNext_def split: val.splits)

lemma run_storeLocal [frame_run]:
  assumes "runsIn w p bp" "hasI p ip (Instr OpStoreLocal a 0 0)" "Q (putSlot bp (unat a) v l)"
  shows "runsTo G E self w ip (v # s) l (ip + 3) s Q"
  using assms(3)
  by (intro runsTo_instr [OF assms(1,2), where f = "\<lambda>w. popV w (\<lambda>v w. ok Next (setLocal bp (unat a) v w))" and l' = "putSlot bp (unat a) v l"])
    (auto simp: execInstr_def execVar_def InstructionSize_def fun_eq_iff plainEffect_def popV_def)

lemma run_pop [frame_run]:
  assumes "runsIn w p bp" "hasI p ip (Instr OpPop 0 0 0)" "Q l"
  shows "runsTo G E self w ip (v # s) l (ip + 1) s Q"
  using assms(3)
  by (intro runsTo_instr [OF assms(1,2), where f = "\<lambda>w. popV w (\<lambda>_ w. ok Next w)" and l' = l])
    (auto simp: execInstr_def execVar_def InstructionSize_def fun_eq_iff plainEffect_def popV_def)

lemma run_constUnit [frame_run]:
  assumes "runsIn w p bp" "hasI p ip (Instr OpConstUnit 0 0 0)" "Q l"
  shows "runsTo G E self w ip s l (ip + 1) (UnitVal # s) Q"
  using assms(3)
  by (intro runsTo_instr [OF assms(1,2), where f = "pushNext UnitVal" and l' = l])
    (auto simp: execInstr_def execVar_def InstructionSize_def fun_eq_iff plainEffect_def pushNext_def)

lemma run_const [frame_run]:
  assumes "runsIn w p bp" "hasI p ip (Instr OpConst a 0 0)" "unat a < length (pConstants p)" "pConstants p ! unat a = v" "Q l"
  shows "runsTo G E self w ip s l (ip + 3) (v # s) Q"
  using assms(3-5)
  by (intro runsTo_instr [OF assms(1,2), where l' = l and f = "\<lambda>w. nthV (pConstants p) (unat a) w (\<lambda>v.
      case v of HostVal (HString s) \<Rightarrow> if s \<noteq> [] then allocV (of_nat (length s)) w (pushNext v) else pushNext v w | _ \<Rightarrow> pushNext v w)"])
    (auto simp: execInstr_def execVar_def InstructionSize_def fun_eq_iff plainEffect_def nthV_def pushNext_def budgetOp_stateAt
      split: prod.splits option.splits val.splits host.splits)

lemma run_jump [frame_run]:
  assumes "runsIn w p bp" "hasI p ip (Instr OpJump a 0 0)" "int ip + 3 + sint a = int ip'" "Q l"
  shows "runsTo G E self w ip s l ip' s Q"
proof -
  define f where "f = (\<lambda>w. atFrame w (\<lambda>f _. let ip = int (fr_ip f) + sint a in if ip < 0 then (Panic, w) else ok Next (jumpTo (nat ip) w)) :: signal vmres)"
  obtain c fs where "\<And>ip s l b. framesOf (stateAt w ip s l b) = \<lparr> fr_proto = Some p, fr_ip = ip, fr_bp = bp, fr_cap = c, fr_barrier = False \<rparr> # fs"
    using runsIn_frame [OF assms(1)] by blast
  moreover have "int ip + sint a + 3 = int ip'" using assms(3) by simp
  ultimately have "f (stateAt w (ip + 3) s l b) = ok Next (stateAt w ip' s l b)" for b
    by (simp add: f_def atFrame_def Let_def algebra_simps)
  then show ?thesis
    using assms(4)
    by (intro runsTo_instr [OF assms(1,2), where f = f and l' = l])
      (auto simp: f_def execInstr_def execVar_def InstructionSize_def fun_eq_iff plainEffect_def)
qed

text \<open>Building data.\<close>

lemma run_con [frame_run]:
  assumes "runsIn w p bp" "hasI p ip (Instr OpCon a 0 k)" "unat a < length (pStrings p)" "pStrings p ! unat a = name"
    and "unat (k AND 0x7F) = length vs" "(k AND 0x80 \<noteq> 0) = isDict" "Q l"
  shows "runsTo G E self w ip (rev vs @ s) l (ip + 4) (ConVal name vs isDict (countLeadingDictArgs vs) # s) Q"
  using assms(3-7)
  by (intro runsTo_instr [OF assms(1,2), where f = "execData E p (Instr OpCon a 0 k)" and l' = l])
    (auto simp: execInstr_def execData_def InstructionSize_def fun_eq_iff plainEffect_def nthV_def popN_def pushNext_def budgetOp_stateAt Let_def
      split: prod.splits option.splits)

lemma run_record [frame_run]:
  assumes "runsIn w p bp" "hasI p ip (Instr OpRecord a 0 0)" "unat a < length (pRecordDescs p)" "pRecordDescs p ! unat a = labels" "length labels = length vs" "Q l"
  shows "runsTo G E self w ip (rev vs @ s) l (ip + 3) (newRecord (zip labels vs) # s) Q"
  using assms(3-6)
  by (intro runsTo_instr [OF assms(1,2), where f = "execData E p (Instr OpRecord a 0 0)" and l' = l])
    (auto simp: execInstr_def execData_def InstructionSize_def fun_eq_iff plainEffect_def nthV_def popN_def pushNext_def budgetOp_stateAt
      split: prod.splits option.splits)

lemma run_recordProj [frame_run]:
  assumes "runsIn w p bp" "hasI p ip (Instr OpRecordProj a 0 0)" "unat a < length (pStrings p)" "pStrings p ! unat a = label" "recGet fs label = Some v" "Q l"
  shows "runsTo G E self w ip (RecordVal fs # s) l (ip + 3) (v # s) Q"
  using assms(3-6)
  by (intro runsTo_instr [OF assms(1,2), where f = "execData E p (Instr OpRecordProj a 0 0)" and l' = l])
    (auto simp: execInstr_def execData_def InstructionSize_def fun_eq_iff plainEffect_def nthV_def popV_def pushNext_def)

lemma run_recordUpdate [frame_run]:
  assumes "runsIn w p bp" "hasI p ip (Instr OpRecordUpdate a 0 0)" "unat a < length (pRecordDescs p)" "pRecordDescs p ! unat a = labels" "length labels = length vs" "Q l"
  shows "runsTo G E self w ip (rev vs @ RecordVal fs # s) l (ip + 3) (RecordVal (recUpdate fs (zip labels vs)) # s) Q"
  using assms(3-6)
  by (intro runsTo_instr [OF assms(1,2), where f = "execData E p (Instr OpRecordUpdate a 0 0)" and l' = l])
    (auto simp: execInstr_def execData_def InstructionSize_def fun_eq_iff plainEffect_def nthV_def popN_def popV_def pushNext_def budgetOp_stateAt
      split: prod.splits option.splits)

lemma run_variant [frame_run]:
  assumes "runsIn w p bp" "hasI p ip (Instr OpVariant a 0 0)" "unat a < length (pStrings p)" "pStrings p ! unat a = tag" "Q l"
  shows "runsTo G E self w ip (v # s) l (ip + 3) (VariantVal tag v # s) Q"
  using assms(3-5)
  by (intro runsTo_instr [OF assms(1,2), where f = "execData E p (Instr OpVariant a 0 0)" and l' = l])
    (auto simp: execInstr_def execData_def InstructionSize_def fun_eq_iff plainEffect_def nthV_def popV_def pushNext_def)

text \<open>Matching: the test of an instruction either stores the parts and goes on, or jumps to its fail address.\<close>

lemma run_matchCon [frame_run]:
  assumes "runsIn w p bp" "hasI p ip (Instr OpMatchCon a t 0)" "unat a < length (pMatchDescs p)" "pMatchDescs p ! unat a = desc"
  shows "v = ConVal (mdConName desc) vs d n \<Longrightarrow> length vs = length (mdArgSlots desc) \<Longrightarrow> Q (putSlots bp (mdArgSlots desc) vs l) \<Longrightarrow>
      runsTo G E self w ip (v # s) l (ip + 5) s Q"
    and "(\<And>vs d n. v = ConVal (mdConName desc) vs d n \<Longrightarrow> length vs \<noteq> length (mdArgSlots desc)) \<Longrightarrow> Q l \<Longrightarrow>
      runsTo G E self w ip (v # s) l (unat t) s Q"
proof -
  show "runsTo G E self w ip (v # s) l (ip + 5) s Q" if "v = ConVal (mdConName desc) vs d n" "length vs = length (mdArgSlots desc)" "Q (putSlots bp (mdArgSlots desc) vs l)"
    using assms(3,4) that
    by (intro runsTo_instr [OF assms(1,2), where f = "execMatch G p bp (Instr OpMatchCon a t 0)" and l' = "putSlots bp (mdArgSlots desc) vs l"])
      (auto simp: execInstr_def execMatch_def InstructionSize_def fun_eq_iff plainEffect_def nthV_def popV_def)
  show "runsTo G E self w ip (v # s) l (unat t) s Q" if "\<And>vs d n. v = ConVal (mdConName desc) vs d n \<Longrightarrow> length vs \<noteq> length (mdArgSlots desc)" "Q l"
    using assms(3,4) that
    by (intro runsTo_instr [OF assms(1,2), where f = "execMatch G p bp (Instr OpMatchCon a t 0)" and l' = l])
      (auto simp: execInstr_def execMatch_def InstructionSize_def fun_eq_iff plainEffect_def nthV_def popV_def split: val.splits)
qed

lemma run_matchLit [frame_run]:
  assumes "runsIn w p bp" "hasI p ip (Instr OpMatchLit a t 0)" "unat a < length (pConstants p)" "pConstants p ! unat a = c" "Q l"
  shows "runsTo G E self w ip (v # s) l (if litEqual v c then ip + 5 else unat t) s Q"
  using assms(3-5)
  by (intro runsTo_instr [OF assms(1,2), where f = "execMatch G p bp (Instr OpMatchLit a t 0)" and l' = l])
    (auto simp: execInstr_def execMatch_def InstructionSize_def fun_eq_iff plainEffect_def nthV_def popV_def)

lemma run_matchLabel [frame_run]:
  assumes "runsIn w p bp" "hasI p ip (Instr OpMatchLabel a t 0)" "unat a < length (pConstants p)" "pConstants p ! unat a = HostVal (HString tag)" "Q l"
  shows "runsTo G E self w ip (VariantVal tag v # s) l (ip + 5) (v # s) Q"
    and "(\<And>u. v \<noteq> VariantVal tag u) \<Longrightarrow> runsTo G E self w ip (v # s) l (unat t) s Q"
proof -
  show "runsTo G E self w ip (VariantVal tag v # s) l (ip + 5) (v # s) Q"
    using assms(3-5)
    by (intro runsTo_instr [OF assms(1,2), where f = "execMatch G p bp (Instr OpMatchLabel a t 0)" and l' = l])
      (auto simp: execInstr_def execMatch_def InstructionSize_def fun_eq_iff plainEffect_def nthV_def popV_def pushNext_def)
  show "runsTo G E self w ip (v # s) l (unat t) s Q" if "\<And>u. v \<noteq> VariantVal tag u"
    using assms(3-5) that
    by (intro runsTo_instr [OF assms(1,2), where f = "execMatch G p bp (Instr OpMatchLabel a t 0)" and l' = l])
      (auto simp: execInstr_def execMatch_def InstructionSize_def fun_eq_iff plainEffect_def nthV_def popV_def split: val.splits)
qed

lemma length_those: "those xs = Some ys \<Longrightarrow> length ys = length xs"
  by (induction xs arbitrary: ys) (auto split: option.splits)

lemma run_matchRecord [frame_run]:
  assumes "runsIn w p bp" "hasI p ip (Instr OpMatchRecord a t 0)" "unat a < length (pMatchDescs p)" "pMatchDescs p ! unat a = desc"
    and "length (mdFieldSlots desc) = length (mdLabels desc)"
  shows "v = RecordVal fs \<Longrightarrow> those (map (recGet fs) (mdLabels desc)) = Some vs \<Longrightarrow> Q (putSlots bp (mdFieldSlots desc) vs l) \<Longrightarrow>
      runsTo G E self w ip (v # s) l (ip + 5) s Q"
    and "(\<And>fs. v = RecordVal fs \<Longrightarrow> those (map (recGet fs) (mdLabels desc)) = None) \<Longrightarrow> Q l \<Longrightarrow> runsTo G E self w ip (v # s) l (unat t) s Q"
proof -
  note len = length_those [of "map (recGet _) (mdLabels desc)", simplified]
  show "runsTo G E self w ip (v # s) l (ip + 5) s Q"
    if "v = RecordVal fs" "those (map (recGet fs) (mdLabels desc)) = Some vs" "Q (putSlots bp (mdFieldSlots desc) vs l)"
    using assms(3-5) that len
    by (intro runsTo_instr [OF assms(1,2), where f = "execMatch G p bp (Instr OpMatchRecord a t 0)" and l' = "putSlots bp (mdFieldSlots desc) vs l"])
      (auto simp: execInstr_def execMatch_def InstructionSize_def fun_eq_iff plainEffect_def nthV_def popV_def budgetOp_stateAt split: prod.splits option.splits)
  show "runsTo G E self w ip (v # s) l (unat t) s Q"
    if "\<And>fs. v = RecordVal fs \<Longrightarrow> those (map (recGet fs) (mdLabels desc)) = None" "Q l"
    using assms(3-5) that
    by (intro runsTo_instr [OF assms(1,2), where f = "execMatch G p bp (Instr OpMatchRecord a t 0)" and l' = l])
      (auto simp: execInstr_def execMatch_def InstructionSize_def fun_eq_iff plainEffect_def nthV_def popV_def budgetOp_stateAt
        split: prod.splits option.splits val.splits)
qed

end
