(* ===== verification/Vm_Emit.thy ===== *)
theory Vm_Emit
  imports Vm_Compiler "HOL-Library.Sublist"
begin

text \<open>
  What the steps of the compiler do to the frame they work on. The parts of the compiler's state that belong to the current frame are its view; each step is
  an update of the view. Code that was emitted is found in the finished prototype, except for the operands that are patched later.
\<close>

section \<open>The view of the current frame\<close>

record cview =
  cv_code :: "8 word list"
  cv_num :: nat
  cv_locals :: "(string \<times> nat) list"
  cv_consts :: "val list"
  cv_strings :: "string list"
  cv_match :: "matchDesc list"
  cv_records :: "string list list"

definition viewC :: "compiler \<Rightarrow> cview" where
  "viewC st =
     (let f = hd (co_frames st)
      in \<lparr> cv_code = cf_code f, cv_num = cf_numLocals f, cv_locals = drop (cf_localsStart f) (co_locals st), cv_consts = cf_constants f,
           cv_strings = cf_strings f, cv_match = drop (cf_matchStart f) (co_matchDescs st), cv_records = drop (cf_recordStart f) (co_recordDescs st) \<rparr>)"

definition okState :: "compiler \<Rightarrow> bool" where
  "okState st \<longleftrightarrow>
     (case co_frames st of
        [] \<Rightarrow> False
      | f # fs \<Rightarrow>
          cf_localsEnd f = length (co_locals st) \<and> cf_localsStart f \<le> length (co_locals st) \<and>
          cf_matchStart f \<le> length (co_matchDescs st) \<and> cf_recordStart f \<le> length (co_recordDescs st) \<and>
          cf_matchEnd f = length (co_matchDescs st) \<and> cf_recordEnd f = length (co_recordDescs st) \<and>
          length (cf_strings f) \<le> maxPoolSize \<and> list_all (\<lambda>xs. snd xs < cf_numLocals f) (drop (cf_localsStart f) (co_locals st)))"

lemma thenC_Inr: "thenC m k st = Inr (b, st'') \<longleftrightarrow> (\<exists>a st'. m st = Inr (a, st') \<and> k a st' = Inr (b, st''))"
  by (auto simp: thenC_def split: sum.splits)

lemma retC_Inr [simp]: "retC a st = Inr (b, st') \<longleftrightarrow> b = a \<and> st' = st"
  by (auto simp: retC_def)

lemma okState_frame: "okState st \<Longrightarrow> \<exists>f fs. co_frames st = f # fs"
  by (auto simp: okState_def split: list.splits)

lemma view_num: "okState st \<Longrightarrow> list_all (\<lambda>xs. snd xs < cv_num (viewC st)) (cv_locals (viewC st))"
  by (auto simp: okState_def viewC_def Let_def split: list.splits)

lemmas view_simps = withTop_def thenC_def putTop_def modTop_def okState_def viewC_def Let_def retC_def poolOverflow_def panicC_def

lemma appendCode_view:
  assumes "okState st" "appendCode bs st = Inr (pos, st')"
  shows "okState st' \<and> pos = length (cv_code (viewC st)) \<and> viewC st' = (viewC st)\<lparr> cv_code := cv_code (viewC st) @ bs \<rparr>"
  using assms by (auto simp: appendCode_def view_simps split: list.splits)

text \<open>The encoding of the instructions that are emitted.\<close>

lemma encode_sizes:
  "InstructionSize op = 1 \<Longrightarrow> [opByte op] = encodeI (Instr op 0 0 0)"
  "InstructionSize op = 3 \<Longrightarrow> opByte op # EncodeU16 a = encodeI (Instr op a 0 0)"
  "InstructionSize op = 2 \<Longrightarrow> [opByte op, k] = encodeI (Instr op 0 0 k)"
  "InstructionSize op = 4 \<Longrightarrow> opByte op # EncodeU16 a @ [k] = encodeI (Instr op a 0 k)"
  "InstructionSize op = 5 \<Longrightarrow> opByte op # EncodeU16 a @ EncodeU16 b = encodeI (Instr op a b 0)"
  "InstructionSize op = 3 \<Longrightarrow> [opByte op, 0, 0] = encodeI (Instr op 0 0 0)"
  by (simp_all add: encodeI_def EncodeU16_def)

definition emitted :: "instr \<Rightarrow> compiler \<Rightarrow> nat \<Rightarrow> compiler \<Rightarrow> bool" where
  "emitted i st pos st' \<longleftrightarrow> okState st' \<and> pos = length (cv_code (viewC st)) \<and> viewC st' = (viewC st)\<lparr> cv_code := cv_code (viewC st) @ encodeI i \<rparr>"

lemma emit_view:
  assumes "okState st"
  shows "emit op st = Inr (pos, st') \<Longrightarrow> InstructionSize op = 1 \<Longrightarrow> emitted (Instr op 0 0 0) st pos st'"
    "emitU16 op a st = Inr (pos, st') \<Longrightarrow> InstructionSize op = 3 \<Longrightarrow> emitted (Instr op a 0 0) st pos st'"
    "emitU16U8 op a k st = Inr (pos, st') \<Longrightarrow> InstructionSize op = 4 \<Longrightarrow> emitted (Instr op a 0 k) st pos st'"
    "emitU16U16 op a b st = Inr (pos, st') \<Longrightarrow> InstructionSize op = 5 \<Longrightarrow> emitted (Instr op a b 0) st pos st'"
    "emitJump op st = Inr (pos, st') \<Longrightarrow> InstructionSize op = 3 \<Longrightarrow> emitted (Instr op 0 0 0) st pos st'"
  using appendCode_view [OF assms] encode_sizes
  by (simp_all add: emit_def emitU16_def emitU16U8_def emitU16U16_def emitJump_def emitted_def)

named_theorems viewed

lemma addConstant_view [viewed]:
  assumes "okState st" "addConstant v st = Inr (i, st')"
  shows "okState st' \<and> i = of_nat (length (cv_consts (viewC st))) \<and> length (cv_consts (viewC st)) < 65535 \<and>
    viewC st' = (viewC st)\<lparr> cv_consts := cv_consts (viewC st) @ [v] \<rparr>"
  using assms by (auto simp: addConstant_def view_simps split: list.splits if_splits)

lemma addString_view [viewed]:
  assumes "okState st" "addString x st = Inr (i, st')"
  shows "okState st' \<and> unat i < length (cv_strings (viewC st')) \<and> cv_strings (viewC st') ! unat i = x \<and>
    prefix (cv_strings (viewC st)) (cv_strings (viewC st')) \<and> viewC st' = (viewC st)\<lparr> cv_strings := cv_strings (viewC st') \<rparr>"
proof -
  obtain f fs where f: "co_frames st = f # fs" using okState_frame [OF assms(1)] by blast
  show ?thesis
  proof (cases "x \<in> set (cf_strings f)")
    case True
    then have "indexIn x (cf_strings f) < length (cf_strings f)" "cf_strings f ! indexIn x (cf_strings f) = x"
      using indexIn_less by metis+
    moreover have "length (cf_strings f) \<le> 65535" using assms(1) f by (simp add: okState_def)
    ultimately show ?thesis
      using assms f True by (auto simp: addString_def withTop_def retC_def viewC_def Let_def unat_of_nat)
  next
    case False
    then show ?thesis
      using assms f by (auto simp: addString_def view_simps unat_of_nat split: if_splits)
  qed
qed

lemma addMatchDesc_view [viewed]:
  assumes "okState st" "addMatchDesc d st = Inr (i, st')"
  shows "okState st' \<and> i = of_nat (length (cv_match (viewC st))) \<and> length (cv_match (viewC st)) < 65535 \<and>
    viewC st' = (viewC st)\<lparr> cv_match := cv_match (viewC st) @ [d] \<rparr>"
  using assms by (auto simp: addMatchDesc_def view_simps split: list.splits if_splits)

lemma addRecordDesc_view [viewed]:
  assumes "okState st" "addRecordDesc d st = Inr (i, st')"
  shows "okState st' \<and> i = of_nat (length (cv_records (viewC st))) \<and> length (cv_records (viewC st)) < 65535 \<and>
    viewC st' = (viewC st)\<lparr> cv_records := cv_records (viewC st) @ [d] \<rparr>"
  using assms by (auto simp: addRecordDesc_def view_simps split: list.splits if_splits)

lemma allocLocal_view [viewed]:
  assumes "okState st" "allocLocal x st = Inr (i, st')"
  shows "okState st' \<and> i = cv_num (viewC st) \<and>
    viewC st' = (viewC st)\<lparr> cv_num := cv_num (viewC st) + 1, cv_locals := cv_locals (viewC st) @ [(x, cv_num (viewC st))] \<rparr>"
  using assms by (auto simp: allocLocal_def view_simps split: list.splits if_splits elim!: list.pred_mono_strong)

lemma allocLocals_view [viewed]:
  assumes "okState st" "allocLocals xs st = Inr (is, st')"
  shows "okState st' \<and> is = [cv_num (viewC st)..<cv_num (viewC st) + length xs] \<and>
    viewC st' = (viewC st)\<lparr> cv_num := cv_num (viewC st) + length xs,
      cv_locals := cv_locals (viewC st) @ zip xs [cv_num (viewC st)..<cv_num (viewC st) + length xs] \<rparr>"
  using assms
proof (induction xs arbitrary: st "is")
  case (Cons x xs)
  then obtain i st1 is' where st1: "allocLocal x st = Inr (i, st1)" "allocLocals xs st1 = Inr (is', st')" "is = i # is'"
    by (auto simp: thenC_Inr)
  note head = allocLocal_view [OF Cons.prems(1) st1(1)]
  have "[n..<n + length (x # xs)] = n # [Suc n..<Suc n + length xs]" for n by (simp add: upt_conv_Cons del: upt_Suc)
  with Cons.IH [OF _ st1(2)] head st1(3) show ?case by (simp del: upt_Suc)
qed (auto simp: viewC_def Let_def)

lemma localCount_view [viewed]: "okState st \<Longrightarrow> localCount st = Inr (n, st') \<Longrightarrow> st' = st \<and> n = length (cv_locals (viewC st))"
  by (auto simp: localCount_def view_simps split: list.splits)

lemma codeLen_view [viewed]: "okState st \<Longrightarrow> codeLen st = Inr (n, st') \<Longrightarrow> st' = st \<and> n = length (cv_code (viewC st))"
  by (auto simp: codeLen_def view_simps split: list.splits)

lemma resolveLocal_view [viewed]:
  "okState st \<Longrightarrow> resolveLocal x st = Inr (r, st') \<Longrightarrow> st' = st \<and> r = map_of (rev (cv_locals (viewC st))) x"
  by (auto simp: resolveLocal_def resolveLocalInFrame_def frameLocals_def subPool_def view_simps split: list.splits)

lemma popLocals_view [viewed]:
  assumes "okState st" "popLocals n st = Inr (u, st')" "n \<le> length (cv_locals (viewC st))"
  shows "okState st' \<and> viewC st' = (viewC st)\<lparr> cv_locals := take n (cv_locals (viewC st)) \<rparr>"
  using assms by (auto simp: popLocals_def view_simps drop_take list_all_iff split: list.splits) (metis in_set_takeD snd_conv)

lemma patchJumpTo_view [viewed]:
  assumes "okState st" "patchJumpTo pos st = Inr (u, st')"
  shows "okState st' \<and>
    viewC st' = (viewC st)\<lparr> cv_code := patchU16 (pos + 1) (of_int (int (length (cv_code (viewC st))) - int pos - 3)) (cv_code (viewC st)) \<rparr>"
  using assms by (auto simp: patchJumpTo_def view_simps split: list.splits)

lemma patchFails_view [viewed]:
  assumes "okState st" "patchFails ps t st = Inr (u, st')"
  shows "okState st' \<and> viewC st' = (viewC st)\<lparr> cv_code := fold (\<lambda>pos. patchU16 (pos + 3) (of_nat t)) ps (cv_code (viewC st)) \<rparr>"
  using assms by (auto simp: patchFails_def view_simps split: list.splits)

section \<open>Emitted code in the finished prototype\<close>

text \<open>The views of a compilation grow: pools are extended and slots are not reused.\<close>

definition grows :: "cview \<Rightarrow> cview \<Rightarrow> bool" where
  "grows V V' \<longleftrightarrow>
     cv_num V \<le> cv_num V' \<and> prefix (cv_consts V) (cv_consts V') \<and> prefix (cv_strings V) (cv_strings V') \<and>
     prefix (cv_match V) (cv_match V') \<and> prefix (cv_records V) (cv_records V')"

lemma grows_refl [simp]: "grows V V"
  by (simp add: grows_def)

lemma grows_trans [trans]: "grows V V' \<Longrightarrow> grows V' V'' \<Longrightarrow> grows V V''"
  by (auto simp: grows_def intro: prefix_order.trans)

text \<open>The pools of the prototype extend those of the view; slots fit the operands of 16 bits.\<close>

definition fits :: "proto \<Rightarrow> cview \<Rightarrow> bool" where
  "fits p V \<longleftrightarrow>
     cv_num V \<le> 65536 \<and> prefix (cv_consts V) (pConstants p) \<and> prefix (cv_strings V) (pStrings p) \<and>
     prefix (cv_match V) (pMatchDescs p) \<and> prefix (cv_records V) (pRecordDescs p)"

lemma fits_grows: "grows V V' \<Longrightarrow> fits p V' \<Longrightarrow> fits p V"
  by (auto simp: grows_def fits_def intro: prefix_order.trans)

lemma pool_entry: "prefix (xs @ [x]) ys \<Longrightarrow> length xs < 65535 \<Longrightarrow> unat (of_nat (length xs) :: 16 word) < length ys \<and> ys ! unat (of_nat (length xs) :: 16 word) = x"
  by (auto simp: prefix_def unat_of_nat nth_append)

text \<open>From position \<open>a\<close> on, the code of the prototype is \<open>c\<close> outside the holes \<open>H\<close>.\<close>

definition okCode :: "proto \<Rightarrow> nat set \<Rightarrow> nat \<Rightarrow> 8 word list \<Rightarrow> bool" where
  "okCode p H a c \<longleftrightarrow> length c \<le> length (pCode p) \<and> (\<forall>i. a \<le> i \<longrightarrow> i < length c \<longrightarrow> i \<notin> H \<longrightarrow> pCode p ! i = c ! i)"

lemma okCode_prefix: "okCode p H a c' \<Longrightarrow> prefix c c' \<Longrightarrow> okCode p H a c"
  by (auto simp: okCode_def prefix_def nth_append)

lemma okCode_from: "okCode p H a c \<Longrightarrow> a \<le> a' \<Longrightarrow> okCode p H a' c"
  by (auto simp: okCode_def)

lemma okCode_holes: "okCode p H a c \<Longrightarrow> (\<And>i. a \<le> i \<Longrightarrow> i < length c \<Longrightarrow> i \<in> H \<Longrightarrow> i \<in> H') \<Longrightarrow> okCode p H' a c"
  by (auto simp: okCode_def)

lemma length_patchU16 [simp]: "pos + 2 \<le> length c \<Longrightarrow> length (patchU16 pos v c) = length c"
  by (simp add: patchU16_def EncodeU16_def)

lemma nth_patchU16:
  assumes "pos + 2 \<le> length c" "i < length c" "i \<noteq> pos" "i \<noteq> pos + 1"
  shows "patchU16 pos v c ! i = c ! i"
proof (cases "i < pos")
  case False
  with assms(3,4) have "pos + 2 \<le> i" by linarith
  then obtain k where "i = pos + 2 + k" using le_Suc_ex by blast
  then show ?thesis using assms by (simp add: patchU16_def EncodeU16_def nth_append min_def)
qed (use assms in \<open>simp add: patchU16_def nth_append\<close>)

lemma patchU16_here: "pos + 2 \<le> length c \<Longrightarrow> patchU16 pos v c ! pos = ucast v" "pos + 2 \<le> length c \<Longrightarrow> patchU16 pos v c ! (pos + 1) = ucast (drop_bit 8 v)"
  by (simp_all add: patchU16_def EncodeU16_def nth_append)

lemma okCode_patch:
  assumes "okCode p H a (patchU16 pos v c)" "pos + 2 \<le> length c"
  shows "okCode p (H \<union> {pos, pos + 1}) a c"
  using assms by (auto simp: okCode_def nth_patchU16)

lemma patch_decoded:
  assumes "okCode p H a (patchU16 pos v c)" "pos + 2 \<le> length c" "a \<le> pos" "pos \<notin> H" "pos + 1 \<notin> H"
  shows "DecodeU16 (pCode p) pos = Some v"
proof -
  have "pCode p ! pos = ucast v" "pCode p ! (pos + 1) = ucast (drop_bit 8 v)" "pos + 1 < length (pCode p)"
    using assms patchU16_here [OF assms(2), of v] by (auto simp: okCode_def)
  then show ?thesis by (simp add: DecodeU16_def u16_bytes)
qed

lemma fetch_local:
  assumes "ip + length bs \<le> length code" "\<And>j. j < length bs \<Longrightarrow> code ! (ip + j) = bs ! j" "bs = encodeI i" "plain i"
  shows "fetch code ip = Fetched i (ip + InstructionSize (iop i))"
proof -
  have "code ! j = bs ! (j - ip)" if "j - ip < length bs" "\<not> j < ip" for j
    using assms(2) [OF that(1)] that(2) by simp
  then have "code = take ip code @ bs @ drop (ip + length bs) code"
    using assms(1) by (intro nth_equalityI) (auto simp: nth_append min_def)
  moreover have "length (take ip code) = ip" using assms(1) by simp
  ultimately show ?thesis
    using fetch_append [of ip "take ip code" 0 "bs @ drop (ip + length bs) code"] fetch_here [OF assms(4), of "drop (ip + length bs) code"]
      assms(3) length_encodeI [of i] by auto
qed

text \<open>An instruction that was emitted is executed at its position; one with a patched fail address executes with that.\<close>

lemma okCode_instr:
  assumes "okCode p H a c'" "prefix (c @ encodeI i) c'" "a \<le> length c" "plain i" "\<And>j. length c \<le> j \<Longrightarrow> j < length c + InstructionSize (iop i) \<Longrightarrow> j \<notin> H"
  shows "length c < length (pCode p) \<and> fetch (pCode p) (length c) = Fetched i (length c + InstructionSize (iop i))"
proof -
  have len: "length (encodeI i) = InstructionSize (iop i)" "0 < length (encodeI i)" by (simp_all add: length_encodeI) (simp add: InstructionSize_def)
  have ok: "okCode p H a (c @ encodeI i)" using okCode_prefix [OF assms(1,2)] .
  then have "pCode p ! (length c + j) = encodeI i ! j" if "j < length (encodeI i)" for j
    using assms(3,5) that len by (auto simp: okCode_def nth_append)
  with ok show ?thesis
    using fetch_local [OF _ _ refl assms(4), of "length c" "pCode p"] len by (auto simp: okCode_def)
qed

lemma okCode_hole:
  assumes "okCode p H a c'" "prefix (c @ encodeI (Instr op x 0 0)) c'" "a \<le> length c" "InstructionSize op = 5"
    and "\<And>j. length c \<le> j \<Longrightarrow> j < length c + 3 \<Longrightarrow> j \<notin> H" "DecodeU16 (pCode p) (length c + 3) = Some t"
  shows "length c < length (pCode p) \<and> fetch (pCode p) (length c) = Fetched (Instr op x t 0) (length c + 5)"
proof -
  have enc: "encodeI (Instr op x 0 0) = opByte op # EncodeU16 x @ EncodeU16 0" using assms(4) by (simp add: encodeI_def)
  have ok: "okCode p H a (c @ opByte op # EncodeU16 x @ EncodeU16 0)" using okCode_prefix [OF assms(1,2)] by (simp add: enc)
  then have "pCode p ! (length c + j) = (opByte op # EncodeU16 x @ EncodeU16 0) ! j" if "j < 3" for j
    using assms(3,5) that by (auto simp: okCode_def nth_append EncodeU16_def)
  from this [of 0] this [of 1] this [of 2]
  have bytes: "pCode p ! length c = opByte op" "pCode p ! Suc (length c) = ucast x" "pCode p ! Suc (Suc (length c)) = ucast (drop_bit 8 x)"
    by (simp_all add: EncodeU16_def numeral_2_eq_2)
  moreover have "length c + 5 \<le> length (pCode p)" using ok by (simp add: okCode_def EncodeU16_def)
  ultimately have "DecodeU16 (pCode p) (Suc (length c)) = Some x" by (simp add: DecodeU16_def u16_bytes)
  then show ?thesis
    using bytes(1) assms(4,6) \<open>length c + 5 \<le> length (pCode p)\<close> by (simp add: fetch_def operands_def numeral_3_eq_3)
qed

end
