(* ===== verification/Vm_Patterns.thy ===== *)
theory Vm_Patterns
  imports Vm_Run Vm_Emit
begin

text \<open>
  Compiled patterns match. \<open>matchPat\<close> is pattern matching on values, and the code of a pattern, run with a value on top of the stack, either goes on with the variables of
  the pattern in their slots or jumps to its fail address, as \<open>matchPat\<close> says.
\<close>

section \<open>Pattern matching\<close>

text \<open>
  The result of matching: the bindings in the order in which the compiler gives them slots, the variables among the arguments of a constructor or record before those
  inside its other arguments. An argument that is a forward reference without a value cannot be inspected.
\<close>

datatype matched = Hit "(string \<times> val) list" | Miss | Stuck

fun hitMore :: "(string \<times> val) list \<Rightarrow> matched \<Rightarrow> matched" where
  "hitMore bs (Hit bs') = Hit (bs @ bs')"
| "hitMore bs r = r"

fun directBinds :: "pat list \<Rightarrow> val list \<Rightarrow> (string \<times> val) list" where
  "directBinds (PVar x g # ps) (v # vs) = (x, v) # directBinds ps vs"
| "directBinds (_ # ps) (v # vs) = directBinds ps vs"
| "directBinds _ _ = []"

fun matchPat :: "vmCfg \<Rightarrow> pat \<Rightarrow> val \<Rightarrow> matched"
  and matchSubs :: "vmCfg \<Rightarrow> pat list \<Rightarrow> val list \<Rightarrow> matched" where
  "matchPat G (PVar x g) v = Hit [(x, v)]"
| "matchPat G PWild v = Hit []"
| "matchPat G (PCon con m args) v =
     (case v of
        ConVal c vs d n \<Rightarrow> if c = con \<and> length vs = length args then hitMore (directBinds args vs) (matchSubs G args vs) else Miss
      | _ \<Rightarrow> Miss)"
| "matchPat G (PLit l) v = (if litEqual v (hostLit l) then Hit [] else Miss)"
| "matchPat G (PRecord fs) v =
     (case v of
        RecordVal r \<Rightarrow>
          (case those (map (recGet r) (map fst fs)) of
             None \<Rightarrow> Miss
           | Some vs \<Rightarrow> hitMore (directBinds (map snd fs) vs) (matchSubs G (map snd fs) vs))
      | _ \<Rightarrow> Miss)"
| "matchPat G (PLabel l x) v =
     (case v of
        VariantVal t u \<Rightarrow> if t = CHR ''#'' # l then Hit (if HasPayload x then [(x, u)] else []) else Miss
      | _ \<Rightarrow> Miss)"
| "matchSubs G [] vs = Hit []"
| "matchSubs G (p # ps) vs =
     (case vs of
        [] \<Rightarrow> Hit []
      | v # vs' \<Rightarrow>
          if isIrrefutableBinding p then matchSubs G ps vs'
          else case derefV G v of
                 None \<Rightarrow> Stuck
               | Some v' \<Rightarrow> (case matchPat G p v' of Hit bs \<Rightarrow> hitMore bs (matchSubs G ps vs') | r \<Rightarrow> r))"

text \<open>Names the compiler makes up for arguments that are not variables, and for the value a case inspects.\<close>

definition temp :: "string \<Rightarrow> bool" where "temp x \<longleftrightarrow> take 7 x = ''$match_'' \<or> x = ''$scrut''"

definition namedPat :: "pat \<Rightarrow> bool" where "namedPat p \<longleftrightarrow> (\<forall>x \<in> set (Bindings p). \<not> temp x)"

section \<open>The shape of pattern code\<close>

definition holes :: "nat list \<Rightarrow> nat set" where "holes fails = (\<Union>pos \<in> set fails. {pos + 3, pos + 4})"

definition news :: "compiler \<Rightarrow> compiler \<Rightarrow> (string \<times> nat) list" where
  "news st st' = drop (length (cv_locals (viewC st))) (cv_locals (viewC st'))"

abbreviation codeEnd :: "compiler \<Rightarrow> nat" where "codeEnd st \<equiv> length (cv_code (viewC st))"

definition shape :: "compiler \<Rightarrow> nat list \<Rightarrow> compiler \<Rightarrow> bool" where
  "shape st fails st' \<longleftrightarrow>
     okState st' \<and> grows (viewC st) (viewC st') \<and> prefix (cv_code (viewC st)) (cv_code (viewC st')) \<and>
     prefix (cv_locals (viewC st)) (cv_locals (viewC st')) \<and> (\<forall>pos \<in> set fails. codeEnd st \<le> pos \<and> pos + 5 \<le> codeEnd st') \<and>
     sorted_wrt (\<lambda>pos pos'. pos + 5 \<le> pos') fails"

lemma shape_refl: "okState st \<Longrightarrow> shape st [] st"
  by (simp add: shape_def)

lemma shape_code: "shape st fails st' \<Longrightarrow> codeEnd st \<le> codeEnd st'"
  by (simp add: shape_def prefix_length_le)

lemma shape_trans:
  assumes "shape st f1 st1" "shape st1 f2 st2"
  shows "shape st (f1 @ f2) st2"
proof -
  have "\<forall>pos \<in> set (f1 @ f2). codeEnd st \<le> pos \<and> pos + 5 \<le> codeEnd st2"
    using assms shape_code [OF assms(1)] shape_code [OF assms(2)] unfolding shape_def by (metis Un_iff le_trans set_append)
  moreover have "sorted_wrt (\<lambda>pos pos'. pos + 5 \<le> pos') (f1 @ f2)"
    using assms by (fastforce simp: shape_def sorted_wrt_append)
  ultimately show ?thesis using assms by (auto simp: shape_def intro: grows_trans prefix_order.trans)
qed

lemma shape_emitted: "emitted i st pos st' \<Longrightarrow> shape st [] st'"
  by (simp add: emitted_def shape_def grows_def)

lemma shape_hole: "emitted i st pos st' \<Longrightarrow> InstructionSize (iop i) = 5 \<Longrightarrow> shape st [pos] st'"
  by (simp add: emitted_def shape_def grows_def length_encodeI)

lemma shape_viewed:
  assumes "okState st"
  shows "addConstant v st = Inr (i, st') \<Longrightarrow> shape st [] st'" "allocLocal x st = Inr (n, st') \<Longrightarrow> shape st [] st'"
    "addMatchDesc d st = Inr (i, st') \<Longrightarrow> shape st [] st'" "allocLocals xs st = Inr (ns, st') \<Longrightarrow> shape st [] st'"
  using addConstant_view [OF assms, of v i st'] allocLocal_view [OF assms, of x n st'] addMatchDesc_view [OF assms, of d i st']
    allocLocals_view [OF assms, of xs ns st'] by (simp_all add: shape_def grows_def)

lemma shape_ok: "shape st fails st' \<Longrightarrow> okState st'"
  by (simp add: shape_def)

lemma sizes [simp]:
  "InstructionSize OpStoreLocal = 3" "InstructionSize OpLoadLocal = 3" "InstructionSize OpPop = 1" "InstructionSize OpMatchCon = 5"
  "InstructionSize OpMatchLit = 5" "InstructionSize OpMatchRecord = 5" "InstructionSize OpMatchLabel = 5"
  by (simp_all add: InstructionSize_def)

lemma shape_cons: "shape st [] st1 \<Longrightarrow> shape st1 f2 st2 \<Longrightarrow> shape st f2 st2"
  using shape_trans [of st "[]" st1 f2 st2] by simp

lemma pattern_shape:
  "okState st \<Longrightarrow> compilePatternCollect pat st = Inr (fails, st') \<Longrightarrow> shape st fails st'"
  "okState st \<Longrightarrow> compileSubpatterns ps ss st = Inr (fails, st') \<Longrightarrow> shape st fails st'"
proof (induction pat and ps ss arbitrary: st fails st' and st fails st' rule: compilePatternCollect_compileSubpatterns.induct)
  case (1 x g)
  then obtain n st1 pos where s: "allocLocal x st = Inr (n, st1)" "emitU16 OpStoreLocal (of_nat n) st1 = Inr (pos, st')" "fails = []"
    by (auto simp: thenC_Inr)
  note a = shape_viewed(2) [OF 1(1) s(1)]
  show ?case using shape_cons [OF a shape_emitted [OF emit_view(2) [OF shape_ok [OF a] s(2)]]] s(3) by simp
next
  case 2
  then show ?case by (auto simp: thenC_Inr intro!: shape_emitted [OF emit_view(1)])
next
  case (3 con m args)
  then obtain ss st1 d st2 pos st3 ps where s: "allocLocals (map fst (slotInfos args)) st = Inr (ss, st1)"
    "addMatchDesc (MatchDesc con ss (map fst (slotInfos args)) (map snd (slotInfos args)) [] []) st1 = Inr (d, st2)"
    "emitU16U16 OpMatchCon d 0 st2 = Inr (pos, st3)" "compileSubpatterns args ss st3 = Inr (ps, st')" "fails = pos # ps"
    by (auto simp: thenC_Inr)
  note a = shape_viewed(4) [OF 3(2) s(1)]
  note b = shape_viewed(3) [OF shape_ok [OF a] s(2)]
  note c = shape_hole [OF emit_view(4) [OF shape_ok [OF b] s(3)]]
  note d = 3(1) [OF shape_ok [OF c] s(4)]
  show ?case using shape_cons [OF a shape_cons [OF b shape_trans [OF c d]]] s(5) by simp
next
  case (4 l)
  then obtain i st1 pos where s: "addConstant (hostLit l) st = Inr (i, st1)" "emitU16U16 OpMatchLit i 0 st1 = Inr (pos, st')" "fails = [pos]"
    by (auto simp: thenC_Inr)
  note a = shape_viewed(1) [OF 4(1) s(1)]
  show ?case using shape_cons [OF a shape_hole [OF emit_view(4) [OF shape_ok [OF a] s(2)]]] s(3) by simp
next
  case (5 fs)
  then obtain ss st1 d st2 pos st3 ps where s: "allocLocals (map fst (slotInfos (map snd fs))) st = Inr (ss, st1)"
    "addMatchDesc (MatchDesc [] [] [] [] (map fst fs) ss) st1 = Inr (d, st2)"
    "emitU16U16 OpMatchRecord d 0 st2 = Inr (pos, st3)" "compileSubpatterns (map snd fs) ss st3 = Inr (ps, st')" "fails = pos # ps"
    by (auto simp: thenC_Inr)
  note a = shape_viewed(4) [OF 5(2) s(1)]
  note b = shape_viewed(3) [OF shape_ok [OF a] s(2)]
  note c = shape_hole [OF emit_view(4) [OF shape_ok [OF b] s(3)]]
  note d = 5(1) [OF shape_ok [OF c] s(4)]
  show ?case using shape_cons [OF a shape_cons [OF b shape_trans [OF c d]]] s(5) by simp
next
  case (6 l x)
  then obtain i st1 pos st2 where s: "addConstant (HostVal (HString (CHR ''#'' # l))) st = Inr (i, st1)" "emitU16U16 OpMatchLabel i 0 st1 = Inr (pos, st2)"
    "fails = [pos]" and rest: "(if HasPayload x then thenC (allocLocal x) (\<lambda>slot. seqC (emitU16 OpStoreLocal (of_nat slot)) (retC [pos]))
     else seqC (emit OpPop) (retC [pos])) st2 = Inr (fails, st')"
    by (auto simp: thenC_Inr split: if_splits)
  note a = shape_viewed(1) [OF 6(1) s(1)]
  note b = shape_hole [OF emit_view(4) [OF shape_ok [OF a] s(2)]]
  have "shape st2 [] st'"
  proof (cases "HasPayload x")
    case True
    with rest obtain n st3 q where s: "allocLocal x st2 = Inr (n, st3)" "emitU16 OpStoreLocal (of_nat n) st3 = Inr (q, st')"
      by (auto simp: thenC_Inr)
    note c = shape_viewed(2) [OF shape_ok [OF b] s(1), simplified]
    show ?thesis using shape_cons [OF c shape_emitted [OF emit_view(2) [OF shape_ok [OF c] s(2)]]] by simp
  next
    case False
    with rest show ?thesis using shape_ok [OF b] by (auto simp: thenC_Inr intro!: shape_emitted [OF emit_view(1)])
  qed
  then show ?case using shape_cons [OF a shape_trans [OF b]] s(3) by simp
next
  case (7 ss)
  then show ?case by (simp add: shape_refl)
next
  case (8 p ps ss)
  show ?case
  proof (cases ss)
    case Nil
    then show ?thesis using 8 by (simp add: shape_refl)
  next
    case (Cons slot ss')
    show ?thesis
    proof (cases "isIrrefutableBinding p")
      case True
      then show ?thesis using 8(1) 8(4,5) Cons by auto
    next
      case False
      then obtain pos st1 as st2 bs where s: "emitU16 OpLoadLocal (of_nat slot) st = Inr (pos, st1)" "compilePatternCollect p st1 = Inr (as, st2)"
        "compileSubpatterns ps ss' st2 = Inr (bs, st')" "fails = as @ bs"
        using 8(5) Cons by (auto simp: thenC_Inr)
      note a = shape_emitted [OF emit_view(2) [OF 8(4) s(1)], simplified]
      note b = 8(2) [OF Cons False shape_ok [OF a] s(2)]
      note c = 8(3) [OF Cons False shape_ok [OF b] s(3)]
      show ?thesis using shape_cons [OF a shape_trans [OF b c]] s(4) by simp
    qed
  qed
qed

section \<open>Pattern code in a prototype\<close>

definition codeOk :: "proto \<Rightarrow> nat list \<Rightarrow> compiler \<Rightarrow> compiler \<Rightarrow> bool" where
  "codeOk p fails st st' \<longleftrightarrow> fits p (viewC st') \<and> okCode p (holes fails) (codeEnd st) (cv_code (viewC st'))"

lemma codeOk_split:
  assumes "shape st f1 st1" "shape st1 f2 st2" "codeOk p (f1 @ f2) st st2"
  shows "codeOk p f1 st st1" "codeOk p f2 st1 st2"
proof -
  have p: "prefix (cv_code (viewC st1)) (cv_code (viewC st2))" "codeEnd st \<le> codeEnd st1"
    using assms(1,2) shape_code by (auto simp: shape_def)
  have ok: "okCode p (holes (f1 @ f2)) (codeEnd st) (cv_code (viewC st2))" "fits p (viewC st2)"
    using assms(3) by (simp_all add: codeOk_def)
  have "okCode p (holes f1) (codeEnd st) (cv_code (viewC st1))"
    using assms(2) by (rule_tac okCode_holes [OF okCode_prefix [OF ok(1) p(1)]]) (auto simp: holes_def shape_def)
  then show "codeOk p f1 st st1"
    using fits_grows [OF _ ok(2)] assms(2) by (simp add: codeOk_def shape_def)
  have "okCode p (holes f2) (codeEnd st1) (cv_code (viewC st2))"
    using assms(1) by (rule_tac okCode_holes [OF okCode_from [OF ok(1) p(2)]]) (auto simp: holes_def shape_def)
  then show "codeOk p f2 st1 st2" using ok(2) by (simp add: codeOk_def)
qed

lemma codeOk_cons: "shape st [] st1 \<Longrightarrow> shape st1 f st2 \<Longrightarrow> codeOk p f st st2 \<Longrightarrow> codeOk p [] st st1 \<and> codeOk p f st1 st2"
  using codeOk_split [of st "[]" st1 f st2 p] by simp

lemma codeOk_instr:
  assumes "emitted i st pos st1" "plain i" "codeOk p [] st st1"
  shows "hasI p (codeEnd st) i" "codeEnd st1 = codeEnd st + InstructionSize (iop i)"
  using assms okCode_instr [of p "{}" "codeEnd st" "cv_code (viewC st1)" "cv_code (viewC st)" i]
  by (simp_all add: emitted_def codeOk_def hasI_def holes_def length_encodeI)

lemma codeOk_hole:
  assumes "emitted (Instr op x 0 0) st pos st1" "InstructionSize op = 5" "codeOk p [pos] st st1" "DecodeU16 (pCode p) (pos + 3) = Some t"
  shows "hasI p (codeEnd st) (Instr op x t 0)" "codeEnd st1 = codeEnd st + 5"
  using assms okCode_hole [of p "holes [pos]" "codeEnd st" "cv_code (viewC st1)" "cv_code (viewC st)" op x t]
  by (simp_all add: emitted_def codeOk_def hasI_def holes_def length_encodeI)

section \<open>Slots\<close>

text \<open>Slots below \<open>n\<close> are kept; the new names hold the bindings.\<close>

definition keeps :: "nat \<Rightarrow> nat \<Rightarrow> val option list \<Rightarrow> val option list \<Rightarrow> bool" where
  "keeps bp n l l' \<longleftrightarrow> (\<forall>slot < n. slotVal bp l' slot = slotVal bp l slot)"

definition bound :: "nat \<Rightarrow> val option list \<Rightarrow> (string \<times> nat) list \<Rightarrow> (string \<times> val) list \<Rightarrow> bool" where
  "bound bp l nn bs \<longleftrightarrow> list_all2 (\<lambda>(x, slot) (y, v). x = y \<and> slotVal bp l slot = Some v) (filter (\<lambda>(x, _). \<not> temp x) nn) bs"

lemma keeps_refl [simp]: "keeps bp n l l"
  by (simp add: keeps_def)

lemma keeps_trans: "keeps bp n l l1 \<Longrightarrow> keeps bp m l1 l2 \<Longrightarrow> n \<le> m \<Longrightarrow> keeps bp n l l2"
  by (simp add: keeps_def)

lemma bound_append: "bound bp l n1 b1 \<Longrightarrow> bound bp l n2 b2 \<Longrightarrow> bound bp l (n1 @ n2) (b1 @ b2)"
  by (auto simp: bound_def intro: list_all2_appendI)

lemma bound_Nil [simp]: "bound bp l [] []"
  by (simp add: bound_def)

lemma bound_keeps:
  assumes "bound bp l nn bs" "keeps bp m l l'" "list_all (\<lambda>xs. snd xs < m) nn"
  shows "bound bp l' nn bs"
  using assms(1) unfolding bound_def
  by (rule list.rel_mono_strong) (use assms(2,3) in \<open>auto simp: keeps_def list_all_iff\<close>)

lemma slotVal_putSlots:
  "length vs = k \<Longrightarrow> slotVal bp (putSlots bp [n..<n + k] vs l) slot = (if n \<le> slot \<and> slot < n + k then Some (vs ! (slot - n)) else slotVal bp l slot)"
proof (induction vs arbitrary: n k l)
  case (Cons v vs)
  then have "[n..<n + k] = n # [Suc n..<Suc n + length vs]" by (auto simp: upt_conv_Cons)
  then have "putSlots bp [n..<n + k] (v # vs) l = putSlots bp [Suc n..<Suc n + length vs] vs (putSlot bp n v l)" by (simp add: putSlots_def)
  then show ?case using Cons.IH [of "length vs" "Suc n"] Cons.prems by (auto simp: nth_Cons')
qed (auto simp: putSlots_def)

lemma temp_match: "temp (''$match_'' @ xs)"
  by (simp add: temp_def)

lemma bound_direct:
  assumes "length vs = length ps" "\<And>i. i < length ps \<Longrightarrow> slotVal bp l (n + i) = Some (vs ! i)" "list_all namedPat ps"
  shows "bound bp l (zip (map fst (map2 patternSlotInfo ps [k..<k + length ps])) [n..<n + length ps]) (directBinds ps vs)"
  using assms
proof (induction ps arbitrary: vs n k)
  case (Cons p ps)
  then obtain v vs' where vs: "vs = v # vs'" by (cases vs) auto
  have u: "[n..<n + length (p # ps)] = n # [Suc n..<Suc n + length ps]" "[k..<k + length (p # ps)] = k # [Suc k..<Suc k + length ps]"
    by (simp_all add: upt_conv_Cons del: upt_Suc)
  have "bound bp l (zip (map fst (map2 patternSlotInfo ps [Suc k..<Suc k + length ps])) [Suc n..<Suc n + length ps]) (directBinds ps vs')"
    using Cons.prems Cons.prems(2) [of "Suc _"] by (intro Cons.IH) (auto simp: vs)
  moreover have "slotVal bp l n = Some v" using Cons.prems(2) [of 0] by (simp add: vs)
  ultimately show ?case
    using Cons.prems(3) unfolding u
    by (cases p) (auto simp: bound_def vs patternSlotInfo_def temp_match namedPat_def simp del: upt_Suc append.simps)
qed simp

section \<open>Running pattern code\<close>

text \<open>The code from \<open>st\<close> to \<open>st'\<close> does what the result of matching says, from the operands \<open>s0\<close>.\<close>

definition matchRun :: "vmCfg \<Rightarrow> vmEnv \<Rightarrow> applier \<Rightarrow> world \<Rightarrow> nat \<Rightarrow> 16 word \<Rightarrow> compiler \<Rightarrow> compiler \<Rightarrow> val list \<Rightarrow> val list \<Rightarrow> val option list \<Rightarrow> matched \<Rightarrow> bool" where
  "matchRun G E self w bp t st st' s0 s l r =
     (case r of
        Hit bs \<Rightarrow> runsTo G E self w (codeEnd st) s0 l (codeEnd st') s (\<lambda>l'. keeps bp (cv_num (viewC st)) l l' \<and> bound bp l' (news st st') bs)
      | Miss \<Rightarrow> runsTo G E self w (codeEnd st) s0 l (unat t) s (keeps bp (cv_num (viewC st)) l)
      | Stuck \<Rightarrow> True)"

text \<open>Code of two parts: the second runs after a hit of the first.\<close>

lemma news_trans: "shape st f1 st1 \<Longrightarrow> shape st1 f2 st2 \<Longrightarrow> news st st2 = news st st1 @ news st1 st2"
  by (auto simp: shape_def news_def prefix_def)

lemma news_num: "shape st f st' \<Longrightarrow> list_all (\<lambda>xs. snd xs < cv_num (viewC st')) (news st st')"
  using view_num [of st'] by (auto simp: shape_def news_def list_all_iff dest: in_set_dropD)

lemma matchRun_hit:
  assumes "shape st f1 st1" "shape st1 f2 st2"
    and run1: "runsTo G E self w (codeEnd st) s0 l (codeEnd st1) s1 (\<lambda>l'. keeps bp (cv_num (viewC st)) l l' \<and> bound bp l' (news st st1) bs \<and> P l')"
    and run2: "\<And>l1. keeps bp (cv_num (viewC st)) l l1 \<Longrightarrow> P l1 \<Longrightarrow> matchRun G E self w bp t st1 st2 s1 s l1 r2"
  shows "matchRun G E self w bp t st st2 s0 s l (hitMore bs r2)"
proof -
  have num: "cv_num (viewC st) \<le> cv_num (viewC st1)" using assms(1) by (simp add: shape_def grows_def)
  show ?thesis
  proof (cases r2)
    case (Hit bs2)
    have "runsTo G E self w (codeEnd st) s0 l (codeEnd st2) s (\<lambda>l'. keeps bp (cv_num (viewC st)) l l' \<and> bound bp l' (news st st2) (bs @ bs2))"
    proof (rule runsTo_trans [OF run1])
      fix l1 assume l1: "keeps bp (cv_num (viewC st)) l l1 \<and> bound bp l1 (news st st1) bs \<and> P l1"
      then have "matchRun G E self w bp t st1 st2 s1 s l1 (Hit bs2)" using run2 Hit by simp
      then show "runsTo G E self w (codeEnd st1) s1 l1 (codeEnd st2) s (\<lambda>l'. keeps bp (cv_num (viewC st)) l l' \<and> bound bp l' (news st st2) (bs @ bs2))"
        unfolding matchRun_def matched.case
        by (rule runsTo_mono)
          (use l1 num news_num [OF assms(1)] in \<open>auto simp: news_trans [OF assms(1,2)] intro: keeps_trans bound_append bound_keeps\<close>)
    qed
    then show ?thesis using Hit by (simp add: matchRun_def)
  next
    case Miss
    have "runsTo G E self w (codeEnd st) s0 l (unat t) s (keeps bp (cv_num (viewC st)) l)"
    proof (rule runsTo_trans [OF run1])
      fix l1 assume l1: "keeps bp (cv_num (viewC st)) l l1 \<and> bound bp l1 (news st st1) bs \<and> P l1"
      then have "matchRun G E self w bp t st1 st2 s1 s l1 Miss" using run2 Miss by simp
      then show "runsTo G E self w (codeEnd st1) s1 l1 (unat t) s (keeps bp (cv_num (viewC st)) l)"
        unfolding matchRun_def matched.case by (rule runsTo_mono) (use l1 num in \<open>auto intro: keeps_trans\<close>)
    qed
    then show ?thesis using Miss by (simp add: matchRun_def)
  qed (simp add: matchRun_def)
qed

lemma matchRun_seq:
  assumes "shape st f1 st1" "shape st1 f2 st2" "matchRun G E self w bp t st st1 s0 s l r1"
    and "\<And>l1. keeps bp (cv_num (viewC st)) l l1 \<Longrightarrow> matchRun G E self w bp t st1 st2 s s l1 r2"
  shows "matchRun G E self w bp t st st2 s0 s l (case r1 of Hit bs \<Rightarrow> hitMore bs r2 | r \<Rightarrow> r)"
proof (cases r1)
  case (Hit bs)
  then show ?thesis
    using matchRun_hit [OF assms(1,2), where P = "\<lambda>_. True" and bs = bs, simplified] assms(3,4) by (simp add: matchRun_def)
qed (use assms(3) in \<open>simp_all add: matchRun_def\<close>)

text \<open>Steps of the compiler that emit nothing.\<close>

lemma matchRun_view:
  assumes "cv_code (viewC st1) = cv_code (viewC st)" "cv_num (viewC st) \<le> cv_num (viewC st1)" "matchRun G E self w bp t st1 st2 s0 s l r"
    and "\<And>l' bs. r = Hit bs \<Longrightarrow> bound bp l' (news st1 st2) bs \<Longrightarrow> bound bp l' (news st st2) bs"
  shows "matchRun G E self w bp t st st2 s0 s l r"
  using assms unfolding matchRun_def
  by (cases r) (auto simp: keeps_def elim!: runsTo_mono)

lemma plain_instr [simp]:
  "plain (Instr OpStoreLocal a 0 0)" "plain (Instr OpLoadLocal a 0 0)" "plain (Instr OpPop 0 0 0)"
  by (simp_all add: plain_def)

lemma slot_word: "n < m \<Longrightarrow> m \<le> 65536 \<Longrightarrow> unat (of_nat n :: 16 word) = n"
  by (simp add: unat_of_nat)

text \<open>The test of a constructor or record pattern, with the slots of its parts.\<close>

lemma slotInfos_length [simp]: "length (slotInfos ps) = length ps"
  by (simp add: slotInfos_def)

lemma parts_bound:
  assumes "length vs = length ps" "list_all namedPat ps"
  shows "keeps bp n l (putSlots bp [n..<n + length ps] vs l) \<and>
    bound bp (putSlots bp [n..<n + length ps] vs l) (zip (map fst (slotInfos ps)) [n..<n + length ps]) (directBinds ps vs) \<and>
    (\<forall>i < length ps. slotVal bp (putSlots bp [n..<n + length ps] vs l) ([n..<n + length ps] ! i) = Some (vs ! i))"
  using bound_direct [OF assms(1) _ assms(2), of bp "putSlots bp [n..<n + length ps] vs l" n 0] slotVal_putSlots [OF assms(1), of bp n l]
  by (simp add: keeps_def slotInfos_def)

text \<open>The code of a pattern with parts: the test stores the parts in fresh slots, the code of the subpatterns follows.\<close>

lemma parts_run:
  assumes "okState st" "allocLocals (map fst (slotInfos args)) st = Inr (ss, st1)" "addMatchDesc md st1 = Inr (d, st2)" "emitU16U16 op d 0 st2 = Inr (pos, st3)"
    "InstructionSize op = 5" "compileSubpatterns args ss st3 = Inr (ps, st')" "codeOk p (pos # ps) st st'" "\<forall>q \<in> set (pos # ps). DecodeU16 (pCode p) (q + 3) = Some t"
  shows "hasI p (codeEnd st) (Instr op d t 0)" "unat d < length (pMatchDescs p)" "pMatchDescs p ! unat d = md" "okState st3" "codeOk p ps st3 st'"
    "ss = [cv_num (viewC st)..<cv_num (viewC st) + length args]" "cv_num (viewC st3) = cv_num (viewC st) + length args"
    and "length vs = length args \<Longrightarrow> list_all namedPat args \<Longrightarrow> runsTo G E self w (codeEnd st) (v # s) l (codeEnd st + 5) s (\<lambda>l'. l' = putSlots bp ss vs l) \<Longrightarrow>
      (\<And>l1. (\<forall>i < length args. slotVal bp l1 (ss ! i) = Some (vs ! i)) \<Longrightarrow> matchRun G E self w bp t st3 st' s s l1 (matchSubs G args vs)) \<Longrightarrow>
      matchRun G E self w bp t st st' (v # s) s l (hitMore (directBinds args vs) (matchSubs G args vs))"
proof -
  note v1 = allocLocals_view [OF assms(1,2), simplified]
  note a = shape_viewed(4) [OF assms(1,2)]
  note v2 = addMatchDesc_view [OF shape_ok [OF a] assms(3)]
  note b = shape_viewed(3) [OF shape_ok [OF a] assms(3)]
  note em = emit_view(4) [OF shape_ok [OF b] assms(4,5)]
  note c = shape_hole [OF em, simplified, OF assms(5)]
  note d = pattern_shape(2) [OF shape_ok [OF c] assms(6)]
  note abc = shape_cons [OF a shape_cons [OF b c]]
  have all: "codeOk p ([pos] @ ps) st st'" using assms(7) by simp
  have ok: "codeOk p [pos] st2 st3" using codeOk_split [OF abc d all] codeOk_cons [OF shape_cons [OF a b] c] by simp
  show "codeOk p ps st3 st'" using codeOk_split [OF abc d all] by simp
  show "okState st3" using shape_ok [OF c] .
  have t: "DecodeU16 (pCode p) (pos + 3) = Some t" using assms(8) by simp
  note test = codeOk_hole [OF em assms(5) ok t]
  show "unat d < length (pMatchDescs p)" "pMatchDescs p ! unat d = md"
    using pool_entry [of "cv_match (viewC st1)" md "pMatchDescs p"] v2 em ok by (auto simp: codeOk_def fits_def emitted_def)
  have eq: "codeEnd st2 = codeEnd st" "codeEnd st3 = codeEnd st + 5" "news st st3 = zip (map fst (slotInfos args)) ss"
    using v1 v2 em test by (auto simp: emitted_def news_def)
  show ss: "ss = [cv_num (viewC st)..<cv_num (viewC st) + length args]" "cv_num (viewC st3) = cv_num (viewC st) + length args"
    using v1 v2 em by (auto simp: emitted_def)
  show "hasI p (codeEnd st) (Instr op d t 0)" using test(1) eq(1) by simp
  assume h: "length vs = length args" "list_all namedPat args" "runsTo G E self w (codeEnd st) (v # s) l (codeEnd st + 5) s (\<lambda>l'. l' = putSlots bp ss vs l)"
    and run: "\<And>l1. (\<forall>i < length args. slotVal bp l1 (ss ! i) = Some (vs ! i)) \<Longrightarrow> matchRun G E self w bp t st3 st' s s l1 (matchSubs G args vs)"
  have "runsTo G E self w (codeEnd st) (v # s) l (codeEnd st3) s (\<lambda>l'. keeps bp (cv_num (viewC st)) l l' \<and> bound bp l' (news st st3) (directBinds args vs) \<and>
      (\<forall>i < length args. slotVal bp l' (ss ! i) = Some (vs ! i)))"
    unfolding eq(2) by (rule runsTo_mono [OF h(3)]) (use parts_bound [OF h(1,2), of bp "cv_num (viewC st)" l] eq(3) ss(1) in simp)
  then show "matchRun G E self w bp t st st' (v # s) s l (hitMore (directBinds args vs) (matchSubs G args vs))"
    by (rule matchRun_hit [OF abc d]) (use run in simp)
qed

text \<open>Each kind of pattern, given what the code of its subpatterns does.\<close>

definition subsRun :: "vmCfg \<Rightarrow> pat list \<Rightarrow> nat list \<Rightarrow> compiler \<Rightarrow> bool" where
  "subsRun G ps ss st \<longleftrightarrow>
     (\<forall>E self w p bp t fails st' vs s l. compileSubpatterns ps ss st = Inr (fails, st') \<longrightarrow> list_all namedPat ps \<longrightarrow> runsIn w p bp \<longrightarrow> codeOk p fails st st' \<longrightarrow>
        (\<forall>pos \<in> set fails. DecodeU16 (pCode p) (pos + 3) = Some t) \<longrightarrow> length ss = length ps \<longrightarrow> length vs = length ps \<longrightarrow>
        (\<forall>i < length ps. ss ! i < cv_num (viewC st) \<and> slotVal bp l (ss ! i) = Some (vs ! i)) \<longrightarrow> matchRun G E self w bp t st st' s s l (matchSubs G ps vs))"

definition patRun :: "vmCfg \<Rightarrow> pat \<Rightarrow> compiler \<Rightarrow> bool" where
  "patRun G q st \<longleftrightarrow>
     (\<forall>E self w p bp t fails st' v s l. compilePatternCollect q st = Inr (fails, st') \<longrightarrow> namedPat q \<longrightarrow> runsIn w p bp \<longrightarrow> codeOk p fails st st' \<longrightarrow>
        (\<forall>pos \<in> set fails. DecodeU16 (pCode p) (pos + 3) = Some t) \<longrightarrow> matchRun G E self w bp t st st' (v # s) s l (matchPat G q v))"

lemma con_pattern:
  assumes "okState st" "\<And>ss st3. okState st3 \<Longrightarrow> subsRun G args ss st3"
  shows "patRun G (PCon con m args) st"
  unfolding patRun_def
proof (intro allI impI)
  fix E self w p bp t fails st' v s l
  assume h: "compilePatternCollect (PCon con m args) st = Inr (fails, st')" "namedPat (PCon con m args)" "runsIn w p bp" "codeOk p fails st st'"
    "\<forall>pos \<in> set fails. DecodeU16 (pCode p) (pos + 3) = Some t"
  obtain ss st1 d st2 pos st3 ps where c: "allocLocals (map fst (slotInfos args)) st = Inr (ss, st1)"
    "addMatchDesc (MatchDesc con ss (map fst (slotInfos args)) (map snd (slotInfos args)) [] []) st1 = Inr (d, st2)"
    "emitU16U16 OpMatchCon d 0 st2 = Inr (pos, st3)" "compileSubpatterns args ss st3 = Inr (ps, st')" "fails = pos # ps"
    using h(1) by (auto simp: thenC_Inr)
  note parts = parts_run [OF assms(1) c(1-3) _ c(4) h(4,5) [unfolded c(5)], simplified]
  note tests = run_matchCon [OF h(3) parts(1-3), simplified]
  have named: "list_all namedPat args" using h(2) by (auto simp: namedPat_def list_all_iff)
  show "matchRun G E self w bp t st st' (v # s) s l (matchPat G (PCon con m args) v)"
  proof (cases "\<exists>vs dd n. v = ConVal con vs dd n \<and> length vs = length args")
    case True
    then obtain vs dd n where v: "v = ConVal con vs dd n" "length vs = length args" by blast
    have "matchRun G E self w bp t st st' (v # s) s l (hitMore (directBinds args vs) (matchSubs G args vs))"
    proof (rule parts(8) [OF v(2) named])
      show "runsTo G E self w (codeEnd st) (v # s) l (codeEnd st + 5) s (\<lambda>l'. l' = putSlots bp ss vs l)"
        using tests(1) [OF v(1)] v(2) parts(6) by simp
      show "matchRun G E self w bp t st3 st' s s l1 (matchSubs G args vs)" if "\<forall>i < length args. slotVal bp l1 (ss ! i) = Some (vs ! i)" for l1
        by (rule assms(2) [OF parts(4), unfolded subsRun_def, rule_format, OF c(4) named h(3) parts(5)]) (use h(5) c(5) that v(2) parts(6,7) in auto)
    qed
    then show ?thesis using v by simp
  next
    case False
    then have "matchPat G (PCon con m args) v = Miss" by (cases v) auto
    moreover have "runsTo G E self w (codeEnd st) (v # s) l (unat t) s (keeps bp (cv_num (viewC st)) l)"
      using False parts(6) by (intro tests(2)) auto
    ultimately show ?thesis by (simp add: matchRun_def)
  qed
qed

lemma record_pattern:
  assumes "okState st" "\<And>ss st3. okState st3 \<Longrightarrow> subsRun G (map snd fs) ss st3"
  shows "patRun G (PRecord fs) st"
  unfolding patRun_def
proof (intro allI impI)
  fix E self w p bp t fails st' v s l
  assume h: "compilePatternCollect (PRecord fs) st = Inr (fails, st')" "namedPat (PRecord fs)" "runsIn w p bp" "codeOk p fails st st'"
    "\<forall>pos \<in> set fails. DecodeU16 (pCode p) (pos + 3) = Some t"
  obtain ss st1 d st2 pos st3 ps where c: "allocLocals (map fst (slotInfos (map snd fs))) st = Inr (ss, st1)"
    "addMatchDesc (MatchDesc [] [] [] [] (map fst fs) ss) st1 = Inr (d, st2)"
    "emitU16U16 OpMatchRecord d 0 st2 = Inr (pos, st3)" "compileSubpatterns (map snd fs) ss st3 = Inr (ps, st')" "fails = pos # ps"
    using h(1) by (auto simp: thenC_Inr)
  note parts = parts_run [OF assms(1) c(1-3) _ c(4) h(4,5) [unfolded c(5)], simplified]
  note tests = run_matchRecord [OF h(3) parts(1-3), simplified]
  have named: "list_all namedPat (map snd fs)" using h(2) by (fastforce simp: namedPat_def list_all_iff)
  show "matchRun G E self w bp t st st' (v # s) s l (matchPat G (PRecord fs) v)"
  proof (cases "\<exists>r vs. v = RecordVal r \<and> those (map (recGet r) (map fst fs)) = Some vs")
    case True
    then obtain r vs where v: "v = RecordVal r" "those (map (recGet r) (map fst fs)) = Some vs" by blast
    have len: "length vs = length (map snd fs)" using length_those [OF v(2)] by simp
    have "matchRun G E self w bp t st st' (v # s) s l (hitMore (directBinds (map snd fs) vs) (matchSubs G (map snd fs) vs))"
    proof (rule parts_run(8) [OF assms(1) c(1-3) _ c(4) h(4,5) [unfolded c(5)] len named])
      show "runsTo G E self w (codeEnd st) (v # s) l (codeEnd st + 5) s (\<lambda>l'. l' = putSlots bp ss vs l)"
        using tests(1) [OF _ v(1)] v(2) parts(6) by simp
      show "matchRun G E self w bp t st3 st' s s l1 (matchSubs G (map snd fs) vs)" if "\<forall>i < length (map snd fs). slotVal bp l1 (ss ! i) = Some (vs ! i)" for l1
        by (rule assms(2) [OF parts(4), unfolded subsRun_def, rule_format, OF c(4) named h(3) parts(5)]) (use h(5) c(5) that len parts(6,7) in auto)
    qed simp
    then show ?thesis using v by simp
  next
    case False
    then have "matchPat G (PRecord fs) v = Miss" by (cases v) (auto split: option.splits)
    moreover have "runsTo G E self w (codeEnd st) (v # s) l (unat t) s (keeps bp (cv_num (viewC st)) l)"
      using False parts(6) by (intro tests(2)) auto
    ultimately show ?thesis by (simp add: matchRun_def)
  qed
qed

lemma var_pattern:
  assumes "okState st"
  shows "patRun G (PVar x g) st"
  unfolding patRun_def
proof (intro allI impI)
  fix E self w p bp t fails st' v s l
  assume h: "compilePatternCollect (PVar x g) st = Inr (fails, st')" "namedPat (PVar x g)" "runsIn w p bp" "codeOk p fails st st'"
    "\<forall>pos \<in> set fails. DecodeU16 (pCode p) (pos + 3) = Some t"
  from h(1) obtain n st1 pos where s: "allocLocal x st = Inr (n, st1)" "emitU16 OpStoreLocal (of_nat n) st1 = Inr (pos, st')" "fails = []"
    by (auto simp: thenC_Inr)
  note v1 = allocLocal_view [OF assms s(1)]
  note sh = shape_viewed(2) [OF assms s(1)]
  note em = emit_view(2) [OF shape_ok [OF sh] s(2), simplified]
  have ok: "codeOk p [] st1 st'" "fits p (viewC st')"
    using codeOk_cons [OF sh shape_emitted [OF em]] h(4) s(3) by (auto simp: codeOk_def)
  note instr = codeOk_instr [OF em _ ok(1), simplified]
  have num: "n < cv_num (viewC st')" "cv_num (viewC st') \<le> 65536" using v1 em ok(2) by (auto simp: emitted_def fits_def)
  have "news st st' = [(x, n)]" "codeEnd st1 = codeEnd st" using v1 em by (auto simp: news_def emitted_def)
  moreover have "\<not> temp x" using h(2) by (simp add: namedPat_def)
  ultimately show "matchRun G E self w bp t st st' (v # s) s l (matchPat G (PVar x g) v)"
    using instr num v1
    by (auto simp: matchRun_def bound_def keeps_def slot_word intro!: run_storeLocal [OF h(3)])
qed

lemma wild_pattern:
  assumes "okState st"
  shows "patRun G (PWild) st"
  unfolding patRun_def
proof (intro allI impI)
  fix E self w p bp t fails st' v s l
  assume h: "compilePatternCollect (PWild) st = Inr (fails, st')" "namedPat (PWild)" "runsIn w p bp" "codeOk p fails st st'"
    "\<forall>pos \<in> set fails. DecodeU16 (pCode p) (pos + 3) = Some t"
  from h(1) obtain pos where s: "emit OpPop st = Inr (pos, st')" "fails = []" by (auto simp: thenC_Inr)
  note em = emit_view(1) [OF assms s(1), simplified]
  note instr = codeOk_instr [OF em _ h(4) [unfolded s(2)], simplified]
  show "matchRun G E self w bp t st st' (v # s) s l (matchPat G (PWild) v)" using em instr by (auto simp: matchRun_def news_def emitted_def intro!: run_pop [OF h(3), simplified])
qed

lemma lit_pattern:
  assumes "okState st"
  shows "patRun G (PLit c) st"
  unfolding patRun_def
proof (intro allI impI)
  fix E self w p bp t fails st' v s l
  assume h: "compilePatternCollect (PLit c) st = Inr (fails, st')" "namedPat (PLit c)" "runsIn w p bp" "codeOk p fails st st'"
    "\<forall>pos \<in> set fails. DecodeU16 (pCode p) (pos + 3) = Some t"
  from h(1) obtain i st1 pos where s: "addConstant (hostLit c) st = Inr (i, st1)" "emitU16U16 OpMatchLit i 0 st1 = Inr (pos, st')" "fails = [pos]"
    by (auto simp: thenC_Inr)
  note v1 = addConstant_view [OF assms s(1)]
  note sh = shape_viewed(1) [OF assms s(1)]
  note em = emit_view(4) [OF shape_ok [OF sh] s(2), simplified]
  have ok: "codeOk p [pos] st1 st'" using codeOk_cons [OF sh shape_hole [OF em]] h(4) s(3) by simp
  note instr = codeOk_hole [OF em _ ok, of t, simplified]
  have pool: "unat i < length (pConstants p)" "pConstants p ! unat i = hostLit c"
    using pool_entry [of "cv_consts (viewC st)" "hostLit c" "pConstants p"] v1 em ok by (auto simp: codeOk_def fits_def emitted_def)
  have eq: "news st st' = []" "codeEnd st1 = codeEnd st" "codeEnd st' = codeEnd st + 5" using v1 em instr h(5) s(3) by (auto simp: news_def emitted_def)
  have "runsTo G E self w (codeEnd st) (v # s) l (if litEqual v (hostLit c) then codeEnd st + 5 else unat t) s (\<lambda>l'. l' = l)"
    using instr(1) h(5) s(3) eq pool by (intro run_matchLit [OF h(3)]) auto
  then show "matchRun G E self w bp t st st' (v # s) s l (matchPat G (PLit c) v)" by (auto simp: matchRun_def eq elim!: runsTo_mono split: if_splits)
qed

lemma label_pattern:
  assumes "okState st"
  shows "patRun G (PLabel c x) st"
  unfolding patRun_def
proof (intro allI impI)
  fix E self w p bp t fails st' v s l
  assume h: "compilePatternCollect (PLabel c x) st = Inr (fails, st')" "namedPat (PLabel c x)" "runsIn w p bp" "codeOk p fails st st'"
    "\<forall>pos \<in> set fails. DecodeU16 (pCode p) (pos + 3) = Some t"
  from h(1) obtain i st1 pos st2 where s: "addConstant (HostVal (HString (CHR ''#'' # c))) st = Inr (i, st1)" "emitU16U16 OpMatchLabel i 0 st1 = Inr (pos, st2)"
    "fails = [pos]" and tail: "(if HasPayload x then thenC (allocLocal x) (\<lambda>slot. seqC (emitU16 OpStoreLocal (of_nat slot)) (retC [pos]))
     else seqC (emit OpPop) (retC [pos])) st2 = Inr (fails, st')"
    by (auto simp: thenC_Inr split: if_splits)
  note v1 = addConstant_view [OF assms s(1)]
  note a = shape_viewed(1) [OF assms s(1)]
  note em = emit_view(4) [OF shape_ok [OF a] s(2), simplified]
  note b = shape_hole [OF em, simplified]
  obtain st3 i3 pos3 where s3: "if HasPayload x then allocLocal x st2 = Inr (cv_num (viewC st2), st3) else st3 = st2"
    "emitted i3 st3 pos3 st'" "i3 = (if HasPayload x then Instr OpStoreLocal (of_nat (cv_num (viewC st2))) 0 0 else Instr OpPop 0 0 0)"
  proof (cases "HasPayload x")
    case True
    with tail obtain n st3 q where q: "allocLocal x st2 = Inr (n, st3)" "emitU16 OpStoreLocal (of_nat n) st3 = Inr (q, st')" by (auto simp: thenC_Inr)
    note v3 = allocLocal_view [OF shape_ok [OF b] q(1)]
    then show ?thesis using that [of st3 _ q] True q emit_view(2) [OF _ q(2)] by simp
  next
    case False
    with tail obtain q where q: "emit OpPop st2 = Inr (q, st')" by (auto simp: thenC_Inr)
    then show ?thesis using that [of st2 _ q] False emit_view(1) [OF shape_ok [OF b] q] by simp
  qed
  have c: "shape st2 [] st3" using s3(1) shape_viewed(2) [OF shape_ok [OF b]] shape_refl [OF shape_ok [OF b]] by (auto split: if_splits)
  note d = shape_emitted [OF s3(2)]
  have all: "codeOk p ([pos] @ []) st1 st'" using codeOk_cons [OF a shape_trans [OF b shape_cons [OF c d]]] h(4) s(3) by simp
  have ok: "codeOk p [pos] st1 st2" "codeOk p [] st3 st'"
    using codeOk_split [OF b shape_cons [OF c d] all] codeOk_cons [OF c d] by simp_all
  have t: "DecodeU16 (pCode p) (pos + 3) = Some t" using h(5) s(3) by simp
  note test = codeOk_hole [OF em _ ok(1) t, simplified]
  have "plain i3" using s3(3) by simp
  note last = codeOk_instr [OF s3(2) this ok(2)]
  let ?tag = "HostVal (HString (CHR ''#'' # c))"
  have pool: "unat i < length (pConstants p)" "pConstants p ! unat i = ?tag"
    using pool_entry [of "cv_consts (viewC st)" ?tag "pConstants p"] v1 em ok(1) by (auto simp: codeOk_def fits_def emitted_def)
  have eq: "codeEnd st1 = codeEnd st" "codeEnd st2 = codeEnd st + 5" "codeEnd st3 = codeEnd st2" "cv_num (viewC st2) = cv_num (viewC st)"
  proof -
    show "codeEnd st1 = codeEnd st" using v1 by simp
    then show "codeEnd st2 = codeEnd st + 5" "cv_num (viewC st2) = cv_num (viewC st)" using test em v1 by (simp_all add: emitted_def)
    show "codeEnd st3 = codeEnd st2"
      using s3(1) allocLocal_view [OF shape_ok [OF b], of x "cv_num (viewC st2)" st3] by (cases "HasPayload x") simp_all
  qed
  show "matchRun G E self w bp t st st' (v # s) s l (matchPat G (PLabel c x) v)"
  proof (cases "\<exists>u. v = VariantVal (CHR ''#'' # c) u")
    case True
    then obtain u where v: "v = VariantVal (CHR ''#'' # c) u" by blast
    have first: "runsTo G E self w (codeEnd st) (v # s) l (codeEnd st2) (u # s) (\<lambda>l'. l' = l)"
      unfolding v eq(2) using test pool by (intro run_matchLabel(1) [OF h(3)]) (auto simp: eq(1))
    show ?thesis
    proof (cases "HasPayload x")
      case True
      note v3 = allocLocal_view [OF shape_ok [OF b], of x "cv_num (viewC st2)" st3]
      have nn: "news st st' = [(x, cv_num (viewC st))]" "cv_num (viewC st) < cv_num (viewC st')" "cv_num (viewC st') \<le> 65536"
        using True s3 v3 v1 em ok(2) by (auto simp: news_def emitted_def codeOk_def fits_def)
      have named: "\<not> temp x" using h(2) True by (simp add: namedPat_def)
      have word: "unat (of_nat (cv_num (viewC st)) :: 16 word) = cv_num (viewC st)" using nn(2,3) by (simp add: slot_word)
      have at: "hasI p (codeEnd st2) (Instr OpStoreLocal (of_nat (cv_num (viewC st))) 0 0)" "codeEnd st' = codeEnd st2 + 3"
        using last True s3(3) eq(3,4) by simp_all
      have "runsTo G E self w (codeEnd st2) (u # s) l (codeEnd st') s (\<lambda>l'. keeps bp (cv_num (viewC st)) l l' \<and> bound bp l' (news st st') [(x, u)])"
        unfolding at(2) by (intro run_storeLocal [OF h(3) at(1)]) (simp add: bound_def keeps_def nn(1) named word)
      then show ?thesis using True v runsTo_trans [OF first] by (simp add: matchRun_def)
    next
      case False
      have "news st st' = []" using False s3 v1 em by (auto simp: news_def emitted_def)
      then have "runsTo G E self w (codeEnd st2) (u # s) l (codeEnd st') s (\<lambda>l'. keeps bp (cv_num (viewC st)) l l' \<and> bound bp l' (news st st') [])"
        using run_pop [OF h(3), of "codeEnd st2" _ l G E self u s] last False s3(3) eq(3) by simp
      then show ?thesis using False v runsTo_trans [OF first] by (simp add: matchRun_def)
    qed
  next
    case False
    then have "matchPat G (PLabel c x) v = Miss" by (cases v) auto
    moreover have "runsTo G E self w (codeEnd st) (v # s) l (unat t) s (keeps bp (cv_num (viewC st)) l)"
      using False test pool eq(1) by (intro run_matchLabel(2) [OF h(3)]) auto
    ultimately show ?thesis by (simp add: matchRun_def)
  qed
qed

lemma subs_pattern:
  assumes "okState st" "\<And>st. okState st \<Longrightarrow> patRun G q st" "\<And>ss st. okState st \<Longrightarrow> subsRun G qs ss st"
  shows "subsRun G (q # qs) ss st"
  unfolding subsRun_def
proof (intro allI impI)
  fix E self w p bp t fails st' and vs :: "val list" and s l
  assume h: "compileSubpatterns (q # qs) ss st = Inr (fails, st')" "list_all namedPat (q # qs)" "runsIn w p bp" "codeOk p fails st st'"
    "\<forall>pos \<in> set fails. DecodeU16 (pCode p) (pos + 3) = Some t" "length ss = length (q # qs)" "length vs = length (q # qs)"
    "\<forall>i < length (q # qs). ss ! i < cv_num (viewC st) \<and> slotVal bp l (ss ! i) = Some (vs ! i)"
  obtain slot ss' u us where Cons: "ss = slot # ss'" "vs = u # us" using h(6,7) by (cases ss; cases vs) auto
  have slot: "slot < cv_num (viewC st)" "slotVal bp l slot = Some u" using h(8) Cons by auto
  have rest: "ss' ! i < cv_num (viewC st) \<and> slotVal bp l (ss' ! i) = Some (us ! i)" if "i < length qs" for i
    using h(8) that Cons by auto
  show "matchRun G E self w bp t st st' s s l (matchSubs G (q # qs) vs)"
  proof (cases "isIrrefutableBinding q")
    case True
    then have code: "compileSubpatterns qs ss' st = Inr (fails, st')" using h(1) Cons by simp
    have "matchRun G E self w bp t st st' s s l (matchSubs G qs us)"
      by (rule assms(3) [OF assms(1), unfolded subsRun_def, rule_format, OF code _ h(3,4)]) (use h(2,5-7) Cons rest in auto)
    then show ?thesis using True Cons by simp
  next
    case False
    then obtain pos st1 as st2 bs where s: "emitU16 OpLoadLocal (of_nat slot) st = Inr (pos, st1)" "compilePatternCollect q st1 = Inr (as, st2)"
      "compileSubpatterns qs ss' st2 = Inr (bs, st')" "fails = as @ bs"
      using h(1) Cons by (auto simp: thenC_Inr)
    note em = emit_view(2) [OF assms(1) s(1), simplified]
    note a = shape_emitted [OF em]
    note b = pattern_shape(1) [OF shape_ok [OF a] s(2)]
    note c = pattern_shape(2) [OF shape_ok [OF b] s(3)]
    have ok: "codeOk p [] st st1" "codeOk p as st1 st2" "codeOk p bs st2 st'"
      using codeOk_cons [OF a shape_trans [OF b c]] codeOk_split [OF b c] h(4) s(4) by auto
    have num: "cv_num (viewC st) \<le> 65536" using ok(1) em by (simp add: codeOk_def fits_def emitted_def)
    note load = codeOk_instr [OF em _ ok(1), simplified]
    have eq: "news st st1 = []" "cv_num (viewC st1) = cv_num (viewC st)" using em by (auto simp: news_def emitted_def)
    show ?thesis
    proof (cases "derefV G u")
      case None
      then show ?thesis using Cons False by (simp add: matchRun_def)
    next
      case (Some u')
      have "runsTo G E self w (codeEnd st) s l (codeEnd st1) (u' # s) (\<lambda>l'. keeps bp (cv_num (viewC st)) l l' \<and> bound bp l' (news st st1) [] \<and> l' = l)"
        using load slot num Some by (auto simp: eq slot_word intro!: run_loadLocal [OF h(3)])
      then have "matchRun G E self w bp t st st2 s s l (hitMore [] (matchPat G q u'))"
        by (rule matchRun_hit [OF a b])
          (use assms(2) [OF shape_ok [OF a], unfolded patRun_def, rule_format, OF s(2) _ h(3) ok(2)] h(2,5) s(4) in auto)
      moreover have "hitMore [] r = r" for r by (cases r) auto
      ultimately have first: "matchRun G E self w bp t st st2 s s l (matchPat G q u')" by simp
      have grow: "cv_num (viewC st) \<le> cv_num (viewC st2)" using shape_trans [OF a b] by (simp add: shape_def grows_def)
      have "matchRun G E self w bp t st2 st' s s l1 (matchSubs G qs us)" if "keeps bp (cv_num (viewC st)) l l1" for l1
      proof (rule assms(3) [OF shape_ok [OF b], unfolded subsRun_def, rule_format, OF s(3) _ h(3) ok(3)])
        show "list_all namedPat qs" "length ss' = length qs" "length us = length qs" using h(2,6,7) Cons by auto
        show "DecodeU16 (pCode p) (pos + 3) = Some t" if "pos \<in> set bs" for pos using h(5) s(4) that by simp
        show "ss' ! i < cv_num (viewC st2) \<and> slotVal bp l1 (ss' ! i) = Some (us ! i)" if "i < length qs" for i
          using rest [OF that] grow \<open>keeps bp (cv_num (viewC st)) l l1\<close> by (simp add: keeps_def)
      qed
      then have "matchRun G E self w bp t st st' s s l (case matchPat G q u' of Hit bs \<Rightarrow> hitMore bs (matchSubs G qs us) | r \<Rightarrow> r)"
        by (rule matchRun_seq [OF shape_trans [OF a b] c first])
      then show ?thesis using Cons False Some by simp
    qed
  qed
qed

lemma subs_patterns: "\<forall>q \<in> set qs. \<forall>st. okState st \<longrightarrow> patRun G q st \<Longrightarrow> okState st \<Longrightarrow> subsRun G qs ss st"
proof (induction qs arbitrary: ss st)
  case Nil
  then show ?case by (auto simp: subsRun_def matchRun_def news_def intro!: runsTo_refl)
qed (auto intro: subs_pattern)

lemma pattern_run: "okState st \<Longrightarrow> patRun G q st"
proof (induction q arbitrary: st)
  case (PCon con m args)
  then show ?case by (intro con_pattern subs_patterns) auto
next
  case (PRecord fs)
  then show ?case by (intro record_pattern subs_patterns) (auto simp: snds.simps)
qed (auto intro: var_pattern wild_pattern lit_pattern label_pattern)

lemma pattern_runs:
  "okState st \<Longrightarrow> compilePatternCollect q st = Inr (fails, st') \<Longrightarrow> namedPat q \<Longrightarrow> runsIn w p bp \<Longrightarrow> codeOk p fails st st' \<Longrightarrow>
     \<forall>pos \<in> set fails. DecodeU16 (pCode p) (pos + 3) = Some t \<Longrightarrow> matchRun G E self w bp t st st' (v # s) s l (matchPat G q v)"
  using pattern_run [of st G q] unfolding patRun_def by blast

end
