(* ===== verification/Vm_Data.thy ===== *)
theory Vm_Data
  imports Vm_Patterns
begin

text \<open>
  Compiled data expressions compute their values. \<open>evalD\<close> evaluates the expressions of Core IR that build and take apart data: variables, literals, constructors, records, variants and
  case distinctions with nested patterns. The code that the compiler emits for such an expression leaves the value on the operand stack of the machine.
\<close>

section \<open>Evaluation of data expressions\<close>

fun firstMatch :: "vmCfg \<Rightarrow> val \<Rightarrow> (pat \<times> 'b \<times> 'c) list \<Rightarrow> ((string \<times> val) list \<times> 'b) option" where
  "firstMatch G v [] = None"
| "firstMatch G v ((p, b, g) # alts) = (case matchPat G p v of Hit bs \<Rightarrow> Some (bs, b) | Miss \<Rightarrow> firstMatch G v alts | Stuck \<Rightarrow> None)"

lemma firstMatch_mem: "firstMatch G v alts = Some (bs, b) \<Longrightarrow> \<exists>p g. (p, b, g) \<in> set alts"
  by (induction G v alts rule: firstMatch.induct) (auto split: matched.splits)

lemma size_alt: "(p, b, g) \<in> set alts \<Longrightarrow> size b < size_list (size_prod (\<lambda>_. 0) (size_prod size (\<lambda>_. 0))) alts"
  by (induction alts) auto

lemma size_field: "(l, b) \<in> set fs \<Longrightarrow> size b < size_list (size_prod (\<lambda>_. 0) size) fs" for b :: "'a core"
  by (induction fs) auto

lemma size_arg: "x \<in> set xs \<Longrightarrow> size x < size_list size xs" for x :: "'a core"
  by (induction xs) auto

function (sequential) evalD :: "vmCfg \<Rightarrow> compEnv \<Rightarrow> (string \<Rightarrow> val option) \<Rightarrow> annotated \<Rightarrow> val option" where
  "evalD G E env (TyApp e t) = evalD G E env e"
| "evalD G E env (TyLam a k e) = evalD G E env e"
| "evalD G E env (Pure e) = evalD G E env e"
| "evalD G E env (Var n m i) =
     (if 0 \<le> i then Option.bind (env n) (derefV G)
      else Option.bind (ce_globalSlots E (m, n)) (\<lambda>slot.
        if slot < 65536 \<and> slot < length (vc_globals G) then Option.bind (vc_globals G ! slot) (derefV G) else None))"
| "evalD G E env (Lit l) = Some (hostLit l)"
| "evalD G E env (Con n m args isDict) =
     map_option (\<lambda>vs. ConVal n vs isDict (countLeadingDictArgs vs)) (those (map (evalD G E env) args))"
| "evalD G E env (Case e alts) =
     (case Option.bind (evalD G E env e) (derefV G) of
        None \<Rightarrow> None
      | Some v \<Rightarrow> (case firstMatch G v alts of None \<Rightarrow> None | Some (bs, b) \<Rightarrow> evalD G E (env ++ map_of (rev bs)) b))"
| "evalD G E env (RecordLit fs) =
     (if fs = [] then Some UnitVal else map_option (\<lambda>vs. newRecord (zip (map fst fs) vs)) (those (map (\<lambda>f. evalD G E env (snd f)) fs)))"
| "evalD G E env (RecordProj r l) = (case evalD G E env r of Some (RecordVal fs) \<Rightarrow> recGet fs l | _ \<Rightarrow> None)"
| "evalD G E env (RecordUpdate r fs) =
     (case evalD G E env r of
        Some (RecordVal rf) \<Rightarrow> map_option (\<lambda>vs. RecordVal (recUpdate rf (zip (map fst fs) vs))) (those (map (\<lambda>f. evalD G E env (snd f)) fs))
      | _ \<Rightarrow> None)"
| "evalD G E env (VariantLit tag e) = map_option (VariantVal tag) (evalD G E env e)"
| "evalD G E env _ = None"
  by pat_completeness auto

termination
  by (relation "measure (\<lambda>(G, E, env, e). size e)")
    (auto dest!: firstMatch_mem size_alt size_field size_arg simp: less_Suc_eq_le)

text \<open>Constructors have no more arguments than the operand of \<^verbatim>\<open>OpCon\<close> can tell, and no variable is one of the compiler's own.\<close>

function (sequential) dataExpr :: "annotated \<Rightarrow> bool" where
  "dataExpr (TyApp e t) = dataExpr e"
| "dataExpr (TyLam a k e) = dataExpr e"
| "dataExpr (Pure e) = dataExpr e"
| "dataExpr (Var n m i) \<longleftrightarrow> \<not> temp n"
| "dataExpr (Lit l) \<longleftrightarrow> True"
| "dataExpr (Con n m args isDict) \<longleftrightarrow> length args \<le> 127 \<and> list_all dataExpr args"
| "dataExpr (Case e alts) \<longleftrightarrow> dataExpr e \<and> list_all (\<lambda>alt. namedPat (fst alt) \<and> dataExpr (fst (snd alt))) alts"
| "dataExpr (RecordLit fs) \<longleftrightarrow> list_all (\<lambda>f. dataExpr (snd f)) fs"
| "dataExpr (RecordProj r l) = dataExpr r"
| "dataExpr (RecordUpdate r fs) \<longleftrightarrow> dataExpr r \<and> list_all (\<lambda>f. dataExpr (snd f)) fs"
| "dataExpr (VariantLit tag e) = dataExpr e"
| "dataExpr _ \<longleftrightarrow> False"
  by pat_completeness auto
termination
  by (relation "measure size") (auto dest!: size_alt size_field size_arg simp: less_Suc_eq_le)

section \<open>Environments in slots\<close>

definition envOk :: "nat \<Rightarrow> val option list \<Rightarrow> (string \<times> nat) list \<Rightarrow> (string \<Rightarrow> val option) \<Rightarrow> bool" where
  "envOk bp l names env \<longleftrightarrow>
     (\<forall>x v. \<not> temp x \<longrightarrow> env x = Some v \<longrightarrow> (\<exists>slot. map_of (rev names) x = Some slot \<and> slotVal bp l slot = Some v))"

lemma envOk_keeps:
  assumes "envOk bp l names env" "keeps bp n l l'" "list_all (\<lambda>xs. snd xs < n) names"
  shows "envOk bp l' names env"
  unfolding envOk_def
proof (intro allI impI)
  fix x v assume "\<not> temp x" "env x = Some v"
  then obtain slot where s: "map_of (rev names) x = Some slot" "slotVal bp l slot = Some v" using assms(1) unfolding envOk_def by blast
  from s(1) have "(x, slot) \<in> set names" by (auto dest: map_of_SomeD)
  then have "slot < n" using assms(3) by (auto simp: list_all_iff)
  then show "\<exists>slot. map_of (rev names) x = Some slot \<and> slotVal bp l' slot = Some v" using s assms(2) by (auto simp: keeps_def)
qed

lemma map_of_filter_named: "P x \<Longrightarrow> map_of (filter (\<lambda>(y, _). P y) xs) x = map_of xs x"
  by (induction xs) auto

lemma bound_lookup:
  assumes "bound bp l nn bs" "\<not> temp x"
  shows "case map_of (rev bs) x of None \<Rightarrow> map_of (rev nn) x = None | Some v \<Rightarrow> \<exists>slot. map_of (rev nn) x = Some slot \<and> slotVal bp l slot = Some v"
proof -
  have "list_all2 (\<lambda>(x, slot) (y, v). x = y \<and> slotVal bp l slot = Some v) (rev (filter (\<lambda>(x, _). \<not> temp x) nn)) (rev bs)"
    using assms(1) by (simp add: bound_def list_all2_rev)
  then have "case map_of (rev bs) x of None \<Rightarrow> map_of (rev (filter (\<lambda>(x, _). \<not> temp x) nn)) x = None
      | Some v \<Rightarrow> \<exists>slot. map_of (rev (filter (\<lambda>(x, _). \<not> temp x) nn)) x = Some slot \<and> slotVal bp l slot = Some v"
    by (induction rule: list_all2_induct) (auto split: option.splits)
  moreover have "map_of (rev (filter (\<lambda>(x, _). \<not> temp x) nn)) x = map_of (rev nn) x"
    using map_of_filter_named [of "\<lambda>x. \<not> temp x" x "rev nn"] assms(2) by (simp add: rev_filter)
  ultimately show ?thesis by (simp split: option.splits)
qed

lemma envOk_bound:
  assumes "envOk bp l names env" "bound bp l nn bs"
  shows "envOk bp l (names @ nn) (env ++ map_of (rev bs))"
  unfolding envOk_def
proof (intro allI impI)
  fix x v assume x: "\<not> temp x" "(env ++ map_of (rev bs)) x = Some v"
  show "\<exists>slot. map_of (rev (names @ nn)) x = Some slot \<and> slotVal bp l slot = Some v"
    using bound_lookup [OF assms(2) x(1)] x assms(1) by (auto simp: envOk_def map_add_def split: option.splits)
qed

section \<open>What compiling an expression does\<close>

text \<open>The state of the compiler after an expression: only code, pools and slots have grown.\<close>

definition exprShape :: "compiler \<Rightarrow> compiler \<Rightarrow> bool" where
  "exprShape st st' \<longleftrightarrow> shape st [] st' \<and> cv_locals (viewC st') = cv_locals (viewC st)"

lemma exprShape_trans: "exprShape st st1 \<Longrightarrow> exprShape st1 st2 \<Longrightarrow> exprShape st st2"
  using shape_cons by (auto simp: exprShape_def)

lemma exprShape_ok: "exprShape st st' \<Longrightarrow> okState st'"
  by (auto simp: exprShape_def dest: shape_ok)

lemma exprShape_emitted: "emitted i st pos st' \<Longrightarrow> exprShape st st'"
  using shape_emitted by (auto simp: exprShape_def emitted_def)

lemma exprShape_viewed:
  assumes "okState st"
  shows "addConstant v st = Inr (i, st') \<Longrightarrow> exprShape st st'" "addString x st = Inr (i, st') \<Longrightarrow> exprShape st st'"
    "addRecordDesc d st = Inr (i, st') \<Longrightarrow> exprShape st st'"
proof -
  show "exprShape st st'" if "addConstant v st = Inr (i, st')"
    using addConstant_view [OF assms that] by (simp add: exprShape_def shape_def grows_def)
  show "exprShape st st'" if "addString x st = Inr (i, st')"
  proof -
    from addString_view [OF assms that] have "viewC st' = (viewC st)\<lparr> cv_strings := cv_strings (viewC st') \<rparr>" "okState st'"
      "prefix (cv_strings (viewC st)) (cv_strings (viewC st'))" by blast+
    then show ?thesis unfolding exprShape_def shape_def grows_def by (metis cview.select_convs cview.surjective cview.update_convs(5) le_refl prefix_order.refl equals0D list.set(1) sorted_wrt.simps(1))
  qed
  show "exprShape st st'" if "addRecordDesc d st = Inr (i, st')"
    using addRecordDesc_view [OF assms that] by (simp add: exprShape_def shape_def grows_def)
qed

lemma codeOk_expr: "exprShape st st1 \<Longrightarrow> exprShape st1 st2 \<Longrightarrow> codeOk p [] st st2 \<Longrightarrow> codeOk p [] st st1 \<and> codeOk p [] st1 st2"
  by (auto simp: exprShape_def dest: codeOk_cons)

lemma exprShape_num: "exprShape st st' \<Longrightarrow> cv_num (viewC st) \<le> cv_num (viewC st')"
  by (simp add: exprShape_def shape_def grows_def)

text \<open>The code between two states pushes the values that \<open>ev\<close> tells, and keeps the slots in use.\<close>

definition segRun :: "vmCfg \<Rightarrow> compiler \<Rightarrow> compiler \<Rightarrow> ((string \<Rightarrow> val option) \<Rightarrow> val list option) \<Rightarrow> bool" where
  "segRun G st st' ev \<longleftrightarrow>
     exprShape st st' \<and>
     (\<forall>E self w p bp env vs s l. runsIn w p bp \<longrightarrow> codeOk p [] st st' \<longrightarrow> length (pCode p) < 32768 \<longrightarrow>
        envOk bp l (cv_locals (viewC st)) env \<longrightarrow> ev env = Some vs \<longrightarrow>
        runsTo G E self w (codeEnd st) s l (codeEnd st') (rev vs @ s) (keeps bp (cv_num (viewC st)) l))"

lemma segRunI:
  assumes "exprShape st st'"
    and "\<And>E self w p bp env vs s l. runsIn w p bp \<Longrightarrow> codeOk p [] st st' \<Longrightarrow> length (pCode p) < 32768 \<Longrightarrow>
      envOk bp l (cv_locals (viewC st)) env \<Longrightarrow> ev env = Some vs \<Longrightarrow>
      runsTo G E self w (codeEnd st) s l (codeEnd st') (rev vs @ s) (keeps bp (cv_num (viewC st)) l)"
  shows "segRun G st st' ev"
  using assms unfolding segRun_def by blast

lemma segRunD:
  assumes "segRun G st st' ev"
  shows "exprShape st st'"
    and "runsIn w p bp \<Longrightarrow> codeOk p [] st st' \<Longrightarrow> length (pCode p) < 32768 \<Longrightarrow> envOk bp l (cv_locals (viewC st)) env \<Longrightarrow>
      ev env = Some vs \<Longrightarrow> runsTo G E self w (codeEnd st) s l (codeEnd st') (rev vs @ s) (keeps bp (cv_num (viewC st)) l)"
  using assms unfolding segRun_def by blast+

lemma segRun_nil: "okState st \<Longrightarrow> segRun G st st (\<lambda>_. Some [])"
  by (rule segRunI) (auto simp: exprShape_def shape_refl intro: runsTo_refl)

lemma segRun_seq:
  assumes "segRun G st st1 ev1" "segRun G st1 st2 ev2" "okState st"
  shows "segRun G st st2 (\<lambda>env. Option.bind (ev1 env) (\<lambda>vs. map_option (\<lambda>vs'. vs @ vs') (ev2 env)))"
proof (rule segRunI)
  note a = segRunD(1) [OF assms(1)] and b = segRunD(1) [OF assms(2)]
  show "exprShape st st2" using exprShape_trans [OF a b] .
  fix E self w p bp env vs s l
  assume h: "runsIn w p bp" "codeOk p [] st st2" "length (pCode p) < 32768" "envOk bp l (cv_locals (viewC st)) env"
    "Option.bind (ev1 env) (\<lambda>vs. map_option (\<lambda>vs'. vs @ vs') (ev2 env)) = Some vs"
  obtain v1 v2 where v: "ev1 env = Some v1" "ev2 env = Some v2" "vs = v1 @ v2" using h(5) by (auto simp: bind_eq_Some_conv)
  note ok = codeOk_expr [OF a b h(2)]
  show "runsTo G E self w (codeEnd st) s l (codeEnd st2) (rev vs @ s) (keeps bp (cv_num (viewC st)) l)"
  proof (rule runsTo_trans)
    show "runsTo G E self w (codeEnd st) s l (codeEnd st1) (rev v1 @ s) (keeps bp (cv_num (viewC st)) l)"
      using segRunD(2) [OF assms(1) h(1) _ h(3,4) v(1)] ok by simp
    fix l1 assume l1: "keeps bp (cv_num (viewC st)) l l1"
    then have "envOk bp l1 (cv_locals (viewC st1)) env"
      using envOk_keeps [OF h(4) l1 view_num [OF assms(3)]] a by (simp add: exprShape_def)
    then have "runsTo G E self w (codeEnd st1) (rev v1 @ s) l1 (codeEnd st2) (rev v2 @ rev v1 @ s) (keeps bp (cv_num (viewC st1)) l1)"
      using segRunD(2) [OF assms(2) h(1) _ h(3) _ v(2)] ok by blast
    then show "runsTo G E self w (codeEnd st1) (rev v1 @ s) l1 (codeEnd st2) (rev vs @ s) (keeps bp (cv_num (viewC st)) l)"
      using v(3) keeps_trans [OF l1 _ exprShape_num [OF a]] by (auto elim!: runsTo_mono)
  qed
qed

text \<open>A step that emits nothing.\<close>

lemma segRun_view:
  assumes "segRun G st st1 ev" "exprShape st1 st2" "cv_code (viewC st2) = cv_code (viewC st1)"
  shows "segRun G st st2 ev"
proof (rule segRunI)
  note a = segRunD(1) [OF assms(1)]
  show "exprShape st st2" using exprShape_trans [OF a assms(2)] .
  fix E self w p bp env vs s l
  assume h: "runsIn w p bp" "codeOk p [] st st2" "length (pCode p) < 32768" "envOk bp l (cv_locals (viewC st)) env" "ev env = Some vs"
  show "runsTo G E self w (codeEnd st) s l (codeEnd st2) (rev vs @ s) (keeps bp (cv_num (viewC st)) l)"
    using segRunD(2) [OF assms(1) h(1) _ h(3-5)] codeOk_expr [OF a assms(2) h(2)] assms(3) by simp
qed

text \<open>One instruction, which turns the values on the stack into the value of the expression.\<close>

lemma segRun_instr:
  assumes "segRun G st st1 ev" "emitted i st1 pos st2" "plain i"
    and "\<And>env v. ev' env = Some v \<Longrightarrow> \<exists>vs. ev env = Some vs"
    and "\<And>E self w p bp env vs v s l ip. runsIn w p bp \<Longrightarrow> hasI p ip i \<Longrightarrow> fits p (viewC st2) \<Longrightarrow> envOk bp l (cv_locals (viewC st2)) env \<Longrightarrow>
       ev env = Some vs \<Longrightarrow> ev' env = Some v \<Longrightarrow> runsTo G E self w ip (rev vs @ s) l (ip + InstructionSize (iop i)) (rev v @ s) (\<lambda>l'. l' = l)"
    and "okState st"
  shows "segRun G st st2 ev'"
proof (rule segRunI)
  note a = segRunD(1) [OF assms(1)] and b = exprShape_emitted [OF assms(2)]
  show "exprShape st st2" using exprShape_trans [OF a b] .
  fix E self w p bp env v s l
  assume h: "runsIn w p bp" "codeOk p [] st st2" "length (pCode p) < 32768" "envOk bp l (cv_locals (viewC st)) env" "ev' env = Some v"
  obtain vs where vs: "ev env = Some vs" using assms(4) [OF h(5)] by blast
  note ok = codeOk_expr [OF a b h(2)]
  note instr = codeOk_instr [OF assms(2,3) conjunct2 [OF ok]]
  show "runsTo G E self w (codeEnd st) s l (codeEnd st2) (rev v @ s) (keeps bp (cv_num (viewC st)) l)"
  proof (rule runsTo_trans)
    show "runsTo G E self w (codeEnd st) s l (codeEnd st1) (rev vs @ s) (keeps bp (cv_num (viewC st)) l)"
      using segRunD(2) [OF assms(1) h(1) _ h(3,4) vs] ok by simp
    fix l1 assume l1: "keeps bp (cv_num (viewC st)) l l1"
    then have "envOk bp l1 (cv_locals (viewC st2)) env"
      using envOk_keeps [OF h(4) l1 view_num [OF assms(6)]] a b by (simp add: exprShape_def)
    then have "runsTo G E self w (codeEnd st1) (rev vs @ s) l1 (codeEnd st2) (rev v @ s) (\<lambda>l'. l' = l1)"
      unfolding instr(2) using assms(5) [OF h(1) instr(1) _ _ vs h(5)] h(2) by (simp add: codeOk_def)
    then show "runsTo G E self w (codeEnd st1) (rev vs @ s) l1 (codeEnd st2) (rev v @ s) (keeps bp (cv_num (viewC st)) l)"
      by (rule runsTo_mono) (simp add: l1)
  qed
qed

definition exprRun :: "vmCfg \<Rightarrow> compEnv \<Rightarrow> annotated \<Rightarrow> bool" where
  "exprRun G CE e \<longleftrightarrow>
     (\<forall>tail st st'. okState st \<longrightarrow> compileExpr CE e tail st = Inr ((), st') \<longrightarrow> segRun G st st' (\<lambda>env. map_option (\<lambda>v. [v]) (evalD G CE env e)))"

lemma exprRunD: "exprRun G CE e \<Longrightarrow> okState st \<Longrightarrow> compileExpr CE e tail st = Inr ((), st') \<Longrightarrow> segRun G st st' (\<lambda>env. map_option (\<lambda>v. [v]) (evalD G CE env e))"
  unfolding exprRun_def by blast

lemma args_run:
  assumes "\<forall>e \<in> set es. exprRun G CE e" "okState st" "compileArgs CE es st = Inr ((), st')"
  shows "segRun G st st' (\<lambda>env. those (map (evalD G CE env) es))"
  using assms
proof (induction es arbitrary: st)
  case Nil
  then show ?case by (auto simp: compileArgs.simps segRun_nil)
next
  case (Cons e es)
  then obtain st1 where s: "compileExpr CE e False st = Inr ((), st1)" "compileArgs CE es st1 = Inr ((), st')"
    by (auto simp: compileArgs.simps thenC_Inr)
  note a = exprRunD [OF _ Cons.prems(2) s(1)]
  have e: "exprRun G CE e" using Cons.prems(1) by simp
  have single: "(@) [x] = (#) x" for x :: val by (rule ext) simp
  have b: "segRun G st1 st' (\<lambda>env. those (map (evalD G CE env) es))"
    using Cons.IH [OF _ exprShape_ok [OF segRunD(1) [OF a [OF e]]] s(2)] Cons.prems(1) by simp
  have "(\<lambda>env. Option.bind (map_option (\<lambda>v. [v]) (evalD G CE env e)) (\<lambda>vs. map_option (\<lambda>vs'. vs @ vs') (those (map (evalD G CE env) es)))) =
      (\<lambda>env. those (map (evalD G CE env) (e # es)))"
    using single by (intro ext) (simp split: option.splits bind_splits)
  then show ?case using segRun_seq [OF a [OF e] b Cons.prems(2)] by simp
qed

section \<open>Expressions without cases\<close>

lemma sizes_expr [simp]:
  "InstructionSize OpLoadGlobal = 3" "InstructionSize OpConst = 3" "InstructionSize OpConstUnit = 1" "InstructionSize OpCon = 4" "InstructionSize OpRecord = 3"
  "InstructionSize OpRecordProj = 3" "InstructionSize OpRecordUpdate = 3" "InstructionSize OpVariant = 3" "InstructionSize OpStep = 3" "InstructionSize OpJump = 3"
  "InstructionSize OpMatchFail = 1"
  by (simp_all add: InstructionSize_def)

lemma plain_expr [simp]:
  "InstructionSize op = 3 \<Longrightarrow> plain (Instr op a 0 0)" "InstructionSize op = 1 \<Longrightarrow> plain (Instr op 0 0 0)" "InstructionSize op = 4 \<Longrightarrow> plain (Instr op a 0 k)"
  by (simp_all add: plain_def)

lemma lit_run: "exprRun G CE (Lit c)"
  unfolding exprRun_def
proof (intro allI impI)
  fix tail st st' assume h: "okState st" "compileExpr CE (Lit c) tail st = Inr ((), st')"
  then obtain i st1 pos where s: "addConstant (hostLit c) st = Inr (i, st1)" "emitU16 OpConst i st1 = Inr (pos, st')"
    by (auto simp: compileExpr.simps compileLit_def thenC_Inr)
  note v1 = addConstant_view [OF h(1) s(1)]
  note a = exprShape_viewed(1) [OF h(1) s(1)]
  note em = emit_view(2) [OF exprShape_ok [OF a] s(2), simplified]
  have "segRun G st st1 (\<lambda>_. Some [])" by (rule segRun_view [OF segRun_nil [OF h(1)] a]) (simp add: v1)
  then show "segRun G st st' (\<lambda>env. map_option (\<lambda>v. [v]) (evalD G CE env (Lit c)))"
  proof (rule segRun_instr [OF _ em])
    fix E self w p bp and env :: "string \<Rightarrow> val option" and vs v :: "val list" and s l ip
    assume p: "runsIn w p bp" "hasI p ip (Instr OpConst i 0 0)" "fits p (viewC st')" "Some [] = Some vs"
      "map_option (\<lambda>v. [v]) (evalD G CE env (Lit c)) = Some v"
    have "unat i < length (pConstants p)" "pConstants p ! unat i = hostLit c"
      using pool_entry [of "cv_consts (viewC st)" "hostLit c" "pConstants p"] v1 em p(3) by (auto simp: fits_def emitted_def)
    then show "runsTo G E self w ip (rev vs @ s) l (ip + InstructionSize (iop (Instr OpConst i 0 0))) (rev v @ s) (\<lambda>l'. l' = l)"
      using run_const [OF p(1,2)] p(4,5) by auto
  qed (use h in auto)
qed

lemma var_run: "\<not> temp n \<Longrightarrow> exprRun G CE (Var n m i)"
  unfolding exprRun_def
proof (intro allI impI)
  fix tail st st' assume n: "\<not> temp n" and h: "okState st" "compileExpr CE (Var n m i) tail st = Inr ((), st')"
  show "segRun G st st' (\<lambda>env. map_option (\<lambda>v. [v]) (evalD G CE env (Var n m i)))"
  proof (cases "0 \<le> i")
    case True
    then obtain slot st1 pos where s1: "resolveLocal n st = Inr (Some slot, st1)" "emitU16 OpLoadLocal (of_nat slot) st1 = Inr (pos, st')"
      using h(2) by (auto simp: compileExpr.simps compileVar_def thenC_Inr panicC_def split: option.splits)
    have s: "map_of (rev (cv_locals (viewC st))) n = Some slot" "emitU16 OpLoadLocal (of_nat slot) st = Inr (pos, st')"
      using resolveLocal_view [OF h(1) s1(1)] s1(2) by simp_all
    note em = emit_view(2) [OF h(1) s(2), simplified]
    have "(n, slot) \<in> set (cv_locals (viewC st))" using map_of_SomeD [OF s(1)] by simp
    then have slot: "slot < cv_num (viewC st)" using view_num [OF h(1)] by (auto simp: list_all_iff)
    show ?thesis
    proof (rule segRun_instr [OF segRun_nil [OF h(1)] em])
      fix E self w p bp env and vs v :: "val list" and s l ip
      assume p: "runsIn w p bp" "hasI p ip (Instr OpLoadLocal (of_nat slot) 0 0)" "fits p (viewC st')" "envOk bp l (cv_locals (viewC st')) env"
        "Some [] = Some vs" "map_option (\<lambda>v. [v]) (evalD G CE env (Var n m i)) = Some v"
      obtain u u' where u: "env n = Some u" "derefV G u = Some u'" "v = [u']" using p(6) True by (auto simp: bind_eq_Some_conv)
      have "slotVal bp l slot = Some u" using p(4) u(1) n s(1) em by (auto simp: envOk_def emitted_def)
      moreover have "unat (of_nat slot :: 16 word) = slot" using slot p(3) em by (simp add: slot_word fits_def emitted_def)
      ultimately show "runsTo G E self w ip (rev vs @ s) l (ip + InstructionSize (iop (Instr OpLoadLocal (of_nat slot) 0 0))) (rev v @ s) (\<lambda>l'. l' = l)"
        using run_loadLocal [OF p(1,2)] u(2,3) p(5) by simp
    qed (use h in auto)
  next
    case False
    then obtain slot pos where s: "ce_globalSlots CE (m, n) = Some slot" "emitU16 OpLoadGlobal (of_nat slot) st = Inr (pos, st')"
      using h by (auto simp: compileExpr.simps compileVar_def thenC_Inr panicC_def split: option.splits)
    note em = emit_view(2) [OF h(1) s(2), simplified]
    show ?thesis
    proof (rule segRun_instr [OF segRun_nil [OF h(1)] em])
      fix E self w p bp env and vs v :: "val list" and s l ip
      assume p: "runsIn w p bp" "hasI p ip (Instr OpLoadGlobal (of_nat slot) 0 0)"
        "Some [] = Some vs" "map_option (\<lambda>v. [v]) (evalD G CE env (Var n m i)) = Some v"
      obtain u u' where u: "slot < 65536" "slot < length (vc_globals G)" "vc_globals G ! slot = Some u" "derefV G u = Some u'" "v = [u']"
        using p(4) False s(1) by (auto simp: bind_eq_Some_conv split: if_splits)
      then have "unat (of_nat slot :: 16 word) = slot" by (simp add: unat_of_nat)
      then show "runsTo G E self w ip (rev vs @ s) l (ip + InstructionSize (iop (Instr OpLoadGlobal (of_nat slot) 0 0))) (rev v @ s) (\<lambda>l'. l' = l)"
        using run_loadGlobal [OF p(1,2)] u p(3) by simp
    qed (use h in auto)
  qed
qed

lemma conFlags_arity: "n \<le> 127 \<Longrightarrow> unat (conFlags n isDict AND 0x7F) = n \<and> (conFlags n isDict AND 0x80 \<noteq> 0) = isDict"
proof -
  assume "n \<le> 127"
  moreover have "\<forall>n \<in> set [0..<128]. \<forall>d \<in> {True, False}. unat (conFlags n d AND 0x7F) = n \<and> (conFlags n d AND 0x80 \<noteq> 0) = d" by code_simp
  ultimately show ?thesis by (cases isDict) simp_all
qed

text \<open>Code that ends with an instruction on a name of the string pool.\<close>

lemma segRun_string:
  assumes "segRun G st st1 ev" "addString x st1 = Inr (i, st2)"
  shows "segRun G st st2 ev" "okState st2" "fits p (viewC st2) \<Longrightarrow> unat i < length (pStrings p) \<and> pStrings p ! unat i = x"
proof -
  note ok1 = exprShape_ok [OF segRunD(1) [OF assms(1)]]
  note v2 = addString_view [OF ok1 assms(2)]
  show "segRun G st st2 ev"
    by (rule segRun_view [OF assms(1) exprShape_viewed(2) [OF ok1 assms(2)]])
      (use v2 in \<open>metis cview.select_convs(1) cview.surjective cview.update_convs(5)\<close>)
  show "okState st2" using v2 by simp
  show "unat i < length (pStrings p) \<and> pStrings p ! unat i = x" if "fits p (viewC st2)"
    using v2 that by (auto simp: fits_def prefix_def nth_append)
qed

lemma segRun_record:
  assumes "segRun G st st1 ev" "addRecordDesc x st1 = Inr (i, st2)"
  shows "segRun G st st2 ev" "okState st2" "fits p (viewC st2) \<Longrightarrow> unat i < length (pRecordDescs p) \<and> pRecordDescs p ! unat i = x"
proof -
  note ok1 = exprShape_ok [OF segRunD(1) [OF assms(1)]]
  note v2 = addRecordDesc_view [OF ok1 assms(2)]
  show "segRun G st st2 ev" by (rule segRun_view [OF assms(1) exprShape_viewed(3) [OF ok1 assms(2)]]) (simp add: v2)
  show "okState st2" using v2 by simp
  show "unat i < length (pRecordDescs p) \<and> pRecordDescs p ! unat i = x" if "fits p (viewC st2)"
    using pool_entry [of "cv_records (viewC st1)" x "pRecordDescs p"] v2 that by (auto simp: fits_def)
qed

lemma fits_emitted: "emitted i st pos st' \<Longrightarrow> fits p (viewC st') = fits p (viewC st)"
  by (simp add: emitted_def fits_def)

lemma con_run:
  assumes "length args \<le> 127" "\<forall>e \<in> set args. exprRun G CE e"
  shows "exprRun G CE (Con n m args isDict)"
  unfolding exprRun_def
proof (intro allI impI)
  fix tail st st' assume h: "okState st" "compileExpr CE (Con n m args isDict) tail st = Inr ((), st')"
  then obtain st1 i st2 pos where s: "compileArgs CE args st = Inr ((), st1)" "addString n st1 = Inr (i, st2)"
    "emitU16U8 OpCon i (conFlags (length args) isDict) st2 = Inr (pos, st')"
    by (auto simp: compileExpr.simps thenC_Inr)
  note b = segRun_string [OF args_run [OF assms(2) h(1) s(1)] s(2)]
  note em = emit_view(3) [OF b(2) s(3), simplified]
  show "segRun G st st' (\<lambda>env. map_option (\<lambda>v. [v]) (evalD G CE env (Con n m args isDict)))"
  proof (rule segRun_instr [OF b(1) em])
    fix E self w p bp env and vs v :: "val list" and s l ip
    assume p: "runsIn w p bp" "hasI p ip (Instr OpCon i 0 (conFlags (length args) isDict))" "fits p (viewC st')"
      "those (map (evalD G CE env) args) = Some vs" "map_option (\<lambda>v. [v]) (evalD G CE env (Con n m args isDict)) = Some v"
    have pool: "unat i < length (pStrings p)" "pStrings p ! unat i = n" using b(3) p(3) fits_emitted [OF em] by auto
    have len: "length vs = length args" using length_those [OF p(4)] by simp
    show "runsTo G E self w ip (rev vs @ s) l (ip + InstructionSize (iop (Instr OpCon i 0 (conFlags (length args) isDict)))) (rev v @ s) (\<lambda>l'. l' = l)"
      using run_con [OF p(1,2) pool, of vs isDict] conFlags_arity [OF assms(1)] len p(4,5) by auto
  qed (use h in \<open>auto split: option.splits\<close>)
qed

lemma variant_run:
  assumes "exprRun G CE e"
  shows "exprRun G CE (VariantLit tag e)"
  unfolding exprRun_def
proof (intro allI impI)
  fix tail st st' assume h: "okState st" "compileExpr CE (VariantLit tag e) tail st = Inr ((), st')"
  then obtain st1 i st2 pos where s: "compileExpr CE e False st = Inr ((), st1)" "addString tag st1 = Inr (i, st2)" "emitU16 OpVariant i st2 = Inr (pos, st')"
    by (auto simp: compileExpr.simps thenC_Inr)
  note b = segRun_string [OF exprRunD [OF assms h(1) s(1)] s(2)]
  note em = emit_view(2) [OF b(2) s(3), simplified]
  show "segRun G st st' (\<lambda>env. map_option (\<lambda>v. [v]) (evalD G CE env (VariantLit tag e)))"
  proof (rule segRun_instr [OF b(1) em])
    fix E self w p bp env and vs v :: "val list" and s l ip
    assume p: "runsIn w p bp" "hasI p ip (Instr OpVariant i 0 0)" "fits p (viewC st')"
      "map_option (\<lambda>v. [v]) (evalD G CE env e) = Some vs" "map_option (\<lambda>v. [v]) (evalD G CE env (VariantLit tag e)) = Some v"
    have pool: "unat i < length (pStrings p)" "pStrings p ! unat i = tag" using b(3) p(3) fits_emitted [OF em] by auto
    show "runsTo G E self w ip (rev vs @ s) l (ip + InstructionSize (iop (Instr OpVariant i 0 0))) (rev v @ s) (\<lambda>l'. l' = l)"
      using run_variant [OF p(1,2) pool] p(4,5) by auto
  qed (use h in \<open>auto split: option.splits\<close>)
qed

lemma proj_run:
  assumes "exprRun G CE e"
  shows "exprRun G CE (RecordProj e label)"
  unfolding exprRun_def
proof (intro allI impI)
  fix tail st st' assume h: "okState st" "compileExpr CE (RecordProj e label) tail st = Inr ((), st')"
  then obtain st1 i st2 pos where s: "compileExpr CE e False st = Inr ((), st1)" "addString label st1 = Inr (i, st2)" "emitU16 OpRecordProj i st2 = Inr (pos, st')"
    by (auto simp: compileExpr.simps thenC_Inr)
  note b = segRun_string [OF exprRunD [OF assms h(1) s(1)] s(2)]
  note em = emit_view(2) [OF b(2) s(3), simplified]
  show "segRun G st st' (\<lambda>env. map_option (\<lambda>v. [v]) (evalD G CE env (RecordProj e label)))"
  proof (rule segRun_instr [OF b(1) em])
    fix E self w p bp env and vs v :: "val list" and s l ip
    assume p: "runsIn w p bp" "hasI p ip (Instr OpRecordProj i 0 0)" "fits p (viewC st')"
      "map_option (\<lambda>v. [v]) (evalD G CE env e) = Some vs" "map_option (\<lambda>v. [v]) (evalD G CE env (RecordProj e label)) = Some v"
    have pool: "unat i < length (pStrings p)" "pStrings p ! unat i = label" using b(3) p(3) fits_emitted [OF em] by auto
    obtain fs u where "vs = [RecordVal fs]" "v = [u]" "recGet fs label = Some u" using p(4,5) by (auto split: option.splits val.splits)
    then show "runsTo G E self w ip (rev vs @ s) l (ip + InstructionSize (iop (Instr OpRecordProj i 0 0))) (rev v @ s) (\<lambda>l'. l' = l)"
      using run_recordProj [OF p(1,2) pool] by auto
  qed (use h in \<open>auto split: option.splits val.splits\<close>)
qed

lemma record_run:
  assumes "\<forall>f \<in> set fs. exprRun G CE (snd f)"
  shows "exprRun G CE (RecordLit fs)"
  unfolding exprRun_def
proof (intro allI impI)
  fix tail st st' assume h: "okState st" "compileExpr CE (RecordLit fs) tail st = Inr ((), st')"
  show "segRun G st st' (\<lambda>env. map_option (\<lambda>v. [v]) (evalD G CE env (RecordLit fs)))"
  proof (cases "fs = []")
    case True
    then obtain pos where s: "emit OpConstUnit st = Inr (pos, st')" using h by (auto simp: compileExpr.simps thenC_Inr)
    show ?thesis
      by (rule segRun_instr [OF segRun_nil [OF h(1)] emit_view(1) [OF h(1) s]])
        (use True h run_constUnit in auto)
  next
    case False
    then obtain st1 i st2 pos where s: "compileArgs CE (map snd fs) st = Inr ((), st1)" "addRecordDesc (map fst fs) st1 = Inr (i, st2)" "emitU16 OpRecord i st2 = Inr (pos, st')"
      using h by (auto simp: compileExpr.simps thenC_Inr)
    note b = segRun_record [OF args_run [OF _ h(1) s(1)] s(2)]
    have all: "\<forall>e \<in> set (map snd fs). exprRun G CE e" using assms by simp
    note em = emit_view(2) [OF b(2) [OF all] s(3), simplified]
    show ?thesis
    proof (rule segRun_instr [OF b(1) [OF all] em])
      fix E self w p bp env and vs v :: "val list" and s l ip
      assume p: "runsIn w p bp" "hasI p ip (Instr OpRecord i 0 0)" "fits p (viewC st')"
        "those (map (evalD G CE env) (map snd fs)) = Some vs" "map_option (\<lambda>v. [v]) (evalD G CE env (RecordLit fs)) = Some v"
      have pool: "unat i < length (pRecordDescs p)" "pRecordDescs p ! unat i = map fst fs" using b(3) [OF all] p(3) fits_emitted [OF em] by auto
      have "length (map fst fs) = length vs" using length_those [OF p(4)] by simp
      then show "runsTo G E self w ip (rev vs @ s) l (ip + InstructionSize (iop (Instr OpRecord i 0 0))) (rev v @ s) (\<lambda>l'. l' = l)"
        using run_record [OF p(1,2) pool, of vs] p(4,5) False by (auto simp: o_def)
    qed (use h False in \<open>auto simp: o_def split: option.splits\<close>)
  qed
qed

lemma update_run:
  assumes "exprRun G CE e" "\<forall>f \<in> set fs. exprRun G CE (snd f)"
  shows "exprRun G CE (RecordUpdate e fs)"
  unfolding exprRun_def
proof (intro allI impI)
  fix tail st st' assume h: "okState st" "compileExpr CE (RecordUpdate e fs) tail st = Inr ((), st')"
  then obtain st0 st1 i st2 pos where s: "compileExpr CE e False st = Inr ((), st0)" "compileArgs CE (map snd fs) st0 = Inr ((), st1)"
    "addRecordDesc (map fst fs) st1 = Inr (i, st2)" "emitU16 OpRecordUpdate i st2 = Inr (pos, st')"
    by (auto simp: compileExpr.simps thenC_Inr)
  note a = exprRunD [OF assms(1) h(1) s(1)]
  have all: "\<forall>e \<in> set (map snd fs). exprRun G CE e" using assms by simp
  note b = segRun_record [OF segRun_seq [OF a args_run [OF all exprShape_ok [OF segRunD(1) [OF a]] s(2)] h(1)] s(3)]
  note em = emit_view(2) [OF b(2) s(4), simplified]
  show "segRun G st st' (\<lambda>env. map_option (\<lambda>v. [v]) (evalD G CE env (RecordUpdate e fs)))"
  proof (rule segRun_instr [OF b(1) em])
    fix E self w p bp env and vs v :: "val list" and s l ip
    assume p: "runsIn w p bp" "hasI p ip (Instr OpRecordUpdate i 0 0)" "fits p (viewC st')"
      "Option.bind (map_option (\<lambda>v. [v]) (evalD G CE env e)) (\<lambda>vs. map_option (\<lambda>vs'. vs @ vs') (those (map (evalD G CE env) (map snd fs)))) = Some vs"
      "map_option (\<lambda>v. [v]) (evalD G CE env (RecordUpdate e fs)) = Some v"
    have pool: "unat i < length (pRecordDescs p)" "pRecordDescs p ! unat i = map fst fs" using b(3) p(3) fits_emitted [OF em] by auto
    obtain rf us where u: "those (map (evalD G CE env) (map snd fs)) = Some us" "vs = RecordVal rf # us" "v = [RecordVal (recUpdate rf (zip (map fst fs) us))]"
      using p(4,5) by (auto simp: o_def bind_eq_Some_conv split: option.splits val.splits)
    then have "length (map fst fs) = length us" using length_those [OF u(1)] by simp
    then show "runsTo G E self w ip (rev vs @ s) l (ip + InstructionSize (iop (Instr OpRecordUpdate i 0 0))) (rev v @ s) (\<lambda>l'. l' = l)"
      using run_recordUpdate [OF p(1,2) pool, of us] u(2,3) by simp
  qed (use h in \<open>auto simp: o_def split: option.splits val.splits\<close>)
qed

end
