(* ===== verification/Vm_Case.thy ===== *)
theory Vm_Case
  imports Vm_Data
begin

text \<open>
  Compiled case distinctions, and the theorem on compiled data expressions: the code of a case runs the first alternative whose pattern matches and jumps to the end.
\<close>

section \<open>Patched operands\<close>

lemma okCode_patches:
  assumes "okCode p H a (fold (\<lambda>(pos, v). patchU16 pos v) pvs c)"
    and "\<forall>(pos, v) \<in> set pvs. a \<le> pos \<and> pos + 2 \<le> length c \<and> pos \<notin> H \<and> pos + 1 \<notin> H" "sorted_wrt (\<lambda>x y. fst x + 2 \<le> fst y) pvs"
  shows "okCode p (H \<union> (\<Union>(pos, v) \<in> set pvs. {pos, pos + 1})) a c \<and> (\<forall>(pos, v) \<in> set pvs. DecodeU16 (pCode p) pos = Some v)"
  using assms
proof (induction pvs arbitrary: c)
  case (Cons pv pvs)
  obtain pos v where pv: "pv = (pos, v)" by fastforce
  let ?H = "H \<union> (\<Union>(pos, v) \<in> set pvs. {pos, pos + 1})"
  have in_c: "pos + 2 \<le> length c" "a \<le> pos" "pos \<notin> H" "pos + 1 \<notin> H" using Cons.prems(2) pv by auto
  have ih: "okCode p ?H a (patchU16 pos v c) \<and> (\<forall>(pos, v) \<in> set pvs. DecodeU16 (pCode p) pos = Some v)"
    using Cons.prems in_c by (intro Cons.IH) (auto simp: pv)
  have "pos \<notin> ?H" "pos + 1 \<notin> ?H" using Cons.prems(3) in_c(3,4) by (force simp: pv)+
  then have "DecodeU16 (pCode p) pos = Some v" "okCode p (?H \<union> {pos, pos + 1}) a c"
    using patch_decoded [of p ?H a pos v c] okCode_patch [of p ?H a pos v c] ih in_c by auto
  then show ?case using ih by (auto simp: pv Un_assoc Un_commute insert_commute)
qed simp

definition jumpHoles :: "nat list \<Rightarrow> nat set" where "jumpHoles jumps = (\<Union>pos \<in> set jumps. {pos + 1, pos + 2})"

lemma okCode_patchFails:
  assumes "okCode p H a (fold (\<lambda>pos. patchU16 (pos + 3) v) ps c)"
    and "\<forall>pos \<in> set ps. a \<le> pos \<and> pos + 5 \<le> length c \<and> pos + 3 \<notin> H \<and> pos + 4 \<notin> H" "sorted_wrt (\<lambda>x y. x + 5 \<le> y) ps"
  shows "okCode p (H \<union> holes ps) a c \<and> (\<forall>pos \<in> set ps. DecodeU16 (pCode p) (pos + 3) = Some v)"
proof -
  have f: "fold (\<lambda>pos. patchU16 (pos + 3) v) ps c = fold (\<lambda>(pos, v). patchU16 pos v) (map (\<lambda>pos. (pos + 3, v)) ps) c"
    by (simp add: fold_map o_def)
  have "sorted_wrt (\<lambda>x y. fst x + 2 \<le> fst y) (map (\<lambda>pos. (pos + 3, v)) ps)"
    using assms(3) by (auto simp: sorted_wrt_map elim!: sorted_wrt_mono_rel [rotated])
  moreover have "\<forall>(pos, v) \<in> set (map (\<lambda>pos. (pos + 3, v)) ps). a \<le> pos \<and> pos + 2 \<le> length c \<and> pos \<notin> H \<and> pos + 1 \<notin> H"
    using assms(2) by (auto simp: numeral_eq_Suc)
  ultimately show ?thesis
    using okCode_patches [of p H a "map (\<lambda>pos. (pos + 3, v)) ps" c] assms(1) unfolding f by (auto simp: holes_def numeral_eq_Suc)
qed

text \<open>The jumps to the end of a case.\<close>

definition endOffset :: "nat \<Rightarrow> nat \<Rightarrow> 16 word" where "endOffset stop pos = of_int (int stop - int pos - 3)"

lemma foldJumps_start:
  "fold (\<lambda>pos m. seqC m (patchJumpTo pos)) jumps m st =
     (case m st of Inl e \<Rightarrow> Inl e | Inr (u, st1) \<Rightarrow> fold (\<lambda>pos m. seqC m (patchJumpTo pos)) jumps (retC ()) st1)"
proof (induction jumps arbitrary: m st)
  case (Cons j jumps)
  then show ?case
    by (auto simp: thenC_def retC_def Cons [of "seqC m (patchJumpTo j)"] Cons [of "seqC (\<lambda>st. Inr ((), st)) (patchJumpTo j)"] split: sum.splits)
qed (auto simp: retC_def split: sum.splits)

lemma foldJumps_view:
  assumes "okState st" "fold (\<lambda>pos m. seqC m (patchJumpTo pos)) jumps (retC ()) st = Inr (u, st')"
    and "\<forall>pos \<in> set jumps. pos + 3 \<le> codeEnd st"
  shows "okState st' \<and> viewC st' = (viewC st)\<lparr> cv_code := fold (\<lambda>(pos, v). patchU16 pos v) (map (\<lambda>pos. (pos + 1, endOffset (codeEnd st) pos)) jumps) (cv_code (viewC st)) \<rparr>"
  using assms
proof (induction jumps arbitrary: st)
  case (Cons j jumps)
  have "fold (\<lambda>pos m. seqC m (patchJumpTo pos)) (j # jumps) (retC ()) st = fold (\<lambda>pos m. seqC m (patchJumpTo pos)) jumps (seqC (retC ()) (patchJumpTo j)) st"
    by simp
  with Cons.prems(2) have f: "(case (seqC (retC ()) (patchJumpTo j)) st of Inl e \<Rightarrow> Inl e
      | Inr (u, st1) \<Rightarrow> fold (\<lambda>pos m. seqC m (patchJumpTo pos)) jumps (retC ()) st1) = Inr (u, st')"
    unfolding foldJumps_start [of jumps "seqC (retC ()) (patchJumpTo j)" st] by metis
  have start: "(seqC (retC ()) (patchJumpTo j)) st = patchJumpTo j st" by (simp add: thenC_def retC_def)
  obtain st1 where s: "patchJumpTo j st = Inr ((), st1)" "fold (\<lambda>pos m. seqC m (patchJumpTo pos)) jumps (retC ()) st1 = Inr (u, st')"
    using f unfolding start by (cases "patchJumpTo j st") auto
  note v1 = patchJumpTo_view [OF Cons.prems(1) s(1)]
  have len: "codeEnd st1 = codeEnd st" using v1 Cons.prems(3) by simp
  then have "\<forall>pos \<in> set jumps. pos + 3 \<le> codeEnd st1" using Cons.prems(3) by simp
  from Cons.IH [OF conjunct1 [OF v1] s(2) this] show ?case using v1 unfolding len by (simp add: endOffset_def)
qed (auto simp: viewC_def Let_def)

lemma okCode_jumps:
  assumes "okCode p H a (fold (\<lambda>(pos, v). patchU16 pos v) (map (\<lambda>pos. (pos + 1, endOffset stop pos)) jumps) c)"
    and "\<forall>pos \<in> set jumps. a \<le> pos \<and> pos + 3 \<le> length c \<and> pos + 1 \<notin> H \<and> pos + 2 \<notin> H" "sorted_wrt (\<lambda>x y. x + 3 \<le> y) jumps"
  shows "okCode p (H \<union> jumpHoles jumps) a c \<and> (\<forall>pos \<in> set jumps. DecodeU16 (pCode p) (pos + 1) = Some (endOffset stop pos))"
proof -
  have "sorted_wrt (\<lambda>x y. fst x + 2 \<le> fst y) (map (\<lambda>pos. (pos + 1, endOffset stop pos)) jumps)"
    using assms(3) by (auto simp: sorted_wrt_map elim!: sorted_wrt_mono_rel [rotated])
  moreover have "\<forall>(pos, v) \<in> set (map (\<lambda>pos. (pos + 1, endOffset stop pos)) jumps). a \<le> pos \<and> pos + 2 \<le> length c \<and> pos \<notin> H \<and> pos + 1 \<notin> H"
    using assms(2) by (auto simp: numeral_eq_Suc)
  ultimately show ?thesis
    using okCode_patches [of p H a "map (\<lambda>pos. (pos + 1, endOffset stop pos)) jumps" c] assms(1) by (auto simp: jumpHoles_def numeral_eq_Suc)
qed

lemma sint_small: "0 \<le> k \<Longrightarrow> k < 32768 \<Longrightarrow> sint (of_int k :: 16 word) = k"
  by (simp add: signed_of_int signed_take_bit_int_eq_self)

lemma endOffset_target: "pos + 3 \<le> stop \<Longrightarrow> stop < 32768 \<Longrightarrow> int pos + 3 + sint (endOffset stop pos) = int stop"
  unfolding endOffset_def using sint_small [of "int stop - int pos - 3"] by linarith

lemma okCode_jump:
  assumes "okCode p H a c'" "prefix (c @ encodeI (Instr op 0 0 0)) c'" "a \<le> length c" "InstructionSize op = 3" "length c \<notin> H" "DecodeU16 (pCode p) (length c + 1) = Some t"
  shows "length c < length (pCode p) \<and> fetch (pCode p) (length c) = Fetched (Instr op t 0 0) (length c + 3)"
proof -
  have enc: "encodeI (Instr op 0 0 0) = opByte op # EncodeU16 0" using assms(4) by (simp add: encodeI_def)
  have ok: "okCode p H a (c @ opByte op # EncodeU16 0)" using okCode_prefix [OF assms(1,2)] by (simp add: enc)
  then have "pCode p ! length c = opByte op" "length c + 3 \<le> length (pCode p)"
    using assms(3,5) by (auto simp: okCode_def nth_append EncodeU16_def)
  then show ?thesis using assms(4,6) by (simp add: fetch_def operands_def)
qed

lemma take_patches: "\<forall>x \<in> set pvs. n \<le> fst x \<Longrightarrow> n \<le> length c \<Longrightarrow> take n (fold (\<lambda>(pos, v). patchU16 pos v) pvs c) = take n c"
proof (induction pvs arbitrary: c)
  case (Cons pv pvs)
  obtain pos v where pv: "pv = (pos, v)" by fastforce
  have "n \<le> pos" using Cons.prems(1) pv by simp
  then have "take n (patchU16 pos v c) = take n c" "n \<le> length (patchU16 pos v c)"
    using Cons.prems(2) by (auto simp: patchU16_def EncodeU16_def min_def)
  then show ?case using Cons.IH [of "patchU16 pos v c"] Cons.prems(1) by (simp add: pv)
qed simp

lemma length_patches: "\<forall>x \<in> set pvs. fst x + 2 \<le> length c \<Longrightarrow> length (fold (\<lambda>(pos, v). patchU16 pos v) pvs c) = length c"
proof (induction pvs arbitrary: c)
  case (Cons pv pvs)
  obtain pos v where pv: "pv = (pos, v)" by fastforce
  have "length (patchU16 pos v c) = length c" using Cons.prems pv by (intro length_patchU16) simp
  then show ?case using Cons.IH [of "patchU16 pos v c"] Cons.prems by (simp add: pv)
qed simp

lemma prefix_patches:
  assumes "prefix c0 c" "\<forall>x \<in> set pvs. length c0 \<le> fst x"
  shows "prefix c0 (fold (\<lambda>(pos, v). patchU16 pos v) pvs c)"
proof -
  have "take (length c0) c = c0" "length c0 \<le> length c" using assms(1) by (auto simp: prefix_def)
  then have "c0 = take (length c0) (fold (\<lambda>(pos, v). patchU16 pos v) pvs c)" using take_patches [OF assms(2), of c] by simp
  then show ?thesis by (metis take_is_prefix)
qed

lemma fails_patches: "fold (\<lambda>pos. patchU16 (pos + 3) v) ps c = fold (\<lambda>(pos, v). patchU16 pos v) (map (\<lambda>pos. (pos + 3, v)) ps) c"
  by (simp add: fold_map o_def)

section \<open>One alternative\<close>

text \<open>The positions of an alternative's code: its tests, then the jump at its end.\<close>

definition altShape :: "compiler \<Rightarrow> nat list \<Rightarrow> nat \<Rightarrow> compiler \<Rightarrow> bool" where
  "altShape st fails jump st' \<longleftrightarrow>
     shape st fails st' \<and> cv_locals (viewC st') = cv_locals (viewC st) \<and> codeEnd st \<le> jump \<and> codeEnd st' = jump + 3 \<and> (\<forall>pos \<in> set fails. pos + 5 \<le> jump)"

text \<open>
  The code of an alternative, run with the value to inspect in its slot: when the pattern matches, it leaves the value of the body and is at the end of the case;
  otherwise it is at the fail address.
\<close>

definition altRun :: "vmCfg \<Rightarrow> compEnv \<Rightarrow> nat \<Rightarrow> pat \<Rightarrow> annotated \<Rightarrow> compiler \<Rightarrow> nat list \<Rightarrow> nat \<Rightarrow> compiler \<Rightarrow> bool" where
  "altRun G CE slot q b st fails jump st' \<longleftrightarrow>
     (\<forall>E self w p bp env v u s l t stop. runsIn w p bp \<longrightarrow> fits p (viewC st') \<longrightarrow> okCode p (jumpHoles [jump] \<union> holes fails) (codeEnd st) (cv_code (viewC st')) \<longrightarrow>
        DecodeU16 (pCode p) (jump + 1) = Some (endOffset stop jump) \<longrightarrow> (\<forall>pos \<in> set fails. DecodeU16 (pCode p) (pos + 3) = Some t) \<longrightarrow>
        codeEnd st' \<le> stop \<longrightarrow> stop < 32768 \<longrightarrow> length (pCode p) < 32768 \<longrightarrow> slotVal bp l slot = Some u \<longrightarrow> derefV G u = Some v \<longrightarrow> envOk bp l (cv_locals (viewC st)) env \<longrightarrow>
        (case matchPat G q v of
           Hit bs \<Rightarrow> \<forall>r. evalD G CE (env ++ map_of (rev bs)) b = Some r \<longrightarrow> runsTo G E self w (codeEnd st) s l stop (r # s) (keeps bp (cv_num (viewC st)) l)
         | Miss \<Rightarrow> runsTo G E self w (codeEnd st) s l (unat t) s (keeps bp (cv_num (viewC st)) l)
         | Stuck \<Rightarrow> True))"

lemma alt_steps:
  assumes "okState st" "slot < cv_num (viewC st)" "exprRun G CE b" "emitU16 OpLoadLocal (of_nat slot) st = Inr (x, st1)" "compilePatternCollect q st1 = Inr (fails, st2)"
    "compileExpr CE b tl' st2 = Inr ((), st3)" "popLocals (length (cv_locals (viewC st))) st3 = Inr (y, st4)" "emitJump OpJump st4 = Inr (jump, st5)"
  shows "emitted (Instr OpLoadLocal (of_nat slot) 0 0) st x st1" "shape st1 fails st2" "exprShape st2 st3"
    "okState st4 \<and> viewC st4 = (viewC st3)\<lparr> cv_locals := cv_locals (viewC st) \<rparr>" "emitted (Instr OpJump 0 0 0) st4 jump st5" "shape st fails st3" "altShape st fails jump st5"
proof -
  show em: "emitted (Instr OpLoadLocal (of_nat slot) 0 0) st x st1" using emit_view(2) [OF assms(1,4)] by simp
  note a = shape_emitted [OF em]
  show b: "shape st1 fails st2" using pattern_shape(1) [OF shape_ok [OF a] assms(5)] .
  show c: "exprShape st2 st3" using segRunD(1) [OF exprRunD [OF assms(3) shape_ok [OF b] assms(6)]] .
  have c': "shape st2 [] st3" using c by (simp add: exprShape_def)
  show abc: "shape st fails st3" using shape_cons [OF a shape_trans [OF b c']] by simp
  have "prefix (cv_locals (viewC st)) (cv_locals (viewC st3))" using abc by (simp add: shape_def)
  then have take: "take (length (cv_locals (viewC st))) (cv_locals (viewC st3)) = cv_locals (viewC st)" "length (cv_locals (viewC st)) \<le> length (cv_locals (viewC st3))"
    by (auto simp: prefix_def)
  show d: "okState st4 \<and> viewC st4 = (viewC st3)\<lparr> cv_locals := cv_locals (viewC st) \<rparr>"
    using popLocals_view [OF exprShape_ok [OF c] assms(7) take(2)] take(1) by simp
  show e: "emitted (Instr OpJump 0 0 0) st4 jump st5" using emit_view(5) [OF conjunct1 [OF d] assms(8)] by simp
  have len: "jump = codeEnd st3" "codeEnd st5 = codeEnd st3 + 3" using d e by (simp_all add: emitted_def length_encodeI)
  have "shape st fails st5"
    using abc d e by (force simp: shape_def emitted_def grows_def length_encodeI prefix_def)
  then show "altShape st fails jump st5"
    using abc d e len shape_code [OF abc] by (auto simp: altShape_def shape_def emitted_def)
qed

lemma alt_code:
  assumes "emitted (Instr OpLoadLocal a 0 0) st x st1" "shape st1 fails st2" "exprShape st2 st3"
    "viewC st4 = (viewC st3)\<lparr> cv_locals := ls \<rparr>" "emitted (Instr OpJump 0 0 0) st4 jump st5"
    and "fits p (viewC st5)" "okCode p (jumpHoles [jump] \<union> holes fails) (codeEnd st) (cv_code (viewC st5))" "DecodeU16 (pCode p) (jump + 1) = Some d"
  shows "codeOk p [] st st1" "codeOk p fails st1 st2" "codeOk p [] st2 st3" "hasI p (codeEnd st3) (Instr OpJump d 0 0)" "codeEnd st3 = jump"
proof -
  note a = shape_emitted [OF assms(1)]
  have c: "shape st2 [] st3" using assms(3) by (simp add: exprShape_def)
  have abc: "shape st1 fails st3" using shape_trans [OF assms(2) c] by simp
  have v5: "cv_code (viewC st5) = cv_code (viewC st3) @ encodeI (Instr OpJump 0 0 0)" "codeEnd st3 = jump" "fits p (viewC st3)"
    using assms(4-6) by (auto simp: emitted_def fits_def)
  have fails: "pos + 5 \<le> jump" if "pos \<in> set fails" for pos using abc that v5(2) by (auto simp: shape_def)
  have "okCode p (holes fails) (codeEnd st) (cv_code (viewC st3))"
    by (rule okCode_holes [OF okCode_prefix [OF assms(7)]]) (auto simp: v5 jumpHoles_def)
  then have all: "codeOk p fails st st3" using v5(3) by (simp add: codeOk_def)
  then show "codeOk p [] st st1" "codeOk p fails st1 st2" "codeOk p [] st2 st3"
    using codeOk_cons [OF a abc] codeOk_split [OF assms(2) c] by auto
  have "jump \<notin> jumpHoles [jump] \<union> holes fails" using fails by (force simp: jumpHoles_def holes_def)
  then show "hasI p (codeEnd st3) (Instr OpJump d 0 0)"
    using okCode_jump [OF assms(7), of "cv_code (viewC st3)" OpJump d] shape_code [OF shape_cons [OF a abc]] assms(8) v5 by (simp add: hasI_def)
  show "codeEnd st3 = jump" by (fact v5)
qed

lemma alt_run:
  assumes "okState st" "slot < cv_num (viewC st)" "exprRun G CE b" "emitU16 OpLoadLocal (of_nat slot) st = Inr (x, st1)" "compilePatternCollect q st1 = Inr (fails, st2)"
    "compileExpr CE b tl' st2 = Inr ((), st3)" "popLocals (length (cv_locals (viewC st))) st3 = Inr (y, st4)" "emitJump OpJump st4 = Inr (jump, st5)" "namedPat q"
  shows "altRun G CE slot q b st fails jump st5"
  unfolding altRun_def
proof (intro allI impI)
  fix E self w p bp env v u s l t stop
  assume h: "runsIn w p bp" "fits p (viewC st5)" "okCode p (jumpHoles [jump] \<union> holes fails) (codeEnd st) (cv_code (viewC st5))"
    "DecodeU16 (pCode p) (jump + 1) = Some (endOffset stop jump)" "\<forall>pos \<in> set fails. DecodeU16 (pCode p) (pos + 3) = Some t"
    "codeEnd st5 \<le> stop" "stop < 32768" "length (pCode p) < 32768" "slotVal bp l slot = Some u" "derefV G u = Some v" "envOk bp l (cv_locals (viewC st)) env"
  note st = alt_steps [OF assms(1-8)]
  note code = alt_code [OF st(1-3) conjunct2 [OF st(4)] st(5) h(2-4)]
  note load = codeOk_instr [OF st(1) _ code(1), simplified]
  have num: "cv_num (viewC st1) = cv_num (viewC st)" "cv_locals (viewC st1) = cv_locals (viewC st)" using st(1) by (simp_all add: emitted_def)
  have word: "unat (of_nat slot :: 16 word) = slot" using assms(2) code(1) num by (simp add: slot_word codeOk_def fits_def)
  have first: "runsTo G E self w (codeEnd st) s l (codeEnd st1) (v # s) (\<lambda>l'. l' = l)"
    unfolding load(2) using h(9,10) word by (intro run_loadLocal [OF h(1) load(1)]) auto
  have pat: "matchRun G E self w bp t st1 st2 (v # s) s l (matchPat G q v)"
    by (rule pattern_runs [OF _ assms(5,9) h(1) code(2) h(5)]) (use st(1) in \<open>simp add: emitted_def\<close>)
  have final: "int (codeEnd st3) + 3 + sint (endOffset stop jump) = int stop"
    using endOffset_target [of jump stop] h(6,7) st(7) code(5) by (simp add: altShape_def)
  show "case matchPat G q v of
      Hit bs \<Rightarrow> \<forall>r. evalD G CE (env ++ map_of (rev bs)) b = Some r \<longrightarrow> runsTo G E self w (codeEnd st) s l stop (r # s) (keeps bp (cv_num (viewC st)) l)
    | Miss \<Rightarrow> runsTo G E self w (codeEnd st) s l (unat t) s (keeps bp (cv_num (viewC st)) l)
    | Stuck \<Rightarrow> True"
  proof (cases "matchPat G q v")
    case (Hit bs)
    have "runsTo G E self w (codeEnd st) s l stop (r # s) (keeps bp (cv_num (viewC st)) l)" if r: "evalD G CE (env ++ map_of (rev bs)) b = Some r" for r
    proof (rule runsTo_trans [OF first], simp, rule runsTo_trans [OF pat [unfolded Hit matchRun_def matched.case]])
      fix l1 assume l1: "keeps bp (cv_num (viewC st1)) l l1 \<and> bound bp l1 (news st1 st2) bs"
      have "envOk bp l1 (cv_locals (viewC st)) env" using envOk_keeps [OF h(11) _ view_num [OF assms(1)]] l1 num by simp
      moreover have "cv_locals (viewC st2) = cv_locals (viewC st) @ news st1 st2" using st(2) num by (auto simp: shape_def news_def prefix_def)
      ultimately have env: "envOk bp l1 (cv_locals (viewC st2)) (env ++ map_of (rev bs))" using envOk_bound l1 by simp
      have body: "runsTo G E self w (codeEnd st2) s l1 (codeEnd st3) (r # s) (keeps bp (cv_num (viewC st2)) l1)"
        using segRunD(2) [OF exprRunD [OF assms(3) shape_ok [OF st(2)] assms(6)] h(1) code(3) h(8) env, of "[r]"] r by simp
      show "runsTo G E self w (codeEnd st2) s l1 stop (r # s) (keeps bp (cv_num (viewC st)) l)"
      proof (rule runsTo_trans [OF body])
        fix l2 assume l2: "keeps bp (cv_num (viewC st2)) l1 l2"
        have "cv_num (viewC st) \<le> cv_num (viewC st2)" using st(2) num by (simp add: shape_def grows_def)
        then have "keeps bp (cv_num (viewC st)) l l2" using keeps_trans [OF conjunct1 [OF l1] l2] num by simp
        then show "runsTo G E self w (codeEnd st3) (r # s) l2 stop (r # s) (keeps bp (cv_num (viewC st)) l)"
          by (intro run_jump [OF h(1) code(4) final])
      qed
    qed
    then show ?thesis using Hit by simp
  next
    case Miss
    have "runsTo G E self w (codeEnd st) s l (unat t) s (keeps bp (cv_num (viewC st)) l)"
      by (rule runsTo_trans [OF first]) (use pat Miss num in \<open>simp add: matchRun_def\<close>)
    then show ?thesis using Miss by simp
  qed simp
qed

section \<open>All alternatives\<close>

definition altsShape :: "compiler \<Rightarrow> nat list \<Rightarrow> nat list \<Rightarrow> compiler \<Rightarrow> bool" where
  "altsShape st J F st' \<longleftrightarrow>
     shape st F st' \<and> cv_locals (viewC st') = cv_locals (viewC st) \<and> (\<forall>j \<in> set J. codeEnd st \<le> j \<and> j + 3 \<le> codeEnd st') \<and>
     sorted_wrt (\<lambda>x y. x + 3 \<le> y) J \<and> (\<forall>j \<in> set J. \<forall>f \<in> set F. j + 3 \<le> f \<or> f + 5 \<le> j)"

definition altsRun :: "vmCfg \<Rightarrow> compEnv \<Rightarrow> nat \<Rightarrow> (pat \<times> annotated \<times> genKind) list \<Rightarrow> compiler \<Rightarrow> nat list \<Rightarrow> nat list \<Rightarrow> compiler \<Rightarrow> bool" where
  "altsRun G CE slot alts st J F st' \<longleftrightarrow>
     (\<forall>E self w p bp env v u s l t stop bs b r. runsIn w p bp \<longrightarrow> fits p (viewC st') \<longrightarrow> okCode p (jumpHoles J \<union> holes F) (codeEnd st) (cv_code (viewC st')) \<longrightarrow>
        (\<forall>j \<in> set J. DecodeU16 (pCode p) (j + 1) = Some (endOffset stop j)) \<longrightarrow> (\<forall>f \<in> set F. DecodeU16 (pCode p) (f + 3) = Some t) \<longrightarrow>
        codeEnd st' \<le> stop \<longrightarrow> stop < 32768 \<longrightarrow> length (pCode p) < 32768 \<longrightarrow> slotVal bp l slot = Some u \<longrightarrow> derefV G u = Some v \<longrightarrow> envOk bp l (cv_locals (viewC st)) env \<longrightarrow>
        firstMatch G v alts = Some (bs, b) \<longrightarrow> evalD G CE (env ++ map_of (rev bs)) b = Some r \<longrightarrow>
        runsTo G E self w (codeEnd st) s l stop (r # s) (keeps bp (cv_num (viewC st)) l))"

lemma altsRun_last:
  assumes "altShape st fails jump st'" "altRun G CE slot q b st fails jump st'"
  shows "altsShape st [jump] fails st'" "altsRun G CE slot [(q, b, g)] st [jump] fails st'"
proof -
  show "altsShape st [jump] fails st'" using assms(1) by (auto simp: altShape_def altsShape_def)
  show "altsRun G CE slot [(q, b, g)] st [jump] fails st'"
    unfolding altsRun_def
  proof (intro allI impI)
    fix E self w p bp env v u s l t stop bs b' r
    assume h: "runsIn w p bp" "fits p (viewC st')" "okCode p (jumpHoles [jump] \<union> holes fails) (codeEnd st) (cv_code (viewC st'))"
      "\<forall>j \<in> set [jump]. DecodeU16 (pCode p) (j + 1) = Some (endOffset stop j)" "\<forall>f \<in> set fails. DecodeU16 (pCode p) (f + 3) = Some t"
      "codeEnd st' \<le> stop" "stop < 32768" "length (pCode p) < 32768" "slotVal bp l slot = Some u" "derefV G u = Some v" "envOk bp l (cv_locals (viewC st)) env"
      "firstMatch G v [(q, b, g)] = Some (bs, b')" "evalD G CE (env ++ map_of (rev bs)) b' = Some r"
    have "matchPat G q v = Hit bs" "b' = b" using h(12) by (auto split: matched.splits)
    moreover have "DecodeU16 (pCode p) (jump + 1) = Some (endOffset stop jump)" using h(4) by simp
    ultimately show "runsTo G E self w (codeEnd st) s l stop (r # s) (keeps bp (cv_num (viewC st)) l)"
      using assms(2) [unfolded altRun_def, rule_format, OF h(1,2,3) _ _ h(6-11), of t] h(5,13) by simp
  qed
qed

text \<open>The first of several alternatives: its fail addresses are patched to the code of the next one.\<close>

lemma patched_shape:
  assumes "altShape st fails jump st5" "okState st6" "viewC st6 = (viewC st5)\<lparr> cv_code := fold (\<lambda>pos. patchU16 (pos + 3) v) fails (cv_code (viewC st5)) \<rparr>"
    and "altsShape st6 J F st'"
  shows "altsShape st (jump # J) F st'" "codeEnd st6 = jump + 3" "codeEnd st \<le> jump"
proof -
  have f: "\<forall>pos \<in> set fails. codeEnd st \<le> pos \<and> pos + 5 \<le> codeEnd st5" "shape st fails st5" using assms(1) by (auto simp: altShape_def shape_def)
  have "cv_code (viewC st6) = fold (\<lambda>(pos, v). patchU16 pos v) (map (\<lambda>pos. (pos + 3, v)) fails) (cv_code (viewC st5))"
    using assms(3) by (simp add: fails_patches)
  then have len: "codeEnd st6 = codeEnd st5" "prefix (cv_code (viewC st)) (cv_code (viewC st6))"
    using length_patches [of "map (\<lambda>pos. (pos + 3, v)) fails" "cv_code (viewC st5)"] prefix_patches [of "cv_code (viewC st)" "cv_code (viewC st5)" "map (\<lambda>pos. (pos + 3, v)) fails"] f
    by (force simp: shape_def)+
  then show st6: "codeEnd st6 = jump + 3" "codeEnd st \<le> jump" using assms(1) by (simp_all add: altShape_def)
  have "shape st [] st6" using f(2) assms(2,3) len(2) by (simp add: shape_def grows_def)
  then have "shape st F st'" using shape_cons assms(4) by (simp add: altsShape_def)
  moreover have "codeEnd st6 \<le> codeEnd st'" using assms(4) shape_code [of st6 F st'] by (simp add: altsShape_def)
  moreover have "\<forall>f \<in> set F. codeEnd st6 \<le> f" using assms(4) by (simp add: altsShape_def shape_def)
  ultimately show "altsShape st (jump # J) F st'"
    using assms(1,3,4) st6 by (fastforce simp: altsShape_def altShape_def)
qed

lemma altsRun_first:
  assumes "altShape st fails jump st5" "altRun G CE slot q b st fails jump st5" "okState st" "okState st6"
    "viewC st6 = (viewC st5)\<lparr> cv_code := fold (\<lambda>pos. patchU16 (pos + 3) (of_nat (codeEnd st5))) fails (cv_code (viewC st5)) \<rparr>"
    "altsShape st6 J F st'" "altsRun G CE slot alts st6 J F st'" "slot < cv_num (viewC st)"
  shows "altsRun G CE slot ((q, b, g) # alts) st (jump # J) F st'"
  unfolding altsRun_def
proof (intro allI impI)
  fix E self w p bp env v u s l t stop bs b' r
  assume h: "runsIn w p bp" "fits p (viewC st')" "okCode p (jumpHoles (jump # J) \<union> holes F) (codeEnd st) (cv_code (viewC st'))"
    "\<forall>j \<in> set (jump # J). DecodeU16 (pCode p) (j + 1) = Some (endOffset stop j)" "\<forall>f \<in> set F. DecodeU16 (pCode p) (f + 3) = Some t"
    "codeEnd st' \<le> stop" "stop < 32768" "length (pCode p) < 32768" "slotVal bp l slot = Some u" "derefV G u = Some v" "envOk bp l (cv_locals (viewC st)) env"
    "firstMatch G v ((q, b, g) # alts) = Some (bs, b')" "evalD G CE (env ++ map_of (rev bs)) b' = Some r"
  note sh = patched_shape [OF assms(1,4,5,6)]
  have ends: "codeEnd st5 = jump + 3" "codeEnd st6 \<le> codeEnd st'" using assms(1,6) shape_code [of st6 F st'] by (simp_all add: altShape_def altsShape_def)
  have JF: "\<forall>j \<in> set J. codeEnd st6 \<le> j" "\<forall>f \<in> set F. codeEnd st6 \<le> f" using assms(6) by (simp_all add: altsShape_def shape_def)
  have num: "cv_num (viewC st) \<le> cv_num (viewC st6)" "cv_locals (viewC st6) = cv_locals (viewC st)"
    using assms(1,5) by (simp_all add: altShape_def shape_def grows_def)
  have fit: "fits p (viewC st5)" using fits_grows [OF _ h(2), of "viewC st5"] assms(5,6) by (simp add: altsShape_def shape_def grows_def)
  have "okCode p (jumpHoles [jump]) (codeEnd st) (cv_code (viewC st6))"
    by (rule okCode_holes [OF okCode_prefix [OF h(3)]]) (use assms(6) JF in \<open>auto simp: altsShape_def shape_def jumpHoles_def holes_def\<close>)
  then have patched: "okCode p (jumpHoles [jump] \<union> holes fails) (codeEnd st) (cv_code (viewC st5)) \<and>
      (\<forall>pos \<in> set fails. DecodeU16 (pCode p) (pos + 3) = Some (of_nat (codeEnd st5)))"
    by (intro okCode_patchFails) (use assms(1,5) in \<open>auto simp: altShape_def shape_def jumpHoles_def\<close>)
  have rest: "okCode p (jumpHoles J \<union> holes F) (codeEnd st6) (cv_code (viewC st'))"
    by (rule okCode_holes [OF okCode_from [OF h(3)]]) (use sh in \<open>auto simp: jumpHoles_def\<close>)
  have "codeEnd st5 < 32768" using ends sh(2) h(6,7) by simp
  then have t: "unat (of_nat (codeEnd st5) :: 16 word) = codeEnd st6" using slot_word [of "codeEnd st5" 32768] ends(1) sh(2) by auto
  have stop: "codeEnd st5 \<le> stop" using ends sh(2) h(6) by simp
  have jump: "DecodeU16 (pCode p) (jump + 1) = Some (endOffset stop jump)" using h(4) by simp
  note run = assms(2) [unfolded altRun_def, rule_format, OF h(1) fit conjunct1 [OF patched] jump bspec [OF conjunct2 [OF patched]] stop h(7-11)]
  show "runsTo G E self w (codeEnd st) s l stop (r # s) (keeps bp (cv_num (viewC st)) l)"
  proof (cases "matchPat G q v")
    case (Hit bs0)
    then show ?thesis using run h(12,13) by simp
  next
    case Miss
    then have first: "runsTo G E self w (codeEnd st) s l (codeEnd st6) s (keeps bp (cv_num (viewC st)) l)" using run by (simp add: t)
    show ?thesis
    proof (rule runsTo_trans [OF first])
      fix l1 assume l1: "keeps bp (cv_num (viewC st)) l l1"
      have "slotVal bp l1 slot = Some u" using l1 h(9) assms(8) by (simp add: keeps_def)
      moreover have "envOk bp l1 (cv_locals (viewC st6)) env" using envOk_keeps [OF h(11) l1 view_num [OF assms(3)]] num(2) by simp
      moreover have "firstMatch G v alts = Some (bs, b')" using h(12) Miss by simp
      ultimately have "runsTo G E self w (codeEnd st6) s l1 stop (r # s) (keeps bp (cv_num (viewC st6)) l1)"
        using assms(7) [unfolded altsRun_def, rule_format, OF h(1,2) rest _ _ h(6-8) _ h(10) _ _ h(13)] h(4,5) by simp
      then show "runsTo G E self w (codeEnd st6) s l1 stop (r # s) (keeps bp (cv_num (viewC st)) l)"
        by (rule runsTo_mono) (use keeps_trans [OF l1 _ num(1)] in simp)
    qed
  next
    case Stuck
    then show ?thesis using h(12) by simp
  qed
qed

lemma alts_run:
  assumes "okState st" "slot < cv_num (viewC st)" "compileAlts CE slot alts tl' st = Inr ((J, F), st')"
    and "\<forall>alt \<in> set alts. namedPat (fst alt) \<and> exprRun G CE (fst (snd alt))"
  shows "altsShape st J F st' \<and> altsRun G CE slot alts st J F st'"
  using assms
proof (induction alts arbitrary: st J)
  case Nil
  then show ?case by (auto simp: compileAlts.simps altsShape_def altsRun_def shape_refl)
next
  case (Cons alt alts)
  obtain q b g where alt: "alt = (q, b, g)" by (metis prod_cases3)
  have q: "namedPat q" "exprRun G CE b" using Cons.prems(4) alt by auto
  obtain n st0 x st1 fails st2 st3 y st4 jump st5 where s: "localCount st = Inr (n, st0)" "emitU16 OpLoadLocal (of_nat slot) st0 = Inr (x, st1)"
    "compilePatternCollect q st1 = Inr (fails, st2)" "compileExpr CE b (tl' \<and> alts = []) st2 = Inr ((), st3)" "popLocals n st3 = Inr (y, st4)"
    "emitJump OpJump st4 = Inr (jump, st5)" and rest: "(if alts = [] then retC ([jump], fails)
     else thenC codeLen (\<lambda>target.
          seqC (patchFails fails target) (
          thenC (compileAlts CE slot alts tl') (\<lambda>(endJumps, lastFails). retC (jump # endJumps, lastFails))))) st5 = Inr ((J, F), st')"
    using Cons.prems(3) by (auto simp: alt compileAlts.simps thenC_Inr)
  have n: "st0 = st" "n = length (cv_locals (viewC st))" using localCount_view [OF Cons.prems(1) s(1)] by simp_all
  note steps = Cons.prems(1,2) q(2) s(2-6) [unfolded n]
  note one = alt_steps(7) [OF steps] alt_run [OF steps q(1)]
  show ?case
  proof (cases "alts = []")
    case True
    then show ?thesis using altsRun_last [OF one] rest alt by auto
  next
    case False
    then obtain target st5' z st6 J' where r: "codeLen st5 = Inr (target, st5')" "patchFails fails target st5' = Inr (z, st6)"
      "compileAlts CE slot alts tl' st6 = Inr ((J', F), st')" "J = jump # J'"
      using rest by (auto simp: thenC_Inr)
    have ok5: "okState st5" using one(1) by (simp add: altShape_def shape_def)
    have len: "st5' = st5" "target = codeEnd st5" using codeLen_view [OF ok5 r(1)] by simp_all
    note v6 = patchFails_view [OF ok5 r(2) [unfolded len]]
    have "slot < cv_num (viewC st6)" using Cons.prems(2) v6 one(1) by (simp add: altShape_def shape_def grows_def)
    then have ih: "altsShape st6 J' F st' \<and> altsRun G CE slot alts st6 J' F st'" using Cons.IH [OF _ _ r(3)] v6 Cons.prems(4) by simp
    show ?thesis
      using patched_shape(1) [OF one(1) _ _ conjunct1 [OF ih]] altsRun_first [OF one Cons.prems(1) _ _ conjunct1 [OF ih] conjunct2 [OF ih] Cons.prems(2)] v6 r(4) alt by simp
  qed
qed

section \<open>Case distinctions\<close>

text \<open>The code of a case around its alternatives: the operands are patched last.\<close>

lemma case_code:
  assumes "altsShape se J F sf" "emitted (Instr OpLoadLocal a 0 0) sf z sg" "emitted (Instr OpMatchFail 0 0 0) sg m sh"
    "viewC si = (viewC sh)\<lparr> cv_code := fold (\<lambda>pos. patchU16 (pos + 3) v) F (cv_code (viewC sh)) \<rparr>"
    "viewC sj = (viewC si)\<lparr> cv_code := fold (\<lambda>(pos, v). patchU16 pos v) (map (\<lambda>pos. (pos + 1, endOffset (codeEnd si) pos)) J) (cv_code (viewC si)) \<rparr>"
    "viewC st' = (viewC sj)\<lparr> cv_locals := ls \<rparr>" "okState st'"
  shows "prefix (cv_code (viewC se)) (cv_code (viewC st'))" "grows (viewC se) (viewC st')" "codeEnd sf \<le> codeEnd st'"
    and "n \<le> codeEnd se \<Longrightarrow> okCode p {} n (cv_code (viewC st')) \<Longrightarrow>
      okCode p (jumpHoles J \<union> holes F) n (cv_code (viewC sf)) \<and> (\<forall>j \<in> set J. DecodeU16 (pCode p) (j + 1) = Some (endOffset (codeEnd st') j)) \<and>
      (\<forall>f \<in> set F. DecodeU16 (pCode p) (f + 3) = Some v)"
    and "fits p (viewC st') \<Longrightarrow> fits p (viewC sf)"
proof -
  let ?fs = "map (\<lambda>pos. (pos + 3, v)) F" and ?js = "map (\<lambda>pos. (pos + 1, endOffset (codeEnd si) pos)) J"
  have F: "\<forall>f \<in> set F. codeEnd se \<le> f \<and> f + 5 \<le> codeEnd sf" "sorted_wrt (\<lambda>x y. x + 5 \<le> y) F" "prefix (cv_code (viewC se)) (cv_code (viewC sf))" "grows (viewC se) (viewC sf)"
    and J: "\<forall>j \<in> set J. codeEnd se \<le> j \<and> j + 3 \<le> codeEnd sf" "sorted_wrt (\<lambda>x y. x + 3 \<le> y) J" "\<forall>j \<in> set J. \<forall>f \<in> set F. j + 3 \<le> f \<or> f + 5 \<le> j"
    using assms(1) by (simp_all add: altsShape_def shape_def)
  have sh: "cv_code (viewC sh) = cv_code (viewC sf) @ encodeI (Instr OpLoadLocal a 0 0) @ encodeI (Instr OpMatchFail 0 0 0)" "grows (viewC sf) (viewC sh)"
    using assms(2,3) by (simp_all add: emitted_def grows_def)
  have si: "cv_code (viewC si) = fold (\<lambda>(pos, v). patchU16 pos v) ?fs (cv_code (viewC sh))" using assms(4) by (simp add: fails_patches)
  have st': "cv_code (viewC st') = fold (\<lambda>(pos, v). patchU16 pos v) ?js (cv_code (viewC si))" using assms(5,6) by simp
  have l1: "codeEnd sf \<le> codeEnd sh" by (simp add: sh)
  have l2: "codeEnd si = codeEnd sh" using length_patches [of ?fs "cv_code (viewC sh)"] F(1) l1 unfolding si by fastforce
  moreover have "\<forall>x \<in> set ?js. fst x + 2 \<le> codeEnd si" using J(1) l1 l2 by fastforce
  then have "length (fold (\<lambda>(pos, v). patchU16 pos v) ?js (cv_code (viewC si))) = codeEnd si" by (rule length_patches)
  then have "codeEnd st' = codeEnd si" by (simp only: st')
  ultimately have len: "codeEnd sf \<le> codeEnd sh" "codeEnd si = codeEnd sh" "codeEnd st' = codeEnd si" using l1 by simp_all
  show "codeEnd sf \<le> codeEnd st'" using len by simp
  have "prefix (cv_code (viewC se)) (cv_code (viewC sh))" using F(3) by (auto simp: sh prefix_def)
  then show "prefix (cv_code (viewC se)) (cv_code (viewC st'))" unfolding st' si by (intro prefix_patches) (use F(1) J(1) in auto)
  show "grows (viewC se) (viewC st')" using grows_trans [OF F(4) sh(2)] assms(4-6) by (simp add: grows_def)
  show "fits p (viewC sf)" if "fits p (viewC st')"
    using fits_grows [of "viewC sf" "viewC st'" p] sh(2) assms(4-6) that by (simp add: grows_def)
  assume n: "n \<le> codeEnd se" and ok: "okCode p {} n (cv_code (viewC st'))"
  have jumps: "okCode p ({} \<union> jumpHoles J) n (cv_code (viewC si)) \<and> (\<forall>j \<in> set J. DecodeU16 (pCode p) (j + 1) = Some (endOffset (codeEnd si) j))"
    by (rule okCode_jumps [OF ok [unfolded st']]) (use J n len in auto)
  then have ok': "okCode p (jumpHoles J) n (fold (\<lambda>pos. patchU16 (pos + 3) v) F (cv_code (viewC sh)))" using assms(4) by simp
  have "\<forall>f \<in> set F. n \<le> f \<and> f + 5 \<le> codeEnd sh \<and> f + 3 \<notin> jumpHoles J \<and> f + 4 \<notin> jumpHoles J"
    using F(1) J(3) n len(1) by (fastforce simp: jumpHoles_def)
  note fails = okCode_patchFails [OF ok' this F(2)]
  then have "okCode p (jumpHoles J \<union> holes F) n (cv_code (viewC sf))" by (auto intro: okCode_prefix simp: sh)
  then show "okCode p (jumpHoles J \<union> holes F) n (cv_code (viewC sf)) \<and> (\<forall>j \<in> set J. DecodeU16 (pCode p) (j + 1) = Some (endOffset (codeEnd st') j)) \<and>
      (\<forall>f \<in> set F. DecodeU16 (pCode p) (f + 3) = Some v)"
    using fails jumps len(3) by simp
qed

lemma step_run:
  assumes "okState st" "emitStep c st = Inr (x, st')"
  shows "segRun G st st' (\<lambda>_. Some [])"
proof -
  obtain i st1 where s: "addString (irNodeKind c) st = Inr (i, st1)" "emitU16 OpStep i st1 = Inr (x, st')" using assms(2) by (auto simp: emitStep_def thenC_Inr)
  note b = segRun_string [OF segRun_nil [OF assms(1)] s(1)]
  show ?thesis
    by (rule segRun_instr [OF b(1) emit_view(2) [OF b(2) s(2)]]) (use assms(1) run_step in auto)
qed

lemma scrut_env: "envOk bp l names env \<Longrightarrow> envOk bp l (names @ [(''$scrut'', slot)]) env"
  by (auto simp: envOk_def temp_def)

lemma case_run:
  assumes "exprRun G CE e" "\<forall>alt \<in> set alts. namedPat (fst alt) \<and> exprRun G CE (fst (snd alt))"
  shows "exprRun G CE (Case e alts)"
  unfolding exprRun_def
proof (intro allI impI)
  fix tail st st' assume h: "okState st" "compileExpr CE (Case e alts) tail st = Inr ((), st')"
  obtain x sb sc n sc' slot sd y se J F sf z sg k sg' m sh u1 si u2 sj
    where s: "emitStep (Case e alts) st = Inr (x, sb)" "compileExpr CE e False sb = Inr ((), sc)" "localCount sc = Inr (n, sc')"
      "allocLocal ''$scrut'' sc' = Inr (slot, sd)" "emitU16 OpStoreLocal (of_nat slot) sd = Inr (y, se)" "compileAlts CE slot alts tail se = Inr ((J, F), sf)"
      "emitU16 OpLoadLocal (of_nat slot) sf = Inr (z, sg)" "codeLen sg = Inr (k, sg')" "emit OpMatchFail sg' = Inr (m, sh)" "patchFails F k sh = Inr (u1, si)"
      "fold (\<lambda>pos m. seqC m (patchJumpTo pos)) J (retC ()) si = Inr (u2, sj)" "popLocals n sj = Inr ((), st')"
    using h(2) by (auto simp: compileExpr.simps thenC_Inr)
  note a = step_run [OF h(1) s(1), of G]
  note b = exprRunD [OF assms(1) exprShape_ok [OF segRunD(1) [OF a]] s(2)]
  have nil: "(@) [] = (\<lambda>x :: val list. x)" by (rule ext) simp
  have ab: "segRun G st sc (\<lambda>env. map_option (\<lambda>v. [v]) (evalD G CE env e))"
    using segRun_seq [OF a b h(1)] by (simp add: nil option.map_ident)
  note okc = exprShape_ok [OF segRunD(1) [OF ab]]
  have n: "sc' = sc" "n = length (cv_locals (viewC sc))" using localCount_view [OF okc s(3)] by simp_all
  note d = allocLocal_view [OF okc s(4) [unfolded n]]
  note em = emit_view(2) [OF conjunct1 [OF d] s(5), simplified]
  have oke: "okState se" "slot < cv_num (viewC se)" using d em by (auto simp: emitted_def)
  note alts = alts_run [OF oke s(6) assms(2)]
  have okf: "okState sf" using alts by (simp add: altsShape_def shape_def)
  note g = emit_view(2) [OF okf s(7), simplified]
  have k: "sg' = sg" "k = codeEnd sg" using codeLen_view [OF _ s(8)] g by (simp_all add: emitted_def)
  have okg: "okState sg" using g by (simp add: emitted_def)
  note hh = emit_view(1) [OF okg s(9) [unfolded k], simplified]
  have okh: "okState sh" using hh by (simp add: emitted_def)
  note i = patchFails_view [OF okh s(10)]
  have J: "\<forall>pos \<in> set J. pos + 3 \<le> codeEnd si"
  proof -
    have "\<forall>x \<in> set (map (\<lambda>pos. (pos + 3, of_nat k :: 16 word)) F). fst x + 2 \<le> codeEnd sh"
      using alts hh g by (fastforce simp: altsShape_def shape_def emitted_def)
    then have "codeEnd si = codeEnd sh" using i length_patches by (simp add: fails_patches)
    then show ?thesis using alts hh g by (fastforce simp: altsShape_def emitted_def)
  qed
  note j = foldJumps_view [OF conjunct1 [OF i] s(11) J]
  have ls: "cv_locals (viewC sj) = cv_locals (viewC sc) @ [(''$scrut'', slot)]" using j i hh g alts em d by (simp add: altsShape_def emitted_def)
  have last: "okState st' \<and> viewC st' = (viewC sj)\<lparr> cv_locals := cv_locals (viewC sc) \<rparr>"
    using popLocals_view [OF conjunct1 [OF j] s(12)] n(2) ls by simp
  note code = case_code [OF conjunct1 [OF alts] g hh conjunct2 [OF i] conjunct2 [OF j] conjunct2 [OF last] conjunct1 [OF last]]
  have se: "cv_locals (viewC se) = cv_locals (viewC sc) @ [(''$scrut'', slot)]" "cv_num (viewC sc) = slot" "codeEnd sd = codeEnd sc" "cv_code (viewC sd) = cv_code (viewC sc)"
    "cv_code (viewC se) = cv_code (viewC sc) @ encodeI (Instr OpStoreLocal (of_nat slot) 0 0)" "grows (viewC sc) (viewC se)"
    using d em by (simp_all add: emitted_def grows_def)
  have sh: "exprShape sc st'"
    using code(1,2) last se grows_trans [OF se(6) code(2)] by (auto simp: exprShape_def shape_def prefix_def)
  show "segRun G st st' (\<lambda>env. map_option (\<lambda>v. [v]) (evalD G CE env (Case e alts)))"
  proof (rule segRunI)
    show "exprShape st st'" using exprShape_trans [OF segRunD(1) [OF ab] sh] .
    fix E self w p bp env and vs :: "val list" and s l
    assume p: "runsIn w p bp" "codeOk p [] st st'" "length (pCode p) < 32768" "envOk bp l (cv_locals (viewC st)) env"
      "map_option (\<lambda>v. [v]) (evalD G CE env (Case e alts)) = Some vs"
    obtain u v bs b r where ev: "evalD G CE env e = Some u" "derefV G u = Some v" "firstMatch G v alts = Some (bs, b)"
      "evalD G CE (env ++ map_of (rev bs)) b = Some r" "vs = [r]"
      using p(5) by (auto simp: bind_eq_Some_conv split: option.splits)
    note ok = codeOk_expr [OF segRunD(1) [OF ab] sh p(2)]
    have fin: "fits p (viewC st')" "okCode p {} (codeEnd sc) (cv_code (viewC st'))" using ok by (simp_all add: codeOk_def holes_def)
    have "codeOk p [] sd se"
      using fits_grows [OF code(2) fin(1)] okCode_prefix [OF fin(2) code(1)] se(3) by (simp add: codeOk_def holes_def)
    note store = codeOk_instr [OF em _ this, simplified]
    have word: "unat (of_nat slot :: 16 word) = slot"
      using oke(2) fits_grows [OF code(2) fin(1)] by (simp add: slot_word fits_def)
    have "codeEnd sc \<le> codeEnd se" using se(5) by simp
    then have patched: "okCode p (jumpHoles J \<union> holes F) (codeEnd se) (cv_code (viewC sf))"
      "\<forall>j \<in> set J. DecodeU16 (pCode p) (j + 1) = Some (endOffset (codeEnd st') j)" "\<forall>f \<in> set F. DecodeU16 (pCode p) (f + 3) = Some (of_nat k)"
      using code(4) [OF order_refl okCode_from [OF fin(2)]] by simp_all
    have stop: "codeEnd st' < 32768" using fin(2) p(3) by (simp add: okCode_def)
    note run = alts [THEN conjunct2, unfolded altsRun_def, rule_format, OF p(1) code(5) [OF fin(1)] patched(1) bspec [OF patched(2)] bspec [OF patched(3)]
        code(3) stop p(3) _ ev(2) _ ev(3,4)]
    show "runsTo G E self w (codeEnd st) s l (codeEnd st') (rev vs @ s) (keeps bp (cv_num (viewC st)) l)"
    proof (rule runsTo_trans)
      show "runsTo G E self w (codeEnd st) s l (codeEnd sc) (u # s) (keeps bp (cv_num (viewC st)) l)"
        using segRunD(2) [OF ab p(1) conjunct1 [OF ok] p(3,4), of "[u]"] ev(1) by simp
      fix l1 assume l1: "keeps bp (cv_num (viewC st)) l l1"
      let ?l2 = "putSlot bp slot u l1"
      have num: "cv_num (viewC st) \<le> slot" "cv_num (viewC st) \<le> cv_num (viewC se)"
        using exprShape_num [OF segRunD(1) [OF ab]] se(2) oke(2) by simp_all
      have l2: "keeps bp (cv_num (viewC st)) l ?l2" using l1 num(1) by (simp add: keeps_def)
      have "envOk bp ?l2 (cv_locals (viewC se)) env"
        unfolding se(1) using envOk_keeps [OF p(4) l2 view_num [OF h(1)]] segRunD(1) [OF ab] by (intro scrut_env) (simp add: exprShape_def)
      then have alt: "runsTo G E self w (codeEnd se) s ?l2 (codeEnd st') (r # s) (keeps bp (cv_num (viewC se)) ?l2)" by (intro run) simp_all
      show "runsTo G E self w (codeEnd sc) (u # s) l1 (codeEnd st') (rev vs @ s) (keeps bp (cv_num (viewC st)) l)"
      proof (rule runsTo_trans)
        show "runsTo G E self w (codeEnd sc) (u # s) l1 (codeEnd se) s (\<lambda>l'. l' = ?l2)"
          using run_storeLocal [OF p(1) store(1)] store(2) se(3) word by simp
        fix l3 assume "l3 = ?l2"
        then show "runsTo G E self w (codeEnd se) s l3 (codeEnd st') (rev vs @ s) (keeps bp (cv_num (viewC st)) l)"
          using runsTo_mono [OF alt] keeps_trans [OF l2 _ num(2)] ev(5) by simp
      qed
    qed
  qed
qed

end
