(* ===== verification/Vm_Correct.thy ===== *)
theory Vm_Correct
  imports Vm_Case Vm_Compiler_Faults Vm_Nested
begin

text \<open>
  The theorem on compiled data expressions: what \<^verbatim>\<open>CompileBinding\<close> makes of an expression, run from the start, returns the value of the expression.
\<close>

lemma skip_run:
  assumes "exprRun G CE e"
  shows "exprRun G CE (TyApp e t)" "exprRun G CE (TyLam a k e)" "exprRun G CE (Pure e)"
  using assms by (simp_all add: exprRun_def compileExpr.simps)

theorem data_run: "dataExpr e \<Longrightarrow> exprRun G CE e"
proof (induction e rule: dataExpr.induct)
  case (7 e alts)
  then show ?case by (intro case_run) (auto simp: list_all_iff)
next
  case (6 n m args isDict)
  then show ?case by (intro con_run) (auto simp: list_all_iff)
next
  case (8 fs)
  then show ?case by (intro record_run) (auto simp: list_all_iff)
next
  case (10 r fs)
  then show ?case by (intro update_run) (auto simp: list_all_iff)
qed (auto intro: skip_run var_run lit_run proj_run variant_run)

section \<open>A compiled binding\<close>

lemma enterFrame_new: "enterFrame NewCompiler = Inr ((), st) \<Longrightarrow> okState st \<and> cv_code (viewC st) = [] \<and> cv_locals (viewC st) = [] \<and> cv_num (viewC st) = 0"
  by (auto simp: enterFrame_def NewCompiler_def newFrame_def okState_def viewC_def)

lemma leaveFrame_view:
  assumes "okState st" "leaveFrame E st = Inr (p, st')"
  shows "pCode p = cv_code (viewC st)" "pNumLocals p = cv_num (viewC st)" "cv_num (viewC st) \<le> 65536 \<Longrightarrow> fits p (viewC st)"
  using assms by (auto simp: leaveFrame_def withTop_def okState_def viewC_def fits_def subPool_def Let_def split: list.splits)

lemma binding_steps:
  assumes "CompileBinding CE e NewCompiler = Inr (p, st')" "dataExpr e"
  obtains st1 st2 pos st3 where "okState st1" "cv_code (viewC st1) = []" "cv_locals (viewC st1) = []" "cv_num (viewC st1) = 0"
    "compileExpr CE e False st1 = Inr ((), st2)" "exprShape st1 st2" "emitted (Instr OpReturn 0 0 0) st2 pos st3" "leaveFrame CE st3 = Inr (p, st')" "okState st3"
proof -
  obtain st1 st2 pos st3 where s: "enterFrame NewCompiler = Inr ((), st1)" "compileExpr CE e False st1 = Inr ((), st2)" "emit OpReturn st2 = Inr (pos, st3)"
    "leaveFrame CE st3 = Inr (p, st')"
    using assms(1) by (auto simp: CompileBinding_def thenC_Inr)
  note e = enterFrame_new [OF s(1)]
  have b: "exprShape st1 st2" using segRunD(1) [OF exprRunD [OF data_run [OF assms(2)] conjunct1 [OF e] s(2)]] .
  have c: "emitted (Instr OpReturn 0 0 0) st2 pos st3" using emit_view(1) [OF exprShape_ok [OF b] s(3)] by (simp add: InstructionSize_def)
  show ?thesis by (rule that [OF _ _ _ _ s(2) b c s(4)]) (use e c in \<open>simp_all add: emitted_def\<close>)
qed

text \<open>Returning from the only frame.\<close>

lemma run_return:
  assumes "runsIn w p bp" "hasI p ip (Instr OpReturn 0 0 0)" "length (framesOf w) = 1" "topCap w = c" "\<And>cs q. v \<noteq> VMThunkVal cs q True"
  shows "\<exists>w'. \<forall>n. stepVM G E self n (stateAt w ip (v # s) l b) = (Ret (Done v c) (), w')"
proof -
  obtain f where f: "framesOf w = [f]" using assms(3) by (cases "framesOf w") auto
  have cap: "fr_cap f = c" using assms(4) f by (simp add: topCap_def)
  have "framesOf (stateAt w ip s' l b) = [f\<lparr> fr_ip := ip \<rparr>]" for ip s' l b
    using f by (simp add: framesOf_stateAt jumpTo_def updTop_def setFrames_def)
  then show ?thesis
    using assms(1,2,5) f cap
    by (auto simp: stepVM_def atFrame_def runsIn_def hasI_def execInstr_def execReturn_def popV_def split: val.splits bool.splits)
qed


text \<open>The number in a pair whose second component is the empty list; the first alternative fails inside the pair.\<close>

definition pairCase :: annotated where
  "pairCase = Case (Con ''Pair'' [] [Lit (LitInt 7), Con ''Nil'' [] [] False] False)
     [(PCon ''Pair'' [] [PWild, PCon ''Cons'' [] [PVar ''y'' UserWritten, PWild]], Var ''y'' [] 0, UserWritten),
      (PCon ''Pair'' [] [PVar ''x'' UserWritten, PCon ''Nil'' [] []], Var ''x'' [] 0, UserWritten)]"


end
