(* ===== verification/Avl_Balance.thy ===== *)
theory Avl_Balance
  imports Avl_Tree
begin

text \<open>
  The representation invariant of the AVL tree: stored heights are right and the heights of siblings
  differ by at most one. Every operation keeps it whatever the comparator answers, and with it no
  rotation ever meets a nil child.
\<close>

section \<open>Invariant and abstraction\<close>

fun avl :: "tree \<Rightarrow> bool" where
  "avl AvlNil \<longleftrightarrow> True"
| "avl (AvlNode k v l r h) \<longleftrightarrow>
     avl l \<and> avl r \<and> \<bar>avlHeight l - avlHeight r\<bar> \<le> 1 \<and> h = max (avlHeight l) (avlHeight r) + 1"

fun inorder :: "tree \<Rightarrow> avlEntry list" where
  "inorder AvlNil = []"
| "inorder (AvlNode k v l r h) = inorder l @ (k, v) # inorder r"

lemma avlHeight_simps [simp]: "avlHeight AvlNil = 0" "avlHeight (AvlNode k v l r h) = h"
  by (simp_all add: avlHeight_def)

lemma avlBalance_simps [simp]:
  "avlBalance AvlNil = 0" "avlBalance (AvlNode k v l r h) = avlHeight l - avlHeight r"
  by (simp_all add: avlBalance_def)

lemma avl_height_nonneg: "avl n \<Longrightarrow> 0 \<le> avlHeight n"
  by (induction n) auto

lemma avl_height_0: "avl n \<Longrightarrow> avlHeight n = 0 \<longleftrightarrow> n = AvlNil"
  by (cases n) (use avl_height_nonneg in \<open>fastforce+\<close>)

lemma avl_newNode [simp]: "avl (avlNewNode k v)" "avlHeight (avlNewNode k v) = 1"
  "inorder (avlNewNode k v) = [(k, v)]"
  by (simp_all add: avlNewNode_def)

lemma avlSize_inorder: "avlSize n = int (length (inorder n))"
  by (induction n) auto

section \<open>Rotations\<close>

lemma avlUpdateHeight_max:
  "avlUpdateHeight (AvlNode k v l r h) = Some (AvlNode k v l r (max (avlHeight l) (avlHeight r) + 1))"
  by (simp add: Let_def max_def)

declare avlUpdateHeight.simps(2) [simp del] avlUpdateHeight_max [simp]

lemma avlRebalance_balanced:
  "\<bar>avlHeight l - avlHeight r\<bar> \<le> 1 \<Longrightarrow>
     avlRebalance (AvlNode k v l r h) = Some (AvlNode k v l r (max (avlHeight l) (avlHeight r) + 1))"
  by (simp add: avlRebalance_def Let_def, linarith)

text \<open>A left-heavy pair of subtrees: one rotation, or two when the left child leans right.\<close>

lemma rotate_left_heavy:
  assumes "avl l" "avl r" "avlHeight l = avlHeight r + 2"
  shows "\<exists>n. avlRebalance (AvlNode k v l r h) = Some n \<and> avl n \<and>
    inorder n = inorder l @ (k, v) # inorder r \<and>
    (avlHeight n = avlHeight l \<or> avlHeight n = avlHeight l + 1)"
proof -
  obtain lk lv ll lr lh where l: "l = AvlNode lk lv ll lr lh"
    using assms avl_height_nonneg [of r] by (cases l) auto
  show ?thesis
  proof (cases "avlHeight ll < avlHeight lr")
    case True
    then obtain k2 v2 l2 r2 h2 where "lr = AvlNode k2 v2 l2 r2 h2"
      using assms l avl_height_nonneg [of ll] by (cases lr) auto
    then show ?thesis using True assms l by (auto simp: avlRebalance_def Let_def max_def split: if_splits)
  next
    case False
    then show ?thesis using assms l by (auto simp: avlRebalance_def Let_def max_def split: if_splits)
  qed
qed

lemma rotate_right_heavy:
  assumes "avl l" "avl r" "avlHeight r = avlHeight l + 2"
  shows "\<exists>n. avlRebalance (AvlNode k v l r h) = Some n \<and> avl n \<and>
    inorder n = inorder l @ (k, v) # inorder r \<and>
    (avlHeight n = avlHeight r \<or> avlHeight n = avlHeight r + 1)"
proof -
  obtain rk rv rl rr rh where r: "r = AvlNode rk rv rl rr rh"
    using assms avl_height_nonneg [of l] by (cases r) auto
  show ?thesis
  proof (cases "avlHeight rl > avlHeight rr")
    case True
    then obtain k2 v2 l2 r2 h2 where "rl = AvlNode k2 v2 l2 r2 h2"
      using assms r avl_height_nonneg [of rr] by (cases rl) auto
    then show ?thesis using True assms r by (auto simp: avlRebalance_def Let_def max_def split: if_splits)
  next
    case False
    then show ?thesis using assms r by (auto simp: avlRebalance_def Let_def max_def split: if_splits)
  qed
qed

lemma avlRebalance_spec:
  assumes "avl l" "avl r" "\<bar>avlHeight l - avlHeight r\<bar> \<le> 2"
  obtains n where "avlRebalance (AvlNode k v l r h) = Some n" "avl n"
    "inorder n = inorder l @ (k, v) # inorder r"
    "avlHeight n = max (avlHeight l) (avlHeight r) \<or> avlHeight n = max (avlHeight l) (avlHeight r) + 1"
    "\<bar>avlHeight l - avlHeight r\<bar> \<le> 1 \<Longrightarrow> avlHeight n = max (avlHeight l) (avlHeight r) + 1"
proof -
  consider "\<bar>avlHeight l - avlHeight r\<bar> \<le> 1" | "avlHeight l = avlHeight r + 2" | "avlHeight r = avlHeight l + 2"
    using assms(3) by linarith
  then show ?thesis
  proof cases
    case 1
    then show ?thesis
      using assms avlRebalance_balanced [OF 1, of k v h]
      by (intro that [of "AvlNode k v l r (max (avlHeight l) (avlHeight r) + 1)"]) auto
  next
    case 2
    then show ?thesis using rotate_left_heavy [OF assms(1,2) 2, of k v h] that by fastforce
  next
    case 3
    then show ?thesis using rotate_right_heavy [OF assms(1,2) 3, of k v h] that by fastforce
  qed
qed

section \<open>Insertion and deletion keep the invariant\<close>

text \<open>What the comparison makes of the value the comparator returned.\<close>

lemma compareKeys_Ret_iff:
  "compareKeys cmp a b ce ap w = (Ret ord c, w') \<longleftrightarrow>
     (\<exists>con args d n. applyNA ap cmp [a, b] ce w = (Ret (ConVal con args d n) c, w') \<and>
        (con = OrderLT \<and> ord = - 1 \<or> con = OrderEQ \<and> ord = 0 \<or> con = OrderGT \<and> ord = 1))"
proof -
  obtain r w1 where r: "applyNA ap cmp [a, b] ce w = (r, w1)" by fastforce
  show ?thesis
  proof (cases r)
    case (Ret v c1)
    then show ?thesis using r by (cases v) (auto simp: compareKeys_def)
  qed (use r in \<open>simp_all add: compareKeys_def\<close>)
qed

lemma compareKeys_range:
  "compareKeys cmp a b ce ap w = (Ret ord c, w') \<Longrightarrow> ord = - 1 \<or> ord = 0 \<or> ord = 1"
  by (auto simp: compareKeys_Ret_iff)

lemma compareKeys_Panic:
  assumes "compareKeys cmp a b ce ap w = (Panic, w')"
  shows "applyNA ap cmp [a, b] ce w = (Panic, w')"
proof -
  obtain r w1 where r: "applyNA ap cmp [a, b] ce w = (r, w1)" by fastforce
  show ?thesis
  proof (cases r)
    case (Ret v c1)
    then show ?thesis using r assms by (cases v) (simp_all add: compareKeys_def split: if_splits)
  qed (use r assms in \<open>simp_all add: compareKeys_def\<close>)
qed

text \<open>Rebalancing after a subtree has grown or shrunk by at most one.\<close>

lemma rebalance_step:
  assumes "avl (AvlNode k v l r h)" "avl l'" "avl r'"
    and "\<bar>avlHeight l' - avlHeight l\<bar> + \<bar>avlHeight r' - avlHeight r\<bar> \<le> 1"
  shows "\<exists>n. avlRebalance (AvlNode k' v' l' r' h) = Some n \<and> avl n \<and>
    inorder n = inorder l' @ (k', v') # inorder r' \<and>
    (avlHeight l \<le> avlHeight l' \<and> avlHeight r \<le> avlHeight r' \<longrightarrow> avlHeight n = h \<or> avlHeight n = h + 1) \<and>
    (avlHeight l' \<le> avlHeight l \<and> avlHeight r' \<le> avlHeight r \<longrightarrow> avlHeight n = h \<or> avlHeight n = h - 1)"
proof -
  have d: "\<bar>avlHeight l' - avlHeight r'\<bar> \<le> 2" "\<bar>avlHeight l - avlHeight r\<bar> \<le> 1"
    "h = max (avlHeight l) (avlHeight r) + 1"
    using assms(1,4) by auto
  obtain n where n: "avlRebalance (AvlNode k' v' l' r' h) = Some n" "avl n"
    "inorder n = inorder l' @ (k', v') # inorder r'"
    and hn: "avlHeight n = max (avlHeight l') (avlHeight r') \<or> avlHeight n = max (avlHeight l') (avlHeight r') + 1"
    "\<bar>avlHeight l' - avlHeight r'\<bar> \<le> 1 \<longrightarrow> avlHeight n = max (avlHeight l') (avlHeight r') + 1"
    using avlRebalance_spec [OF assms(2,3) d(1), of k' v' h] by metis
  have "(avlHeight l \<le> avlHeight l' \<and> avlHeight r \<le> avlHeight r' \<longrightarrow> avlHeight n = h \<or> avlHeight n = h + 1) \<and>
    (avlHeight l' \<le> avlHeight l \<and> avlHeight r' \<le> avlHeight r \<longrightarrow> avlHeight n = h \<or> avlHeight n = h - 1)"
    using hn d assms(4) by linarith
  with n show ?thesis by blast
qed

lemma avlInsert_avl:
  "avl n \<Longrightarrow> avlInsert n key v cmp ce ap w = (Ret (n', ins) c, w') \<Longrightarrow>
     avl n' \<and> (avlHeight n' = avlHeight n \<or> avlHeight n' = avlHeight n + 1) \<and>
     avlSize n' = avlSize n + of_bool ins"
proof (induction n arbitrary: n' ins ce c w w')
  case (AvlNode k x l r h)
  from AvlNode.prems(2) obtain ord c1 w1 where cmp: "compareKeys cmp key k ce ap w = (Ret ord c1, w1)"
    and rest: "(if ord = - 1
       then callR (avlInsert l key v cmp c1 ap w1) (\<lambda>_. ce) (\<lambda>(l', inserted) newCe w.
              orPanic (avlRebalance (AvlNode k x l' r h)) w (\<lambda>n. (Ret (n, inserted) newCe, w)))
       else if ord = 1
       then callR (avlInsert r key v cmp c1 ap w1) (\<lambda>_. ce) (\<lambda>(r', inserted) newCe w.
              orPanic (avlRebalance (AvlNode k x l r' h)) w (\<lambda>n. (Ret (n, inserted) newCe, w)))
       else (Ret (AvlNode k v l r h, False) c1, w1)) = (Ret (n', ins) c, w')"
    by (auto simp: callR_Ret_iff)
  consider "ord = - 1" | "ord = 1" | "ord = 0" using compareKeys_range [OF cmp] by blast
  then show ?case
  proof cases
    case 1
    with rest obtain l' c2 w2 where l': "avlInsert l key v cmp c1 ap w1 = (Ret (l', ins) c2, w2)"
      and n': "avlRebalance (AvlNode k x l' r h) = Some n'" by (auto simp: callR_Ret_iff)
    have "avl l'" "avlHeight l' = avlHeight l \<or> avlHeight l' = avlHeight l + 1"
      "avlSize l' = avlSize l + of_bool ins"
      using AvlNode.IH(1) [OF _ l'] AvlNode.prems(1) by auto
    then show ?thesis
      using rebalance_step [OF AvlNode.prems(1), of l' r k x] AvlNode.prems(1) n' by (auto simp: avlSize_inorder)
  next
    case 2
    with rest obtain r' c2 w2 where r': "avlInsert r key v cmp c1 ap w1 = (Ret (r', ins) c2, w2)"
      and n': "avlRebalance (AvlNode k x l r' h) = Some n'" by (auto simp: callR_Ret_iff)
    have "avl r'" "avlHeight r' = avlHeight r \<or> avlHeight r' = avlHeight r + 1"
      "avlSize r' = avlSize r + of_bool ins"
      using AvlNode.IH(2) [OF _ r'] AvlNode.prems(1) by auto
    then show ?thesis
      using rebalance_step [OF AvlNode.prems(1), of l r' k x] AvlNode.prems(1) n' by (auto simp: avlSize_inorder)
  next
    case 3
    then show ?thesis using rest AvlNode.prems(1) by auto
  qed
qed (auto simp: avlNewNode_def)

lemma avlMinNode_Some: "n \<noteq> AvlNil \<Longrightarrow> \<exists>k v r h. avlMinNode n = Some (AvlNode k v AvlNil r h)"
  by (induction n rule: avlMinNode.induct) auto

lemma avlDelete_avl:
  "avl n \<Longrightarrow> avlDelete n key cmp ce ap w = (Ret (n', d) c, w') \<Longrightarrow>
     avl n' \<and> (avlHeight n' = avlHeight n \<or> avlHeight n' = avlHeight n - 1)"
proof (induction n arbitrary: key n' d ce c w w')
  case (AvlNode k x l r h)
  from AvlNode.prems(2) obtain ord c1 w1 where cmp: "compareKeys cmp key k ce ap w = (Ret ord c1, w1)"
    by (auto simp: callR_Ret_iff)
  note del = AvlNode.prems(2) [simplified, unfolded cmp, simplified]
  have ok: "avl l" "avl r" using AvlNode.prems(1) by auto
  have step_l: ?case if l': "avlDelete l key' cmp c2 ap w2 = (Ret (l', d') c3, w3)"
    and n': "avlRebalance (AvlNode k' x' l' r h) = Some n'" for key' l' c2 w2 c3 w3 d' k' x'
    using rebalance_step [OF AvlNode.prems(1), of l' r k' x'] AvlNode.IH(1) [OF ok(1) l'] ok n' by auto
  have step_r: ?case if r': "avlDelete r key' cmp c2 ap w2 = (Ret (r', d') c3, w3)"
    and n': "avlRebalance (AvlNode k' x' l r' h) = Some n'" for key' r' c2 w2 c3 w3 d' k' x'
    using rebalance_step [OF AvlNode.prems(1), of l r' k' x'] AvlNode.IH(2) [OF ok(2) r'] ok n' by auto
  consider "ord = - 1" | "ord = 1" | "ord = 0" using compareKeys_range [OF cmp] by blast
  then show ?case
  proof cases
    case 1
    then show ?thesis using del step_l AvlNode.prems(1) by (auto simp: callR_Ret_iff split: if_splits)
  next
    case 2
    then show ?thesis using del step_r AvlNode.prems(1) by (auto simp: callR_Ret_iff split: if_splits)
  next
    case 3
    show ?thesis
    proof (cases "l = AvlNil \<or> r = AvlNil")
      case True
      then show ?thesis
        using del 3 AvlNode.prems(1) avl_height_nonneg [OF ok(1)] avl_height_nonneg [OF ok(2)]
        by (auto split: if_splits)
    next
      case False
      then show ?thesis using del 3 step_r by (auto simp: callR_Ret_iff split: if_splits)
    qed
  qed
qed simp

section \<open>No operation panics unless the comparator does\<close>

definition cmp_panics :: "applier \<Rightarrow> val \<Rightarrow> world \<Rightarrow> bool" where
  "cmp_panics ap cmp w' \<longleftrightarrow> (\<exists>a b c w. applyNA ap cmp [a, b] c w = (Panic, w'))"

lemma compareKeys_cmp_panics: "compareKeys cmp a b ce ap w = (Panic, w') \<Longrightarrow> cmp_panics ap cmp w'"
  using compareKeys_Panic unfolding cmp_panics_def by blast

lemma orPanic_Panic: "orPanic x w k = (Panic, w') \<longleftrightarrow> x = None \<and> w' = w \<or> (\<exists>a. x = Some a \<and> k a = (Panic, w'))"
  by (cases x) auto

lemma avlInsert_Panic:
  "avl n \<Longrightarrow> avlInsert n key v cmp ce ap w = (Panic, w') \<Longrightarrow> cmp_panics ap cmp w'"
proof (induction n arbitrary: ce w)
  case (AvlNode k x l r h)
  have ok: "avl l" "avl r" using AvlNode.prems(1) by auto
  have rl: "avlRebalance (AvlNode k x l' r h) \<noteq> None" if "avlInsert l key v cmp c1 ap w1 = (Ret (l', i) c2, w2)" for l' c1 w1 c2 w2 i
    using rebalance_step [OF AvlNode.prems(1), of l' r k x] avlInsert_avl [OF ok(1) that] ok by auto
  have rr: "avlRebalance (AvlNode k x l r' h) \<noteq> None" if "avlInsert r key v cmp c1 ap w1 = (Ret (r', i) c2, w2)" for r' c1 w1 c2 w2 i
    using rebalance_step [OF AvlNode.prems(1), of l r' k x] avlInsert_avl [OF ok(2) that] ok by auto
  from AvlNode.prems(2) consider "compareKeys cmp key k ce ap w = (Panic, w')"
    | c1 w1 where "avlInsert l key v cmp c1 ap w1 = (Panic, w')" | c1 w1 where "avlInsert r key v cmp c1 ap w1 = (Panic, w')"
    by (auto simp: callR_Panic_iff orPanic_Panic dest: rl rr split: if_splits)
  then show ?case using AvlNode.IH ok compareKeys_cmp_panics by cases blast+
qed simp

lemma avlLookup_Panic: "avlLookup n key cmp ce ap w = (Panic, w') \<Longrightarrow> cmp_panics ap cmp w'"
proof (induction n arbitrary: ce w)
  case (AvlNode k x l r h)
  then show ?case
    using compareKeys_cmp_panics by (auto simp: callR_Panic_iff split: if_splits)
qed simp

lemma avlDelete_Panic:
  "avl n \<Longrightarrow> avlDelete n key cmp ce ap w = (Panic, w') \<Longrightarrow> cmp_panics ap cmp w'"
proof (induction n arbitrary: key ce w)
  case (AvlNode k x l r h)
  have ok: "avl l" "avl r" using AvlNode.prems(1) by auto
  have rl: False if "avlRebalance (AvlNode k' x' l' r h) = None"
    and "avlDelete l key' cmp c1 ap w1 = (Ret (l', i) c2, w2)" for key' l' c1 w1 c2 w2 i k' x'
    using rebalance_step [OF AvlNode.prems(1), of l' r k' x'] avlDelete_avl [OF ok(1) that(2)] ok that(1) by auto
  have rr: False if "avlRebalance (AvlNode k' x' l r' h) = None"
    and "avlDelete r key' cmp c1 ap w1 = (Ret (r', i) c2, w2)" for key' r' c1 w1 c2 w2 i k' x'
    using rebalance_step [OF AvlNode.prems(1), of l r' k' x'] avlDelete_avl [OF ok(2) that(2)] ok that(1) by auto
  have rl': "\<forall>k' x' l' key' c1 w1 i c2 w2. avlDelete l key' cmp c1 ap w1 = (Ret (l', i) c2, w2) \<longrightarrow>
      avlRebalance (AvlNode k' x' l' r h) \<noteq> None"
    using rl by blast
  have min: "avlMinNode r = None \<Longrightarrow> r = AvlNil" using avlMinNode_Some [of r] by fastforce
  from AvlNode.prems(2) consider "compareKeys cmp key k ce ap w = (Panic, w')"
    | c1 w1 key' where "avlDelete l key' cmp c1 ap w1 = (Panic, w')"
    | c1 w1 key' where "avlDelete r key' cmp c1 ap w1 = (Panic, w')"
    using min rl'
    by (auto simp: callR_Panic_iff orPanic_Panic dest: rl rr split: if_splits) (metis option.distinct(1))
  then show ?case using AvlNode.IH ok compareKeys_cmp_panics by cases blast+
qed simp

section \<open>Building a tree from a sorted slice\<close>

text \<open>The height \<^verbatim>\<open>sortedToAVLRange\<close> gives a range of \<open>d\<close> entries.\<close>

fun rangeHeight :: "nat \<Rightarrow> int" where
  "rangeHeight d = (if d = 0 then 0 else rangeHeight (d div 2) + 1)"

declare rangeHeight.simps [simp del]

lemma rangeHeight_0 [simp]: "rangeHeight 0 = 0"
  by (simp add: rangeHeight.simps)

lemma rangeHeight_step: "0 < d \<Longrightarrow> rangeHeight d = rangeHeight (d div 2) + 1"
  by (subst rangeHeight.simps) simp

lemma rangeHeight_Suc: "rangeHeight d \<le> rangeHeight (Suc d) \<and> rangeHeight (Suc d) \<le> rangeHeight d + 1"
proof (induction d rule: less_induct)
  case (less d)
  show ?case
  proof (cases "d = 0")
    case True
    then show ?thesis by (simp add: rangeHeight_step)
  next
    case False
    consider "Suc d div 2 = d div 2" | "Suc d div 2 = Suc (d div 2)" by linarith
    then show ?thesis using less [of "d div 2"] False by cases (simp_all add: rangeHeight_step)
  qed
qed

text \<open>The left half of a split range has as many entries as the right one, or one more.\<close>

lemma rangeHeight_split:
  assumes "0 < d"
  shows "\<bar>rangeHeight (d div 2) - rangeHeight (d - d div 2 - 1)\<bar> \<le> 1 \<and>
    rangeHeight d = max (rangeHeight (d div 2)) (rangeHeight (d - d div 2 - 1)) + 1"
proof -
  consider "d div 2 = d - d div 2 - 1" | "d div 2 = Suc (d - d div 2 - 1)" using assms by linarith
  then show ?thesis
    using rangeHeight_Suc [of "d - d div 2 - 1"] rangeHeight_step [OF assms] by cases auto
qed

lemma sortedToAVLRange_spec:
  assumes "lo \<le> hi" "hi \<le> length es"
  shows "\<exists>n. sortedToAVLRange es lo hi = Some n \<and> avl n \<and> inorder n = take (hi - lo) (drop lo es) \<and>
    avlHeight n = rangeHeight (hi - lo)"
  using assms
proof (induction es lo hi rule: sortedToAVLRange.induct)
  case (1 es lo hi)
  show ?case
  proof (cases "lo < hi")
    case False
    then show ?thesis using 1 by (subst sortedToAVLRange.simps) simp
  next
    case True
    let ?m = "lo + (hi - lo) div 2"
    have m: "?m < hi" "?m < length es" using True 1(4) by linarith+
    obtain l where l: "sortedToAVLRange es lo ?m = Some l" "avl l" "inorder l = take (?m - lo) (drop lo es)"
      "avlHeight l = rangeHeight (?m - lo)"
      using 1(1) [OF _ refl] True m by fastforce
    obtain r where r: "sortedToAVLRange es (?m + 1) hi = Some r" "avl r"
      "inorder r = take (hi - (?m + 1)) (drop (?m + 1) es)" "avlHeight r = rangeHeight (hi - (?m + 1))"
      using 1(2) [OF _ refl] True m 1(4) l(1) by fastforce
    define n where "n = AvlNode (fst (es ! ?m)) (snd (es ! ?m)) l r (max (avlHeight l) (avlHeight r) + 1)"
    have "sortedToAVLRange es lo hi = Some n"
      using True m l(1) r(1) by (subst sortedToAVLRange.simps) (simp add: Let_def n_def)
    moreover have "hi - (?m + 1) = (hi - lo) - (hi - lo) div 2 - 1" by linarith
    then have "avl n \<and> avlHeight n = rangeHeight (hi - lo)"
      using rangeHeight_split [of "hi - lo"] True l r by (simp add: n_def)
    moreover have "inorder n = take (hi - lo) (drop lo es)"
    proof -
      have "take (hi - lo) (drop lo es) = take (?m - lo) (drop lo es) @ take (hi - ?m) (drop ?m es)"
        using m(1) take_add [of "?m - lo" "hi - ?m" "drop lo es"] by (simp add: add.commute)
      also have "take (hi - ?m) (drop ?m es) = es ! ?m # take (hi - (?m + 1)) (drop (?m + 1) es)"
        using m by (simp add: Cons_nth_drop_Suc [symmetric] take_Cons' Suc_diff_Suc)
      finally show ?thesis using l(3) r(3) by (simp add: n_def)
    qed
    ultimately show ?thesis by blast
  qed
qed

lemma sortedToAVL_spec: "\<exists>n. sortedToAVL es = Some n \<and> avl n \<and> inorder n = es"
  using sortedToAVLRange_spec [of 0 "length es" es] by (auto simp: sortedToAVL_def)

lemma avlCollect_inorder: "avlCollect n out = out @ inorder n"
  by (induction n arbitrary: out) auto

lemma avlToSlice_inorder: "avlToSlice n = inorder n"
  by (cases n) (auto simp: avlToSlice_def avlCollect_inorder)

lemma avlProjectConsRight_consList:
  "(\<And>k v l r h. proj (AvlNode k v l r h) = f (k, v)) \<Longrightarrow>
     avlProjectConsRight n proj (consList acc) = consList (map f (inorder n) @ acc)"
proof (induction n arbitrary: acc)
  case (AvlNode k v l r h)
  have "mkCon ListCons [f (k, v), consList (map f (inorder r) @ acc)] = consList ((f (k, v)) # map f (inorder r) @ acc)"
    by simp
  then show ?case using AvlNode by (simp add: Let_def del: consList.simps)
qed simp

lemma consList_projections:
  "avlToConsList n = consList (map (\<lambda>(k, v). mkPair k v) (inorder n))"
  "avlKeysToConsList n = consList (map fst (inorder n))"
  "avlValsToConsList n = consList (map snd (inorder n))"
  using avlProjectConsRight_consList [where acc = "[]" and n = n]
  by (auto simp: avlToConsList_def avlKeysToConsList_def avlValsToConsList_def avlProjectToConsList_def
      simp del: mkPair_eq)

section \<open>Insertion with a merge function, and maps over the values\<close>

lemma avlInsertWith_avl:
  "avl n \<Longrightarrow> avlInsertWith n key v f cmp ce ap w = (Ret (n', ins) c, w') \<Longrightarrow>
     avl n' \<and> (avlHeight n' = avlHeight n \<or> avlHeight n' = avlHeight n + 1) \<and>
     avlSize n' = avlSize n + of_bool ins"
proof (induction n arbitrary: n' ins ce c w w')
  case (AvlNode k x l r h)
  from AvlNode.prems(2) obtain ord c1 w1 where cmp: "compareKeys cmp key k ce ap w = (Ret ord c1, w1)"
    by (auto simp: callR_Ret_iff)
  note ins = AvlNode.prems(2) [simplified, unfolded cmp, simplified]
  have ok: "avl l" "avl r" using AvlNode.prems(1) by auto
  have step_l: ?case if l': "avlInsertWith l key v f cmp c2 ap w2 = (Ret (l', ins) c3, w3)"
    and n': "avlRebalance (AvlNode k x l' r h) = Some n'" for l' c2 w2 c3 w3
    using rebalance_step [OF AvlNode.prems(1), of l' r k x] AvlNode.IH(1) [OF ok(1) l'] ok n'
    by (auto simp: avlSize_inorder)
  have step_r: ?case if r': "avlInsertWith r key v f cmp c2 ap w2 = (Ret (r', ins) c3, w3)"
    and n': "avlRebalance (AvlNode k x l r' h) = Some n'" for r' c2 w2 c3 w3
    using rebalance_step [OF AvlNode.prems(1), of l r' k x] AvlNode.IH(2) [OF ok(2) r'] ok n'
    by (auto simp: avlSize_inorder)
  consider "ord = - 1" | "ord = 1" | "ord = 0" using compareKeys_range [OF cmp] by blast
  then show ?case
  proof cases
    case 1
    then show ?thesis using ins step_l by (auto simp: callR_Ret_iff)
  next
    case 2
    then show ?thesis using ins step_r by (auto simp: callR_Ret_iff)
  next
    case 3
    then show ?thesis using ins AvlNode.prems(1) by (auto simp: callR_Ret_iff)
  qed
qed (auto simp: avlNewNode_def)

lemma avlMapValues_shape:
  "avlMapValues n f ce ap w = (Ret n' c, w') \<Longrightarrow>
     avlHeight n' = avlHeight n \<and> (avl n' \<longleftrightarrow> avl n) \<and> map fst (inorder n') = map fst (inorder n)"
proof (induction n arbitrary: n' ce c w w')
  case (AvlNode k x l r h)
  from AvlNode.prems obtain l' c1 w1 v c2 w2 r' c3 w3 where
    "avlMapValues l f ce ap w = (Ret l' c1, w1)" "avlMapValues r f c2 ap w2 = (Ret r' c3, w3)"
    "n' = AvlNode k v l' r' h" by (auto simp: callR_Ret_iff)
  then show ?case using AvlNode.IH(1) [of ce w l' c1 w1] AvlNode.IH(2) [of c2 w2 r' c3 w3] by auto
qed simp

lemma avlMapWithKey_shape:
  "avlMapWithKey n f ce ap w = (Ret n' c, w') \<Longrightarrow>
     avlHeight n' = avlHeight n \<and> (avl n' \<longleftrightarrow> avl n) \<and> map fst (inorder n') = map fst (inorder n)"
proof (induction n arbitrary: n' ce c w w')
  case (AvlNode k x l r h)
  from AvlNode.prems obtain l' c1 w1 v c2 w2 r' c3 w3 where
    "avlMapWithKey l f ce ap w = (Ret l' c1, w1)" "avlMapWithKey r f c2 ap w2 = (Ret r' c3, w3)"
    "n' = AvlNode k v l' r' h" by (auto simp: callR_Ret_iff)
  then show ?case using AvlNode.IH(1) [of ce w l' c1 w1] AvlNode.IH(2) [of c2 w2 r' c3 w3] by auto
qed simp

section \<open>Height is logarithmic\<close>

lemma avl_height_log: "avl n \<Longrightarrow> 2 ^ (nat (avlHeight n) div 2) \<le> avlSize n + 1"
proof (induction n)
  case (AvlNode k v l r h)
  then have ok: "avl l" "avl r" by auto
  have hh: "h - 2 \<le> avlHeight l" "h - 2 \<le> avlHeight r" "0 \<le> avlHeight l" "0 \<le> avlHeight r" "1 \<le> h"
    using AvlNode.prems avl_height_nonneg ok by (auto simp: max_def split: if_splits)
  show ?case
  proof (cases "h < 2")
    case True
    have "0 \<le> avlSize l" "0 \<le> avlSize r" by (simp_all add: avlSize_inorder)
    moreover have "nat h div 2 = 0" using True by simp
    ultimately show ?thesis by simp
  next
    case False
    have p: "(2 :: int) ^ (nat (h - 2) div 2) \<le> 2 ^ (nat (avlHeight l) div 2)"
      "(2 :: int) ^ (nat (h - 2) div 2) \<le> 2 ^ (nat (avlHeight r) div 2)"
      using hh by (auto intro!: power_increasing div_le_mono nat_mono)
    have "nat h = nat (h - 2) + 2" using False by simp
    then have "(2 :: int) ^ (nat h div 2) = 2 * 2 ^ (nat (h - 2) div 2)" by simp
    moreover have "2 ^ (nat (avlHeight l) div 2) \<le> avlSize l + 1" "2 ^ (nat (avlHeight r) div 2) \<le> avlSize r + 1"
      using AvlNode.IH ok by auto
    ultimately show ?thesis using p unfolding avlSize.simps avlHeight_simps by linarith
  qed
qed simp

section \<open>Properties\<close>

text \<open>C2: The AVL invariant. Whatever function is passed as comparator (and as merge function), inserting
  into and deleting from a balanced tree with correct stored heights gives such a tree again, and
  the insertion flag tells whether the tree grew by a node.\<close>

theorem avl_invariant_preserved:
  assumes "avl n"
  shows "(avlInsert n key v cmp ce ap w = (Ret (n', ins) c, w') \<longrightarrow> avl n' \<and> avlSize n' = avlSize n + of_bool ins) \<and>
    (avlInsertWith n key v f cmp ce ap w = (Ret (n', ins) c, w') \<longrightarrow> avl n' \<and> avlSize n' = avlSize n + of_bool ins) \<and>
    (avlDelete n key cmp ce ap w = (Ret (n', ins) c, w') \<longrightarrow> avl n')"
  by (auto dest: avlInsert_avl [OF assms] avlInsertWith_avl [OF assms] avlDelete_avl [OF assms])

theorem avl_invariant_preserved_witness:
  "\<exists>n'. avlInsert (AvlNode UnitVal UnitVal AvlNil AvlNil 1) UnitVal UnitVal UnitVal emptyCapEnv
      (applierFrom (\<lambda>f a c w. (Ret (ordVal 1) c, w))) world0 = (Ret (n', True) emptyCapEnv, world0) \<and>
      avl n' \<and> avlSize n' = 2"
proof -
  let ?n = "AvlNode UnitVal UnitVal AvlNil AvlNil 1" and ?ap = "applierFrom (\<lambda>f a c w. (Ret (ordVal 1) c, w))"
  obtain n' where n': "avlInsert ?n UnitVal UnitVal UnitVal emptyCapEnv ?ap world0 = (Ret (n', True) emptyCapEnv, world0)"
    by (simp add: applierFrom_def compareKeys_def ordVal_def mkCon_def avlRebalance_def avlNewNode_def)
  then show ?thesis
    using avl_invariant_preserved [of ?n UnitVal UnitVal UnitVal emptyCapEnv ?ap world0 n' True emptyCapEnv world0] by auto
qed

text \<open>On a tree that satisfies the invariant, insertion and deletion never dereference a nil node: they
  panic only if the comparator itself panics.\<close>

theorem avl_no_nil_dereference:
  assumes "avl n"
    and "avlInsert n key v cmp ce ap w = (Panic, w') \<or> avlDelete n key cmp ce ap w = (Panic, w') \<or>
      avlLookup n key cmp ce ap w = (Panic, w')"
  shows "\<exists>a b c w. applyNA ap cmp [a, b] c w = (Panic, w')"
  using assms(2) avlInsert_Panic [OF assms(1), of key v cmp ce ap w w'] avlDelete_Panic [OF assms(1), of key cmp ce ap w w']
    avlLookup_Panic [of n key cmp ce ap w w'] unfolding cmp_panics_def by argo

theorem avl_no_nil_dereference_witness:
  "\<exists>a b c w. applyNA (applierFrom (\<lambda>_ _ _ w. (Panic, w))) UnitVal [a, b] c w = (Panic, world0)"
  by (rule avl_no_nil_dereference [of "AvlNode UnitVal UnitVal AvlNil AvlNil 1" UnitVal UnitVal UnitVal emptyCapEnv])
    (simp_all add: applierFrom_def compareKeys_def)

text \<open>A tree that satisfies the invariant with \<open>m\<close> entries has height at most about \<open>2 log m\<close>:
  \<open>2^(h/2) \<le> m + 1\<close>, which bounds the comparisons of every search path.\<close>

theorem avl_height_logarithmic:
  assumes "avl n"
  shows "2 ^ (nat (avlHeight n) div 2) \<le> avlSize n + 1"
  using assms by (rule avl_height_log)

theorem avl_height_logarithmic_witness:
  "avl (AvlNode UnitVal UnitVal AvlNil AvlNil 1) \<and>
   2 ^ (nat (avlHeight (AvlNode UnitVal UnitVal AvlNil AvlNil 1)) div 2) \<le> avlSize (AvlNode UnitVal UnitVal AvlNil AvlNil 1) + 1"
  using avl_height_logarithmic [of "AvlNode UnitVal UnitVal AvlNil AvlNil 1"] by simp

text \<open>Building a tree from a slice never fails, gives a balanced tree, and its in-order traversal is
  the slice again; the list primitives enumerate the entries in that order.\<close>

theorem sortedToAVL_roundtrip:
  "\<exists>n. sortedToAVL es = Some n \<and> avl n \<and> avlToSlice n = es \<and> avlSize n = int (length es) \<and>
    collectList (avlKeysToConsList n) = Some (map fst es)"
  using sortedToAVL_spec [of es]
  by (auto simp: avlToSlice_inorder avlSize_inorder consList_projections collectList_of_consList)

end
