(* ===== verification/Avl_Order.thy ===== *)
theory Avl_Order
  imports Avl_Balance
begin

text \<open>
  What the AVL operations compute when the comparator is an order on the keys. \<open>key_order\<close> is the
  contract the tree code relies on: on keys of the carrier, a comparison that returns answers the
  order of their ranks. \<open>total_key_order\<close> adds that it does return, \<open>pure_key_order\<close> that it leaves
  capabilities and world alone. The operations are related to functions on association lists sorted
  by rank, through the in-order traversal. \<open>intKeys\<close> instantiates all three contracts with the
  primitive \<^verbatim>\<open>_cmpInt\<close>, called through the machine's own applier, which is what \<^verbatim>\<open>compare\<close> is for \<open>Int\<close>.
\<close>

section \<open>Association lists sorted by rank\<close>

fun updBy :: "('k \<Rightarrow> 'o :: linorder) \<Rightarrow> 'k \<Rightarrow> 'v \<Rightarrow> ('k \<times> 'v) list \<Rightarrow> ('k \<times> 'v) list" where
  "updBy rk k v [] = [(k, v)]"
| "updBy rk k v ((k', v') # xs) =
     (if rk k < rk k' then (k, v) # (k', v') # xs
      else if rk k = rk k' then (k', v) # xs
      else (k', v') # updBy rk k v xs)"

fun delBy :: "('k \<Rightarrow> 'o :: linorder) \<Rightarrow> 'k \<Rightarrow> ('k \<times> 'v) list \<Rightarrow> ('k \<times> 'v) list" where
  "delBy rk k [] = []"
| "delBy rk k ((k', v') # xs) = (if rk k = rk k' then xs else (k', v') # delBy rk k xs)"

fun lookupBy :: "('k \<Rightarrow> 'o :: linorder) \<Rightarrow> 'k \<Rightarrow> ('k \<times> 'v) list \<Rightarrow> 'v option" where
  "lookupBy rk k [] = None"
| "lookupBy rk k ((k', v') # xs) = (if rk k = rk k' then Some v' else lookupBy rk k xs)"

definition sortedBy :: "('k \<Rightarrow> 'o :: linorder) \<Rightarrow> ('k \<times> 'v) list \<Rightarrow> bool" where
  "sortedBy rk xs \<longleftrightarrow> sorted_wrt (<) (map (rk \<circ> fst) xs)"

definition bst :: "(val \<Rightarrow> 'o :: linorder) \<Rightarrow> tree \<Rightarrow> bool" where
  "bst rk n \<longleftrightarrow> sortedBy rk (inorder n)"

definition keysIn :: "(val \<Rightarrow> bool) \<Rightarrow> avlEntry list \<Rightarrow> bool" where
  "keysIn K xs \<longleftrightarrow> (\<forall>(k, v) \<in> set xs. K k)"

lemma sortedBy_simps [simp]:
  "sortedBy rk []" "sortedBy rk ((k, v) # xs) \<longleftrightarrow> (\<forall>x \<in> set xs. rk k < rk (fst x)) \<and> sortedBy rk xs"
  "sortedBy rk (xs @ (k, v) # ys) \<longleftrightarrow> sortedBy rk xs \<and> sortedBy rk ys \<and>
     (\<forall>x \<in> set xs. rk (fst x) < rk k) \<and> (\<forall>y \<in> set ys. rk k < rk (fst y)) \<and>
     (\<forall>x \<in> set xs. \<forall>y \<in> set ys. rk (fst x) < rk (fst y))"
  by (auto simp: sortedBy_def sorted_wrt_append)

lemma sortedBy_append [simp]:
  "sortedBy rk (xs @ ys) \<longleftrightarrow> sortedBy rk xs \<and> sortedBy rk ys \<and> (\<forall>x \<in> set xs. \<forall>y \<in> set ys. rk (fst x) < rk (fst y))"
  by (auto simp: sortedBy_def sorted_wrt_append)

lemma keysIn_simps [simp]:
  "keysIn K []" "keysIn K ((k, v) # xs) \<longleftrightarrow> K k \<and> keysIn K xs" "keysIn K (xs @ ys) \<longleftrightarrow> keysIn K xs \<and> keysIn K ys"
  by (auto simp: keysIn_def)

lemma updBy_split:
  assumes "sortedBy rk (xs @ (a, b) # ys)"
  shows "updBy rk k v (xs @ (a, b) # ys) =
    (if rk k < rk a then updBy rk k v xs @ (a, b) # ys
     else if rk k = rk a then xs @ (a, v) # ys else xs @ (a, b) # updBy rk k v ys)"
  using assms by (induction xs) auto

lemma lookupBy_not_in: "\<forall>x \<in> set xs. rk (fst x) \<noteq> rk k \<Longrightarrow> lookupBy rk k xs = None"
  by (induction xs) auto

lemma lookupBy_append: "lookupBy rk k (xs @ ys) = (case lookupBy rk k xs of None \<Rightarrow> lookupBy rk k ys | Some v \<Rightarrow> Some v)"
  by (induction xs) auto

lemma lookupBy_split:
  assumes "sortedBy rk (xs @ (a, b) # ys)"
  shows "lookupBy rk k (xs @ (a, b) # ys) =
    (if rk k < rk a then lookupBy rk k xs else if rk k = rk a then Some b else lookupBy rk k ys)"
proof -
  have "lookupBy rk k ys = None" if "rk k < rk a"
    using that assms by (intro lookupBy_not_in) (auto dest: less_trans)
  moreover have "lookupBy rk k xs = None" if "\<not> rk k < rk a"
    using that assms by (intro lookupBy_not_in) auto
  ultimately show ?thesis by (auto simp: lookupBy_append split: option.splits)
qed

lemma delBy_not_in: "lookupBy rk k xs = None \<Longrightarrow> delBy rk k xs = xs"
  by (induction xs) (auto split: if_splits)

lemma delBy_append:
  "delBy rk k (xs @ ys) = (if lookupBy rk k xs = None then xs @ delBy rk k ys else delBy rk k xs @ ys)"
  by (induction xs) auto

lemma delBy_split:
  assumes "sortedBy rk (xs @ (a, b) # ys)"
  shows "delBy rk k (xs @ (a, b) # ys) =
    (if rk k < rk a then delBy rk k xs @ (a, b) # ys
     else if rk k = rk a then xs @ ys else xs @ (a, b) # delBy rk k ys)"
proof -
  have "lookupBy rk k ys = None" if "rk k < rk a"
    using that assms by (intro lookupBy_not_in) (auto dest: less_trans)
  moreover have "lookupBy rk k xs = None" if "\<not> rk k < rk a"
    using that assms by (intro lookupBy_not_in) auto
  ultimately show ?thesis by (auto simp: delBy_append delBy_not_in)
qed

lemma updBy_mem: "x \<in> set (updBy rk k v xs) \<Longrightarrow> fst x = k \<or> (\<exists>y \<in> set xs. fst x = fst y)"
  by (induction xs) (auto split: if_splits)

lemma sortedBy_updBy: "sortedBy rk xs \<Longrightarrow> sortedBy rk (updBy rk k v xs)"
proof (induction xs)
  case (Cons x xs)
  obtain k' v' where x: "x = (k', v')" by fastforce
  have "rk k' < rk (fst y)" if "y \<in> set (updBy rk k v xs)" "rk k' < rk k" for y
    using updBy_mem [OF that(1)] that(2) Cons.prems x by auto
  then show ?case using Cons x by (auto intro: less_trans)
qed simp

lemma keysIn_updBy: "keysIn K xs \<Longrightarrow> K k \<Longrightarrow> keysIn K (updBy rk k v xs)"
  by (induction xs) (auto simp: keysIn_def split: if_splits)

lemma set_delBy: "set (delBy rk k xs) \<subseteq> set xs"
  by (induction xs) (auto split: if_splits)

lemma sortedBy_delBy: "sortedBy rk xs \<Longrightarrow> sortedBy rk (delBy rk k xs)"
proof (induction xs)
  case (Cons x xs)
  then show ?case using set_delBy [of rk k xs] by (cases x) auto
qed simp

lemma keysIn_delBy: "keysIn K xs \<Longrightarrow> keysIn K (delBy rk k xs)"
  using set_delBy [of rk k xs] by (auto simp: keysIn_def)

lemma lookupBy_updBy:
  "sortedBy rk xs \<Longrightarrow> lookupBy rk k' (updBy rk k v xs) = (if rk k' = rk k then Some v else lookupBy rk k' xs)"
  by (induction xs) auto

lemma lookupBy_delBy:
  "sortedBy rk xs \<Longrightarrow> lookupBy rk k' (delBy rk k xs) = (if rk k' = rk k then None else lookupBy rk k' xs)"
proof (induction xs)
  case (Cons x xs)
  have "lookupBy rk k' xs = None" if "rk k' = rk (fst x)"
    using that Cons.prems by (cases x, intro lookupBy_not_in) auto
  then show ?case using Cons by (cases x) auto
qed simp

lemma length_updBy: "length (updBy rk k v xs) = length xs + of_bool (lookupBy rk k xs = None)" if "sortedBy rk xs"
  using that
proof (induction xs)
  case (Cons x xs)
  have "lookupBy rk k xs = None" if "rk k < rk (fst x)"
    using that Cons.prems by (cases x, intro lookupBy_not_in) (auto dest: less_trans)
  then show ?case using Cons by (cases x) auto
qed simp

lemma length_delBy: "length xs = length (delBy rk k xs) + of_bool (lookupBy rk k xs \<noteq> None)"
  by (induction xs) (auto split: if_splits)

section \<open>Merging sorted lists\<close>

definition keepIf :: "mergeOp \<Rightarrow> 'a \<Rightarrow> 'a list \<Rightarrow> 'a list" where
  "keepIf p x xs = (if p = MergeKeep then x # xs else xs)"

fun mergeBy :: "('k \<Rightarrow> 'o :: linorder) \<Rightarrow> mergeOp \<Rightarrow> mergeOp \<Rightarrow> mergeOp \<Rightarrow> ('k \<times> 'v) list \<Rightarrow> ('k \<times> 'v) list \<Rightarrow>
    ('k \<times> 'v) list" where
  "mergeBy rk L R B ((a, x) # as) ((b, y) # bs) =
     (if rk a < rk b then keepIf L (a, x) (mergeBy rk L R B as ((b, y) # bs))
      else if rk b < rk a then keepIf R (b, y) (mergeBy rk L R B ((a, x) # as) bs)
      else keepIf B (a, x) (mergeBy rk L R B as bs))"
| "mergeBy rk L R B as bs = (if L = MergeKeep then as else []) @ (if R = MergeKeep then bs else [])"

lemma set_mergeBy: "set (mergeBy rk L R B as bs) \<subseteq> set as \<union> set bs"
  by (induction rk L R B as bs rule: mergeBy.induct) (auto simp: keepIf_def split: if_splits)

lemma mergeBy_mem: "x \<in> set (mergeBy rk L R B as bs) \<Longrightarrow> x \<in> set as \<or> x \<in> set bs"
  using set_mergeBy by fastforce

lemma mergeBy_lb:
  "\<forall>x \<in> set as. r < rk (fst x) \<Longrightarrow> \<forall>x \<in> set bs. r < rk (fst x) \<Longrightarrow> \<forall>x \<in> set (mergeBy rk L R B as bs). r < rk (fst x)"
  by (auto dest: mergeBy_mem)

lemma sortedBy_keepIf:
  "sortedBy rk xs \<Longrightarrow> \<forall>x \<in> set xs. rk k < rk (fst x) \<Longrightarrow> sortedBy rk (keepIf p (k, v) xs)"
  by (simp add: keepIf_def)

lemma sortedBy_mergeBy: "sortedBy rk as \<Longrightarrow> sortedBy rk bs \<Longrightarrow> sortedBy rk (mergeBy rk L R B as bs)"
proof (induction rk L R B as bs rule: mergeBy.induct)
  case (1 rk L R B a x as b y bs)
  show ?case
  proof (cases "rk a" "rk b" rule: linorder_cases)
    case less
    have "\<forall>z \<in> set (mergeBy rk L R B as ((b, y) # bs)). rk a < rk (fst z)"
      using 1(4,5) less by (intro mergeBy_lb) (auto dest: less_trans)
    then show ?thesis using 1 less by (simp add: sortedBy_keepIf)
  next
    case equal
    have "\<forall>z \<in> set (mergeBy rk L R B as bs). rk a < rk (fst z)"
      using 1(4,5) equal by (intro mergeBy_lb) auto
    then show ?thesis using 1 equal by (simp add: sortedBy_keepIf)
  next
    case greater
    have "\<forall>z \<in> set (mergeBy rk L R B ((a, x) # as) bs). rk b < rk (fst z)"
      using 1(4,5) greater by (intro mergeBy_lb) (auto dest: less_trans)
    then show ?thesis using 1 greater by (simp add: sortedBy_keepIf order.asym)
  qed
qed auto

lemma keysIn_mergeBy: "keysIn K as \<Longrightarrow> keysIn K bs \<Longrightarrow> keysIn K (mergeBy rk L R B as bs)"
  by (auto simp: keysIn_def dest: mergeBy_mem)

text \<open>The table of a merge: which entry survives for each key.\<close>

definition joinOpt :: "mergeOp \<Rightarrow> mergeOp \<Rightarrow> mergeOp \<Rightarrow> 'v option \<Rightarrow> 'v option \<Rightarrow> 'v option" where
  "joinOpt L R B x y =
     (case x of
        Some v \<Rightarrow> if (if y = None then L else B) = MergeKeep then Some v else None
      | None \<Rightarrow> if R = MergeKeep then y else None)"

lemma lookupBy_keepIf:
  "lookupBy rk k (keepIf p (k', v) xs) = (if p = MergeKeep \<and> rk k = rk k' then Some v else lookupBy rk k xs)"
  by (simp add: keepIf_def)

lemma lookupBy_gt: "\<forall>x \<in> set xs. rk k < rk (fst x) \<Longrightarrow> lookupBy rk k xs = None"
  by (rule lookupBy_not_in) auto

lemma lookupBy_mergeBy:
  "sortedBy rk as \<Longrightarrow> sortedBy rk bs \<Longrightarrow>
     lookupBy rk k (mergeBy rk L R B as bs) = joinOpt L R B (lookupBy rk k as) (lookupBy rk k bs)"
proof (induction rk L R B as bs rule: mergeBy.induct)
  case (1 rk L R B a x as b y bs)
  have na: "rk k = rk a \<Longrightarrow> lookupBy rk k as = None" and nb: "rk k = rk b \<Longrightarrow> lookupBy rk k bs = None"
    using 1(4,5) by (auto intro!: lookupBy_gt)
  show ?case
  proof (cases "rk a" "rk b" rule: linorder_cases)
    case less
    then have "rk k = rk a \<Longrightarrow> lookupBy rk k ((b, y) # bs) = None"
      using 1(5) by (intro lookupBy_gt) (auto dest: less_trans)
    then show ?thesis using 1(1) [OF less] 1(4,5) less na by (auto simp: lookupBy_keepIf joinOpt_def)
  next
    case equal
    then show ?thesis using 1(3) 1(4,5) na nb by (auto simp: lookupBy_keepIf joinOpt_def)
  next
    case greater
    then have "rk k = rk b \<Longrightarrow> lookupBy rk k ((a, x) # as) = None"
      using 1(4) by (intro lookupBy_gt) (auto dest: less_trans)
    then show ?thesis
      using 1(2) [OF _ greater] 1(4,5) greater nb order.asym [OF greater]
      by (auto simp: lookupBy_keepIf joinOpt_def)
  qed
qed (auto simp: joinOpt_def split: option.splits)

section \<open>Rebalancing keeps the entries\<close>

lemma avlRotateRight_inorder: "avlRotateRight n = Some n' \<Longrightarrow> inorder n' = inorder n"
  by (cases n rule: avlRotateRight.cases) auto

lemma avlRotateLeft_inorder: "avlRotateLeft n = Some n' \<Longrightarrow> inorder n' = inorder n"
  by (cases n rule: avlRotateLeft.cases) auto

lemma avlRebalance_inorder: "avlRebalance n = Some n' \<Longrightarrow> inorder n' = inorder n"
  by (cases n) (auto simp: avlRebalance_def Let_def bind_eq_Some_conv split: if_splits
      dest!: avlRotateRight_inorder avlRotateLeft_inorder)

lemma avlMinNode_inorder: "avlMinNode n = Some m \<Longrightarrow> \<exists>xs. inorder n = (akey m, aval m) # xs"
proof (induction n rule: avlMinNode.induct)
  case (3 k v lk lv ll lr lh r h)
  then obtain xs where "inorder (AvlNode lk lv ll lr lh) = (akey m, aval m) # xs" by auto
  then show ?case by (metis append_Cons inorder.simps(2))
qed auto

section \<open>Operations under an ordering comparator\<close>

locale key_order =
  fixes ap :: applier and cmp :: val and K :: "val \<Rightarrow> bool" and rk :: "val \<Rightarrow> 'o :: linorder"
  assumes cmp_sound: "K a \<Longrightarrow> K b \<Longrightarrow> applyNA ap cmp [a, b] c w = (Ret v c', w') \<Longrightarrow>
    \<exists>args d n. v = ConVal (if rk a < rk b then OrderLT else if rk a = rk b then OrderEQ else OrderGT) args d n"
begin

lemma compareKeys_rank:
  assumes "compareKeys cmp a b c ap w = (Ret ord c', w')" "K a" "K b"
  shows "ord = (if rk a < rk b then - 1 else if rk a = rk b then 0 else 1)"
  using assms cmp_sound [of a b c w] by (fastforce simp: compareKeys_Ret_iff split: if_splits)

text \<open>The three outcomes of the comparison at a node, for the case analyses below.\<close>

lemma compareKeys_cases:
  assumes "compareKeys cmp a b c ap w = (Ret ord c', w')" "K a" "K b"
  obtains "ord = - 1" "rk a < rk b" | "ord = 1" "rk b < rk a" | "ord = 0" "rk a = rk b"
  using compareKeys_rank [OF assms]
  by (cases "rk a" "rk b" rule: linorder_cases) (simp_all add: order.asym less_imp_neq [symmetric] that)

lemma insert_inorder:
  "bst rk n \<Longrightarrow> keysIn K (inorder n) \<Longrightarrow> K key \<Longrightarrow> avlInsert n key v cmp c ap w = (Ret (n', ins) c', w') \<Longrightarrow>
     inorder n' = updBy rk key v (inorder n) \<and> (ins \<longleftrightarrow> lookupBy rk key (inorder n) = None)"
proof (induction n arbitrary: n' ins c c' w w')
  case (AvlNode k x l r h)
  obtain ord c1 w1 where cmp: "compareKeys cmp key k c ap w = (Ret ord c1, w1)"
    using AvlNode.prems(4) by (auto simp: callR_Ret_iff)
  note step = AvlNode.prems(4) [simplified, unfolded cmp, simplified]
  have ok: "bst rk l" "bst rk r" "keysIn K (inorder l)" "keysIn K (inorder r)" "K k"
    and st: "sortedBy rk (inorder l @ (k, x) # inorder r)"
    using AvlNode.prems by (auto simp: bst_def)
  from cmp AvlNode.prems(3) ok(5) show ?case
  proof (cases rule: compareKeys_cases)
    case 1
    then obtain l' c2 w2 where l': "avlInsert l key v cmp c1 ap w1 = (Ret (l', ins) c2, w2)"
      and n': "avlRebalance (AvlNode k x l' r h) = Some n'" using step by (auto simp: callR_Ret_iff)
    show ?thesis
      using AvlNode.IH(1) [OF ok(1,3) AvlNode.prems(3) l'] avlRebalance_inorder [OF n'] 1
      by (simp add: updBy_split [OF st] lookupBy_split [OF st])
  next
    case 2
    then obtain r' c2 w2 where r': "avlInsert r key v cmp c1 ap w1 = (Ret (r', ins) c2, w2)"
      and n': "avlRebalance (AvlNode k x l r' h) = Some n'" using step by (auto simp: callR_Ret_iff)
    show ?thesis
      using AvlNode.IH(2) [OF ok(2,4) AvlNode.prems(3) r'] avlRebalance_inorder [OF n'] 2 order.asym [OF 2(2)]
      by (auto simp: updBy_split [OF st] lookupBy_split [OF st])
  next
    case 3
    then show ?thesis using step updBy_split [OF st] lookupBy_split [OF st] by auto
  qed
qed (auto simp: avlNewNode_def)

lemma lookup_inorder:
  "bst rk n \<Longrightarrow> keysIn K (inorder n) \<Longrightarrow> K key \<Longrightarrow> avlLookup n key cmp c ap w = (Ret res c', w') \<Longrightarrow>
     res = lookupBy rk key (inorder n)"
proof (induction n arbitrary: c c' w w')
  case (AvlNode k x l r h)
  obtain ord c1 w1 where cmp: "compareKeys cmp key k c ap w = (Ret ord c1, w1)"
    using AvlNode.prems(4) by (auto simp: callR_Ret_iff)
  have ok: "bst rk l" "bst rk r" "keysIn K (inorder l)" "keysIn K (inorder r)" "K k"
    and st: "sortedBy rk (inorder l @ (k, x) # inorder r)"
    using AvlNode.prems by (auto simp: bst_def)
  from cmp AvlNode.prems(3) ok(5) show ?case
    by (cases rule: compareKeys_cases)
      (use AvlNode.prems(4) cmp lookupBy_split [OF st] AvlNode.IH(1) [OF ok(1,3) AvlNode.prems(3)]
        AvlNode.IH(2) [OF ok(2,4) AvlNode.prems(3)] in auto)
qed simp

lemma delete_inorder:
  "bst rk n \<Longrightarrow> keysIn K (inorder n) \<Longrightarrow> K key \<Longrightarrow> avlDelete n key cmp c ap w = (Ret (n', d) c', w') \<Longrightarrow>
     inorder n' = delBy rk key (inorder n) \<and> (d \<longleftrightarrow> lookupBy rk key (inorder n) \<noteq> None)"
proof (induction n arbitrary: key n' d c c' w w')
  case (AvlNode k x l r h)
  obtain ord c1 w1 where cmp: "compareKeys cmp key k c ap w = (Ret ord c1, w1)"
    using AvlNode.prems(4) by (auto simp: callR_Ret_iff)
  note step = AvlNode.prems(4) [simplified, unfolded cmp, simplified]
  have ok: "bst rk l" "bst rk r" "keysIn K (inorder l)" "keysIn K (inorder r)" "K k"
    and st: "sortedBy rk (inorder l @ (k, x) # inorder r)"
    using AvlNode.prems by (auto simp: bst_def)
  note split = delBy_split [OF st] lookupBy_split [OF st]
  from cmp AvlNode.prems(3) ok(5) show ?case
  proof (cases rule: compareKeys_cases)
    case 1
    then obtain l' d' c2 w2 where l': "avlDelete l key cmp c1 ap w1 = (Ret (l', d') c2, w2)"
      and n': "if d' then avlRebalance (AvlNode k x l' r h) = Some n' \<and> d else n' = AvlNode k x l r h \<and> \<not> d"
      using step by (auto simp: callR_Ret_iff split: if_splits)
    show ?thesis
      using n' 1(2) AvlNode.IH(1) [OF ok(1,3) AvlNode.prems(3) l'] delBy_not_in [of rk key "inorder l"]
      by (auto simp: split split: if_splits dest!: avlRebalance_inorder)
  next
    case 2
    then obtain r' d' c2 w2 where r': "avlDelete r key cmp c1 ap w1 = (Ret (r', d') c2, w2)"
      and n': "if d' then avlRebalance (AvlNode k x l r' h) = Some n' \<and> d else n' = AvlNode k x l r h \<and> \<not> d"
      using step by (auto simp: callR_Ret_iff split: if_splits)
    show ?thesis
      using n' 2(2) order.asym [OF 2(2)] AvlNode.IH(2) [OF ok(2,4) AvlNode.prems(3) r'] delBy_not_in [of rk key "inorder r"]
      by (auto simp: split split: if_splits dest!: avlRebalance_inorder)
  next
    case 3
    show ?thesis
    proof (cases "l = AvlNil \<or> r = AvlNil")
      case True
      then show ?thesis using 3 step split by (auto split: if_splits)
    next
      case False
      then obtain m r' d' c2 w2 where m: "avlMinNode r = Some m"
        and r': "avlDelete r (akey m) cmp c1 ap w1 = (Ret (r', d') c2, w2)"
        and n': "avlRebalance (AvlNode (akey m) (aval m) l r' h) = Some n'" "d"
        using 3 step by (cases "avlMinNode r") (auto simp: callR_Ret_iff)
      obtain xs where xs: "inorder r = (akey m, aval m) # xs" using avlMinNode_inorder [OF m] by blast
      then have "inorder r' = xs"
        using AvlNode.IH(2) [OF ok(2,4) _ r'] ok(4) by simp
      then show ?thesis using 3 split xs avlRebalance_inorder [OF n'(1)] n'(2) by simp
    qed
  qed
qed simp

lemma merge_refines:
  "keysIn K as \<Longrightarrow> keysIn K bs \<Longrightarrow> avlMergeSorted as bs out cmp c ap L R B w = (Ret res c', w') \<Longrightarrow>
     res = out @ mergeBy rk L R B as bs"
proof (induction as arbitrary: bs out c w)
  case (Cons a as)
  note outer = Cons.IH
  obtain ak av where a: "a = (ak, av)" by fastforce
  show ?case using Cons.prems
  proof (induction bs arbitrary: out c w)
    case (Cons b bs)
    obtain bk bv where b: "b = (bk, bv)" by fastforce
    obtain ord c1 w1 where cmp: "compareKeys cmp ak bk c ap w = (Ret ord c1, w1)"
      using Cons.prems(3) a b by (auto simp: callR_Ret_iff)
    have K: "K ak" "K bk" using Cons.prems a b by auto
    note step = Cons.prems(3) [unfolded a b, simplified, unfolded cmp, simplified]
    from cmp K show ?case
    proof (cases rule: compareKeys_cases)
      case 1
      then show ?thesis
        using step outer [of "(bk, bv) # bs" "if L = MergeKeep then out @ [(ak, av)] else out" c1 w1] Cons.prems(1,2) a b by (auto simp: keepIf_def split: if_splits)
    next
      case 2
      then show ?thesis
        using step Cons.IH [of "if R = MergeKeep then out @ [(bk, bv)] else out" c1 w1] Cons.prems(1,2) a b order.asym [OF 2(2)]
        by (auto simp: keepIf_def split: if_splits)
    next
      case 3
      then show ?thesis
        using step outer [of bs "if B = MergeKeep then out @ [(ak, av)] else out" c1 w1] Cons.prems(1,2) a b
        by (auto simp: keepIf_def split: if_splits)
    qed
  qed (auto simp: Let_def)
qed (auto simp: Let_def split: if_splits)

end

section \<open>Comparators that always return\<close>

locale total_key_order = key_order +
  assumes cmp_total: "K a \<Longrightarrow> K b \<Longrightarrow> returns (applyNA ap cmp [a, b] c w)"
begin

lemma compareKeys_returns: "K a \<Longrightarrow> K b \<Longrightarrow> returns (compareKeys cmp a b c ap w)"
  using cmp_total [of a b c w] cmp_sound [of a b c w] unfolding returns_def
  by (fastforce simp: compareKeys_Ret_iff)

lemma insert_returns:
  "avl n \<Longrightarrow> keysIn K (inorder n) \<Longrightarrow> K key \<Longrightarrow> returns (avlInsert n key v cmp c ap w)"
proof (induction n arbitrary: c w)
  case (AvlNode k x l r h)
  have ok: "avl l" "avl r" "keysIn K (inorder l)" "keysIn K (inorder r)" "K k" using AvlNode.prems by auto
  have "returns (orPanic (avlRebalance (AvlNode k x l' r h)) w2 (\<lambda>n. (Ret (n, i) c2, w2)))"
    if "avlInsert l key v cmp c1 ap w1 = (Ret (l', i) c2, w2)" for c1 w1 l' i c2 w2
    using rebalance_step [OF AvlNode.prems(1), of l' r k x] avlInsert_avl [OF ok(1) that] ok by auto
  moreover have "returns (orPanic (avlRebalance (AvlNode k x l r' h)) w2 (\<lambda>n. (Ret (n, i) c2, w2)))"
    if "avlInsert r key v cmp c1 ap w1 = (Ret (r', i) c2, w2)" for c1 w1 r' i c2 w2
    using rebalance_step [OF AvlNode.prems(1), of l r' k x] avlInsert_avl [OF ok(2) that] ok by auto
  ultimately show ?case
    using compareKeys_returns [OF AvlNode.prems(3) ok(5)] AvlNode.IH(1) [OF ok(1,3) AvlNode.prems(3)]
      AvlNode.IH(2) [OF ok(2,4) AvlNode.prems(3)]
    by (auto intro!: returns_callR)
qed simp

lemma lookup_returns: "keysIn K (inorder n) \<Longrightarrow> K key \<Longrightarrow> returns (avlLookup n key cmp c ap w)"
proof (induction n arbitrary: c w)
  case (AvlNode k x l r h)
  then show ?case using compareKeys_returns [of key k] by (auto intro!: returns_callR)
qed simp

lemma delete_returns:
  "avl n \<Longrightarrow> keysIn K (inorder n) \<Longrightarrow> K key \<Longrightarrow> returns (avlDelete n key cmp c ap w)"
proof (induction n arbitrary: key c w)
  case (AvlNode k x l r h)
  have ok: "avl l" "avl r" "keysIn K (inorder l)" "keysIn K (inorder r)" "K k" using AvlNode.prems by auto
  have rl: "returns (orPanic (avlRebalance (AvlNode k' x' l' r h)) w2 (\<lambda>n. (Ret (n, True) c2, w2)))"
    if "avlDelete l key' cmp c1 ap w1 = (Ret (l', i) c2, w2)" for key' k' x' c1 w1 l' i c2 w2
    using rebalance_step [OF AvlNode.prems(1), of l' r k' x'] avlDelete_avl [OF ok(1) that] ok by auto
  have rr: "returns (orPanic (avlRebalance (AvlNode k' x' l r' h)) w2 (\<lambda>n. (Ret (n, True) c2, w2)))"
    if "avlDelete r key' cmp c1 ap w1 = (Ret (r', i) c2, w2)" for key' k' x' c1 w1 r' i c2 w2
    using rebalance_step [OF AvlNode.prems(1), of l r' k' x'] avlDelete_avl [OF ok(2) that] ok by auto
  define lnil rnil where nils: "lnil \<longleftrightarrow> l = AvlNil" "rnil \<longleftrightarrow> r = AvlNil"
  have min: "\<exists>m. avlMinNode r = Some m \<and> K (akey m)" if "\<not> rnil"
    using avlMinNode_Some [of r] avlMinNode_inorder [of r] ok(4) that nils(2) by fastforce
  have "returns (avlDelete l key' cmp c1 ap w1)" "returns (avlDelete r key' cmp c1 ap w1)" if "K key'" for key' c1 w1
    using AvlNode.IH ok that by auto
  then show ?case
    using compareKeys_returns [OF AvlNode.prems(3) ok(5), of c w] AvlNode.prems(3) min
    unfolding avlDelete.simps nils [symmetric]
    by (auto intro!: returns_callR rl rr)
qed simp

lemma merge_returns:
  "keysIn K as \<Longrightarrow> keysIn K bs \<Longrightarrow> returns (avlMergeSorted as bs out cmp c ap L R B w)"
proof (induction as arbitrary: bs out c w)
  case (Cons a as)
  note outer = Cons.IH
  show ?case using Cons.prems
  proof (induction bs arbitrary: out c w)
    case (Cons b bs)
    then have K: "K (fst a)" "K (fst b)" "keysIn K as" "keysIn K (b # bs)" by (auto simp: keysIn_def)
    then show ?case
      using compareKeys_returns [OF K(1,2)] outer Cons.IH Cons.prems
      by (auto simp: keysIn_def intro!: returns_callR)
  qed (auto simp: Let_def)
qed (auto simp: Let_def)

end

section \<open>Comparators without effects\<close>

locale pure_key_order = total_key_order +
  assumes cmp_pure: "applyNA ap cmp [a, b] c w = (Ret v c', w') \<Longrightarrow> c' = c \<and> w' = w"
begin

lemma compareKeys_pure: "compareKeys cmp a b c ap w = (Ret ord c', w') \<Longrightarrow> c' = c \<and> w' = w"
  using cmp_pure by (auto simp: compareKeys_Ret_iff)

lemma insert_pure: "avlInsert n key v cmp c ap w = (Ret res c', w') \<Longrightarrow> c' = c \<and> w' = w"
proof (induction n arbitrary: res c w)
  case (AvlNode k x l r h)
  then obtain ord c1 w1 where cmp: "compareKeys cmp key k c ap w = (Ret ord c1, w1)" by (auto simp: callR_Ret_iff)
  then have "c1 = c" "w1 = w" using compareKeys_pure by auto
  then show ?case using AvlNode cmp by (auto simp: callR_Ret_iff split: if_splits)
qed simp

lemma delete_pure: "avlDelete n key cmp c ap w = (Ret res c', w') \<Longrightarrow> c' = c \<and> w' = w"
proof (induction n arbitrary: key res c w)
  case (AvlNode k x l r h)
  then obtain ord c1 w1 where cmp: "compareKeys cmp key k c ap w = (Ret ord c1, w1)" by (auto simp: callR_Ret_iff)
  then have "c1 = c" "w1 = w" using compareKeys_pure by auto
  then show ?case using AvlNode cmp by (auto simp: callR_Ret_iff split: if_splits)
qed simp

lemma lookup_pure: "avlLookup n key cmp c ap w = (Ret res c', w') \<Longrightarrow> c' = c \<and> w' = w"
proof (induction n arbitrary: c w)
  case (AvlNode k x l r h)
  then obtain ord c1 w1 where cmp: "compareKeys cmp key k c ap w = (Ret ord c1, w1)" by (auto simp: callR_Ret_iff)
  then have "c1 = c" "w1 = w" using compareKeys_pure by auto
  then show ?case using AvlNode cmp by (auto split: if_splits)
qed simp

lemma merge_pure: "avlMergeSorted as bs out cmp c ap L R B w = (Ret res c', w') \<Longrightarrow> c' = c \<and> w' = w"
proof (induction as arbitrary: bs out c w)
  case (Cons a as)
  note outer = Cons.IH
  show ?case using Cons.prems
  proof (induction bs arbitrary: out c w)
    case (Cons b bs)
    then obtain ord c1 w1 where cmp: "compareKeys cmp (fst a) (fst b) c ap w = (Ret ord c1, w1)"
      by (auto simp: callR_Ret_iff)
    then have "c1 = c" "w1 = w" using compareKeys_pure by auto
    then show ?case using Cons outer cmp by (simp split: if_splits)
  qed (simp add: Let_def)
qed (simp add: Let_def)

text \<open>Each operation as an equation: the result on sorted lists, environment and world unchanged.\<close>

lemma insert_spec:
  assumes "avl n" "bst rk n" "keysIn K (inorder n)" "K key"
  shows "\<exists>n'. avlInsert n key v cmp c ap w = (Ret (n', lookupBy rk key (inorder n) = None) c, w) \<and>
    avl n' \<and> bst rk n' \<and> keysIn K (inorder n') \<and> inorder n' = updBy rk key v (inorder n)"
proof -
  obtain n' ins c' w' where r: "avlInsert n key v cmp c ap w = (Ret (n', ins) c', w')"
    using insert_returns [OF assms(1,3,4)] by (fastforce simp: returns_def)
  show ?thesis
    using insert_inorder [OF assms(2-4) r] insert_pure [OF r] avlInsert_avl [OF assms(1) r] r assms
    by (auto simp: bst_def sortedBy_updBy keysIn_updBy)
qed

lemma delete_spec:
  assumes "avl n" "bst rk n" "keysIn K (inorder n)" "K key"
  shows "\<exists>n'. avlDelete n key cmp c ap w = (Ret (n', lookupBy rk key (inorder n) \<noteq> None) c, w) \<and>
    avl n' \<and> bst rk n' \<and> keysIn K (inorder n') \<and> inorder n' = delBy rk key (inorder n)"
proof -
  obtain n' d c' w' where r: "avlDelete n key cmp c ap w = (Ret (n', d) c', w')"
    using delete_returns [OF assms(1,3,4)] by (fastforce simp: returns_def)
  show ?thesis
    using delete_inorder [OF assms(2-4) r] delete_pure [OF r] avlDelete_avl [OF assms(1) r] r assms
    by (auto simp: bst_def sortedBy_delBy keysIn_delBy)
qed

lemma lookup_spec:
  assumes "bst rk n" "keysIn K (inorder n)" "K key"
  shows "avlLookup n key cmp c ap w = (Ret (lookupBy rk key (inorder n)) c, w)"
proof -
  obtain res c' w' where r: "avlLookup n key cmp c ap w = (Ret res c', w')"
    using lookup_returns [OF assms(2,3)] by (fastforce simp: returns_def)
  then show ?thesis using lookup_inorder [OF assms r] lookup_pure [OF r] by simp
qed

lemma merge_spec:
  assumes "keysIn K as" "keysIn K bs"
  shows "avlMergeSorted as bs [] cmp c ap L R B w = (Ret (mergeBy rk L R B as bs) c, w)"
proof -
  obtain res c' w' where r: "avlMergeSorted as bs [] cmp c ap L R B w = (Ret res c', w')"
    using merge_returns [OF assms] by (fastforce simp: returns_def)
  then show ?thesis using merge_refines [OF assms r] merge_pure [OF r] by simp
qed

end

section \<open>Integer keys\<close>

text \<open>The integer primitives as the Prelude pack registers them, and the value of \<^verbatim>\<open>compare\<close> at \<open>Int\<close>.\<close>

definition preludeInts :: "primImpl primRegistry \<Rightarrow> primImpl primRegistry" where
  "preludeInts r =
     fold (\<lambda>(name, impl) r. register name impl r)
       [(''_addInt'', addIntImpl), (''_subInt'', subIntImpl), (''_mulInt'', mulIntImpl), (''_divInt'', divIntImpl),
        (''_modInt'', modIntImpl), (''_negInt'', negIntImpl), (''_eqInt'', eqIntImpl), (''_cmpInt'', cmpIntImpl),
        (''_showInt'', numShowIntImpl)] r"

definition intEnv :: "vmEnv \<Rightarrow> vmEnv" where
  "intEnv E = E\<lparr> vm_prims := preludeInts (vm_prims E) \<rparr>"

definition cmpIntVal :: val where
  "cmpIntVal = PrimVal ''_cmpInt'' 2 False []"

definition isIntVal :: "val \<Rightarrow> bool" where
  "isIntVal v \<longleftrightarrow> (\<exists>n. v = intVal n)"

definition intRank :: "val \<Rightarrow> int" where
  "intRank v = (case v of HostVal (HInt n) \<Rightarrow> sint n | _ \<Rightarrow> 0)"

lemma intRank_intVal [simp]: "intRank (intVal n) = sint n"
  by (simp add: intRank_def intVal_def)

lemma isIntVal_intVal [simp]: "isIntVal (intVal n)"
  by (auto simp: isIntVal_def)

lemma lookup_cmpInt: "lookupPrim ''_cmpInt'' (vm_prims (intEnv E)) = Some cmpIntImpl"
  by (simp add: intEnv_def preludeInts_def lookupPrim_def register_def AList.update_conv)

lemma applyN_cmpIntVal:
  "applyNA (vmApplier (intEnv E) (Suc m)) cmpIntVal [a, b] c w =
     callR (callPrim (intEnv E) (vmApplier (intEnv E) m) cmpIntImpl c [a, b] w) (\<lambda>_. c) (\<lambda>v c w. (Ret v c, w))"
  by (simp add: cmpIntVal_def applyNForPrim_def resolvePrimImplBare_def lookup_cmpInt combineArgs_def Let_def)

lemma tryE_Ret_iff: "tryE x ce w k = (Ret a c, w') \<longleftrightarrow> (\<exists>y. x = Inr y \<and> k y = (Ret a c, w'))"
  by (cases x) auto

lemma cmpIntImpl_pure: "cmpIntImpl ce [a, b] ap w = (Ret v c, w') \<Longrightarrow> c = ce \<and> w' = w"
  by (auto simp: cmpIntImpl_def intArgs2_def tryE_Ret_iff)

lemma callPrim_Ret_iff: "callPrim E self impl ce args w = (Ret v c, w') \<longleftrightarrow> impl ce args self w = (Ret v c, w')"
  by (auto simp: callPrim_def split: prod.splits res.splits)

lemma applyN_cmpInt:
  "applyNA (vmApplier (intEnv E) (Suc m)) cmpIntVal [intVal a, intVal b] c w =
     (Ret (mkCon (if sint a < sint b then OrderLT else if sint a = sint b then OrderEQ else OrderGT) []) c, w)"
  by (simp add: applyN_cmpIntVal callPrim_def cmpIntImpl_def ordVal_def go_simps del: vmApplier.simps)

interpretation intKeys: pure_key_order "vmApplier (intEnv E) (Suc m)" cmpIntVal isIntVal intRank for E m
proof unfold_locales
  fix a b c w v c' w'
  assume "isIntVal a" "isIntVal b" "applyNA (vmApplier (intEnv E) (Suc m)) cmpIntVal [a, b] c w = (Ret v c', w')"
  then show "\<exists>args d n. v = ConVal (if intRank a < intRank b then OrderLT
      else if intRank a = intRank b then OrderEQ else OrderGT) args d n"
    by (auto simp: isIntVal_def applyN_cmpInt mkCon_def simp del: vmApplier.simps) blast+
next
  fix a b c w
  assume "isIntVal a" "isIntVal b"
  then show "returns (applyNA (vmApplier (intEnv E) (Suc m)) cmpIntVal [a, b] c w)"
    by (auto simp: isIntVal_def applyN_cmpInt simp del: vmApplier.simps)
next
  fix a b c w v c' w'
  assume "applyNA (vmApplier (intEnv E) (Suc m)) cmpIntVal [a, b] c w = (Ret v c', w')"
  then show "c' = c \<and> w' = w"
    by (auto simp: applyN_cmpIntVal callR_Ret_iff callPrim_Ret_iff dest: cmpIntImpl_pure simp del: vmApplier.simps)
qed

end
