(* ===== verification/Map_Set.thy ===== *)
theory Map_Set
  imports Avl_Order
begin

text \<open>
  The primitives of \<^verbatim>\<open>Data.Map\<close> and \<^verbatim>\<open>Data.Set\<close>: \<^verbatim>\<open>internal/host/stdlib/map.go\<close> and \<^verbatim>\<open>set.go\<close>. A map is a
  tree with its comparator and its size; a set is a map to unit. The number of entries is a Go \<^verbatim>\<open>int\<close>
  that is only ever incremented for a node that exists, so it is an \<open>int\<close> here. A result struct that
  a recursive walk updates in place is threaded through the walk.
\<close>

section \<open>Map primitives\<close>

definition asMapVal :: "val \<Rightarrow> err + val mapVal" where
  "asMapVal v =
     (case v of
        HostVal h \<Rightarrow> (case h of HMap m \<Rightarrow> Inr m | _ \<Rightarrow> Inl (errExpected ''map'' ''Map'' (Inr h)))
      | _ \<Rightarrow> Inl (errExpected ''map'' ''Map'' (Inl v)))"

abbreviation mapHost :: "tree \<Rightarrow> val \<Rightarrow> int \<Rightarrow> val" where
  "mapHost root cmp sz \<equiv> HostVal (HMap (MapVal root cmp sz))"

definition justVal :: "val \<Rightarrow> val" where "justVal v = mkCon MaybeJust [v]"
definition nothingVal :: val where "nothingVal = mkCon MaybeNothing []"

definition mapEmptyImpl :: primImpl where
  "mapEmptyImpl ce args ap w = argN args 0 w (\<lambda>cmp. (Ret (mapHost AvlNil cmp 0) ce, w))"

definition mapInsertImpl :: primImpl where
  "mapInsertImpl ce args ap w =
     argN args 1 w (\<lambda>key. argN args 2 w (\<lambda>v. argN args 3 w (\<lambda>mv.
     tryE (asMapVal mv) ce w (\<lambda>m.
     charge costAVLNode ce w (\<lambda>w.
     callR (avlInsert (mroot m) key v (mcmp m) ce ap w) (\<lambda>_. ce) (\<lambda>(newRoot, inserted) newCe w.
     (Ret (mapHost newRoot (mcmp m) (if inserted then msize m + 1 else msize m)) newCe, w)))))))"

definition mapLookupImpl :: primImpl where
  "mapLookupImpl ce args ap w =
     argN args 1 w (\<lambda>key. argN args 2 w (\<lambda>mv.
     tryE (asMapVal mv) ce w (\<lambda>m.
     callR (avlLookup (mroot m) key (mcmp m) ce ap w) (\<lambda>_. ce) (\<lambda>r newCe w.
     (Ret (case r of Some v \<Rightarrow> justVal v | None \<Rightarrow> nothingVal) newCe, w)))))"

definition mapDeleteImpl :: primImpl where
  "mapDeleteImpl ce args ap w =
     argN args 1 w (\<lambda>key. argN args 2 w (\<lambda>mv.
     tryE (asMapVal mv) ce w (\<lambda>m.
     charge costAVLNode ce w (\<lambda>w.
     callR (avlDelete (mroot m) key (mcmp m) ce ap w) (\<lambda>_. ce) (\<lambda>(newRoot, deleted) newCe w.
     (Ret (mapHost newRoot (mcmp m) (if deleted then msize m - 1 else msize m)) newCe, w))))))"

definition mapSizeImpl :: primImpl where
  "mapSizeImpl ce args ap w =
     argN args 0 w (\<lambda>mv. tryE (asMapVal mv) ce w (\<lambda>m. (Ret (intVal (word_of_int (msize m))) ce, w)))"

definition mapToListImpl :: primImpl where
  "mapToListImpl ce args ap w =
     argN args 0 w (\<lambda>mv. tryE (asMapVal mv) ce w (\<lambda>m.
     charge (word_of_int (msize m) * (costTupleNode + costConsNode)) ce w (\<lambda>w.
     (Ret (avlToConsList (mroot m)) ce, w))))"

text \<open>The loop of \<^verbatim>\<open>mapFromListImpl\<close> over the Cons cells.\<close>

fun mapFromListLoop :: "val \<Rightarrow> tree \<Rightarrow> int \<Rightarrow> val \<Rightarrow> capEnv \<Rightarrow> applier \<Rightarrow> world \<Rightarrow> (tree \<times> int) gores" where
  "mapFromListLoop (ConVal con args d n) root sz cmp ce ap w =
     (if con = ListNil then (Ret (root, sz) ce, w)
      else if con \<noteq> ListCons then (Err (errMalformed ''mapFromList'' ''list node'' con) ce, w)
      else case args of
        [x, rest] \<Rightarrow>
          (case x of
             RecordVal fs \<Rightarrow>
               (case (recGet fs (tupleLabel 1), recGet fs (tupleLabel 2)) of
                  (Some key, Some v) \<Rightarrow>
                    charge costAVLNode ce w (\<lambda>w.
                    callR (avlInsert root key v cmp ce ap w) (\<lambda>c. c) (\<lambda>(root, inserted) ce w.
                    mapFromListLoop rest root (if inserted then sz + 1 else sz) cmp ce ap w))
                | _ \<Rightarrow> (Err (PlainErr ''mapFromList: tuple must have _1 and _2'') ce, w))
           | _ \<Rightarrow> (Err (errExpected ''mapFromList'' ''tuple'' (Inl x)) ce, w))
      | _ \<Rightarrow> (Err (errMalformed ''mapFromList'' ''list node'' con) ce, w))"
| "mapFromListLoop v root sz cmp ce ap w = (Err (errExpected ''mapFromList'' ''List'' (Inl v)) ce, w)"

definition mapFromListImpl :: primImpl where
  "mapFromListImpl ce args ap w =
     argN args 0 w (\<lambda>cmp. argN args 1 w (\<lambda>list.
     callR (mapFromListLoop list AvlNil 0 cmp ce ap w) (\<lambda>c. c) (\<lambda>(root, sz) ce w.
     (Ret (mapHost root cmp sz) ce, w))))"

definition mapFoldlWithKeyImpl :: primImpl where
  "mapFoldlWithKeyImpl ce args ap w =
     argN args 0 w (\<lambda>f. argN args 1 w (\<lambda>acc. argN args 2 w (\<lambda>mv.
     tryE (asMapVal mv) ce w (\<lambda>m. avlFoldlWithKey (mroot m) f acc ce ap w))))"

definition mapMemberImpl :: primImpl where
  "mapMemberImpl ce args ap w =
     argN args 1 w (\<lambda>key. argN args 2 w (\<lambda>mv.
     tryE (asMapVal mv) ce w (\<lambda>m.
     callR (avlLookup (mroot m) key (mcmp m) ce ap w) (\<lambda>_. ce) (\<lambda>r newCe w.
     (Ret (boolVal (r \<noteq> None)) newCe, w)))))"

fun avlWalkMerge :: "tree \<Rightarrow> val \<Rightarrow> val mapVal \<Rightarrow> capEnv \<Rightarrow> applier \<Rightarrow> world \<Rightarrow> val mapVal gores" where
  "avlWalkMerge AvlNil f result ce ap w = (Ret result ce, w)"
| "avlWalkMerge (AvlNode nk nv l r h) f result ce ap w =
     callR (avlWalkMerge l f result ce ap w) (\<lambda>c. c) (\<lambda>result ce w.
     callR (avlLookup (mroot result) nk (mcmp result) ce ap w) (\<lambda>_. ce) (\<lambda>existing ce w.
     callR (case existing of Some old \<Rightarrow> applyNA ap f [old, nv] ce w | None \<Rightarrow> (Ret nv ce, w)) (\<lambda>c. c)
       (\<lambda>insertVal ce w.
     charge costAVLNode ce w (\<lambda>w.
     callR (avlInsert (mroot result) nk insertVal (mcmp result) ce ap w) (\<lambda>c. c) (\<lambda>(root, inserted) ce w.
     avlWalkMerge r f (MapVal root (mcmp result) (if inserted then msize result + 1 else msize result)) ce ap w)))))"

definition mapUnionWithImpl :: primImpl where
  "mapUnionWithImpl ce args ap w =
     argN args 0 w (\<lambda>f. argN args 1 w (\<lambda>a1.
     tryE (asMapVal a1) ce w (\<lambda>m1. argN args 2 w (\<lambda>a2.
     tryE (asMapVal a2) ce w (\<lambda>m2.
     callR (avlWalkMerge (mroot m2) f (MapVal (mroot m1) (mcmp m1) (msize m1)) ce ap w) (\<lambda>c. c) (\<lambda>result ce w.
     (Ret (HostVal (HMap result)) ce, w)))))))"

definition mapKeysImpl :: primImpl where
  "mapKeysImpl ce args ap w =
     argN args 0 w (\<lambda>mv. tryE (asMapVal mv) ce w (\<lambda>m.
     charge (word_of_int (msize m) * costConsNode) ce w (\<lambda>w. (Ret (avlKeysToConsList (mroot m)) ce, w))))"

definition mapValuesImpl :: primImpl where
  "mapValuesImpl ce args ap w =
     argN args 0 w (\<lambda>mv. tryE (asMapVal mv) ce w (\<lambda>m.
     charge (word_of_int (msize m) * costConsNode) ce w (\<lambda>w. (Ret (avlValsToConsList (mroot m)) ce, w))))"

definition mapMapValuesImpl :: primImpl where
  "mapMapValuesImpl ce args ap w =
     argN args 0 w (\<lambda>f. argN args 1 w (\<lambda>mv. tryE (asMapVal mv) ce w (\<lambda>m.
     charge (word_of_int (msize m) * costAVLNode) ce w (\<lambda>w.
     callR (avlMapValues (mroot m) f ce ap w) (\<lambda>_. ce) (\<lambda>newRoot newCe w.
     (Ret (mapHost newRoot (mcmp m) (msize m)) newCe, w))))))"

definition mapFilterWithKeyImpl :: primImpl where
  "mapFilterWithKeyImpl ce args ap w =
     argN args 0 w (\<lambda>pred. argN args 1 w (\<lambda>mv. tryE (asMapVal mv) ce w (\<lambda>m.
     charge (word_of_int (msize m) * costAVLNode) ce w (\<lambda>w.
     callR (avlFilterWithKey (mroot m) pred (mcmp m) (AvlNil, 0) ce ap w) (\<lambda>_. ce) (\<lambda>(newRoot, newSize) newCe w.
     (Ret (mapHost newRoot (mcmp m) newSize) newCe, w))))))"

definition mapInsertWithImpl :: primImpl where
  "mapInsertWithImpl ce args ap w =
     argN args 1 w (\<lambda>f. argN args 2 w (\<lambda>key. argN args 3 w (\<lambda>v. argN args 4 w (\<lambda>mv.
     tryE (asMapVal mv) ce w (\<lambda>m.
     charge costAVLNode ce w (\<lambda>w.
     callR (avlInsertWith (mroot m) key v f (mcmp m) ce ap w) (\<lambda>_. ce) (\<lambda>(newRoot, inserted) newCe w.
     (Ret (mapHost newRoot (mcmp m) (if inserted then msize m + 1 else msize m)) newCe, w))))))))"

fun avlIntersectWalk :: "tree \<Rightarrow> val mapVal \<Rightarrow> val \<Rightarrow> val mapVal \<Rightarrow> capEnv \<Rightarrow> applier \<Rightarrow> world \<Rightarrow> val mapVal gores" where
  "avlIntersectWalk AvlNil m2 f result ce ap w = (Ret result ce, w)"
| "avlIntersectWalk (AvlNode nk nv l r h) m2 f result ce ap w =
     callR (avlIntersectWalk l m2 f result ce ap w) (\<lambda>c. c) (\<lambda>result ce w.
     callR (avlLookup (mroot m2) nk (mcmp m2) ce ap w) (\<lambda>_. ce) (\<lambda>v2 ce w.
     case v2 of
       None \<Rightarrow> avlIntersectWalk r m2 f result ce ap w
     | Some v2 \<Rightarrow>
         callR (applyNA ap f [nv, v2] ce w) (\<lambda>_. ce) (\<lambda>merged ce w.
         charge costAVLNode ce w (\<lambda>w.
         callR (avlInsert (mroot result) nk merged (mcmp result) ce ap w) (\<lambda>c. c) (\<lambda>(root, inserted) ce w.
         avlIntersectWalk r m2 f (MapVal root (mcmp result) (if inserted then msize result + 1 else msize result))
           ce ap w)))))"

definition mapIntersectionWithImpl :: primImpl where
  "mapIntersectionWithImpl ce args ap w =
     argN args 0 w (\<lambda>f. argN args 1 w (\<lambda>a1.
     tryE (asMapVal a1) ce w (\<lambda>m1. argN args 2 w (\<lambda>a2.
     tryE (asMapVal a2) ce w (\<lambda>m2.
     callR (avlIntersectWalk (mroot m1) m2 f (MapVal AvlNil (mcmp m1) 0) ce ap w) (\<lambda>c. c) (\<lambda>result ce w.
     (Ret (HostVal (HMap result)) ce, w)))))))"

definition mapFindMinImpl :: primImpl where
  "mapFindMinImpl ce args ap w =
     argN args 0 w (\<lambda>mv. tryE (asMapVal mv) ce w (\<lambda>m.
     if mroot m = AvlNil then (Ret nothingVal ce, w)
     else orPanic (avlMinNode (mroot m)) w (\<lambda>n. (Ret (justVal (mkPair (akey n) (aval n))) ce, w))))"

definition mapFindMaxImpl :: primImpl where
  "mapFindMaxImpl ce args ap w =
     argN args 0 w (\<lambda>mv. tryE (asMapVal mv) ce w (\<lambda>m.
     if mroot m = AvlNil then (Ret nothingVal ce, w)
     else orPanic (avlMaxNode (mroot m)) w (\<lambda>n. (Ret (justVal (mkPair (akey n) (aval n))) ce, w))))"

definition mapMapWithKeyImpl :: primImpl where
  "mapMapWithKeyImpl ce args ap w =
     argN args 0 w (\<lambda>f. argN args 1 w (\<lambda>mv. tryE (asMapVal mv) ce w (\<lambda>m.
     charge (word_of_int (msize m) * costAVLNode) ce w (\<lambda>w.
     callR (avlMapWithKey (mroot m) f ce ap w) (\<lambda>_. ce) (\<lambda>newRoot newCe w.
     (Ret (mapHost newRoot (mcmp m) (msize m)) newCe, w))))))"

definition mapFoldrWithKeyImpl :: primImpl where
  "mapFoldrWithKeyImpl ce args ap w =
     argN args 0 w (\<lambda>f. argN args 1 w (\<lambda>acc. argN args 2 w (\<lambda>mv.
     tryE (asMapVal mv) ce w (\<lambda>m. avlFoldrWithKey (mroot m) f acc ce ap w))))"

definition registerAll :: "(string \<times> primImpl) list \<Rightarrow> primImpl primRegistry \<Rightarrow> primImpl primRegistry" where
  "registerAll ps r = fold (\<lambda>(name, impl). register name impl) ps r"

definition mapPack :: "primImpl primRegistry \<Rightarrow> primImpl primRegistry" where
  "mapPack = registerAll
     [(''_mapEmpty'', mapEmptyImpl), (''_mapInsert'', mapInsertImpl), (''_mapLookup'', mapLookupImpl),
      (''_mapDelete'', mapDeleteImpl), (''_mapSize'', mapSizeImpl), (''_mapToList'', mapToListImpl),
      (''_mapFromList'', mapFromListImpl), (''_mapFoldlWithKey'', mapFoldlWithKeyImpl), (''_mapMember'', mapMemberImpl),
      (''_mapUnionWith'', mapUnionWithImpl), (''_mapKeys'', mapKeysImpl), (''_mapValues'', mapValuesImpl),
      (''_mapMapValues'', mapMapValuesImpl), (''_mapFilterWithKey'', mapFilterWithKeyImpl),
      (''_mapInsertWith'', mapInsertWithImpl), (''_mapIntersectionWith'', mapIntersectionWithImpl),
      (''_mapFindMin'', mapFindMinImpl), (''_mapFindMax'', mapFindMaxImpl), (''_mapMapWithKey'', mapMapWithKeyImpl),
      (''_mapFoldrWithKey'', mapFoldrWithKeyImpl)]"

section \<open>Set primitives\<close>

definition setEmptyImpl :: primImpl where
  "setEmptyImpl ce args ap w = argN args 0 w (\<lambda>cmp. (Ret (mapHost AvlNil cmp 0) ce, w))"

definition setInsertImpl :: primImpl where
  "setInsertImpl ce args ap w =
     argN args 1 w (\<lambda>key. argN args 2 w (\<lambda>mv.
     tryE (asMapVal mv) ce w (\<lambda>m.
     charge costAVLNode ce w (\<lambda>w.
     callR (avlInsert (mroot m) key UnitVal (mcmp m) ce ap w) (\<lambda>_. ce) (\<lambda>(newRoot, inserted) newCe w.
     (Ret (mapHost newRoot (mcmp m) (if inserted then msize m + 1 else msize m)) newCe, w))))))"

definition setMemberImpl :: primImpl where "setMemberImpl = mapMemberImpl"

definition setDeleteImpl :: primImpl where
  "setDeleteImpl ce args ap w =
     argN args 1 w (\<lambda>key. argN args 2 w (\<lambda>mv.
     tryE (asMapVal mv) ce w (\<lambda>m.
     charge costAVLNode ce w (\<lambda>w.
     callR (avlDelete (mroot m) key (mcmp m) ce ap w) (\<lambda>_. ce) (\<lambda>(newRoot, deleted) newCe w.
     (Ret (mapHost newRoot (mcmp m) (if deleted then msize m - 1 else msize m)) newCe, w))))))"

definition setSizeImpl :: primImpl where "setSizeImpl = mapSizeImpl"

definition setToListImpl :: primImpl where
  "setToListImpl ce args ap w =
     argN args 0 w (\<lambda>mv. tryE (asMapVal mv) ce w (\<lambda>m.
     charge (word_of_int (msize m) * costConsNode) ce w (\<lambda>w. (Ret (avlKeysToConsList (mroot m)) ce, w))))"

fun setFromListLoop :: "val \<Rightarrow> tree \<Rightarrow> int \<Rightarrow> val \<Rightarrow> capEnv \<Rightarrow> applier \<Rightarrow> world \<Rightarrow> (tree \<times> int) gores" where
  "setFromListLoop (ConVal con args d n) root sz cmp ce ap w =
     (if con = ListNil then (Ret (root, sz) ce, w)
      else if con \<noteq> ListCons then (Err (errMalformed ''setFromList'' ''list node'' con) ce, w)
      else case args of
        [x, rest] \<Rightarrow>
          charge costAVLNode ce w (\<lambda>w.
          callR (avlInsert root x UnitVal cmp ce ap w) (\<lambda>c. c) (\<lambda>(root, inserted) ce w.
          setFromListLoop rest root (if inserted then sz + 1 else sz) cmp ce ap w))
      | _ \<Rightarrow> (Err (errMalformed ''setFromList'' ''list node'' con) ce, w))"
| "setFromListLoop v root sz cmp ce ap w = (Err (errExpected ''setFromList'' ''List'' (Inl v)) ce, w)"

definition setFromListImpl :: primImpl where
  "setFromListImpl ce args ap w =
     argN args 0 w (\<lambda>cmp. argN args 1 w (\<lambda>list.
     callR (setFromListLoop list AvlNil 0 cmp ce ap w) (\<lambda>c. c) (\<lambda>(root, sz) ce w.
     (Ret (mapHost root cmp sz) ce, w))))"

definition setUnionImpl :: primImpl where
  "setUnionImpl ce args ap w =
     argN args 1 w (\<lambda>a1. tryE (asMapVal a1) ce w (\<lambda>s1. argN args 2 w (\<lambda>a2. tryE (asMapVal a2) ce w (\<lambda>s2.
     callR (avlMergeUnion (mroot s1) (mroot s2) (mcmp s1) ce ap w) (\<lambda>c. c) (\<lambda>entries ce w.
     orPanic (sortedToAVL entries) w (\<lambda>root. (Ret (mapHost root (mcmp s1) (int (length entries))) ce, w)))))))"

definition setIntersectionImpl :: primImpl where
  "setIntersectionImpl ce args ap w =
     argN args 1 w (\<lambda>a1. tryE (asMapVal a1) ce w (\<lambda>s1. argN args 2 w (\<lambda>a2. tryE (asMapVal a2) ce w (\<lambda>s2.
     callR (avlMergeIntersect (mroot s1) (mroot s2) (mcmp s1) ce ap w) (\<lambda>c. c) (\<lambda>entries ce w.
     orPanic (sortedToAVL entries) w (\<lambda>root. (Ret (mapHost root (mcmp s1) (int (length entries))) ce, w)))))))"

definition setDifferenceImpl :: primImpl where
  "setDifferenceImpl ce args ap w =
     argN args 1 w (\<lambda>a1. tryE (asMapVal a1) ce w (\<lambda>s1. argN args 2 w (\<lambda>a2. tryE (asMapVal a2) ce w (\<lambda>s2.
     callR (avlMergeDifference (mroot s1) (mroot s2) (mcmp s1) ce ap w) (\<lambda>c. c) (\<lambda>entries ce w.
     orPanic (sortedToAVL entries) w (\<lambda>root. (Ret (mapHost root (mcmp s1) (int (length entries))) ce, w)))))))"

fun avlAllMember :: "tree \<Rightarrow> val mapVal \<Rightarrow> capEnv \<Rightarrow> applier \<Rightarrow> world \<Rightarrow> bool gores" where
  "avlAllMember AvlNil target ce ap w = (Ret True ce, w)"
| "avlAllMember (AvlNode nk nv l r h) target ce ap w =
     callR (avlAllMember l target ce ap w) (\<lambda>_. ce) (\<lambda>ok newCe w.
     if \<not> ok then (Ret False ce, w)
     else callR (avlLookup (mroot target) nk (mcmp target) newCe ap w) (\<lambda>_. ce) (\<lambda>found newCe w.
       if found = None then (Ret False newCe, w) else avlAllMember r target newCe ap w))"

definition setIsSubsetOfImpl :: primImpl where
  "setIsSubsetOfImpl ce args ap w =
     argN args 1 w (\<lambda>a1. tryE (asMapVal a1) ce w (\<lambda>s1. argN args 2 w (\<lambda>a2. tryE (asMapVal a2) ce w (\<lambda>s2.
     if msize s1 > msize s2 then (Ret (boolVal False) ce, w)
     else callR (avlAllMember (mroot s1) s2 ce ap w) (\<lambda>_. ce) (\<lambda>result newCe w.
       (Ret (boolVal result) newCe, w))))))"

definition setFindMinImpl :: primImpl where
  "setFindMinImpl ce args ap w =
     argN args 0 w (\<lambda>mv. tryE (asMapVal mv) ce w (\<lambda>m.
     if mroot m = AvlNil then (Ret nothingVal ce, w)
     else orPanic (avlMinNode (mroot m)) w (\<lambda>n. (Ret (justVal (akey n)) ce, w))))"

definition setFindMaxImpl :: primImpl where
  "setFindMaxImpl ce args ap w =
     argN args 0 w (\<lambda>mv. tryE (asMapVal mv) ce w (\<lambda>m.
     if mroot m = AvlNil then (Ret nothingVal ce, w)
     else orPanic (avlMaxNode (mroot m)) w (\<lambda>n. (Ret (justVal (akey n)) ce, w))))"

definition setPack :: "primImpl primRegistry \<Rightarrow> primImpl primRegistry" where
  "setPack = registerAll
     [(''_setEmpty'', setEmptyImpl), (''_setInsert'', setInsertImpl), (''_setMember'', setMemberImpl),
      (''_setDelete'', setDeleteImpl), (''_setSize'', setSizeImpl), (''_setToList'', setToListImpl),
      (''_setFromList'', setFromListImpl), (''_setUnion'', setUnionImpl), (''_setIntersection'', setIntersectionImpl),
      (''_setDifference'', setDifferenceImpl), (''_setIsSubsetOf'', setIsSubsetOfImpl), (''_setFindMin'', setFindMinImpl),
      (''_setFindMax'', setFindMaxImpl)]"

end
