(* ===== verification/Map_Set_Laws.thy ===== *)
theory Map_Set_Laws
  imports Map_Set
begin

text \<open>
  The laws of the Map and Set primitives. \<open>wfMap\<close> is the invariant of a map value: its tree is an AVL
  tree sorted by the map's own comparator and its size field counts the entries. For a comparator
  that satisfies the contract \<open>pure_key_order\<close>, each primitive returns, keeps the invariant, and acts on
  the lookup function of the map as its name says; the properties state this for \<open>Int\<close> keys on the
  machine's own applier. Operations that take a function are described for functions without effects.
\<close>

section \<open>Charging\<close>

text \<open>A budget that admits every allocation: none at all, or one without allocation limit whose context
  is live.\<close>

definition freeAlloc :: "world \<Rightarrow> bool" where
  "freeAlloc w \<longleftrightarrow> (case w_budget w of None \<Rightarrow> True | Some b \<Rightarrow> b_ctx b = None \<and> b_maxAlloc b = 0)"

text \<open>Two worlds that differ at most in the budget.\<close>

definition onlyBudget :: "world \<Rightarrow> world \<Rightarrow> bool" where
  "onlyBudget w w' \<longleftrightarrow> w' = w\<lparr> w_budget := w_budget w' \<rparr>"

lemma onlyBudget_refl [simp]: "onlyBudget w w"
  by (simp add: onlyBudget_def)

lemma onlyBudget_trans: "onlyBudget w w' \<Longrightarrow> onlyBudget w' w'' \<Longrightarrow> onlyBudget w w''"
  unfolding onlyBudget_def by (metis world.surjective world.update_convs(1))

lemma charge_free:
  assumes "freeAlloc w" "0 \<le>s n"
  obtains w1 where "\<And>ce k. charge n ce w k = k w1" "freeAlloc w1" "onlyBudget w w1"
proof (cases "w_budget w")
  case None
  then show ?thesis
    by (intro that [of "w\<lparr> w_budget := None \<rparr>"])
      (auto simp: charge_def chargeAlloc_def freeAlloc_def onlyBudget_def)
next
  case (Some b)
  define b1 where "b1 = snd (checkB (b\<lparr> b_alloc := b_alloc b + n \<rparr>))"
  have live: "b_ctx b = None" "b_maxAlloc b = 0" using assms(1) Some by (auto simp: freeAlloc_def)
  have "fst (checkB (b\<lparr> b_alloc := b_alloc b + n \<rparr>)) = None" using live by (intro checkB_live) simp
  then have "allocB n b = (None, b1)"
    using assms(2) live by (auto simp: allocB_def Let_def b1_def prod_eq_iff go_simps)
  then have "charge n ce w k = k (w\<lparr> w_budget := Some b1 \<rparr>)" for ce k
    using Some by (simp add: charge_def chargeAlloc_def)
  moreover have "b_ctx b1 = None" "b_maxAlloc b1 = 0" using live by (simp_all add: b1_def)
  ultimately show ?thesis
    by (intro that [of "w\<lparr> w_budget := Some b1 \<rparr>"]) (auto simp: freeAlloc_def onlyBudget_def)
qed

lemma cost_nonneg [simp]: "0 \<le>s costAVLNode"
  by (simp add: costAVLNode_def go_simps)

section \<open>The invariant of map values\<close>

definition wfMap :: "(val \<Rightarrow> bool) \<Rightarrow> (val \<Rightarrow> 'o :: linorder) \<Rightarrow> val \<Rightarrow> val mapVal \<Rightarrow> bool" where
  "wfMap K rk cmp m \<longleftrightarrow> mcmp m = cmp \<and> avl (mroot m) \<and> bst rk (mroot m) \<and> keysIn K (inorder (mroot m)) \<and>
     msize m = avlSize (mroot m)"

abbreviation mapEntries :: "val mapVal \<Rightarrow> avlEntry list" where
  "mapEntries m \<equiv> inorder (mroot m)"

lemma asMapVal_HMap [simp]: "asMapVal (HostVal (HMap m)) = Inr m"
  by (simp add: asMapVal_def)

lemma wfMap_MapVal [simp]:
  "wfMap K rk cmp (MapVal root cmp' sz) \<longleftrightarrow> cmp' = cmp \<and> avl root \<and> bst rk root \<and> keysIn K (inorder root) \<and> sz = avlSize root"
  by (simp add: wfMap_def)

lemma wfMapD:
  "wfMap K rk cmp m \<Longrightarrow> mcmp m = cmp" "wfMap K rk cmp m \<Longrightarrow> avl (mroot m)" "wfMap K rk cmp m \<Longrightarrow> bst rk (mroot m)"
  "wfMap K rk cmp m \<Longrightarrow> keysIn K (inorder (mroot m))" "wfMap K rk cmp m \<Longrightarrow> msize m = avlSize (mroot m)"
  "wfMap K rk cmp m \<Longrightarrow> sortedBy rk (inorder (mroot m))"
  by (simp_all add: wfMap_def bst_def)

definition mapAt :: "(val \<Rightarrow> 'o :: linorder) \<Rightarrow> val mapVal \<Rightarrow> val \<Rightarrow> val option" where
  "mapAt rk m k = lookupBy rk k (mapEntries m)"

context pure_key_order
begin

lemma insert_map:
  assumes "wfMap K rk cmp m" "K key"
  shows "\<exists>n'. avlInsert (mroot m) key v cmp c ap w = (Ret (n', mapAt rk m key = None) c, w) \<and>
    wfMap K rk cmp (MapVal n' cmp (if mapAt rk m key = None then msize m + 1 else msize m)) \<and>
    inorder n' = updBy rk key v (mapEntries m)"
proof -
  note wf = wfMapD [OF assms(1)]
  obtain n' where "avlInsert (mroot m) key v cmp c ap w = (Ret (n', mapAt rk m key = None) c, w)"
    "avl n'" "bst rk n'" "keysIn K (inorder n')" "inorder n' = updBy rk key v (mapEntries m)"
    using insert_spec [OF wf(2-4) assms(2), of v c w] by (auto simp: mapAt_def)
  then show ?thesis
    using length_updBy [OF wf(6), of key v] wf(5) by (auto simp: avlSize_inorder mapAt_def)
qed

lemma mapInsert_law:
  assumes "wfMap K rk cmp m" "K key" "freeAlloc w"
  shows "\<exists>m' w'. mapInsertImpl c [x, key, v, HostVal (HMap m)] ap w = (Ret (HostVal (HMap m')) c, w') \<and>
    wfMap K rk cmp m' \<and> mapEntries m' = updBy rk key v (mapEntries m) \<and> freeAlloc w' \<and> onlyBudget w w'"
proof -
  obtain w1 where w1: "\<And>ce k. charge costAVLNode ce w k = (k w1 :: val gores)" "freeAlloc w1" "onlyBudget w w1"
    using charge_free [OF assms(3) cost_nonneg] by blast
  obtain n' where n': "avlInsert (mroot m) key v cmp c ap w1 = (Ret (n', mapAt rk m key = None) c, w1)"
    "wfMap K rk cmp (MapVal n' cmp (if mapAt rk m key = None then msize m + 1 else msize m))"
    "inorder n' = updBy rk key v (mapEntries m)"
    using insert_map [OF assms(1,2)] by blast
  then show ?thesis using w1 wfMapD(1) [OF assms(1)] by (auto simp: mapInsertImpl_def numeral_3_eq_3)
qed

lemma mapLookup_law:
  assumes "wfMap K rk cmp m" "K key"
  shows "mapLookupImpl c [x, key, HostVal (HMap m)] ap w =
    (Ret (case mapAt rk m key of Some v \<Rightarrow> justVal v | None \<Rightarrow> nothingVal) c, w)"
  using lookup_spec [OF wfMapD(3,4) [OF assms(1)] assms(2)] wfMapD(1) [OF assms(1)]
  by (simp add: mapLookupImpl_def mapAt_def)

lemma mapMember_law:
  assumes "wfMap K rk cmp m" "K key"
  shows "mapMemberImpl c [x, key, HostVal (HMap m)] ap w = (Ret (boolVal (mapAt rk m key \<noteq> None)) c, w)"
  using lookup_spec [OF wfMapD(3,4) [OF assms(1)] assms(2)] wfMapD(1) [OF assms(1)]
  by (simp add: mapMemberImpl_def mapAt_def)

lemma mapDelete_law:
  assumes "wfMap K rk cmp m" "K key" "freeAlloc w"
  shows "\<exists>m' w'. mapDeleteImpl c [x, key, HostVal (HMap m)] ap w = (Ret (HostVal (HMap m')) c, w') \<and>
    wfMap K rk cmp m' \<and> mapEntries m' = delBy rk key (mapEntries m) \<and> freeAlloc w' \<and> onlyBudget w w'"
proof -
  note wf = wfMapD [OF assms(1)]
  obtain w1 where w1: "\<And>ce k. charge costAVLNode ce w k = (k w1 :: val gores)" "freeAlloc w1" "onlyBudget w w1"
    using charge_free [OF assms(3) cost_nonneg] by blast
  obtain n' where "avlDelete (mroot m) key cmp c ap w1 = (Ret (n', lookupBy rk key (mapEntries m) \<noteq> None) c, w1)"
    "avl n'" "bst rk n'" "keysIn K (inorder n')" "inorder n' = delBy rk key (mapEntries m)"
    using delete_spec [OF wf(2-4) assms(2)] by blast
  then show ?thesis
    using w1 wf(1,5) length_delBy [of "mapEntries m" rk key] by (auto simp: mapDeleteImpl_def avlSize_inorder)
qed

text \<open>Building a map from a list inserts the pairs from left to right.\<close>

lemma mapFromListLoop_law:
  assumes "keysIn K kvs"
  shows "wfMap K rk cmp (MapVal root cmp sz) \<Longrightarrow> freeAlloc w \<Longrightarrow>
   \<exists>root' sz' w'. mapFromListLoop (consList (map (\<lambda>(k, v). mkPair k v) kvs)) root sz cmp c ap w = (Ret (root', sz') c, w') \<and>
     wfMap K rk cmp (MapVal root' cmp sz') \<and>
     inorder root' = fold (\<lambda>(k, v). updBy rk k v) kvs (inorder root) \<and> freeAlloc w' \<and> onlyBudget w w'"
  using assms
proof (induction kvs arbitrary: root sz w)
  case Nil
  then show ?case by (auto simp: mkCon_def)
next
  case (Cons kv kvs)
  obtain k v where kv: "kv = (k, v)" by fastforce
  obtain w1 where w1: "\<And>ce f. charge costAVLNode ce w f = (f w1 :: (tree \<times> int) gores)" "freeAlloc w1" "onlyBudget w w1"
    using charge_free [OF Cons.prems(2) cost_nonneg] by blast
  obtain n' where n': "avlInsert root k v cmp c ap w1 = (Ret (n', mapAt rk (MapVal root cmp sz) k = None) c, w1)"
    "wfMap K rk cmp (MapVal n' cmp (if mapAt rk (MapVal root cmp sz) k = None then sz + 1 else sz))"
    "inorder n' = updBy rk k v (inorder root)"
    using insert_map [OF Cons.prems(1), of k] Cons.prems(3) kv by fastforce
  have "keysIn K kvs" using Cons.prems(3) kv by simp
  from Cons.IH [OF n'(2) w1(2) this] show ?case
    using n' w1 onlyBudget_trans [OF w1(3)] by (auto simp: kv mkCon_def)
qed

lemma mapFromList_law:
  assumes "keysIn K kvs" "freeAlloc w"
  shows "\<exists>m w'. mapFromListImpl c [cmp, consList (map (\<lambda>(k, v). mkPair k v) kvs)] ap w = (Ret (HostVal (HMap m)) c, w') \<and>
    wfMap K rk cmp m \<and> mapEntries m = fold (\<lambda>(k, v). updBy rk k v) kvs [] \<and> freeAlloc w' \<and> onlyBudget w w'"
  using mapFromListLoop_law [OF assms(1), of AvlNil 0 w c] assms(2)
  by (auto simp: mapFromListImpl_def bst_def)

end

lemma lookupBy_fold_updBy:
  "sortedBy rk xs \<Longrightarrow> lookupBy rk k (fold (\<lambda>(k, v). updBy rk k v) kvs xs) =
     (case lookupBy rk k (rev kvs) of Some v \<Rightarrow> Some v | None \<Rightarrow> lookupBy rk k xs)"
  by (induction kvs arbitrary: xs)
    (auto simp: sortedBy_updBy lookupBy_updBy lookupBy_append split: option.splits)

lemma fold_updBy_sorted:
  "sortedBy rk (xs @ kvs) \<Longrightarrow> fold (\<lambda>(k, v). updBy rk k v) kvs xs = xs @ kvs"
proof (induction kvs arbitrary: xs)
  case (Cons kv kvs)
  have "updBy rk (fst kv) (snd kv) xs = xs @ [kv]"
    using Cons.prems by (induction xs) (auto dest: order.asym)
  then show ?case using Cons.IH [of "xs @ [kv]"] Cons.prems by (cases kv) simp
qed simp

section \<open>Operations that take a function\<close>

text \<open>The function value \<open>f\<close> computes \<open>F\<close> on the values in \<open>V\<close>, without effects.\<close>

definition computes2 :: "applier \<Rightarrow> val \<Rightarrow> (val \<Rightarrow> bool) \<Rightarrow> (val \<Rightarrow> val \<Rightarrow> val) \<Rightarrow> bool" where
  "computes2 ap f V F \<longleftrightarrow>
     (\<forall>a b c w. V a \<longrightarrow> V b \<longrightarrow> applyNA ap f [a, b] c w = (Ret (F a b) c, w) \<and> V (F a b))"

definition valsIn :: "(val \<Rightarrow> bool) \<Rightarrow> avlEntry list \<Rightarrow> bool" where
  "valsIn V xs \<longleftrightarrow> (\<forall>(k, v) \<in> set xs. V v)"

lemma valsIn_simps [simp]:
  "valsIn V []" "valsIn V ((k, v) # xs) \<longleftrightarrow> V v \<and> valsIn V xs" "valsIn V (xs @ ys) \<longleftrightarrow> valsIn V xs \<and> valsIn V ys"
  by (auto simp: valsIn_def)

lemma valsIn_updBy: "valsIn V xs \<Longrightarrow> V v \<Longrightarrow> valsIn V (updBy rk k v xs)"
  by (induction xs) auto

lemma valsIn_lookupBy: "valsIn V xs \<Longrightarrow> lookupBy rk k xs = Some v \<Longrightarrow> V v"
  by (induction xs) (auto split: if_splits)

definition mergeVal :: "(val \<Rightarrow> val \<Rightarrow> val) \<Rightarrow> val option \<Rightarrow> val \<Rightarrow> val" where
  "mergeVal F old v = (case old of Some x \<Rightarrow> F x v | None \<Rightarrow> v)"

abbreviation unionStep :: "(val \<Rightarrow> 'o :: linorder) \<Rightarrow> (val \<Rightarrow> val \<Rightarrow> val) \<Rightarrow> avlEntry \<Rightarrow> avlEntry list \<Rightarrow> avlEntry list" where
  "unionStep rk F \<equiv> \<lambda>(k, v) xs. updBy rk k (mergeVal F (lookupBy rk k xs) v) xs"

lemma lookupBy_unionFold:
  "sortedBy rk xs \<Longrightarrow> sortedBy rk ys \<Longrightarrow> lookupBy rk k (fold (unionStep rk F) ys xs) =
     (case lookupBy rk k ys of Some v \<Rightarrow> Some (mergeVal F (lookupBy rk k xs) v) | None \<Rightarrow> lookupBy rk k xs)"
proof (induction ys arbitrary: xs)
  case (Cons y ys)
  obtain k0 v0 where y: "y = (k0, v0)" by fastforce
  let ?xs = "updBy rk k0 (mergeVal F (lookupBy rk k0 xs) v0) xs"
  have "lookupBy rk k ys = None" if "rk k = rk k0"
    using that Cons.prems(2) y by (intro lookupBy_gt) auto
  moreover have "lookupBy rk k xs = lookupBy rk k0 xs" if "rk k = rk k0"
    using that by (induction xs) auto
  ultimately show ?case
    using Cons.IH [of ?xs] Cons.prems y by (auto simp: sortedBy_updBy lookupBy_updBy split: option.splits)
qed (simp split: option.splits)

context pure_key_order
begin

lemma walkMerge_law:
  assumes "computes2 ap f V F"
  shows "wfMap K rk cmp m \<Longrightarrow> keysIn K (inorder n) \<Longrightarrow> valsIn V (inorder n) \<Longrightarrow> valsIn V (mapEntries m) \<Longrightarrow> freeAlloc w \<Longrightarrow>
   \<exists>m' w'. avlWalkMerge n f m c ap w = (Ret m' c, w') \<and> wfMap K rk cmp m' \<and> valsIn V (mapEntries m') \<and>
     mapEntries m' = fold (unionStep rk F) (inorder n) (mapEntries m) \<and> freeAlloc w' \<and> onlyBudget w w'"
proof (induction n arbitrary: m w)
  case (AvlNode nk nv l r h)
  obtain m1 w1 where L: "avlWalkMerge l f m c ap w = (Ret m1 c, w1)" "wfMap K rk cmp m1" "valsIn V (mapEntries m1)"
    "mapEntries m1 = fold (unionStep rk F) (inorder l) (mapEntries m)" "freeAlloc w1" "onlyBudget w w1"
    using AvlNode.IH(1) [OF AvlNode.prems(1) _ _ AvlNode.prems(4,5)] AvlNode.prems(2,3) by auto
  have nk: "K nk" "V nv" using AvlNode.prems by auto
  let ?v = "mergeVal F (lookupBy rk nk (mapEntries m1)) nv"
  have ap: "(case lookupBy rk nk (mapEntries m1) of Some old \<Rightarrow> applyNA ap f [old, nv] c w1 | None \<Rightarrow> (Ret nv c, w1)) =
      (Ret ?v c, w1)" and V: "V ?v"
    using assms nk(2) valsIn_lookupBy [OF L(3), of rk nk]
    by (auto simp: computes2_def mergeVal_def split: option.splits)
  obtain w2 where w2: "\<And>ce k. charge costAVLNode ce w1 k = (k w2 :: val mapVal gores)" "freeAlloc w2" "onlyBudget w1 w2"
    using charge_free [OF L(5) cost_nonneg] by blast
  obtain n' where n': "avlInsert (mroot m1) nk ?v cmp c ap w2 = (Ret (n', mapAt rk m1 nk = None) c, w2)"
    "wfMap K rk cmp (MapVal n' cmp (if mapAt rk m1 nk = None then msize m1 + 1 else msize m1))"
    "inorder n' = updBy rk nk ?v (mapEntries m1)"
    using insert_map [OF L(2) nk(1)] by blast
  let ?m2 = "MapVal n' cmp (if mapAt rk m1 nk = None then msize m1 + 1 else msize m1)"
  have "valsIn V (mapEntries ?m2)" using n'(3) valsIn_updBy [OF L(3) V] by simp
  then obtain m3 w3 where "avlWalkMerge r f ?m2 c ap w2 = (Ret m3 c, w3)" "wfMap K rk cmp m3" "valsIn V (mapEntries m3)"
    "mapEntries m3 = fold (unionStep rk F) (inorder r) (inorder n')" "freeAlloc w3" "onlyBudget w2 w3"
    using AvlNode.IH(2) [OF n'(2) _ _ _ w2(2)] AvlNode.prems(2,3) by auto
  then show ?case
    using L n' w2 ap wfMapD(1) [OF L(2)] lookup_spec [OF wfMapD(3,4) [OF L(2)] nk(1), of c w1]
      onlyBudget_trans [OF L(6) onlyBudget_trans [OF w2(3)]]
    by auto
qed auto

end

abbreviation interStep :: "(val \<Rightarrow> 'o :: linorder) \<Rightarrow> (val \<Rightarrow> val \<Rightarrow> val) \<Rightarrow> avlEntry list \<Rightarrow> avlEntry \<Rightarrow> avlEntry list \<Rightarrow> avlEntry list" where
  "interStep rk F ys \<equiv> \<lambda>(k, v) xs. case lookupBy rk k ys of None \<Rightarrow> xs | Some v2 \<Rightarrow> updBy rk k (F v v2) xs"

lemma lookupBy_rank_cong: "rk k = rk k' \<Longrightarrow> lookupBy rk k xs = lookupBy rk k' xs"
  by (induction xs) auto

lemma lookupBy_interFold:
  "sortedBy rk xs \<Longrightarrow> sortedBy rk zs \<Longrightarrow> lookupBy rk k (fold (interStep rk F ys) zs xs) =
     (case (lookupBy rk k zs, lookupBy rk k ys) of (Some v, Some v2) \<Rightarrow> Some (F v v2) | _ \<Rightarrow> lookupBy rk k xs)"
proof (induction zs arbitrary: xs)
  case (Cons z zs)
  obtain k0 v0 where z: "z = (k0, v0)" by fastforce
  have "lookupBy rk k zs = None" if "rk k = rk k0"
    using that Cons.prems(2) z by (intro lookupBy_gt) auto
  then show ?case
    using Cons.IH [of "interStep rk F ys z xs"] Cons.prems z lookupBy_rank_cong [of rk k k0 ys]
    by (auto simp: sortedBy_updBy lookupBy_updBy split: option.splits)
qed (simp split: option.splits)

text \<open>A predicate value computes \<open>P\<close> on the given entries.\<close>

definition decides :: "applier \<Rightarrow> val \<Rightarrow> (val \<Rightarrow> val \<Rightarrow> bool) \<Rightarrow> avlEntry list \<Rightarrow> bool" where
  "decides ap p P xs \<longleftrightarrow> (\<forall>(k, v) \<in> set xs. \<forall>c w. applyNA ap p [k, v] c w = (Ret (boolVal (P k v)) c, w))"

lemma decides_simps [simp]:
  "decides ap p P (xs @ ys) \<longleftrightarrow> decides ap p P xs \<and> decides ap p P ys"
  "decides ap p P ((k, v) # xs) \<longleftrightarrow> (\<forall>c w. applyNA ap p [k, v] c w = (Ret (boolVal (P k v)) c, w)) \<and> decides ap p P xs"
  by (simp_all add: decides_def ball_Un)

context pure_key_order
begin

lemma intersectWalk_law:
  assumes "computes2 ap f V F" "wfMap K rk cmp m2" "valsIn V (mapEntries m2)"
  shows "wfMap K rk cmp m \<Longrightarrow> keysIn K (inorder n) \<Longrightarrow> valsIn V (inorder n) \<Longrightarrow> freeAlloc w \<Longrightarrow>
   \<exists>m' w'. avlIntersectWalk n m2 f m c ap w = (Ret m' c, w') \<and> wfMap K rk cmp m' \<and>
     mapEntries m' = fold (interStep rk F (mapEntries m2)) (inorder n) (mapEntries m) \<and> freeAlloc w' \<and> onlyBudget w w'"
proof (induction n arbitrary: m w)
  case (AvlNode nk nv l r h)
  obtain m1 w1 where L: "avlIntersectWalk l m2 f m c ap w = (Ret m1 c, w1)" "wfMap K rk cmp m1"
    "mapEntries m1 = fold (interStep rk F (mapEntries m2)) (inorder l) (mapEntries m)" "freeAlloc w1" "onlyBudget w w1"
    using AvlNode.IH(1) [OF AvlNode.prems(1) _ _ AvlNode.prems(4)] AvlNode.prems(2,3) by auto
  have nk: "K nk" "V nv" "keysIn K (inorder r)" "valsIn V (inorder r)" using AvlNode.prems by auto
  note lk = lookup_spec [OF wfMapD(3,4) [OF assms(2)] nk(1), of c w1] wfMapD(1) [OF assms(2)]
  show ?case
  proof (cases "lookupBy rk nk (mapEntries m2)")
    case None
    then show ?thesis
      using AvlNode.IH(2) [OF L(2) nk(3,4) L(4)] L lk onlyBudget_trans [OF L(5)] by auto
  next
    case (Some v2)
    obtain w2 where w2: "\<And>ce k. charge costAVLNode ce w1 k = (k w2 :: val mapVal gores)" "freeAlloc w2" "onlyBudget w1 w2"
      using charge_free [OF L(4) cost_nonneg] by blast
    obtain n' where n': "avlInsert (mroot m1) nk (F nv v2) cmp c ap w2 = (Ret (n', mapAt rk m1 nk = None) c, w2)"
      "wfMap K rk cmp (MapVal n' cmp (if mapAt rk m1 nk = None then msize m1 + 1 else msize m1))"
      "inorder n' = updBy rk nk (F nv v2) (mapEntries m1)"
      using insert_map [OF L(2) nk(1)] by blast
    have "applyNA ap f [nv, v2] c w1 = (Ret (F nv v2) c, w1)"
      using assms(1) nk(2) valsIn_lookupBy [OF assms(3) Some] by (auto simp: computes2_def)
    then show ?thesis
      using AvlNode.IH(2) [OF n'(2) nk(3,4) w2(2)] L n' w2 lk Some wfMapD(1) [OF L(2)]
        onlyBudget_trans [OF L(5) onlyBudget_trans [OF w2(3)]] by auto
  qed
qed auto

lemma filter_law:
  "wfMap K rk cmp (MapVal root cmp sz) \<Longrightarrow> keysIn K (inorder n) \<Longrightarrow> decides ap p P (inorder n) \<Longrightarrow>
   \<exists>root' sz'. avlFilterWithKey n p cmp (root, sz) c ap w = (Ret (root', sz') c, w) \<and>
     wfMap K rk cmp (MapVal root' cmp sz') \<and>
     inorder root' = fold (\<lambda>(k, v). updBy rk k v) (filter (\<lambda>(k, v). P k v) (inorder n)) (inorder root)"
proof (induction n arbitrary: root sz)
  case (AvlNode nk nv l r h)
  obtain r1 s1 where L: "avlFilterWithKey l p cmp (root, sz) c ap w = (Ret (r1, s1) c, w)"
    "wfMap K rk cmp (MapVal r1 cmp s1)"
    "inorder r1 = fold (\<lambda>(k, v). updBy rk k v) (filter (\<lambda>(k, v). P k v) (inorder l)) (inorder root)"
    using AvlNode.IH(1) [OF AvlNode.prems(1)] AvlNode.prems(2,3) by auto
  have nk: "K nk" "keysIn K (inorder r)" "decides ap p P (inorder r)"
    "applyNA ap p [nk, nv] c w = (Ret (boolVal (P nk nv)) c, w)" using AvlNode.prems by auto
  show ?case
  proof (cases "P nk nv")
    case False
    then show ?thesis using AvlNode.IH(2) [OF L(2) nk(2,3)] L nk(4) by (auto simp: boolVal_def mkCon_def)
  next
    case True
    obtain n' where n': "avlInsert r1 nk nv cmp c ap w = (Ret (n', mapAt rk (MapVal r1 cmp s1) nk = None) c, w)"
      "wfMap K rk cmp (MapVal n' cmp (if mapAt rk (MapVal r1 cmp s1) nk = None then s1 + 1 else s1))"
      "inorder n' = updBy rk nk nv (inorder r1)"
      using insert_map [OF L(2) nk(1), of nv c w] unfolding mapVal.sel by blast
    show ?thesis using AvlNode.IH(2) [OF n'(2) nk(2,3)] L n' nk(4) True by (auto simp: boolVal_def mkCon_def)
  qed
qed auto

text \<open>The merge joins behind the set operations.\<close>

lemma mergeJoin_law:
  assumes "wfMap K rk cmp s1" "wfMap K rk cmp s2"
  shows "\<exists>root. avlMergeSorted (avlToSlice (mroot s1)) (avlToSlice (mroot s2)) [] cmp c ap L R B w =
      (Ret (mergeBy rk L R B (mapEntries s1) (mapEntries s2)) c, w) \<and>
    sortedToAVL (mergeBy rk L R B (mapEntries s1) (mapEntries s2)) = Some root \<and>
    wfMap K rk cmp (MapVal root cmp (int (length (mergeBy rk L R B (mapEntries s1) (mapEntries s2))))) \<and>
    (\<forall>k. mapAt rk (MapVal root cmp (int (length (mergeBy rk L R B (mapEntries s1) (mapEntries s2))))) k =
       joinOpt L R B (mapAt rk s1 k) (mapAt rk s2 k))"
proof -
  note wf = wfMapD [OF assms(1)] and wf' = wfMapD [OF assms(2)]
  let ?es = "mergeBy rk L R B (mapEntries s1) (mapEntries s2)"
  obtain root where "sortedToAVL ?es = Some root" "avl root" "inorder root = ?es"
    using sortedToAVL_spec by blast
  then show ?thesis
    using merge_spec [OF wf(4) wf'(4)] sortedBy_mergeBy [OF wf(6) wf'(6)] keysIn_mergeBy [OF wf(4) wf'(4)]
      lookupBy_mergeBy [OF wf(6) wf'(6)]
    by (auto simp: avlToSlice_inorder bst_def avlSize_inorder mapAt_def)
qed

lemma allMember_law:
  assumes "wfMap K rk cmp s2" "keysIn K (inorder n)"
  shows "avlAllMember n s2 c ap w = (Ret (\<forall>(k, v) \<in> set (inorder n). mapAt rk s2 k \<noteq> None) c, w)"
  using assms(2)
proof (induction n)
  case (AvlNode nk nv l r h)
  then have "K nk" "keysIn K (inorder l)" "keysIn K (inorder r)" by auto
  then show ?case
    using AvlNode.IH lookup_spec [OF wfMapD(3,4) [OF assms(1)], of nk c w] wfMapD(1) [OF assms(1)]
    by (auto simp: mapAt_def ball_Un)
qed simp

end

section \<open>Integer keys on the machine's applier\<close>

abbreviation intApplier :: "vmEnv \<Rightarrow> nat \<Rightarrow> applier" where
  "intApplier E fuel \<equiv> vmApplier (intEnv E) (Suc fuel)"

definition intMap :: "val mapVal \<Rightarrow> bool" where
  "intMap m \<longleftrightarrow> wfMap isIntVal intRank cmpIntVal m"

definition mapOf :: "val mapVal \<Rightarrow> int64 \<rightharpoonup> val" where
  "mapOf m = (\<lambda>k. mapAt intRank m (intVal k))"

definition setOf :: "val mapVal \<Rightarrow> int64 set" where
  "setOf m = dom (mapOf m)"

abbreviation setHost :: "val mapVal \<Rightarrow> val" where
  "setHost m \<equiv> HostVal (HMap m)"

lemma sint64_inj [simp]: "sint (a :: int64) = sint b \<longleftrightarrow> a = b"
  using signed_word_eqI by auto

lemma mapOf_updBy:
  assumes "intMap m" "mapEntries m' = updBy intRank (intVal k) v (mapEntries m)"
  shows "mapOf m' = (mapOf m)(k \<mapsto> v)"
  using assms(2) lookupBy_updBy [OF wfMapD(6) [OF assms(1) [unfolded intMap_def]]]
  by (auto simp: mapOf_def mapAt_def fun_eq_iff)

lemma mapOf_delBy:
  assumes "intMap m" "mapEntries m' = delBy intRank (intVal k) (mapEntries m)"
  shows "mapOf m' = (mapOf m)(k := None)"
  using assms(2) lookupBy_delBy [OF wfMapD(6) [OF assms(1) [unfolded intMap_def]]]
  by (auto simp: mapOf_def mapAt_def fun_eq_iff)

lemma lookupBy_ints: "lookupBy intRank (intVal k) (map (\<lambda>(k, v). (intVal k, v)) kvs) = map_of kvs k"
  by (induction kvs) auto

lemma mapOf_fromList:
  assumes "mapEntries m = fold (\<lambda>(k, v). updBy intRank k v) (map (\<lambda>(k, v). (intVal k, v)) kvs) []"
  shows "mapOf m = map_of (rev kvs)"
  using assms lookupBy_ints [of _ "rev kvs"]
  by (auto simp: mapOf_def mapAt_def lookupBy_fold_updBy rev_map fun_eq_iff split: option.splits)

lemma int_keys: "keysIn isIntVal (map (\<lambda>(k, v). (intVal k, v)) kvs)"
  by (auto simp: keysIn_def)

text \<open>The size field of a well-formed map is the number of its keys.\<close>

lemma keysIn_ints: "keysIn isIntVal xs \<Longrightarrow> \<exists>kvs. xs = map (\<lambda>(k, v). (intVal k, v)) kvs"
proof (induction xs)
  case (Cons x xs)
  obtain k v where x: "x = (intVal k, v)" using Cons.prems by (cases x) (auto simp: isIntVal_def)
  obtain kvs where "xs = map (\<lambda>(k, v). (intVal k, v)) kvs" using Cons.IH Cons.prems x by auto
  then have "x # xs = map (\<lambda>(k, v). (intVal k, v)) ((k, v) # kvs)" using x by simp
  then show ?case by (rule exI)
qed simp

lemma intMap_table:
  assumes "intMap m"
  obtains kvs where "mapEntries m = map (\<lambda>(k, v). (intVal k, v)) kvs" "mapOf m = map_of kvs"
proof -
  obtain kvs where kvs: "mapEntries m = map (\<lambda>(k, v). (intVal k, v)) kvs"
    using keysIn_ints [OF wfMapD(4) [OF assms [unfolded intMap_def]]] by blast
  moreover have "mapOf m = map_of kvs" using kvs by (simp add: mapOf_def mapAt_def lookupBy_ints fun_eq_iff)
  ultimately show ?thesis by (rule that)
qed

lemma intMap_finite: "intMap m \<Longrightarrow> finite (setOf m)"
  by (metis intMap_table finite_dom_map_of setOf_def)

lemma intMap_entries:
  assumes "intMap m"
  shows "(\<forall>(k, v) \<in> set (mapEntries m). Q k) \<longleftrightarrow> (\<forall>k \<in> setOf m. Q (intVal k))"
proof -
  obtain kvs where "mapEntries m = map (\<lambda>(k, v). (intVal k, v)) kvs" "mapOf m = map_of kvs"
    using intMap_table [OF assms] by blast
  then show ?thesis by (auto simp: setOf_def dom_map_of_conv_image_fst)
qed

lemma intMap_card:
  assumes "intMap m"
  shows "msize m = int (card (dom (mapOf m)))"
proof -
  note wf = wfMapD [OF assms [unfolded intMap_def]]
  obtain kvs where kvs: "mapEntries m = map (\<lambda>(k, v). (intVal k, v)) kvs" "mapOf m = map_of kvs"
    using intMap_table [OF assms] by blast
  have "sorted_wrt (<) (map (\<lambda>(k, v). sint k) kvs)"
    using wf(6) kvs by (simp add: sortedBy_def comp_def case_prod_unfold)
  then have "distinct (map (\<lambda>(k, v). sint k) kvs)" by (simp add: strict_sorted_iff)
  then have "distinct (map fst kvs)" by (auto simp: distinct_map inj_on_def case_prod_unfold)
  then show ?thesis
    using wf(5) kvs by (simp add: avlSize_inorder dom_map_of_conv_image_fst distinct_card [of "map fst kvs", simplified])
qed

section \<open>Properties\<close>



text \<open>C30: Lookup, membership and size of a well-formed map with \<open>Int\<close> keys read its lookup function: the
  stored value or Nothing, whether the key is bound, and the number of keys.\<close>

theorem map_queries_refine:
  assumes "intMap m"
  shows "mapLookupImpl c [cmpIntVal, intVal k, HostVal (HMap m)] (intApplier E fuel) w =
      (Ret (case mapOf m k of Some v \<Rightarrow> justVal v | None \<Rightarrow> nothingVal) c, w) \<and>
    mapMemberImpl c [cmpIntVal, intVal k, HostVal (HMap m)] (intApplier E fuel) w = (Ret (boolVal (k \<in> dom (mapOf m))) c, w) \<and>
    mapSizeImpl c [HostVal (HMap m)] ap w = (Ret (intVal (word_of_nat (card (dom (mapOf m))))) c, w)"
  using intKeys.mapLookup_law [OF assms [unfolded intMap_def] isIntVal_intVal]
    intKeys.mapMember_law [OF assms [unfolded intMap_def] isIntVal_intVal] intMap_card [OF assms]
  by (simp add: mapOf_def mapSizeImpl_def domIff)

theorem map_queries_refine_witness:
  "mapLookupImpl emptyCapEnv [cmpIntVal, intVal 7, mapHost AvlNil cmpIntVal 0] (intApplier failingEnv 0) world0 =
     (Ret nothingVal emptyCapEnv, world0)"
proof -
  have "intMap (MapVal AvlNil cmpIntVal 0)" by (simp add: intMap_def bst_def)
  from map_queries_refine [OF this, of emptyCapEnv 7 failingEnv 0 world0] show ?thesis
    by (simp add: mapOf_def mapAt_def)
qed

text \<open>A map built from a list of pairs binds each key to the last value given for it, and listing the
  entries of a map and building a map from that list gives back the same entries.\<close>

theorem map_list_roundtrip:
  assumes "freeAlloc w"
  shows "\<exists>m w1. mapFromListImpl c [cmpIntVal, consList (map (\<lambda>(k, v). mkPair (intVal k) v) kvs)] (intApplier E fuel) w =
      (Ret (HostVal (HMap m)) c, w1) \<and> intMap m \<and> mapOf m = map_of (rev kvs) \<and>
    (\<exists>m' w2. mapFromListImpl c [cmpIntVal, avlToConsList (mroot m)] (intApplier E fuel) w1 = (Ret (HostVal (HMap m')) c, w2) \<and>
       intMap m' \<and> mapEntries m' = mapEntries m)"
proof -
  let ?kvs = "map (\<lambda>(k, v). (intVal k, v)) kvs"
  obtain m w1 where m: "mapFromListImpl c [cmpIntVal, consList (map (\<lambda>(k, v). mkPair k v) ?kvs)] (intApplier E fuel) w =
      (Ret (HostVal (HMap m)) c, w1)" "wfMap isIntVal intRank cmpIntVal m"
    "mapEntries m = fold (\<lambda>(k, v). updBy intRank k v) ?kvs []" "freeAlloc w1"
    using intKeys.mapFromList_law [OF int_keys assms] by blast
  obtain m' w2 where "mapFromListImpl c [cmpIntVal, consList (map (\<lambda>(k, v). mkPair k v) (mapEntries m))] (intApplier E fuel) w1 =
      (Ret (HostVal (HMap m')) c, w2)" "wfMap isIntVal intRank cmpIntVal m'"
    "mapEntries m' = fold (\<lambda>(k, v). updBy intRank k v) (mapEntries m) []"
    using intKeys.mapFromList_law [OF wfMapD(4) [OF m(2)] m(4)] by blast
  then show ?thesis
    using m mapOf_fromList [OF m(3)] fold_updBy_sorted [of intRank "[]" "mapEntries m"] wfMapD(6) [OF m(2)]
    by (auto simp: intMap_def consList_projections comp_def case_prod_unfold simp del: mkPair_eq)
qed

theorem map_list_roundtrip_witness:
  "\<exists>m w1. mapFromListImpl emptyCapEnv [cmpIntVal, consList [mkPair (intVal 1) UnitVal, mkPair (intVal 1) nothingVal]]
     (intApplier failingEnv 0) world0 = (Ret (HostVal (HMap m)) emptyCapEnv, w1) \<and> mapOf m 1 = Some nothingVal"
proof -
  have "freeAlloc world0" by (simp add: freeAlloc_def world0_def)
  from map_list_roundtrip [OF this, of emptyCapEnv "[(1, UnitVal), (1, nothingVal)]" failingEnv 0]
  show ?thesis by fastforce
qed



text \<open>Filtering a map keeps exactly the entries on which the predicate answers True, in order, and the
  size of the result counts them.\<close>

theorem map_filter_keeps:
  assumes "intMap m" "decides (intApplier E fuel) p P (mapEntries m)"
    and "charge (word_of_int (msize m) * costAVLNode) c w (\<lambda>w. (Ret UnitVal c, w)) = (Ret UnitVal c, w1)"
  shows "\<exists>m'. mapFilterWithKeyImpl c [p, HostVal (HMap m)] (intApplier E fuel) w = (Ret (HostVal (HMap m')) c, w1) \<and>
    intMap m' \<and> mapEntries m' = filter (\<lambda>(k, v). P k v) (mapEntries m)"
proof -
  note wf = wfMapD [OF assms(1) [unfolded intMap_def]]
  have ch: "charge (word_of_int (msize m) * costAVLNode) c w k = (k w1 :: val gores)" for k
    using assms(3) by (auto simp: charge_def split: prod.splits option.splits)
  have "wfMap isIntVal intRank cmpIntVal (MapVal AvlNil cmpIntVal 0)" by (simp add: bst_def)
  then obtain root sz where r: "avlFilterWithKey (mroot m) p cmpIntVal (AvlNil, 0) c (intApplier E fuel) w1 = (Ret (root, sz) c, w1)"
    "wfMap isIntVal intRank cmpIntVal (MapVal root cmpIntVal sz)"
    "inorder root = fold (\<lambda>(k, v). updBy intRank k v) (filter (\<lambda>(k, v). P k v) (mapEntries m)) []"
    using intKeys.filter_law [OF _ wf(4) assms(2)] by fastforce
  have "sortedBy intRank (filter (\<lambda>(k, v). P k v) (mapEntries m))"
    using wf(6) unfolding sortedBy_def by (induction "mapEntries m") (auto simp: sorted_wrt_map sorted_wrt_filter)
  then have "inorder root = filter (\<lambda>(k, v). P k v) (mapEntries m)"
    using fold_updBy_sorted [of intRank "[]"] r(3) by simp
  then show ?thesis
    using r ch wf(1) by (auto simp: mapFilterWithKeyImpl_def intMap_def simp del: vmApplier.simps)
qed

theorem map_filter_keeps_witness:
  "\<exists>m'. mapFilterWithKeyImpl emptyCapEnv [UnitVal, mapHost AvlNil cmpIntVal 0] (intApplier failingEnv 0) world0 =
     (Ret (HostVal (HMap m')) emptyCapEnv, world0) \<and> intMap m'"
proof -
  have "intMap (MapVal AvlNil cmpIntVal 0)" "decides (intApplier failingEnv 0) UnitVal (\<lambda>_ _. True) (mapEntries (MapVal AvlNil cmpIntVal 0))"
    "charge (word_of_int (msize (MapVal AvlNil cmpIntVal 0)) * costAVLNode) emptyCapEnv world0
       (\<lambda>w. (Ret UnitVal emptyCapEnv, w)) = (Ret UnitVal emptyCapEnv, world0)"
    by (simp_all add: intMap_def bst_def decides_def charge_def chargeAlloc_def world0_def)
  from map_filter_keeps [OF this] show ?thesis by blast
qed

text \<open>C31: The merge joins behind the set primitives compute union, intersection and difference of the key
  sets, and the subset test decides inclusion, on well-formed sets of integers.\<close>

theorem set_operations_correct:
  assumes "intMap s1" "intMap s2"
  shows "\<exists>su si sd.
    setUnionImpl c [cmpIntVal, setHost s1, setHost s2] (intApplier E fuel) w = (Ret (setHost su) c, w) \<and>
    intMap su \<and> setOf su = setOf s1 \<union> setOf s2 \<and>
    setIntersectionImpl c [cmpIntVal, setHost s1, setHost s2] (intApplier E fuel) w = (Ret (setHost si) c, w) \<and>
    intMap si \<and> setOf si = setOf s1 \<inter> setOf s2 \<and>
    setDifferenceImpl c [cmpIntVal, setHost s1, setHost s2] (intApplier E fuel) w = (Ret (setHost sd) c, w) \<and>
    intMap sd \<and> setOf sd = setOf s1 - setOf s2 \<and>
    setIsSubsetOfImpl c [cmpIntVal, setHost s1, setHost s2] (intApplier E fuel) w = (Ret (boolVal (setOf s1 \<subseteq> setOf s2)) c, w)"
proof -
  note wf1 = assms(1) [unfolded intMap_def] and wf2 = assms(2) [unfolded intMap_def]
  note join = intKeys.mergeJoin_law [OF wf1 wf2, where E = E and m = fuel and c = c and w = w]
  have cmp: "mcmp s1 = cmpIntVal" "mcmp s2 = cmpIntVal" using wfMapD(1) wf1 wf2 by auto
  obtain su where u: "setUnionImpl c [cmpIntVal, setHost s1, setHost s2] (intApplier E fuel) w = (Ret (setHost su) c, w)"
    "intMap su" "\<forall>k. mapAt intRank su k = joinOpt MergeKeep MergeKeep MergeKeep (mapAt intRank s1 k) (mapAt intRank s2 k)"
    using join [where L = MergeKeep and R = MergeKeep and B = MergeKeep] cmp
    by (auto simp: setUnionImpl_def avlMergeUnion_def intMap_def simp del: vmApplier.simps)
  obtain si where i: "setIntersectionImpl c [cmpIntVal, setHost s1, setHost s2] (intApplier E fuel) w = (Ret (setHost si) c, w)"
    "intMap si" "\<forall>k. mapAt intRank si k = joinOpt MergeSkip MergeSkip MergeKeep (mapAt intRank s1 k) (mapAt intRank s2 k)"
    using join [where L = MergeSkip and R = MergeSkip and B = MergeKeep] cmp
    by (auto simp: setIntersectionImpl_def avlMergeIntersect_def intMap_def simp del: vmApplier.simps)
  obtain sd where d: "setDifferenceImpl c [cmpIntVal, setHost s1, setHost s2] (intApplier E fuel) w = (Ret (setHost sd) c, w)"
    "intMap sd" "\<forall>k. mapAt intRank sd k = joinOpt MergeKeep MergeSkip MergeSkip (mapAt intRank s1 k) (mapAt intRank s2 k)"
    using join [where L = MergeKeep and R = MergeSkip and B = MergeSkip] cmp
    by (auto simp: setDifferenceImpl_def avlMergeDifference_def intMap_def simp del: vmApplier.simps)
  have "setOf su = setOf s1 \<union> setOf s2" "setOf si = setOf s1 \<inter> setOf s2" "setOf sd = setOf s1 - setOf s2"
    using u(3) i(3) d(3) by (auto simp: setOf_def mapOf_def joinOpt_def domIff split: option.splits if_splits)
  moreover have "setIsSubsetOfImpl c [cmpIntVal, setHost s1, setHost s2] (intApplier E fuel) w = (Ret (boolVal (setOf s1 \<subseteq> setOf s2)) c, w)"
  proof (cases "msize s1 > msize s2")
    case True
    then have "\<not> setOf s1 \<subseteq> setOf s2"
      using intMap_card [OF assms(1)] intMap_card [OF assms(2)] card_mono [OF intMap_finite [OF assms(2)], of "setOf s1"]
      by (auto simp: setOf_def)
    then show ?thesis using True by (simp add: setIsSubsetOfImpl_def)
  next
    case False
    have "(\<forall>(k, v) \<in> set (mapEntries s1). mapAt intRank s2 k \<noteq> None) \<longleftrightarrow> setOf s1 \<subseteq> setOf s2"
      unfolding intMap_entries [OF assms(1)] by (auto simp: setOf_def mapOf_def domIff subset_iff)
    then show ?thesis
      using False intKeys.allMember_law [OF wf2 wfMapD(4) [OF wf1], where E = E and m = fuel and c = c and w = w]
      by (simp add: setIsSubsetOfImpl_def del: vmApplier.simps)
  qed
  ultimately show ?thesis using u i d by blast
qed

theorem set_operations_correct_witness:
  "\<exists>su. setUnionImpl emptyCapEnv [cmpIntVal, mapHost AvlNil cmpIntVal 0, mapHost AvlNil cmpIntVal 0] (intApplier failingEnv 0) world0 =
     (Ret (setHost su) emptyCapEnv, world0) \<and> setOf su = {}"
proof -
  let ?s = "MapVal AvlNil cmpIntVal 0"
  have "intMap ?s" "setOf ?s = {}" by (simp_all add: intMap_def bst_def setOf_def mapOf_def mapAt_def)
  then show ?thesis
    using set_operations_correct [of ?s ?s emptyCapEnv failingEnv 0 world0] by auto
qed

text \<open>Union, intersection and difference of sets allocate without charging: on sets of integers of any
  size they leave the budget exactly as it was, even one whose allocation limit is already used up,
  while inserting a single element under that budget is refused.\<close>

theorem set_merge_uncharged:
  assumes "intMap s1" "intMap s2"
    and "w_budget w = Some b" "b_ctx b = None" "0 < sint (b_maxAlloc b)" "b_alloc b = b_maxAlloc b"
    "sint (b_maxAlloc b) + 64 < 2 ^ 63"
  shows "(\<exists>su. setUnionImpl c [cmpIntVal, setHost s1, setHost s2] (intApplier E fuel) w = (Ret (setHost su) c, w)) \<and>
    (\<exists>e w'. setInsertImpl c [cmpIntVal, intVal k, setHost s1] (intApplier E fuel) w = (Err (LimitErr e) c, w'))"
proof -
  note wf1 = assms(1) [unfolded intMap_def] and wf2 = assms(2) [unfolded intMap_def]
  have "\<exists>su. setUnionImpl c [cmpIntVal, setHost s1, setHost s2] (intApplier E fuel) w = (Ret (setHost su) c, w)"
    using intKeys.mergeJoin_law [OF wf1 wf2, where E = E and m = fuel and c = c and w = w and L = MergeKeep
        and R = MergeKeep and B = MergeKeep] wfMapD(1) [OF wf1]
    by (auto simp: setUnionImpl_def avlMergeUnion_def simp del: vmApplier.simps)
  moreover have "sint (b_alloc b + 64) = sint (b_maxAlloc b) + 64"
    using assms(5-7) sint64_add_no_overflow [of "b_alloc b" 64] by simp
  then have "\<exists>e b'. chargeAlloc costAVLNode (w_budget w) = (Some e, b')"
    using assms(3-6) by (auto simp: chargeAlloc_def allocB_def Let_def costAVLNode_def go_simps)
  then have "\<exists>e w'. setInsertImpl c [cmpIntVal, intVal k, setHost s1] (intApplier E fuel) w = (Err (LimitErr e) c, w')"
    by (auto simp: setInsertImpl_def charge_def)
  ultimately show ?thesis by blast
qed

theorem set_merge_uncharged_witness:
  "let w = world0\<lparr> w_budget := Some ((setAllocLimit 64 (newBudget None 0 0))\<lparr> b_alloc := 64 \<rparr>) \<rparr> in
   \<exists>su. setUnionImpl emptyCapEnv [cmpIntVal, mapHost AvlNil cmpIntVal 0, mapHost AvlNil cmpIntVal 0] (intApplier failingEnv 0) w =
     (Ret (setHost su) emptyCapEnv, w)"
proof -
  let ?s = "MapVal AvlNil cmpIntVal 0" and ?b = "(setAllocLimit 64 (newBudget None 0 0))\<lparr> b_alloc := 64 \<rparr>"
  have "intMap ?s" by (simp add: intMap_def bst_def)
  moreover have "b_ctx ?b = None" "0 < sint (b_maxAlloc ?b)" "b_alloc ?b = b_maxAlloc ?b" "sint (b_maxAlloc ?b) + 64 < 2 ^ 63"
    by (simp_all add: setAllocLimit_def newBudget_def Let_def go_simps)
  ultimately show ?thesis
    using set_merge_uncharged [of ?s ?s "world0\<lparr> w_budget := Some ?b \<rparr>" ?b emptyCapEnv failingEnv 0]
    by (auto simp: Let_def)
qed

end
