(* ===== verification/Finger_Tree.thy ===== *)
theory Finger_Tree
  imports Stdlib_Base
begin

text \<open>
  The 2-3 finger tree of \<^verbatim>\<open>internal/host/stdlib/fingertree.go\<close> and the \<^verbatim>\<open>Data.Sequence\<close> primitives of
  \<^verbatim>\<open>sequence.go\<close>. The spine stores nodes as ordinary values that wrap a \<^verbatim>\<open>*node23\<close>, and the code tells
  elements from nodes by that dynamic type, so trees of every level have the same type, here as in Go.
  Where the code asserts that a value is a node, or indexes a digit, a failure is the outer \<open>None\<close> (a
  panic); a nil result is the inner one. Sizes are Go \<^verbatim>\<open>int\<close>s that count elements, here \<open>int\<close>.
\<close>

type_synonym ft = "val ftree"

section \<open>Nodes and digits\<close>

definition extractNode :: "val \<Rightarrow> val node23 option" where
  "extractNode v = (case v of HostVal h \<Rightarrow> (case h of HNode nd \<Rightarrow> Some nd | _ \<Rightarrow> None) | _ \<Rightarrow> None)"

definition elemSize :: "val \<Rightarrow> int" where
  "elemSize v = (case extractNode v of Some nd \<Rightarrow> nsize nd | None \<Rightarrow> 1)"

fun ftreeSize :: "ft \<Rightarrow> int" where
  "ftreeSize FtEmpty = 0"
| "ftreeSize (FtSingle e) = elemSize e"
| "ftreeSize (FtDeep s l m r) = s"

definition mkNode2 :: "val \<Rightarrow> val \<Rightarrow> val node23" where
  "mkNode2 a b = Node23 (elemSize a + elemSize b) [a, b]"

definition mkNode3 :: "val \<Rightarrow> val \<Rightarrow> val \<Rightarrow> val node23" where
  "mkNode3 a b c = Node23 (elemSize a + elemSize b + elemSize c) [a, b, c]"

definition nodeVal :: "val node23 \<Rightarrow> val" where
  "nodeVal n = HostVal (HNode n)"

definition asNode :: "val \<Rightarrow> val node23 option" where
  "asNode v = extractNode v"

fun digitSizeLoop :: "val list \<Rightarrow> int \<Rightarrow> int" where
  "digitSizeLoop [] s = s"
| "digitSizeLoop (v # d) s = digitSizeLoop d (case extractNode v of Some nd \<Rightarrow> s + nsize nd | None \<Rightarrow> s + 1)"

definition digitSize :: "val list \<Rightarrow> int" where
  "digitSize d = digitSizeLoop d 0"

definition deepSize :: "val list \<Rightarrow> ft \<Rightarrow> val list \<Rightarrow> int" where
  "deepSize l m r = digitSize l + ftreeSize m + digitSize r"

definition mkDeep :: "val list \<Rightarrow> ft \<Rightarrow> val list \<Rightarrow> ft" where
  "mkDeep l m r = FtDeep (deepSize l m r) l m r"

section \<open>Both ends\<close>

fun ftCons :: "val \<Rightarrow> ft \<Rightarrow> ft" where
  "ftCons a FtEmpty = FtSingle a"
| "ftCons a (FtSingle e) = mkDeep [a] FtEmpty [e]"
| "ftCons a (FtDeep s l m r) =
     (if length l < 4 then mkDeep (a # l) m r
      else mkDeep [a, l ! 0] (ftCons (nodeVal (mkNode3 (l ! 1) (l ! 2) (l ! 3))) m) r)"

fun ftSnoc :: "ft \<Rightarrow> val \<Rightarrow> ft" where
  "ftSnoc FtEmpty a = FtSingle a"
| "ftSnoc (FtSingle e) a = mkDeep [e] FtEmpty [a]"
| "ftSnoc (FtDeep s l m r) a =
     (if length r < 4 then mkDeep l m (r @ [a])
      else mkDeep l (ftSnoc m (nodeVal (mkNode3 (r ! 0) (r ! 1) (r ! 2)))) [r ! 3, a])"

definition digitToTree :: "val list \<Rightarrow> ft" where
  "digitToTree d =
     (case d of [] \<Rightarrow> FtEmpty | [x] \<Rightarrow> FtSingle x
      | _ \<Rightarrow> let mid = length d div 2 in mkDeep (take mid d) FtEmpty (drop mid d))"

fun ftUncons :: "ft \<Rightarrow> (val \<times> ft) option option" where
  "ftUncons FtEmpty = Some None"
| "ftUncons (FtSingle e) = Some (Some (e, FtEmpty))"
| "ftUncons (FtDeep s l m r) =
     (case l of
        [] \<Rightarrow> None
      | h # l' \<Rightarrow>
          if length l > 1 then Some (Some (h, mkDeep l' m r))
          else (case ftUncons m of
                  None \<Rightarrow> None
                | Some None \<Rightarrow> Some (Some (h, digitToTree r))
                | Some (Some (h2, t2)) \<Rightarrow>
                    (case asNode h2 of None \<Rightarrow> None | Some nd \<Rightarrow> Some (Some (h, mkDeep (nelems nd) t2 r)))))"

fun ftUnsnoc :: "ft \<Rightarrow> (ft \<times> val) option option" where
  "ftUnsnoc FtEmpty = Some None"
| "ftUnsnoc (FtSingle e) = Some (Some (FtEmpty, e))"
| "ftUnsnoc (FtDeep s l m r) =
     (if r = [] then None
      else if length r > 1 then Some (Some (mkDeep l m (butlast r), last r))
      else (case ftUnsnoc m of
              None \<Rightarrow> None
            | Some None \<Rightarrow> Some (Some (digitToTree l, last r))
            | Some (Some (ini, lst)) \<Rightarrow>
                (case asNode lst of None \<Rightarrow> None | Some nd \<Rightarrow> Some (Some (mkDeep l ini (nelems nd), last r)))))"

section \<open>Concatenation\<close>

fun nodify :: "val list \<Rightarrow> val list" where
  "nodify [] = []"
| "nodify [a] = []"
| "nodify [a, b] = [nodeVal (mkNode2 a b)]"
| "nodify [a, b, c] = [nodeVal (mkNode3 a b c)]"
| "nodify [a, b, c, d] = [nodeVal (mkNode2 a b), nodeVal (mkNode2 c d)]"
| "nodify (a # b # c # rest) = nodeVal (mkNode3 a b c) # nodify rest"

fun ftAppend3 :: "ft \<Rightarrow> val list \<Rightarrow> ft \<Rightarrow> ft" where
  "ftAppend3 FtEmpty mid right = foldr ftCons mid right"
| "ftAppend3 (FtSingle e) mid right = ftCons e (foldr ftCons mid right)"
| "ftAppend3 (FtDeep s l m r) mid FtEmpty = foldl ftSnoc (FtDeep s l m r) mid"
| "ftAppend3 (FtDeep s l m r) mid (FtSingle e) = ftSnoc (foldl ftSnoc (FtDeep s l m r) mid) e"
| "ftAppend3 (FtDeep s l m r) mid (FtDeep s' l' m' r') = mkDeep l (ftAppend3 m (nodify (r @ mid @ l')) m') r'"

definition ftAppend :: "ft \<Rightarrow> ft \<Rightarrow> ft" where
  "ftAppend left right = ftAppend3 left [] right"

section \<open>Indexing\<close>

text \<open>\<^verbatim>\<open>nodeIndex\<close> on the elements of a node.\<close>

fun nodeIndexLoop :: "val list \<Rightarrow> int \<Rightarrow> val option" where
  "nodeIndexLoop [] i = None"
| "nodeIndexLoop (e # es) i =
     (if i < elemSize e
      then (case e of HostVal (HNode (Node23 s es')) \<Rightarrow> nodeIndexLoop es' i | _ \<Rightarrow> Some e)
      else nodeIndexLoop es (i - elemSize e))"

definition nodeIndex :: "val node23 \<Rightarrow> int \<Rightarrow> val option" where
  "nodeIndex n i = nodeIndexLoop (nelems n) i"

fun digitIndex :: "val list \<Rightarrow> int \<Rightarrow> val option" where
  "digitIndex [] i = None"
| "digitIndex (v # d) i =
     (if i < elemSize v then (case extractNode v of Some n \<Rightarrow> nodeIndex n i | None \<Rightarrow> Some v)
      else digitIndex d (i - elemSize v))"

fun ftIndexNode :: "ft \<Rightarrow> int \<Rightarrow> val option option" where
  "ftIndexNode FtEmpty i = Some None"
| "ftIndexNode (FtSingle e) i = (case asNode e of None \<Rightarrow> None | Some nd \<Rightarrow> Some (nodeIndex nd i))"
| "ftIndexNode (FtDeep s l m r) i =
     (let ls = digitSize l
      in if i < ls then Some (digitIndex l i)
         else let i = i - ls; ms = ftreeSize m
              in if i < ms then ftIndexNode m i else Some (digitIndex r (i - ms)))"

definition ftIndex :: "ft \<Rightarrow> int \<Rightarrow> val option option" where
  "ftIndex t i =
     (case t of
        FtEmpty \<Rightarrow> Some None
      | FtSingle e \<Rightarrow> if i = 0 then Some (Some e) else Some None
      | FtDeep s l m r \<Rightarrow>
          (let ls = digitSize l
           in if i < ls then Some (digitIndex l i)
              else let i = i - ls; ms = ftreeSize m
                   in if i < ms then ftIndexNode m i else Some (digitIndex r (i - ms))))"

section \<open>Traversals\<close>

definition digitToListR :: "val list \<Rightarrow> val \<Rightarrow> val" where
  "digitToListR d acc = foldr (\<lambda>e acc. mkCon ListCons [e, acc]) d acc"

text \<open>\<^verbatim>\<open>nodeToListR\<close> on the elements of a node; the loop runs from the last element to the first.\<close>

fun nodeToListLoop :: "val list \<Rightarrow> val \<Rightarrow> val" where
  "nodeToListLoop [] acc = acc"
| "nodeToListLoop (e # es) acc =
     (let acc = nodeToListLoop es acc
      in case e of HostVal (HNode (Node23 s es')) \<Rightarrow> nodeToListLoop es' acc | _ \<Rightarrow> mkCon ListCons [e, acc])"

definition nodeToListR :: "val node23 \<Rightarrow> val \<Rightarrow> val" where
  "nodeToListR n acc = nodeToListLoop (nelems n) acc"

fun digitToListSpineR :: "val list \<Rightarrow> val \<Rightarrow> val option" where
  "digitToListSpineR [] acc = Some acc"
| "digitToListSpineR (v # d) acc =
     (case digitToListSpineR d acc of None \<Rightarrow> None
      | Some acc \<Rightarrow> (case asNode v of None \<Rightarrow> None | Some nd \<Rightarrow> Some (nodeToListR nd acc)))"

fun ftToListSpine :: "ft \<Rightarrow> val \<Rightarrow> val option" where
  "ftToListSpine FtEmpty acc = Some acc"
| "ftToListSpine (FtSingle e) acc = (case asNode e of None \<Rightarrow> None | Some nd \<Rightarrow> Some (nodeToListR nd acc))"
| "ftToListSpine (FtDeep s l m r) acc =
     (case digitToListSpineR r acc of None \<Rightarrow> None
      | Some acc \<Rightarrow> (case ftToListSpine m acc of None \<Rightarrow> None | Some acc \<Rightarrow> digitToListSpineR l acc))"

definition ftToListR :: "ft \<Rightarrow> val \<Rightarrow> val option" where
  "ftToListR t acc =
     (case t of
        FtEmpty \<Rightarrow> Some acc
      | FtSingle e \<Rightarrow> Some (mkCon ListCons [e, acc])
      | FtDeep s l m r \<Rightarrow>
          (case ftToListSpine m (digitToListR r acc) of None \<Rightarrow> None | Some acc \<Rightarrow> Some (digitToListR l acc)))"

definition ftToList :: "ft \<Rightarrow> val option" where
  "ftToList t = ftToListR t (mkCon ListNil [])"

fun ftFromListLoop :: "val \<Rightarrow> ft \<Rightarrow> ft" where
  "ftFromListLoop (ConVal con args d n) t =
     (if con = ListNil then t
      else if con = ListCons then (case args of [x, rest] \<Rightarrow> ftFromListLoop rest (ftSnoc t x) | _ \<Rightarrow> t)
      else t)"
| "ftFromListLoop v t = t"

definition ftFromList :: "val \<Rightarrow> ft" where
  "ftFromList v = ftFromListLoop v FtEmpty"

text \<open>One callback per element, left to right.\<close>

fun foldCalls :: "val list \<Rightarrow> val \<Rightarrow> val \<Rightarrow> capEnv \<Rightarrow> applier \<Rightarrow> world \<Rightarrow> val gores" where
  "foldCalls [] f acc ce ap w = (Ret acc ce, w)"
| "foldCalls (v # d) f acc ce ap w =
     callR (applyNA ap f [acc, v] ce w) (\<lambda>c. c) (\<lambda>acc ce w. foldCalls d f acc ce ap w)"

fun nodeFoldlLoop :: "val list \<Rightarrow> val \<Rightarrow> val \<Rightarrow> capEnv \<Rightarrow> applier \<Rightarrow> world \<Rightarrow> val gores" where
  "nodeFoldlLoop [] f acc ce ap w = (Ret acc ce, w)"
| "nodeFoldlLoop (e # es) f acc ce ap w =
     (case e of
        HostVal (HNode (Node23 s es')) \<Rightarrow>
          callR (nodeFoldlLoop es' f acc ce ap w) (\<lambda>c. c) (\<lambda>acc ce w. nodeFoldlLoop es f acc ce ap w)
      | _ \<Rightarrow> callR (applyNA ap f [acc, e] ce w) (\<lambda>c. c) (\<lambda>acc ce w. nodeFoldlLoop es f acc ce ap w))"

definition nodeFoldl :: "val node23 \<Rightarrow> val \<Rightarrow> val \<Rightarrow> capEnv \<Rightarrow> applier \<Rightarrow> world \<Rightarrow> val gores" where
  "nodeFoldl n f acc ce ap w = nodeFoldlLoop (nelems n) f acc ce ap w"

fun digitFoldlSpine :: "val list \<Rightarrow> val \<Rightarrow> val \<Rightarrow> capEnv \<Rightarrow> applier \<Rightarrow> world \<Rightarrow> val gores" where
  "digitFoldlSpine [] f acc ce ap w = (Ret acc ce, w)"
| "digitFoldlSpine (v # d) f acc ce ap w =
     orPanic (asNode v) w (\<lambda>nd.
     callR (nodeFoldl nd f acc ce ap w) (\<lambda>c. c) (\<lambda>acc ce w. digitFoldlSpine d f acc ce ap w))"

fun ftFoldlSpine :: "ft \<Rightarrow> val \<Rightarrow> val \<Rightarrow> capEnv \<Rightarrow> applier \<Rightarrow> world \<Rightarrow> val gores" where
  "ftFoldlSpine FtEmpty f acc ce ap w = (Ret acc ce, w)"
| "ftFoldlSpine (FtSingle e) f acc ce ap w = orPanic (asNode e) w (\<lambda>nd. nodeFoldl nd f acc ce ap w)"
| "ftFoldlSpine (FtDeep s l m r) f acc ce ap w =
     callR (digitFoldlSpine l f acc ce ap w) (\<lambda>c. c) (\<lambda>acc ce w.
     callR (ftFoldlSpine m f acc ce ap w) (\<lambda>c. c) (\<lambda>acc ce w.
     digitFoldlSpine r f acc ce ap w))"

definition ftFoldl :: "ft \<Rightarrow> val \<Rightarrow> val \<Rightarrow> capEnv \<Rightarrow> applier \<Rightarrow> world \<Rightarrow> val gores" where
  "ftFoldl t f acc ce ap w =
     (case t of
        FtEmpty \<Rightarrow> (Ret acc ce, w)
      | FtSingle e \<Rightarrow> applyNA ap f [acc, e] ce w
      | FtDeep s l m r \<Rightarrow>
          callR (foldCalls l f acc ce ap w) (\<lambda>c. c) (\<lambda>acc ce w.
          callR (ftFoldlSpine m f acc ce ap w) (\<lambda>c. c) (\<lambda>acc ce w.
          foldCalls r f acc ce ap w)))"

fun collectNodeLoop :: "val list \<Rightarrow> val list \<Rightarrow> val list" where
  "collectNodeLoop [] acc = acc"
| "collectNodeLoop (e # es) acc =
     collectNodeLoop es (case e of HostVal (HNode (Node23 s es')) \<Rightarrow> collectNodeLoop es' acc | _ \<Rightarrow> acc @ [e])"

definition collectNode :: "val node23 \<Rightarrow> val list \<Rightarrow> val list" where
  "collectNode n acc = collectNodeLoop (nelems n) acc"

fun digitCollectSpine :: "val list \<Rightarrow> val list \<Rightarrow> val list option" where
  "digitCollectSpine [] acc = Some acc"
| "digitCollectSpine (v # d) acc =
     (case asNode v of None \<Rightarrow> None | Some nd \<Rightarrow> digitCollectSpine d (collectNode nd acc))"

fun ftCollectSpine :: "ft \<Rightarrow> val list \<Rightarrow> val list option" where
  "ftCollectSpine FtEmpty acc = Some acc"
| "ftCollectSpine (FtSingle e) acc = (case asNode e of None \<Rightarrow> None | Some nd \<Rightarrow> Some (collectNode nd acc))"
| "ftCollectSpine (FtDeep s l m r) acc =
     (case digitCollectSpine l acc of None \<Rightarrow> None
      | Some acc \<Rightarrow> (case ftCollectSpine m acc of None \<Rightarrow> None | Some acc \<Rightarrow> digitCollectSpine r acc))"

definition ftCollect :: "ft \<Rightarrow> val list \<Rightarrow> val list option" where
  "ftCollect t acc =
     (case t of
        FtEmpty \<Rightarrow> Some acc
      | FtSingle e \<Rightarrow> Some (acc @ [e])
      | FtDeep s l m r \<Rightarrow>
          (case ftCollectSpine m (acc @ l) of None \<Rightarrow> None | Some acc \<Rightarrow> Some (acc @ r)))"

definition ftToSlice :: "ft \<Rightarrow> val list option" where
  "ftToSlice t = ftCollect t []"

end
