(* ===== verification/Finger_Tree_Laws.thy ===== *)
theory Finger_Tree_Laws
  imports Finger_Tree
begin

text \<open>
  The finger tree as a sequence. \<open>ftOK k\<close> is the invariant of a tree of level \<open>k\<close>: digits have one to
  four elements of that level, the spine is a tree of the next level, cached sizes are right; an
  element of level zero is any value that is not itself a node. \<open>ftElems\<close> is the sequence of elements a
  tree denotes at its own level, \<open>leaves\<close> the user elements below. The interface \<open>deque\<close> states what the
  operations promise; clients (building from a list, mapping, reversing) are proved from it once, and
  the finger tree of each level is an instance.
\<close>

section \<open>Invariant and abstraction\<close>

fun leaves :: "val list \<Rightarrow> val list" where
  "leaves [] = []"
| "leaves (e # es) = (case e of HostVal (HNode (Node23 s es')) \<Rightarrow> leaves es' | _ \<Rightarrow> [e]) @ leaves es"

fun nodeOK :: "nat \<Rightarrow> val \<Rightarrow> bool" where
  "nodeOK 0 v \<longleftrightarrow> extractNode v = None"
| "nodeOK (Suc k) v \<longleftrightarrow>
     (case extractNode v of
        None \<Rightarrow> False
      | Some nd \<Rightarrow> (length (nelems nd) = 2 \<or> length (nelems nd) = 3) \<and> (\<forall>e \<in> set (nelems nd). nodeOK k e) \<and>
          nsize nd = sum_list (map elemSize (nelems nd)))"

fun ftOK :: "nat \<Rightarrow> ft \<Rightarrow> bool" where
  "ftOK k FtEmpty \<longleftrightarrow> True"
| "ftOK k (FtSingle e) \<longleftrightarrow> nodeOK k e"
| "ftOK k (FtDeep s l m r) \<longleftrightarrow>
     l \<noteq> [] \<and> length l \<le> 4 \<and> r \<noteq> [] \<and> length r \<le> 4 \<and> (\<forall>e \<in> set l. nodeOK k e) \<and> (\<forall>e \<in> set r. nodeOK k e) \<and>
     ftOK (Suc k) m \<and> s = deepSize l m r"

definition unnode :: "val list \<Rightarrow> val list" where
  "unnode vs = concat (map (\<lambda>v. case extractNode v of Some nd \<Rightarrow> nelems nd | None \<Rightarrow> []) vs)"

fun ftElems :: "ft \<Rightarrow> val list" where
  "ftElems FtEmpty = []"
| "ftElems (FtSingle e) = [e]"
| "ftElems (FtDeep s l m r) = l @ unnode (ftElems m) @ r"

lemma unnode_simps [simp]:
  "unnode [] = []" "unnode (xs @ ys) = unnode xs @ unnode ys" "unnode (nodeVal nd # xs) = nelems nd @ unnode xs"
  by (simp_all add: unnode_def nodeVal_def extractNode_def)

lemma extractNode_nodeVal [simp]: "extractNode (nodeVal nd) = Some nd"
  by (simp add: extractNode_def nodeVal_def)

lemma asNode_eq [simp]: "asNode = extractNode"
  by (simp add: asNode_def fun_eq_iff)

lemma elemSize_nodeVal [simp]: "elemSize (nodeVal nd) = nsize nd"
  by (simp add: elemSize_def)

lemma nodeOK_mkNode [simp]:
  "nodeOK (Suc k) (nodeVal (mkNode2 a b)) \<longleftrightarrow> nodeOK k a \<and> nodeOK k b"
  "nodeOK (Suc k) (nodeVal (mkNode3 a b c)) \<longleftrightarrow> nodeOK k a \<and> nodeOK k b \<and> nodeOK k c"
  by (auto simp: mkNode2_def mkNode3_def)

lemma nelems_mkNode [simp]: "nelems (mkNode2 a b) = [a, b]" "nelems (mkNode3 a b c) = [a, b, c]"
  by (simp_all add: mkNode2_def mkNode3_def)

lemma digitSizeLoop_sum: "digitSizeLoop d s = s + sum_list (map elemSize d)"
  by (induction d s rule: digitSizeLoop.induct) (auto simp: elemSize_def split: option.splits)

lemma digitSize_sum: "digitSize d = sum_list (map elemSize d)"
  by (simp add: digitSize_def digitSizeLoop_sum)

lemma ftOK_elems: "ftOK k t \<Longrightarrow> e \<in> set (ftElems t) \<Longrightarrow> nodeOK k e"
proof (induction t arbitrary: k e)
  case (FtDeep s l m r)
  have "nodeOK k e" if "e \<in> set (unnode (ftElems m))"
    using that FtDeep.IH [of "Suc k"] FtDeep.prems(1)
    by (fastforce simp: unnode_def split: option.splits)
  then show ?case using FtDeep.prems by auto
qed auto

lemma sum_unnode: "\<forall>v \<in> set vs. nodeOK (Suc k) v \<Longrightarrow> sum_list (map elemSize (unnode vs)) = sum_list (map elemSize vs)"
proof (induction vs)
  case (Cons v vs)
  then obtain nd where "extractNode v = Some nd" "nsize nd = sum_list (map elemSize (nelems nd))"
    by (auto split: option.splits)
  moreover from this have "elemSize v = nsize nd" by (simp add: elemSize_def)
  ultimately show ?case using Cons by (simp add: unnode_def)
qed simp

lemma ftreeSize_sum: "ftOK k t \<Longrightarrow> ftreeSize t = sum_list (map elemSize (ftElems t))"
proof (induction t arbitrary: k)
  case (FtDeep s l m r)
  then show ?case
    using sum_unnode [of "ftElems m" k] ftOK_elems [of "Suc k" m] by (auto simp: deepSize_def digitSize_sum)
qed auto

lemma sum_level0: "\<forall>e \<in> set xs. nodeOK 0 e \<Longrightarrow> sum_list (map elemSize xs) = int (length xs)"
proof (induction xs)
  case (Cons e xs)
  then have "elemSize e = 1" by (simp add: elemSize_def)
  then show ?case using Cons by simp
qed simp

lemma ftreeSize_length: "ftOK 0 t \<Longrightarrow> ftreeSize t = int (length (ftElems t))"
  using ftreeSize_sum [of 0 t] sum_level0 [of "ftElems t"] ftOK_elems [of 0 t] by metis

section \<open>Both ends\<close>

lemma four_elems: "length l = 4 \<Longrightarrow> l = [l ! 0, l ! 1, l ! 2, l ! 3]"
  by (auto simp: numeral_eq_Suc length_Suc_conv)

lemma ftCons_law: "ftOK k t \<Longrightarrow> nodeOK k a \<Longrightarrow> ftOK k (ftCons a t) \<and> ftElems (ftCons a t) = a # ftElems t"
proof (induction a t arbitrary: k rule: ftCons.induct)
  case (3 a s l m r)
  show ?case
  proof (cases "length l < 4")
    case True
    then show ?thesis using 3 by (auto simp: mkDeep_def)
  next
    case False
    then have len: "length l = 4" using 3(2) by simp
    have l: "l = [l ! 0, l ! 1, l ! 2, l ! 3]" by (rule four_elems [OF len])
    have ok: "nodeOK k (l ! 0)" "nodeOK k (l ! 1)" "nodeOK k (l ! 2)" "nodeOK k (l ! 3)"
      using 3(2) len by (auto intro: nth_mem)
    then have "ftOK (Suc k) (ftCons (nodeVal (mkNode3 (l ! 1) (l ! 2) (l ! 3))) m) \<and>
      ftElems (ftCons (nodeVal (mkNode3 (l ! 1) (l ! 2) (l ! 3))) m) = nodeVal (mkNode3 (l ! 1) (l ! 2) (l ! 3)) # ftElems m"
      using 3(1) [OF False, of "Suc k"] 3(2) by (simp del: nodeOK.simps)
    moreover have "l ! 0 # l ! 1 # l ! 2 # l ! 3 # xs = l @ xs" for xs
      using arg_cong [OF l, of "\<lambda>q. q @ xs"] by simp
    ultimately show ?thesis using 3(2,3) False ok by (simp add: mkDeep_def)
  qed
qed (auto simp: mkDeep_def)

lemma ftSnoc_law: "ftOK k t \<Longrightarrow> nodeOK k a \<Longrightarrow> ftOK k (ftSnoc t a) \<and> ftElems (ftSnoc t a) = ftElems t @ [a]"
proof (induction t a arbitrary: k rule: ftSnoc.induct)
  case (3 s l m r a)
  show ?case
  proof (cases "length r < 4")
    case True
    then show ?thesis using 3 by (auto simp: mkDeep_def)
  next
    case False
    then have len: "length r = 4" using 3(2) by simp
    have r: "r = [r ! 0, r ! 1, r ! 2, r ! 3]" by (rule four_elems [OF len])
    have ok: "nodeOK k (r ! 0)" "nodeOK k (r ! 1)" "nodeOK k (r ! 2)" "nodeOK k (r ! 3)"
      using 3(2) len by (auto intro: nth_mem)
    then have "ftOK (Suc k) (ftSnoc m (nodeVal (mkNode3 (r ! 0) (r ! 1) (r ! 2)))) \<and>
      ftElems (ftSnoc m (nodeVal (mkNode3 (r ! 0) (r ! 1) (r ! 2)))) = ftElems m @ [nodeVal (mkNode3 (r ! 0) (r ! 1) (r ! 2))]"
      using 3(1) [OF False, of "Suc k"] 3(2) by (simp del: nodeOK.simps)
    moreover have "r ! 0 # r ! 1 # r ! 2 # r ! 3 # xs = r @ xs" for xs
      using arg_cong [OF r, of "\<lambda>q. q @ xs"] by simp
    ultimately show ?thesis using 3(2,3) False ok by (simp add: mkDeep_def)
  qed
qed (auto simp: mkDeep_def)

lemma digitToTree_law:
  assumes "\<forall>e \<in> set d. nodeOK k e" "length d \<le> 4"
  shows "ftOK k (digitToTree d) \<and> ftElems (digitToTree d) = d"
proof (cases "2 \<le> length d")
  case True
  then have "digitToTree d = mkDeep (take (length d div 2) d) FtEmpty (drop (length d div 2) d)"
    by (auto simp: digitToTree_def Let_def numeral_2_eq_2 Suc_le_length_iff split: list.splits)
  then show ?thesis
    using assms True by (auto simp: mkDeep_def dest: in_set_takeD in_set_dropD)
next
  case False
  then have "d = [] \<or> (\<exists>x. d = [x])" by (cases d; cases "tl d") auto
  then show ?thesis using assms by (auto simp: digitToTree_def)
qed

lemma nodeOK_extract:
  assumes "nodeOK (Suc k) v"
  obtains nd where "extractNode v = Some nd" "nelems nd \<noteq> []" "length (nelems nd) \<le> 4" "\<forall>e \<in> set (nelems nd). nodeOK k e"
proof -
  from assms obtain nd where nd: "extractNode v = Some nd" "length (nelems nd) = 2 \<or> length (nelems nd) = 3"
    "\<forall>e \<in> set (nelems nd). nodeOK k e" by (auto split: option.splits)
  then have "nelems nd \<noteq> []" "length (nelems nd) \<le> 4" by auto
  with nd show thesis by (blast intro: that)
qed

lemma ftUncons_law:
  "ftOK k t \<Longrightarrow> (case ftElems t of [] \<Rightarrow> ftUncons t = Some None
     | h # xs \<Rightarrow> \<exists>t'. ftUncons t = Some (Some (h, t')) \<and> ftOK k t' \<and> ftElems t' = xs)"
proof (induction t arbitrary: k)
  case (FtDeep s l m r)
  obtain h l' where l: "l = h # l'" using FtDeep.prems by (cases l) auto
  show ?case
  proof (cases "l' = []")
    case False
    then show ?thesis using FtDeep.prems l by (auto simp: mkDeep_def)
  next
    case True
    show ?thesis
    proof (cases "ftElems m")
      case Nil
      then have "ftUncons m = Some None" using FtDeep.IH [of "Suc k"] FtDeep.prems by simp
      then show ?thesis using FtDeep.prems l True Nil digitToTree_law [of r k] by simp
    next
      case (Cons v vs)
      then obtain m' where m': "ftUncons m = Some (Some (v, m'))" "ftOK (Suc k) m'" "ftElems m' = vs"
        using FtDeep.IH [of "Suc k"] FtDeep.prems by auto
      have "nodeOK (Suc k) v" using ftOK_elems [of "Suc k" m v] Cons FtDeep.prems by simp
      then obtain nd where nd: "extractNode v = Some nd" "nelems nd \<noteq> []" "length (nelems nd) \<le> 4"
        "\<forall>e \<in> set (nelems nd). nodeOK k e" by (rule nodeOK_extract)
      have "unnode (v # vs) = nelems nd @ unnode vs" using nd(1) by (simp add: unnode_def)
      then show ?thesis using FtDeep.prems l True Cons m' nd by (simp add: mkDeep_def)
    qed
  qed
qed auto

lemma ftUnsnoc_law:
  "ftOK k t \<Longrightarrow> (if ftElems t = [] then ftUnsnoc t = Some None
     else \<exists>t'. ftUnsnoc t = Some (Some (t', last (ftElems t))) \<and> ftOK k t' \<and> ftElems t' = butlast (ftElems t))"
proof (induction t arbitrary: k)
  case (FtDeep s l m r)
  have r: "r = butlast r @ [last r]" using FtDeep.prems by simp
  show ?case
  proof (cases "length r > 1")
    case True
    then have "butlast r \<noteq> []" by (cases r) auto
    then show ?thesis using FtDeep.prems True
      by (auto simp: mkDeep_def butlast_append dest: in_set_butlastD)
  next
    case False
    then have r1: "butlast r = []" using FtDeep.prems by (cases r) auto
    show ?thesis
    proof (cases "ftElems m = []")
      case True
      then have "ftUnsnoc m = Some None" using FtDeep.IH [of "Suc k"] FtDeep.prems by simp
      then show ?thesis using FtDeep.prems r1 True False digitToTree_law [of l k] by (simp add: butlast_append)
    next
      case ne: False
      define v where "v = last (ftElems m)"
      obtain m' where m': "ftUnsnoc m = Some (Some (m', v))" "ftOK (Suc k) m'" "ftElems m' = butlast (ftElems m)"
        using FtDeep.IH [of "Suc k"] FtDeep.prems ne by (auto simp: v_def)
      have "nodeOK (Suc k) v" using ftOK_elems [of "Suc k" m v] ne FtDeep.prems by (simp add: v_def)
      then obtain nd where nd: "extractNode v = Some nd" "nelems nd \<noteq> []" "length (nelems nd) \<le> 4"
        "\<forall>e \<in> set (nelems nd). nodeOK k e" by (rule nodeOK_extract)
      have "ftElems m = butlast (ftElems m) @ [v]" using ne by (simp add: v_def)
      moreover have "unnode [v] = nelems nd" using nd(1) by (simp add: unnode_def)
      ultimately have "unnode (ftElems m) = unnode (butlast (ftElems m)) @ nelems nd"
        by (metis unnode_simps(2))
      then show ?thesis using FtDeep.prems r1 False m' nd by (simp add: mkDeep_def butlast_append)
    qed
  qed
qed auto

section \<open>Concatenation\<close>

lemma nodify_law:
  "\<forall>e \<in> set xs. nodeOK k e \<Longrightarrow> 2 \<le> length xs \<Longrightarrow>
   (\<forall>e \<in> set (nodify xs). nodeOK (Suc k) e) \<and> unnode (nodify xs) = xs"
  by (induction xs rule: nodify.induct) (auto simp del: nodeOK.simps)

text \<open>What a double-ended sequence promises, and what follows for code that only pushes and pops: the loops
  of \<^verbatim>\<open>ftAppend3\<close>, \<^verbatim>\<open>ftFromList\<close> and of the \<^verbatim>\<open>Data.Sequence\<close> primitives.\<close>

locale deque =
  fixes inv :: "'t \<Rightarrow> bool" and abs :: "'t \<Rightarrow> 'a list" and elem :: "'a \<Rightarrow> bool"
    and emp :: 't and cons :: "'a \<Rightarrow> 't \<Rightarrow> 't" and snoc :: "'t \<Rightarrow> 'a \<Rightarrow> 't"
    and uncons :: "'t \<Rightarrow> ('a \<times> 't) option option" and unsnoc :: "'t \<Rightarrow> ('t \<times> 'a) option option"
  assumes inv_emp: "inv emp" and abs_emp: "abs emp = []"
    and cons_law: "inv t \<Longrightarrow> elem a \<Longrightarrow> inv (cons a t) \<and> abs (cons a t) = a # abs t"
    and snoc_law: "inv t \<Longrightarrow> elem a \<Longrightarrow> inv (snoc t a) \<and> abs (snoc t a) = abs t @ [a]"
    and uncons_law: "inv t \<Longrightarrow> (case abs t of [] \<Rightarrow> uncons t = Some None
      | h # xs \<Rightarrow> \<exists>t'. uncons t = Some (Some (h, t')) \<and> inv t' \<and> abs t' = xs)"
    and unsnoc_law: "inv t \<Longrightarrow> (if abs t = [] then unsnoc t = Some None
      else \<exists>t'. unsnoc t = Some (Some (t', last (abs t))) \<and> inv t' \<and> abs t' = butlast (abs t))"
begin

lemma push_front:
  "inv t \<Longrightarrow> \<forall>e \<in> set xs. elem e \<Longrightarrow> inv (foldr cons xs t) \<and> abs (foldr cons xs t) = xs @ abs t"
  by (induction xs) (auto simp: cons_law)

lemma push_back:
  "inv t \<Longrightarrow> \<forall>e \<in> set xs. elem e \<Longrightarrow> inv (foldl snoc t xs) \<and> abs (foldl snoc t xs) = abs t @ xs"
proof (induction xs arbitrary: t)
  case (Cons x xs)
  then show ?case using Cons.IH [of "snoc t x"] snoc_law [of t x] by simp
qed simp

lemma build:
  "\<forall>e \<in> set xs. elem e \<Longrightarrow> inv (foldl snoc emp xs) \<and> abs (foldl snoc emp xs) = xs"
  using push_back [OF inv_emp, of xs] by (simp add: abs_emp)

lemma uncons_none: "inv t \<Longrightarrow> uncons t = Some None \<longleftrightarrow> abs t = []"
  using uncons_law [of t] by (cases "abs t") auto

lemma pop_front: "inv t \<Longrightarrow> abs t = h # xs \<Longrightarrow> \<exists>t'. uncons t = Some (Some (h, t')) \<and> inv t' \<and> abs t' = xs"
  using uncons_law [of t] by simp

lemma pop_back: "inv t \<Longrightarrow> abs t = xs @ [x] \<Longrightarrow> \<exists>t'. unsnoc t = Some (Some (t', x)) \<and> inv t' \<and> abs t' = xs"
  using unsnoc_law [of t] by simp

lemma no_panic: "inv t \<Longrightarrow> uncons t \<noteq> None \<and> unsnoc t \<noteq> None"
  using uncons_law [of t] unsnoc_law [of t] by (cases "abs t") auto

end

interpretation fingers: deque "ftOK k" ftElems "nodeOK k" FtEmpty ftCons ftSnoc ftUncons ftUnsnoc for k
proof unfold_locales
  show "ftOK k FtEmpty" by simp
  show "ftElems FtEmpty = []" by simp
qed (fact ftCons_law ftSnoc_law ftUncons_law ftUnsnoc_law)+

lemma ftAppend3_law:
  "ftOK k t1 \<Longrightarrow> ftOK k t2 \<Longrightarrow> \<forall>e \<in> set mid. nodeOK k e \<Longrightarrow>
   ftOK k (ftAppend3 t1 mid t2) \<and> ftElems (ftAppend3 t1 mid t2) = ftElems t1 @ mid @ ftElems t2"
proof (induction t1 mid t2 arbitrary: k rule: ftAppend3.induct)
  case (1 mid right)
  then show ?case using fingers.push_front [of k right mid] by simp
next
  case (2 e mid right)
  then show ?case using fingers.push_front [of k right mid] ftCons_law [of k "foldr ftCons mid right" e] by simp
next
  case (3 s l m r mid)
  then show ?case using fingers.push_back [of k "FtDeep s l m r" mid] by simp
next
  case (4 s l m r mid e)
  then show ?case
    using fingers.push_back [of k "FtDeep s l m r" mid] ftSnoc_law [of k "foldl ftSnoc (FtDeep s l m r) mid" e] by simp
next
  case (5 s l m r mid s' l' m' r')
  have "2 \<le> length (r @ mid @ l')" using 5(2,3) by (cases r; cases l') auto
  moreover have "\<forall>e \<in> set (r @ mid @ l'). nodeOK k e" using 5(2,3,4) by auto
  ultimately have n: "(\<forall>e \<in> set (nodify (r @ mid @ l')). nodeOK (Suc k) e) \<and> unnode (nodify (r @ mid @ l')) = r @ mid @ l'"
    by (intro nodify_law) auto
  have "ftOK (Suc k) (ftAppend3 m (nodify (r @ mid @ l')) m') \<and>
      ftElems (ftAppend3 m (nodify (r @ mid @ l')) m') = ftElems m @ nodify (r @ mid @ l') @ ftElems m'"
    using 5(1) [of "Suc k"] 5(2,3) n by auto
  then show ?case using 5(2,3) n by (simp add: mkDeep_def)
qed

lemma ftAppend_law:
  "ftOK k t1 \<Longrightarrow> ftOK k t2 \<Longrightarrow> ftOK k (ftAppend t1 t2) \<and> ftElems (ftAppend t1 t2) = ftElems t1 @ ftElems t2"
  using ftAppend3_law [of k t1 t2 "[]"] by (simp add: ftAppend_def)

section \<open>The elements below\<close>

lemma leaves_append [simp]: "leaves (xs @ ys) = leaves xs @ leaves ys"
  by (induction xs) auto

lemma leaves_Cons_node: "extractNode e = Some nd \<Longrightarrow> leaves (e # es) = leaves (nelems nd) @ leaves es"
  by (cases nd) (auto simp: extractNode_def split: val.splits host.splits)

lemma leaves_Cons_elem: "extractNode e = None \<Longrightarrow> leaves (e # es) = e # leaves es"
  by (auto simp: extractNode_def split: val.splits host.splits node23.splits)

lemma leaves_level0: "\<forall>e \<in> set xs. nodeOK 0 e \<Longrightarrow> leaves xs = xs"
  by (induction xs) (auto simp: leaves_Cons_elem simp del: leaves.simps(2))

lemma leaves_unnode: "\<forall>v \<in> set vs. nodeOK (Suc k) v \<Longrightarrow> leaves (unnode vs) = leaves vs"
proof (induction vs)
  case (Cons v vs)
  then obtain nd where "extractNode v = Some nd" by (auto split: option.splits)
  then show ?case using Cons by (simp add: unnode_def leaves_Cons_node del: leaves.simps(2))
qed simp

lemma leaves_deep:
  "ftOK k (FtDeep s l m r) \<Longrightarrow> leaves (ftElems (FtDeep s l m r)) = leaves l @ leaves (ftElems m) @ leaves r"
  using leaves_unnode [of "ftElems m" k] ftOK_elems [of "Suc k" m] by simp

lemma elemSize_leaves: "nodeOK k e \<Longrightarrow> elemSize e = int (length (leaves [e]))"
proof (induction k arbitrary: e)
  case 0
  then show ?case by (simp add: elemSize_def leaves_Cons_elem del: leaves.simps(2))
next
  case (Suc k)
  from Suc.prems obtain nd where nd: "extractNode e = Some nd" "\<forall>x \<in> set (nelems nd). nodeOK k x"
    "nsize nd = sum_list (map elemSize (nelems nd))" by (auto split: option.splits)
  have "sum_list (map elemSize es) = int (length (leaves es))" if "\<forall>x \<in> set es. nodeOK k x" for es
    using that
  proof (induction es)
    case (Cons x es)
    then show ?case using Suc.IH [of x] leaves_append [of "[x]" es] by simp
  qed simp
  then show ?case using nd by (simp add: elemSize_def leaves_Cons_node del: leaves.simps(2))
qed

lemma sum_leaves: "\<forall>x \<in> set es. nodeOK k x \<Longrightarrow> sum_list (map elemSize es) = int (length (leaves es))"
proof (induction es)
  case (Cons x es)
  then show ?case using elemSize_leaves [of k x] leaves_append [of "[x]" es] by simp
qed simp

lemma ftreeSize_leaves: "ftOK k t \<Longrightarrow> ftreeSize t = int (length (leaves (ftElems t)))"
  using ftreeSize_sum [of k t] sum_leaves [of "ftElems t" k] ftOK_elems [of k t] by metis

section \<open>Indexing\<close>

lemma nodeIndexLoop_law:
  "\<forall>e \<in> set es. nodeOK k e \<Longrightarrow> 0 \<le> i \<Longrightarrow> i < int (length (leaves es)) \<Longrightarrow>
   nodeIndexLoop es i = Some (leaves es ! nat i)"
proof (induction k arbitrary: es i)
  case 0
  then show ?case
  proof (induction es arbitrary: i)
    case (Cons e es)
    then have e: "extractNode e = None" "elemSize e = 1" by (simp_all add: elemSize_def)
    have step: "nodeIndexLoop (e # es) i = (if i < 1 then Some e else nodeIndexLoop es (i - 1))"
      using e by (auto simp: extractNode_def split: val.splits host.splits node23.splits)
    then show ?case using Cons e by (simp add: leaves_Cons_elem nth_Cons' nat_diff_distrib del: leaves.simps(2) nodeIndexLoop.simps)
  qed simp
next
  case (Suc k)
  note outer = Suc.IH
  show ?case using Suc.prems
  proof (induction es arbitrary: i)
    case (Cons e es)
    obtain nd where nd: "extractNode e = Some nd" "\<forall>x \<in> set (nelems nd). nodeOK k x"
      using Cons.prems by (auto split: option.splits)
    have sz: "elemSize e = int (length (leaves (nelems nd)))"
      using elemSize_leaves [of "Suc k" e] Cons.prems nd by (simp add: leaves_Cons_node del: leaves.simps(2))
    have step: "nodeIndexLoop (e # es) i = (if i < elemSize e then nodeIndexLoop (nelems nd) i else nodeIndexLoop es (i - elemSize e))"
      using nd(1) by (cases nd) (auto simp: extractNode_def split: val.splits host.splits)
    show ?case
    proof (cases "i < elemSize e")
      case True
      then show ?thesis using step outer [of "nelems nd" i] nd Cons.prems sz
        by (simp add: leaves_Cons_node nth_append nat_less_iff del: leaves.simps(2) nodeIndexLoop.simps)
    next
      case False
      then show ?thesis using step Cons.IH [of "i - elemSize e"] nd Cons.prems sz
        by (simp add: leaves_Cons_node nth_append nat_less_iff nat_diff_distrib del: leaves.simps(2) nodeIndexLoop.simps)
    qed
  qed simp
qed

lemma digitIndex_loop: "digitIndex d i = nodeIndexLoop d i"
proof (induction d arbitrary: i)
  case (Cons v d)
  then show ?case
    by (auto simp: extractNode_def nodeIndex_def split: val.splits host.splits node23.splits)
qed simp

lemma digitIndex_law:
  "\<forall>e \<in> set d. nodeOK k e \<Longrightarrow> 0 \<le> i \<Longrightarrow> i < int (length (leaves d)) \<Longrightarrow> digitIndex d i = Some (leaves d ! nat i)"
  by (simp add: digitIndex_loop nodeIndexLoop_law)

lemma deep_index:
  assumes "ftOK k (FtDeep s l m r)" "0 \<le> i" "i < int (length (leaves (ftElems (FtDeep s l m r))))"
    and mid: "\<And>j. 0 \<le> j \<Longrightarrow> j < int (length (leaves (ftElems m))) \<Longrightarrow> ftIndexNode m j = Some (Some (leaves (ftElems m) ! nat j))"
  shows "(let ls = digitSize l
          in if i < ls then Some (digitIndex l i)
             else let i = i - ls; ms = ftreeSize m
                  in if i < ms then ftIndexNode m i else Some (digitIndex r (i - ms)))
         = Some (Some (leaves (ftElems (FtDeep s l m r)) ! nat i))"
proof -
  have ok: "\<forall>e \<in> set l. nodeOK k e" "\<forall>e \<in> set r. nodeOK k e" "ftOK (Suc k) m" using assms(1) by simp_all
  have ls: "digitSize l = int (length (leaves l))" using sum_leaves [OF ok(1)] by (simp add: digitSize_sum)
  have ms: "ftreeSize m = int (length (leaves (ftElems m)))" by (rule ftreeSize_leaves [OF ok(3)])
  have all: "leaves (ftElems (FtDeep s l m r)) = leaves l @ leaves (ftElems m) @ leaves r" by (rule leaves_deep [OF assms(1)])
  then have len: "i < int (length (leaves l)) + int (length (leaves (ftElems m))) + int (length (leaves r))"
    using assms(3) by simp
  consider "i < digitSize l" | "\<not> i < digitSize l" "i - digitSize l < ftreeSize m"
    | "\<not> i < digitSize l" "\<not> i - digitSize l < ftreeSize m" by blast
  then show ?thesis
  proof cases
    case 1
    then show ?thesis using assms(2) ls digitIndex_law [OF ok(1), of i]
      by (simp add: all nth_append nat_less_iff del: ftElems.simps)
  next
    case 2
    have "nat i - length (leaves l) < length (leaves (ftElems m))" using 2 ls ms by linarith
    then show ?thesis using 2 assms(2) ls ms
      by (simp add: Let_def all mid nth_append nat_less_iff nat_diff_distrib del: ftElems.simps)
  next
    case 3
    have "\<not> nat i - length (leaves l) < length (leaves (ftElems m))" using 3 ls ms by linarith
    then show ?thesis using 3 assms(2) ls ms len digitIndex_law [OF ok(2), of "i - digitSize l - ftreeSize m"]
      by (simp add: Let_def all nth_append nat_less_iff nat_diff_distrib del: ftElems.simps)
  qed
qed

lemma ftIndexNode_law:
  "ftOK (Suc k) t \<Longrightarrow> 0 \<le> i \<Longrightarrow> i < int (length (leaves (ftElems t))) \<Longrightarrow>
   ftIndexNode t i = Some (Some (leaves (ftElems t) ! nat i))"
proof (induction t arbitrary: k i)
  case (FtSingle e)
  then obtain nd where nd: "extractNode e = Some nd" "\<forall>x \<in> set (nelems nd). nodeOK k x"
    by (auto split: option.splits)
  then show ?case using FtSingle nodeIndexLoop_law [of "nelems nd" k i]
    by (simp add: nodeIndex_def leaves_Cons_node del: leaves.simps(2))
next
  case (FtDeep s l m r)
  have "ftOK (Suc (Suc k)) m" using FtDeep.prems(1) by simp
  then have "\<And>j. 0 \<le> j \<Longrightarrow> j < int (length (leaves (ftElems m))) \<Longrightarrow> ftIndexNode m j = Some (Some (leaves (ftElems m) ! nat j))"
    using FtDeep.IH by blast
  then show ?case using deep_index [OF FtDeep.prems] by (simp only: ftIndexNode.simps)
qed simp

lemma ftIndex_law:
  assumes "ftOK 0 t" "0 \<le> i" "i < int (length (ftElems t))"
  shows "ftIndex t i = Some (Some (ftElems t ! nat i))"
proof -
  have lv: "leaves (ftElems t) = ftElems t" using ftOK_elems [OF assms(1)] by (blast intro: leaves_level0)
  show ?thesis
  proof (cases t)
    case (FtDeep s l m r)
    have "ftOK (Suc 0) m" using assms(1) FtDeep by simp
    then have "\<And>j. 0 \<le> j \<Longrightarrow> j < int (length (leaves (ftElems m))) \<Longrightarrow> ftIndexNode m j = Some (Some (leaves (ftElems m) ! nat j))"
      using ftIndexNode_law by blast
    then show ?thesis
      using deep_index [of 0 s l m r i] assms FtDeep lv by (simp add: ftIndex_def del: ftElems.simps ftOK.simps)
  qed (use assms in \<open>auto simp: ftIndex_def\<close>)
qed

section \<open>Traversals\<close>

lemma nodeToListLoop_leaves: "nodeToListLoop es acc = digitToListR (leaves es) acc"
proof (induction es acc rule: nodeToListLoop.induct)
  case (2 e es acc)
  then show ?case by (auto simp: digitToListR_def Let_def split: val.splits host.splits node23.splits)
qed (simp add: digitToListR_def)

lemma digitToListR_append [simp]: "digitToListR (xs @ ys) acc = digitToListR xs (digitToListR ys acc)"
  by (simp add: digitToListR_def)

lemma collectNodeLoop_leaves: "collectNodeLoop es acc = acc @ leaves es"
proof (induction es acc rule: collectNodeLoop.induct)
  case (2 e es acc)
  then show ?case by (auto split: val.splits host.splits node23.splits)
qed simp

lemma digitSpine_laws:
  assumes "\<forall>v \<in> set d. nodeOK (Suc k) v"
  shows "digitToListSpineR d acc = Some (digitToListR (leaves d) acc)"
    and "digitCollectSpine d vs = Some (vs @ leaves d)"
proof -
  show "digitToListSpineR d acc = Some (digitToListR (leaves d) acc)" using assms
  proof (induction d)
    case (Cons v d)
    then obtain nd where "extractNode v = Some nd" by (auto split: option.splits)
    then show ?case using Cons
      by (simp add: leaves_Cons_node nodeToListR_def nodeToListLoop_leaves del: leaves.simps(2) nodeOK.simps)
  qed (simp add: digitToListR_def)
  show "digitCollectSpine d vs = Some (vs @ leaves d)" using assms
  proof (induction d arbitrary: vs)
    case (Cons v d)
    then obtain nd where "extractNode v = Some nd" by (auto split: option.splits)
    then show ?case using Cons
      by (simp add: leaves_Cons_node collectNode_def collectNodeLoop_leaves del: leaves.simps(2) nodeOK.simps)
  qed simp
qed

lemma spine_laws:
  "ftOK (Suc k) t \<Longrightarrow> ftToListSpine t acc = Some (digitToListR (leaves (ftElems t)) acc)"
  "ftOK (Suc k) t \<Longrightarrow> ftCollectSpine t vs = Some (vs @ leaves (ftElems t))"
proof -
  show "ftOK (Suc k) t \<Longrightarrow> ftToListSpine t acc = Some (digitToListR (leaves (ftElems t)) acc)"
  proof (induction t arbitrary: k acc)
    case (FtSingle e)
    then show ?case using digitSpine_laws(1) [of "[e]" k acc] by (auto split: option.splits)
  next
    case (FtDeep s l m r)
    then show ?case using leaves_deep [OF FtDeep.prems] FtDeep.IH [of "Suc k"]
      by (simp add: digitSpine_laws [of _ k] del: ftElems.simps)
  qed (simp add: digitToListR_def)
  show "ftOK (Suc k) t \<Longrightarrow> ftCollectSpine t vs = Some (vs @ leaves (ftElems t))"
  proof (induction t arbitrary: k vs)
    case (FtSingle e)
    then show ?case using digitSpine_laws(2) [of "[e]" k vs] by (auto split: option.splits)
  next
    case (FtDeep s l m r)
    then show ?case using leaves_deep [OF FtDeep.prems] FtDeep.IH [of "Suc k"]
      by (simp add: digitSpine_laws [of _ k] del: ftElems.simps)
  qed simp
qed

lemma level0_leaves: "ftOK 0 t \<Longrightarrow> leaves (ftElems t) = ftElems t"
  using ftOK_elems [of 0 t] by (blast intro: leaves_level0)

lemma level0_deep:
  "ftOK 0 (FtDeep s l m r) \<Longrightarrow> ftElems (FtDeep s l m r) = l @ leaves (ftElems m) @ r"
  using level0_leaves [of "FtDeep s l m r"] leaves_deep [of 0 s l m r] leaves_level0 [of l] leaves_level0 [of r] by simp

lemma ftToSlice_law: "ftOK 0 t \<Longrightarrow> ftToSlice t = Some (ftElems t)"
proof (cases t)
  case (FtDeep s l m r)
  assume "ftOK 0 t"
  then show ?thesis using level0_deep [of s l m r] spine_laws(2) [of 0 m l] FtDeep
    by (simp add: ftToSlice_def ftCollect_def del: ftElems.simps)
qed (auto simp: ftToSlice_def ftCollect_def)

lemma ftToList_law: "ftOK 0 t \<Longrightarrow> ftToList t = Some (digitToListR (ftElems t) (mkCon ListNil []))"
proof (cases t)
  case (FtDeep s l m r)
  assume "ftOK 0 t"
  then show ?thesis using level0_deep [of s l m r] spine_laws(1) [of 0 m] FtDeep
    by (simp add: ftToList_def ftToListR_def del: ftElems.simps)
qed (auto simp: ftToList_def ftToListR_def digitToListR_def)

lemma digitToListR_consList: "digitToListR xs (mkCon ListNil []) = consList xs"
  by (induction xs) (simp_all add: digitToListR_def)

lemma ftFromListLoop_consList: "ftFromListLoop (consList xs) t = foldl ftSnoc t xs"
  by (induction xs arbitrary: t) (simp_all add: mkCon_def)

lemma ftFromList_law:
  "\<forall>e \<in> set xs. nodeOK 0 e \<Longrightarrow> ftOK 0 (ftFromList (consList xs)) \<and> ftElems (ftFromList (consList xs)) = xs"
  using fingers.build [of xs 0] by (simp add: ftFromList_def ftFromListLoop_consList)

declare callR_unit [simp]

lemma foldCalls_fun:
  "foldCalls [] f acc ce ap = (\<lambda>w. (Ret acc ce, w))"
  "foldCalls (v # d) f acc ce ap = (\<lambda>w. callR (applyNA ap f [acc, v] ce w) (\<lambda>c. c) (\<lambda>acc ce. foldCalls d f acc ce ap))"
  by (simp_all add: fun_eq_iff)

lemma foldCalls_append:
  "foldCalls (xs @ ys) f acc ce ap = (\<lambda>w. callR (foldCalls xs f acc ce ap w) (\<lambda>c. c) (\<lambda>acc ce. foldCalls ys f acc ce ap))"
  by (induction xs arbitrary: acc ce) (simp_all add: foldCalls_fun callR_assoc)

lemma nodeFoldlLoop_leaves: "nodeFoldlLoop es f acc ce ap w = foldCalls (leaves es) f acc ce ap w"
proof (induction es f acc ce ap w rule: nodeFoldlLoop.induct)
  case (2 e es f acc ce ap w)
  show ?case
  proof (cases "extractNode e")
    case None
    then have "nodeFoldlLoop (e # es) f acc ce ap w =
        callR (applyNA ap f [acc, e] ce w) (\<lambda>c. c) (\<lambda>acc ce w. nodeFoldlLoop es f acc ce ap w)"
      by (auto simp: extractNode_def split: val.splits host.splits node23.splits)
    then show ?thesis using None 2
      by (auto simp: leaves_Cons_elem extractNode_def simp del: leaves.simps(2) intro!: callR_cont_cong
          split: val.splits host.splits node23.splits)
  next
    case (Some nd)
    then obtain s where e: "e = HostVal (HNode (Node23 s (nelems nd)))"
      by (cases nd) (auto simp: extractNode_def split: val.splits host.splits)
    show ?thesis using 2 unfolding e by (auto simp: foldCalls_append intro!: callR_cont_cong)
  qed
qed simp

lemma digitFoldlSpine_law:
  "\<forall>v \<in> set d. nodeOK (Suc k) v \<Longrightarrow> digitFoldlSpine d f acc ce ap w = foldCalls (leaves d) f acc ce ap w"
proof (induction d arbitrary: acc ce w)
  case (Cons v d)
  then obtain nd where nd: "extractNode v = Some nd" by (auto split: option.splits)
  have "digitFoldlSpine d f acc ce ap = foldCalls (leaves d) f acc ce ap" for acc ce
    using Cons by (simp add: fun_eq_iff del: nodeOK.simps)
  then show ?case using nd
    by (simp add: leaves_Cons_node nodeFoldl_def nodeFoldlLoop_leaves foldCalls_append del: leaves.simps(2))
qed simp

lemma ftFoldlSpine_law:
  "ftOK (Suc k) t \<Longrightarrow> ftFoldlSpine t f acc ce ap w = foldCalls (leaves (ftElems t)) f acc ce ap w"
proof (induction t arbitrary: k acc ce w)
  case (FtSingle e)
  then obtain nd where "extractNode e = Some nd" by (auto split: option.splits)
  then show ?case by (simp add: leaves_Cons_node nodeFoldl_def nodeFoldlLoop_leaves del: leaves.simps(2))
next
  case (FtDeep s l m r)
  have "digitFoldlSpine l f acc ce ap = foldCalls (leaves l) f acc ce ap"
    "digitFoldlSpine r f acc ce ap = foldCalls (leaves r) f acc ce ap"
    "ftFoldlSpine m f acc ce ap = foldCalls (leaves (ftElems m)) f acc ce ap" for acc ce
    using FtDeep digitFoldlSpine_law [of l k] digitFoldlSpine_law [of r k] by (auto simp: fun_eq_iff)
  then show ?case using leaves_deep [OF FtDeep.prems]
    by (simp add: foldCalls_append del: ftElems.simps)
qed simp

lemma ftFoldl_law: "ftOK 0 t \<Longrightarrow> ftFoldl t f acc ce ap w = foldCalls (ftElems t) f acc ce ap w"
proof (cases t)
  case (FtDeep s l m r)
  assume ok: "ftOK 0 t"
  have "ftFoldlSpine m f acc ce ap = foldCalls (leaves (ftElems m)) f acc ce ap" for acc ce
    using ok FtDeep ftFoldlSpine_law [of 0 m] by (simp add: fun_eq_iff)
  then show ?thesis using ok FtDeep level0_deep [of s l m r]
    by (simp add: ftFoldl_def foldCalls_append del: ftElems.simps)
qed (auto simp: ftFoldl_def foldCalls_fun)

end
