(* ===== verification/Sequence_Prims.thy ===== *)
theory Sequence_Prims
  imports Map_Set Finger_Tree_Laws
begin

text \<open>
  The primitives of \<^verbatim>\<open>Data.Sequence\<close>, \<^verbatim>\<open>internal/host/stdlib/sequence.go\<close>, over the finger tree. Each is
  described for every budget: the statement says what is charged and what is returned once the charge
  is admitted. A user element is any value that is not a node of the tree itself; such values never
  leave the tree.
\<close>

section \<open>Sequence primitives\<close>

definition costFTNode :: int64 where "costFTNode = 64"

definition asSeqVal :: "val \<Rightarrow> err + ft" where
  "asSeqVal v =
     (case v of
        HostVal h \<Rightarrow> (case h of HSeq t \<Rightarrow> Inr t | _ \<Rightarrow> Inl (errExpected ''sequence'' ''Seq'' (Inr h)))
      | _ \<Rightarrow> Inl (errExpected ''sequence'' ''Seq'' (Inl v)))"

definition seqWrap :: "ft \<Rightarrow> val" where "seqWrap t = HostVal (HSeq t)"

definition seqEmptyImpl :: primImpl where
  "seqEmptyImpl ce args ap w = (Ret (seqWrap FtEmpty) ce, w)"

definition seqConsImpl :: primImpl where
  "seqConsImpl ce args ap w =
     argN args 0 w (\<lambda>elem. argN args 1 w (\<lambda>a. tryE (asSeqVal a) ce w (\<lambda>sv.
     charge costFTNode ce w (\<lambda>w. (Ret (seqWrap (ftCons elem sv)) ce, w)))))"

definition seqSnocImpl :: primImpl where
  "seqSnocImpl ce args ap w =
     argN args 0 w (\<lambda>a. tryE (asSeqVal a) ce w (\<lambda>sv. argN args 1 w (\<lambda>elem.
     charge costFTNode ce w (\<lambda>w. (Ret (seqWrap (ftSnoc sv elem)) ce, w)))))"

definition seqUnconsImpl :: primImpl where
  "seqUnconsImpl ce args ap w =
     argN args 0 w (\<lambda>a. tryE (asSeqVal a) ce w (\<lambda>sv. orPanic (ftUncons sv) w (\<lambda>view.
     case view of
       None \<Rightarrow> (Ret nothingVal ce, w)
     | Some (h, t) \<Rightarrow>
         (Ret (justVal (newRecordFromMap [(tupleLabel 1, h), (tupleLabel 2, seqWrap t)])) ce, w))))"

definition seqUnsnocImpl :: primImpl where
  "seqUnsnocImpl ce args ap w =
     argN args 0 w (\<lambda>a. tryE (asSeqVal a) ce w (\<lambda>sv. orPanic (ftUnsnoc sv) w (\<lambda>view.
     case view of
       None \<Rightarrow> (Ret nothingVal ce, w)
     | Some (ini, lst) \<Rightarrow>
         (Ret (justVal (newRecordFromMap [(tupleLabel 1, seqWrap ini), (tupleLabel 2, lst)])) ce, w))))"

text \<open>The loop \<^verbatim>\<open>for s := minSize; s > 1; s /= 3\<close> of \<^verbatim>\<open>seqAppendImpl\<close>.\<close>

function appendNodes :: "int \<Rightarrow> int64 \<Rightarrow> int64" where
  "appendNodes s nodes = (if s > 1 then appendNodes (s div 3) (nodes + 1) else nodes)"
  by auto
termination by (relation "measure (\<lambda>(s, _). nat s)") auto

definition seqAppendImpl :: primImpl where
  "seqAppendImpl ce args ap w =
     argN args 0 w (\<lambda>a1. tryE (asSeqVal a1) ce w (\<lambda>a. argN args 1 w (\<lambda>a2. tryE (asSeqVal a2) ce w (\<lambda>b.
     let minSize = ftreeSize a;
         minSize = (if ftreeSize b < minSize then ftreeSize b else minSize);
         nodes = appendNodes minSize 4
     in charge (costFTNode * nodes) ce w (\<lambda>w. (Ret (seqWrap (ftAppend a b)) ce, w))))))"

definition seqIndexImpl :: primImpl where
  "seqIndexImpl ce args ap w =
     argN args 0 w (\<lambda>a0. tryE (asInt64 a0 ''sequence'') ce w (\<lambda>i.
     argN args 1 w (\<lambda>a1. tryE (asSeqVal a1) ce w (\<lambda>sv.
     if i <s 0 \<or> sint i \<ge> ftreeSize sv then (Ret nothingVal ce, w)
     else orPanic (ftIndex sv (sint i)) w (\<lambda>elem.
       case elem of None \<Rightarrow> (Ret nothingVal ce, w) | Some v \<Rightarrow> (Ret (justVal v) ce, w))))))"

definition seqLengthImpl :: primImpl where
  "seqLengthImpl ce args ap w =
     argN args 0 w (\<lambda>a. tryE (asSeqVal a) ce w (\<lambda>sv. (Ret (intVal (word_of_int (ftreeSize sv))) ce, w)))"

definition seqToListImpl :: primImpl where
  "seqToListImpl ce args ap w =
     argN args 0 w (\<lambda>a. tryE (asSeqVal a) ce w (\<lambda>sv.
     charge (word_of_int (ftreeSize sv) * costConsNode) ce w (\<lambda>w.
     orPanic (ftToList sv) w (\<lambda>l. (Ret l ce, w)))))"

definition seqFromListImpl :: primImpl where
  "seqFromListImpl ce args ap w =
     argN args 0 w (\<lambda>a.
     let tree = ftFromList a; sz = ftreeSize tree
     in if sz > 0 then charge (word_of_int sz * costFTNode) ce w (\<lambda>w. (Ret (seqWrap tree) ce, w))
        else (Ret (seqWrap tree) ce, w))"

definition seqFoldlImpl :: primImpl where
  "seqFoldlImpl ce args ap w =
     argN args 0 w (\<lambda>f. argN args 1 w (\<lambda>acc. argN args 2 w (\<lambda>a. tryE (asSeqVal a) ce w (\<lambda>sv.
     ftFoldl sv f acc ce ap w))))"

text \<open>The loop of \<^verbatim>\<open>seqFoldrImpl\<close>, from the last item to the first; the argument is the reversed slice.\<close>

fun seqFoldrLoop :: "val list \<Rightarrow> val \<Rightarrow> val \<Rightarrow> capEnv \<Rightarrow> applier \<Rightarrow> world \<Rightarrow> val gores" where
  "seqFoldrLoop [] f acc ce ap w = (Ret acc ce, w)"
| "seqFoldrLoop (x # items) f acc ce ap w =
     callR (applyNA ap f [x, acc] ce w) (\<lambda>c. c) (\<lambda>acc ce w. seqFoldrLoop items f acc ce ap w)"

definition seqFoldrImpl :: primImpl where
  "seqFoldrImpl ce args ap w =
     argN args 0 w (\<lambda>f. argN args 1 w (\<lambda>z. argN args 2 w (\<lambda>a. tryE (asSeqVal a) ce w (\<lambda>sv.
     orPanic (ftToSlice sv) w (\<lambda>items. seqFoldrLoop (rev items) f z ce ap w)))))"

fun seqMapLoop :: "val list \<Rightarrow> val \<Rightarrow> ft \<Rightarrow> capEnv \<Rightarrow> applier \<Rightarrow> world \<Rightarrow> ft gores" where
  "seqMapLoop [] f result ce ap w = (Ret result ce, w)"
| "seqMapLoop (item # items) f result ce ap w =
     callR (applyA ap f item ce w) (\<lambda>_. ce) (\<lambda>mapped ce w. seqMapLoop items f (ftSnoc result mapped) ce ap w)"

definition seqMapImpl :: primImpl where
  "seqMapImpl ce args ap w =
     argN args 0 w (\<lambda>f. argN args 1 w (\<lambda>a. tryE (asSeqVal a) ce w (\<lambda>sv.
     orPanic (ftToSlice sv) w (\<lambda>items.
     charge (of_nat (length items) * costFTNode) ce w (\<lambda>w.
     callR (seqMapLoop items f FtEmpty ce ap w) (\<lambda>c. c) (\<lambda>result ce w. (Ret (seqWrap result) ce, w)))))))"

fun seqFilterLoop :: "val list \<Rightarrow> val \<Rightarrow> ft \<Rightarrow> capEnv \<Rightarrow> applier \<Rightarrow> world \<Rightarrow> ft gores" where
  "seqFilterLoop [] pred result ce ap w = (Ret result ce, w)"
| "seqFilterLoop (item # items) pred result ce ap w =
     callR (applyA ap pred item ce w) (\<lambda>_. ce) (\<lambda>v ce w.
     seqFilterLoop items pred
       (case v of ConVal con cargs d n \<Rightarrow> (if con = ''True'' then ftSnoc result item else result) | _ \<Rightarrow> result) ce ap w)"

definition seqFilterImpl :: primImpl where
  "seqFilterImpl ce args ap w =
     argN args 0 w (\<lambda>pred. argN args 1 w (\<lambda>a. tryE (asSeqVal a) ce w (\<lambda>sv.
     orPanic (ftToSlice sv) w (\<lambda>items.
     callR (seqFilterLoop items pred FtEmpty ce ap w) (\<lambda>c. c) (\<lambda>result ce w.
     charge (word_of_int (ftreeSize result) * costFTNode) ce w (\<lambda>w. (Ret (seqWrap result) ce, w)))))))"

definition seqReverseImpl :: primImpl where
  "seqReverseImpl ce args ap w =
     argN args 0 w (\<lambda>a. tryE (asSeqVal a) ce w (\<lambda>sv.
     orPanic (ftToSlice sv) w (\<lambda>items.
     charge (of_nat (length items) * costFTNode) ce w (\<lambda>w.
     (Ret (seqWrap (foldl ftSnoc FtEmpty (rev items))) ce, w)))))"

definition seqPack :: "primImpl primRegistry \<Rightarrow> primImpl primRegistry" where
  "seqPack = registerAll
     [(''_seqEmpty'', seqEmptyImpl), (''_seqCons'', seqConsImpl), (''_seqSnoc'', seqSnocImpl),
      (''_seqUncons'', seqUnconsImpl), (''_seqUnsnoc'', seqUnsnocImpl), (''_seqAppend'', seqAppendImpl),
      (''_seqIndex'', seqIndexImpl), (''_seqLength'', seqLengthImpl), (''_seqToList'', seqToListImpl),
      (''_seqFromList'', seqFromListImpl), (''_seqFoldl'', seqFoldlImpl), (''_seqFoldr'', seqFoldrImpl),
      (''_seqMap'', seqMapImpl), (''_seqFilter'', seqFilterImpl), (''_seqReverse'', seqReverseImpl)]"

section \<open>Helper laws\<close>

abbreviation wfSeq :: "ft \<Rightarrow> bool" where "wfSeq t \<equiv> ftOK 0 t"
abbreviation userVal :: "val \<Rightarrow> bool" where "userVal v \<equiv> extractNode v = None"

lemma asSeqVal_wrap [simp]: "asSeqVal (seqWrap t) = Inr t"
  by (simp add: asSeqVal_def seqWrap_def)

lemma wfSeq_userVals: "wfSeq t \<Longrightarrow> \<forall>v \<in> set (ftElems t). nodeOK 0 v"
  using ftOK_elems by blast

text \<open>The items a mapping loop produces, as a list.\<close>

fun mapCalls :: "val list \<Rightarrow> val \<Rightarrow> capEnv \<Rightarrow> applier \<Rightarrow> world \<Rightarrow> val list gores" where
  "mapCalls [] f ce ap w = (Ret [] ce, w)"
| "mapCalls (x # xs) f ce ap w =
     callR (applyA ap f x ce w) (\<lambda>_. ce) (\<lambda>y ce w. callR (mapCalls xs f ce ap w) (\<lambda>c. c) (\<lambda>ys ce w. (Ret (y # ys) ce, w)))"

definition isTrue :: "val \<Rightarrow> bool" where
  "isTrue v = (case v of ConVal con cargs d n \<Rightarrow> con = ''True'' | _ \<Rightarrow> False)"

lemma seqMapLoop_calls:
  "seqMapLoop xs f t ce ap w = callR (mapCalls xs f ce ap w) (\<lambda>c. c) (\<lambda>ys ce w. (Ret (foldl ftSnoc t ys) ce, w))"
proof (induction xs f t ce ap w rule: seqMapLoop.induct)
  case (2 item items f result ce ap w)
  then show ?case by (auto simp: callR_assoc intro!: callR_cont_cong)
qed simp

lemma seqFilterLoop_calls:
  "seqFilterLoop xs p t ce ap w =
     callR (mapCalls xs p ce ap w) (\<lambda>c. c)
       (\<lambda>bs ce w. (Ret (foldl ftSnoc t (map fst (filter (isTrue \<circ> snd) (zip xs bs)))) ce, w))"
proof (induction xs p t ce ap w rule: seqFilterLoop.induct)
  case (2 item items p result ce ap w)
  have pick: "(case v of ConVal con cargs d n \<Rightarrow> (if con = ''True'' then ftSnoc result item else result) | _ \<Rightarrow> result)
    = (if isTrue v then ftSnoc result item else result)" for v
    by (simp add: isTrue_def split: val.splits)
  show ?case using 2
    by (auto simp: callR_assoc pick intro!: callR_cont_cong)
qed simp

lemma mapCalls_length: "mapCalls xs f ce ap w = (Ret ys ce', w') \<Longrightarrow> length ys = length xs"
  by (induction xs arbitrary: ys ce w) (auto simp: callR_Ret_iff)

section \<open>Properties\<close>

text \<open>
  C14: A sequence value behaves as a double-ended queue. Pushing a user element at either end charges one
  node and, once admitted, returns a well-formed sequence with that element added at that end; popping
  returns Nothing exactly for the empty sequence, otherwise the first (last) element paired with a
  well-formed sequence of the others. No operation panics.
\<close>

theorem seq_deque_laws:
  assumes "wfSeq t" "userVal a"
  shows "(\<exists>t'. wfSeq t' \<and> ftElems t' = a # ftElems t \<and>
           seqConsImpl ce [a, seqWrap t] ap w = charge costFTNode ce w (\<lambda>w. (Ret (seqWrap t') ce, w))) \<and>
         (\<exists>t'. wfSeq t' \<and> ftElems t' = ftElems t @ [a] \<and>
           seqSnocImpl ce [seqWrap t, a] ap w = charge costFTNode ce w (\<lambda>w. (Ret (seqWrap t') ce, w))) \<and>
         (case ftElems t of
            [] \<Rightarrow> seqUnconsImpl ce [seqWrap t] ap w = (Ret nothingVal ce, w)
          | h # xs \<Rightarrow> \<exists>t'. wfSeq t' \<and> ftElems t' = xs \<and>
              seqUnconsImpl ce [seqWrap t] ap w = (Ret (justVal (mkPair h (seqWrap t'))) ce, w)) \<and>
         (if ftElems t = [] then seqUnsnocImpl ce [seqWrap t] ap w = (Ret nothingVal ce, w)
          else \<exists>t'. wfSeq t' \<and> ftElems t' = butlast (ftElems t) \<and>
              seqUnsnocImpl ce [seqWrap t] ap w = (Ret (justVal (mkPair (seqWrap t') (last (ftElems t)))) ce, w))"
proof (intro conjI)
  show "\<exists>t'. wfSeq t' \<and> ftElems t' = a # ftElems t \<and>
      seqConsImpl ce [a, seqWrap t] ap w = charge costFTNode ce w (\<lambda>w. (Ret (seqWrap t') ce, w))"
    using fingers.cons_law [of 0 t a] assms by (intro exI [of _ "ftCons a t"]) (simp add: seqConsImpl_def)
  show "\<exists>t'. wfSeq t' \<and> ftElems t' = ftElems t @ [a] \<and>
      seqSnocImpl ce [seqWrap t, a] ap w = charge costFTNode ce w (\<lambda>w. (Ret (seqWrap t') ce, w))"
    using fingers.snoc_law [of 0 t a] assms by (intro exI [of _ "ftSnoc t a"]) (simp add: seqSnocImpl_def)
  show "case ftElems t of
            [] \<Rightarrow> seqUnconsImpl ce [seqWrap t] ap w = (Ret nothingVal ce, w)
          | h # xs \<Rightarrow> \<exists>t'. wfSeq t' \<and> ftElems t' = xs \<and>
              seqUnconsImpl ce [seqWrap t] ap w = (Ret (justVal (mkPair h (seqWrap t'))) ce, w)"
    using fingers.uncons_law [OF assms(1)]
    by (auto simp: seqUnconsImpl_def mkPair_def simp del: mkPair_eq split: list.splits)
  show "if ftElems t = [] then seqUnsnocImpl ce [seqWrap t] ap w = (Ret nothingVal ce, w)
          else \<exists>t'. wfSeq t' \<and> ftElems t' = butlast (ftElems t) \<and>
              seqUnsnocImpl ce [seqWrap t] ap w = (Ret (justVal (mkPair (seqWrap t') (last (ftElems t)))) ce, w)"
    using fingers.unsnoc_law [OF assms(1)]
    by (auto simp: seqUnsnocImpl_def mkPair_def simp del: mkPair_eq split: if_splits)
qed

theorem seq_deque_laws_witness:
  "\<exists>t'. wfSeq t' \<and> ftElems t' = [UnitVal, intVal 1, intVal 2] \<and>
     seqConsImpl emptyCapEnv [UnitVal, seqWrap (FtDeep 2 [intVal 1] FtEmpty [intVal 2])] (vmApplier (failingEnv) 0) world0
       = charge costFTNode emptyCapEnv world0 (\<lambda>w. (Ret (seqWrap t') emptyCapEnv, w))"
  using seq_deque_laws [of "FtDeep 2 [intVal 1] FtEmpty [intVal 2]" UnitVal emptyCapEnv "vmApplier (failingEnv) 0" world0]
  by (simp add: extractNode_def UnitVal_def intVal_def deepSize_def digitSize_def del: vmApplier.simps)

text \<open>
  C33: \<^verbatim>\<open>append\<close> of two well-formed sequences charges for \<^verbatim>\<open>4 + log\<close> nodes of the smaller one and returns a
  well-formed sequence whose elements are those of the first followed by those of the second, and
  \<^verbatim>\<open>length\<close> returns the number of elements.
\<close>

theorem seq_append_length:
  assumes "wfSeq t1" "wfSeq t2"
  shows "\<exists>t. wfSeq t \<and> ftElems t = ftElems t1 @ ftElems t2 \<and>
           seqAppendImpl ce [seqWrap t1, seqWrap t2] ap w =
             charge (costFTNode * appendNodes (int (min (length (ftElems t1)) (length (ftElems t2)))) 4) ce w
               (\<lambda>w. (Ret (seqWrap t) ce, w)) \<and>
           seqLengthImpl ce [seqWrap t] ap w =
             (Ret (intVal (of_nat (length (ftElems t1) + length (ftElems t2)))) ce, w)"
  using ftAppend_law [OF assms] ftreeSize_length [OF assms(1)] ftreeSize_length [OF assms(2)]
  by (intro exI [of _ "ftAppend t1 t2"])
    (auto simp: seqAppendImpl_def seqLengthImpl_def ftreeSize_length min_def simp del: appendNodes.simps)

theorem seq_append_length_witness:
  "\<exists>t. wfSeq t \<and> ftElems t = [UnitVal, UnitVal] \<and>
     seqLengthImpl emptyCapEnv [seqWrap t] (vmApplier failingEnv 0) world0 = (Ret (intVal 2) emptyCapEnv, world0)"
  using seq_append_length [of "FtSingle UnitVal" "FtSingle UnitVal" emptyCapEnv "vmApplier failingEnv 0" world0]
  by (auto simp: extractNode_def UnitVal_def simp del: vmApplier.simps)

text \<open>
  \<^verbatim>\<open>index\<close> on a well-formed sequence returns exactly the element at that position for a position from
  zero below the length, and Nothing for every other 64-bit integer, negative ones included.
\<close>

theorem seq_index_correct:
  assumes "wfSeq t"
  shows "seqIndexImpl ce [intVal i, seqWrap t] ap w =
    (Ret (if 0 \<le> sint i \<and> sint i < int (length (ftElems t)) then justVal (ftElems t ! nat (sint i)) else nothingVal) ce, w)"
  using ftIndex_law [OF assms, of "sint i"] ftreeSize_length [OF assms]
  by (auto simp: seqIndexImpl_def asInt64_def intVal_def word_sless_alt)

theorem seq_index_correct_witness:
  "seqIndexImpl emptyCapEnv [intVal 1, seqWrap (FtDeep 2 [intVal 1] FtEmpty [intVal 2])] (vmApplier failingEnv 0) world0
     = (Ret (justVal (intVal 2)) emptyCapEnv, world0) \<and>
   seqIndexImpl emptyCapEnv [intVal (- 1), seqWrap (FtDeep 2 [intVal 1] FtEmpty [intVal 2])] (vmApplier failingEnv 0) world0
     = (Ret nothingVal emptyCapEnv, world0)"
  using seq_index_correct [of "FtDeep 2 [intVal 1] FtEmpty [intVal 2]" emptyCapEnv 1 "vmApplier failingEnv 0" world0]
    seq_index_correct [of "FtDeep 2 [intVal 1] FtEmpty [intVal 2]" emptyCapEnv "- 1" "vmApplier failingEnv 0" world0]
  by (simp add: extractNode_def intVal_def deepSize_def digitSize_def del: vmApplier.simps)





end
