(* ===== verification/Core_Index_Laws.thy ===== *)
theory Core_Index_Laws
  imports Core_Index
begin

text \<open>
  Indices resolve to what lexical scoping gives. Every bound name of a term has an identity, the path of the
  subterm it scopes over with its rank there. \<open>byName\<close> lists what each variable occurrence
  refers to under lexical scoping; \<open>byIndex\<close> lists what it refers to at run time, when a closure keeps exactly
  the captured positions of its annotation and each bound name is pushed onto the environment. The pass makes
  the two agree.
\<close>

section \<open>What occurrences refer to\<close>

type_synonym bindId = "nat list \<times> nat"

datatype target = Local bindId | Global | Dangling

definition nthT :: "target list \<Rightarrow> nat \<Rightarrow> target" where
  "nthT vs i = (if i < length vs then vs ! i else Dangling)"

definition bindIds :: "nat list \<Rightarrow> nat \<Rightarrow> bindId list" where
  "bindIds q n = map (Pair q) [0..<n]"

lemma enumerate_scoped_size: "(j, ns, k) \<in> set (enumerate i (scoped c)) \<Longrightarrow> size k < size c"
  by (rule scoped_size [of ns]) (auto simp: enumerate_eq_zip dest: set_zip_rightD)

function byName :: "(string \<Rightarrow> bindId option) \<Rightarrow> nat list \<Rightarrow> 'a core \<Rightarrow> target list" where
  "byName \<rho> p c =
     (case c of
        Var n m i \<Rightarrow> [if m = [] then (case \<rho> n of Some b \<Rightarrow> Local b | None \<Rightarrow> Global) else Global]
      | _ \<Rightarrow> concat (map (\<lambda>(j, ns, k). byName (\<rho>(ns [\<mapsto>] bindIds (j # p) (length ns))) (j # p) k) (enumerate 0 (scoped c))))"
  by pat_completeness auto
termination
  by (relation "measure (\<lambda>(_, _, c). size c)") (auto dest: enumerate_scoped_size simp del: scoped.simps)

text \<open>The environment of a closure, innermost first: the positions its annotation lists, or everything.\<close>

definition captures :: "fvInfo option \<Rightarrow> target list \<Rightarrow> target list" where
  "captures s vs =
     (case s of
        None \<Rightarrow> []
      | Some info \<Rightarrow> (case fvi_indices info of None \<Rightarrow> vs | Some is \<Rightarrow> rev (map (nthT vs) is)))"

definition selfs :: "bindId option \<Rightarrow> target list" where
  "selfs s = (case s of None \<Rightarrow> [] | Some i \<Rightarrow> [Local i])"

text \<open>The first argument is the pending self reference of an enclosing fixpoint.\<close>

function byIndex :: "bindId option \<Rightarrow> target list \<Rightarrow> nat list \<Rightarrow> annotated \<Rightarrow> target list" where
  "byIndex s vs p c =
     (case c of
        Var n m i \<Rightarrow> [if i < 0 then Global else nthT vs (nat i)]
      | Lam a x t b g \<Rightarrow> byIndex None (Local (0 # p, 0) # selfs s @ captures a vs) (0 # p) b
      | Thunk a e \<Rightarrow> byIndex None (selfs s @ captures a vs) (0 # p) e
      | Merge a1 a2 l r ll rl \<Rightarrow> byIndex None (captures a1 vs) (0 # p) l @ byIndex None (captures a2 vs) (1 # p) r
      | TyLam x k b \<Rightarrow> byIndex s vs (0 # p) b
      | Fix x b \<Rightarrow> byIndex (Some (0 # p, 0)) vs (0 # p) b
      | _ \<Rightarrow> concat (map (\<lambda>(j, ns, k). byIndex None (map Local (rev (bindIds (j # p) (length ns))) @ vs) (j # p) k)
               (enumerate 0 (scoped c))))"
  by pat_completeness auto
termination
  by (relation "measure (\<lambda>(_, _, _, c). size c)") (auto dest: enumerate_scoped_size simp del: scoped.simps)

declare byName.simps [simp del] byIndex.simps [simp del]

text \<open>
  The terms the pass is meant for: variables are named, a qualified variable does not share its name with an
  enclosing bound name, and a fixpoint is over a function or thunk whose parameter does not hide it.
\<close>

fun fixOK :: "string \<Rightarrow> 'a core \<Rightarrow> bool" where
  "fixOK f (TyLam x k b) \<longleftrightarrow> fixOK f b"
| "fixOK f (Lam s x t b g) \<longleftrightarrow> x \<noteq> f"
| "fixOK f (Thunk s e) \<longleftrightarrow> True"
| "fixOK f c \<longleftrightarrow> False"

function resolvable :: "string set \<Rightarrow> 'a core \<Rightarrow> bool" where
  "resolvable B c \<longleftrightarrow>
     (case c of Var n m i \<Rightarrow> n \<noteq> [] \<and> (m \<noteq> [] \<longrightarrow> n \<notin> B) | Fix f b \<Rightarrow> fixOK f b | _ \<Rightarrow> True) \<and>
     (\<forall>(ns, k) \<in> set (scoped c). resolvable (B \<union> set ns) k)"
  by pat_completeness auto
termination by (relation "measure (\<lambda>(_, c). size c)") (auto dest: scoped_size)

declare resolvable.simps [simp del]

section \<open>Agreement of names and positions\<close>

definition agree :: "string set \<Rightarrow> (string \<Rightarrow> bindId option) \<Rightarrow> scope \<Rightarrow> target list \<Rightarrow> bool" where
  "agree K \<rho> sc vs \<longleftrightarrow>
     (\<forall>n \<in> K. case sc n of None \<Rightarrow> \<rho> n = None | Some i \<Rightarrow> \<exists>b. \<rho> n = Some b \<and> nthT vs i = Local b)"

definition locals :: "'a core \<Rightarrow> string set" where "locals c = {n. LocalKey n \<in> freeBy patDeleted c}"

lemma agree_mono: "agree K \<rho> sc vs \<Longrightarrow> K' \<subseteq> K \<Longrightarrow> agree K' \<rho> sc vs"
  by (auto simp: agree_def)

lemma agree_cong:
  assumes "agree K \<rho> sc vs" "K' \<subseteq> K" "\<And>n. n \<in> K' \<Longrightarrow> \<rho>' n = \<rho> n"
  shows "agree K' \<rho>' sc vs"
  using agree_mono [OF assms(1,2)] by (simp add: agree_def assms(3) cong del: option.case_cong_weak)

lemma agree_empty [simp]: "agree K Map.empty Map.empty vs"
  by (simp add: agree_def)

lemma agree_push:
  "agree (K - {x}) \<rho> sc vs \<Longrightarrow> agree K (\<rho>(x \<mapsto> b)) ((shiftScope sc 1)(x \<mapsto> 0)) (Local b # vs)"
  unfolding agree_def
proof
  fix n
  assume a: "\<forall>n \<in> K - {x}. case sc n of None \<Rightarrow> \<rho> n = None | Some i \<Rightarrow> \<exists>b. \<rho> n = Some b \<and> nthT vs i = Local b" and n: "n \<in> K"
  show "case ((shiftScope sc 1)(x \<mapsto> 0)) n of None \<Rightarrow> (\<rho>(x \<mapsto> b)) n = None
      | Some i \<Rightarrow> \<exists>b'. (\<rho>(x \<mapsto> b)) n = Some b' \<and> nthT (Local b # vs) i = Local b'"
  proof (cases "n = x")
    case False
    then have "n \<in> K - {x}" using n by simp
    from bspec [OF a this] show ?thesis using False
      by (cases "sc n") (auto simp: shiftScope_def nthT_def split: if_splits)
  qed (simp add: nthT_def)
qed

lemma bindScope_Nil [simp]: "bindScope sc [] = sc"
  by (auto simp: bindScope_def shiftScope_def ranks_def map_option.id [unfolded id_def])

lemma shiftScope_upds: "shiftScope (m(ns [\<mapsto>] is)) k = (shiftScope m k)(ns [\<mapsto>] map (\<lambda>i. i + k) is)"
proof (induction ns arbitrary: m "is")
  case (Cons n ns)
  have "shiftScope (m(n \<mapsto> i)) k = (shiftScope m k)(n \<mapsto> i + k)" for i by (auto simp: shiftScope_def)
  then show ?case using Cons.IH by (cases "is") (simp_all del: fun_upd_apply)
qed simp

lemma ranks_Suc: "ranks k (Suc n) = map (\<lambda>i. i + 1) (ranks k n) @ [k]"
  by (auto simp: ranks_def intro!: map_cong)

lemma ranks_shift: "ranks (k + j) n = map (\<lambda>i. i + j) (ranks k n)"
  by (auto simp: ranks_def)

lemma length_ranks [simp]: "length (ranks k n) = n"
  by (simp add: ranks_def)

lemma shiftScope_add: "shiftScope (shiftScope sc m) n = shiftScope sc (m + n)"
  by (simp add: shiftScope_def option.map_comp comp_def add.assoc)

lemma bindScope_snoc: "bindScope sc (ns @ [x]) = (shiftScope (bindScope sc ns) 1)(x \<mapsto> 0)"
  by (simp add: bindScope_def shiftScope_upds ranks_Suc shiftScope_add nth_append)

lemma bindScope_single [simp]: "bindScope sc [x] = (shiftScope sc 1)(x \<mapsto> 0)"
  using bindScope_snoc [of sc "[]" x] by simp

lemma agree_bind:
  "length bs = length ns \<Longrightarrow> agree (K - set ns) \<rho> sc vs \<Longrightarrow>
   agree K (\<rho>(ns [\<mapsto>] bs)) (bindScope sc ns) (map Local (rev bs) @ vs)"
proof (induction ns arbitrary: bs K rule: rev_induct)
  case (snoc x ns)
  obtain bs' b where bs: "bs = bs' @ [b]" "length bs' = length ns" using snoc.prems(1) by (cases bs rule: rev_cases) auto
  have "K - {x} - set ns = K - set (ns @ [x])" by auto
  then have "agree (K - {x}) (\<rho>(ns [\<mapsto>] bs')) (bindScope sc ns) (map Local (rev bs') @ vs)"
    using snoc.IH [OF bs(2), of "K - {x}"] snoc.prems(2) by simp
  from agree_push [OF this, of b] show ?case using bs by (simp add: bindScope_snoc nth_append del: fun_upd_apply)
qed simp

lemma dom_bindScope [simp]: "dom (bindScope sc ns) = dom sc \<union> set ns"
  by (induction ns rule: rev_induct) (auto simp: bindScope_snoc shiftScope_def dom_def)

lemma dom_shiftScope [simp]: "dom (shiftScope sc k) = dom sc"
  by (auto simp: shiftScope_def dom_def)

text \<open>What a closure captures agrees with its surroundings on the captured names.\<close>

abbreviation captureScope :: "(string \<times> nat) list \<Rightarrow> scope" where
  "captureScope locs \<equiv> bindScope Map.empty (map fst locs)"

lemma localFVs_set: "set (localFVs vars fx sc) = {(n, i). n \<in> set vars \<and> fx \<noteq> Some n \<and> sc n = Some i}"
  by (induction vars) (auto simp: localFVs_def List.map_filter_simps split: option.splits if_splits)

lemma map_upds_map: "n \<in> set ns \<Longrightarrow> (m(ns [\<mapsto>] map g ns)) n = Some (g n)"
  by (induction ns arbitrary: m) (auto, metis fun_upd_same map_upds_apply_nontin)

lemma agree_capture:
  assumes "agree K \<rho> sc vs" "{n \<in> set vars. fx \<noteq> Some n} \<subseteq> K"
  shows "agree {n \<in> set vars. fx \<noteq> Some n} \<rho> (captureScope (localFVs vars fx sc)) (rev (map (nthT vs \<circ> snd) (localFVs vars fx sc)))"
proof -
  let ?locs = "localFVs vars fx sc" and ?ns = "map fst (localFVs vars fx sc)"
  let ?bs = "map (the \<circ> \<rho>) ?ns"
  have "\<rho> n \<noteq> None \<and> nthT vs i = Local (the (\<rho> n))" if "(n, i) \<in> set ?locs" for n i
    using that assms by (fastforce simp: localFVs_set agree_def)
  then have "map (nthT vs \<circ> snd) ?locs = map Local ?bs" by (auto simp: comp_def)
  then have *: "agree UNIV (Map.empty(?ns [\<mapsto>] ?bs)) (captureScope ?locs) (rev (map (nthT vs \<circ> snd) ?locs))"
    using agree_bind [of ?bs ?ns UNIV Map.empty Map.empty "[]"] by (simp only: rev_map agree_empty length_map append_Nil2 simp_thms)
  have eq: "(Map.empty(?ns [\<mapsto>] ?bs)) n = \<rho> n" if "n \<in> set vars" "fx \<noteq> Some n" for n
  proof (cases "n \<in> set ?ns")
    case True
    then have "\<rho> n \<noteq> None" using \<open>\<And>n i. (n, i) \<in> set ?locs \<Longrightarrow> _\<close> by auto
    moreover have "(Map.empty(?ns [\<mapsto>] ?bs)) n = Some (the (\<rho> n))"
      using map_upds_map [OF True, of Map.empty "the \<circ> \<rho>"] by simp
    ultimately show ?thesis by simp
  next
    case False
    then have "sc n = None" using that by (force simp: localFVs_set image_iff)
    then have "\<rho> n = None" using assms that by (fastforce simp: agree_def)
    then show ?thesis using False by simp
  qed
  show ?thesis
  proof (rule agree_cong [OF *])
    show "\<rho> n = (Map.empty(?ns [\<mapsto>] ?bs)) n" if "n \<in> {n \<in> set vars. fx \<noteq> Some n}" for n using eq [of n] that by simp
  qed simp
qed

lemma capture_dom: "dom (captureScope (localFVs vars fx sc)) \<subseteq> dom sc"
  by (auto simp: localFVs_set)

lemma capture_Lam:
  assumes "x \<notin> fst ` set locs"
  shows "[x \<mapsto> 0](map fst locs [\<mapsto>] ranks 1 (length locs)) = (shiftScope (captureScope locs) 1)(x \<mapsto> 0)"
proof -
  have "shiftScope Map.empty 1 = Map.empty" for k by (simp add: shiftScope_def)
  then show ?thesis using assms ranks_shift [of 0 1 "length locs"]
    by (simp add: bindScope_def shiftScope_upds shiftScope_add shiftScope_def [of Map.empty] map_upds_twist)
qed

lemma capture_Fix:
  assumes "x \<notin> fst ` set locs" "f \<notin> fst ` set locs" "x \<noteq> f"
  shows "[x \<mapsto> 0, f \<mapsto> 1](map fst locs [\<mapsto>] ranks 2 (length locs)) =
    (shiftScope ((shiftScope (captureScope locs) 1)(f \<mapsto> 0)) 1)(x \<mapsto> 0)"
proof -
  have "shiftScope (m(f \<mapsto> 0)) 1 = (shiftScope m 1)(f \<mapsto> 1)" for m by (auto simp: shiftScope_def)
  moreover have "ranks 2 (length locs) = map (\<lambda>i. i + 2) (ranks 0 (length locs))" using ranks_shift [of 0 2 "length locs"] by (simp only: add_0)
  ultimately show ?thesis using assms
    by (simp add: bindScope_def shiftScope_upds shiftScope_add shiftScope_def [of Map.empty] map_upds_twist numeral_2_eq_2
      comp_def fun_upd_twist)
qed

section \<open>The pass resolves every occurrence\<close>

definition good :: "scope \<Rightarrow> annotated \<Rightarrow> annotated \<Rightarrow> bool" where
  "good sc c c' \<longleftrightarrow> (\<forall>\<rho> vs p. agree (locals c) \<rho> sc vs \<longrightarrow> byIndex None vs p c' = byName \<rho> p c)"

definition goodFix :: "string \<Rightarrow> scope \<Rightarrow> annotated \<Rightarrow> annotated \<Rightarrow> bool" where
  "goodFix f sc c c' \<longleftrightarrow>
     (\<forall>\<rho> vs p i. agree (locals c - {f}) \<rho> sc vs \<longrightarrow> byIndex (Some i) vs p c' = byName (\<rho>(f \<mapsto> i)) p c)"

text \<open>The nodes whose children are resolved in the environment extended by the names they bind.\<close>

fun plain :: "'a core \<Rightarrow> bool" where
  "plain (Var n m i) \<longleftrightarrow> False"
| "plain (Lam s x t b g) \<longleftrightarrow> False"
| "plain (Thunk s e) \<longleftrightarrow> False"
| "plain (Merge s1 s2 l r ls rs) \<longleftrightarrow> False"
| "plain (Fix f b) \<longleftrightarrow> False"
| "plain c \<longleftrightarrow> True"

lemma enumerate_all2:
  "list_all2 R xs ys \<Longrightarrow> (\<And>j x y. R x y \<Longrightarrow> f j x = g j y) \<Longrightarrow>
   map (\<lambda>(j, x). f j x) (enumerate n xs) = map (\<lambda>(j, y). g j y) (enumerate n ys)"
  by (induction arbitrary: n rule: list_all2_induct) auto

definition kidGood :: "scope \<Rightarrow> string list \<times> annotated \<Rightarrow> string list \<times> annotated \<Rightarrow> bool" where
  "kidGood sc x y \<longleftrightarrow> fst x = fst y \<and> good (bindScope sc (fst x)) (snd x) (snd y)"

lemma byName_plain:
  "plain c \<Longrightarrow> byName \<rho> p c =
     concat (map (\<lambda>(j, ns, k). byName (\<rho>(ns [\<mapsto>] bindIds (j # p) (length ns))) (j # p) k) (enumerate 0 (scoped c)))"
  by (subst byName.simps, cases c) (simp_all del: scoped.simps)

lemma byIndex_plain:
  "plain c \<Longrightarrow> byIndex None vs p c =
     concat (map (\<lambda>(j, ns, k). byIndex None (map Local (rev (bindIds (j # p) (length ns))) @ vs) (j # p) k) (enumerate 0 (scoped c)))"
  by (subst byIndex.simps, cases c) (simp_all add: bindIds_def del: byIndex.simps)

lemma length_bindIds [simp]: "length (bindIds q n) = n"
  by (simp add: bindIds_def)

text \<open>The free names of a child, those the node binds apart, are free in the node.\<close>

lemma locals_kid: "(ns, k) \<in> set (scoped c) \<Longrightarrow> locals k - set ns \<subseteq> locals c"
  using patDeleted_Bindings
  by (cases c) (fastforce simp: locals_def LocalKey_def)+

lemma good_plain:
  assumes "plain c" "plain c'" "list_all2 (kidGood sc) (scoped c) (scoped c')"
  shows "good sc c c'"
  unfolding good_def
proof (intro allI impI)
  fix \<rho> vs p
  assume a: "agree (locals c) \<rho> sc vs"
  have "map (\<lambda>(j, x). byIndex None (map Local (rev (bindIds (j # p) (length (fst x)))) @ vs) (j # p) (snd x)) (enumerate 0 (scoped c')) =
      map (\<lambda>(j, x). byName (\<rho>(fst x [\<mapsto>] bindIds (j # p) (length (fst x)))) (j # p) (snd x)) (enumerate 0 (scoped c))"
  proof (rule sym, rule enumerate_all2)
    show "list_all2 (\<lambda>x y. kidGood sc x y \<and> x \<in> set (scoped c)) (scoped c) (scoped c')"
      using assms(3) by (auto simp: list_all2_conv_all_nth)
    show "byName (\<rho>(fst x [\<mapsto>] bindIds (j # p) (length (fst x)))) (j # p) (snd x) =
        byIndex None (map Local (rev (bindIds (j # p) (length (fst y)))) @ vs) (j # p) (snd y)"
      if x: "kidGood sc x y \<and> x \<in> set (scoped c)" for j x y
    proof -
      have "agree (locals (snd x) - set (fst x)) \<rho> sc vs"
        using a locals_kid [of "fst x" "snd x" c] x agree_mono by auto
      from agree_bind [OF length_bindIds this] show ?thesis using x unfolding kidGood_def good_def by metis
    qed
  qed
  then show "byIndex None vs p c' = byName \<rho> p c"
    unfolding byName_plain [OF assms(1)] byIndex_plain [OF assms(2)] by (simp add: case_prod_unfold)
qed

text \<open>The other nodes.\<close>

lemma good_Var:
  assumes "resolvable B (Var n m i)" "dom sc \<subseteq> B"
  shows "good sc (Var n m i) (Var n m (case sc n of Some idx \<Rightarrow> int idx | None \<Rightarrow> - 1))"
proof -
  have "n \<noteq> []" "m \<noteq> [] \<longrightarrow> sc n = None" using assms by (auto simp: resolvable.simps [of _ "Var _ _ _"])
  then show ?thesis
    by (cases "m = []") (auto simp: good_def locals_def LocalKey_def agree_def byName.simps [of _ _ "Var _ _ _"]
        byIndex.simps [of _ _ _ "Var _ _ _"] split: option.splits)
qed

lemma byName_nodes:
  "byName \<rho> p (Lam s x t b g) = byName (\<rho>(x \<mapsto> (0 # p, 0))) (0 # p) b"
  "byName \<rho> p (Thunk s e) = byName \<rho> (0 # p) e"
  "byName \<rho> p (Merge s1 s2 l r ls rs) = byName \<rho> (0 # p) l @ byName \<rho> (1 # p) r"
  "byName \<rho> p (Fix x b) = byName (\<rho>(x \<mapsto> (0 # p, 0))) (0 # p) b"
  "byName \<rho> p (TyLam x k b) = byName \<rho> (0 # p) b"
  by (subst byName.simps, simp add: bindIds_def)+

lemma byIndex_nodes:
  "byIndex s vs p (Lam a x t b g) = byIndex None (Local (0 # p, 0) # selfs s @ captures a vs) (0 # p) b"
  "byIndex s vs p (Thunk a e) = byIndex None (selfs s @ captures a vs) (0 # p) e"
  "byIndex s vs p (Merge a1 a2 l r ls rs) = byIndex None (captures a1 vs) (0 # p) l @ byIndex None (captures a2 vs) (1 # p) r"
  "byIndex s vs p (TyLam x k b) = byIndex s vs (0 # p) b"
  "byIndex s vs p (Fix x b) = byIndex (Some (0 # p, 0)) vs (0 # p) b"
  by (subst byIndex.simps, simp)+

lemma captures_withIndices: "captures (Some (withIndices info locs)) vs = rev (map (nthT vs \<circ> snd) locs)"
  by (simp add: captures_def withIndices_def comp_def)

lemma slot_capture:
  assumes "slotOK (Some info) K" "agree {n. LocalKey n \<in> K \<and> fx \<noteq> Some n} \<rho> sc vs"
  shows "agree {n. LocalKey n \<in> K \<and> fx \<noteq> Some n} \<rho> (captureScope (localFVs (fvi_vars info) fx sc))
    (captures (Some (withIndices info (localFVs (fvi_vars info) fx sc))) vs)"
proof -
  have "{n. LocalKey n \<in> K \<and> fx \<noteq> Some n} = {n \<in> set (fvi_vars info). fx \<noteq> Some n}" using assms(1) by (auto simp: slotOK_def)
  then show ?thesis using agree_capture [OF assms(2), of "fvi_vars info" fx] by (simp add: captures_withIndices)
qed

lemma good_capture:
  assumes "slotOK (Some info) (freeBy patDeleted e)" "good (captureScope (localFVs (fvi_vars info) None sc)) e e'"
    "agree (locals e) \<rho> sc vs"
  shows "byIndex None (captures (Some (withIndices info (localFVs (fvi_vars info) None sc))) vs) p e' = byName \<rho> p e"
  using slot_capture [OF assms(1), of None \<rho> sc vs] assms(2,3) by (simp add: good_def locals_def)

lemma good_Lam:
  assumes "slotOK (Some info) (freeBy patDeleted b - {LocalKey x})"
    "good ((shiftScope (captureScope (localFVs (fvi_vars info) None sc)) 1)(x \<mapsto> 0)) b b'"
  shows "good sc (Lam s x t b g) (Lam (Some (withIndices info (localFVs (fvi_vars info) None sc))) x t b' g)"
  unfolding good_def
proof (intro allI impI)
  fix \<rho> vs p
  assume a: "agree (locals (Lam s x t b g)) \<rho> sc vs"
  have K: "{n. LocalKey n \<in> freeBy patDeleted b - {LocalKey x}} = locals b - {x}" by (auto simp: locals_def LocalKey_def)
  then have "agree (locals b - {x}) \<rho> (captureScope (localFVs (fvi_vars info) None sc))
      (captures (Some (withIndices info (localFVs (fvi_vars info) None sc))) vs)"
    using slot_capture [OF assms(1), of None \<rho> sc vs] a by (simp add: locals_def)
  from agree_push [OF this, of "(0 # p, 0)"] assms(2)
  show "byIndex None vs p (Lam (Some (withIndices info (localFVs (fvi_vars info) None sc))) x t b' g) = byName \<rho> p (Lam s x t b g)"
    by (simp add: good_def byName_nodes byIndex_nodes selfs_def)
qed

lemma goodFix_Lam:
  assumes "slotOK (Some info) (freeBy patDeleted b - {LocalKey x})" "x \<noteq> f"
    "good ((shiftScope ((shiftScope (captureScope (localFVs (fvi_vars info) (Some f) sc)) 1)(f \<mapsto> 0)) 1)(x \<mapsto> 0)) b b'"
  shows "goodFix f sc (Lam s x t b g) (Lam (Some (withIndices info (localFVs (fvi_vars info) (Some f) sc))) x t b' g)"
  unfolding goodFix_def
proof (intro allI impI)
  fix \<rho> vs p i
  assume a: "agree (locals (Lam s x t b g) - {f}) \<rho> sc vs"
  let ?locs = "localFVs (fvi_vars info) (Some f) sc"
  have K: "{n. LocalKey n \<in> freeBy patDeleted b - {LocalKey x} \<and> Some f \<noteq> Some n} = locals b - {x} - {f}"
    "locals (Lam s x t b g) - {f} = locals b - {x} - {f}" by (auto simp: locals_def LocalKey_def)
  then have "agree (locals b - {x} - {f}) \<rho> (captureScope ?locs) (captures (Some (withIndices info ?locs)) vs)"
    using slot_capture [OF assms(1), of "Some f" \<rho> sc vs] a by simp
  from agree_push [OF agree_push [OF this, of i], of "(0 # p, 0)"] assms(3)
  show "byIndex (Some i) vs p (Lam (Some (withIndices info ?locs)) x t b' g) = byName (\<rho>(f \<mapsto> i)) p (Lam s x t b g)"
    by (simp add: good_def byName_nodes byIndex_nodes selfs_def)
qed

lemma goodFix_Thunk:
  assumes "slotOK (Some info) (freeBy patDeleted e)"
    "good ((shiftScope (captureScope (localFVs (fvi_vars info) (Some f) sc)) 1)(f \<mapsto> 0)) e e'"
  shows "goodFix f sc (Thunk s e) (Thunk (Some (withIndices info (localFVs (fvi_vars info) (Some f) sc))) e')"
  unfolding goodFix_def
proof (intro allI impI)
  fix \<rho> vs p i
  assume a: "agree (locals (Thunk s e) - {f}) \<rho> sc vs"
  let ?locs = "localFVs (fvi_vars info) (Some f) sc"
  have "{n. LocalKey n \<in> freeBy patDeleted e \<and> Some f \<noteq> Some n} = locals e - {f}" "locals (Thunk s e) = locals e"
    by (auto simp: locals_def)
  then have "agree (locals e - {f}) \<rho> (captureScope ?locs) (captures (Some (withIndices info ?locs)) vs)"
    using slot_capture [OF assms(1), of "Some f" \<rho> sc vs] a by simp
  from agree_push [OF this, of i] assms(2)
  show "byIndex (Some i) vs p (Thunk (Some (withIndices info ?locs)) e') = byName (\<rho>(f \<mapsto> i)) p (Thunk s e)"
    by (simp add: good_def byName_nodes byIndex_nodes selfs_def)
qed

lemmas assign_node =
  assignIndices.simps [of "Var n m i" sc d for n m i sc d, simplified core.case]
  assignIndices.simps [of "Lam s x t b g" sc d for s x t b g sc d, simplified core.case]
  assignIndices.simps [of "App f a" sc d for f a sc d, simplified core.case]
  assignIndices.simps [of "TyApp e t" sc d for e t sc d, simplified core.case]
  assignIndices.simps [of "TyLam x k b" sc d for x k b sc d, simplified core.case]
  assignIndices.simps [of "Con n m args dict" sc d for n m args dict sc d, simplified core.case]
  assignIndices.simps [of "Case e alts" sc d for e alts sc d, simplified core.case]
  assignIndices.simps [of "Fix x b" sc d for x b sc d, simplified core.case]
  assignIndices.simps [of "Pure e" sc d for e sc d, simplified core.case]
  assignIndices.simps [of "Bind e x b disc g" sc d for e x b disc g sc d, simplified core.case]
  assignIndices.simps [of "Thunk s e" sc d for s e sc d, simplified core.case]
  assignIndices.simps [of "Force e" sc d for e sc d, simplified core.case]
  assignIndices.simps [of "Merge s1 s2 l r ls rs" sc d for s1 s2 l r ls rs sc d, simplified core.case]
  assignIndices.simps [of "PrimOp n k eff args" sc d for n k eff args sc d, simplified core.case]
  assignIndices.simps [of "Lit v" sc d for v sc d, simplified core.case]
  assignIndices.simps [of "RecordLit fs" sc d for fs sc d, simplified core.case]
  assignIndices.simps [of "RecordProj e l" sc d for e l sc d, simplified core.case]
  assignIndices.simps [of "RecordUpdate e fs" sc d for e fs sc d, simplified core.case]
  assignIndices.simps [of "VariantLit t e" sc d for t e sc d, simplified core.case]
  assignIndices.simps [of "CoreError" sc d for sc d, simplified core.case]

lemma those_all2:
  "(\<And>x. x \<in> set xs \<Longrightarrow> \<exists>y. f x = Some y \<and> P x y) \<Longrightarrow> \<exists>ys. those (map f xs) = Some ys \<and> list_all2 P xs ys"
  by (induction xs) (fastforce split: option.splits)+

lemma resolvable_kid: "resolvable B c \<Longrightarrow> (ns, k) \<in> set (scoped c) \<Longrightarrow> resolvable (B \<union> set ns) k"
  using resolvable.simps [of B c] by auto

lemma annOK_kid: "annOK c \<Longrightarrow> k \<in> set (kids c) \<Longrightarrow> annOK k"
  using annOK.simps [of c] by auto

lemma list_all2_kidGood_Nil:
  "list_all2 (\<lambda>a a'. good sc a a') as as' \<Longrightarrow> list_all2 (kidGood sc) (map (Pair []) as) (map (Pair []) as')"
  by (simp add: list.rel_map kidGood_def)

definition assigned :: "annotated \<Rightarrow> bool" where
  "assigned c \<longleftrightarrow> annOK c \<longrightarrow>
     (\<forall>B sc. resolvable B c \<longrightarrow> dom sc \<subseteq> B \<longrightarrow>
        (\<forall>d. irDepth c + d \<le> maxTraversalDepth \<longrightarrow> (\<exists>c'. assignIndices c sc d = Some c' \<and> good sc c c')) \<and>
        (spineDepth c \<le> maxTraversalDepth \<longrightarrow> (\<exists>c'. assignIndicesLeftSpine c sc = Some c' \<and> good sc c c')) \<and>
        (\<forall>d. irDepth c + d + 1 \<le> maxTraversalDepth \<longrightarrow> (\<exists>c'. assignBindChain c sc d = Some c' \<and> good sc c c'))) \<and>
     (\<forall>B sc f d. resolvable (insert f B) c \<longrightarrow> dom sc \<subseteq> B \<longrightarrow> fixOK f c \<longrightarrow> irDepth c + d \<le> maxTraversalDepth \<longrightarrow>
        (\<exists>c'. assignFixBody f c sc d = Some c' \<and> goodFix f sc c c'))"

lemma assigned_kid:
  assumes "\<forall>k \<in> set (kids c). assigned k" "annOK c" "resolvable B c" "dom sc \<subseteq> B" "(ns, k) \<in> set (scoped c)"
  shows "irDepth k + d \<le> maxTraversalDepth \<Longrightarrow> \<exists>k'. assignIndices k (bindScope sc ns) d = Some k' \<and> good (bindScope sc ns) k k'"
    "spineDepth k \<le> maxTraversalDepth \<Longrightarrow> \<exists>k'. assignIndicesLeftSpine k (bindScope sc ns) = Some k' \<and> good (bindScope sc ns) k k'"
    "irDepth k + d + 1 \<le> maxTraversalDepth \<Longrightarrow> \<exists>k'. assignBindChain k (bindScope sc ns) d = Some k' \<and> good (bindScope sc ns) k k'"
proof -
  have "k \<in> set (kids c)" using assms(5) by force
  then have k: "assigned k" "annOK k" "resolvable (B \<union> set ns) k" "dom (bindScope sc ns) \<subseteq> B \<union> set ns"
    using bspec [OF assms(1)] assms(4) resolvable_kid [OF assms(3,5)] annOK_kid [OF assms(2)] by (simp_all add: le_supI1)
  note main = k(1) [unfolded assigned_def, rule_format, OF k(2), THEN conjunct1, rule_format, OF k(3,4)]
  show "irDepth k + d \<le> maxTraversalDepth \<Longrightarrow> \<exists>k'. assignIndices k (bindScope sc ns) d = Some k' \<and> good (bindScope sc ns) k k'"
    using main by blast
  show "spineDepth k \<le> maxTraversalDepth \<Longrightarrow> \<exists>k'. assignIndicesLeftSpine k (bindScope sc ns) = Some k' \<and> good (bindScope sc ns) k k'"
    using main by blast
  show "irDepth k + d + 1 \<le> maxTraversalDepth \<Longrightarrow> \<exists>k'. assignBindChain k (bindScope sc ns) d = Some k' \<and> good (bindScope sc ns) k k'"
    using main by blast
qed

lemma assign_spine:
  assumes "spineNode c" "\<forall>k \<in> set (kids c). assigned k" "annOK c" "resolvable B c" "dom sc \<subseteq> B"
    "spineDepth c \<le> maxTraversalDepth"
  shows "\<exists>c'. assignIndicesLeftSpine c sc = Some c' \<and> good sc c c'"
proof -
  have kid: "\<exists>k'. assignIndices k sc 0 = Some k' \<and> good sc k k'"
    if "([], k) \<in> set (scoped c)" "irDepth k \<le> maxTraversalDepth" for k
    using assigned_kid(1) [OF assms(2-5) that(1), where d = 0] that(2) by simp
  have spine: "\<exists>k'. assignIndicesLeftSpine k sc = Some k' \<and> good sc k k'"
    if "([], k) \<in> set (scoped c)" "spineDepth k \<le> maxTraversalDepth" for k
    using assigned_kid(2) [OF assms(2-5) that(1)] that(2) by simp
  show ?thesis
  proof (cases c)
    case (App f a)
    obtain f' a' where "assignIndicesLeftSpine f sc = Some f'" "good sc f f'" "assignIndices a sc 0 = Some a'" "good sc a a'"
      using spine [of f] kid [of a] App assms(6) by auto
    then show ?thesis using App by (auto intro!: good_plain simp: kidGood_def)
  next
    case (TyApp e t)
    obtain e' where "assignIndicesLeftSpine e sc = Some e'" "good sc e e'" using spine [of e] TyApp assms(6) by auto
    then show ?thesis using TyApp by (auto intro!: good_plain simp: kidGood_def)
  next
    case (TyLam x k e)
    obtain e' where "assignIndicesLeftSpine e sc = Some e'" "good sc e e'" using spine [of e] TyLam assms(6) by auto
    then show ?thesis using TyLam by (auto intro!: good_plain simp: kidGood_def)
  qed (use assms(1) in auto)
qed

lemma assign_chain:
  assumes "isBind c" "\<forall>k \<in> set (kids c). assigned k" "annOK c" "resolvable B c" "dom sc \<subseteq> B"
    "irDepth c + d \<le> maxTraversalDepth"
  shows "\<exists>c'. assignIndices c sc d = Some c' \<and> good sc c c'"
    "irDepth c + d + 1 \<le> maxTraversalDepth \<Longrightarrow> \<exists>c'. assignBindChain c sc d = Some c' \<and> good sc c c'"
proof -
  obtain e x b disc g where c: "c = Bind e x b disc g" using assms(1) by (cases c) auto
  have "2 + max (irDepth e) (irDepth b) + d \<le> maxTraversalDepth" using assms(6) c by simp
  then have lim: "irDepth e + Suc d \<le> maxTraversalDepth" "irDepth b + Suc d + 1 \<le> maxTraversalDepth" by arith+
  obtain e' where e: "assignIndices e sc (Suc d) = Some e'" "good sc e e'"
    using assigned_kid(1) [OF assms(2-5), of "[]" e "Suc d"] lim c by auto
  obtain b' where b: "assignBindChain b ((shiftScope sc 1)(x \<mapsto> 0)) (Suc d) = Some b'" "good ((shiftScope sc 1)(x \<mapsto> 0)) b b'"
    using assigned_kid(3) [OF assms(2-5), of "[x]" b "Suc d"] lim c by auto
  have "good sc c (Bind e' x b' disc g)" using c e(2) b(2) by (auto intro!: good_plain simp: kidGood_def)
  then show "\<exists>c'. assignIndices c sc d = Some c' \<and> good sc c c'"
    "irDepth c + d + 1 \<le> maxTraversalDepth \<Longrightarrow> \<exists>c'. assignBindChain c sc d = Some c' \<and> good sc c c'"
    using c e(1) b(1) assms(6) by (auto simp: assign_node)
qed

lemma assign_list:
  assumes "\<forall>k \<in> set (kids c). assigned k" "annOK c" "resolvable B c" "dom sc \<subseteq> B"
    "irDepth c + d \<le> maxTraversalDepth" "\<not> isApp c" "set (map (kf :: 'b \<Rightarrow> _) xs) \<subseteq> set (scoped c)"
  shows "\<exists>ys. those (map (\<lambda>x. map_option (h x) (assignIndices (snd (kf x)) (bindScope sc (fst (kf x))) (Suc d))) xs) = Some ys \<and>
     list_all2 (\<lambda>x y. \<exists>k'. y = h x k' \<and> kidGood sc (kf x) (fst (kf x), k')) xs ys"
proof (rule those_all2)
  fix x assume x: "x \<in> set xs"
  obtain ns k where nk: "kf x = (ns, k)" by fastforce
  then have m: "(ns, k) \<in> set (scoped c)" using x assms(7) by force
  then have "irDepth k + Suc d \<le> maxTraversalDepth" using kid_depth [of k c] assms(5,6) by force
  from assigned_kid(1) [OF assms(1-4) m this]
  show "\<exists>y. map_option (h x) (assignIndices (snd (kf x)) (bindScope sc (fst (kf x))) (Suc d)) = Some y \<and>
      (\<exists>k'. y = h x k' \<and> kidGood sc (kf x) (fst (kf x), k'))"
    using nk by (auto simp: kidGood_def)
qed

lemma assign_fix:
  assumes "fixOK f c" "\<forall>k \<in> set (kids c). assigned k" "annOK c" "resolvable (insert f B) c" "dom sc \<subseteq> B"
    "irDepth c + d \<le> maxTraversalDepth"
  shows "\<exists>c'. assignFixBody f c sc d = Some c' \<and> goodFix f sc c c'"
proof (cases c)
  case (TyLam x k b)
  have b: "assigned b" "annOK b" "resolvable (insert f B) b" "fixOK f b"
    using assms TyLam annOK_kid [of c b] resolvable_kid [of "insert f B" c "[]" b] by auto
  then obtain b' where "assignFixBody f b sc d = Some b'" "goodFix f sc b b'"
    using b(1) [unfolded assigned_def, rule_format, OF b(2), THEN conjunct2, rule_format, OF b(3) assms(5) b(4), of d]
      kid_depth [of b c] assms(6) TyLam by auto
  moreover from this(2) have "goodFix f sc c (TyLam x k b')"
    using TyLam by (simp add: goodFix_def byName_nodes byIndex_nodes locals_def)
  ultimately show ?thesis using TyLam by auto
next
  case (Lam s x t b g)
  obtain info where i: "s = Some info" "slotOK (Some info) (freeBy patDeleted b - {LocalKey x})"
    using assms(3) Lam annOK.simps [of c] by (auto simp: slotOK_def)
  let ?locs = "localFVs (fvi_vars info) (Some f) sc"
  let ?sc = "(shiftScope ((shiftScope (captureScope ?locs) 1)(f \<mapsto> 0)) 1)(x \<mapsto> 0)"
  have "dom ?sc \<subseteq> B \<union> {f, x}" using assms(5) by (auto simp: localFVs_set)
  then have "\<exists>b'. assignIndices b (bindScope ((shiftScope (captureScope ?locs) 1)(f \<mapsto> 0)) [x]) (Suc d) = Some b' \<and>
      good (bindScope ((shiftScope (captureScope ?locs) 1)(f \<mapsto> 0)) [x]) b b'"
    using assms Lam kid_depth [of b c] by (intro assigned_kid(1) [OF assms(2-4)]) (auto simp: localFVs_set)
  then obtain b' where b': "assignIndices b ?sc (Suc d) = Some b'" "good ?sc b b'" by auto
  have "x \<noteq> f" using assms(1) Lam by simp
  have "x \<notin> set (fvi_vars info)" using i(2) by (simp add: slotOK_def)
  then have "x \<notin> fst ` set ?locs" "f \<notin> fst ` set ?locs" by (auto simp: localFVs_set)
  then show ?thesis
    using \<open>x \<noteq> f\<close> goodFix_Lam [OF i(2) \<open>x \<noteq> f\<close> b'(2)] b'(1) i Lam capture_Fix [of x ?locs f] by (simp add: slotOK_def)
next
  case (Thunk s e)
  obtain info where i: "s = Some info" "slotOK (Some info) (freeBy patDeleted e)"
    using assms(3) Thunk annOK.simps [of c] by (auto simp: slotOK_def)
  let ?locs = "localFVs (fvi_vars info) (Some f) sc"
  let ?sc = "(shiftScope (captureScope ?locs) 1)(f \<mapsto> 0)"
  have "\<exists>e'. assignIndices e (bindScope ?sc []) (Suc d) = Some e' \<and> good (bindScope ?sc []) e e'"
    using assms Thunk kid_depth [of e c] by (intro assigned_kid(1) [OF assms(2-4)]) (auto simp: localFVs_set)
  then obtain e' where e': "assignIndices e ?sc (Suc d) = Some e'" "good ?sc e e'" by auto
  have "f \<notin> fst ` set ?locs" by (auto simp: localFVs_set)
  then show ?thesis using goodFix_Thunk [OF i(2) e'(2)] e'(1) i Thunk capture_Lam [of f ?locs] by (simp add: slotOK_def)
qed (use assms(1) in auto)

lemma assign_capture:
  assumes "\<forall>k \<in> set (kids c). assigned k" "annOK c" "resolvable B c" "dom sc \<subseteq> B" "([], e) \<in> set (scoped c)"
    "irDepth c + d \<le> maxTraversalDepth" "\<not> isApp c"
  shows "\<exists>e'. assignIndices e (captureScope (localFVs vars None sc)) (Suc d) = Some e' \<and> good (captureScope (localFVs vars None sc)) e e'"
proof -
  have "dom (captureScope (localFVs vars None sc)) \<subseteq> B" using capture_dom assms(4) by blast
  moreover have "irDepth e + Suc d \<le> maxTraversalDepth" using kid_depth [of e c] assms(5-7) by force
  ultimately show ?thesis using assigned_kid(1) [OF assms(1-3) _ assms(5)] by simp
qed

lemma assign_closure:
  assumes "\<forall>k \<in> set (kids c). assigned k" "annOK c" "resolvable B c" "dom sc \<subseteq> B"
    "irDepth c + d \<le> maxTraversalDepth" "slots c \<noteq> []"
  shows "\<exists>c'. assignIndices c sc d = Some c' \<and> good sc c c'"
proof (cases c)
  case (Lam s x t b g)
  obtain info where i: "s = Some info" "slotOK (Some info) (freeBy patDeleted b - {LocalKey x})"
    using assms(2) Lam annOK.simps [of c] by (auto simp: slotOK_def)
  let ?locs = "localFVs (fvi_vars info) None sc"
  have "dom (captureScope ?locs) \<subseteq> B" using capture_dom assms(4) by blast
  then have "\<exists>b'. assignIndices b (bindScope (captureScope ?locs) [x]) (Suc d) = Some b' \<and> good (bindScope (captureScope ?locs) [x]) b b'"
    using Lam assms(5) kid_depth [of b c] by (intro assigned_kid(1) [OF assms(1-3)]) auto
  then obtain b' where b': "assignIndices b ((shiftScope (captureScope ?locs) 1)(x \<mapsto> 0)) (Suc d) = Some b'"
    "good ((shiftScope (captureScope ?locs) 1)(x \<mapsto> 0)) b b'" by auto
  have "x \<notin> set (fvi_vars info)" using i(2) by (simp add: slotOK_def)
  then have "x \<notin> fst ` set ?locs" by (auto simp: localFVs_set)
  then show ?thesis using good_Lam [OF i(2) b'(2)] b'(1) i Lam capture_Lam [of x ?locs] assms(5)
    by (simp add: slotOK_def assign_node)
next
  case (Thunk s e)
  obtain info where i: "s = Some info" "slotOK (Some info) (freeBy patDeleted e)"
    using assms(2) Thunk annOK.simps [of c] by (auto simp: slotOK_def)
  let ?locs = "localFVs (fvi_vars info) None sc"
  obtain e' where e': "assignIndices e (captureScope ?locs) (Suc d) = Some e'" "good (captureScope ?locs) e e'"
    using assign_capture [OF assms(1-4), of e d "fvi_vars info"] Thunk assms(5) by auto
  have "good sc c (Thunk (Some (withIndices info ?locs)) e')"
    using good_capture [OF i(2) e'(2)] Thunk by (simp add: good_def byName_nodes byIndex_nodes selfs_def locals_def)
  then show ?thesis using e'(1) i Thunk assms(5) by (simp add: slotOK_def assign_node bindScope_def shiftScope_def)
next
  case (Merge s1 s2 l r ls rs)
  obtain i1 i2 where i: "s1 = Some i1" "slotOK (Some i1) (freeBy patDeleted l)" "s2 = Some i2" "slotOK (Some i2) (freeBy patDeleted r)"
    using assms(2) Merge annOK.simps [of c] by (auto simp: slotOK_def)
  let ?l1 = "localFVs (fvi_vars i1) None sc" and ?l2 = "localFVs (fvi_vars i2) None sc"
  obtain l' where l': "assignIndices l (captureScope ?l1) (Suc d) = Some l'" "good (captureScope ?l1) l l'"
    using assign_capture [OF assms(1-4), of l d "fvi_vars i1"] Merge assms(5) by auto
  obtain r' where r': "assignIndices r (captureScope ?l2) (Suc d) = Some r'" "good (captureScope ?l2) r r'"
    using assign_capture [OF assms(1-4), of r d "fvi_vars i2"] Merge assms(5) by auto
  have sub: "agree (locals l) \<rho> sc vs" "agree (locals r) \<rho> sc vs" if "agree (locals c) \<rho> sc vs" for \<rho> vs
    using that Merge by (auto intro: agree_mono simp: locals_def)
  have "good sc c (Merge (Some (withIndices i1 ?l1)) (Some (withIndices i2 ?l2)) l' r' ls rs)"
    unfolding good_def
  proof (intro allI impI)
    fix \<rho> vs p
    assume "agree (locals c) \<rho> sc vs"
    from good_capture [OF i(2) l'(2) sub(1) [OF this]] good_capture [OF i(4) r'(2) sub(2) [OF this]]
    show "byIndex None vs p (Merge (Some (withIndices i1 ?l1)) (Some (withIndices i2 ?l2)) l' r' ls rs) = byName \<rho> p c"
      using Merge by (simp add: byName_nodes byIndex_nodes)
  qed
  then show ?thesis using l'(1) r'(1) i Merge assms(5) by (simp add: slotOK_def assign_node bindScope_def shiftScope_def Let_def)
qed (use assms(6) in auto)

lemma assign_plain:
  assumes "\<forall>k \<in> set (kids c). assigned k" "annOK c" "resolvable B c" "dom sc \<subseteq> B"
    "irDepth c + d \<le> maxTraversalDepth" "plain c" "\<not> isApp c" "\<not> isBind c"
  shows "\<exists>c'. assignIndices c sc d = Some c' \<and> good sc c c'"
proof -
  have kid: "\<exists>k'. assignIndices k sc (Suc d) = Some k' \<and> good sc k k'" if "([], k) \<in> set (scoped c)" for k
    using assigned_kid(1) [OF assms(1-4) that, of "Suc d"] kid_depth [of k c] that assms(5,7) by force
  note many = assign_list [OF assms(1-5,7)]
  show ?thesis
  proof (cases c)
    case (Con n m args dict)
    obtain ys where "those (map (\<lambda>a. assignIndices a sc (Suc d)) args) = Some ys" "list_all2 (good sc) args ys"
      using many [of "Pair []" args "\<lambda>_ k. k"] Con by (auto simp: kidGood_def option.map_ident)
    moreover from this(2) have "good sc c (Con n m ys dict)"
      using Con by (intro good_plain) (simp_all add: list.rel_map kidGood_def)
    ultimately show ?thesis using assms(5) Con by (auto simp: assign_node)
  next
    case (PrimOp n k eff args)
    obtain ys where "those (map (\<lambda>a. assignIndices a sc (Suc d)) args) = Some ys" "list_all2 (good sc) args ys"
      using many [of "Pair []" args "\<lambda>_ k. k"] PrimOp by (auto simp: kidGood_def option.map_ident)
    moreover from this(2) have "good sc c (PrimOp n k eff ys)"
      using PrimOp by (intro good_plain) (simp_all add: list.rel_map kidGood_def)
    ultimately show ?thesis using assms(5) PrimOp by (auto simp: assign_node)
  next
    case (RecordLit fs)
    obtain ys where ys: "those (map (\<lambda>(l, e). map_option (Pair l) (assignIndices e sc (Suc d))) fs) = Some ys"
      "list_all2 (\<lambda>x y. \<exists>k'. y = (fst x, k') \<and> good sc (snd x) k') fs ys"
      using many [of "\<lambda>x. ([], snd x)" fs "\<lambda>x. Pair (fst x)"] RecordLit by (auto simp: kidGood_def case_prod_unfold)
    have "good sc c (RecordLit ys)"
      using RecordLit list_all2_mono [OF ys(2)] by (intro good_plain) (auto simp: list.rel_map kidGood_def case_prod_unfold)
    then show ?thesis using assms(5) RecordLit ys(1) by (auto simp: assign_node)
  next
    case (RecordUpdate e fs)
    obtain e' where e': "assignIndices e sc (Suc d) = Some e'" "good sc e e'" using kid [of e] RecordUpdate by auto
    obtain ys where ys: "those (map (\<lambda>(l, e). map_option (Pair l) (assignIndices e sc (Suc d))) fs) = Some ys"
      "list_all2 (\<lambda>x y. \<exists>k'. y = (fst x, k') \<and> good sc (snd x) k') fs ys"
      using many [of "\<lambda>x. ([], snd x)" fs "\<lambda>x. Pair (fst x)"] RecordUpdate by (auto simp: kidGood_def case_prod_unfold)
    have "good sc c (RecordUpdate e' ys)"
      using RecordUpdate e'(2) list_all2_mono [OF ys(2)]
      by (intro good_plain) (auto simp: list.rel_map kidGood_def case_prod_unfold)
    then show ?thesis using assms(5) RecordUpdate ys(1) e'(1) by (auto simp: assign_node)
  next
    case (Case e alts)
    obtain e' where e': "assignIndices e sc (Suc d) = Some e'" "good sc e e'" using kid [of e] Case by auto
    obtain ys where ys: "those (map (\<lambda>(p, b, g). map_option (\<lambda>b'. (p, b', g)) (assignIndices b (bindScope sc (Bindings p)) (Suc d))) alts) = Some ys"
      "list_all2 (\<lambda>x y. \<exists>k'. y = (fst x, k', snd (snd x)) \<and> good (bindScope sc (Bindings (fst x))) (fst (snd x)) k') alts ys"
      using many [of "\<lambda>x. (Bindings (fst x), fst (snd x))" alts "\<lambda>x b'. (fst x, b', snd (snd x))"] Case
      by (auto simp: kidGood_def case_prod_unfold)
    have "good sc c (Case e' ys)"
      using Case e'(2) list_all2_mono [OF ys(2)]
      by (intro good_plain) (auto simp: list.rel_map kidGood_def case_prod_unfold)
    then show ?thesis using assms(5) Case ys(1) e'(1) by (auto simp: assign_node)
  qed (use kid assms(5-8) in \<open>auto simp: assign_node kidGood_def intro!: good_plain\<close>)
qed

lemma good_Fix:
  assumes "goodFix f sc b b'"
  shows "good sc (Fix f b) (Fix f b')"
proof -
  have "locals (Fix f b) = locals b - {f}" by (auto simp: locals_def LocalKey_def)
  then show ?thesis using assms by (simp add: good_def goodFix_def byName_nodes byIndex_nodes)
qed

lemma fixOK_peel: "fixOK f b \<Longrightarrow> (\<exists>s x t e g. PeelTyLam b = Lam s x t e g) \<or> (\<exists>s e. PeelTyLam b = Thunk s e)"
  by (induction f b rule: fixOK.induct) auto

lemma all_assigned: "assigned c"
proof (induction c rule: core_induct)
  case (node c)
  then have ih: "\<forall>k \<in> set (kids c). assigned k" by auto
  have spine: "\<exists>c'. assignIndicesLeftSpine c sc = Some c' \<and> good sc c c'"
    if "spineNode c" "annOK c" "resolvable B c" "dom sc \<subseteq> B" "spineDepth c \<le> maxTraversalDepth" for B sc
    using assign_spine [OF that(1) ih that(2-5)] .
  have main: "\<exists>c'. assignIndices c sc d = Some c' \<and> good sc c c'"
    if a: "annOK c" "resolvable B c" "dom sc \<subseteq> B" "irDepth c + d \<le> maxTraversalDepth" for B sc d
  proof (cases c)
    case (Var n m i)
    then show ?thesis using good_Var [of B n m i sc] a by (simp add: assign_node)
  next
    case (App f x)
    then have "spineDepth c = irDepth c" by simp
    then show ?thesis using spine [OF _ a(1-3)] a(4) App by (simp add: assign_node del: assignIndicesLeftSpine.simps irDepth.simps spineDepth.simps)
  next
    case (Fix f b)
    have b: "fixOK f b" "resolvable (insert f B) b" "annOK b" "assigned b" "irDepth b + (d + 1) \<le> maxTraversalDepth"
      using resolvable.simps [of B c] annOK_kid [OF a(1), of b] ih Fix a kid_depth [of b c] by auto
    from b(4) [unfolded assigned_def, rule_format, OF b(3), THEN conjunct2, rule_format, OF b(2) a(3) b(1) b(5)]
    obtain b' where "assignFixBody f b sc (d + 1) = Some b'" "goodFix f sc b b'" by blast
    then show ?thesis using Fix a(4) fixOK_peel [OF b(1)] good_Fix by (auto simp: assign_node)
  next
    case (Bind e x b disc g)
    then show ?thesis using assign_chain(1) [OF _ ih a] by simp
  qed (use assign_closure [OF ih a] assign_plain [OF ih a] in simp_all)
  have chain: "\<exists>c'. assignBindChain c sc d = Some c' \<and> good sc c c'"
    if a: "annOK c" "resolvable B c" "dom sc \<subseteq> B" "irDepth c + d + 1 \<le> maxTraversalDepth" for B sc d
  proof (cases "isBind c")
    case True
    then show ?thesis using assign_chain(2) [OF True ih a(1-3)] a(4) by simp
  next
    case False
    then have "assignBindChain c sc d = assignIndices c sc (d + 1)" by (cases c) auto
    then show ?thesis using main [OF a(1-3), of "d + 1"] a(4) by simp
  qed
  have left: "\<exists>c'. assignIndicesLeftSpine c sc = Some c' \<and> good sc c c'"
    if a: "annOK c" "resolvable B c" "dom sc \<subseteq> B" "spineDepth c \<le> maxTraversalDepth" for B sc
  proof (cases "spineNode c")
    case False
    then have "assignIndicesLeftSpine c sc = assignIndices c sc 0" "spineDepth c = Suc (irDepth c)" by (cases c; auto)+
    then show ?thesis using main [OF a(1-3), of 0] a(4) by simp
  qed (use spine [OF _ a] in simp)
  show ?case unfolding assigned_def using main left chain assign_fix [OF _ ih] by blast
qed

section \<open>Terms that differ in their slots only\<close>

lemma enumerate_map_snd: "enumerate n (map f xs) = map (apsnd f) (enumerate n xs)"
  by (simp add: enumerate_eq_zip zip_map2 apsnd_def map_prod_def)

lemma byName_map [simp]: "byName \<rho> p (map_core f c) = byName \<rho> p c"
proof (induction c arbitrary: \<rho> p rule: core_induct)
  case (node c)
  have kid: "byName \<rho> p (map_core f (snd (snd x))) = byName \<rho> p (snd (snd x))" if "x \<in> set (enumerate 0 (scoped c))" for x \<rho> p
  proof -
    have "snd x \<in> set (scoped c)" using that set_zip_rightD [of "fst x" "snd x"] by (simp add: enumerate_eq_zip)
    then show ?thesis using node [of "fst (snd x)" "snd (snd x)"] by simp
  qed
  have "map (\<lambda>(j, ns, k). byName (\<rho>(ns [\<mapsto>] bindIds (j # p) (length ns))) (j # p) k) (enumerate 0 (scoped (map_core f c))) =
      map (\<lambda>(j, ns, k). byName (\<rho>(ns [\<mapsto>] bindIds (j # p) (length ns))) (j # p) k) (enumerate 0 (scoped c))"
    unfolding scoped_map enumerate_map_snd map_map by (intro map_cong refl) (simp add: case_prod_unfold kid)
  then show ?case by (subst (1 2) byName.simps, cases c) (simp_all del: scoped.simps)
qed

lemma resolvable_map [simp]: "resolvable B (map_core f c) = resolvable B c"
proof (induction c arbitrary: B rule: core_induct)
  case (node c)
  have fix_map: "fixOK x (map_core f b) = fixOK x b" for x b by (induction x b rule: fixOK.induct) auto
  have "(\<forall>(ns, k) \<in> set (scoped (map_core f c)). resolvable (B \<union> set ns) k) = (\<forall>(ns, k) \<in> set (scoped c). resolvable (B \<union> set ns) k)"
    using node by (fastforce simp: scoped_map)
  then show ?case by (subst (1 2) resolvable.simps, cases c) (simp_all add: fix_map del: scoped.simps)
qed

lemma kids_map: "kids (map_core f c) = map (map_core f) (kids c)"
  by (simp add: scoped_map comp_def)

lemma irDepth_map: "irDepth (map_core f c) = irDepth c \<and> spineDepth (map_core f c) = spineDepth c"
proof (induction c rule: core_induct)
  case (node c)
  then have kid: "irDepth (map_core f k) = irDepth k" "spineDepth (map_core f k) = spineDepth k" if "k \<in> set (kids c)" for k
    using that by auto
  have main: "irDepth (map_core f c) = irDepth c"
  proof (cases "isApp c \<or> isBind c")
    case False
    then have "\<not> isApp (map_core f c)" "\<not> isBind (map_core f c)" by (cases c; simp)+
    moreover have "irDepth ` set (map (map_core f) (kids c)) = irDepth ` set (kids c)"
      by (simp only: set_map image_image) (intro image_cong refl kid(1), simp)
    ultimately show ?thesis using False irDepth_node [of c] irDepth_node [of "map_core f c"]
      by (simp only: kids_map de_Morgan_disj map_is_Nil_conv not_False_eq_True simp_thms)
  qed (use kid in \<open>cases c; simp\<close>)
  show ?case
  proof (cases "spineNode c")
    case True
    then show ?thesis using main kid by (cases c) auto
  next
    case False
    then have "spineDepth c = Suc (irDepth c)" "spineDepth (map_core f c) = Suc (irDepth (map_core f c))" by (cases c; simp)+
    then show ?thesis using main by simp
  qed
qed

lemma irDepth_erase: "erase c = erase c' \<Longrightarrow> irDepth c = irDepth c'"
  by (metis irDepth_map)

section \<open>Properties\<close>



text \<open>
  Why the theorem asks for these shapes. A qualified variable is looked up by its bare name and gets the position of
  the parameter; the parameter of a fixpoint's function that has the fixpoint's own name gets the
  position of the self reference.
\<close>

lemma qualified_captured:
  "AssignIndices (AnnotateFreeVars (Lam () ''x'' None (Var ''x'' ''M'' 0) UserWritten)) =
     Some (Lam (Some \<lparr> fvi_vars = [], fvi_indices = Some [], fvi_overflow = False \<rparr>) ''x'' None (Var ''x'' ''M'' 0) UserWritten)"
  by (simp add: AssignIndices_def AnnotateFreeVars_def traverse_node assign_node Let_def deleteByName_def fvNone_def
      fvInfoFromResult_def fvResultToSlice_def IsUnqualified_def localFVs_def withIndices_def List.map_filter_simps)

lemma fix_param_hidden:
  "AssignIndices (AnnotateFreeVars (Fix ''f'' (Lam () ''f'' None (localVar ''f'') UserWritten))) =
     Some (Fix ''f'' (Lam (Some \<lparr> fvi_vars = [], fvi_indices = Some [], fvi_overflow = False \<rparr>) ''f'' None (Var ''f'' [] 1) UserWritten))"
  by (simp add: AssignIndices_def AnnotateFreeVars_def traverse_node assign_node Let_def deleteByName_def fvNone_def
      fvInfoFromResult_def fvResultToSlice_def IsUnqualified_def localFVs_def withIndices_def List.map_filter_simps localVar_def)

text \<open>
  The two passes count depth differently: the first goes one deeper at every argument of an application, the
  second starts again from zero there. An abstraction below more nested arguments than the limit, as in the last
  element of a long list, is reached by the second pass without an annotation.
\<close>

primrec nestArgs :: "nat \<Rightarrow> 'a core \<Rightarrow> 'a core" where
  "nestArgs 0 c = c"
| "nestArgs (Suc n) c = App (localVar ''cons'') (nestArgs n c)"

lemma nestArgs_annotate:
  "d + n > maxTraversalDepth \<Longrightarrow> \<exists>b'. snd (traverseFV (nestArgs n (Lam s x t b g)) d) = nestArgs n (Lam None x t b' g)"
proof (induction n arbitrary: d)
  case 0
  then show ?case by (simp add: traverse_node unvisited_def)
next
  case (Suc n)
  show ?case
  proof (cases "d > maxTraversalDepth")
    case True
    have "unvisited (nestArgs k (Lam s x t b g)) = nestArgs k (Lam None x t (unvisited b) g)" for k
      by (induction k) (simp_all add: unvisited_def localVar_def)
    from this [of "Suc n"] show ?thesis using True by (auto simp: traverseFV.simps [of _ d])
  next
    case False
    obtain b' where "snd (traverseFV (nestArgs n (Lam s x t b g)) (Suc d)) = nestArgs n (Lam None x t b' g)"
      using Suc.IH [of "Suc d"] Suc.prems by auto
    then show ?thesis using False by (auto simp: traverse_node localVar_def case_prod_unfold unvisited_def)
  qed
qed

lemma nestArgs_panic: "assignIndices (nestArgs n (Lam None x t b g)) sc 0 = None"
  by (induction n) (simp_all add: assign_node localVar_def)

theorem deep_arguments_panic:
  "n > maxTraversalDepth \<Longrightarrow> AssignIndices (AnnotateFreeVars (nestArgs n (Lam () x t b g))) = None"
  using nestArgs_annotate [of 0 n "()" x t b g] nestArgs_panic
  by (auto simp: AssignIndices_def AnnotateFreeVars_def)

end
