(* ===== verification/Core_Walk.thy ===== *)
theory Core_Walk
  imports Core_Free_Laws
begin

text \<open>
  Generic traversals of Core terms, \<^verbatim>\<open>internal/lang/ir/walk.go\<close>. The visitor of \<^verbatim>\<open>Walk\<close> is a closure over
  local variables: here a function on a state that answers whether to go into the node. A rewriting function
  answers \<open>None\<close> where the code returns its argument itself (the same pointer) and \<open>Some\<close> the new node otherwise, and so do
  the transformations, whose tests \<^verbatim>\<open>newBody == n.Body\<close> compare pointers. The in-place variant is on values: the tree
  it mutates is owned by the caller.
\<close>

section \<open>Walk\<close>

type_synonym ('a, 's) visitor = "'a core \<Rightarrow> 's \<Rightarrow> bool \<times> 's"

text \<open>A loop over children that ends at the first truncation.\<close>

fun andThen :: "bool \<times> 's \<Rightarrow> ('s \<Rightarrow> bool \<times> 's) \<Rightarrow> bool \<times> 's" where
  "andThen (True, s) k = k s"
| "andThen (False, s) k = (False, s)"

lemma andThen_cong [fundef_cong]: "r = r' \<Longrightarrow> (\<And>s. k s = k' s) \<Longrightarrow> andThen r k = andThen r' k'"
  by (cases "(r', k')" rule: andThen.cases) auto

text \<open>
  Every node but an application walks its children in the order of \<open>kids\<close>, one level deeper.
  The spine walk collects the arguments on the way down and walks them from the innermost out.
\<close>

definition weight :: "'a core list \<Rightarrow> nat" where "weight cs = (\<Sum>c \<leftarrow> cs. Suc (2 * size c))"

lemma weight_simps [simp]: "weight [] = 0" "weight (c # cs) = Suc (2 * size c) + weight cs"
  by (simp_all add: weight_def)

lemma weight_list: "weight args \<le> 2 * size_list size args"
  "weight (map snd (fs :: (string \<times> 'a core) list)) \<le> 2 * size_list (size_prod (\<lambda>_. 0) size) fs"
  "weight (map (\<lambda>(p, b, g). b) (alts :: (pat \<times> 'a core \<times> genKind) list)) \<le>
     2 * size_list (size_prod (\<lambda>_. 0) (size_prod size (\<lambda>_. 0))) alts"
  by (induction args, simp_all, induction fs, auto, induction alts) auto

lemma kids_weight: "weight (kids c) \<le> 2 * size c"
proof (cases c)
  case (Con n m args dict)
  then show ?thesis using weight_list(1) [of args] by (simp add: comp_def)
next
  case (PrimOp n k eff args)
  then show ?thesis using weight_list(1) [of args] by (simp add: comp_def)
next
  case (RecordLit fs)
  then show ?thesis using weight_list(2) [of fs] by (simp add: comp_def case_prod_unfold)
next
  case (RecordUpdate e fs)
  then show ?thesis using weight_list(2) [of fs] by (simp add: comp_def case_prod_unfold)
next
  case (Case e alts)
  then show ?thesis using weight_list(3) [of alts] by (simp add: comp_def case_prod_unfold)
qed simp_all

lemma kids_weight_le [termination_simp]: "weight (map snd (scoped c)) \<le> 2 * size c"
  by (rule kids_weight)

function (sequential) walkRec :: "('a, 's) visitor \<Rightarrow> 'a core \<Rightarrow> nat \<Rightarrow> 's \<Rightarrow> bool \<times> 's"
  and walkAll :: "('a, 's) visitor \<Rightarrow> 'a core list \<Rightarrow> nat \<Rightarrow> 's \<Rightarrow> bool \<times> 's"
  and walkLeftSpine :: "('a, 's) visitor \<Rightarrow> 'a core \<Rightarrow> nat \<Rightarrow> bool \<Rightarrow> 'a core list \<Rightarrow> 's \<Rightarrow> bool \<times> 's" where
  "walkRec visit c d s =
     (if d > maxTraversalDepth then (False, s)
      else case visit c s of
        (False, s') \<Rightarrow> (True, s')
      | (True, s') \<Rightarrow>
          if isApp c then walkLeftSpine visit c d True [] s'
          else walkAll visit (kids c) (d + 1) s')"
| "walkAll visit [] d s = (True, s)"
| "walkAll visit (c # cs) d s = andThen (walkRec visit c d s) (\<lambda>s'. walkAll visit cs d s')"
| "walkLeftSpine visit (App f a) d skipRoot rights s =
     (case (if skipRoot then (True, s) else visit (App f a) s) of
        (False, s') \<Rightarrow> (True, s')
      | (True, s') \<Rightarrow> walkLeftSpine visit f d False (a # rights) s')"
| "walkLeftSpine visit (TyApp e t) d skipRoot rights s =
     (case visit (TyApp e t) s of
        (False, s') \<Rightarrow> (True, s')
      | (True, s') \<Rightarrow> walkLeftSpine visit e d skipRoot rights s')"
| "walkLeftSpine visit (TyLam x k b) d skipRoot rights s =
     (case visit (TyLam x k b) s of
        (False, s') \<Rightarrow> (True, s')
      | (True, s') \<Rightarrow> walkLeftSpine visit b d skipRoot rights s')"
| "walkLeftSpine visit c d skipRoot rights s =
     andThen (walkRec visit c (d + 1) s) (\<lambda>s'. walkAll visit rights (d + 1) s')"
  by pat_completeness auto
termination
  by (relation "measures
      [\<lambda>x. case x of Inl (visit, c, d, s) \<Rightarrow> 2 * size c | Inr (Inl (visit, cs, d, s)) \<Rightarrow> weight cs
         | Inr (Inr (visit, c, d, skipRoot, rights, s)) \<Rightarrow> 2 * size c + weight rights,
       \<lambda>x. case x of Inl (visit, c, d, s) \<Rightarrow> (if isApp c then 3 else 1) | Inr (Inl _) \<Rightarrow> (0 :: nat) | Inr (Inr _) \<Rightarrow> 2]")
    (auto simp: le_less [symmetric] kids_weight simp del: scoped.simps)

definition Walk :: "('a, 's) visitor \<Rightarrow> 'a core \<Rightarrow> 's \<Rightarrow> bool \<times> 's" where
  "Walk visit c s = walkRec visit c 0 s"

declare walkRec.simps [simp del]

section \<open>What a walk visits\<close>

function preorder :: "'a core \<Rightarrow> 'a core list" where
  "preorder c = c # concat (map preorder (kids c))"
  by pat_completeness auto
termination by (relation "measure size") (simp_all add: kids_size)

declare preorder.simps [simp del]

abbreviation stepped :: "('a, 's) visitor \<Rightarrow> 'a core list \<Rightarrow> 's \<Rightarrow> 's" where
  "stepped visit cs \<equiv> fold (\<lambda>n s. snd (visit n s)) cs"

text \<open>A visitor that stops at a node has nothing left to do: no node changes its state any more.\<close>

definition settled :: "('a, 's) visitor \<Rightarrow> bool" where
  "settled visit \<longleftrightarrow> (\<forall>n s. \<not> fst (visit n s) \<longrightarrow> (\<forall>m. snd (visit m (snd (visit n s))) = snd (visit n s)))"

lemma settled_stop: "settled visit \<Longrightarrow> visit n s = (False, s') \<Longrightarrow> stepped visit cs s' = s'"
  by (induction cs) (auto simp: settled_def, metis fst_conv snd_conv)

lemma walk_all:
  assumes "settled visit"
  shows "irDepth c + d \<le> maxTraversalDepth \<Longrightarrow> walkRec visit c d s = (True, stepped visit (preorder c) s)"
    and "(\<forall>c \<in> set cs. irDepth c + d \<le> maxTraversalDepth) \<Longrightarrow> walkAll visit cs d s = (True, stepped visit (concat (map preorder cs)) s)"
    and "spineDepth c + d \<le> maxTraversalDepth \<Longrightarrow> (\<forall>r \<in> set rights. irDepth r + d + 1 \<le> maxTraversalDepth) \<Longrightarrow> (skipRoot \<longrightarrow> isApp c) \<Longrightarrow>
      walkLeftSpine visit c d skipRoot rights s =
        (True, stepped visit ((if skipRoot then tl (preorder c) else preorder c) @ concat (map preorder rights)) s)"
  using assms
proof (induction visit c d s and visit cs d s and visit c d skipRoot rights s rule: walkRec_walkAll_walkLeftSpine.induct)
  case (1 visit c d s)
  obtain go s' where v: "visit c s = (go, s')" by fastforce
  show ?case
  proof (cases go)
    case False
    then show ?thesis using 1 v settled_stop [of visit c s s' "concat (map preorder (kids c))"]
      by (simp add: walkRec.simps [of visit c] preorder.simps [of c] del: fold_simps)
  next
    case go: True
    show ?thesis
    proof (cases "isApp c")
      case True
      then have "spineDepth c = irDepth c" by (cases c) auto
      then show ?thesis using 1 v go True
        by (simp add: walkRec.simps [of visit c] preorder.simps [of c])
    next
      case False
      have "\<forall>k \<in> set (kids c). irDepth k + (d + 1) \<le> maxTraversalDepth" using kid_depth [OF _ False] "1.prems"(1) by fastforce
      then show ?thesis using 1 v go False
        by (simp add: walkRec.simps [of visit c] preorder.simps [of c])
    qed
  qed
next
  case (4 visit f a d skipRoot rights s)
  obtain go s' where v: "(if skipRoot then (True, s) else visit (App f a) s) = (go, s')" by fastforce
  show ?case
  proof (cases go)
    case False
    then have "visit (App f a) s = (False, s')" "\<not> skipRoot" using v by (auto split: if_splits)
    then show ?thesis
      using 4 settled_stop [of visit "App f a" s s' "concat (map preorder (kids (App f a))) @ concat (map preorder rights)"]
      by (simp add: preorder.simps [of "App f a"])
  next
    case True
    then have "walkLeftSpine visit f d False (a # rights) s' = (True, stepped visit (preorder f @ concat (map preorder (a # rights))) s')"
      using "4.IH" [OF v [symmetric]] True "4.prems" by auto
    then show ?thesis using v True by (auto simp: preorder.simps [of "App f a"] split: if_splits)
  qed
next
  case (5 visit e t d skipRoot rights s)
  then have sk: "\<not> skipRoot" by simp
  obtain go s' where v: "visit (TyApp e t) s = (go, s')" by fastforce
  show ?case
  proof (cases go)
    case False
    then show ?thesis using 5 sk v settled_stop [of visit "TyApp e t" s s' "preorder e @ concat (map preorder rights)"]
      by (simp add: preorder.simps [of "TyApp e t"])
  next
    case True
    then show ?thesis using "5.IH" [OF v [symmetric]] True "5.prems" sk v by (auto simp: preorder.simps [of "TyApp e t"])
  qed
next
  case (6 visit x k e d skipRoot rights s)
  then have sk: "\<not> skipRoot" by simp
  obtain go s' where v: "visit (TyLam x k e) s = (go, s')" by fastforce
  show ?case
  proof (cases go)
    case False
    then show ?thesis using 6 sk v settled_stop [of visit "TyLam x k e" s s' "preorder e @ concat (map preorder rights)"]
      by (simp add: preorder.simps [of "TyLam x k e"])
  next
    case True
    then show ?thesis using "6.IH" [OF v [symmetric]] True "6.prems" sk v by (auto simp: preorder.simps [of "TyLam x k e"])
  qed
qed (simp_all del: irDepth.simps)

section \<open>Properties\<close>

text \<open>
  C29: \<^verbatim>\<open>Walk\<close> on a term within the traversal limit reports a full visit, and visits every node once, each before
  its children and children in order; the long application chains it descends iteratively are no exception.
  This holds for every visitor that is indifferent to the rest once it stops.
\<close>

theorem walk_preorder:
  assumes "settled visit" "irDepth c \<le> maxTraversalDepth"
  shows "Walk visit c s = (True, stepped visit (preorder c) s)"
  using walk_all(1) [OF assms(1), of c 0 s] assms(2) by (simp add: Walk_def)

theorem walk_preorder_witness:
  "Walk (\<lambda>n (k :: nat). (True, Suc k)) BindBody 0 = (True, 5)"
proof -
  have "Walk (\<lambda>n (k :: nat). (True, Suc k)) BindBody 0 = (True, stepped (\<lambda>n k. (True, Suc k)) (preorder BindBody) 0)"
    by (rule walk_preorder) (simp_all add: settled_def BindBody_def localVar_def)
  then show ?thesis
    by (simp add: BindBody_def localVar_def preorder.simps [of "Lam _ _ _ _ _"] preorder.simps [of "App _ _"] preorder.simps [of "Var _ _ _"])
qed

text \<open>A visitor's refusal ends the visit of one subterm, not the traversal: the next sibling is visited.\<close>

lemma walk_stop_is_local:
  "Walk (\<lambda>n seen. (n \<noteq> localVar ''x'', seen @ [n])) (Con ''P'' [] [localVar ''x'', localVar ''y''] False) [] =
     (True, [Con ''P'' [] [localVar ''x'', localVar ''y''] False, localVar ''x'', localVar ''y''])"
  by (simp add: Walk_def walkRec.simps [of _ "Con _ _ _ _"] walkRec.simps [of _ "Var _ _ _"] localVar_def)

end
