(* ===== verification/Core_Transform.thy ===== *)
theory Core_Transform
  imports Core_Walk
begin

text \<open>
  Rewriting Core terms, the second half of \<^verbatim>\<open>internal/lang/ir/walk.go\<close>: \<^verbatim>\<open>Transform\<close> shares unchanged subtrees and rebuilds the path
  to a change, \<^verbatim>\<open>TransformMut\<close> updates in place, \<^verbatim>\<open>Clone\<close> copies. A rewriting function answers \<open>None\<close> where the code
  returns the node it was given (the same pointer), and so does a transformation that changed nothing.
  The passes run before any annotation, on terms with empty slots.
\<close>

type_synonym tm = "unit core"
type_synonym rewrite = "tm \<Rightarrow> tm option"

definition orElse :: "tm \<Rightarrow> tm option \<Rightarrow> tm" where
  "orElse c r = (case r of None \<Rightarrow> c | Some c' \<Rightarrow> c')"

text \<open>The function applied to a fresh node: whatever it returns differs from the original.\<close>

definition rebuilt :: "rewrite \<Rightarrow> tm \<Rightarrow> tm option" where
  "rebuilt f c = Some (orElse c (f c))"

text \<open>The children of a slice, shared when none of them changed.\<close>

definition transformSlice :: "tm list \<Rightarrow> tm option list \<Rightarrow> tm list option" where
  "transformSlice elems news = (if list_all (\<lambda>r. r = None) news then None else Some (map2 orElse elems news))"

definition transformFields :: "(string \<times> tm) list \<Rightarrow> tm option list \<Rightarrow> (string \<times> tm) list option" where
  "transformFields flds news =
     (if list_all (\<lambda>r. r = None) news then None else Some (map2 (\<lambda>(l, e) r. (l, orElse e r)) flds news))"

section \<open>Spines and chains\<close>

text \<open>The applications of a left spine, outermost first, each as its function and argument, and what remains.\<close>

fun spineApps :: "tm \<Rightarrow> (tm \<times> tm) list \<times> tm" where
  "spineApps (App f a) = (case spineApps f of (s, h) \<Rightarrow> ((f, a) # s, h))"
| "spineApps c = ([], c)"

lemma spineApps_size:
  "spineApps c = (s, h) \<Longrightarrow> size h \<le> size c \<and> (\<forall>(g, a) \<in> set s. size a < size c) \<and> (isApp c \<longrightarrow> size h < size c)"
  by (induction c arbitrary: s rule: spineApps.induct) (fastforce split: prod.splits)+

text \<open>The second phase: rebuild from the innermost application outwards.\<close>

definition rebuildSpine :: "rewrite \<Rightarrow> tm \<Rightarrow> tm list \<Rightarrow> tm" where
  "rebuildSpine f = foldl (\<lambda>cur arg. orElse (App cur arg) (f (App cur arg)))"

text \<open>When no part changed, the original applications are offered to the function until one is rewritten.\<close>

fun offerSpine :: "rewrite \<Rightarrow> (tm \<times> tm) list \<Rightarrow> tm option" where
  "offerSpine f [] = None"
| "offerSpine f ((g, a) # outer) =
     (case f (App g a) of None \<Rightarrow> offerSpine f outer | Some r \<Rightarrow> Some (rebuildSpine f r (map snd outer)))"

type_synonym bindNode = "tm \<times> string \<times> tm \<times> bool \<times> genKind"

fun bindChain :: "tm \<Rightarrow> bindNode list \<times> tm" where
  "bindChain (Bind e x b disc g) = (case bindChain b of (s, t) \<Rightarrow> ((e, x, b, disc, g) # s, t))"
| "bindChain c = ([], c)"

lemma bindChain_size:
  "bindChain c = (s, t) \<Longrightarrow> size t \<le> size c \<and> (\<forall>(e, x, b, disc, g) \<in> set s. size e < size c) \<and> (isBind c \<longrightarrow> size t < size c)"
  by (induction c arbitrary: s rule: bindChain.induct) (fastforce split: prod.splits)+

definition rebuildChain :: "rewrite \<Rightarrow> tm \<Rightarrow> bindNode list \<Rightarrow> tm" where
  "rebuildChain f = foldl (\<lambda>cur (e, x, b, disc, g). orElse (Bind e x cur disc g) (f (Bind e x cur disc g)))"

fun offerChain :: "rewrite \<Rightarrow> bindNode list \<Rightarrow> tm option" where
  "offerChain f [] = None"
| "offerChain f ((e, x, b, disc, g) # outer) =
     (case f (Bind e x b disc g) of None \<Rightarrow> offerChain f outer | Some r \<Rightarrow> Some (rebuildChain f r outer))"

lemma spine_sizes:
  "isApp c \<Longrightarrow> size (snd (spineApps c)) < size c" "(g, a) \<in> set (fst (spineApps c)) \<Longrightarrow> size a < size c"
  "isBind c \<Longrightarrow> size (snd (bindChain c)) < size c" "(e, x, b, disc, gen) \<in> set (fst (bindChain c)) \<Longrightarrow> size e < size c"
  using spineApps_size [of c "fst (spineApps c)" "snd (spineApps c)"] bindChain_size [of c "fst (bindChain c)" "snd (bindChain c)"]
  by auto

section \<open>Transform\<close>

function (sequential) transformRec :: "rewrite \<Rightarrow> tm \<Rightarrow> nat \<Rightarrow> tm option"
  and transformLeftSpine :: "rewrite \<Rightarrow> tm \<Rightarrow> tm option"
  and transformHead :: "rewrite \<Rightarrow> tm \<Rightarrow> tm option"
  and transformLeftSpineOrRec :: "rewrite \<Rightarrow> tm \<Rightarrow> tm option"
  and transformBindChain :: "rewrite \<Rightarrow> tm \<Rightarrow> tm option" where
  "transformRec f c d =
     (if d > maxTraversalDepth
      then (if isApp c then transformLeftSpine f c else if isBind c then transformBindChain f c else None)
      else case c of
        Var n m i \<Rightarrow> f c
      | Lam s x t b g \<Rightarrow>
          (case transformRec f b (d + 1) of None \<Rightarrow> f c | Some b' \<Rightarrow> rebuilt f (Lam () x t b' g))
      | App h a \<Rightarrow> transformLeftSpine f c
      | TyApp e t \<Rightarrow> (case transformRec f e (d + 1) of None \<Rightarrow> f c | Some e' \<Rightarrow> rebuilt f (TyApp e' t))
      | TyLam x k b \<Rightarrow> (case transformRec f b (d + 1) of None \<Rightarrow> f c | Some b' \<Rightarrow> rebuilt f (TyLam x k b'))
      | Con n m args dict \<Rightarrow>
          (case transformSlice args (map (\<lambda>a. transformRec f a (d + 1)) args) of
             None \<Rightarrow> f c
           | Some args' \<Rightarrow> rebuilt f (Con n m args' False))
      | Case e alts \<Rightarrow>
          let e' = transformRec f e (d + 1);
              bs = map (\<lambda>(p, b, g). transformRec f b (d + 1)) alts
          in if e' = None \<and> list_all (\<lambda>r. r = None) bs then f c
             else rebuilt f (Case (orElse e e') (map2 (\<lambda>(p, b, g) r. (p, orElse b r, g)) alts bs))
      | Fix x b \<Rightarrow> (case transformRec f b (d + 1) of None \<Rightarrow> f c | Some b' \<Rightarrow> rebuilt f (Fix x b'))
      | Pure e \<Rightarrow> (case transformRec f e (d + 1) of None \<Rightarrow> f c | Some e' \<Rightarrow> rebuilt f (Pure e'))
      | Bind e x b disc g \<Rightarrow> transformBindChain f c
      | Thunk s e \<Rightarrow> (case transformRec f e (d + 1) of None \<Rightarrow> f c | Some e' \<Rightarrow> rebuilt f (Thunk () e'))
      | Force e \<Rightarrow> (case transformRec f e (d + 1) of None \<Rightarrow> f c | Some e' \<Rightarrow> rebuilt f (Force e'))
      | Merge s1 s2 l r ls rs \<Rightarrow>
          let l' = transformRec f l (d + 1); r' = transformRec f r (d + 1)
          in if l' = None \<and> r' = None then f c else rebuilt f (Merge () () (orElse l l') (orElse r r') ls rs)
      | PrimOp n k eff args \<Rightarrow>
          (case transformSlice args (map (\<lambda>a. transformRec f a (d + 1)) args) of
             None \<Rightarrow> f c
           | Some args' \<Rightarrow> rebuilt f (PrimOp n k eff args'))
      | Lit v \<Rightarrow> f c
      | CoreError \<Rightarrow> f c
      | RecordLit fs \<Rightarrow>
          (case transformFields fs (map (\<lambda>(l, e). transformRec f e (d + 1)) fs) of
             None \<Rightarrow> f c
           | Some fs' \<Rightarrow> rebuilt f (RecordLit fs'))
      | RecordProj e l \<Rightarrow> (case transformRec f e (d + 1) of None \<Rightarrow> f c | Some e' \<Rightarrow> rebuilt f (RecordProj e' l))
      | RecordUpdate e fs \<Rightarrow>
          let e' = transformRec f e (d + 1);
              fs' = transformFields fs (map (\<lambda>(l, e). transformRec f e (d + 1)) fs)
          in if e' = None \<and> fs' = None then f c
             else rebuilt f (RecordUpdate (orElse e e') (case fs' of None \<Rightarrow> fs | Some us \<Rightarrow> us))
      | VariantLit t e \<Rightarrow> (case transformRec f e (d + 1) of None \<Rightarrow> f c | Some e' \<Rightarrow> rebuilt f (VariantLit t e')))"
| "transformLeftSpine f c =
     (if \<not> isApp c then None
      else let spine = fst (spineApps c); h = snd (spineApps c);
               args = map (\<lambda>(g, a). transformRec f a 0) spine;
               head = transformHead f h
           in if head = None \<and> list_all (\<lambda>r. r = None) args then offerSpine f (rev spine)
              else Some (rebuildSpine f (orElse h head) (rev (map2 (\<lambda>(g, a) r. orElse a r) spine args))))"
| "transformHead f (TyApp e t) =
     (case transformLeftSpineOrRec f e of None \<Rightarrow> f (TyApp e t) | Some e' \<Rightarrow> rebuilt f (TyApp e' t))"
| "transformHead f (TyLam x k b) =
     (case transformLeftSpineOrRec f b of None \<Rightarrow> f (TyLam x k b) | Some b' \<Rightarrow> rebuilt f (TyLam x k b'))"
| "transformHead f h = transformRec f h 0"
| "transformLeftSpineOrRec f c = (if isApp c then transformLeftSpine f c else transformRec f c 0)"
| "transformBindChain f c =
     (if \<not> isBind c then None
      else let chain = fst (bindChain c); tail = snd (bindChain c);
               comps = map (\<lambda>(e, x, b, disc, g). transformRec f e 0) chain;
               newTail = transformRec f tail 0
           in if newTail = None \<and> list_all (\<lambda>r. r = None) comps then offerChain f (rev chain)
              else Some (rebuildChain f (orElse tail newTail)
                     (rev (map2 (\<lambda>(e, x, b, disc, g) r. (orElse e r, x, b, disc, g)) chain comps))))"
  by pat_completeness auto
termination
  by (relation "measures [\<lambda>x. case x of Inl (Inl (f, c, d)) \<Rightarrow> size c | Inl (Inr (f, c)) \<Rightarrow> size c
         | Inr (Inl (f, c)) \<Rightarrow> size c | Inr (Inr (Inl (f, c))) \<Rightarrow> size c | Inr (Inr (Inr (f, c))) \<Rightarrow> size c,
       \<lambda>x. case x of Inl (Inl (f, c, d)) \<Rightarrow> (if isApp c \<or> isBind c then 2 else 0) | Inl (Inr (f, c)) \<Rightarrow> (1 :: nat)
         | Inr (Inl (f, c)) \<Rightarrow> 3 | Inr (Inr (Inl (f, c))) \<Rightarrow> 3 | Inr (Inr (Inr (f, c))) \<Rightarrow> 1]")
    (auto dest: size_mem_list size_mem_pair size_mem_alt simp: spine_sizes)

declare transformRec.simps [simp del] transformLeftSpine.simps [simp del] transformBindChain.simps [simp del]

definition Transform :: "rewrite \<Rightarrow> tm \<Rightarrow> tm" where
  "Transform f c = orElse c (transformRec f c 0)"

definition cloneNode :: rewrite where
  "cloneNode n = (case n of Var x m i \<Rightarrow> Some (Var x m (- 1)) | Lit v \<Rightarrow> Some (Lit v) | _ \<Rightarrow> None)"

definition Clone :: "tm \<Rightarrow> tm" where "Clone c = Transform cloneNode c"

section \<open>TransformMut\<close>

definition mutSpine :: "(tm \<Rightarrow> tm) \<Rightarrow> tm \<Rightarrow> tm list \<Rightarrow> tm" where
  "mutSpine f = foldl (\<lambda>cur arg. f (App cur arg))"

definition mutChain :: "(tm \<Rightarrow> tm) \<Rightarrow> tm \<Rightarrow> bindNode list \<Rightarrow> tm" where
  "mutChain f = foldl (\<lambda>cur (e, x, b, disc, g). f (Bind e x cur disc g))"

function (sequential) transformMutRec :: "(tm \<Rightarrow> tm) \<Rightarrow> tm \<Rightarrow> nat \<Rightarrow> tm"
  and transformMutLeftSpine :: "(tm \<Rightarrow> tm) \<Rightarrow> tm \<Rightarrow> tm"
  and transformMutHead :: "(tm \<Rightarrow> tm) \<Rightarrow> tm \<Rightarrow> tm"
  and transformMutLeftSpineOrRec :: "(tm \<Rightarrow> tm) \<Rightarrow> tm \<Rightarrow> tm"
  and transformMutBindChain :: "(tm \<Rightarrow> tm) \<Rightarrow> tm \<Rightarrow> tm" where
  "transformMutRec f c d =
     (if d > maxTraversalDepth
      then (if isApp c then transformMutLeftSpine f c else if isBind c then transformMutBindChain f c else c)
      else case c of
        Var n m i \<Rightarrow> f c
      | Lam s x t b g \<Rightarrow> f (Lam s x t (transformMutRec f b (d + 1)) g)
      | App h a \<Rightarrow> transformMutLeftSpine f c
      | TyApp e t \<Rightarrow> f (TyApp (transformMutRec f e (d + 1)) t)
      | TyLam x k b \<Rightarrow> f (TyLam x k (transformMutRec f b (d + 1)))
      | Con n m args dict \<Rightarrow> f (Con n m (map (\<lambda>a. transformMutRec f a (d + 1)) args) dict)
      | Case e alts \<Rightarrow>
          f (Case (transformMutRec f e (d + 1)) (map (\<lambda>(p, b, g). (p, transformMutRec f b (d + 1), g)) alts))
      | Fix x b \<Rightarrow> f (Fix x (transformMutRec f b (d + 1)))
      | Pure e \<Rightarrow> f (Pure (transformMutRec f e (d + 1)))
      | Bind e x b disc g \<Rightarrow> transformMutBindChain f c
      | Thunk s e \<Rightarrow> f (Thunk s (transformMutRec f e (d + 1)))
      | Force e \<Rightarrow> f (Force (transformMutRec f e (d + 1)))
      | Merge s1 s2 l r ls rs \<Rightarrow> f (Merge s1 s2 (transformMutRec f l (d + 1)) (transformMutRec f r (d + 1)) ls rs)
      | PrimOp n k eff args \<Rightarrow> f (PrimOp n k eff (map (\<lambda>a. transformMutRec f a (d + 1)) args))
      | Lit v \<Rightarrow> f c
      | CoreError \<Rightarrow> f c
      | RecordLit fs \<Rightarrow> f (RecordLit (map (\<lambda>(l, e). (l, transformMutRec f e (d + 1))) fs))
      | RecordProj e l \<Rightarrow> f (RecordProj (transformMutRec f e (d + 1)) l)
      | RecordUpdate e fs \<Rightarrow>
          f (RecordUpdate (transformMutRec f e (d + 1)) (map (\<lambda>(l, e). (l, transformMutRec f e (d + 1))) fs))
      | VariantLit t e \<Rightarrow> f (VariantLit t (transformMutRec f e (d + 1))))"
| "transformMutLeftSpine f c =
     (if \<not> isApp c then c
      else mutSpine f (transformMutHead f (snd (spineApps c)))
             (rev (map (\<lambda>(g, a). transformMutRec f a 0) (fst (spineApps c)))))"
| "transformMutHead f (TyApp e t) = f (TyApp (transformMutLeftSpineOrRec f e) t)"
| "transformMutHead f (TyLam x k b) = f (TyLam x k (transformMutLeftSpineOrRec f b))"
| "transformMutHead f h = transformMutRec f h 0"
| "transformMutLeftSpineOrRec f c = (if isApp c then transformMutLeftSpine f c else transformMutRec f c 0)"
| "transformMutBindChain f c =
     (if \<not> isBind c then c
      else mutChain f (transformMutRec f (snd (bindChain c)) 0)
             (rev (map (\<lambda>(e, x, b, disc, g). (transformMutRec f e 0, x, b, disc, g)) (fst (bindChain c)))))"
  by pat_completeness auto
termination
  by (relation "measures [\<lambda>x. case x of Inl (Inl (f, c, d)) \<Rightarrow> size c | Inl (Inr (f, c)) \<Rightarrow> size c
         | Inr (Inl (f, c)) \<Rightarrow> size c | Inr (Inr (Inl (f, c))) \<Rightarrow> size c | Inr (Inr (Inr (f, c))) \<Rightarrow> size c,
       \<lambda>x. case x of Inl (Inl (f, c, d)) \<Rightarrow> (if isApp c \<or> isBind c then 2 else 0) | Inl (Inr (f, c)) \<Rightarrow> (1 :: nat)
         | Inr (Inl (f, c)) \<Rightarrow> 3 | Inr (Inr (Inl (f, c))) \<Rightarrow> 3 | Inr (Inr (Inr (f, c))) \<Rightarrow> 1]")
    (auto dest: size_mem_list size_mem_pair size_mem_alt simp: spine_sizes)

declare transformMutRec.simps [simp del] transformMutLeftSpine.simps [simp del] transformMutBindChain.simps [simp del]

definition TransformMut :: "(tm \<Rightarrow> tm) \<Rightarrow> tm \<Rightarrow> tm" where
  "TransformMut f c = transformMutRec f c 0"

end
