(* ===== verification/Core_Transform_Laws.thy ===== *)
theory Core_Transform_Laws
  imports Core_Transform
begin

text \<open>
  Rewriting is bottom-up: both transformations compute \<open>bottomUp\<close>, the function applied to every node after its
  children, whatever the iterative treatment of spines and chains and the sharing of unchanged parts.
\<close>

section \<open>Bottom-up rewriting\<close>

fun mapKids :: "(tm \<Rightarrow> tm) \<Rightarrow> tm \<Rightarrow> tm" where
  "mapKids h (Var n m i) = Var n m i"
| "mapKids h (Lam s x t b g) = Lam s x t (h b) g"
| "mapKids h (App f a) = App (h f) (h a)"
| "mapKids h (TyApp e t) = TyApp (h e) t"
| "mapKids h (TyLam x k b) = TyLam x k (h b)"
| "mapKids h (Con n m args dict) = Con n m (map h args) dict"
| "mapKids h (Case e alts) = Case (h e) (map (\<lambda>(p, b, g). (p, h b, g)) alts)"
| "mapKids h (Fix x b) = Fix x (h b)"
| "mapKids h (Pure e) = Pure (h e)"
| "mapKids h (Bind e x b disc g) = Bind (h e) x (h b) disc g"
| "mapKids h (Thunk s e) = Thunk s (h e)"
| "mapKids h (Force e) = Force (h e)"
| "mapKids h (Merge s1 s2 l r ls rs) = Merge s1 s2 (h l) (h r) ls rs"
| "mapKids h (PrimOp n k eff args) = PrimOp n k eff (map h args)"
| "mapKids h (Lit v) = Lit v"
| "mapKids h (RecordLit fs) = RecordLit (map (\<lambda>(l, e). (l, h e)) fs)"
| "mapKids h (RecordProj e l) = RecordProj (h e) l"
| "mapKids h (RecordUpdate e fs) = RecordUpdate (h e) (map (\<lambda>(l, e). (l, h e)) fs)"
| "mapKids h (VariantLit t e) = VariantLit t (h e)"
| "mapKids h CoreError = CoreError"

lemma mapKids_cong [fundef_cong]:
  "c = c' \<Longrightarrow> (\<And>k. k \<in> set (kids c') \<Longrightarrow> h k = h' k) \<Longrightarrow> mapKids h c = mapKids h' c'"
  by (cases c') (auto simp: field_kid alt_kid)

function bottomUp :: "(tm \<Rightarrow> tm) \<Rightarrow> tm \<Rightarrow> tm" where
  "bottomUp g c = g (mapKids (\<lambda>k. bottomUp g k) c)"
  by pat_completeness auto
termination by (relation "measure (\<lambda>(g, c). size c)") (simp_all add: kids_size)

declare bottomUp.simps [simp del]

lemma mapKids_id: "(\<And>k. k \<in> set (kids c) \<Longrightarrow> h k = k) \<Longrightarrow> mapKids h c = c"
proof -
  have id: "mapKids (\<lambda>k. k) c = c" by (cases c) (auto simp: case_prod_unfold)
  assume "\<And>k. k \<in> set (kids c) \<Longrightarrow> h k = k"
  then have "mapKids h c = mapKids (\<lambda>k. k) c" by (intro mapKids_cong) auto
  then show ?thesis by (simp add: id)
qed

section \<open>The in-place transformation\<close>

lemma mutSpine_snoc: "mutSpine g cur (as @ [a]) = g (App (mutSpine g cur as) a)"
  by (simp add: mutSpine_def)

lemma mutChain_snoc: "mutChain g cur (bs @ [(e, x, b, disc, gen)]) = g (Bind e x (mutChain g cur bs) disc gen)"
  by (simp add: mutChain_def)

lemma spine_bottomUp:
  assumes "\<And>f a. (f, a) \<in> set (fst (spineApps c)) \<Longrightarrow> t a = bottomUp g a" "th = bottomUp g (snd (spineApps c))"
  shows "mutSpine g th (rev (map (\<lambda>(f, a). t a) (fst (spineApps c)))) = bottomUp g c"
  using assms
proof (induction c rule: spineApps.induct)
  case (1 f a)
  have "mutSpine g th (rev (map (\<lambda>(f, a). t a) (fst (spineApps f)))) = bottomUp g f"
    using 1 by (auto simp: case_prod_unfold)
  moreover have "t a = bottomUp g a" using 1(2) [of f a] by (simp add: case_prod_unfold)
  ultimately show ?case by (simp add: case_prod_unfold mutSpine_snoc bottomUp.simps [of g "App f a"])
qed (simp_all add: mutSpine_def)

lemma chain_bottomUp:
  assumes "\<And>e x b disc gen. (e, x, b, disc, gen) \<in> set (fst (bindChain c)) \<Longrightarrow> t e = bottomUp g e" "tt = bottomUp g (snd (bindChain c))"
  shows "mutChain g tt (rev (map (\<lambda>(e, x, b, disc, gen). (t e, x, b, disc, gen)) (fst (bindChain c)))) = bottomUp g c"
  using assms
proof (induction c rule: bindChain.induct)
  case (1 e x b disc gen)
  have "mutChain g tt (rev (map (\<lambda>(e, x, b, disc, gen). (t e, x, b, disc, gen)) (fst (bindChain b)))) = bottomUp g b"
  proof (rule 1(1))
    show "t e' = bottomUp g e'" if "(e', x', b', disc', gen') \<in> set (fst (bindChain b))" for e' x' b' disc' gen'
      using 1(2) [of e' x' b' disc' gen'] that by (simp add: case_prod_unfold)
  qed (use 1(3) in \<open>simp add: case_prod_unfold\<close>)
  moreover have "t e = bottomUp g e" using 1(2) [of e x b disc gen] by (simp add: case_prod_unfold)
  ultimately show ?case by (simp add: case_prod_unfold mutChain_snoc bottomUp.simps [of g "Bind e x b disc gen"])
qed (simp_all add: mutChain_def)

lemmas mut_node =
  transformMutRec.simps [of h "Var n m i" d for h n m i d, simplified core.case]
  transformMutRec.simps [of h "Lam s x t b g" d for h s x t b g d, simplified core.case]
  transformMutRec.simps [of h "App f a" d for h f a d, simplified core.case]
  transformMutRec.simps [of h "TyApp e t" d for h e t d, simplified core.case]
  transformMutRec.simps [of h "TyLam x k b" d for h x k b d, simplified core.case]
  transformMutRec.simps [of h "Con n m args dict" d for h n m args dict d, simplified core.case]
  transformMutRec.simps [of h "Case e alts" d for h e alts d, simplified core.case]
  transformMutRec.simps [of h "Fix x b" d for h x b d, simplified core.case]
  transformMutRec.simps [of h "Pure e" d for h e d, simplified core.case]
  transformMutRec.simps [of h "Bind e x b disc g" d for h e x b disc g d, simplified core.case]
  transformMutRec.simps [of h "Thunk s e" d for h s e d, simplified core.case]
  transformMutRec.simps [of h "Force e" d for h e d, simplified core.case]
  transformMutRec.simps [of h "Merge s1 s2 l r ls rs" d for h s1 s2 l r ls rs d, simplified core.case]
  transformMutRec.simps [of h "PrimOp n k eff args" d for h n k eff args d, simplified core.case]
  transformMutRec.simps [of h "Lit v" d for h v d, simplified core.case]
  transformMutRec.simps [of h "RecordLit fs" d for h fs d, simplified core.case]
  transformMutRec.simps [of h "RecordProj e l" d for h e l d, simplified core.case]
  transformMutRec.simps [of h "RecordUpdate e fs" d for h e fs d, simplified core.case]
  transformMutRec.simps [of h "VariantLit t e" d for h t e d, simplified core.case]
  transformMutRec.simps [of h "CoreError" d for h d, simplified core.case]

text \<open>
  The nesting that limits a transformation: applications and binds start again from zero, however long their
  chains are.
\<close>

function rwDepth :: "'a core \<Rightarrow> nat" where
  "rwDepth c =
     (if kids c = [] then 0
      else if isApp c \<or> isBind c then Max (set (map rwDepth (kids c))) else Suc (Max (set (map rwDepth (kids c)))))"
  by pat_completeness auto
termination by (relation "measure size") (simp_all add: kids_size)

declare rwDepth.simps [simp del]

lemma rwDepth_kid: "k \<in> set (kids c) \<Longrightarrow> rwDepth k \<le> rwDepth c"
  "k \<in> set (kids c) \<Longrightarrow> \<not> isApp c \<Longrightarrow> \<not> isBind c \<Longrightarrow> rwDepth k < rwDepth c"
proof -
  assume "k \<in> set (kids c)"
  then have "rwDepth k \<le> Max (rwDepth ` set (kids c))" "kids c \<noteq> []" by (auto intro!: Max_ge)
  then show "rwDepth k \<le> rwDepth c" "\<not> isApp c \<Longrightarrow> \<not> isBind c \<Longrightarrow> rwDepth k < rwDepth c"
    using rwDepth.simps [of c] by (auto simp only: set_map if_False simp_thms less_Suc_eq_le le_SucI split: if_splits)
qed

lemma spine_parts:
  "(f, a) \<in> set (fst (spineApps c)) \<Longrightarrow> rwDepth a \<le> rwDepth c" "rwDepth (snd (spineApps c)) \<le> rwDepth c"
proof (induction c rule: spineApps.induct)
  case (1 g b)
  have "rwDepth g \<le> rwDepth (App g b)" "rwDepth b \<le> rwDepth (App g b)" using rwDepth_kid(1) [of _ "App g b"] by simp_all
  then show "(f, a) \<in> set (fst (spineApps (App g b))) \<Longrightarrow> rwDepth a \<le> rwDepth (App g b)"
    "rwDepth (snd (spineApps (App g b))) \<le> rwDepth (App g b)"
    using 1 by (auto simp: case_prod_unfold)
qed simp_all

lemma chain_parts:
  "(e, x, b, disc, gen) \<in> set (fst (bindChain c)) \<Longrightarrow> rwDepth e \<le> rwDepth c" "rwDepth (snd (bindChain c)) \<le> rwDepth c"
proof (induction c rule: bindChain.induct)
  case (1 e' x' b' disc' gen')
  let ?c = "Bind e' x' b' disc' gen'"
  have "rwDepth e' \<le> rwDepth ?c" "rwDepth b' \<le> rwDepth ?c" using rwDepth_kid(1) [of _ ?c] by simp_all
  then show "(e, x, b, disc, gen) \<in> set (fst (bindChain ?c)) \<Longrightarrow> rwDepth e \<le> rwDepth ?c"
    "rwDepth (snd (bindChain ?c)) \<le> rwDepth ?c"
    using 1 by (auto simp: case_prod_unfold)
qed simp_all

lemma spine_head_not_App: "\<not> isApp (snd (spineApps c))"
  by (induction c rule: spineApps.induct) (auto simp: case_prod_unfold)

lemma mut_spineOrRec: "transformMutLeftSpineOrRec g c = transformMutRec g c 0"
  by (cases c) (simp_all add: mut_node)

lemma mut_head:
  assumes "\<And>k. size k < size h \<Longrightarrow> rwDepth k \<le> rwDepth h \<Longrightarrow> transformMutRec g k 0 = bottomUp g k"
    "transformMutRec g h 0 = bottomUp g h"
  shows "transformMutHead g h = bottomUp g h"
proof (cases h)
  case (TyApp e t)
  then show ?thesis using assms(1) [of e] rwDepth_kid(1) [of e h] bottomUp.simps [of g h] by (simp add: mut_spineOrRec del: transformMutLeftSpineOrRec.simps)
next
  case (TyLam x k b)
  then show ?thesis using assms(1) [of b] rwDepth_kid(1) [of b h] bottomUp.simps [of g h] by (simp add: mut_spineOrRec del: transformMutLeftSpineOrRec.simps)
qed (use assms(2) in simp_all)

text \<open>Induction on the size of a term, as spines and chains skip levels.\<close>

lemma mut_bottomUp: "rwDepth c + d \<le> maxTraversalDepth \<Longrightarrow> transformMutRec g c d = bottomUp g c"
proof (induction c arbitrary: d rule: measure_induct_rule [where f = size])
  case (less c)
  have part: "transformMutRec g k 0 = bottomUp g k" if "size k < size c" "rwDepth k \<le> rwDepth c" for k
    using less.IH [OF that(1), of 0] less.prems that(2) by simp
  show ?case
  proof (cases "isApp c \<or> isBind c")
    case False
    have "transformMutRec g k (d + 1) = bottomUp g k" if "k \<in> set (kids c)" for k
      using less.IH [OF kids_size [OF that], of "d + 1"] rwDepth_kid(2) [OF that] False less.prems by simp
    then have "mapKids (\<lambda>k. transformMutRec g k (d + 1)) c = mapKids (bottomUp g) c" by (intro mapKids_cong refl)
    moreover have "transformMutRec g c d = g (mapKids (\<lambda>k. transformMutRec g k (d + 1)) c)"
      using False less.prems by (cases c) (simp_all add: mut_node)
    ultimately show ?thesis by (simp add: bottomUp.simps [of g c])
  next
    case True
    then consider "isApp c" | "\<not> isApp c" "isBind c" by blast
    then show ?thesis
    proof cases
      case 1
      let ?h = "snd (spineApps c)"
      have h: "size ?h < size c" "rwDepth ?h \<le> rwDepth c" using spine_sizes(1) [OF 1] spine_parts(2) by auto
      have "transformMutHead g ?h = bottomUp g ?h"
        by (rule mut_head) (use part h in \<open>auto dest: order_trans less_trans\<close>)
      then have "transformMutLeftSpine g c = bottomUp g c"
        using 1 spine_bottomUp [of c "\<lambda>a. transformMutRec g a 0" g] part spine_sizes(2) [of _ _ c] spine_parts(1) [of _ _ c]
        by (simp add: transformMutLeftSpine.simps)
      then show ?thesis using 1 less.prems by (cases c) (simp_all add: mut_node)
    next
      case 2
      let ?t = "snd (bindChain c)"
      have "transformMutRec g ?t 0 = bottomUp g ?t" using part spine_sizes(3) [OF 2(2)] chain_parts(2) by auto
      moreover have "transformMutRec g e 0 = bottomUp g e" if "(e, x, b, disc, gen) \<in> set (fst (bindChain c))" for e x b disc gen
        using part spine_sizes(4) [OF that] chain_parts(1) [OF that] by auto
      ultimately have "transformMutBindChain g c = bottomUp g c"
        using 2 chain_bottomUp [of c "\<lambda>a. transformMutRec g a 0" g] by (simp add: transformMutBindChain.simps)
      then show ?thesis using 2 less.prems by (cases c) (simp_all add: mut_node)
    qed
  qed
qed

section \<open>The sharing transformation\<close>

definition applied :: "rewrite \<Rightarrow> tm \<Rightarrow> tm" where "applied f n = orElse n (f n)"

lemma orElse_simps [simp]: "orElse c None = c" "orElse c (Some c') = c'"
  by (simp_all add: orElse_def)

text \<open>A rebuilt constructor loses its dictionary flag, so the result is exact on terms without flagged constructor applications.\<close>

fun flagged :: "'a core \<Rightarrow> bool" where
  "flagged (Con n m args dict) \<longleftrightarrow> dict \<and> args \<noteq> []"
| "flagged c \<longleftrightarrow> False"

definition noDict :: "'a core \<Rightarrow> bool" where "noDict c \<longleftrightarrow> (\<forall>k \<in> set (preorder c). \<not> flagged k)"

lemma noDict_kid: "noDict c \<Longrightarrow> k \<in> set (kids c) \<Longrightarrow> noDict k"
  by (simp add: noDict_def preorder.simps [of c]) blast

lemma noDict_spine:
  "noDict c \<Longrightarrow> (f, a) \<in> set (fst (spineApps c)) \<Longrightarrow> noDict a" "noDict c \<Longrightarrow> noDict (snd (spineApps c))"
proof (induction c rule: spineApps.induct)
  case (1 g b)
  have "noDict (App g b) \<Longrightarrow> noDict g \<and> noDict b" using noDict_kid [of "App g b"] by simp
  then show "noDict (App g b) \<Longrightarrow> (f, a) \<in> set (fst (spineApps (App g b))) \<Longrightarrow> noDict a"
    "noDict (App g b) \<Longrightarrow> noDict (snd (spineApps (App g b)))"
    using 1 by (auto simp: case_prod_unfold)
qed simp_all

lemma noDict_chain:
  "noDict c \<Longrightarrow> (e, x, b, disc, gen) \<in> set (fst (bindChain c)) \<Longrightarrow> noDict e" "noDict c \<Longrightarrow> noDict (snd (bindChain c))"
proof (induction c rule: bindChain.induct)
  case (1 e' x' b' disc' gen')
  let ?c = "Bind e' x' b' disc' gen'"
  have "noDict ?c \<Longrightarrow> noDict e' \<and> noDict b'" using noDict_kid [of ?c] by simp
  then show "noDict ?c \<Longrightarrow> (e, x, b, disc, gen) \<in> set (fst (bindChain ?c)) \<Longrightarrow> noDict e" "noDict ?c \<Longrightarrow> noDict (snd (bindChain ?c))"
    using 1 by (auto simp: case_prod_unfold)
qed simp_all

lemmas rec_node =
  transformRec.simps [of h "Var n m i" d for h n m i d, simplified core.case]
  transformRec.simps [of h "Lam s x t b g" d for h s x t b g d, simplified core.case]
  transformRec.simps [of h "App f a" d for h f a d, simplified core.case]
  transformRec.simps [of h "TyApp e t" d for h e t d, simplified core.case]
  transformRec.simps [of h "TyLam x k b" d for h x k b d, simplified core.case]
  transformRec.simps [of h "Con n m args dict" d for h n m args dict d, simplified core.case]
  transformRec.simps [of h "Case e alts" d for h e alts d, simplified core.case]
  transformRec.simps [of h "Fix x b" d for h x b d, simplified core.case]
  transformRec.simps [of h "Pure e" d for h e d, simplified core.case]
  transformRec.simps [of h "Bind e x b disc g" d for h e x b disc g d, simplified core.case]
  transformRec.simps [of h "Thunk s e" d for h s e d, simplified core.case]
  transformRec.simps [of h "Force e" d for h e d, simplified core.case]
  transformRec.simps [of h "Merge s1 s2 l r ls rs" d for h s1 s2 l r ls rs d, simplified core.case]
  transformRec.simps [of h "PrimOp n k eff args" d for h n k eff args d, simplified core.case]
  transformRec.simps [of h "Lit v" d for h v d, simplified core.case]
  transformRec.simps [of h "RecordLit fs" d for h fs d, simplified core.case]
  transformRec.simps [of h "RecordProj e l" d for h e l d, simplified core.case]
  transformRec.simps [of h "RecordUpdate e fs" d for h e fs d, simplified core.case]
  transformRec.simps [of h "VariantLit t e" d for h t e d, simplified core.case]
  transformRec.simps [of h "CoreError" d for h d, simplified core.case]

text \<open>A node whose children were transformed: offered as it is when none changed, rebuilt otherwise.\<close>

definition shared :: "rewrite \<Rightarrow> (tm \<Rightarrow> tm option) \<Rightarrow> tm \<Rightarrow> tm option" where
  "shared f t c = (if \<forall>k \<in> set (kids c). t k = None then f c else rebuilt f (mapKids (\<lambda>k. orElse k (t k)) c))"

lemma zip_map_same: "zip xs (map g xs) = map (\<lambda>x. (x, g x)) xs"
  by (induction xs) auto

lemma transform_shared:
  assumes "\<not> isApp c" "\<not> isBind c" "\<not> flagged c" "d \<le> maxTraversalDepth"
  shows "transformRec f c d = shared f (\<lambda>k. transformRec f k (d + 1)) c"
proof (cases c)
  case (Con n m args dict)
  then show ?thesis using assms by (auto simp: rec_node shared_def transformSlice_def list_all_iff zip_map_same comp_def image_iff)
next
  case (PrimOp n k eff args)
  then show ?thesis using assms by (auto simp: rec_node shared_def transformSlice_def list_all_iff zip_map_same comp_def image_iff)
next
  case (RecordLit fs)
  then show ?thesis using assms
    by (auto simp: rec_node shared_def transformFields_def list_all_iff zip_map_same comp_def image_iff case_prod_unfold)
next
  case (RecordUpdate e fs)
  have "(\<forall>p \<in> set fs. t (snd p) = None) \<Longrightarrow> map (\<lambda>p. (fst p, orElse (snd p) (t (snd p)))) fs = fs" for t by (simp add: map_idI)
  from this [of "\<lambda>e. transformRec f e (Suc d)"] show ?thesis using assms RecordUpdate
    by (auto simp: rec_node shared_def transformFields_def list_all_iff zip_map_same comp_def image_iff case_prod_unfold Let_def)
next
  case (Case e alts)
  then show ?thesis using assms
    by (auto simp: rec_node shared_def list_all_iff zip_map_same comp_def image_iff case_prod_unfold Let_def)
qed (use assms in \<open>auto simp: rec_node shared_def Let_def split: option.splits\<close>)

lemma shared_bottomUp:
  assumes "\<And>k. k \<in> set (kids c) \<Longrightarrow> orElse k (t k) = bottomUp (applied f) k"
  shows "orElse c (shared f t c) = bottomUp (applied f) c"
proof -
  have eq: "mapKids (\<lambda>k. orElse k (t k)) c = mapKids (bottomUp (applied f)) c" using assms by (intro mapKids_cong refl)
  show ?thesis
  proof (cases "\<forall>k \<in> set (kids c). t k = None")
    case True
    then have "mapKids (\<lambda>k. orElse k (t k)) c = c" by (intro mapKids_id) auto
    then show ?thesis using True eq by (simp add: shared_def bottomUp.simps [of _ c] applied_def)
  next
    case False
    then show ?thesis using eq by (auto simp: shared_def rebuilt_def bottomUp.simps [of _ c] applied_def)
  qed
qed

text \<open>Spines and chains, offered or rebuilt from the innermost node out.\<close>

lemma rebuildSpine_mut: "rebuildSpine f = mutSpine (applied f)"
  by (simp add: rebuildSpine_def mutSpine_def applied_def fun_eq_iff)

lemma rebuildChain_mut: "rebuildChain f = mutChain (applied f)"
  by (simp add: rebuildChain_def mutChain_def applied_def fun_eq_iff)

lemma offerSpine_snoc:
  "offerSpine f (xs @ [(g, a)]) =
     (case offerSpine f xs of None \<Rightarrow> f (App g a) | Some r \<Rightarrow> Some (applied f (App r a)))"
  by (induction f xs rule: offerSpine.induct)
    (auto simp: rebuildSpine_mut mutSpine_snoc mutSpine_def split: option.splits)

lemma offerChain_snoc:
  "offerChain f (xs @ [(e, x, b, disc, gen)]) =
     (case offerChain f xs of None \<Rightarrow> f (Bind e x b disc gen) | Some r \<Rightarrow> Some (applied f (Bind e x r disc gen)))"
  by (induction f xs rule: offerChain.induct)
    (auto simp: rebuildChain_mut mutChain_snoc mutChain_def split: option.splits)

lemma offerSpine_bottomUp:
  assumes "\<And>g a. (g, a) \<in> set (fst (spineApps c)) \<Longrightarrow> bottomUp (applied f) a = a"
    "bottomUp (applied f) (snd (spineApps c)) = snd (spineApps c)"
  shows "orElse c (offerSpine f (rev (fst (spineApps c)))) = bottomUp (applied f) c"
  using assms
proof (induction c rule: spineApps.induct)
  case (1 g a)
  have ih: "orElse g (offerSpine f (rev (fst (spineApps g)))) = bottomUp (applied f) g"
    using 1 by (auto simp: case_prod_unfold)
  have "bottomUp (applied f) a = a" using 1(2) [of g a] by (simp add: case_prod_unfold)
  then show ?case using ih
    by (auto simp: case_prod_unfold offerSpine_snoc bottomUp.simps [of _ "App g a"] applied_def [symmetric] split: option.splits)
qed simp_all

lemma offerChain_bottomUp:
  assumes "\<And>e x b disc gen. (e, x, b, disc, gen) \<in> set (fst (bindChain c)) \<Longrightarrow> bottomUp (applied f) e = e"
    "bottomUp (applied f) (snd (bindChain c)) = snd (bindChain c)"
  shows "orElse c (offerChain f (rev (fst (bindChain c)))) = bottomUp (applied f) c"
  using assms
proof (induction c rule: bindChain.induct)
  case (1 e x b disc gen)
  have ih: "orElse b (offerChain f (rev (fst (bindChain b)))) = bottomUp (applied f) b"
  proof (rule 1(1))
    show "bottomUp (applied f) e' = e'" if "(e', x', b', disc', gen') \<in> set (fst (bindChain b))" for e' x' b' disc' gen'
      using 1(2) [of e' x' b' disc' gen'] that by (simp add: case_prod_unfold)
  qed (use 1(3) in \<open>simp add: case_prod_unfold\<close>)
  have "bottomUp (applied f) e = e" using 1(2) [of e x b disc gen] by (simp add: case_prod_unfold)
  then show ?case using ih
    by (auto simp: case_prod_unfold offerChain_snoc bottomUp.simps [of _ "Bind e x b disc gen"] applied_def [symmetric] split: option.splits)
qed simp_all

lemma leftSpine_bottomUp:
  assumes "isApp c" "\<And>g a. (g, a) \<in> set (fst (spineApps c)) \<Longrightarrow> orElse a (transformRec f a 0) = bottomUp (applied f) a"
    "orElse (snd (spineApps c)) (transformHead f (snd (spineApps c))) = bottomUp (applied f) (snd (spineApps c))"
  shows "orElse c (transformLeftSpine f c) = bottomUp (applied f) c"
proof (cases "transformHead f (snd (spineApps c)) = None \<and> list_all (\<lambda>r. r = None) (map (\<lambda>(g, a). transformRec f a 0) (fst (spineApps c)))")
  case True
  then have "bottomUp (applied f) a = a" if "(g, a) \<in> set (fst (spineApps c))" for g a
    using assms(2) [OF that] that by (auto simp: list_all_iff)
  then show ?thesis using True assms(1,3) offerSpine_bottomUp [of c f]
    by (simp add: transformLeftSpine.simps [of f c] Let_def)
next
  case False
  have "map2 (\<lambda>(g, a) r. orElse a r) (fst (spineApps c)) (map (\<lambda>(g, a). transformRec f a 0) (fst (spineApps c))) =
      map (\<lambda>(g, a). orElse a (transformRec f a 0)) (fst (spineApps c))"
    by (simp add: zip_map_same comp_def case_prod_unfold)
  then show ?thesis using False assms spine_bottomUp [of c "\<lambda>a. orElse a (transformRec f a 0)" "applied f"]
    by (auto simp: transformLeftSpine.simps [of f c] Let_def rebuildSpine_mut)
qed

lemma bindChain_bottomUp:
  assumes "isBind c" "orElse (snd (bindChain c)) (transformRec f (snd (bindChain c)) 0) = bottomUp (applied f) (snd (bindChain c))"
    "\<And>e x b disc gen. (e, x, b, disc, gen) \<in> set (fst (bindChain c)) \<Longrightarrow> orElse e (transformRec f e 0) = bottomUp (applied f) e"
  shows "orElse c (transformBindChain f c) = bottomUp (applied f) c"
proof (cases "transformRec f (snd (bindChain c)) 0 = None \<and>
    list_all (\<lambda>r. r = None) (map (\<lambda>(e, x, b, disc, g). transformRec f e 0) (fst (bindChain c)))")
  case True
  then have "bottomUp (applied f) e = e" if "(e, x, b, disc, gen) \<in> set (fst (bindChain c))" for e x b disc gen
    using assms(3) [OF that] that by (auto simp: list_all_iff)
  then show ?thesis using True assms(1,2) offerChain_bottomUp [of c f]
    by (simp add: transformBindChain.simps [of f c] Let_def)
next
  case False
  have "map2 (\<lambda>(e, x, b, disc, g) r. (orElse e r, x, b, disc, g)) (fst (bindChain c))
        (map (\<lambda>(e, x, b, disc, g). transformRec f e 0) (fst (bindChain c))) =
      map (\<lambda>(e, x, b, disc, g). (orElse e (transformRec f e 0), x, b, disc, g)) (fst (bindChain c))"
    by (simp add: zip_map_same comp_def case_prod_unfold)
  then show ?thesis using False assms chain_bottomUp [of c "\<lambda>e. orElse e (transformRec f e 0)" "applied f"]
    by (auto simp: transformBindChain.simps [of f c] Let_def rebuildChain_mut)
qed

lemma rec_spineOrRec: "transformLeftSpineOrRec f c = transformRec f c 0"
  by (cases c) (simp_all add: rec_node)

lemma rec_head:
  assumes "\<And>k. k \<in> set (kids h) \<Longrightarrow> orElse k (transformRec f k 0) = bottomUp (applied f) k"
    "orElse h (transformRec f h 0) = bottomUp (applied f) h"
  shows "orElse h (transformHead f h) = bottomUp (applied f) h"
proof (cases h)
  case (TyApp e t)
  then have "transformHead f h = shared f (\<lambda>k. transformRec f k 0) h"
    by (simp add: rec_spineOrRec shared_def del: transformLeftSpineOrRec.simps split: option.splits)
  then show ?thesis using shared_bottomUp [OF assms(1)] by simp
next
  case (TyLam x k b)
  then have "transformHead f h = shared f (\<lambda>k. transformRec f k 0) h"
    by (simp add: rec_spineOrRec shared_def del: transformLeftSpineOrRec.simps split: option.splits)
  then show ?thesis using shared_bottomUp [OF assms(1)] by simp
qed (use assms(2) in simp_all)

lemma rec_bottomUp:
  "rwDepth c + d \<le> maxTraversalDepth \<Longrightarrow> noDict c \<Longrightarrow> orElse c (transformRec f c d) = bottomUp (applied f) c"
proof (induction c arbitrary: d rule: measure_induct_rule [where f = size])
  case (less c)
  have part: "orElse k (transformRec f k 0) = bottomUp (applied f) k" if "size k < size c" "rwDepth k \<le> rwDepth c" "noDict k" for k
    using less.IH [OF that(1), of 0] less.prems that by simp
  have lim: "d \<le> maxTraversalDepth" "\<not> flagged c" using less.prems by (simp_all add: noDict_def preorder.simps [of c])
  consider "isApp c" | "\<not> isApp c" "isBind c" | "\<not> isApp c" "\<not> isBind c" by blast
  then show ?case
  proof cases
    case 1
    let ?h = "snd (spineApps c)"
    have h: "size ?h < size c" "rwDepth ?h \<le> rwDepth c" "noDict ?h"
      using spine_sizes(1) [OF 1] spine_parts(2) noDict_spine(2) less.prems(2) by auto
    have "orElse ?h (transformHead f ?h) = bottomUp (applied f) ?h"
    proof (rule rec_head)
      show "orElse k (transformRec f k 0) = bottomUp (applied f) k" if "k \<in> set (kids ?h)" for k
        using part [of k] kids_size [OF that] rwDepth_kid(1) [OF that] noDict_kid [OF h(3) that] h by simp
    qed (rule part [OF h])
    then have "orElse c (transformLeftSpine f c) = bottomUp (applied f) c"
      using 1 part spine_sizes(2) [of _ _ c] spine_parts(1) [of _ _ c] noDict_spine(1) [OF less.prems(2)]
      by (intro leftSpine_bottomUp) auto
    then show ?thesis using 1 lim by (cases c) (simp_all add: rec_node)
  next
    case 2
    have "orElse c (transformBindChain f c) = bottomUp (applied f) c"
      using 2 part spine_sizes(3) [OF 2(2)] spine_sizes(4) [of _ _ _ _ _ c] chain_parts(1) [of _ _ _ _ _ c] chain_parts(2) [of c]
        noDict_chain [OF less.prems(2)]
      by (intro bindChain_bottomUp) auto
    then show ?thesis using 2 lim by (cases c) (simp_all add: rec_node)
  next
    case 3
    have "orElse k (transformRec f k (d + 1)) = bottomUp (applied f) k" if "k \<in> set (kids c)" for k
      using less.IH [OF kids_size [OF that], of "d + 1"] rwDepth_kid(2) [OF that 3] noDict_kid [OF less.prems(2) that] less.prems by simp
    then show ?thesis using transform_shared [OF 3 lim(2,1)] shared_bottomUp by simp
  qed
qed

section \<open>Properties\<close>

text \<open>
  C13: \<^verbatim>\<open>Transform\<close> and \<^verbatim>\<open>TransformMut\<close> agree, and both rewrite bottom-up: every node of the term is rewritten exactly once,
  after its children. This holds for application chains and do-blocks of any length; the limit is on the nesting
  of the other nodes only. (Constructor applications flagged as dictionaries are excluded: \<^verbatim>\<open>Transform\<close> drops the flag when it
  rebuilds one.)
\<close>

theorem transform_bottom_up:
  assumes "rwDepth c \<le> maxTraversalDepth" "noDict c"
  shows "Transform f c = bottomUp (applied f) c \<and> TransformMut (applied f) c = bottomUp (applied f) c"
  using rec_bottomUp [of c 0 f] mut_bottomUp [of c 0 "applied f"] assms by (simp add: Transform_def TransformMut_def)

text \<open>The indices of a term forgotten.\<close>

definition forgetIndices :: "tm \<Rightarrow> tm" where
  "forgetIndices = bottomUp (\<lambda>n. case n of Var x m i \<Rightarrow> Var x m (- 1) | _ \<Rightarrow> n)"

lemma applied_cloneNode: "applied cloneNode = (\<lambda>n. case n of Var x m i \<Rightarrow> Var x m (- 1) | _ \<Rightarrow> n)"
  by (auto simp: applied_def cloneNode_def fun_eq_iff split: core.splits)

lemma forgetIndices_node: "forgetIndices c = (case c of Var x m i \<Rightarrow> Var x m (- 1) | _ \<Rightarrow> mapKids forgetIndices c)"
  unfolding forgetIndices_def by (subst bottomUp.simps, cases c) simp_all

text \<open>
  \<^verbatim>\<open>Clone\<close> returns the term with every variable index reset to unassigned and everything else as it was.
\<close>

theorem clone_correct:
  assumes "rwDepth c \<le> maxTraversalDepth" "noDict c"
  shows "Clone c = forgetIndices c"
  using rec_bottomUp [of c 0 cloneNode] assms by (simp add: Clone_def Transform_def forgetIndices_def applied_cloneNode)

lemma bindBody_shape: "rwDepth BindBody \<le> maxTraversalDepth" "noDict BindBody"
  by (simp_all add: BindBody_def localVar_def rwDepth.simps [of "Lam _ _ _ _ _"] rwDepth.simps [of "App _ _"] rwDepth.simps [of "Var _ _ _"]
      noDict_def preorder.simps [of "Lam _ _ _ _ _"] preorder.simps [of "App _ _"] preorder.simps [of "Var _ _ _"])

lemma bindBody_cloned:
  "forgetIndices BindBody = Lam () ''_comp'' None (Lam () ''_f'' None (App (Var ''_f'' [] (- 1)) (Var ''_comp'' [] (- 1))) UserWritten) UserWritten"
  by (simp add: BindBody_def localVar_def forgetIndices_node)

theorem transform_bottom_up_witness:
  "Transform cloneNode BindBody = forgetIndices BindBody \<and> TransformMut (applied cloneNode) BindBody = forgetIndices BindBody"
  using transform_bottom_up [OF bindBody_shape, of cloneNode] by (simp add: forgetIndices_def applied_cloneNode)

theorem clone_correct_witness:
  "Clone BindBody =
     Lam () ''_comp'' None (Lam () ''_f'' None (App (Var ''_f'' [] (- 1)) (Var ''_comp'' [] (- 1))) UserWritten) UserWritten"
  using clone_correct [OF bindBody_shape] by (simp add: bindBody_cloned)

text \<open>A cloned dictionary constructor loses its flag.\<close>

lemma clone_drops_dict: "Clone (Con ''EqDict'' [] [localVar ''eq''] True) = Con ''EqDict'' [] [Var ''eq'' [] (- 1)] False"
  by (simp add: Clone_def Transform_def rec_node transformSlice_def rebuilt_def cloneNode_def localVar_def)

end
