(* ===== verification/Core_Verify.thy ===== *)
theory Core_Verify
  imports Core_Walk Core_Index
begin

text \<open>
  The structural checks of Core programs, \<^verbatim>\<open>internal/lang/ir/verify.go\<close>. A violation is the node with the kind of message. \<^verbatim>\<open>VerifyAnnotations\<close> iterates over Go
  maps, whose order is not defined; the model lists its findings in the order of the term.
\<close>

section \<open>Structural invariants\<close>

datatype verifyMsg =
    ErrorNode | BindOfThunk | BindOfLam | GeneratedForceArg | FixBodyShape | LabelTyAppSurvived string | DoubleForce | DoubleThunk
  | SlotMissing | SlotMismatch | LeftMismatch | RightMismatch

type_synonym 'a verifyError = "'a core \<times> verifyMsg"

definition verifyBind :: "'a core \<Rightarrow> 'a core \<Rightarrow> genKind \<Rightarrow> 'a verifyError list \<Rightarrow> 'a verifyError list" where
  "verifyBind b cmp generated errs =
     (let errs = (case cmp of Thunk s e \<Rightarrow> errs @ [(b, BindOfThunk)] | Lam s x t e g \<Rightarrow> errs @ [(b, BindOfLam)] | _ \<Rightarrow> errs)
      in if \<not> IsGenerated generated then errs
         else case cmp of
           Force e \<Rightarrow> (case e of Var n m i \<Rightarrow> errs | _ \<Rightarrow> errs @ [(b, GeneratedForceArg)])
         | _ \<Rightarrow> errs)"

definition verifyFix :: "'a core \<Rightarrow> 'a core \<Rightarrow> 'a verifyError list \<Rightarrow> 'a verifyError list" where
  "verifyFix f body errs =
     (case PeelTyLam body of Lam s x t e g \<Rightarrow> errs | Thunk s e \<Rightarrow> errs | _ \<Rightarrow> errs @ [(f, FixBodyShape)])"

definition verifyTyApp :: "'a core \<Rightarrow> ty \<Rightarrow> 'a verifyError list \<Rightarrow> 'a verifyError list" where
  "verifyTyApp ta arg errs =
     (case arg of TyCon n l isLabel \<Rightarrow> if isLabel then errs @ [(ta, LabelTyAppSurvived n)] else errs | _ \<Rightarrow> errs)"

definition verifyForce :: "'a core \<Rightarrow> 'a core \<Rightarrow> 'a verifyError list \<Rightarrow> 'a verifyError list" where
  "verifyForce f e errs = (case e of Force e' \<Rightarrow> errs @ [(f, DoubleForce)] | _ \<Rightarrow> errs)"

definition verifyThunk :: "'a core \<Rightarrow> 'a core \<Rightarrow> 'a verifyError list \<Rightarrow> 'a verifyError list" where
  "verifyThunk th e errs = (case e of Thunk s e' \<Rightarrow> errs @ [(th, DoubleThunk)] | _ \<Rightarrow> errs)"

definition verifyNode :: "('a, 'a verifyError list) visitor" where
  "verifyNode n errs =
     (True,
      case n of
        CoreError \<Rightarrow> errs @ [(n, ErrorNode)]
      | Bind cmp x b disc g \<Rightarrow> verifyBind n cmp g errs
      | Force e \<Rightarrow> verifyForce n e errs
      | Thunk s e \<Rightarrow> verifyThunk n e errs
      | Fix x b \<Rightarrow> verifyFix n b errs
      | TyApp e t \<Rightarrow> verifyTyApp n t errs
      | _ \<Rightarrow> errs)"

definition verifyCore :: "'a core \<Rightarrow> 'a verifyError list \<Rightarrow> 'a verifyError list" where
  "verifyCore c errs = snd (Walk verifyNode c errs)"

definition VerifyProgram :: "'a binding list \<Rightarrow> 'a verifyError list" where
  "VerifyProgram bs = foldl (\<lambda>errs (n, e). verifyCore e errs) [] bs"

text \<open>The invariants, stated on their own.\<close>

fun nodeOK :: "'a core \<Rightarrow> bool" where
  "nodeOK CoreError \<longleftrightarrow> False"
| "nodeOK (Bind cmp x b disc g) \<longleftrightarrow>
     (\<forall>s e. cmp \<noteq> Thunk s e) \<and> (\<forall>s y t e h. cmp \<noteq> Lam s y t e h) \<and>
     (g \<noteq> UserWritten \<longrightarrow> (\<forall>e. cmp = Force e \<longrightarrow> (\<exists>n m i. e = Var n m i)))"
| "nodeOK (Force e) \<longleftrightarrow> (\<forall>e'. e \<noteq> Force e')"
| "nodeOK (Thunk s e) \<longleftrightarrow> (\<forall>s' e'. e \<noteq> Thunk s' e')"
| "nodeOK (Fix x b) \<longleftrightarrow> (\<exists>s y t e g. PeelTyLam b = Lam s y t e g) \<or> (\<exists>s e. PeelTyLam b = Thunk s e)"
| "nodeOK (TyApp e t) \<longleftrightarrow> (\<forall>n l. t \<noteq> TyCon n l True)"
| "nodeOK c \<longleftrightarrow> True"

lemma verifyNode_grows: "\<exists>new. snd (verifyNode n errs) = errs @ new \<and> (new = [] \<longleftrightarrow> nodeOK n)"
  by (cases n) (auto simp: verifyNode_def verifyBind_def verifyFix_def verifyTyApp_def verifyForce_def verifyThunk_def
      IsGenerated_def Let_def split: core.splits ty.splits)

lemma verify_stepped:
  "\<exists>new. stepped verifyNode ns errs = errs @ new \<and> (new = [] \<longleftrightarrow> (\<forall>n \<in> set ns. nodeOK n))"
proof (induction ns arbitrary: errs)
  case (Cons n ns)
  obtain a where a: "snd (verifyNode n errs) = errs @ a" "a = [] \<longleftrightarrow> nodeOK n" using verifyNode_grows by blast
  obtain b where "stepped verifyNode ns (errs @ a) = (errs @ a) @ b" "b = [] \<longleftrightarrow> (\<forall>n \<in> set ns. nodeOK n)" using Cons.IH by blast
  then show ?case using a by (auto intro!: exI [of _ "a @ b"])
qed simp

text \<open>
  C25: On programs within the traversal limit \<^verbatim>\<open>VerifyProgram\<close> decides the Core invariants: it reports nothing
  exactly when no binding contains an error node, a bind of a thunk or abstraction, a generated
  bind that forces something other than a variable, a double force or thunk, a fixpoint over something else than a function or
  thunk, or a label type application.
\<close>

theorem verify_decides:
  assumes "\<forall>(n, e) \<in> set bs. irDepth e \<le> maxTraversalDepth"
  shows "VerifyProgram bs = [] \<longleftrightarrow> (\<forall>(n, e) \<in> set bs. \<forall>k \<in> set (preorder e). nodeOK k)"
proof -
  have settled: "settled verifyNode" by (simp add: settled_def verifyNode_def)
  have "\<exists>new. foldl (\<lambda>errs (n, e). verifyCore e errs) errs bs = errs @ new \<and>
      (new = [] \<longleftrightarrow> (\<forall>(n, e) \<in> set bs. \<forall>k \<in> set (preorder e). nodeOK k))" for errs
    using assms
  proof (induction bs arbitrary: errs)
    case (Cons b bs)
    obtain n e where b: "b = (n, e)" by fastforce
    have "verifyCore e errs = stepped verifyNode (preorder e) errs"
      using walk_all(1) [OF settled, of e 0 errs] Cons.prems b by (simp add: verifyCore_def Walk_def)
    then obtain new where new: "verifyCore e errs = errs @ new" "new = [] \<longleftrightarrow> (\<forall>k \<in> set (preorder e). nodeOK k)"
      using verify_stepped by metis
    have "\<forall>(n, e) \<in> set bs. irDepth e \<le> maxTraversalDepth" using Cons.prems by simp
    from Cons.IH [OF this] obtain rest where "foldl (\<lambda>errs (n, e). verifyCore e errs) (errs @ new) bs = (errs @ new) @ rest"
      "rest = [] \<longleftrightarrow> (\<forall>(n, e) \<in> set bs. \<forall>k \<in> set (preorder e). nodeOK k)"
      by blast
    then show ?case using b new by (auto intro!: exI [of _ "new @ rest"])
  qed simp
  from this [of "[]"] show ?thesis by (simp add: VerifyProgram_def)
qed

theorem verify_decides_witness:
  "VerifyProgram [(''bind'', BindBody), (''rec'', recBody)] = [] \<and> VerifyProgram [(''bad'', Force (Force (localVar ''x'')))] \<noteq> ([] :: unit verifyError list)"
proof
  show "VerifyProgram [(''bind'', BindBody), (''rec'', recBody)] = []"
    using verify_decides [of "[(''bind'', BindBody), (''rec'', recBody)]"]
    by (simp add: BindBody_def recBody_def localVar_def preorder.simps [of "Lam _ _ _ _ _"] preorder.simps [of "App _ _"]
        preorder.simps [of "Var _ _ _"] preorder.simps [of "Force _"] preorder.simps [of "Fix _ _"] preorder.simps [of "Thunk _ _"])
  show "VerifyProgram [(''bad'', Force (Force (localVar ''x'')))] \<noteq> ([] :: unit verifyError list)"
    using verify_decides [of "[(''bad'', Force (Force (localVar ''x'')) :: unit core)]"]
    by (simp add: localVar_def preorder.simps [of "Force _"])
qed

section \<open>Annotations\<close>

text \<open>The traversal does not look at what the slots hold.\<close>

lemma traverse_map:
  "traverseFV (map_core f c) d = traverseFV c d \<and> traverseFVLeftSpine (map_core f c) d = traverseFVLeftSpine c d"
proof (induction c arbitrary: d rule: core_induct)
  case (node c)
  have kid: "traverseFV (map_core f k) d = traverseFV k d" "traverseFVLeftSpine (map_core f k) d = traverseFVLeftSpine k d"
    if "k \<in> set (kids c)" for k d using node that by auto
  have left: "traverseFVLeftSpine (map_core f c) d = traverseFVLeftSpine c d" if "spineNode c" for d
    using that kid by (cases c) auto
  have main: "traverseFV (map_core f c) d = traverseFV c d" for d
  proof (cases "d > maxTraversalDepth")
    case True
    then show ?thesis by (simp add: traverseFV.simps [of c] traverseFV.simps [of "map_core f c"] unvisited_def core.map_comp comp_def)
  next
    case ok: False
    show ?thesis
    proof (cases c)
      case (App g a)
      then show ?thesis using left ok by (simp add: traverse_node del: traverseFVLeftSpine.simps)
    next
      case (Case e alts)
      have "traverseFV (map_core f b) d = traverseFV b d" if "(p, b, g) \<in> set alts" for p b g d
        using kid(1) [of b] alt_kid [OF that] Case by simp
      then show ?thesis using Case ok kid(1) [of e]
        by (auto simp: traverse_node case_prod_unfold comp_def Let_def intro!: arg_cong2 [where f = mergeAll])
    next
      case (RecordLit fs)
      have "traverseFV (map_core f e) d = traverseFV e d" if "(l, e) \<in> set fs" for l e d
        using kid(1) [of e] field_kid [OF that] RecordLit by simp
      then show ?thesis using RecordLit ok by (auto simp: traverse_node case_prod_unfold comp_def Let_def intro!: arg_cong2 [where f = mergeAll])
    next
      case (RecordUpdate r fs)
      have "traverseFV (map_core f e) d = traverseFV e d" if "(l, e) \<in> set fs" for l e d
        using kid(1) [of e] field_kid [OF that] RecordUpdate by simp
      then show ?thesis using RecordUpdate ok kid(1) [of r]
        by (auto simp: traverse_node case_prod_unfold comp_def Let_def intro!: arg_cong2 [where f = mergeAll])
    qed (use ok kid in \<open>auto simp: traverse_node case_prod_unfold Let_def comp_def cong: map_cong\<close>)
  qed
  show ?case
  proof (cases "spineNode c")
    case False
    then have "traverseFVLeftSpine c d = traverseFV c (d + 1)" "traverseFVLeftSpine (map_core f c) d = traverseFV (map_core f c) (d + 1)"
      by (cases c; simp)+
    then show ?thesis using main by simp
  qed (use main left in blast)
qed

definition sliceEqual :: "string list \<Rightarrow> string list \<Rightarrow> bool" where
  "sliceEqual a b \<longleftrightarrow> length a = length b \<and> list_all2 (=) a b"

definition checkEntry :: "verifyMsg \<Rightarrow> fvInfo \<Rightarrow> fvInfo \<Rightarrow> verifyMsg list" where
  "checkEntry msg stored got =
     (if fvi_overflow stored \<or> fvi_overflow got then [] else if sliceEqual (fvi_vars stored) (fvi_vars got) then [] else [msg])"

text \<open>The entry of a node in the recomputed table against the stored one; nodes the traversal did not reach have no entry.\<close>

fun slotsOf :: "'a core \<Rightarrow> 'a list" where
  "slotsOf (Lam s _ _ _ _) = [s]"
| "slotsOf (Thunk s _) = [s]"
| "slotsOf (Merge sl sr _ _ _ _) = [sl, sr]"
| "slotsOf _ = []"

definition checkNode :: "annotated \<Rightarrow> annotated \<Rightarrow> verifyMsg list" where
  "checkNode got stored =
     (case slotsOf got of
        [Some g] \<Rightarrow> (case slotsOf stored of [Some i] \<Rightarrow> checkEntry SlotMismatch i g | _ \<Rightarrow> [SlotMissing])
      | [Some gl, Some gr] \<Rightarrow>
          (case slotsOf stored of
             [Some l, Some r] \<Rightarrow> checkEntry LeftMismatch l gl @ checkEntry RightMismatch r gr
           | _ \<Rightarrow> [SlotMissing])
      | _ \<Rightarrow> [])"

definition verifyAnnotationsCore :: "annotated \<Rightarrow> fvInfo option verifyError list \<Rightarrow> fvInfo option verifyError list" where
  "verifyAnnotationsCore c errs =
     errs @ concat (map (\<lambda>(got, stored). map (Pair stored) (checkNode got stored))
       (zip (preorder (snd (traverseFV c 0))) (preorder c)))"

definition VerifyAnnotations :: "(string \<times> annotated) list \<Rightarrow> fvInfo option verifyError list" where
  "VerifyAnnotations bs = foldl (\<lambda>errs (n, e). verifyAnnotationsCore e errs) [] bs"

lemma checkNode_same: "checkNode n n = []"
  by (simp add: checkNode_def checkEntry_def sliceEqual_def list.rel_refl split: list.splits option.splits)

lemma traverse_again: "snd (traverseFV (AnnotateFreeVars c) 0) = AnnotateFreeVars c"
proof -
  have "traverseFV (erase (AnnotateFreeVars c)) 0 = traverseFV (AnnotateFreeVars c) 0" "traverseFV (erase c) 0 = traverseFV c 0"
    using traverse_map by blast+
  then show ?thesis using traverse_shape [of c 0] by (simp add: AnnotateFreeVars_def)
qed

lemma verifyAnnotations_id: "verifyAnnotationsCore (AnnotateFreeVars c) errs = errs"
proof -
  have "concat (map (\<lambda>(got, stored). map (Pair stored) (checkNode got stored)) (zip ns ns)) = []" for ns
    by (induction ns) (auto simp: checkNode_same)
  then show ?thesis by (simp add: verifyAnnotationsCore_def traverse_again)
qed


end
