(* ===== verification/Core_Labels.thy ===== *)
theory Core_Labels
  imports Core_Verify
begin

text \<open>
  Label erasure, \<^verbatim>\<open>internal/lang/ir/label_erase.go\<close>: label type arguments become string literals, and abstractions over labels that
  are used become functions. The set of label variables in scope is one Go map that the recursion shares and mutates, so
  it is threaded through the traversal in evaluation order.
\<close>

section \<open>The pass\<close>

definition labelVarVisitor :: "string \<Rightarrow> ('a, bool) visitor" where
  "labelVarVisitor name n found =
     (if found then (False, True)
      else case n of
        TyApp e t \<Rightarrow> (case t of TyVar v \<Rightarrow> if v = name then (False, True) else (True, False) | _ \<Rightarrow> (True, False))
      | _ \<Rightarrow> (True, False))"

definition bodyHasLabelTyVar :: "'a core \<Rightarrow> string \<Rightarrow> bool" where
  "bodyHasLabelTyVar c name = snd (Walk (labelVarVisitor name) c False)"

definition isLabelKind :: "ty \<Rightarrow> bool" where "isLabelKind k = equalsTyCon k ''Label'' (Some L1)"

definition labelLit :: "string \<Rightarrow> unit core" where "labelLit n = Lit (LitString (''#'' @ n))"

function (sequential) eraseLabelRec :: "unit core \<Rightarrow> string set \<Rightarrow> unit core \<times> string set"
  and eraseAlts :: "(pat \<times> unit core \<times> genKind) list \<Rightarrow> string set \<Rightarrow> (pat \<times> unit core \<times> genKind) list \<times> string set"
  and eraseFields :: "(string \<times> unit core) list \<Rightarrow> string set \<Rightarrow> (string \<times> unit core) list \<times> string set" where
  "eraseLabelRec (TyLam x k b) L =
     (if isLabelKind k \<and> bodyHasLabelTyVar b x
      then (case eraseLabelRec b (insert x L) of (b', L') \<Rightarrow> (Lam () x None b' UserWritten, L' - {x}))
      else (case eraseLabelRec b L of (b', L') \<Rightarrow> (TyLam x k b', L')))"
| "eraseLabelRec (TyApp e t) L =
     (case eraseLabelRec e L of (e', L') \<Rightarrow>
        (case t of
           TyCon n l isLabel \<Rightarrow> if IsKindLevel l \<and> isLabel then App e' (labelLit n) else TyApp e' t
         | TyVar v \<Rightarrow> if v \<in> L' then App e' (localVar v) else TyApp e' t
         | _ \<Rightarrow> TyApp e' t,
         L'))"
| "eraseLabelRec (Lam s x t b g) L = (case eraseLabelRec b L of (b', L') \<Rightarrow> (Lam s x t b' g, L'))"
| "eraseLabelRec (App f a) L =
     (case eraseLabelRec f L of (f', La) \<Rightarrow> case eraseLabelRec a La of (a', Lb) \<Rightarrow> (App f' a', Lb))"
| "eraseLabelRec (Case e alts) L =
     (case eraseLabelRec e L of (e', La) \<Rightarrow> case eraseAlts alts La of (alts', Lb) \<Rightarrow> (Case e' alts', Lb))"
| "eraseLabelRec (Bind e x b disc g) L =
     (case eraseLabelRec e L of (e', La) \<Rightarrow> case eraseLabelRec b La of (b', Lb) \<Rightarrow> (Bind e' x b' disc g, Lb))"
| "eraseLabelRec (Pure e) L = (case eraseLabelRec e L of (e', L') \<Rightarrow> (Pure e', L'))"
| "eraseLabelRec (Thunk s e) L = (case eraseLabelRec e L of (e', L') \<Rightarrow> (Thunk s e', L'))"
| "eraseLabelRec (Force e) L = (case eraseLabelRec e L of (e', L') \<Rightarrow> (Force e', L'))"
| "eraseLabelRec (Merge s1 s2 l r ls rs) L =
     (case eraseLabelRec l L of (l', La) \<Rightarrow> case eraseLabelRec r La of (r', Lb) \<Rightarrow> (Merge s1 s2 l' r' ls rs, Lb))"
| "eraseLabelRec (Fix x b) L = (case eraseLabelRec b L of (b', L') \<Rightarrow> (Fix x b', L'))"
| "eraseLabelRec (RecordLit fs) L = (case eraseFields fs L of (fs', L') \<Rightarrow> (RecordLit fs', L'))"
| "eraseLabelRec (RecordProj e l) L = (case eraseLabelRec e L of (e', L') \<Rightarrow> (RecordProj e' l, L'))"
| "eraseLabelRec (RecordUpdate e fs) L =
     (case eraseLabelRec e L of (e', La) \<Rightarrow> case eraseFields fs La of (fs', Lb) \<Rightarrow> (RecordUpdate e' fs', Lb))"
| "eraseLabelRec c L = (c, L)"
| "eraseAlts [] L = ([], L)"
| "eraseAlts ((p, b, g) # alts) L =
     (case eraseLabelRec b L of (b', La) \<Rightarrow> case eraseAlts alts La of (alts', Lb) \<Rightarrow> ((p, b', g) # alts', Lb))"
| "eraseFields [] L = ([], L)"
| "eraseFields ((l, e) # fs) L =
     (case eraseLabelRec e L of (e', La) \<Rightarrow> case eraseFields fs La of (fs', Lb) \<Rightarrow> ((l, e') # fs', Lb))"
  by pat_completeness auto
termination
  by (relation "measure (\<lambda>x. case x of Inl (c, L) \<Rightarrow> size c
      | Inr (Inl (alts, L)) \<Rightarrow> size_list (size_prod (\<lambda>_. 0) (size_prod size (\<lambda>_. 0))) alts
      | Inr (Inr (fs, L)) \<Rightarrow> size_list (size_prod (\<lambda>_. 0) size) fs)") auto

definition EraseLabelArgs :: "unit core \<Rightarrow> unit core" where "EraseLabelArgs c = fst (eraseLabelRec c {})"

definition EraseLabelArgsProgram :: "unit binding list \<Rightarrow> unit binding list" where
  "EraseLabelArgsProgram bs = map (\<lambda>(n, e). (n, EraseLabelArgs e)) bs"

section \<open>Laws\<close>

lemma labelVar_settled: "settled (labelVarVisitor name)"
  by (auto simp: settled_def labelVarVisitor_def split: core.splits ty.splits if_splits)

text \<open>Whether a label variable is used is decided exactly, within the traversal limit.\<close>

lemma bodyHasLabelTyVar_iff:
  fixes c :: "'a core"
  assumes "irDepth c \<le> maxTraversalDepth"
  shows "bodyHasLabelTyVar c name \<longleftrightarrow> (\<exists>e. TyApp e (TyVar name) \<in> set (preorder c))"
proof -
  have step: "snd (labelVarVisitor name n found) \<longleftrightarrow> found \<or> (\<exists>e. n = TyApp e (TyVar name))" for n :: "'a core" and found
    by (auto simp: labelVarVisitor_def split: core.splits ty.splits)
  have "stepped (labelVarVisitor name) ns found \<longleftrightarrow> found \<or> (\<exists>e. TyApp e (TyVar name) \<in> set ns)" for ns :: "'a core list" and found
    by (induction ns arbitrary: found) (auto simp: step)
  then show ?thesis using walk_all(1) [OF labelVar_settled, of c 0 name False] assms by (simp add: bodyHasLabelTyVar_def Walk_def)
qed

lemmas erase_induct = eraseLabelRec_eraseAlts_eraseFields.induct [simplified prod_eq_iff fst_conv snd_conv, simplified]

lemma erase_label_scope:
  "snd (eraseLabelRec c L) \<subseteq> L" "snd (eraseAlts alts L) \<subseteq> L" "snd (eraseFields fs L) \<subseteq> L"
  by (induction c L and alts L and fs L rule: erase_induct) (auto simp: case_prod_unfold)

lemma erase_scope_keys:
  "A \<subseteq> B \<union> LocalKey ` snd (eraseLabelRec c L) \<Longrightarrow> A \<subseteq> B \<union> LocalKey ` L"
  using erase_label_scope(1) [of c L] by blast

lemma un_keys: "A \<subseteq> B \<union> K \<Longrightarrow> A' \<subseteq> B' \<union> K \<Longrightarrow> A \<union> A' \<subseteq> B \<union> B' \<union> K"
  by blast

lemma erase_label_free:
  "freeBy pb (fst (eraseLabelRec c L)) \<subseteq> freeBy pb c \<union> LocalKey ` L"
  "(\<Union>(p, b, g) \<in> set (fst (eraseAlts alts L)). freeBy pb b - LocalKey ` set (pb p)) \<subseteq>
     (\<Union>(p, b, g) \<in> set alts. freeBy pb b - LocalKey ` set (pb p)) \<union> LocalKey ` L"
  "(\<Union>(l, e) \<in> set (fst (eraseFields fs L)). freeBy pb e) \<subseteq> (\<Union>(l, e) \<in> set fs. freeBy pb e) \<union> LocalKey ` L"
proof (induction c L and alts L and fs L rule: erase_induct)
  case (1 x k b L)
  then show ?case by (simp add: case_prod_unfold) blast
next
  case (2 e t L)
  have "LocalKey ` snd (eraseLabelRec e L) \<subseteq> LocalKey ` L" using erase_label_scope(1) by (rule image_mono)
  then show ?case using 2 by (auto simp: case_prod_unfold labelLit_def localVar_def LocalKey_def split: ty.splits)
next
  case (4 f a L)
  then show ?case using un_keys [OF 4(1) erase_scope_keys [OF 4(2)]] by (simp add: case_prod_unfold)
next
  case (5 e alts L)
  then show ?case using un_keys [OF 5(1) erase_scope_keys [OF 5(2)]] by (simp add: case_prod_unfold)
next
  case (6 e x b disc g L)
  then show ?case using erase_scope_keys [OF 6(2)] by (simp add: case_prod_unfold) blast
next
  case (10 l r ls rs L)
  then show ?case using un_keys [OF 10(1) erase_scope_keys [OF 10(2)]] by (simp add: case_prod_unfold)
next
  case (14 e fs L)
  then show ?case using un_keys [OF 14(1) erase_scope_keys [OF 14(2)]] by (simp add: case_prod_unfold)
next
  case (22 p b g alts L)
  have "freeBy pb (fst (eraseLabelRec b L)) - LocalKey ` set (pb p) \<subseteq> (freeBy pb b - LocalKey ` set (pb p)) \<union> LocalKey ` L"
    using 22(1) by blast
  then show ?case using un_keys [OF _ erase_scope_keys [OF 22(2)]] by (simp add: case_prod_unfold)
next
  case (24 l e fs L)
  then show ?case using un_keys [OF 24(1) erase_scope_keys [OF 24(2)]] by (simp add: case_prod_unfold)
qed (simp_all add: case_prod_unfold, blast+)

text \<open>The nodes that erasure is to remove, and the terms it can remove them from: it does not enter constructor applications,
  primitive operations and variant literals.\<close>

fun labelApp :: "'a core \<Rightarrow> bool" where
  "labelApp (TyApp e t) \<longleftrightarrow> (case t of TyCon n l isLabel \<Rightarrow> isLabel | _ \<Rightarrow> False)"
| "labelApp c \<longleftrightarrow> False"

definition noLabelApp :: "'a core \<Rightarrow> bool" where "noLabelApp c \<longleftrightarrow> list_all (\<lambda>n. \<not> labelApp n) (preorder c)"

fun erasableNode :: "'a core \<Rightarrow> bool" where
  "erasableNode (TyApp e t) \<longleftrightarrow> (case t of TyCon n l isLabel \<Rightarrow> isLabel \<longrightarrow> IsKindLevel l | _ \<Rightarrow> True)"
| "erasableNode (Con n m args dict) \<longleftrightarrow> list_all noLabelApp args"
| "erasableNode (PrimOp n k eff args) \<longleftrightarrow> list_all noLabelApp args"
| "erasableNode (VariantLit t e) \<longleftrightarrow> noLabelApp e"
| "erasableNode c \<longleftrightarrow> True"

definition erasable :: "'a core \<Rightarrow> bool" where "erasable c \<longleftrightarrow> list_all erasableNode (preorder c)"

lemma noLabelApp_node: "noLabelApp c \<longleftrightarrow> \<not> labelApp c \<and> list_all noLabelApp (kids c)"
  by (subst noLabelApp_def, subst preorder.simps) (simp add: list_all_iff noLabelApp_def)

lemma erasable_node: "erasable c \<longleftrightarrow> erasableNode c \<and> list_all erasable (kids c)"
  by (subst erasable_def, subst preorder.simps) (simp add: list_all_iff erasable_def)

lemma erase_removes:
  "erasable c \<Longrightarrow> noLabelApp (fst (eraseLabelRec c L))"
  "list_all (\<lambda>(p, b, g). erasable b) alts \<Longrightarrow> list_all (\<lambda>(p, b, g). noLabelApp b) (fst (eraseAlts alts L))"
  "list_all (\<lambda>(l, e). erasable e) fs \<Longrightarrow> list_all (\<lambda>(l, e). noLabelApp e) (fst (eraseFields fs L))"
proof (induction c L and alts L and fs L rule: erase_induct)
  case (2 e t L)
  have e: "noLabelApp (fst (eraseLabelRec e L))" using 2 erasable_node [of "TyApp e t"] by simp
  have "noLabelApp (labelLit n)" "noLabelApp (localVar n)" for n
    by (simp_all add: noLabelApp_node [of "Lit _"] noLabelApp_node [of "Var _ _ _"] labelLit_def localVar_def)
  then show ?case using e 2(2) erasable_node [of "TyApp e t"]
    by (auto simp: case_prod_unfold noLabelApp_node [of "TyApp _ _"] noLabelApp_node [of "App _ _"] split: ty.splits)
next
  case (5 e alts L)
  then show ?case using erasable_node [of "Case e alts"]
    by (auto simp: case_prod_unfold noLabelApp_node [of "Case _ _"] list_all_iff)
next
  case (12 fs L)
  then show ?case using erasable_node [of "RecordLit fs"]
    by (auto simp: case_prod_unfold noLabelApp_node [of "RecordLit _"] list_all_iff)
next
  case (14 e fs L)
  then show ?case using erasable_node [of "RecordUpdate e fs"]
    by (auto simp: case_prod_unfold noLabelApp_node [of "RecordUpdate _ _"] list_all_iff)
qed (auto simp: case_prod_unfold noLabelApp_node [of "TyLam _ _ _"] noLabelApp_node [of "Lam _ _ _ _ _"] noLabelApp_node [of "App _ _"]
    noLabelApp_node [of "Bind _ _ _ _ _"] noLabelApp_node [of "Pure _"] noLabelApp_node [of "Thunk _ _"] noLabelApp_node [of "Force _"]
    noLabelApp_node [of "Merge _ _ _ _ _ _"] noLabelApp_node [of "Fix _ _"] noLabelApp_node [of "RecordProj _ _"]
    noLabelApp_node [of "Var _ _ _"] noLabelApp_node [of "Con _ _ _ _"] noLabelApp_node [of "PrimOp _ _ _ _"] noLabelApp_node [of "Lit _"]
    noLabelApp_node [of "VariantLit _ _"] noLabelApp_node [of "CoreError"] comp_def
    erasable_node [of "TyLam _ _ _"] erasable_node [of "Lam _ _ _ _ _"] erasable_node [of "App _ _"] erasable_node [of "Bind _ _ _ _ _"]
    erasable_node [of "Pure _"] erasable_node [of "Thunk _ _"] erasable_node [of "Force _"] erasable_node [of "Merge _ _ _ _ _ _"]
    erasable_node [of "Fix _ _"] erasable_node [of "RecordProj _ _"] erasable_node [of "Con _ _ _ _"] erasable_node [of "PrimOp _ _ _ _"]
    erasable_node [of "VariantLit _ _"])

section \<open>Properties\<close>


definition labelDemo :: "unit core" where
  "labelDemo = TyLam ''l'' TypeOfLabels (TyApp (TyApp (localVar ''getAt'') (TyVar ''l'')) (TyCon ''x'' (Some L1) True))"


text \<open>A label application inside a constructor application survives.\<close>

lemma label_survives_in_constructor:
  "EraseLabelArgs (Con ''Box'' [] [TyApp (localVar ''getAt'') (TyCon ''x'' (Some L1) True)] False) =
     Con ''Box'' [] [TyApp (localVar ''getAt'') (TyCon ''x'' (Some L1) True)] False"
  by (simp add: EraseLabelArgs_def)

end
