(* ===== verification/Core_Deps.thy ===== *)
theory Core_Deps
  imports Core_Free_Laws "HOL-Library.Multiset"
begin

text \<open>
  Ordering top-level bindings by their dependencies, \<^verbatim>\<open>internal/lang/ir/deps.go\<close>: Kahn's algorithm with a queue seeded in source order,
  and the members of cycles appended in source order. The sets of dependency indices are lists without
  repetition; the code iterates over them only to count them and to append to different reverse lists, so their order
  does not matter. The queue loop is a partial function: that it ends is a theorem.
\<close>

section \<open>The algorithm\<close>

text \<open>The index of a name; the last binding of a name wins.\<close>

definition nameIdx :: "'a binding list \<Rightarrow> string \<Rightarrow> nat option" where
  "nameIdx bs = map_of (rev (zip (map fst bs) [0..<length bs]))"

definition depsOf :: "'a binding list \<Rightarrow> nat \<Rightarrow> nat list" where
  "depsOf bs i =
     remdups (List.map_filter (\<lambda>key. case nameIdx bs (snd key) of Some j \<Rightarrow> if j \<noteq> i then Some j else None | None \<Rightarrow> None)
       (fst (FreeVars (snd (bs ! i)))))"

text \<open>For dependencies given as a function on the indices below \<open>n\<close>.\<close>

definition rdepsOf :: "(nat \<Rightarrow> nat list) \<Rightarrow> nat \<Rightarrow> nat \<Rightarrow> nat list" where
  "rdepsOf deps n j = filter (\<lambda>i. j \<in> set (deps i)) [0..<n]"

fun relax :: "nat list \<Rightarrow> int list \<Rightarrow> nat list \<Rightarrow> int list \<times> nat list" where
  "relax [] inDeg queue = (inDeg, queue)"
| "relax (j # js) inDeg queue =
     (let inDeg' = inDeg[j := inDeg ! j - 1]
      in relax js inDeg' (if inDeg' ! j = 0 then queue @ [j] else queue))"

partial_function (option) kahn :: "(nat \<Rightarrow> nat list) \<Rightarrow> int list \<Rightarrow> nat list \<Rightarrow> nat list \<Rightarrow> nat list option" where
  "kahn rdeps inDeg queue emitted =
     (case queue of
        [] \<Rightarrow> Some emitted
      | idx # queue' \<Rightarrow>
          (case relax (rdeps idx) inDeg queue' of (inDeg', queue'') \<Rightarrow> kahn rdeps inDeg' queue'' (emitted @ [idx])))"

definition sortIndices :: "(nat \<Rightarrow> nat list) \<Rightarrow> nat \<Rightarrow> nat list option" where
  "sortIndices deps n =
     (let inDeg = map (\<lambda>i. int (length (deps i))) [0..<n];
          queue = filter (\<lambda>i. inDeg ! i = 0) [0..<n]
      in map_option (\<lambda>emitted. emitted @ filter (\<lambda>i. i \<notin> set emitted) [0..<n]) (kahn (rdepsOf deps n) inDeg queue []))"

definition SortBindings :: "'a binding list \<Rightarrow> 'a binding list option" where
  "SortBindings bs =
     (if length bs \<le> 1 then Some bs
      else map_option (map (nth bs)) (sortIndices (depsOf bs) (length bs)))"

section \<open>The queue loop\<close>

lemma relax_spec:
  "distinct js \<Longrightarrow> set js \<subseteq> {..<length d} \<Longrightarrow>
   length (fst (relax js d q)) = length d \<and>
   (\<forall>i < length d. fst (relax js d q) ! i = d ! i - (if i \<in> set js then 1 else 0)) \<and>
   snd (relax js d q) = q @ filter (\<lambda>j. d ! j = 1) js"
proof (induction js arbitrary: d q)
  case (Cons j js)
  let ?d = "d[j := d ! j - 1]"
  have j: "j < length d" "j \<notin> set js" using Cons.prems by auto
  have same: "filter (\<lambda>i. ?d ! i = 1) js = filter (\<lambda>i. d ! i = 1) js"
    using j(2) by (intro filter_cong refl) (metis nth_list_update_neq)
  show ?case using Cons.IH [of ?d "if ?d ! j = 0 then q @ [j] else q"] Cons.prems j same by (auto simp: Let_def nth_list_update)
qed simp

text \<open>
  The invariant: the emitted and queued indices are those whose dependencies are all emitted, the counters count the others, and every emitted index
  comes after its dependencies.
\<close>

definition sound :: "(nat \<Rightarrow> nat list) \<Rightarrow> nat \<Rightarrow> int list \<Rightarrow> nat list \<Rightarrow> nat list \<Rightarrow> bool" where
  "sound deps n d q em \<longleftrightarrow>
     length d = n \<and> distinct (em @ q) \<and> set (em @ q) = {i. i < n \<and> set (deps i) \<subseteq> set em} \<and>
     (\<forall>i < n. d ! i = int (card (set (deps i) - set em))) \<and>
     (\<forall>k < length em. set (deps (em ! k)) \<subseteq> set (take k em))"

lemma sound_step:
  assumes s: "sound deps n d (x # q) em" and rd: "relax (rdepsOf deps n x) d q = (d', q')"
  shows "sound deps n d' q' (em @ [x])"
proof -
  let ?js = "rdepsOf deps n x"
  have js: "distinct ?js" "set ?js = {i. i < n \<and> x \<in> set (deps i)}" by (auto simp: rdepsOf_def)
  have len: "length d = n" and x: "x < n" "x \<notin> set em" "set (deps x) \<subseteq> set em"
    and dd: "\<And>i. i < n \<Longrightarrow> d ! i = int (card (set (deps i) - set em))"
    using s by (auto simp: sound_def)
  have sub: "set ?js \<subseteq> {..<length d}" using js(2) len by auto
  have rs: "length d' = n" "\<And>i. i < n \<Longrightarrow> d' ! i = d ! i - (if i \<in> set ?js then 1 else 0)" "q' = q @ filter (\<lambda>j. d ! j = 1) ?js"
    using relax_spec [OF js(1), of d q] sub len rd by simp_all
  have count: "d' ! i = int (card (set (deps i) - set (em @ [x])))" if "i < n" for i
  proof (cases "x \<in> set (deps i)")
    case True
    then have "x \<in> set (deps i) - set em" "finite (set (deps i) - set em)" using x by auto
    then have "card (set (deps i) - set em) = Suc (card (set (deps i) - set em - {x}))" by (metis card.remove)
    moreover have "set (deps i) - set em - {x} = set (deps i) - set (em @ [x])" by auto
    ultimately show ?thesis using that True rs(2) [OF that] js(2) dd [OF that] by simp
  next
    case False
    then have "set (deps i) - set (em @ [x]) = set (deps i) - set em" by auto
    then show ?thesis using that False rs(2) [OF that] js(2) dd [OF that] by simp
  qed
  have one: "d ! j = 1 \<longleftrightarrow> set (deps j) \<subseteq> set (em @ [x])" if "j \<in> set ?js" for j
  proof -
    have "d ! j = 1 \<longleftrightarrow> d' ! j = 0" using that rs(2) [of j] js(2) by auto
    then show ?thesis using count [of j] that js(2) by auto
  qed
  have new: "\<not> set (deps j) \<subseteq> set em" if "j \<in> set ?js" for j using that js(2) x(2) by auto
  have old: "set (em @ x # q) = {i. i < n \<and> set (deps i) \<subseteq> set em}" "distinct (em @ x # q)" using s by (simp_all add: sound_def)
  have "set ?js \<inter> set (em @ x # q) = {}" unfolding old(1) using new by blast
  then have "distinct ((em @ [x]) @ q')" using old(2) js(1) rs(3) by auto
  moreover have "set ((em @ [x]) @ q') = {i. i < n \<and> set (deps i) \<subseteq> set (em @ [x])}"
  proof -
    have "set ((em @ [x]) @ q') = set (em @ x # q) \<union> {j \<in> set ?js. d ! j = 1}" using rs(3) by auto
    also have "\<dots> = {i. i < n \<and> set (deps i) \<subseteq> set em} \<union> {j. j < n \<and> x \<in> set (deps j) \<and> set (deps j) \<subseteq> set (em @ [x])}"
      unfolding old(1) using one js(2) by blast
    finally show ?thesis by auto
  qed
  moreover have "set (deps ((em @ [x]) ! k)) \<subseteq> set (take k (em @ [x]))" if "k < length (em @ [x])" for k
    using that s x(3) by (cases "k = length em") (auto simp: sound_def nth_append)
  ultimately show ?thesis using rs(1) count by (simp add: sound_def)
qed

lemma kahn_sound:
  "sound deps n d q em \<Longrightarrow> \<exists>d' em'. kahn (rdepsOf deps n) d q em = Some em' \<and> sound deps n d' [] em'"
proof (induction "n - length em" arbitrary: d q em rule: less_induct)
  case less
  show ?case
  proof (cases q)
    case Nil
    then show ?thesis using less.prems by (subst kahn.simps) auto
  next
    case (Cons x q')
    obtain d' q'' where r: "relax (rdepsOf deps n x) d q' = (d', q'')" by fastforce
    have s: "sound deps n d' q'' (em @ [x])" using sound_step less.prems r Cons by blast
    have "set (em @ q) \<subseteq> {..<n}" "distinct (em @ q)" using less.prems by (auto simp: sound_def)
    then have "length (em @ q) \<le> n" by (metis card_lessThan card_mono distinct_card finite_lessThan)
    then have "n - length (em @ [x]) < n - length em" using Cons by simp
    from less.hyps [OF this s] show ?thesis using Cons r by (subst kahn.simps) auto
  qed
qed

lemma sound_start:
  assumes "\<And>i. i < n \<Longrightarrow> distinct (deps i)"
  shows "sound deps n (map (\<lambda>i. int (length (deps i))) [0..<n])
    (filter (\<lambda>i. map (\<lambda>i. int (length (deps i))) [0..<n] ! i = 0) [0..<n]) []"
  using assms by (auto simp: sound_def distinct_card)

text \<open>The resulting order: every index once, and indices whose dependencies are acyclic after them.\<close>

lemma sortIndices_spec:
  assumes "\<And>i. i < n \<Longrightarrow> distinct (deps i)" "\<And>i. i < n \<Longrightarrow> set (deps i) \<subseteq> {..<n}"
  shows "\<exists>is. sortIndices deps n = Some is \<and> mset is = mset [0..<n] \<and>
    (acyclic {(j, i). i < n \<and> j \<in> set (deps i)} \<longrightarrow> (\<forall>k < n. set (deps (is ! k)) \<subseteq> set (take k is)))"
proof -
  obtain d em where em: "kahn (rdepsOf deps n) (map (\<lambda>i. int (length (deps i))) [0..<n])
      (filter (\<lambda>i. map (\<lambda>i. int (length (deps i))) [0..<n] ! i = 0) [0..<n]) [] = Some em" "sound deps n d [] em"
    using kahn_sound [OF sound_start [of n deps, OF assms(1)]] by blast
  let ?is = "em @ filter (\<lambda>i. i \<notin> set em) [0..<n]"
  have sub: "set em = {i. i < n \<and> set (deps i) \<subseteq> set em}" "distinct em" using em(2) by (simp_all add: sound_def)
  have "distinct ?is" "set ?is = set [0..<n]" using sub by auto
  then have perm: "mset ?is = mset [0..<n]" by (metis distinct_upt set_eq_iff_mset_eq_distinct)
  have "set em = {..<n}" if ac: "acyclic {(j, i). i < n \<and> j \<in> set (deps i)}"
  proof (rule ccontr)
    let ?R = "{(j, i). i < n \<and> j \<in> set (deps i)}" and ?rest = "{..<n} - set em"
    assume "set em \<noteq> {..<n}"
    then obtain y where y: "y \<in> ?rest" using sub(1) by auto
    have "?R \<subseteq> {..<n} \<times> {..<n}" using assms(2) by auto
    then have "wf ?R" using ac finite_acyclic_wf finite_subset by blast
    from wfE_min [OF this y] obtain z where z: "z \<in> ?rest" "\<And>w. (w, z) \<in> ?R \<Longrightarrow> w \<notin> ?rest" by auto
    then have "set (deps z) \<subseteq> set em" using assms(2) [of z] by auto
    then show False using z(1) sub(1) by blast
  qed
  then have "set (deps (?is ! k)) \<subseteq> set (take k ?is)" if "acyclic {(j, i). i < n \<and> j \<in> set (deps i)}" "k < n" for k
  proof -
    have "length em = n" using that \<open>_ \<Longrightarrow> set em = {..<n}\<close> sub(2) by (metis card_lessThan distinct_card)
    then show ?thesis using em(2) that(2) by (simp add: sound_def nth_append)
  qed
  then show ?thesis using em(1) perm by (auto simp: sortIndices_def Let_def)
qed

lemma depsOf_range: "distinct (depsOf bs i)" "set (depsOf bs i) \<subseteq> {..<length bs}"
proof -
  have "j < length bs" if "nameIdx bs x = Some j" for x j
    using that by (auto simp: nameIdx_def dest!: map_of_SomeD set_zip_rightD)
  then show "set (depsOf bs i) \<subseteq> {..<length bs}"
    by (auto simp: depsOf_def List.map_filter_def split: option.splits if_splits)
qed (simp add: depsOf_def)

section \<open>Properties\<close>

text \<open>
  C28: \<^verbatim>\<open>SortBindings\<close> always ends, mutual recursion included, and returns the bindings it was given, each exactly once.
\<close>

theorem sort_bindings_terminates: "\<exists>rs. SortBindings bs = Some rs \<and> mset rs = mset bs"
proof (cases "length bs \<le> 1")
  case False
  obtain "is" where i: "sortIndices (depsOf bs) (length bs) = Some is" "mset is = mset [0..<length bs]"
    using sortIndices_spec [of "length bs" "depsOf bs"] depsOf_range by blast
  have "mset (map (nth bs) is) = mset (map (nth bs) [0..<length bs])" using i(2) by (metis mset_map)
  then show ?thesis using i(1) False by (simp add: SortBindings_def map_nth)
qed (simp add: SortBindings_def)


definition sortDemo :: "unit binding list" where
  "sortDemo = [(''main'', App (localVar ''twice'') (localVar ''one'')), (''twice'', localVar ''plus''), (''one'', Lit (LitInt 1))]"

lemma sortDemo_deps: "depsOf sortDemo 0 = [1, 2]" "depsOf sortDemo 1 = []" "depsOf sortDemo 2 = []"
  by (simp_all add: sortDemo_def depsOf_def nameIdx_def localVar_def FreeVars_def traverse_node mergeFV_def fvNone_def fvResultToMap_def
      List.map_filter_simps Let_def)


text \<open>
  Two limits of the order. Dependencies are by bare name, whatever the module of the reference; and a binding whose free variables
  exceed the traversal limit has no dependencies here, as the overflow answer is ignored.
\<close>

lemma deps_ignore_module: "depsOf [(''f'', Var ''g'' ''Other'' 0), (''g'', Lit (LitInt 1))] 0 = [1]"
  by (simp add: depsOf_def nameIdx_def FreeVars_def traverse_node fvNone_def fvResultToMap_def List.map_filter_simps Let_def)

lemma deps_ignore_overflow: "snd (FreeVars (snd (bs ! i))) \<Longrightarrow> depsOf bs i = []"
  by (simp add: depsOf_def FreeVars_def Let_def List.map_filter_simps split: if_splits)

end
