(* ===== verification/List_Prims.thy ===== *)
theory List_Prims
  imports Sequence_Prims
begin

text \<open>
  The list primitives of the Prelude, \<^verbatim>\<open>internal/host/stdlib/list.go\<close>. A GICEL list is a chain of \<^verbatim>\<open>Cons\<close> and \<^verbatim>\<open>Nil\<close> constructor values;
  each loop of the code walks the chain and tests every node, so a malformed chain is an error of the primitive that meets it. \<open>listNode\<close> is
  that test, with the errors in the order the code has them. Loops over a Go slice are recursions over a list,
  with the slice built so far as an accumulator. \<^verbatim>\<open>unfoldr\<close> may run forever: its loop is a partial function, and not returning is the outcome \<open>Diverge\<close>.
\<close>

section \<open>Walking a chain\<close>

datatype listView = NotCon | NilNode | ConsNode val val | BadNode string

definition listView :: "val \<Rightarrow> listView" where
  "listView v =
     (case v of
        ConVal con args d n \<Rightarrow>
          if con = ListNil then NilNode
          else if con \<noteq> ListCons then BadNode con
          else (case args of [x, rest] \<Rightarrow> ConsNode x rest | _ \<Rightarrow> BadNode con)
      | _ \<Rightarrow> NotCon)"

lemma listView_size [termination_simp]: "listView v = ConsNode x rest \<Longrightarrow> size rest < size v"
  by (auto simp: listView_def split: val.splits if_splits list.splits)

definition listNode :: "string \<Rightarrow> val \<Rightarrow> capEnv \<Rightarrow> world \<Rightarrow> 'a gores \<Rightarrow> (val \<Rightarrow> val \<Rightarrow> 'a gores) \<Rightarrow> 'a gores" where
  "listNode op v ce w kNil kCons =
     (case listView v of
        NotCon \<Rightarrow> (Err (errExpected op ''List'' (Inl v)) ce, w)
      | NilNode \<Rightarrow> kNil
      | BadNode con \<Rightarrow> (Err (errMalformed op ''list node'' con) ce, w)
      | ConsNode x rest \<Rightarrow> kCons x rest)"

lemma listNode_cong [fundef_cong]:
  "op = op' \<Longrightarrow> v = v' \<Longrightarrow> ce = ce' \<Longrightarrow> w = w' \<Longrightarrow> kNil = kNil' \<Longrightarrow>
   (\<And>x rest. listView v' = ConsNode x rest \<Longrightarrow> kCons x rest = kCons' x rest) \<Longrightarrow>
   listNode op v ce w kNil kCons = listNode op' v' ce' w' kNil' kCons'"
  by (simp add: listNode_def split: listView.splits)

text \<open>\<^verbatim>\<open>if i&1023 == 0 { budget.CheckContext(ctx) }\<close>\<close>

definition tick :: "int64 \<Rightarrow> world \<Rightarrow> limitError option" where
  "tick i w = (if i AND 1023 = 0 then checkContext (w_budget w) else None)"

fun listToSlice :: "val \<Rightarrow> val list option" where
  "listToSlice v =
     (case listView v of
        NilNode \<Rightarrow> Some []
      | ConsNode x rest \<Rightarrow> map_option (Cons x) (listToSlice rest)
      | _ \<Rightarrow> None)"

declare listToSlice.simps [simp del]

text \<open>The loop from the last element to the first that conses each onto the result.\<close>

definition consOnto :: "val list \<Rightarrow> val \<Rightarrow> val" where
  "consOnto xs = foldr (\<lambda>x result. mkCon ListCons [x, result]) xs"

definition buildList :: "val list \<Rightarrow> val" where
  "buildList items = consOnto items (mkCon ListNil [])"

definition sliceToList :: "(val + val host) list \<Rightarrow> val" where
  "sliceToList items =
     consOnto (map (\<lambda>item. case item of Inl v \<Rightarrow> v | Inr h \<Rightarrow> HostVal h) items) (mkCon ListNil [])"

definition asInt64List :: "val \<Rightarrow> err + int64" where "asInt64List v = asInt64 v ''list''"

text \<open>A list argument converted to a slice, with the error of a primitive that names the whole argument.\<close>

definition sliceArg :: "string \<Rightarrow> string \<Rightarrow> val \<Rightarrow> err + val list" where
  "sliceArg op want v = (case listToSlice v of None \<Rightarrow> Inl (errExpected op want (Inl v)) | Some xs \<Rightarrow> Inr xs)"

section \<open>First-order primitives\<close>

definition fromSliceImpl :: primImpl where
  "fromSliceImpl ce args ap w =
     argN args 0 w (\<lambda>v.
     case v of
       ConVal con cargs d n \<Rightarrow>
         if con = ''Cons'' \<or> con = ''Nil'' then (Ret v ce, w)
         else (Err (errExpected ''fromSlice'' ''HostVal or List'' (Inl v)) ce, w)
     | HostVal h \<Rightarrow>
         (case h of
            HAny items \<Rightarrow>
              charge (of_nat (length items) * costConsNode) ce w (\<lambda>w. (Ret (sliceToList items) ce, w))
          | _ \<Rightarrow> (Err (errExpected ''fromSlice'' ''[]any'' (Inr h)) ce, w))
     | _ \<Rightarrow> (Err (errExpected ''fromSlice'' ''HostVal or List'' (Inl v)) ce, w))"

definition toSliceImpl :: primImpl where
  "toSliceImpl ce args ap w =
     argN args 0 w (\<lambda>v.
     case v of
       HostVal (HAny items) \<Rightarrow> (Ret v ce, w)
     | _ \<Rightarrow>
         tryE (sliceArg ''toSlice'' ''List (Cons/Nil)'' v) ce w (\<lambda>items.
         charge (of_nat (length items) * costSlotSize) ce w (\<lambda>w. (Ret (HostVal (HAny (map Inl items))) ce, w))))"

fun lengthLoop :: "val \<Rightarrow> int64 \<Rightarrow> capEnv \<Rightarrow> world \<Rightarrow> val gores" where
  "lengthLoop v n ce w =
     listNode ''length'' v ce w (Ret (intVal n) ce, w) (\<lambda>_ rest.
       case tick (n + 1) w of Some e \<Rightarrow> (Err (LimitErr e) ce, w) | None \<Rightarrow> lengthLoop rest (n + 1) ce w)"

declare lengthLoop.simps [simp del]

definition lengthImpl :: primImpl where
  "lengthImpl ce args ap w = argN args 0 w (\<lambda>v. lengthLoop v 0 ce w)"

definition concatImpl :: primImpl where
  "concatImpl ce args ap w =
     argN args 0 w (\<lambda>a.
     case listToSlice a of
       None \<Rightarrow> (Err (PlainErr ''concat: first argument is not a List'') ce, w)
     | Some xs \<Rightarrow>
         charge (of_nat (length xs) * costConsNode) ce w (\<lambda>w.
         argN args 1 w (\<lambda>ys. (Ret (consOnto xs ys) ce, w))))"

fun takeLoop :: "nat \<Rightarrow> val \<Rightarrow> val list \<Rightarrow> capEnv \<Rightarrow> world \<Rightarrow> val list gores" where
  "takeLoop 0 v pre ce w = (Ret pre ce, w)"
| "takeLoop (Suc k) v pre ce w =
     listNode ''take'' v ce w (Ret pre ce, w) (\<lambda>x rest. takeLoop k rest (pre @ [x]) ce w)"

definition takeImpl :: primImpl where
  "takeImpl ce args ap w =
     argN args 0 w (\<lambda>a. tryE (asInt64List a) ce w (\<lambda>n.
     if n \<le>s 0 then (Ret (mkCon ListNil []) ce, w)
     else argN args 1 w (\<lambda>v. callR (takeLoop (unat n) v [] ce w) (\<lambda>c. c) (\<lambda>pre ce w.
       charge (of_nat (length pre) * costConsNode) ce w (\<lambda>w. (Ret (buildList pre) ce, w))))))"

fun dropLoop :: "nat \<Rightarrow> val \<Rightarrow> capEnv \<Rightarrow> world \<Rightarrow> val gores" where
  "dropLoop 0 v ce w = (Ret v ce, w)"
| "dropLoop (Suc k) v ce w = listNode ''drop'' v ce w (Ret v ce, w) (\<lambda>_ rest. dropLoop k rest ce w)"

definition dropImpl :: primImpl where
  "dropImpl ce args ap w =
     argN args 0 w (\<lambda>a. tryE (asInt64List a) ce w (\<lambda>n.
     argN args 1 w (\<lambda>v. if n \<le>s 0 then (Ret v ce, w) else dropLoop (unat n) v ce w)))"

fun indexLoop :: "val \<Rightarrow> int64 \<Rightarrow> int64 \<Rightarrow> capEnv \<Rightarrow> world \<Rightarrow> val gores" where
  "indexLoop v i idx ce w =
     (case listView v of
        NotCon \<Rightarrow> (Err (PlainErr ''index: expected List'') ce, w)
      | NilNode \<Rightarrow> (Ret nothingVal ce, w)
      | BadNode con \<Rightarrow> (Err (errMalformed ''index'' ''list node'' con) ce, w)
      | ConsNode x rest \<Rightarrow> if i = idx then (Ret (justVal x) ce, w) else indexLoop rest (i + 1) idx ce w)"

declare indexLoop.simps [simp del]

definition indexImpl :: primImpl where
  "indexImpl ce args ap w =
     argN args 0 w (\<lambda>a. tryE (asInt64List a) ce w (\<lambda>idx. argN args 1 w (\<lambda>v. indexLoop v 0 idx ce w)))"

text \<open>\<^verbatim>\<open>for i := range n\<close>: \<open>k\<close> iterations are left, the next index is \<open>i\<close>.\<close>

fun replicateLoop :: "nat \<Rightarrow> int64 \<Rightarrow> val \<Rightarrow> val \<Rightarrow> capEnv \<Rightarrow> world \<Rightarrow> val gores" where
  "replicateLoop 0 i elem result ce w = (Ret result ce, w)"
| "replicateLoop (Suc k) i elem result ce w =
     (case tick i w of
        Some e \<Rightarrow> (Err (LimitErr e) ce, w)
      | None \<Rightarrow> replicateLoop k (i + 1) elem (mkCon ListCons [elem, result]) ce w)"

definition replicateImpl :: primImpl where
  "replicateImpl ce args ap w =
     argN args 0 w (\<lambda>a. tryE (asInt64List a) ce w (\<lambda>n.
     if n \<le>s 0 then (Ret (mkCon ListNil []) ce, w)
     else charge (n * costConsNode) ce w (\<lambda>w.
       argN args 1 w (\<lambda>elem. replicateLoop (unat n) 0 elem (mkCon ListNil []) ce w))))"

fun reverseCount :: "val \<Rightarrow> int64 \<Rightarrow> capEnv \<Rightarrow> world \<Rightarrow> int64 gores" where
  "reverseCount v n ce w =
     listNode ''reverse'' v ce w (Ret n ce, w) (\<lambda>_ rest. reverseCount rest (n + 1) ce w)"

declare reverseCount.simps [simp del]

text \<open>The second pass trusts the first: it takes \<^verbatim>\<open>con.Args[0]\<close> and \<^verbatim>\<open>con.Args[1]\<close> of each node, and panics if there are none.\<close>

fun reverseLoop :: "nat \<Rightarrow> val \<Rightarrow> val \<Rightarrow> val option" where
  "reverseLoop 0 v result = Some result"
| "reverseLoop (Suc k) v result =
     (case v of
        ConVal con (x # rest # others) d n \<Rightarrow> reverseLoop k rest (mkCon ListCons [x, result])
      | _ \<Rightarrow> None)"

definition reverseImpl :: primImpl where
  "reverseImpl ce args ap w =
     argN args 0 w (\<lambda>v. callR (reverseCount v 0 ce w) (\<lambda>c. c) (\<lambda>n ce w.
     charge (n * costConsNode) ce w (\<lambda>w.
     orPanic (reverseLoop (nat (sint n)) v (mkCon ListNil [])) w (\<lambda>result. (Ret result ce, w)))))"

fun rangeLoop :: "nat \<Rightarrow> int64 \<Rightarrow> int64 \<Rightarrow> val list \<Rightarrow> capEnv \<Rightarrow> world \<Rightarrow> val list gores" where
  "rangeLoop 0 i from items ce w = (Ret items ce, w)"
| "rangeLoop (Suc k) i from items ce w =
     (case tick i w of
        Some e \<Rightarrow> (Err (LimitErr e) ce, w)
      | None \<Rightarrow> rangeLoop k (i + 1) from (items @ [intVal (from + i)]) ce w)"

text \<open>\<^verbatim>\<open>make([]eval.Value, n)\<close> panics for a negative \<^verbatim>\<open>n\<close>.\<close>

definition rangeImpl :: primImpl where
  "rangeImpl ce args ap w =
     argN args 0 w (\<lambda>a. tryE (asInt64List a) ce w (\<lambda>from.
     argN args 1 w (\<lambda>b. tryE (asInt64List b) ce w (\<lambda>to.
     if to <s from then (Ret (mkCon ListNil []) ce, w)
     else let n = to - from + 1
       in charge (n * costConsNode) ce w (\<lambda>w.
          if n <s 0 then (Panic, w)
          else callR (rangeLoop (unat n) 0 from [] ce w) (\<lambda>c. c) (\<lambda>items ce w. (Ret (buildList items) ce, w)))))))"

function zipLoop :: "val \<Rightarrow> val \<Rightarrow> val list \<Rightarrow> capEnv \<Rightarrow> world \<Rightarrow> val list gores" where
  "zipLoop xs ys pairs ce w =
     (case xs of
        ConVal xCon xArgs d n \<Rightarrow>
          (case ys of
             ConVal yCon yArgs d n \<Rightarrow>
               if xCon = ListNil \<or> yCon = ListNil then (Ret pairs ce, w)
               else (case (listView xs, listView ys) of
                  (ConsNode x xs', ConsNode y ys') \<Rightarrow> zipLoop xs' ys' (pairs @ [mkPair x y]) ce w
                | _ \<Rightarrow> (Err (errMalformed ''zip'' ''list node'' (xCon @ ''/'' @ yCon)) ce, w))
           | _ \<Rightarrow> (Err (PlainErr ''zip: expected List for second arg'') ce, w))
      | _ \<Rightarrow> (Err (PlainErr ''zip: expected List for first arg'') ce, w))"
  by pat_completeness auto
termination by (relation "measure (\<lambda>(xs, _). size xs)") (auto dest!: listView_size [OF sym])

declare zipLoop.simps [simp del]

definition zipImpl :: primImpl where
  "zipImpl ce args ap w =
     argN args 0 w (\<lambda>xs. argN args 1 w (\<lambda>ys. callR (zipLoop xs ys [] ce w) (\<lambda>c. c) (\<lambda>pairs ce w.
     charge (of_nat (length pairs) * (costTupleNode + costConsNode)) ce w (\<lambda>w. (Ret (buildList pairs) ce, w)))))"

text \<open>The two components of a tuple value.\<close>

definition pairOf :: "val \<Rightarrow> string \<Rightarrow> err \<Rightarrow> err + val \<times> val" where
  "pairOf v op notTuple =
     (case v of
        RecordVal fs \<Rightarrow>
          (case (recGet fs (tupleLabel 1), recGet fs (tupleLabel 2)) of
             (Some a, Some b) \<Rightarrow> Inr (a, b)
           | _ \<Rightarrow> Inl (PlainErr (op @ '': expected tuple with _1 and _2'')))
      | _ \<Rightarrow> Inl notTuple)"

fun unzipLoop :: "val \<Rightarrow> val list \<Rightarrow> val list \<Rightarrow> capEnv \<Rightarrow> world \<Rightarrow> (val list \<times> val list) gores" where
  "unzipLoop v as bs ce w =
     listNode ''unzip'' v ce w (Ret (as, bs) ce, w) (\<lambda>x rest.
       case pairOf x ''unzip'' (PlainErr ''unzip: expected tuple'') of
         Inl e \<Rightarrow> (Err e ce, w)
       | Inr (a, b) \<Rightarrow> unzipLoop rest (as @ [a]) (bs @ [b]) ce w)"

declare unzipLoop.simps [simp del]

definition unzipImpl :: primImpl where
  "unzipImpl ce args ap w =
     argN args 0 w (\<lambda>v. callR (unzipLoop v [] [] ce w) (\<lambda>c. c) (\<lambda>(as, bs) ce w.
     charge (of_nat (length as) * 2 * costConsNode) ce w (\<lambda>w. (Ret (mkPair (buildList as) (buildList bs)) ce, w))))"

section \<open>Higher-order primitives\<close>

fun listMapLoop :: "val list \<Rightarrow> val \<Rightarrow> val list \<Rightarrow> capEnv \<Rightarrow> applier \<Rightarrow> world \<Rightarrow> val list gores" where
  "listMapLoop [] f mapped ce ap w = (Ret mapped ce, w)"
| "listMapLoop (item # items) f mapped ce ap w =
     callR (applyA ap f item ce w) (\<lambda>_. ce) (\<lambda>result ce w. listMapLoop items f (mapped @ [result]) ce ap w)"

definition listMapImpl :: primImpl where
  "listMapImpl ce args ap w =
     argN args 0 w (\<lambda>f. argN args 1 w (\<lambda>a. tryE (sliceArg ''listMap'' ''List'' a) ce w (\<lambda>items.
     charge (of_nat (length items) * costConsNode) ce w (\<lambda>w.
     callR (listMapLoop items f [] ce ap w) (\<lambda>c. c) (\<lambda>mapped ce w. (Ret (buildList mapped) ce, w))))))"

text \<open>\<^verbatim>\<open>con, ok := v.(*eval.ConVal); ok && con.Con == name\<close>\<close>

definition isConNamed :: "string \<Rightarrow> val \<Rightarrow> bool" where
  "isConNamed name v = (case v of ConVal con cargs d n \<Rightarrow> con = name | _ \<Rightarrow> False)"

fun listFilterLoop :: "val list \<Rightarrow> val \<Rightarrow> val list \<Rightarrow> capEnv \<Rightarrow> applier \<Rightarrow> world \<Rightarrow> val list gores" where
  "listFilterLoop [] pred result ce ap w = (Ret result ce, w)"
| "listFilterLoop (item # items) pred result ce ap w =
     callR (applyA ap pred item ce w) (\<lambda>_. ce) (\<lambda>b ce w.
     listFilterLoop items pred (if isConNamed ''True'' b then result @ [item] else result) ce ap w)"

definition listFilterImpl :: primImpl where
  "listFilterImpl ce args ap w =
     argN args 0 w (\<lambda>pred. argN args 1 w (\<lambda>a. tryE (sliceArg ''listFilter'' ''List'' a) ce w (\<lambda>items.
     callR (listFilterLoop items pred [] ce ap w) (\<lambda>c. c) (\<lambda>result ce w.
     charge (of_nat (length result) * costConsNode) ce w (\<lambda>w. (Ret (buildList result) ce, w))))))"

text \<open>The loop from the last item to the first; its argument is the reversed slice.\<close>

fun listFoldrLoop :: "val list \<Rightarrow> val \<Rightarrow> val \<Rightarrow> capEnv \<Rightarrow> applier \<Rightarrow> world \<Rightarrow> val gores" where
  "listFoldrLoop [] f acc ce ap w = (Ret acc ce, w)"
| "listFoldrLoop (item # items) f acc ce ap w =
     callR (applyNA ap f [item, acc] ce w) (\<lambda>c. c) (\<lambda>acc ce w. listFoldrLoop items f acc ce ap w)"

definition listFoldrImpl :: primImpl where
  "listFoldrImpl ce args ap w =
     argN args 0 w (\<lambda>f. argN args 1 w (\<lambda>z. argN args 2 w (\<lambda>a. tryE (sliceArg ''listFoldr'' ''List'' a) ce w (\<lambda>items.
     listFoldrLoop (rev items) f z ce ap w))))"

fun foldlLoop :: "val \<Rightarrow> int64 \<Rightarrow> val \<Rightarrow> val \<Rightarrow> capEnv \<Rightarrow> applier \<Rightarrow> world \<Rightarrow> val gores" where
  "foldlLoop list i f acc ce ap w =
     listNode ''foldl'' list ce w (Ret acc ce, w) (\<lambda>x rest.
       case tick i w of
         Some e \<Rightarrow> (Err (LimitErr e) ce, w)
       | None \<Rightarrow> callR (applyNA ap f [acc, x] ce w) (\<lambda>c. c) (\<lambda>acc ce w. foldlLoop rest (i + 1) f acc ce ap w))"

declare foldlLoop.simps [simp del]

definition foldlImpl :: primImpl where
  "foldlImpl ce args ap w =
     argN args 0 w (\<lambda>f. argN args 1 w (\<lambda>acc. argN args 2 w (\<lambda>list. foldlLoop list 0 f acc ce ap w)))"

text \<open>The merge of two slices: what is left of each, and the result so far.\<close>

function mergeLists :: "val list \<Rightarrow> val list \<Rightarrow> val list \<Rightarrow> val \<Rightarrow> capEnv \<Rightarrow> applier \<Rightarrow> world \<Rightarrow> val list gores" where
  "mergeLists left right result cmp ce ap w =
     (case (left, right) of
        (l # ls, r # rs) \<Rightarrow>
          callR (applyNA ap cmp [l, r] ce w) (\<lambda>_. ce) (\<lambda>ordering ce w.
          case ordering of
            ConVal con cargs d n \<Rightarrow>
              if con = OrderGT then mergeLists left rs (result @ [r]) cmp ce ap w
              else mergeLists ls right (result @ [l]) cmp ce ap w
          | _ \<Rightarrow> (Err (errExpected ''sortBy'' ''Ordering'' (Inl ordering)) ce, w))
      | _ \<Rightarrow> (Ret (result @ left @ right) ce, w))"
  by pat_completeness auto
termination by (relation "measure (\<lambda>(l, r, _). length l + length r)") auto

declare mergeLists.simps [simp del]

text \<open>An error of a half is returned with the environment that came with it.\<close>

fun mergeSort :: "val list \<Rightarrow> val \<Rightarrow> capEnv \<Rightarrow> applier \<Rightarrow> world \<Rightarrow> val list gores" where
  "mergeSort items cmp ce ap w =
     (if length items \<le> 1 then (Ret items ce, w)
      else let mid = length items div 2
        in callR (mergeSort (take mid items) cmp ce ap w) (\<lambda>c. c) (\<lambda>left ce w.
           callR (mergeSort (drop mid items) cmp ce ap w) (\<lambda>c. c) (\<lambda>right ce w.
           mergeLists left right [] cmp ce ap w)))"

declare mergeSort.simps [simp del]

definition sortByImpl :: primImpl where
  "sortByImpl ce args ap w =
     argN args 0 w (\<lambda>cmp. argN args 1 w (\<lambda>a. tryE (sliceArg ''sortBy'' ''List'' a) ce w (\<lambda>items.
     if length items \<le> 1 then (Ret a ce, w)
     else charge (of_nat (length items) * costConsNode) ce w (\<lambda>w.
       callR (mergeSort items cmp ce ap w) (\<lambda>_. ce) (\<lambda>sorted newCe w. (Ret (buildList sorted) newCe, w))))))"

fun scanlLoop :: "val \<Rightarrow> val \<Rightarrow> val \<Rightarrow> val list \<Rightarrow> capEnv \<Rightarrow> applier \<Rightarrow> world \<Rightarrow> val list gores" where
  "scanlLoop list f acc results ce ap w =
     listNode ''scanl'' list ce w (Ret results ce, w) (\<lambda>x rest.
       callR (applyNA ap f [acc, x] ce w) (\<lambda>c. c) (\<lambda>acc ce w. scanlLoop rest f acc (results @ [acc]) ce ap w))"

declare scanlLoop.simps [simp del]

definition scanlImpl :: primImpl where
  "scanlImpl ce args ap w =
     argN args 0 w (\<lambda>f. argN args 1 w (\<lambda>acc. argN args 2 w (\<lambda>list.
     callR (scanlLoop list f acc [acc] ce ap w) (\<lambda>c. c) (\<lambda>results ce w.
     charge (of_nat (length results) * costConsNode) ce w (\<lambda>w. (Ret (buildList results) ce, w))))))"

text \<open>\<^verbatim>\<open>span\<close> and \<^verbatim>\<open>dropWhile\<close> stop at \<^verbatim>\<open>False\<close>; any other constructor counts as true.\<close>

fun spanLoop :: "val \<Rightarrow> val \<Rightarrow> val list \<Rightarrow> capEnv \<Rightarrow> applier \<Rightarrow> world \<Rightarrow> (val list \<times> val) gores" where
  "spanLoop list pred pre ce ap w =
     listNode ''span'' list ce w (Ret (pre, list) ce, w) (\<lambda>x rest.
       callR (applyA ap pred x ce w) (\<lambda>_. ce) (\<lambda>result ce w.
       case result of
         ConVal con cargs d n \<Rightarrow>
           if con = BoolFalse then (Ret (pre, list) ce, w) else spanLoop rest pred (pre @ [x]) ce ap w
       | _ \<Rightarrow> (Err (errExpected ''span'' ''Bool'' (Inl result)) ce, w)))"

declare spanLoop.simps [simp del]

definition spanImpl :: primImpl where
  "spanImpl ce args ap w =
     argN args 0 w (\<lambda>pred. argN args 1 w (\<lambda>list.
     callR (spanLoop list pred [] ce ap w) (\<lambda>c. c) (\<lambda>(pre, list) ce w.
     charge (of_nat (length pre) * costConsNode) ce w (\<lambda>w. (Ret (mkPair (buildList pre) list) ce, w)))))"

fun dropWhileLoop :: "val \<Rightarrow> val \<Rightarrow> capEnv \<Rightarrow> applier \<Rightarrow> world \<Rightarrow> val gores" where
  "dropWhileLoop list pred ce ap w =
     listNode ''dropWhile'' list ce w (Ret list ce, w) (\<lambda>x rest.
       callR (applyA ap pred x ce w) (\<lambda>_. ce) (\<lambda>result ce w.
       case result of
         ConVal con cargs d n \<Rightarrow>
           if con = BoolFalse then (Ret list ce, w) else dropWhileLoop rest pred ce ap w
       | _ \<Rightarrow> (Err (errExpected ''dropWhile'' ''Bool'' (Inl result)) ce, w)))"

declare dropWhileLoop.simps [simp del]

definition dropWhileImpl :: primImpl where
  "dropWhileImpl ce args ap w = argN args 0 w (\<lambda>pred. argN args 1 w (\<lambda>list. dropWhileLoop list pred ce ap w))"

partial_function (option) unfoldrLoop :: "val \<Rightarrow> val \<Rightarrow> val list \<Rightarrow> capEnv \<Rightarrow> applier \<Rightarrow> world \<Rightarrow> val list gores option" where
  "unfoldrLoop f seed items ce ap w =
     (case applyA ap f seed ce w of (outcome, w) \<Rightarrow>
      (case outcome of
         Err e c \<Rightarrow> Some (Err e ce, w)
       | Panic \<Rightarrow> Some (Panic, w)
       | Diverge \<Rightarrow> None
       | Ret result ce \<Rightarrow>
           (case result of
              ConVal con cargs d n \<Rightarrow>
                if con = MaybeNothing then Some (Ret items ce, w)
                else if con \<noteq> MaybeJust \<or> length cargs \<noteq> 1
                then Some (Err (errMalformed ''unfoldr'' ''Maybe'' con) ce, w)
                else (case pairOf (hd cargs) ''unfoldr'' (errExpected ''unfoldr'' ''tuple'' (Inl (hd cargs))) of
                        Inl e \<Rightarrow> Some (Err e ce, w)
                      | Inr p \<Rightarrow> unfoldrLoop f (snd p) (items @ [fst p]) ce ap w)
            | _ \<Rightarrow> Some (Err (errExpected ''unfoldr'' ''Maybe'' (Inl result)) ce, w))))"

definition unfoldrImpl :: primImpl where
  "unfoldrImpl ce args ap w =
     argN args 0 w (\<lambda>f. argN args 1 w (\<lambda>seed.
     case unfoldrLoop f seed [] ce ap w of
       None \<Rightarrow> (Diverge, w)
     | Some p \<Rightarrow> callR p (\<lambda>c. c) (\<lambda>items ce w.
         charge (of_nat (length items) * costConsNode) ce w (\<lambda>w. (Ret (buildList items) ce, w)))))"

text \<open>\<^verbatim>\<open>for i := range n\<close> with the test \<^verbatim>\<open>i < n-1\<close>: the last element is not followed by a call.\<close>

fun iterateLoop :: "nat \<Rightarrow> val \<Rightarrow> val \<Rightarrow> val list \<Rightarrow> capEnv \<Rightarrow> applier \<Rightarrow> world \<Rightarrow> val list gores" where
  "iterateLoop 0 f current items ce ap w = (Ret items ce, w)"
| "iterateLoop (Suc k) f current items ce ap w =
     (if 0 < k
      then callR (applyA ap f current ce w) (\<lambda>_. ce) (\<lambda>next ce w. iterateLoop k f next (items @ [current]) ce ap w)
      else iterateLoop k f current (items @ [current]) ce ap w)"

definition iterateNImpl :: primImpl where
  "iterateNImpl ce args ap w =
     argN args 0 w (\<lambda>a. tryE (asInt64List a) ce w (\<lambda>n.
     argN args 1 w (\<lambda>f. argN args 2 w (\<lambda>current.
     if n \<le>s 0 then (Ret (mkCon ListNil []) ce, w)
     else charge (n * costConsNode) ce w (\<lambda>w.
       callR (iterateLoop (unat n) f current [] ce ap w) (\<lambda>c. c) (\<lambda>items ce w. (Ret (buildList items) ce, w)))))))"

text \<open>The current group with its key, its first element; no group is open before the first element.\<close>

fun groupByLoop :: "val \<Rightarrow> val \<Rightarrow> val list \<Rightarrow> (val \<times> val list) option \<Rightarrow> capEnv \<Rightarrow> applier \<Rightarrow> world \<Rightarrow> val list gores" where
  "groupByLoop list eq groups current ce ap w =
     listNode ''groupBy'' list ce w
       (Ret (case current of None \<Rightarrow> groups | Some (k, g) \<Rightarrow> groups @ [buildList g]) ce, w)
       (\<lambda>elem rest.
          case current of
            None \<Rightarrow> groupByLoop rest eq groups (Some (elem, [elem])) ce ap w
          | Some (k, g) \<Rightarrow>
              callR (applyNA ap eq [k, elem] ce w) (\<lambda>_. ce) (\<lambda>result ce w.
              case result of
                ConVal con cargs d n \<Rightarrow>
                  if con = BoolTrue then groupByLoop rest eq groups (Some (k, g @ [elem])) ce ap w
                  else groupByLoop rest eq (groups @ [buildList g]) (Some (elem, [elem])) ce ap w
              | _ \<Rightarrow> (Err (errExpected ''groupBy'' ''Bool'' (Inl result)) ce, w)))"

declare groupByLoop.simps [simp del]

definition groupByImpl :: primImpl where
  "groupByImpl ce args ap w =
     argN args 0 w (\<lambda>eq. argN args 1 w (\<lambda>list.
     callR (groupByLoop list eq [] None ce ap w) (\<lambda>c. c) (\<lambda>groups ce w.
     charge (of_nat (length groups) * costConsNode) ce w (\<lambda>w. (Ret (buildList groups) ce, w)))))"

text \<open>The registrations of the Prelude for lists.\<close>

definition listPack :: "primImpl primRegistry \<Rightarrow> primImpl primRegistry" where
  "listPack = registerAll
     [(''_listFromSlice'', fromSliceImpl), (''_listToSlice'', toSliceImpl), (''_listLength'', lengthImpl),
      (''_listConcat'', concatImpl), (''_listFoldl'', foldlImpl), (''_listMap'', listMapImpl),
      (''_listFoldr'', listFoldrImpl), (''_listFilter'', listFilterImpl), (''_listTake'', takeImpl),
      (''_listDrop'', dropImpl), (''_listIndex'', indexImpl), (''_listReplicate'', replicateImpl),
      (''_listReverse'', reverseImpl), (''_listZip'', zipImpl), (''_listUnzip'', unzipImpl),
      (''_listDropWhile'', dropWhileImpl), (''_listSpan'', spanImpl), (''_listSortBy'', sortByImpl),
      (''_listScanl'', scanlImpl), (''_listUnfoldr'', unfoldrImpl), (''_listIterateN'', iterateNImpl),
      (''_listRange'', rangeImpl), (''_listGroupBy'', groupByImpl)]"

end
