(* ===== verification/List_Laws.thy ===== *)
theory List_Laws
  imports List_Prims Map_Set_Laws
begin

text \<open>
  The laws of the list primitives. On a well-formed chain each computes the list function of its name and charges one cell for
  every node it builds; for functions with effects the calls are those of \<open>mapCalls\<close>, \<open>foldCalls\<close> and \<open>seqFoldrLoop\<close>. Sorting is described in the
  contract \<open>key_order\<close> for comparators: it is the stable sort by rank.
\<close>

section \<open>Chains\<close>

lemma listView_simps [simp]:
  "listView (mkCon ListNil []) = NilNode" "listView (mkCon ListCons [x, v]) = ConsNode x v"
  by (simp_all add: listView_def mkCon_def)

lemma listView_consList [simp]: "listView (consList xs) = (case xs of [] \<Rightarrow> NilNode | y # ys \<Rightarrow> ConsNode y (consList ys))"
  by (cases xs) simp_all

lemma listNode_simps [simp]:
  "listNode op (mkCon ListNil []) ce w kNil kCons = kNil"
  "listNode op (mkCon ListCons [x, v]) ce w kNil kCons = kCons x v"
  by (simp_all add: listNode_def)

lemma listToSlice_consList [simp]: "listToSlice (consList xs) = Some xs"
  by (induction xs; subst listToSlice.simps) simp_all

lemma sliceArg_consList [simp]: "sliceArg op want (consList xs) = Inr xs"
  by (simp add: sliceArg_def)

lemma consOnto_consList [simp]: "consOnto xs (consList ys) = consList (xs @ ys)"
  by (induction xs) (simp_all add: consOnto_def)

lemma buildList_consList [simp]: "buildList xs = consList xs"
  using consOnto_consList [of xs "[]"] by (simp add: buildList_def)

text \<open>A value is a chain exactly when \<^verbatim>\<open>listToSlice\<close> succeeds; the constructor tag of an empty chain may carry arguments.\<close>

lemma listView_ConsNode: "listView v = ConsNode x rest \<Longrightarrow> \<exists>d n. v = ConVal ListCons [x, rest] d n"
  by (auto simp: listView_def split: val.splits if_splits list.splits)

section \<open>First-order loops\<close>

lemma lengthLoop_consList:
  "lengthLoop (consList xs) n ce w =
     (case checkContext (w_budget w) of
        None \<Rightarrow> (Ret (intVal (n + of_nat (length xs))) ce, w)
      | Some e \<Rightarrow>
          if \<exists>k \<in> {1..length xs}. (n + of_nat k) AND 1023 = 0 then (Err (LimitErr e) ce, w)
          else (Ret (intVal (n + of_nat (length xs))) ce, w))"
proof (induction xs arbitrary: n)
  case (Cons x xs)
  have *: "(\<exists>k \<in> {1..length (x # xs)}. (n + of_nat k) AND 1023 = 0) \<longleftrightarrow>
      (n + 1) AND 1023 = 0 \<or> (\<exists>k \<in> {1..length xs}. (n + 1 + of_nat k) AND 1023 = 0)" (is "?l \<longleftrightarrow> ?r")
  proof
    assume ?l
    then obtain k where k: "1 \<le> k" "k \<le> Suc (length xs)" "(n + of_nat k) AND 1023 = 0" by auto
    show ?r
    proof (cases "k = 1")
      case False
      then have "k - 1 \<in> {1..length xs}" "n + 1 + of_nat (k - 1) = n + of_nat k" using k by (auto simp: of_nat_diff)
      then show ?thesis using k(3) by metis
    qed (use k in simp)
  next
    assume ?r
    then show ?l
    proof
      assume "\<exists>k \<in> {1..length xs}. (n + 1 + of_nat k) AND 1023 = 0"
      then obtain k where "k \<in> {1..length xs}" "(n + 1 + of_nat k) AND 1023 = 0" by blast
      then show ?l by (intro bexI [of _ "Suc k"]) (auto simp: ac_simps)
    qed (auto intro!: bexI [of _ 1])
  qed
  show ?case unfolding *
    by (subst lengthLoop.simps) (auto simp: Cons.IH tick_def add.assoc split: option.splits)
qed (subst lengthLoop.simps, simp split: option.splits)

lemma low_bits_zero: "(\<exists>k \<in> {1..m}. (of_nat k :: int64) AND 1023 = 0) \<longleftrightarrow> 1024 \<le> m"
proof
  assume "\<exists>k \<in> {1..m}. (of_nat k :: int64) AND 1023 = 0"
  then obtain k where k: "1 \<le> k" "k \<le> m" "(of_nat k :: int64) AND mask 10 = 0" by (auto simp: mask_eq_exp_minus_1)
  have "k mod 1024 = 0"
  proof -
    have "unat (take_bit 10 (of_nat k :: int64)) = 0" using k(3) by (simp add: take_bit_eq_mask)
    then have "take_bit 10 (take_bit 64 k) = 0" by (simp add: unsigned_take_bit_eq unsigned_of_nat)
    then show ?thesis by (simp add: take_bit_eq_mod mod_mod_cancel)
  qed
  then show "1024 \<le> m" using k by (metis dvd_eq_mod_eq_0 dvd_imp_le le_trans less_eq_Suc_le One_nat_def)
qed (auto intro!: bexI [of _ 1024])

lemma takeLoop_consList: "takeLoop k (consList xs) acc ce w = (Ret (acc @ take k xs) ce, w)"
  proof (induction k arbitrary: xs acc)
  case (Suc k)
  then show ?case by (cases xs) simp_all
qed simp

lemma dropLoop_consList: "dropLoop k (consList xs) ce w = (Ret (consList (drop k xs)) ce, w)"
proof (induction k arbitrary: xs)
  case (Suc k)
  then show ?case by (cases xs) auto
qed simp

lemma indexLoop_consList:
  "j + length xs \<le> 2 ^ 63 \<Longrightarrow>
   indexLoop (consList xs) (of_nat j) idx ce w =
     (Ret (if j \<le> unat idx \<and> unat idx < j + length xs then justVal (xs ! (unat idx - j)) else nothingVal) ce, w)"
proof (induction xs arbitrary: j)
  case (Cons x xs)
  have "(of_nat j :: int64) = idx \<longleftrightarrow> unat idx = j" using Cons.prems by (auto simp: unat_of_nat)
  moreover have "indexLoop (consList xs) (of_nat j + 1) idx ce w =
      (Ret (if Suc j \<le> unat idx \<and> unat idx < Suc j + length xs then justVal (xs ! (unat idx - Suc j)) else nothingVal) ce, w)"
    using Cons.IH [of "Suc j"] Cons.prems by (simp add: add.commute)
  ultimately show ?case by (subst indexLoop.simps) (auto simp: nth_Cons')
qed (subst indexLoop.simps, auto)

lemma replicateLoop_spec:
  "checkContext (w_budget w) = None \<Longrightarrow>
   replicateLoop k i x (consList ys) ce w = (Ret (consList (replicate k x @ ys)) ce, w)"
proof (induction k arbitrary: i ys)
  case (Suc k)
  then show ?case using Suc.IH [of "i + 1" "x # ys"]
    by (simp add: tick_def replicate_app_Cons_same [symmetric])
qed simp

lemma reverseCount_consList: "reverseCount (consList xs) n ce w = (Ret (n + of_nat (length xs)) ce, w)"
  by (induction xs arbitrary: n; subst reverseCount.simps) (simp_all add: ac_simps)

lemma reverseLoop_consList: "reverseLoop (length xs) (consList xs) (consList ys) = Some (consList (rev xs @ ys))"
proof (induction xs arbitrary: ys)
  case (Cons x xs)
  then show ?case using Cons.IH [of "x # ys"] by (simp add: mkCon_def)
qed simp

lemma rangeLoop_spec:
  "checkContext (w_budget w) = None \<Longrightarrow>
   rangeLoop k i a acc ce w = (Ret (acc @ map (\<lambda>j. intVal (a + i + of_nat j)) [0..<k]) ce, w)"
proof (induction k arbitrary: i acc)
  case (Suc k)
  have "map (\<lambda>j. intVal (a + i + of_nat j)) [0..<Suc k] = intVal (a + i) # map (\<lambda>j. intVal (a + (i + 1) + of_nat j)) [0..<k]"
    by (simp add: upt_conv_Cons map_Suc_upt [symmetric] ac_simps del: upt_Suc)
  then show ?case using Suc by (simp add: tick_def ac_simps del: upt_Suc)
qed simp

lemma zipLoop_consList:
  "zipLoop (consList xs) (consList ys) acc ce w = (Ret (acc @ map (\<lambda>p. mkPair (fst p) (snd p)) (zip xs ys)) ce, w)"
proof (induction xs arbitrary: ys acc)
  case Nil
  show ?case by (cases ys; subst zipLoop.simps) (simp_all add: mkCon_def)
next
  case (Cons x xs)
  show ?case
  proof (cases ys)
    case (Cons y ys')
    then show ?thesis by (subst zipLoop.simps) (simp add: mkCon_def listView_def Cons.IH)
  qed (subst zipLoop.simps, simp add: mkCon_def)
qed

lemma unzipLoop_consList:
  "unzipLoop (consList (map (\<lambda>p. mkPair (fst p) (snd p)) ps)) as bs ce w = (Ret (as @ map fst ps, bs @ map snd ps) ce, w)"
proof (induction ps arbitrary: as bs)
  case (Cons p ps)
  then show ?case by (cases p; subst unzipLoop.simps) (simp add: pairOf_def)
qed (subst unzipLoop.simps, simp)

section \<open>Loops that call a function\<close>

lemma listMapLoop_calls:
  "listMapLoop xs f acc ce ap w = callR (mapCalls xs f ce ap w) (\<lambda>c. c) (\<lambda>ys ce w. (Ret (acc @ ys) ce, w))"
proof (induction xs f acc ce ap w rule: listMapLoop.induct)
  case (2 item items f mapped ce ap w)
  then show ?case by (auto simp: callR_assoc intro!: callR_cont_cong)
qed simp

lemma isConNamed_True: "isConNamed ''True'' v = isTrue v"
  by (simp add: isConNamed_def isTrue_def)

lemma listFilterLoop_calls:
  "listFilterLoop xs p acc ce ap w =
     callR (mapCalls xs p ce ap w) (\<lambda>c. c) (\<lambda>bs ce w. (Ret (acc @ map fst (filter (isTrue \<circ> snd) (zip xs bs))) ce, w))"
proof (induction xs p acc ce ap w rule: listFilterLoop.induct)
  case (2 item items p result ce ap w)
  then show ?case by (auto simp: callR_assoc isConNamed_True intro!: callR_cont_cong)
qed simp

lemma listFoldrLoop_eq: "listFoldrLoop = seqFoldrLoop"
proof (intro ext)
  show "listFoldrLoop xs f acc ce ap w = seqFoldrLoop xs f acc ce ap w" for xs f acc ce ap w
    by (induction xs f acc ce ap w rule: listFoldrLoop.induct) (simp_all cong: callR_cong)
qed

text \<open>Without a budget the context is never cancelled; the left fold is then the plain sequence of calls.\<close>

definition keepsContext :: "applier \<Rightarrow> val \<Rightarrow> bool" where
  "keepsContext ap f \<longleftrightarrow>
     (\<forall>args c w r c' w'. applyNA ap f args c w = (Ret r c', w') \<longrightarrow> checkContext (w_budget w) = None \<longrightarrow> checkContext (w_budget w') = None)"

lemma foldlLoop_consList:
  "keepsContext ap f \<Longrightarrow> checkContext (w_budget w) = None \<Longrightarrow>
   foldlLoop (consList xs) i f acc ce ap w = foldCalls xs f acc ce ap w"
proof (induction xs arbitrary: i acc ce w)
  case (Cons x xs)
  have step: "foldlLoop (consList xs) (i + 1) f a c ap w1 = foldCalls xs f a c ap w1"
    if "applyNA ap f [acc, x] ce w = (Ret a c, w1)" for a c w1
    using Cons.IH [OF Cons.prems(1)] that Cons.prems unfolding keepsContext_def by blast
  show ?case
    by (subst foldlLoop.simps) (use Cons.prems step in \<open>auto simp: tick_def intro!: callR_cont_cong\<close>)
qed (subst foldlLoop.simps, simp)

text \<open>Functions and predicates that compute without effects.\<close>

definition yields1 :: "applier \<Rightarrow> val \<Rightarrow> (val \<Rightarrow> val) \<Rightarrow> bool" where
  "yields1 ap f g \<longleftrightarrow> (\<forall>x c w. applyA ap f x c w = (Ret (g x) c, w))"

definition yields2 :: "applier \<Rightarrow> val \<Rightarrow> (val \<Rightarrow> val \<Rightarrow> val) \<Rightarrow> bool" where
  "yields2 ap f g \<longleftrightarrow> (\<forall>x y c w. applyNA ap f [x, y] c w = (Ret (g x y) c, w))"

fun scanList :: "('b \<Rightarrow> 'a \<Rightarrow> 'b) \<Rightarrow> 'b \<Rightarrow> 'a list \<Rightarrow> 'b list" where
  "scanList g z [] = [z]"
| "scanList g z (x # xs) = z # scanList g (g z x) xs"

lemma mapCalls_yields: "yields1 ap f g \<Longrightarrow> mapCalls xs f ce ap w = (Ret (map g xs) ce, w)"
  by (induction xs) (simp_all add: yields1_def)

lemma foldCalls_yields: "yields2 ap f g \<Longrightarrow> foldCalls xs f z ce ap w = (Ret (foldl g z xs) ce, w)"
  by (induction xs arbitrary: z) (simp_all add: yields2_def)

lemma seqFoldrLoop_yields: "yields2 ap f g \<Longrightarrow> seqFoldrLoop xs f z ce ap w = (Ret (fold g xs z) ce, w)"
  by (induction xs arbitrary: z) (simp_all add: yields2_def)

lemma foldlLoop_yields: "yields2 ap f g \<Longrightarrow> checkContext (w_budget w) = None \<Longrightarrow>
    foldlLoop (consList xs) i f z ce ap w = (Ret (foldl g z xs) ce, w)"
proof (induction xs arbitrary: i z)
  case (Cons x xs)
  then show ?case by (subst foldlLoop.simps) (simp add: tick_def yields2_def)
qed (subst foldlLoop.simps, simp)

lemma scanlLoop_yields:
  "yields2 ap f g \<Longrightarrow> scanlLoop (consList xs) f z acc ce ap w = (Ret (acc @ tl (scanList g z xs)) ce, w)"
proof (induction xs arbitrary: z acc)
  case (Cons x xs)
  have "scanList g (g z x) xs = g z x # tl (scanList g (g z x) xs)" by (cases xs) simp_all
  then show ?case using Cons by (subst scanlLoop.simps) (simp add: yields2_def)
qed (subst scanlLoop.simps, simp)

lemma boolVal_cases: "boolVal b = (if b then ConVal ''True'' [] False 0 else ConVal ''False'' [] False 0)"
  by (simp add: boolVal_def mkCon_def)

lemma spanLoop_yields:
  "yields1 ap p (boolVal \<circ> q) \<Longrightarrow>
   spanLoop (consList xs) p acc ce ap w = (Ret (acc @ takeWhile q xs, consList (dropWhile q xs)) ce, w)"
proof (induction xs arbitrary: acc)
  case (Cons x xs)
  then show ?case by (subst spanLoop.simps) (simp add: yields1_def boolVal_cases)
qed (subst spanLoop.simps, simp)

lemma dropWhileLoop_yields:
  "yields1 ap p (boolVal \<circ> q) \<Longrightarrow> dropWhileLoop (consList xs) p ce ap w = (Ret (consList (dropWhile q xs)) ce, w)"
proof (induction xs)
  case (Cons x xs)
  then show ?case by (subst dropWhileLoop.simps) (simp add: yields1_def boolVal_cases)
qed (subst dropWhileLoop.simps, simp)

lemma iterateLoop_yields:
  "yields1 ap f g \<Longrightarrow> iterateLoop k f x acc ce ap w = (Ret (acc @ map (\<lambda>i. (g ^^ i) x) [0..<k]) ce, w)"
proof (induction k arbitrary: x acc)
  case (Suc k)
  have "map (\<lambda>i. (g ^^ i) x) [0..<Suc k] = x # map (\<lambda>i. (g ^^ i) (g x)) [0..<k]"
    by (simp add: upt_conv_Cons map_Suc_upt [symmetric] funpow_swap1 del: upt_Suc)
  then show ?case using Suc by (cases k) (simp_all add: yields1_def del: upt_Suc)
qed simp

text \<open>Grouping consecutive elements by a relation to the first of the group.\<close>

function groupsOf :: "('a \<Rightarrow> 'a \<Rightarrow> bool) \<Rightarrow> 'a list \<Rightarrow> 'a list list" where
  "groupsOf q [] = []"
| "groupsOf q (x # xs) = (x # takeWhile (q x) xs) # groupsOf q (dropWhile (q x) xs)"
  by pat_completeness auto
termination by (relation "measure (\<lambda>(_, xs). length xs)") (auto simp: le_imp_less_Suc length_dropWhile_le)

lemma groupsOf_concat: "concat (groupsOf q xs) = xs"
  by (induction q xs rule: groupsOf.induct) simp_all

lemma groupByLoop_yields:
  assumes "yields2 ap eq (\<lambda>x y. boolVal (q x y))"
  shows "groupByLoop (consList xs) eq gs (Some (k, g)) ce ap w =
      (Ret (gs @ consList (g @ takeWhile (q k) xs) # map consList (groupsOf q (dropWhile (q k) xs))) ce, w)"
proof (induction xs arbitrary: gs k g)
  case (Cons x xs)
  then show ?case using assms by (subst groupByLoop.simps) (simp add: yields2_def boolVal_cases)
qed (subst groupByLoop.simps, simp)

text \<open>\<^verbatim>\<open>unfoldr\<close> ends when the chain of seeds does.\<close>

lemma unfoldrLoop_returns:
  assumes f: "yields1 ap f g"
    and more: "\<And>i. i < n \<Longrightarrow> g (s i) = justVal (mkPair (a i) (s (Suc i)))" and stop: "g (s n) = nothingVal"
  shows "unfoldrLoop f (s 0) items ce ap w = Some (Ret (items @ map a [0..<n]) ce, w)"
proof -
  have "k \<le> n \<Longrightarrow> unfoldrLoop f (s (n - k)) items ce ap w = Some (Ret (items @ map a [n - k..<n]) ce, w)" for k items
  proof (induction k arbitrary: items)
    case 0
    then show ?case using f stop by (subst unfoldrLoop.simps) (simp add: yields1_def nothingVal_def mkCon_def)
  next
    case (Suc k)
    have i: "n - Suc k < n" "Suc (n - Suc k) = n - k" using Suc.prems by auto
    have "g (s (n - Suc k)) = ConVal ''Just'' [mkPair (a (n - Suc k)) (s (n - k))] False 0"
      using more [OF i(1)] i(2) by (simp add: justVal_def mkCon_def)
    moreover have "map a [n - Suc k..<n] = a (n - Suc k) # map a [n - k..<n]" using i by (simp add: upt_conv_Cons)
    ultimately show ?case using f Suc.IH [of "items @ [a (n - Suc k)]"] Suc.prems
      by (subst unfoldrLoop.simps) (simp add: yields1_def pairOf_def)
  qed
  from this [of n] show ?thesis by simp
qed

section \<open>Sorting\<close>

text \<open>The merge by rank, which prefers the left operand on ties, joins two stable sorts.\<close>

fun mergeRk :: "('a \<Rightarrow> 'o :: linorder) \<Rightarrow> 'a list \<Rightarrow> 'a list \<Rightarrow> 'a list" where
  "mergeRk rk (x # xs) (y # ys) = (if rk x \<le> rk y then x # mergeRk rk xs (y # ys) else y # mergeRk rk (x # xs) ys)"
| "mergeRk rk xs ys = xs @ ys"

lemma mset_mergeRk [simp]: "mset (mergeRk rk xs ys) = mset xs + mset ys"
  by (induction rk xs ys rule: mergeRk.induct) simp_all

lemma set_mergeRk [simp]: "set (mergeRk rk xs ys) = set xs \<union> set ys"
  by (metis mset_mergeRk set_mset_mset set_mset_union)

lemma sorted_mergeRk: "sorted (map rk xs) \<Longrightarrow> sorted (map rk ys) \<Longrightarrow> sorted (map rk (mergeRk rk xs ys))"
  by (induction rk xs ys rule: mergeRk.induct) (auto intro: order_trans)

lemma filter_mergeRk:
  "sorted (map rk xs) \<Longrightarrow> filter (\<lambda>x. k = rk x) (mergeRk rk xs ys) = filter (\<lambda>x. k = rk x) xs @ filter (\<lambda>x. k = rk x) ys"
proof (induction rk xs ys rule: mergeRk.induct)
  case (1 rk x xs y ys)
  have "filter (\<lambda>z. rk y = rk z) (x # xs) = []" if "\<not> rk x \<le> rk y"
    using that "1.prems" by (auto simp: filter_empty_conv)
  then show ?case using 1 by auto
qed simp_all

lemma sort_key_append: "sort_key rk (xs @ ys) = mergeRk rk (sort_key rk xs) (sort_key rk ys)"
proof (rule properties_for_sort_key)
  fix k assume "k \<in> set (mergeRk rk (sort_key rk xs) (sort_key rk ys))"
  show "filter (\<lambda>x. rk k = rk x) (mergeRk rk (sort_key rk xs) (sort_key rk ys)) = filter (\<lambda>x. rk k = rk x) (xs @ ys)"
    using filter_mergeRk [of rk "sort_key rk xs" "rk k" "sort_key rk ys"]
      sort_key_stable [of rk "rk k" xs] sort_key_stable [of rk "rk k" ys] by (simp add: eq_commute)
qed (simp_all add: sorted_mergeRk)

text \<open>The step of the merge with a comparison that answers an ordering.\<close>

lemma mergeLists_Nil [simp]: "mergeLists [] r res cmp c ap w = (Ret (res @ r) c, w)" "mergeLists l [] res cmp c ap w = (Ret (res @ l) c, w)"
  by (subst mergeLists.simps, simp split: list.splits)+

lemma mergeLists_Cons:
  "mergeLists (x # xs) (y # ys) res cmp c ap w =
     callR (applyNA ap cmp [x, y] c w) (\<lambda>_. c) (\<lambda>v c w.
       case v of
         ConVal con args d n \<Rightarrow>
           if con = OrderGT then mergeLists (x # xs) ys (res @ [y]) cmp c ap w
           else mergeLists xs (y # ys) (res @ [x]) cmp c ap w
       | _ \<Rightarrow> (Err (errExpected ''sortBy'' ''Ordering'' (Inl v)) c, w))"
  by (subst mergeLists.simps) simp

context key_order
begin

lemma mergeLists_rank:
  "mergeLists l r res cmp c ap w = (Ret out c', w') \<Longrightarrow> \<forall>x \<in> set l \<union> set r. K x \<Longrightarrow> out = res @ mergeRk rk l r"
proof (induction f \<equiv> rk l r arbitrary: res c w rule: mergeRk.induct)
  case (1 x xs y ys)
  from "1.prems"(1) obtain v c1 w1 where v: "applyNA ap cmp [x, y] c w = (Ret v c1, w1)"
    and rest: "(case v of ConVal con args d n \<Rightarrow>
           if con = OrderGT then mergeLists (x # xs) ys (res @ [y]) cmp c1 ap w1
           else mergeLists xs (y # ys) (res @ [x]) cmp c1 ap w1
       | _ \<Rightarrow> (Err (errExpected ''sortBy'' ''Ordering'' (Inl v)) c1, w1)) = (Ret out c', w')"
    unfolding mergeLists_Cons by (auto elim!: callR_RetE)
  obtain args d n where "v = ConVal (if rk x < rk y then OrderLT else if rk x = rk y then OrderEQ else OrderGT) args d n"
    using cmp_sound [OF _ _ v] "1.prems"(2) by auto
  then show ?case using rest "1.hyps" "1.prems"(2)
    by (auto split: if_splits) (metis append.assoc append_Cons append_Nil)+
qed auto

lemma mergeSort_rank:
  "mergeSort xs cmp c ap w = (Ret out c', w') \<Longrightarrow> \<forall>x \<in> set xs. K x \<Longrightarrow> out = sort_key rk xs"
proof (induction xs arbitrary: out c w c' w' rule: length_induct)
  case (1 xs)
  show ?case
  proof (cases "length xs \<le> 1")
    case True
    then show ?thesis using "1.prems"(1) by (subst (asm) mergeSort.simps) (cases xs; auto)
  next
    case False
    let ?m = "length xs div 2"
    have len: "length (take ?m xs) < length xs" "length (drop ?m xs) < length xs" using False by auto
    from "1.prems"(1) False obtain l c1 w1 r c2 w2 where l: "mergeSort (take ?m xs) cmp c ap w = (Ret l c1, w1)"
      and r: "mergeSort (drop ?m xs) cmp c1 ap w1 = (Ret r c2, w2)" and m: "mergeLists l r [] cmp c2 ap w2 = (Ret out c', w')"
      by (subst (asm) mergeSort.simps) (auto simp: Let_def elim!: callR_RetE)
    have ks: "\<forall>x \<in> set (take ?m xs). K x" "\<forall>x \<in> set (drop ?m xs). K x"
      using "1.prems"(2) by (meson in_set_takeD in_set_dropD)+
    have "l = sort_key rk (take ?m xs)" "r = sort_key rk (drop ?m xs)"
      using "1.IH" len l r ks by blast+
    moreover have "\<forall>x \<in> set l \<union> set r. K x" using calculation ks by auto
    ultimately show ?thesis
      using mergeLists_rank [OF m] sort_key_append [of rk "take ?m xs" "drop ?m xs"] by simp
  qed
qed

end

context total_key_order
begin

lemma mergeLists_returns: "\<forall>x \<in> set l \<union> set r. K x \<Longrightarrow> returns (mergeLists l r res cmp c ap w)"
proof (induction f \<equiv> rk l r arbitrary: res c w rule: mergeRk.induct)
  case (1 x xs y ys)
  then obtain v c1 w1 where v: "applyNA ap cmp [x, y] c w = (Ret v c1, w1)"
    using cmp_total [of x y c w] by (auto simp: returns_def)
  then obtain args d n where "v = ConVal (if rk x < rk y then OrderLT else if rk x = rk y then OrderEQ else OrderGT) args d n"
    using cmp_sound [OF _ _ v] "1.prems" by auto
  then show ?case using "1.prems" "1.hyps" v
    by (cases "rk x \<le> rk y") (auto simp: mergeLists_Cons)
qed auto

lemma mergeSort_returns: "\<forall>x \<in> set xs. K x \<Longrightarrow> returns (mergeSort xs cmp c ap w)"
proof (induction xs arbitrary: c w rule: length_induct)
  case (1 xs)
  show ?case
  proof (cases "length xs \<le> 1")
    case True
    then show ?thesis by (subst mergeSort.simps) simp
  next
    case False
    let ?m = "length xs div 2"
    have len: "length (take ?m xs) < length xs" "length (drop ?m xs) < length xs" using False by auto
    have ks: "\<forall>x \<in> set (take ?m xs). K x" "\<forall>x \<in> set (drop ?m xs). K x"
      using "1.prems" by (meson in_set_takeD in_set_dropD)+
    have "returns (mergeLists l r [] cmp c2 ap w2)"
      if "mergeSort (take ?m xs) cmp c ap w = (Ret l c1, w1)" "mergeSort (drop ?m xs) cmp c1 ap w1 = (Ret r c2, w2)" for l r c1 w1 c2 w2
      using mergeSort_rank [OF that(1) ks(1)] mergeSort_rank [OF that(2) ks(2)] ks by (intro mergeLists_returns) auto
    then have "returns (callR (mergeSort (take ?m xs) cmp c ap w) (\<lambda>c. c) (\<lambda>l c w.
        callR (mergeSort (drop ?m xs) cmp c ap w) (\<lambda>c. c) (\<lambda>r c w. mergeLists l r [] cmp c ap w)))"
      using "1.IH" len ks by (intro returns_callR) blast+
    then show ?thesis using False by (subst mergeSort.simps) (simp add: Let_def)
  qed
qed

end

context pure_key_order
begin

lemma mergeLists_pure: "mergeLists l r res cmp c ap w = (Ret out c', w') \<Longrightarrow> c' = c \<and> w' = w"
proof (induction "length l + length r" arbitrary: l r res c w rule: less_induct)
  case less
  show ?case
  proof (cases "l = [] \<or> r = []")
    case False
    then obtain x xs y ys where l: "l = x # xs" "r = y # ys" by (meson neq_Nil_conv)
    with less.prems obtain v c1 w1 where v: "applyNA ap cmp [x, y] c w = (Ret v c1, w1)"
      and rest: "(case v of ConVal con args d n \<Rightarrow>
             if con = OrderGT then mergeLists (x # xs) ys (res @ [y]) cmp c1 ap w1
             else mergeLists xs (y # ys) (res @ [x]) cmp c1 ap w1
         | _ \<Rightarrow> (Err (errExpected ''sortBy'' ''Ordering'' (Inl v)) c1, w1)) = (Ret out c', w')"
      by (auto simp: mergeLists_Cons elim!: callR_RetE)
    have "c1 = c" "w1 = w" using cmp_pure [OF v] by auto
    then show ?thesis using rest less.hyps [of xs r] less.hyps [of l ys] l by (auto split: val.splits if_splits)
  qed (use less.prems in auto)
qed

lemma mergeSort_pure: "mergeSort xs cmp c ap w = (Ret out c', w') \<Longrightarrow> c' = c \<and> w' = w"
proof (induction xs arbitrary: out c w c' w' rule: length_induct)
  case (1 xs)
  let ?m = "length xs div 2"
  show ?case
  proof (cases "length xs \<le> 1")
    case False
    then have len: "length (take ?m xs) < length xs" "length (drop ?m xs) < length xs" by auto
    from "1.prems" False obtain l c1 w1 r c2 w2 where "mergeSort (take ?m xs) cmp c ap w = (Ret l c1, w1)"
      "mergeSort (drop ?m xs) cmp c1 ap w1 = (Ret r c2, w2)" "mergeLists l r [] cmp c2 ap w2 = (Ret out c', w')"
      by (subst (asm) mergeSort.simps) (auto simp: Let_def elim!: callR_RetE)
    then show ?thesis using "1.IH" len mergeLists_pure by metis
  qed (use "1.prems" in \<open>subst (asm) mergeSort.simps, auto\<close>)
qed

lemma mergeSort_sorts: "\<forall>x \<in> set xs. K x \<Longrightarrow> mergeSort xs cmp c ap w = (Ret (sort_key rk xs) c, w)"
  using mergeSort_returns [of xs c w] mergeSort_rank [of xs c w] mergeSort_pure [of xs c w] by (force simp: returns_def)

end

section \<open>Positions\<close>

lemma asInt64_intVal: "asInt64 (intVal n) p = Inr n"
  by (simp add: asInt64_def intVal_def)

lemma uint64_range: "0 \<le> uint (i :: int64)" "uint (i :: int64) < 2 ^ 64"
  using uint_range_size [of i] by (simp_all add: word_size)

lemma sint64_uint: "sint (i :: int64) = (if uint i < 2 ^ 63 then uint i else uint i - 2 ^ 64)"
proof -
  note u = uint64_range [of i]
  have "sint i = (uint i + 2 ^ 63) mod 2 ^ 64 - 2 ^ 63"
    by (simp add: sint_uint signed_take_bit_eq_take_bit_shift take_bit_eq_mod)
  also have "\<dots> = (if uint i < 2 ^ 63 then uint i else uint i - 2 ^ 64)"
    using u mod_pos_pos_trivial [of "uint i + 2 ^ 63" "2 ^ 64"] mod_pos_pos_trivial [of "uint i - 2 ^ 63" "2 ^ 64"]
      mod_add_self2 [of "uint i - 2 ^ 63" "2 ^ 64 :: int"] by (auto simp: algebra_simps)
  finally show ?thesis .
qed

lemma positive_unat: "0 \<le> sint (n :: int64) \<Longrightarrow> unat n = nat (sint n)"
  using uint64_range [of n] by (simp add: sint64_uint split: if_splits)

lemma below_length:
  assumes "m \<le> 2 ^ 63"
  shows "unat (i :: int64) < m \<longleftrightarrow> 0 \<le> sint i \<and> sint i < int m"
proof -
  have "unat i < m \<longleftrightarrow> uint i < int m" by (metis nat_less_iff nat_uint_eq uint_ge_0)
  then show ?thesis using assms uint64_range [of i] by (simp add: sint64_uint)
qed

lemma sint_of_length: "m < 2 ^ 63 \<Longrightarrow> sint (of_nat m :: int64) = int m"
  by (simp add: sint64_uint uint_nat unat_of_nat)

section \<open>Properties\<close>

text \<open>
  C15: For a comparator that orders the elements by rank without effects, \<^verbatim>\<open>sortBy\<close> returns the stable sort of the list by rank: the
  elements of equal rank keep their order. It charges one cell for each element and returns a list of at most one element as it is.
\<close>

theorem sort_by_stable:
  assumes "pure_key_order ap cmp K (rk :: val \<Rightarrow> 'o :: linorder)" "\<forall>x \<in> set xs. K x"
  shows "sortByImpl ce [cmp, consList xs] ap w =
    (if length xs \<le> 1 then (Ret (consList xs) ce, w)
     else charge (of_nat (length xs) * costConsNode) ce w (\<lambda>w. (Ret (consList (sort_key rk xs)) ce, w)))"
  using pure_key_order.mergeSort_sorts [OF assms] by (simp add: sortByImpl_def)

theorem sort_by_stable_witness:
  "sortByImpl emptyCapEnv [cmpIntVal, consList [intVal 3, intVal (- 1), intVal 2]] (vmApplier (intEnv failingEnv) (Suc 0)) world0 =
     (Ret (consList [intVal (- 1), intVal 2, intVal 3]) emptyCapEnv, world0)"
  using sort_by_stable [of "vmApplier (intEnv failingEnv) (Suc 0)" cmpIntVal isIntVal intRank "[intVal 3, intVal (- 1), intVal 2]"
      emptyCapEnv world0, OF intKeys.pure_key_order_axioms]
  by (simp add: charge_def chargeAlloc_def world0_def del: vmApplier.simps consList.simps)

text \<open>
  C20: On a chain of fewer than \<open>2 ^ 63\<close> elements the first-order primitives compute the list functions of their names: \<^verbatim>\<open>index\<close> answers Nothing outside
  the positions of the list and the element otherwise, \<^verbatim>\<open>take\<close> and \<^verbatim>\<open>drop\<close> split the list at any 64-bit position, negative ones counting
  as zero, \<^verbatim>\<open>concat\<close> appends, \<^verbatim>\<open>reverse\<close> reverses, \<^verbatim>\<open>zip\<close> pairs up to the shorter list, and \<^verbatim>\<open>unzip\<close> undoes it. Each builder charges one cell for every
  node it builds (a pair and a cell for \<^verbatim>\<open>zip\<close>).
\<close>

theorem list_first_order:
  assumes "length xs < 2 ^ 63"
  shows "indexImpl ce [intVal i, consList xs] ap w =
      (Ret (if 0 \<le> sint i \<and> sint i < int (length xs) then justVal (xs ! nat (sint i)) else nothingVal) ce, w) \<and>
    takeImpl ce [intVal i, consList xs] ap w =
      (if sint i \<le> 0 then (Ret (consList []) ce, w)
       else charge (of_nat (min (nat (sint i)) (length xs)) * costConsNode) ce w (\<lambda>w. (Ret (consList (take (nat (sint i)) xs)) ce, w))) \<and>
    dropImpl ce [intVal i, consList xs] ap w = (Ret (consList (drop (nat (sint i)) xs)) ce, w) \<and>
    concatImpl ce [consList xs, consList ys] ap w =
      charge (of_nat (length xs) * costConsNode) ce w (\<lambda>w. (Ret (consList (xs @ ys)) ce, w)) \<and>
    reverseImpl ce [consList xs] ap w = charge (of_nat (length xs) * costConsNode) ce w (\<lambda>w. (Ret (consList (rev xs)) ce, w)) \<and>
    zipImpl ce [consList xs, consList ys] ap w =
      charge (of_nat (min (length xs) (length ys)) * (costTupleNode + costConsNode)) ce w
        (\<lambda>w. (Ret (consList (map (\<lambda>p. mkPair (fst p) (snd p)) (zip xs ys))) ce, w)) \<and>
    unzipImpl ce [consList (map (\<lambda>p. mkPair (fst p) (snd p)) ps)] ap w =
      charge (of_nat (length ps) * 2 * costConsNode) ce w (\<lambda>w. (Ret (mkPair (consList (map fst ps)) (consList (map snd ps))) ce, w))"
proof (intro conjI)
  show "indexImpl ce [intVal i, consList xs] ap w =
      (Ret (if 0 \<le> sint i \<and> sint i < int (length xs) then justVal (xs ! nat (sint i)) else nothingVal) ce, w)"
    using indexLoop_consList [of 0 xs i ce w] assms below_length [of "length xs" i]
    by (auto simp: indexImpl_def asInt64List_def asInt64_intVal positive_unat)
  show "takeImpl ce [intVal i, consList xs] ap w =
      (if sint i \<le> 0 then (Ret (consList []) ce, w)
       else charge (of_nat (min (nat (sint i)) (length xs)) * costConsNode) ce w (\<lambda>w. (Ret (consList (take (nat (sint i)) xs)) ce, w)))"
    by (simp add: takeImpl_def asInt64List_def asInt64_intVal takeLoop_consList word_sle_eq positive_unat min.commute)
  show "dropImpl ce [intVal i, consList xs] ap w = (Ret (consList (drop (nat (sint i)) xs)) ce, w)"
    by (auto simp: dropImpl_def asInt64List_def asInt64_intVal dropLoop_consList word_sle_eq positive_unat)
  show "concatImpl ce [consList xs, consList ys] ap w =
      charge (of_nat (length xs) * costConsNode) ce w (\<lambda>w. (Ret (consList (xs @ ys)) ce, w))"
    by (simp add: concatImpl_def)
  show "reverseImpl ce [consList xs] ap w = charge (of_nat (length xs) * costConsNode) ce w (\<lambda>w. (Ret (consList (rev xs)) ce, w))"
    using reverseLoop_consList [of xs "[]"] assms by (simp add: reverseImpl_def reverseCount_consList sint_of_length)
  show "zipImpl ce [consList xs, consList ys] ap w =
      charge (of_nat (min (length xs) (length ys)) * (costTupleNode + costConsNode)) ce w
        (\<lambda>w. (Ret (consList (map (\<lambda>p. mkPair (fst p) (snd p)) (zip xs ys))) ce, w))"
    by (simp add: zipImpl_def zipLoop_consList del: mkPair_eq)
  show "unzipImpl ce [consList (map (\<lambda>p. mkPair (fst p) (snd p)) ps)] ap w =
      charge (of_nat (length ps) * 2 * costConsNode) ce w (\<lambda>w. (Ret (mkPair (consList (map fst ps)) (consList (map snd ps))) ce, w))"
    by (simp add: unzipImpl_def unzipLoop_consList del: mkPair_eq)
qed

theorem list_first_order_witness:
  "takeImpl emptyCapEnv [intVal 1, consList [UnitVal, intVal 7]] (vmApplier failingEnv 0) world0 = (Ret (consList [UnitVal]) emptyCapEnv, world0) \<and>
   reverseImpl emptyCapEnv [consList [UnitVal, intVal 7]] (vmApplier failingEnv 0) world0 = (Ret (consList [intVal 7, UnitVal]) emptyCapEnv, world0)"
  using list_first_order [of "[UnitVal, intVal 7]" emptyCapEnv 1 "vmApplier failingEnv 0" world0 _ "[]"]
  by (simp add: charge_def chargeAlloc_def world0_def del: vmApplier.simps consList.simps)

text \<open>
  C17: The higher-order primitives on a chain. Whatever the function does, \<^verbatim>\<open>map\<close> and \<^verbatim>\<open>filter\<close> call it on each element in order, threading the
  capability environment, and stop at the first error, and \<^verbatim>\<open>foldr\<close> calls it from the last element to the first. For functions that compute
  without effects \<^verbatim>\<open>foldl\<close>, \<^verbatim>\<open>scanl\<close>, \<^verbatim>\<open>span\<close>, \<^verbatim>\<open>dropWhile\<close> and \<^verbatim>\<open>groupBy\<close> are the list functions of their names; the groups
  concatenate to the list.
\<close>

theorem list_higher_order:
  assumes "yields2 ap f2 g" "yields1 ap p (boolVal \<circ> q)" "yields2 ap eq (\<lambda>x y. boolVal (r x y))" "checkContext (w_budget w) = None"
  shows "listMapImpl ce [f, consList xs] ap w =
      charge (of_nat (length xs) * costConsNode) ce w (\<lambda>w.
        callR (mapCalls xs f ce ap w) (\<lambda>c. c) (\<lambda>ys ce w. (Ret (consList ys) ce, w))) \<and>
    listFilterImpl ce [f, consList xs] ap w =
      callR (mapCalls xs f ce ap w) (\<lambda>c. c) (\<lambda>bs ce w.
        let ys = map fst (filter (isTrue \<circ> snd) (zip xs bs))
        in charge (of_nat (length ys) * costConsNode) ce w (\<lambda>w. (Ret (consList ys) ce, w))) \<and>
    listFoldrImpl ce [f, z, consList xs] ap w = seqFoldrLoop (rev xs) f z ce ap w \<and>
    foldlImpl ce [f2, z, consList xs] ap w = (Ret (foldl g z xs) ce, w) \<and>
    scanlImpl ce [f2, z, consList xs] ap w =
      charge (of_nat (Suc (length xs)) * costConsNode) ce w (\<lambda>w. (Ret (consList (scanList g z xs)) ce, w)) \<and>
    spanImpl ce [p, consList xs] ap w =
      charge (of_nat (length (takeWhile q xs)) * costConsNode) ce w
        (\<lambda>w. (Ret (mkPair (consList (takeWhile q xs)) (consList (dropWhile q xs))) ce, w)) \<and>
    dropWhileImpl ce [p, consList xs] ap w = (Ret (consList (dropWhile q xs)) ce, w) \<and>
    (\<exists>gs. concat gs = xs \<and> gs = groupsOf r xs \<and>
      groupByImpl ce [eq, consList xs] ap w =
        charge (of_nat (length gs) * costConsNode) ce w (\<lambda>w. (Ret (consList (map consList gs)) ce, w)))"
proof (intro conjI)
  show "listMapImpl ce [f, consList xs] ap w =
      charge (of_nat (length xs) * costConsNode) ce w (\<lambda>w.
        callR (mapCalls xs f ce ap w) (\<lambda>c. c) (\<lambda>ys ce w. (Ret (consList ys) ce, w)))"
    by (simp add: listMapImpl_def listMapLoop_calls callR_assoc)
  show "listFilterImpl ce [f, consList xs] ap w =
      callR (mapCalls xs f ce ap w) (\<lambda>c. c) (\<lambda>bs ce w.
        let ys = map fst (filter (isTrue \<circ> snd) (zip xs bs))
        in charge (of_nat (length ys) * costConsNode) ce w (\<lambda>w. (Ret (consList ys) ce, w)))"
    by (simp add: listFilterImpl_def listFilterLoop_calls callR_assoc Let_def)
  show "listFoldrImpl ce [f, z, consList xs] ap w = seqFoldrLoop (rev xs) f z ce ap w"
    by (simp add: listFoldrImpl_def listFoldrLoop_eq)
  show "foldlImpl ce [f2, z, consList xs] ap w = (Ret (foldl g z xs) ce, w)"
    using foldlLoop_yields [OF assms(1,4)] by (simp add: foldlImpl_def)
  have len: "length (scanList g z xs) = Suc (length xs)" by (induction xs arbitrary: z) auto
  moreover have "scanList g z xs = z # tl (scanList g z xs)" by (cases xs) simp_all
  ultimately show "scanlImpl ce [f2, z, consList xs] ap w =
      charge (of_nat (Suc (length xs)) * costConsNode) ce w (\<lambda>w. (Ret (consList (scanList g z xs)) ce, w))"
    using scanlLoop_yields [OF assms(1), of xs z "[z]" ce w] by (simp add: scanlImpl_def del: of_nat_Suc)
  show "spanImpl ce [p, consList xs] ap w =
      charge (of_nat (length (takeWhile q xs)) * costConsNode) ce w
        (\<lambda>w. (Ret (mkPair (consList (takeWhile q xs)) (consList (dropWhile q xs))) ce, w))"
    by (simp add: spanImpl_def spanLoop_yields [OF assms(2)])
  show "dropWhileImpl ce [p, consList xs] ap w = (Ret (consList (dropWhile q xs)) ce, w)"
    by (simp add: dropWhileImpl_def dropWhileLoop_yields [OF assms(2)])
  have "groupByLoop (consList xs) eq [] None ce ap w = (Ret (map consList (groupsOf r xs)) ce, w)"
    using groupByLoop_yields [OF assms(3)] by (cases xs; subst groupByLoop.simps) simp_all
  then show "\<exists>gs. concat gs = xs \<and> gs = groupsOf r xs \<and>
      groupByImpl ce [eq, consList xs] ap w =
        charge (of_nat (length gs) * costConsNode) ce w (\<lambda>w. (Ret (consList (map consList gs)) ce, w))"
    by (simp add: groupByImpl_def groupsOf_concat)
qed

theorem list_higher_order_witness:
  "\<exists>ap. foldlImpl emptyCapEnv [UnitVal, UnitVal, consList [intVal 1, intVal 2]] ap world0 = (Ret (mkPair (mkPair UnitVal (intVal 1)) (intVal 2)) emptyCapEnv, world0)"
proof -
  define pick where "pick f x y = (if f = UnitVal then mkPair x y else boolVal (x = y))" for f x y
  define ap where "ap = (applierFrom (\<lambda>_ _ c w. (Ret (boolVal True) c, w)))
      \<lparr> applyNA := (\<lambda>f args c w. (Ret (pick f (args ! 0) (args ! 1)) c, w)) \<rparr>"
  have "yields2 ap UnitVal mkPair" "yields1 ap UnitVal (boolVal \<circ> (\<lambda>_. True))" "yields2 ap (intVal 0) (\<lambda>x y. boolVal (x = y))"
    by (simp_all add: yields1_def yields2_def ap_def pick_def applierFrom_def UnitVal_def intVal_def)
  from list_higher_order [OF this, of world0 emptyCapEnv UnitVal "[intVal 1, intVal 2]" UnitVal]
  show ?thesis by (auto simp: world0_def checkContext_def)
qed

section \<open>Sizes that wrap\<close>

lemma int64_wraps:
  "(18446744073709551616 :: int64) = 0" "(1180591620717411303424 :: int64) = 0" "(590295810358705651712 :: int64) = 0"
  by (transfer, simp add: take_bit_eq_mod)+

text \<open>
  \<^verbatim>\<open>replicate\<close>, \<^verbatim>\<open>range\<close> and \<^verbatim>\<open>iterateN\<close> multiply the number of elements by the cost of a cell in 64-bit arithmetic, without the check that
  \<^verbatim>\<open>checkedMulCost\<close> has: \<open>2 ^ 58\<close> elements cost nothing.
\<close>

theorem replicate_charge_wraps:
  "replicateImpl ce [intVal (2 ^ 58), x] ap w = charge 0 ce w (\<lambda>w. replicateLoop (2 ^ 58) 0 x (mkCon ListNil []) ce w)"
  by (simp add: replicateImpl_def asInt64List_def asInt64_intVal costConsNode_def word_sle_eq int64_wraps)

text \<open>The number of elements of a range wraps too: the range of all integers is empty, and other ranges of more than \<open>2 ^ 63\<close> elements panic.\<close>

theorem range_count_wraps:
  "rangeImpl ce [intVal (- (2 ^ 63)), intVal MaxInt64] ap w = charge 0 ce w (\<lambda>w. (Ret (consList []) ce, w)) \<and>
   rangeImpl ce [intVal 0, intVal MaxInt64] ap w = charge 0 ce w (\<lambda>w. (Panic, w))"
  by (simp add: rangeImpl_def asInt64List_def asInt64_intVal costConsNode_def sint64_lt int64_wraps)

end
