(* ===== verification/Slice_Prims.thy ===== *)
theory Slice_Prims
  imports List_Laws
begin

text \<open>
  The primitives of \<^verbatim>\<open>Data.Slice\<close>, \<^verbatim>\<open>internal/host/stdlib/slice.go\<close>. A slice is an immutable Go slice of values: no primitive writes to one after it
  is returned, so it is a list here, and \<^verbatim>\<open>s[start:end]\<close>, which shares the array, is a sublist. A nil slice is the empty one. The loops that map,
  filter and fold are those of the list primitives. Sorting is an insertion sort in a copy of the slice, modelled by index with updates of that copy.
\<close>

section \<open>Primitives\<close>

definition asSlice :: "val \<Rightarrow> err + val list" where
  "asSlice v =
     (case v of
        HostVal h \<Rightarrow> (case h of HSlice s \<Rightarrow> Inr s | _ \<Rightarrow> Inl (errExpected ''stdlib/slice'' ''[]Value'' (Inr h)))
      | _ \<Rightarrow> Inl (errExpected ''stdlib/slice'' ''HostVal'' (Inl v)))"

definition sliceVal :: "val list \<Rightarrow> val" where "sliceVal items = HostVal (HSlice items)"

definition sliceEmptyImpl :: primImpl where
  "sliceEmptyImpl ce args ap w = (Ret (sliceVal []) ce, w)"

definition sliceSingletonImpl :: primImpl where
  "sliceSingletonImpl ce args ap w = argN args 0 w (\<lambda>x. (Ret (sliceVal [x]) ce, w))"

definition sliceLengthImpl :: primImpl where
  "sliceLengthImpl ce args ap w =
     argN args 0 w (\<lambda>a. tryE (asSlice a) ce w (\<lambda>s. (Ret (intVal (of_nat (length s))) ce, w)))"

definition sliceIndexImpl :: primImpl where
  "sliceIndexImpl ce args ap w =
     argN args 0 w (\<lambda>a. tryE (asInt64 a ''slice'') ce w (\<lambda>idx.
     argN args 1 w (\<lambda>b. tryE (asSlice b) ce w (\<lambda>s.
     if idx <s 0 \<or> of_nat (length s) \<le>s idx then (Ret nothingVal ce, w)
     else (Ret (justVal (s ! unat idx)) ce, w)))))"

definition sliceFromListImpl :: primImpl where
  "sliceFromListImpl ce args ap w =
     argN args 0 w (\<lambda>a.
     case listToSlice a of
       None \<Rightarrow> (Err (PlainErr ''sliceFromList: expected List'') ce, w)
     | Some items \<Rightarrow> charge (of_nat (length items) * 2 * costSlotSize) ce w (\<lambda>w. (Ret (sliceVal items) ce, w)))"

definition sliceToListImpl :: primImpl where
  "sliceToListImpl ce args ap w =
     argN args 0 w (\<lambda>a. tryE (asSlice a) ce w (\<lambda>s.
     charge (of_nat (length s) * costConsNode) ce w (\<lambda>w. (Ret (buildList s) ce, w))))"

definition sliceFoldrImpl :: primImpl where
  "sliceFoldrImpl ce args ap w =
     argN args 0 w (\<lambda>f. argN args 1 w (\<lambda>z. argN args 2 w (\<lambda>a. tryE (asSlice a) ce w (\<lambda>s.
     listFoldrLoop (rev s) f z ce ap w))))"

definition sliceMapImpl :: primImpl where
  "sliceMapImpl ce args ap w =
     argN args 0 w (\<lambda>f. argN args 1 w (\<lambda>a. tryE (asSlice a) ce w (\<lambda>s.
     charge (of_nat (length s) * costSlotSize) ce w (\<lambda>w.
     callR (listMapLoop s f [] ce ap w) (\<lambda>c. c) (\<lambda>result ce w. (Ret (sliceVal result) ce, w))))))"

definition sliceFoldlImpl :: primImpl where
  "sliceFoldlImpl ce args ap w =
     argN args 0 w (\<lambda>f. argN args 1 w (\<lambda>acc. argN args 2 w (\<lambda>a. tryE (asSlice a) ce w (\<lambda>s.
     foldCalls s f acc ce ap w))))"

definition sliceAppendImpl :: primImpl where
  "sliceAppendImpl ce args ap w =
     argN args 0 w (\<lambda>x. tryE (asSlice x) ce w (\<lambda>a. argN args 1 w (\<lambda>y. tryE (asSlice y) ce w (\<lambda>b.
     charge (of_nat (length a + length b) * costSlotSize) ce w (\<lambda>w. (Ret (sliceVal (a @ b)) ce, w))))))"

definition sliceFilterImpl :: primImpl where
  "sliceFilterImpl ce args ap w =
     argN args 0 w (\<lambda>pred. argN args 1 w (\<lambda>a. tryE (asSlice a) ce w (\<lambda>s.
     callR (listFilterLoop s pred [] ce ap w) (\<lambda>c. c) (\<lambda>result ce w.
     charge (of_nat (length result) * costSlotSize) ce w (\<lambda>w. (Ret (sliceVal result) ce, w))))))"

text \<open>\<^verbatim>\<open>result[n-1-i] = v\<close> for every element.\<close>

definition sliceReverseImpl :: primImpl where
  "sliceReverseImpl ce args ap w =
     argN args 0 w (\<lambda>a. tryE (asSlice a) ce w (\<lambda>s.
     let n = length s
     in charge (of_nat n * costSlotSize) ce w (\<lambda>w. (Ret (sliceVal (map (\<lambda>k. s ! (n - 1 - k)) [0..<n])) ce, w))))"

fun zipWithLoop :: "(val \<times> val) list \<Rightarrow> val \<Rightarrow> val list \<Rightarrow> capEnv \<Rightarrow> applier \<Rightarrow> world \<Rightarrow> val list gores" where
  "zipWithLoop [] f result ce ap w = (Ret result ce, w)"
| "zipWithLoop ((a, b) # ps) f result ce ap w =
     callR (applyNA ap f [a, b] ce w) (\<lambda>_. ce) (\<lambda>v ce w. zipWithLoop ps f (result @ [v]) ce ap w)"

definition sliceZipWithImpl :: primImpl where
  "sliceZipWithImpl ce args ap w =
     argN args 0 w (\<lambda>f. argN args 1 w (\<lambda>x. tryE (asSlice x) ce w (\<lambda>sa. argN args 2 w (\<lambda>y. tryE (asSlice y) ce w (\<lambda>sb.
     let n = (if length sb < length sa then length sb else length sa)
     in charge (of_nat n * costSlotSize) ce w (\<lambda>w.
        callR (zipWithLoop (zip (take n sa) (take n sb)) f [] ce ap w) (\<lambda>c. c) (\<lambda>result ce w. (Ret (sliceVal result) ce, w))))))))"

text \<open>The first pass over the outer slice converts every element, the second appends them.\<close>

fun asSlices :: "val list \<Rightarrow> err + val list list" where
  "asSlices [] = Inr []"
| "asSlices (item # items) =
     (case asSlice item of
        Inl e \<Rightarrow> Inl e
      | Inr inner \<Rightarrow> (case asSlices items of Inl e \<Rightarrow> Inl e | Inr inners \<Rightarrow> Inr (inner # inners)))"

definition sliceConcatImpl :: primImpl where
  "sliceConcatImpl ce args ap w =
     argN args 0 w (\<lambda>a. tryE (asSlice a) ce w (\<lambda>outer. tryE (asSlices outer) ce w (\<lambda>inners.
     charge (of_nat (sum_list (map length inners)) * costSlotSize) ce w (\<lambda>w. (Ret (sliceVal (concat inners)) ce, w)))))"

definition sliceReplicateImpl :: primImpl where
  "sliceReplicateImpl ce args ap w =
     argN args 0 w (\<lambda>a. tryE (asInt64 a ''slice'') ce w (\<lambda>n.
     if n \<le>s 0 then (Ret (sliceVal []) ce, w)
     else charge (n * costSlotSize) ce w (\<lambda>w. argN args 1 w (\<lambda>x. (Ret (sliceVal (replicate (unat n) x)) ce, w)))))"

definition sliceGenerateImpl :: primImpl where
  "sliceGenerateImpl ce args ap w =
     argN args 0 w (\<lambda>a. tryE (asInt64 a ''slice'') ce w (\<lambda>n. argN args 1 w (\<lambda>f.
     if n \<le>s 0 then (Ret (sliceVal []) ce, w)
     else charge (n * costSlotSize) ce w (\<lambda>w.
       callR (listMapLoop (map (\<lambda>i. intVal (of_nat i)) [0..<unat n]) f [] ce ap w) (\<lambda>c. c)
         (\<lambda>result ce w. (Ret (sliceVal result) ce, w))))))"

text \<open>\<^verbatim>\<open>make\<close> panics for the negative length that a wrapped difference gives.\<close>

definition sliceRangeImpl :: primImpl where
  "sliceRangeImpl ce args ap w =
     argN args 0 w (\<lambda>a. tryE (asInt64 a ''slice'') ce w (\<lambda>lo. argN args 1 w (\<lambda>b. tryE (asInt64 b ''slice'') ce w (\<lambda>hi.
     if hi <s lo then (Ret (sliceVal []) ce, w)
     else let n = hi - lo
       in charge (n * costSlotSize) ce w (\<lambda>w.
          if n <s 0 then (Panic, w)
          else (Ret (sliceVal (map (\<lambda>i. intVal (lo + of_nat i)) [0..<unat n])) ce, w))))))"

definition sliceSliceImpl :: primImpl where
  "sliceSliceImpl ce args ap w =
     argN args 0 w (\<lambda>a. tryE (asInt64 a ''slice'') ce w (\<lambda>start. argN args 1 w (\<lambda>b. tryE (asInt64 b ''slice'') ce w (\<lambda>end'.
     argN args 2 w (\<lambda>c. tryE (asSlice c) ce w (\<lambda>s.
     let n = of_nat (length s);
         start = (if start <s 0 then 0 else start);
         end' = (if n <s end' then n else end')
     in if end' \<le>s start then (Ret (sliceVal []) ce, w)
        else (Ret (sliceVal (take (unat end' - unat start) (drop (unat start) s))) ce, w)))))))"

section \<open>Insertion sort\<close>

text \<open>The ordering a comparison result stands for; anything else counts as \<^verbatim>\<open>GT\<close>.\<close>

definition orderingOf :: "val \<Rightarrow> int" where
  "orderingOf v =
     (case v of
        ConVal con cargs d n \<Rightarrow> if con = OrderLT then - 1 else if con = OrderEQ then 0 else 1
      | _ \<Rightarrow> 1)"

text \<open>The inner loop with \<open>j + 1\<close> elements left to compare: larger ones move one place up, the result is the place of the key.\<close>

fun shiftLoop :: "nat \<Rightarrow> val list \<Rightarrow> val \<Rightarrow> val \<Rightarrow> capEnv \<Rightarrow> applier \<Rightarrow> world \<Rightarrow> (nat \<times> val list) gores" where
  "shiftLoop 0 arr key cmp ce ap w = (Ret (0, arr) ce, w)"
| "shiftLoop (Suc j) arr key cmp ce ap w =
     callR (applyNA ap cmp [arr ! j, key] ce w) (\<lambda>_. ce) (\<lambda>v ce w.
     if orderingOf v \<le> 0 then (Ret (Suc j, arr) ce, w)
     else shiftLoop j (arr[Suc j := arr ! j]) key cmp ce ap w)"

text \<open>The outer loop for the indices \<open>i, i + 1, \<dots>\<close> with \<open>k\<close> of them left.\<close>

fun insertionLoop :: "nat \<Rightarrow> nat \<Rightarrow> val list \<Rightarrow> val \<Rightarrow> capEnv \<Rightarrow> applier \<Rightarrow> world \<Rightarrow> val list gores" where
  "insertionLoop 0 i arr cmp ce ap w = (Ret arr ce, w)"
| "insertionLoop (Suc k) i arr cmp ce ap w =
     callR (shiftLoop i arr (arr ! i) cmp ce ap w) (\<lambda>c. c) (\<lambda>(p, moved) ce w.
     insertionLoop k (Suc i) (moved[p := arr ! i]) cmp ce ap w)"

definition sliceSortByImpl :: primImpl where
  "sliceSortByImpl ce args ap w =
     argN args 0 w (\<lambda>cmp. argN args 1 w (\<lambda>a. tryE (asSlice a) ce w (\<lambda>s.
     if length s \<le> 1 then (Ret (sliceVal s) ce, w)
     else charge (of_nat (length s) * costSlotSize) ce w (\<lambda>w.
       callR (insertionLoop (length s - 1) 1 s cmp ce ap w) (\<lambda>c. c) (\<lambda>arr ce w. (Ret (sliceVal arr) ce, w))))))"

section \<open>Searching\<close>

fun sliceAnyLoop :: "val list \<Rightarrow> val \<Rightarrow> capEnv \<Rightarrow> applier \<Rightarrow> world \<Rightarrow> val gores" where
  "sliceAnyLoop [] pred ce ap w = (Ret (mkCon ''False'' []) ce, w)"
| "sliceAnyLoop (item # items) pred ce ap w =
     callR (applyA ap pred item ce w) (\<lambda>_. ce) (\<lambda>v ce w.
     if isConNamed ''True'' v then (Ret (mkCon ''True'' []) ce, w) else sliceAnyLoop items pred ce ap w)"

definition sliceAnyImpl :: primImpl where
  "sliceAnyImpl ce args ap w =
     argN args 0 w (\<lambda>pred. argN args 1 w (\<lambda>a. tryE (asSlice a) ce w (\<lambda>s. sliceAnyLoop s pred ce ap w)))"

fun sliceAllLoop :: "val list \<Rightarrow> val \<Rightarrow> capEnv \<Rightarrow> applier \<Rightarrow> world \<Rightarrow> val gores" where
  "sliceAllLoop [] pred ce ap w = (Ret (mkCon ''True'' []) ce, w)"
| "sliceAllLoop (item # items) pred ce ap w =
     callR (applyA ap pred item ce w) (\<lambda>_. ce) (\<lambda>v ce w.
     if isConNamed ''False'' v then (Ret (mkCon ''False'' []) ce, w) else sliceAllLoop items pred ce ap w)"

definition sliceAllImpl :: primImpl where
  "sliceAllImpl ce args ap w =
     argN args 0 w (\<lambda>pred. argN args 1 w (\<lambda>a. tryE (asSlice a) ce w (\<lambda>s. sliceAllLoop s pred ce ap w)))"

fun sliceFindLoop :: "val list \<Rightarrow> val \<Rightarrow> capEnv \<Rightarrow> applier \<Rightarrow> world \<Rightarrow> val gores" where
  "sliceFindLoop [] pred ce ap w = (Ret nothingVal ce, w)"
| "sliceFindLoop (item # items) pred ce ap w =
     callR (applyA ap pred item ce w) (\<lambda>_. ce) (\<lambda>v ce w.
     if isConNamed ''True'' v then (Ret (justVal item) ce, w) else sliceFindLoop items pred ce ap w)"

definition sliceFindImpl :: primImpl where
  "sliceFindImpl ce args ap w =
     argN args 0 w (\<lambda>pred. argN args 1 w (\<lambda>a. tryE (asSlice a) ce w (\<lambda>s. sliceFindLoop s pred ce ap w)))"

fun sliceFindIndexLoop :: "val list \<Rightarrow> nat \<Rightarrow> val \<Rightarrow> capEnv \<Rightarrow> applier \<Rightarrow> world \<Rightarrow> val gores" where
  "sliceFindIndexLoop [] i pred ce ap w = (Ret nothingVal ce, w)"
| "sliceFindIndexLoop (item # items) i pred ce ap w =
     callR (applyA ap pred item ce w) (\<lambda>_. ce) (\<lambda>v ce w.
     if isConNamed ''True'' v then (Ret (justVal (intVal (of_nat i))) ce, w)
     else sliceFindIndexLoop items (Suc i) pred ce ap w)"

definition sliceFindIndexImpl :: primImpl where
  "sliceFindIndexImpl ce args ap w =
     argN args 0 w (\<lambda>pred. argN args 1 w (\<lambda>a. tryE (asSlice a) ce w (\<lambda>s. sliceFindIndexLoop s 0 pred ce ap w)))"

definition slicePack :: "primImpl primRegistry \<Rightarrow> primImpl primRegistry" where
  "slicePack = registerAll
     [(''_sliceEmpty'', sliceEmptyImpl), (''_sliceSingleton'', sliceSingletonImpl), (''_sliceLength'', sliceLengthImpl),
      (''_sliceIndex'', sliceIndexImpl), (''_sliceFromList'', sliceFromListImpl), (''_sliceToList'', sliceToListImpl),
      (''_sliceFoldr'', sliceFoldrImpl), (''_sliceMap'', sliceMapImpl), (''_sliceFoldl'', sliceFoldlImpl),
      (''_sliceAppend'', sliceAppendImpl), (''_sliceFilter'', sliceFilterImpl), (''_sliceReverse'', sliceReverseImpl),
      (''_sliceZipWith'', sliceZipWithImpl), (''_sliceConcat'', sliceConcatImpl), (''_sliceReplicate'', sliceReplicateImpl),
      (''_sliceGenerate'', sliceGenerateImpl), (''_sliceRange'', sliceRangeImpl), (''_sliceSlice'', sliceSliceImpl),
      (''_sliceSortBy'', sliceSortByImpl), (''_sliceAny'', sliceAnyImpl), (''_sliceAll'', sliceAllImpl),
      (''_sliceFind'', sliceFindImpl), (''_sliceFindIndex'', sliceFindIndexImpl)]"

section \<open>Sorting\<close>

text \<open>Inserting behind the elements of smaller or equal rank, from the right.\<close>

fun insRev :: "('a \<Rightarrow> 'o :: linorder) \<Rightarrow> 'a \<Rightarrow> 'a list \<Rightarrow> 'a list" where
  "insRev rk key [] = [key]"
| "insRev rk key (y # ys) = (if rk y \<le> rk key then key # y # ys else y # insRev rk key ys)"

definition insRight :: "('a \<Rightarrow> 'o :: linorder) \<Rightarrow> 'a \<Rightarrow> 'a list \<Rightarrow> 'a list" where
  "insRight rk key xs = rev (insRev rk key (rev xs))"

lemma insRight_snoc:
  "insRight rk key (xs @ [y]) = (if rk y \<le> rk key then xs @ [y, key] else insRight rk key xs @ [y])"
  by (simp add: insRight_def)

lemma insRight_Nil [simp]: "insRight rk key [] = [key]"
  by (simp add: insRight_def)

lemma mset_insRight [simp]: "mset (insRight rk key xs) = add_mset key (mset xs)"
  by (induction xs rule: rev_induct) (simp_all add: insRight_snoc)

lemma set_insRight [simp]: "set (insRight rk key xs) = insert key (set xs)"
  by (metis mset_insRight set_mset_add_mset_insert set_mset_mset)

lemma sorted_insRight: "sorted (map rk xs) \<Longrightarrow> sorted (map rk (insRight rk key xs))"
  by (induction xs rule: rev_induct) (auto simp: insRight_snoc sorted_append)

lemma filter_insRight:
  "sorted (map rk xs) \<Longrightarrow> filter (\<lambda>x. k = rk x) (insRight rk key xs) = filter (\<lambda>x. k = rk x) (xs @ [key])"
  by (induction xs rule: rev_induct) (auto simp: insRight_snoc sorted_append)

lemma sort_key_snoc: "sort_key rk (xs @ [x]) = insRight rk x (sort_key rk xs)"
proof (rule properties_for_sort_key)
  fix k assume "k \<in> set (insRight rk x (sort_key rk xs))"
  show "filter (\<lambda>y. rk k = rk y) (insRight rk x (sort_key rk xs)) = filter (\<lambda>y. rk k = rk y) (xs @ [x])"
    using filter_insRight [of rk "sort_key rk xs" "rk k" x] sort_key_stable [of rk "rk k" xs] by (simp add: eq_commute)
qed (simp_all add: sorted_insRight)

context pure_key_order
begin

lemma cmp_ordering:
  assumes "K a" "K b"
  shows "\<exists>v. applyNA ap cmp [a, b] c w = (Ret v c, w) \<and> (orderingOf v \<le> 0 \<longleftrightarrow> rk a \<le> rk b)"
proof -
  obtain v c1 w1 where v: "applyNA ap cmp [a, b] c w = (Ret v c1, w1)" using cmp_total [OF assms, of c w] by (auto simp: returns_def)
  moreover have "c1 = c" "w1 = w" using cmp_pure [OF v] by auto
  ultimately show ?thesis using cmp_sound [OF assms v] by (auto simp: orderingOf_def split: if_splits)
qed

lemma shiftLoop_inserts:
  "j < length arr \<Longrightarrow> \<forall>x \<in> set arr. K x \<Longrightarrow> K key \<Longrightarrow>
   \<exists>p moved. shiftLoop j arr key cmp c ap w = (Ret (p, moved) c, w) \<and>
     moved[p := key] = insRight rk key (take j arr) @ drop (Suc j) arr"
proof (induction j arbitrary: arr)
  case 0
  then show ?case by (cases arr) auto
next
  case (Suc j)
  obtain v where v: "applyNA ap cmp [arr ! j, key] c w = (Ret v c, w)" "orderingOf v \<le> 0 \<longleftrightarrow> rk (arr ! j) \<le> rk key"
    using cmp_ordering [of "arr ! j" key c w] Suc.prems by auto
  have tk: "take (Suc j) arr = take j arr @ [arr ! j]" using Suc.prems by (simp add: take_Suc_conv_app_nth)
  show ?case
  proof (cases "rk (arr ! j) \<le> rk key")
    case True
    then have "arr[Suc j := key] = insRight rk key (take (Suc j) arr) @ drop (Suc (Suc j)) arr"
      using Suc.prems tk by (simp add: insRight_snoc upd_conv_take_nth_drop)
    then show ?thesis using v True by simp
  next
    case False
    let ?arr = "arr[Suc j := arr ! j]"
    obtain p moved where m: "shiftLoop j ?arr key cmp c ap w = (Ret (p, moved) c, w)"
        "moved[p := key] = insRight rk key (take j ?arr) @ drop (Suc j) ?arr"
      using Suc.IH [of ?arr] Suc.prems set_update_subset_insert [of arr "Suc j" "arr ! j"] by fastforce
    have "drop (Suc j) ?arr = arr ! j # drop (Suc (Suc j)) arr"
      using Suc.prems by (simp add: drop_update_swap Cons_nth_drop_Suc [symmetric])
    then have "moved[p := key] = insRight rk key (take (Suc j) arr) @ drop (Suc (Suc j)) arr"
      using m(2) False tk by (simp add: insRight_snoc)
    then show ?thesis using v False m(1) by simp
  qed
qed

lemma insertionLoop_sorts:
  "length arr = i + k \<Longrightarrow> \<forall>x \<in> set arr. K x \<Longrightarrow> take i arr = sort_key rk (take i xs) \<Longrightarrow> drop i arr = drop i xs \<Longrightarrow>
   insertionLoop k i arr cmp c ap w = (Ret (sort_key rk xs) c, w)"
proof (induction k arbitrary: i arr)
  case (Suc k)
  let ?key = "arr ! i"
  have i: "i < length arr" using Suc.prems(1) by simp
  then obtain p moved where m: "shiftLoop i arr ?key cmp c ap w = (Ret (p, moved) c, w)"
      "moved[p := ?key] = insRight rk ?key (take i arr) @ drop (Suc i) arr"
    using shiftLoop_inserts [of i arr ?key c w] Suc.prems by auto
  define next' where "next' = moved[p := ?key]"
  have len: "length xs = length arr" using Suc.prems(3,4) i by (metis append_take_drop_id length_append length_sort)
  have key: "xs ! i = ?key" using Suc.prems(4) i len by (metis Cons_nth_drop_Suc list.inject)
  have lr: "length (insRight rk ?key (take i arr)) = Suc i" using i by (metis length_take min.absorb4 mset_insRight size_add_mset size_mset)
  have "take (Suc i) next' = sort_key rk (take (Suc i) xs)"
    using m(2) lr Suc.prems(3) i len key sort_key_snoc [of rk "take i xs" ?key]
    by (simp add: next'_def take_Suc_conv_app_nth)
  moreover have "drop (Suc i) next' = drop (Suc i) xs"
    using m(2) lr Suc.prems(4) by (simp add: next'_def) (metis drop_Suc drop_drop plus_1_eq_Suc)
  moreover have "length next' = Suc i + k" using m(2) lr Suc.prems(1) by (simp add: next'_def)
  moreover have "\<forall>x \<in> set next'. K x"
    using m(2) Suc.prems(2) i by (auto simp: next'_def dest: in_set_takeD in_set_dropD)
  ultimately have "insertionLoop k (Suc i) next' cmp c ap w = (Ret (sort_key rk xs) c, w)" by (intro Suc.IH)
  then show ?case using m(1) by (simp add: next'_def)
qed simp

lemma insertion_sorts:
  assumes "\<forall>x \<in> set xs. K x" "xs \<noteq> []"
  shows "insertionLoop (length xs - 1) 1 xs cmp c ap w = (Ret (sort_key rk xs) c, w)"
  using assms by (intro insertionLoop_sorts) (cases xs; auto)+

end

section \<open>Laws\<close>

lemma asSlice_sliceVal [simp]: "asSlice (sliceVal xs) = Inr xs"
  by (simp add: asSlice_def sliceVal_def)

lemma asSlices_sliceVal [simp]: "asSlices (map sliceVal xss) = Inr xss"
  by (induction xss) simp_all

lemma rev_by_index: "map (\<lambda>k. xs ! (length xs - 1 - k)) [0..<length xs] = rev xs"
  by (rule nth_equalityI) (simp_all add: rev_nth)

lemma length_wordle: "length xs < 2 ^ 63 \<Longrightarrow> of_nat (length xs) \<le>s (i :: int64) \<longleftrightarrow> int (length xs) \<le> sint i"
  by (simp add: sint64_le sint_of_length)

text \<open>
  For a comparator that orders the elements by rank without effects, the insertion sort of \<^verbatim>\<open>Data.Slice\<close> and the merge sort of the list
  primitives agree: both return the stable sort by rank, and so sorting a slice and converting it gives the sorted list.
\<close>

theorem slice_sort_stable:
  assumes "pure_key_order ap cmp K (rk :: val \<Rightarrow> 'o :: linorder)" "\<forall>x \<in> set xs. K x"
  shows "sliceSortByImpl ce [cmp, sliceVal xs] ap w =
    (if length xs \<le> 1 then (Ret (sliceVal xs) ce, w)
     else charge (of_nat (length xs) * costSlotSize) ce w (\<lambda>w. (Ret (sliceVal (sort_key rk xs)) ce, w))) \<and>
    (\<exists>ys. (xs \<noteq> [] \<longrightarrow> insertionLoop (length xs - 1) 1 xs cmp ce ap w = (Ret ys ce, w)) \<and> mergeSort xs cmp ce ap w = (Ret ys ce, w))"
  using pure_key_order.insertion_sorts [OF assms] pure_key_order.mergeSort_sorts [OF assms]
  by (cases "xs = []") (auto simp: sliceSortByImpl_def)

theorem slice_sort_stable_witness:
  "sliceSortByImpl emptyCapEnv [cmpIntVal, sliceVal [intVal 3, intVal (- 1), intVal 2]] (vmApplier (intEnv failingEnv) (Suc 0)) world0 =
     (Ret (sliceVal [intVal (- 1), intVal 2, intVal 3]) emptyCapEnv, world0)"
  using slice_sort_stable [of "vmApplier (intEnv failingEnv) (Suc 0)" cmpIntVal isIntVal intRank "[intVal 3, intVal (- 1), intVal 2]"
      emptyCapEnv world0, OF intKeys.pure_key_order_axioms]
  by (simp add: charge_def chargeAlloc_def world0_def del: vmApplier.simps)

text \<open>
  The first-order primitives of slices: \<^verbatim>\<open>fromList\<close> and \<^verbatim>\<open>toList\<close> are inverse, \<^verbatim>\<open>index\<close> is exact for every 64-bit position, \<^verbatim>\<open>append\<close>,
  \<^verbatim>\<open>reverse\<close> and \<^verbatim>\<open>concat\<close> are the list functions, and \<^verbatim>\<open>slice\<close> clamps its bounds to the slice and never panics.
\<close>

theorem slice_first_order:
  assumes "length xs < 2 ^ 63"
  shows "sliceFromListImpl ce [consList xs] ap w = charge (of_nat (length xs) * 2 * costSlotSize) ce w (\<lambda>w. (Ret (sliceVal xs) ce, w)) \<and>
    sliceToListImpl ce [sliceVal xs] ap w = charge (of_nat (length xs) * costConsNode) ce w (\<lambda>w. (Ret (consList xs) ce, w)) \<and>
    sliceIndexImpl ce [intVal i, sliceVal xs] ap w =
      (Ret (if 0 \<le> sint i \<and> sint i < int (length xs) then justVal (xs ! nat (sint i)) else nothingVal) ce, w) \<and>
    sliceAppendImpl ce [sliceVal xs, sliceVal ys] ap w =
      charge (of_nat (length xs + length ys) * costSlotSize) ce w (\<lambda>w. (Ret (sliceVal (xs @ ys)) ce, w)) \<and>
    sliceReverseImpl ce [sliceVal xs] ap w = charge (of_nat (length xs) * costSlotSize) ce w (\<lambda>w. (Ret (sliceVal (rev xs)) ce, w)) \<and>
    sliceConcatImpl ce [sliceVal (map sliceVal xss)] ap w =
      charge (of_nat (length (concat xss)) * costSlotSize) ce w (\<lambda>w. (Ret (sliceVal (concat xss)) ce, w)) \<and>
    sliceSliceImpl ce [intVal i, intVal j, sliceVal xs] ap w =
      (Ret (sliceVal (take (nat (sint j) - nat (sint i)) (drop (nat (sint i)) xs))) ce, w)"
proof (intro conjI)
  show "sliceFromListImpl ce [consList xs] ap w = charge (of_nat (length xs) * 2 * costSlotSize) ce w (\<lambda>w. (Ret (sliceVal xs) ce, w))"
    by (simp add: sliceFromListImpl_def)
  show "sliceToListImpl ce [sliceVal xs] ap w = charge (of_nat (length xs) * costConsNode) ce w (\<lambda>w. (Ret (consList xs) ce, w))"
    by (simp add: sliceToListImpl_def)
  show "sliceIndexImpl ce [intVal i, sliceVal xs] ap w =
      (Ret (if 0 \<le> sint i \<and> sint i < int (length xs) then justVal (xs ! nat (sint i)) else nothingVal) ce, w)"
    using assms by (auto simp: sliceIndexImpl_def asInt64_intVal sint64_lt length_wordle positive_unat)
  show "sliceAppendImpl ce [sliceVal xs, sliceVal ys] ap w =
      charge (of_nat (length xs + length ys) * costSlotSize) ce w (\<lambda>w. (Ret (sliceVal (xs @ ys)) ce, w))"
    by (simp add: sliceAppendImpl_def)
  show "sliceReverseImpl ce [sliceVal xs] ap w = charge (of_nat (length xs) * costSlotSize) ce w (\<lambda>w. (Ret (sliceVal (rev xs)) ce, w))"
    using rev_by_index [of xs] by (simp add: sliceReverseImpl_def Let_def)
  show "sliceConcatImpl ce [sliceVal (map sliceVal xss)] ap w =
      charge (of_nat (length (concat xss)) * costSlotSize) ce w (\<lambda>w. (Ret (sliceVal (concat xss)) ce, w))"
    by (simp add: sliceConcatImpl_def length_concat)
  define lo where "lo = (if i <s 0 then 0 else i)"
  define hi where "hi = (if of_nat (length xs) <s j then of_nat (length xs) else j)"
  have lo: "unat lo = nat (sint i)" "0 \<le> sint lo" by (auto simp: lo_def sint64_lt positive_unat)
  have hi: "nat (sint hi) = min (length xs) (nat (sint j))"
    using assms by (auto simp: hi_def sint64_lt sint_of_length min_def)
  have "sliceSliceImpl ce [intVal i, intVal j, sliceVal xs] ap w =
      (Ret (sliceVal (take (nat (sint hi) - nat (sint i)) (drop (nat (sint i)) xs))) ce, w)"
  proof (cases "hi \<le>s lo")
    case True
    then have "nat (sint hi) - nat (sint i) = 0" using lo hi positive_unat [of lo] by (simp add: sint64_le)
    then show ?thesis using True by (simp add: sliceSliceImpl_def asInt64_intVal Let_def lo_def [symmetric] hi_def [symmetric])
  next
    case False
    then have "unat hi = nat (sint hi)" using lo(2) by (intro positive_unat) (simp add: sint64_le)
    then show ?thesis using False lo by (simp add: sliceSliceImpl_def asInt64_intVal Let_def lo_def [symmetric] hi_def [symmetric])
  qed
  moreover have "take (min (length xs) m - n) (drop n xs) = take (m - n) (drop n xs)" for m n
    by (simp add: take_all_iff min_def)
  ultimately show "sliceSliceImpl ce [intVal i, intVal j, sliceVal xs] ap w =
      (Ret (sliceVal (take (nat (sint j) - nat (sint i)) (drop (nat (sint i)) xs))) ce, w)"
    by (simp add: hi)
qed

theorem slice_first_order_witness:
  "sliceSliceImpl emptyCapEnv [intVal (- 4), intVal 1, sliceVal [UnitVal, intVal 7]] (vmApplier failingEnv 0) world0 =
     (Ret (sliceVal [UnitVal]) emptyCapEnv, world0)"
  using slice_first_order [of "[UnitVal, intVal 7]" emptyCapEnv "vmApplier failingEnv 0" world0 "- 4" _ "[]" 1] by simp

text \<open>The length of a range of slices wraps: \<^verbatim>\<open>make\<close> gets a negative length.\<close>

theorem slice_range_panics: "sliceRangeImpl ce [intVal (- (2 ^ 63)), intVal MaxInt64] ap w = charge (- costSlotSize) ce w (\<lambda>w. (Panic, w))"
proof -
  have "(18446744073709551615 :: int64) = - 1" by (transfer, simp add: take_bit_eq_mod)
  then have "charge (18446744073709551615 * costSlotSize) ce w k = charge (- costSlotSize) ce w k" for k :: "world \<Rightarrow> val gores"
    by (metis mult_minus1)
  then show ?thesis by (simp add: sliceRangeImpl_def asInt64_intVal sint64_lt del: mult_minus1)
qed

end
