(* ===== verification/Mutable_Prims.thy ===== *)
theory Mutable_Prims
  imports Slice_Prims Effect_Prims
begin

text \<open>
  The primitives on mutable data: references (\<^verbatim>\<open>ref.go\<close>), arrays (\<^verbatim>\<open>array.go\<close>) and ordered maps and sets (\<^verbatim>\<open>avl_mut.go\<close>, \<^verbatim>\<open>mmap.go\<close>,
  \<^verbatim>\<open>mset.go\<close>) of \<^verbatim>\<open>internal/host/stdlib\<close>. A value of these types is a pointer; the objects are in the store \<open>w_objs\<close> of the world, so two values with
  the same address see each other's writes. The nodes of a mutable tree belong to their object alone, as the comment in \<^verbatim>\<open>avl_mut.go\<close> requires: an
  object holds its tree as a value, and an operation that mutates nodes returns the tree as it is afterwards, also when a comparison has failed in the middle.
\<close>

section \<open>The store of objects\<close>

definition allocObj :: "obj \<Rightarrow> world \<Rightarrow> val \<times> world" where
  "allocObj ob w = (HostVal (HPtr (w_onext w)), w\<lparr> w_objs := (w_objs w)(w_onext w \<mapsto> ob), w_onext := w_onext w + 1 \<rparr>)"

definition writeObj :: "nat \<Rightarrow> obj \<Rightarrow> world \<Rightarrow> world" where
  "writeObj a ob w = w\<lparr> w_objs := (w_objs w)(a \<mapsto> ob) \<rparr>"

text \<open>The type assertions on the pointer of a host value.\<close>

definition objArg :: "string \<Rightarrow> string \<Rightarrow> (obj \<Rightarrow> 'a option) \<Rightarrow> val \<Rightarrow> world \<Rightarrow> err + nat \<times> 'a" where
  "objArg op want sel v w =
     (case v of
        HostVal h \<Rightarrow>
          (case h of
             HPtr a \<Rightarrow>
               (case Option.bind (w_objs w a) sel of
                  Some x \<Rightarrow> Inr (a, x)
                | None \<Rightarrow> Inl (errExpected op want (Inr h)))
           | _ \<Rightarrow> Inl (errExpected op want (Inr h)))
      | _ \<Rightarrow> Inl (errExpected op ''HostVal'' (Inl v)))"

definition asRefCell :: "val \<Rightarrow> world \<Rightarrow> err + nat \<times> val" where
  "asRefCell = objArg ''stdlib/ref'' ''*refCell'' (\<lambda>ob. case ob of ORefCell v \<Rightarrow> Some v | _ \<Rightarrow> None)"

definition asMutArray :: "val \<Rightarrow> world \<Rightarrow> err + nat \<times> val list" where
  "asMutArray = objArg ''stdlib/array'' ''*mutArray'' (\<lambda>ob. case ob of OMutArray d \<Rightarrow> Some d | _ \<Rightarrow> None)"

definition asMutMapVal :: "val \<Rightarrow> world \<Rightarrow> err + nat \<times> val mapVal" where
  "asMutMapVal = objArg ''stdlib/mmap'' ''*mutMapVal'' (\<lambda>ob. case ob of OMutMap m \<Rightarrow> Some m | _ \<Rightarrow> None)"

definition asMutSetVal :: "val \<Rightarrow> world \<Rightarrow> err + nat \<times> val mapVal" where
  "asMutSetVal = objArg ''stdlib/mset'' ''*mutMapVal'' (\<lambda>ob. case ob of OMutMap m \<Rightarrow> Some m | _ \<Rightarrow> None)"

definition retNew :: "obj \<Rightarrow> capEnv \<Rightarrow> world \<Rightarrow> val gores" where
  "retNew ob ce w = (case allocObj ob w of (v, w) \<Rightarrow> (Ret v ce, w))"

section \<open>References\<close>

definition refNewImpl :: primImpl where
  "refNewImpl ce args ap w = charge costSlotSize ce w (\<lambda>w. argN args 0 w (\<lambda>v. retNew (ORefCell v) ce w))"

definition refReadImpl :: primImpl where
  "refReadImpl ce args ap w = argN args 0 w (\<lambda>a. tryE (asRefCell a w) ce w (\<lambda>(r, v). (Ret v ce, w)))"

definition refWriteImpl :: primImpl where
  "refWriteImpl ce args ap w =
     argN args 1 w (\<lambda>a. tryE (asRefCell a w) ce w (\<lambda>(r, _). argN args 0 w (\<lambda>v. (Ret UnitVal ce, writeObj r (ORefCell v) w))))"

definition refModifyNamedImpl :: primImpl where
  "refModifyNamedImpl ce args ap w =
     argN args 2 w (\<lambda>a. tryE (asRefCell a w) ce w (\<lambda>(r, v).
     argN args 1 w (\<lambda>f. callR (applyA ap f v ce w) (\<lambda>_. ce) (\<lambda>newVal newCe w. (Ret UnitVal newCe, writeObj r (ORefCell newVal) w)))))"

definition refPack :: "primImpl primRegistry \<Rightarrow> primImpl primRegistry" where
  "refPack = registerAll
     [(''_refNew'', refNewImpl), (''_refRead'', refReadImpl), (''_refWrite'', refWriteImpl),
      (''_refNewNamed'', withLabel refNewImpl), (''_refReadNamed'', withLabel refReadImpl), (''_refWriteNamed'', withLabel refWriteImpl),
      (''_refModifyNamed'', refModifyNamedImpl)]"

section \<open>Arrays\<close>

definition arrayNewImpl :: primImpl where
  "arrayNewImpl ce args ap w =
     argN args 0 w (\<lambda>a. tryE (asInt64 a ''array'') ce w (\<lambda>n.
     if n <s 0 then (Err (PlainErr (''array.new: negative size '' @ formatInt n)) ce, w)
     else charge (checkedMulCost n costSlotSize) ce w (\<lambda>w.
       if n = 0 then retNew (OMutArray []) ce w
       else argN args 1 w (\<lambda>x. retNew (OMutArray (replicate (unat n) x)) ce w))))"

definition arrayReadImpl :: primImpl where
  "arrayReadImpl ce args ap w =
     argN args 0 w (\<lambda>a. tryE (asInt64 a ''array'') ce w (\<lambda>idx. argN args 1 w (\<lambda>b. tryE (asMutArray b w) ce w (\<lambda>(r, d).
     if idx <s 0 \<or> of_nat (length d) \<le>s idx then (Ret nothingVal ce, w) else (Ret (justVal (d ! unat idx)) ce, w)))))"

definition arrayWriteImpl :: primImpl where
  "arrayWriteImpl ce args ap w =
     argN args 0 w (\<lambda>a. tryE (asInt64 a ''array'') ce w (\<lambda>idx. argN args 2 w (\<lambda>b. tryE (asMutArray b w) ce w (\<lambda>(r, d).
     if idx <s 0 \<or> of_nat (length d) \<le>s idx then (Ret UnitVal ce, w)
     else argN args 1 w (\<lambda>x. (Ret UnitVal ce, writeObj r (OMutArray (d[unat idx := x])) w))))))"

definition arraySizeImpl :: primImpl where
  "arraySizeImpl ce args ap w =
     argN args 0 w (\<lambda>b. tryE (asMutArray b w) ce w (\<lambda>(r, d). (Ret (intVal (of_nat (length d))) ce, w)))"

text \<open>\<^verbatim>\<open>copy\<close> moves as many elements as both slices have; the loop fills what is left.\<close>

definition arrayResizeImpl :: primImpl where
  "arrayResizeImpl ce args ap w =
     argN args 0 w (\<lambda>a. tryE (asInt64 a ''array'') ce w (\<lambda>n. argN args 2 w (\<lambda>b. tryE (asMutArray b w) ce w (\<lambda>(r, d).
     if n <s 0 then (Err (PlainErr (''array.resize: negative size '' @ formatInt n)) ce, w)
     else charge (checkedMulCost n costSlotSize) ce w (\<lambda>w.
       let copied = min (unat n) (length d)
       in if copied = unat n then retNew (OMutArray (take copied d)) ce w
          else argN args 1 w (\<lambda>x. retNew (OMutArray (take copied d @ replicate (unat n - copied) x)) ce w))))))"

definition arrayFromSliceImpl :: primImpl where
  "arrayFromSliceImpl ce args ap w =
     argN args 0 w (\<lambda>a. tryE (asSlice a) ce w (\<lambda>s.
     charge (of_nat (length s) * costSlotSize) ce w (\<lambda>w. retNew (OMutArray s) ce w)))"

definition arrayToSliceImpl :: primImpl where
  "arrayToSliceImpl ce args ap w =
     argN args 0 w (\<lambda>b. tryE (asMutArray b w) ce w (\<lambda>(r, d).
     charge (of_nat (length d) * costSlotSize) ce w (\<lambda>w. (Ret (sliceVal d) ce, w))))"

definition arrayPack :: "primImpl primRegistry \<Rightarrow> primImpl primRegistry" where
  "arrayPack = registerAll
     [(''_arrayNew'', arrayNewImpl), (''_arrayRead'', arrayReadImpl), (''_arrayWrite'', arrayWriteImpl), (''_arraySize'', arraySizeImpl),
      (''_arrayResize'', arrayResizeImpl), (''_arrayFromSlice'', arrayFromSliceImpl), (''_arrayToSlice'', arrayToSliceImpl),
      (''_arrayNewNamed'', withLabel arrayNewImpl), (''_arrayReadNamed'', withLabel arrayReadImpl),
      (''_arrayWriteNamed'', withLabel arrayWriteImpl), (''_arrayResizeNamed'', withLabel arrayResizeImpl),
      (''_arrayFromSliceNamed'', withLabel arrayFromSliceImpl), (''_arrayToSliceNamed'', withLabel arrayToSliceImpl)]"

section \<open>Trees in place\<close>

text \<open>The rotations of \<^verbatim>\<open>avl_mut.go\<close>: the assignments to the fields of the two nodes, then their heights, lower node first.\<close>

fun avlRotateRightMut :: "tree \<Rightarrow> tree option" where
  "avlRotateRightMut (AvlNode yk yv (AvlNode xk xv xl xr xh) yr yh) =
     do { y \<leftarrow> avlUpdateHeight (AvlNode yk yv xr yr yh);
          avlUpdateHeight (AvlNode xk xv xl y xh) }"
| "avlRotateRightMut _ = None"

fun avlRotateLeftMut :: "tree \<Rightarrow> tree option" where
  "avlRotateLeftMut (AvlNode xk xv xl (AvlNode yk yv yl yr yh) xh) =
     do { x \<leftarrow> avlUpdateHeight (AvlNode xk xv xl yl xh);
          avlUpdateHeight (AvlNode yk yv x yr yh) }"
| "avlRotateLeftMut _ = None"

definition avlRebalanceMut :: "tree \<Rightarrow> tree option" where
  "avlRebalanceMut n0 =
     do { n \<leftarrow> avlUpdateHeight n0;
          (let bal = avlBalance n in
           if bal > 1
           then do { n' \<leftarrow> (if avlBalance (aleft n) < 0
                          then do { l \<leftarrow> avlRotateLeftMut (aleft n); Some (AvlNode (akey n) (aval n) l (aright n) (aheight n)) }
                          else Some n);
                     avlRotateRightMut n' }
           else if bal < - 1
           then do { n' \<leftarrow> (if avlBalance (aright n) > 0
                          then do { r \<leftarrow> avlRotateRightMut (aright n); Some (AvlNode (akey n) (aval n) (aleft n) r (aheight n)) }
                          else Some n);
                     avlRotateLeftMut n' }
           else Some n) }"

text \<open>
  An operation answers the tree after it and its outcome. \<open>thenMut\<close> is the code after a call: \<open>t\<close> is the tree when the call has failed, \<open>c\<close> the
  environment returned with the error.
\<close>

type_synonym 'a mutres = "tree \<times> 'a gores"

fun thenMut :: "'a gores \<Rightarrow> tree \<Rightarrow> capEnv \<Rightarrow> ('a \<Rightarrow> capEnv \<Rightarrow> world \<Rightarrow> 'b mutres) \<Rightarrow> 'b mutres" where
  "thenMut (Ret a c', w) t c k = k a c' w"
| "thenMut (Err e c', w) t c k = (t, (Err e c, w))"
| "thenMut (Panic, w) t c k = (t, (Panic, w))"
| "thenMut (Diverge, w) t c k = (t, (Diverge, w))"

lemma thenMut_cong [fundef_cong]:
  "p = p' \<Longrightarrow> t = t' \<Longrightarrow> c = c' \<Longrightarrow> (\<And>a c w. p' = (Ret a c, w) \<Longrightarrow> k a c w = k' a c w) \<Longrightarrow> thenMut p t c k = thenMut p' t' c' k'"
  by (cases "(p', t', c', k')" rule: thenMut.cases) auto

definition rebalanced :: "tree \<Rightarrow> 'a \<Rightarrow> capEnv \<Rightarrow> world \<Rightarrow> 'a mutres" where
  "rebalanced n a c w = (case avlRebalanceMut n of None \<Rightarrow> (n, (Panic, w)) | Some t \<Rightarrow> (t, (Ret a c, w)))"

fun avlInsertMut :: "tree \<Rightarrow> val \<Rightarrow> val \<Rightarrow> val \<Rightarrow> capEnv \<Rightarrow> applier \<Rightarrow> world \<Rightarrow> bool mutres" where
  "avlInsertMut AvlNil key v cmp ce ap w = (avlNewNode key v, (Ret True ce, w))"
| "avlInsertMut (AvlNode nk nv l r h) key v cmp ce ap w =
     thenMut (compareKeys cmp key nk ce ap w) (AvlNode nk nv l r h) ce (\<lambda>ord newCe w.
       if ord = - 1
       then (case avlInsertMut l key v cmp newCe ap w of (l', out) \<Rightarrow>
               let n = AvlNode nk nv l' r h in thenMut out n ce (\<lambda>inserted newCe w. rebalanced n inserted newCe w))
       else if ord = 1
       then (case avlInsertMut r key v cmp newCe ap w of (r', out) \<Rightarrow>
               let n = AvlNode nk nv l r' h in thenMut out n ce (\<lambda>inserted newCe w. rebalanced n inserted newCe w))
       else (AvlNode nk v l r h, (Ret False newCe, w)))"

fun avlDeleteMut :: "tree \<Rightarrow> val \<Rightarrow> val \<Rightarrow> capEnv \<Rightarrow> applier \<Rightarrow> world \<Rightarrow> bool mutres" where
  "avlDeleteMut AvlNil key cmp ce ap w = (AvlNil, (Ret False ce, w))"
| "avlDeleteMut (AvlNode nk nv l r h) key cmp ce ap w =
     thenMut (compareKeys cmp key nk ce ap w) (AvlNode nk nv l r h) ce (\<lambda>ord newCe w.
       if ord = - 1
       then (case avlDeleteMut l key cmp newCe ap w of (l', out) \<Rightarrow>
               let n = AvlNode nk nv l' r h in thenMut out n ce (\<lambda>deleted newCe w.
                 if \<not> deleted then (n, (Ret False newCe, w)) else rebalanced n True newCe w))
       else if ord = 1
       then (case avlDeleteMut r key cmp newCe ap w of (r', out) \<Rightarrow>
               let n = AvlNode nk nv l r' h in thenMut out n ce (\<lambda>deleted newCe w.
                 if \<not> deleted then (n, (Ret False newCe, w)) else rebalanced n True newCe w))
       else if l = AvlNil then (r, (Ret True newCe, w))
       else if r = AvlNil then (l, (Ret True newCe, w))
       else (case avlMinNode r of
               None \<Rightarrow> (AvlNode nk nv l r h, (Panic, w))
             | Some successor \<Rightarrow>
                 (case avlDeleteMut r (akey successor) cmp newCe ap w of (r', out) \<Rightarrow>
                    let n = AvlNode (akey successor) (aval successor) l r' h
                    in thenMut out n ce (\<lambda>_ newCe w. rebalanced n True newCe w))))"

section \<open>The in-place operations compute the persistent ones\<close>

lemma avlRotateMut_eq: "avlRotateRightMut = avlRotateRight" "avlRotateLeftMut = avlRotateLeft"
proof -
  show "avlRotateRightMut = avlRotateRight" by (rule ext, rename_tac n, case_tac n rule: avlRotateRight.cases) auto
  show "avlRotateLeftMut = avlRotateLeft" by (rule ext, rename_tac n, case_tac n rule: avlRotateLeft.cases) auto
qed

lemma avlRebalanceMut_eq: "avlRebalanceMut = avlRebalance"
proof
  fix n0
  show "avlRebalanceMut n0 = avlRebalance n0"
    by (cases "avlUpdateHeight n0") (simp_all add: avlRebalanceMut_def avlRebalance_def avlRotateMut_eq Let_def)
qed

definition withTree :: "'a mutres \<Rightarrow> (tree \<times> 'a) gores" where
  "withTree m = callR (snd m) (\<lambda>c. c) (\<lambda>a c w. (Ret (fst m, a) c, w))"

lemma withTree_thenMut:
  "withTree (thenMut p t c k) = callR p (\<lambda>_. c) (\<lambda>a c w. withTree (k a c w))"
  by (cases "(p, t, c, k)" rule: thenMut.cases) (simp_all add: withTree_def)

lemma withTree_rebalanced: "withTree (rebalanced n a c w) = orPanic (avlRebalance n) w (\<lambda>t. (Ret (t, a) c, w))"
  by (simp add: rebalanced_def withTree_def avlRebalanceMut_eq split: option.splits)

lemma withTree_Pair [simp]: "withTree (t, (Ret a c, w)) = (Ret (t, a) c, w)" "withTree (t, (Panic, w)) = (Panic, w)"
  by (simp_all add: withTree_def)

lemma callR_withTree: "callR (withTree m) (\<lambda>_. c) k = callR (snd m) (\<lambda>_. c) (\<lambda>a. k (fst m, a))"
  by (cases m; cases "fst (snd m)"; cases "snd m") (auto simp: withTree_def)

lemma avlInsertMut_persistent: "withTree (avlInsertMut n key v cmp ce ap w) = avlInsert n key v cmp ce ap w"
proof (induction n arbitrary: ce w)
  case (AvlNode nk nv l r h)
  show ?case
    by (auto simp: withTree_thenMut withTree_rebalanced Let_def case_prod_unfold AvlNode.IH [symmetric] callR_withTree
        split: prod.splits intro!: callR_cont_cong)
qed simp

text \<open>A deletion that finds nothing leaves the subtree as it was.\<close>

lemma avlDelete_not_found: "avlDelete n key cmp ce ap w = (Ret (t, False) c, w') \<Longrightarrow> t = n"
  by (induction n arbitrary: t ce w c w') (auto simp: callR_Ret_iff split: if_splits)

lemma withTree_Ret: "withTree m = (Ret (t, a) c, w) \<longleftrightarrow> m = (t, (Ret a c, w))"
  by (cases m; cases "fst (snd m)"; cases "snd m") (auto simp: withTree_def)

lemma avlDeleteMut_persistent: "withTree (avlDeleteMut n key cmp ce ap w) = avlDelete n key cmp ce ap w"
proof (induction n arbitrary: key ce w)
  case (AvlNode nk nv l r h)
  have same: "fst (avlDeleteMut t k cmp c ap w) = t" if "snd (avlDeleteMut t k cmp c ap w) = (Ret False c', w')"
      "withTree (avlDeleteMut t k cmp c ap w) = avlDelete t k cmp c ap w" for t k c w c' w'
    using that avlDelete_not_found [of t k cmp c ap w _ c' w'] by (metis prod.collapse withTree_Ret)
  show ?case
    by (auto simp: withTree_thenMut withTree_rebalanced Let_def case_prod_unfold AvlNode.IH [symmetric] callR_withTree
        dest!: same [OF _ AvlNode.IH(1)] same [OF _ AvlNode.IH(2)]
        split: prod.splits option.splits intro!: callR_cont_cong)
qed simp

text \<open>A failed comparison leaves an insertion without effect on the tree.\<close>

lemma thenMut_Err_iff:
  "thenMut p t c k = (t', (Err e c', w')) \<longleftrightarrow>
     (\<exists>c1. p = (Err e c1, w') \<and> t' = t \<and> c' = c) \<or> (\<exists>a c1 w1. p = (Ret a c1, w1) \<and> k a c1 w1 = (t', (Err e c', w')))"
  by (cases "(p, t, c, k)" rule: thenMut.cases) auto

lemma rebalanced_not_Err [simp]: "rebalanced n a c w \<noteq> (t, (Err e c', w'))"
  by (simp add: rebalanced_def split: option.splits)

lemma avlInsertMut_error: "avlInsertMut n key v cmp ce ap w = (t, (Err e c, w')) \<Longrightarrow> t = n"
proof (induction n arbitrary: t ce w c w')
  case (AvlNode nk nv l r h)
  then show ?case
    by (auto simp: thenMut_Err_iff Let_def case_prod_unfold split: if_splits) (metis prod.collapse)+
qed simp

section \<open>Mutable maps\<close>

text \<open>The nodes have been mutated when the operation returns, with an error too; the root and the size are assigned on success.\<close>

fun intoObj :: "nat \<Rightarrow> val mapVal \<Rightarrow> capEnv \<Rightarrow> bool mutres \<Rightarrow> int \<Rightarrow> val gores" where
  "intoObj a m ce (t, (Ret changed newCe, w)) delta =
     (Ret UnitVal newCe, writeObj a (OMutMap (MapVal t (mcmp m) (if changed then msize m + delta else msize m))) w)"
| "intoObj a m ce (t, (Err e c, w)) delta = (Err e ce, writeObj a (OMutMap (MapVal t (mcmp m) (msize m))) w)"
| "intoObj a m ce (t, (Panic, w)) delta = (Panic, w)"
| "intoObj a m ce (t, (Diverge, w)) delta = (Diverge, w)"

definition mmapNewImpl :: primImpl where
  "mmapNewImpl ce args ap w = argN args 0 w (\<lambda>cmp. retNew (OMutMap (MapVal AvlNil cmp 0)) ce w)"

definition mmapInsertImpl :: primImpl where
  "mmapInsertImpl ce args ap w =
     argN args 1 w (\<lambda>key. argN args 2 w (\<lambda>v. argN args 3 w (\<lambda>mv. tryE (asMutMapVal mv w) ce w (\<lambda>(a, m).
     charge costAVLNode ce w (\<lambda>w. intoObj a m ce (avlInsertMut (mroot m) key v (mcmp m) ce ap w) 1)))))"

definition mmapLookupImpl :: primImpl where
  "mmapLookupImpl ce args ap w =
     argN args 1 w (\<lambda>key. argN args 2 w (\<lambda>mv. tryE (asMutMapVal mv w) ce w (\<lambda>(a, m).
     callR (avlLookup (mroot m) key (mcmp m) ce ap w) (\<lambda>_. ce) (\<lambda>r newCe w.
     (Ret (case r of Some v \<Rightarrow> justVal v | None \<Rightarrow> nothingVal) newCe, w)))))"

definition mmapDeleteImpl :: primImpl where
  "mmapDeleteImpl ce args ap w =
     argN args 1 w (\<lambda>key. argN args 2 w (\<lambda>mv. tryE (asMutMapVal mv w) ce w (\<lambda>(a, m).
     charge costAVLNode ce w (\<lambda>w. intoObj a m ce (avlDeleteMut (mroot m) key (mcmp m) ce ap w) (- 1)))))"

definition mmapSizeImpl :: primImpl where
  "mmapSizeImpl ce args ap w =
     argN args 0 w (\<lambda>mv. tryE (asMutMapVal mv w) ce w (\<lambda>(a, m). (Ret (intVal (word_of_int (msize m))) ce, w)))"

definition mmapMemberImpl :: primImpl where
  "mmapMemberImpl ce args ap w =
     argN args 1 w (\<lambda>key. argN args 2 w (\<lambda>mv. tryE (asMutMapVal mv w) ce w (\<lambda>(a, m).
     callR (avlLookup (mroot m) key (mcmp m) ce ap w) (\<lambda>_. ce) (\<lambda>r newCe w. (Ret (boolVal (r \<noteq> None)) newCe, w)))))"

definition mmapToListImpl :: primImpl where
  "mmapToListImpl ce args ap w =
     argN args 0 w (\<lambda>mv. tryE (asMutMapVal mv w) ce w (\<lambda>(a, m).
     charge (word_of_int (msize m) * (costTupleNode + costConsNode)) ce w (\<lambda>w. (Ret (avlToConsList (mroot m)) ce, w))))"

fun mmapFromListLoop :: "val \<Rightarrow> tree \<Rightarrow> int \<Rightarrow> val \<Rightarrow> capEnv \<Rightarrow> applier \<Rightarrow> world \<Rightarrow> (tree \<times> int) gores" where
  "mmapFromListLoop list root sz cmp ce ap w =
     listNode ''mmapFromList'' list ce w (Ret (root, sz) ce, w) (\<lambda>x rest.
       case x of
         RecordVal fs \<Rightarrow>
           (case (recGet fs (tupleLabel 1), recGet fs (tupleLabel 2)) of
              (Some key, Some v) \<Rightarrow>
                charge costAVLNode ce w (\<lambda>w.
                callR (withTree (avlInsertMut root key v cmp ce ap w)) (\<lambda>c. c) (\<lambda>(root, inserted) ce w.
                mmapFromListLoop rest root (if inserted then sz + 1 else sz) cmp ce ap w))
            | _ \<Rightarrow> (Err (PlainErr ''mmapFromList: tuple must have _1 and _2'') ce, w))
       | _ \<Rightarrow> (Err (errExpected ''mmapFromList'' ''tuple'' (Inl x)) ce, w))"

declare mmapFromListLoop.simps [simp del]

definition mmapFromListImpl :: primImpl where
  "mmapFromListImpl ce args ap w =
     argN args 0 w (\<lambda>cmp. argN args 1 w (\<lambda>list.
     callR (mmapFromListLoop list AvlNil 0 cmp ce ap w) (\<lambda>c. c) (\<lambda>(root, sz) ce w. retNew (OMutMap (MapVal root cmp sz)) ce w)))"

definition mmapFoldlWithKeyImpl :: primImpl where
  "mmapFoldlWithKeyImpl ce args ap w =
     argN args 0 w (\<lambda>f. argN args 1 w (\<lambda>acc. argN args 2 w (\<lambda>mv. tryE (asMutMapVal mv w) ce w (\<lambda>(a, m).
     avlFoldlWithKey (mroot m) f acc ce ap w))))"

definition mmapKeysImpl :: primImpl where
  "mmapKeysImpl ce args ap w =
     argN args 0 w (\<lambda>mv. tryE (asMutMapVal mv w) ce w (\<lambda>(a, m).
     charge (word_of_int (msize m) * costConsNode) ce w (\<lambda>w. (Ret (avlKeysToConsList (mroot m)) ce, w))))"

definition mmapValuesImpl :: primImpl where
  "mmapValuesImpl ce args ap w =
     argN args 0 w (\<lambda>mv. tryE (asMutMapVal mv w) ce w (\<lambda>(a, m).
     charge (word_of_int (msize m) * costConsNode) ce w (\<lambda>w. (Ret (avlValsToConsList (mroot m)) ce, w))))"

text \<open>The size is not touched: the key is there.\<close>

definition mmapAdjustImpl :: primImpl where
  "mmapAdjustImpl ce args ap w =
     argN args 1 w (\<lambda>key. argN args 2 w (\<lambda>f. argN args 3 w (\<lambda>mv. tryE (asMutMapVal mv w) ce w (\<lambda>(a, m).
     callR (avlLookup (mroot m) key (mcmp m) ce ap w) (\<lambda>_. ce) (\<lambda>r newCe w.
     case r of
       None \<Rightarrow> (Ret UnitVal newCe, w)
     | Some v \<Rightarrow>
         callR (applyA ap f v newCe w) (\<lambda>_. ce) (\<lambda>newVal newCe w.
         charge costAVLNode ce w (\<lambda>w. intoObj a m ce (avlInsertMut (mroot m) key newVal (mcmp m) newCe ap w) 0)))))))"

text \<open>
  The wrapper puts a nil in the place of the comparator, which the wrapped primitives never read; the model puts a unit there, and
  \<open>compare_argument_unread\<close> below shows that it does not matter.
\<close>

definition withLabelNoCompare :: "primImpl \<Rightarrow> primImpl" where
  "withLabelNoCompare fn ce args ap w =
     (case validateLabelArg args of Some e \<Rightarrow> (Err e ce, w) | None \<Rightarrow> fn ce (UnitVal # drop 1 args) ap w)"

definition withLabelCmpFromHandle :: "primImpl \<Rightarrow> primImpl" where
  "withLabelCmpFromHandle fn ce args ap w =
     (case validateLabelArg args of
        Some e \<Rightarrow> (Err e ce, w)
      | None \<Rightarrow>
          argN args 1 w (\<lambda>v.
          case v of
            HostVal (HPtr a) \<Rightarrow>
              (case w_objs w a of
                 Some (OMutMap m) \<Rightarrow> fn ce (mcmp m # drop 1 args) ap w
               | _ \<Rightarrow> (Err (RuntimeError ''named binary op: handle is not a map/set'' None []) ce, w))
          | HostVal h \<Rightarrow> (Err (RuntimeError ''named binary op: handle is not a map/set'' None []) ce, w)
          | _ \<Rightarrow> (Err (RuntimeError ''named binary op: expected HostVal handle'' None []) ce, w)))"

definition mmapPack :: "primImpl primRegistry \<Rightarrow> primImpl primRegistry" where
  "mmapPack = registerAll
     [(''_mmapNew'', mmapNewImpl), (''_mmapInsert'', mmapInsertImpl), (''_mmapLookup'', mmapLookupImpl), (''_mmapDelete'', mmapDeleteImpl),
      (''_mmapSize'', mmapSizeImpl), (''_mmapMember'', mmapMemberImpl), (''_mmapToList'', mmapToListImpl), (''_mmapFromList'', mmapFromListImpl),
      (''_mmapFoldlWithKey'', mmapFoldlWithKeyImpl), (''_mmapKeys'', mmapKeysImpl), (''_mmapValues'', mmapValuesImpl), (''_mmapAdjust'', mmapAdjustImpl),
      (''_mmapNewNamed'', withLabel mmapNewImpl), (''_mmapFromListNamed'', withLabel mmapFromListImpl),
      (''_mmapInsertNamed'', withLabelNoCompare mmapInsertImpl), (''_mmapLookupNamed'', withLabelNoCompare mmapLookupImpl),
      (''_mmapDeleteNamed'', withLabelNoCompare mmapDeleteImpl), (''_mmapMemberNamed'', withLabelNoCompare mmapMemberImpl),
      (''_mmapAdjustNamed'', withLabelNoCompare mmapAdjustImpl), (''_mmapSizeNamed'', withLabel mmapSizeImpl),
      (''_mmapToListNamed'', withLabel mmapToListImpl), (''_mmapFoldlWithKeyNamed'', withLabel mmapFoldlWithKeyImpl),
      (''_mmapKeysNamed'', withLabel mmapKeysImpl), (''_mmapValuesNamed'', withLabel mmapValuesImpl)]"

section \<open>Mutable sets\<close>

definition msetNewImpl :: primImpl where
  "msetNewImpl ce args ap w = argN args 0 w (\<lambda>cmp. retNew (OMutMap (MapVal AvlNil cmp 0)) ce w)"

definition msetInsertImpl :: primImpl where
  "msetInsertImpl ce args ap w =
     argN args 1 w (\<lambda>key. argN args 2 w (\<lambda>mv. tryE (asMutSetVal mv w) ce w (\<lambda>(a, m).
     charge costAVLNode ce w (\<lambda>w. intoObj a m ce (avlInsertMut (mroot m) key UnitVal (mcmp m) ce ap w) 1))))"

definition msetMemberImpl :: primImpl where
  "msetMemberImpl ce args ap w =
     argN args 1 w (\<lambda>key. argN args 2 w (\<lambda>mv. tryE (asMutSetVal mv w) ce w (\<lambda>(a, m).
     callR (avlLookup (mroot m) key (mcmp m) ce ap w) (\<lambda>_. ce) (\<lambda>r newCe w. (Ret (boolVal (r \<noteq> None)) newCe, w)))))"

definition msetDeleteImpl :: primImpl where
  "msetDeleteImpl ce args ap w =
     argN args 1 w (\<lambda>key. argN args 2 w (\<lambda>mv. tryE (asMutSetVal mv w) ce w (\<lambda>(a, m).
     charge costAVLNode ce w (\<lambda>w. intoObj a m ce (avlDeleteMut (mroot m) key (mcmp m) ce ap w) (- 1)))))"

definition msetSizeImpl :: primImpl where
  "msetSizeImpl ce args ap w =
     argN args 0 w (\<lambda>mv. tryE (asMutSetVal mv w) ce w (\<lambda>(a, m). (Ret (intVal (word_of_int (msize m))) ce, w)))"

definition msetToListImpl :: primImpl where
  "msetToListImpl ce args ap w =
     argN args 0 w (\<lambda>mv. tryE (asMutSetVal mv w) ce w (\<lambda>(a, m).
     charge (word_of_int (msize m) * costConsNode) ce w (\<lambda>w. (Ret (avlKeysToConsList (mroot m)) ce, w))))"

fun msetFromListLoop :: "val \<Rightarrow> tree \<Rightarrow> int \<Rightarrow> val \<Rightarrow> capEnv \<Rightarrow> applier \<Rightarrow> world \<Rightarrow> (tree \<times> int) gores" where
  "msetFromListLoop list root sz cmp ce ap w =
     listNode ''msetFromList'' list ce w (Ret (root, sz) ce, w) (\<lambda>x rest.
       charge costAVLNode ce w (\<lambda>w.
       callR (withTree (avlInsertMut root x UnitVal cmp ce ap w)) (\<lambda>c. c) (\<lambda>(root, inserted) ce w.
       msetFromListLoop rest root (if inserted then sz + 1 else sz) cmp ce ap w)))"

declare msetFromListLoop.simps [simp del]

definition msetFromListImpl :: primImpl where
  "msetFromListImpl ce args ap w =
     argN args 0 w (\<lambda>cmp. argN args 1 w (\<lambda>list.
     callR (msetFromListLoop list AvlNil 0 cmp ce ap w) (\<lambda>c. c) (\<lambda>(root, sz) ce w. retNew (OMutMap (MapVal root cmp sz)) ce w)))"

definition msetFoldImpl :: primImpl where
  "msetFoldImpl ce args ap w =
     argN args 0 w (\<lambda>f. argN args 1 w (\<lambda>acc. argN args 2 w (\<lambda>mv. tryE (asMutSetVal mv w) ce w (\<lambda>(a, m).
     avlFoldl (mroot m) (\<lambda>node accum c w. applyNA ap f [accum, akey node] c w) acc ce w))))"

text \<open>The three merge joins build a new set from the entries of two.\<close>

definition msetMerge :: "(tree \<Rightarrow> tree \<Rightarrow> val \<Rightarrow> capEnv \<Rightarrow> applier \<Rightarrow> world \<Rightarrow> avlEntry list gores) \<Rightarrow> primImpl" where
  "msetMerge join ce args ap w =
     argN args 0 w (\<lambda>cmp. argN args 1 w (\<lambda>x. tryE (asMutSetVal x w) ce w (\<lambda>(_, a).
     argN args 2 w (\<lambda>y. tryE (asMutSetVal y w) ce w (\<lambda>(_, b).
     callR (join (mroot a) (mroot b) cmp ce ap w) (\<lambda>c. c) (\<lambda>entries ce w.
     orPanic (sortedToAVL entries) w (\<lambda>root. retNew (OMutMap (MapVal root cmp (int (length entries)))) ce w)))))))"

definition msetUnionImpl :: primImpl where "msetUnionImpl = msetMerge avlMergeUnion"
definition msetIntersectionImpl :: primImpl where "msetIntersectionImpl = msetMerge avlMergeIntersect"
definition msetDifferenceImpl :: primImpl where "msetDifferenceImpl = msetMerge avlMergeDifference"

definition msetPack :: "primImpl primRegistry \<Rightarrow> primImpl primRegistry" where
  "msetPack = registerAll
     [(''_msetNew'', msetNewImpl), (''_msetInsert'', msetInsertImpl), (''_msetMember'', msetMemberImpl), (''_msetDelete'', msetDeleteImpl),
      (''_msetSize'', msetSizeImpl), (''_msetToList'', msetToListImpl), (''_msetFromList'', msetFromListImpl), (''_msetFold'', msetFoldImpl),
      (''_msetUnion'', msetUnionImpl), (''_msetIntersection'', msetIntersectionImpl), (''_msetDifference'', msetDifferenceImpl),
      (''_msetNewNamed'', withLabel msetNewImpl), (''_msetFromListNamed'', withLabel msetFromListImpl),
      (''_msetInsertNamed'', withLabelNoCompare msetInsertImpl), (''_msetMemberNamed'', withLabelNoCompare msetMemberImpl),
      (''_msetDeleteNamed'', withLabelNoCompare msetDeleteImpl), (''_msetUnionNamed'', withLabelCmpFromHandle msetUnionImpl),
      (''_msetIntersectionNamed'', withLabelCmpFromHandle msetIntersectionImpl),
      (''_msetDifferenceNamed'', withLabelCmpFromHandle msetDifferenceImpl), (''_msetSizeNamed'', withLabel msetSizeImpl),
      (''_msetToListNamed'', withLabel msetToListImpl), (''_msetFoldNamed'', withLabel msetFoldImpl)]"

end
