(* ===== verification/Mutable_Laws.thy ===== *)
theory Mutable_Laws
  imports Mutable_Prims
begin

text \<open>
  The laws of mutable data. \<open>object_store\<close> is the contract between the primitives and the store for one type of object: what is written is read back,
  other objects do not change, a new object has a new address. It is proved once and instantiated for references, arrays and maps. Mutable maps are related to
  the persistent ones of \<open>Map_Set\<close>: each operation does to the object what the persistent operation does to a map value.
\<close>

section \<open>The store\<close>

definition storeOK :: "world \<Rightarrow> bool" where "storeOK w \<longleftrightarrow> (\<forall>a \<ge> w_onext w. w_objs w a = None)"

abbreviation ptr :: "nat \<Rightarrow> val" where "ptr a \<equiv> HostVal (HPtr a)"

lemma charge_store:
  assumes "charge n ce w k = (Ret v c, w')"
  obtains w1 where "onlyBudget w w1" "k w1 = (Ret v c, w')"
proof -
  obtain e b where "chargeAlloc n (w_budget w) = (e, b)" by fastforce
  then have "e = None" "k (w\<lparr> w_budget := b \<rparr>) = (Ret v c, w')" using assms by (auto simp: charge_def split: option.splits)
  then show ?thesis using that [of "w\<lparr> w_budget := b \<rparr>"] by (simp add: onlyBudget_def)
qed

lemma onlyBudget_objs: "onlyBudget w w' \<Longrightarrow> w_objs w' = w_objs w \<and> w_onext w' = w_onext w"
  unfolding onlyBudget_def by (metis world.select_convs world.surjective world.update_convs(1))

lemma writeObj_objs [simp]: "w_objs (writeObj a ob w) = (w_objs w)(a \<mapsto> ob)" "w_onext (writeObj a ob w) = w_onext w"
  by (simp_all add: writeObj_def)

lemma storeOK_writeObj: "storeOK w \<Longrightarrow> a < w_onext w \<Longrightarrow> storeOK (writeObj a ob w)"
  by (auto simp: storeOK_def)

lemma retNew_Ret:
  "retNew ob ce w = (Ret (ptr (w_onext w)) ce, w\<lparr> w_objs := (w_objs w)(w_onext w \<mapsto> ob), w_onext := w_onext w + 1 \<rparr>)"
  by (simp add: retNew_def allocObj_def)

locale object_store =
  fixes op :: string and want :: string and inj :: "'a \<Rightarrow> obj" and sel :: "obj \<Rightarrow> 'a option"
  assumes sel_inj: "sel ob = Some x \<longleftrightarrow> ob = inj x"
begin

lemma read_back: "objArg op want sel (ptr a) (writeObj a (inj x) w) = Inr (a, x)"
  using sel_inj [of "inj x" x] by (simp add: objArg_def)

lemma frame: "a \<noteq> b \<Longrightarrow> objArg op want sel (ptr b) (writeObj a ob w) = objArg op want sel (ptr b) w"
  by (simp add: objArg_def)

lemma present: "w_objs w a = Some (inj x) \<Longrightarrow> objArg op want sel (ptr a) w = Inr (a, x)"
  using sel_inj [of "inj x" x] by (simp add: objArg_def)

lemma fresh:
  assumes "storeOK w" "retNew (inj x) ce w = (Ret v c, w')"
  shows "objArg op want sel v w' = Inr (w_onext w, x) \<and> v = ptr (w_onext w) \<and> w_objs w (w_onext w) = None \<and> storeOK w' \<and>
    (\<forall>b. w_objs w b \<noteq> None \<longrightarrow> w_objs w' b = w_objs w b)"
  using assms sel_inj [of "inj x" x] by (auto simp: retNew_Ret storeOK_def objArg_def)

end

interpretation refs: object_store "''stdlib/ref''" "''*refCell''" ORefCell "\<lambda>ob. case ob of ORefCell v \<Rightarrow> Some v | _ \<Rightarrow> None"
  by unfold_locales (auto split: obj.splits)

interpretation arrays: object_store "''stdlib/array''" "''*mutArray''" OMutArray "\<lambda>ob. case ob of OMutArray d \<Rightarrow> Some d | _ \<Rightarrow> None"
  by unfold_locales (auto split: obj.splits)

interpretation mmaps: object_store "''stdlib/mmap''" "''*mutMapVal''" OMutMap "\<lambda>ob. case ob of OMutMap m \<Rightarrow> Some m | _ \<Rightarrow> None"
  by unfold_locales (auto split: obj.splits)

interpretation msets: object_store "''stdlib/mset''" "''*mutMapVal''" OMutMap "\<lambda>ob. case ob of OMutMap m \<Rightarrow> Some m | _ \<Rightarrow> None"
  by unfold_locales (auto split: obj.splits)

lemmas asRefCell_simps = refs.read_back [folded asRefCell_def] refs.present [folded asRefCell_def] refs.frame [folded asRefCell_def]
lemmas asMutArray_simps = arrays.read_back [folded asMutArray_def] arrays.present [folded asMutArray_def] arrays.frame [folded asMutArray_def]
lemmas asMutMapVal_simps = mmaps.read_back [folded asMutMapVal_def] mmaps.present [folded asMutMapVal_def]
lemmas asMutSetVal_simps = msets.read_back [folded asMutSetVal_def] msets.present [folded asMutSetVal_def]

section \<open>Properties\<close>

text \<open>
  References. Reading gives the value last written, a write changes no other object, and a new reference has an address of its own,
  holds its initial value, and leaves every existing object alone.
\<close>

theorem ref_laws:
  assumes "storeOK w" "w_objs w a = Some (ORefCell old)"
  shows "refReadImpl ce [ptr a] ap w = (Ret old ce, w) \<and>
    (\<exists>w'. refWriteImpl ce [v, ptr a] ap w = (Ret UnitVal ce, w') \<and> refReadImpl ce [ptr a] ap w' = (Ret v ce, w') \<and>
       storeOK w' \<and> (\<forall>b. b \<noteq> a \<longrightarrow> w_objs w' b = w_objs w b)) \<and>
    (\<forall>r c w'. refNewImpl ce [v] ap w = (Ret r c, w') \<longrightarrow>
       refReadImpl ce [r] ap w' = (Ret v ce, w') \<and> storeOK w' \<and> r \<noteq> ptr a \<and> (\<forall>b. w_objs w b \<noteq> None \<longrightarrow> w_objs w' b = w_objs w b))"
proof (intro conjI allI impI)
  show "refReadImpl ce [ptr a] ap w = (Ret old ce, w)" using assms by (simp add: refReadImpl_def asRefCell_simps)
  have "a < w_onext w" using assms by (force simp: storeOK_def not_less [symmetric])
  then show "\<exists>w'. refWriteImpl ce [v, ptr a] ap w = (Ret UnitVal ce, w') \<and> refReadImpl ce [ptr a] ap w' = (Ret v ce, w') \<and>
       storeOK w' \<and> (\<forall>b. b \<noteq> a \<longrightarrow> w_objs w' b = w_objs w b)"
    using assms by (intro exI [of _ "writeObj a (ORefCell v) w"]) (simp add: refReadImpl_def refWriteImpl_def asRefCell_simps storeOK_writeObj)
next
  fix r c w'
  assume "refNewImpl ce [v] ap w = (Ret r c, w')"
  then obtain w1 where w1: "onlyBudget w w1" "retNew (ORefCell v) ce w1 = (Ret r c, w')"
    by (auto simp: refNewImpl_def elim!: charge_store)
  then have "storeOK w1" using assms(1) onlyBudget_objs [OF w1(1)] by (simp add: storeOK_def)
  from refs.fresh [OF this w1(2), folded asRefCell_def] onlyBudget_objs [OF w1(1)] assms(2)
  show "refReadImpl ce [r] ap w' = (Ret v ce, w')" "storeOK w'" "r \<noteq> ptr a" "w_objs w b \<noteq> None \<Longrightarrow> w_objs w' b = w_objs w b" for b
    by (auto simp: refReadImpl_def)
qed

theorem ref_laws_witness:
  "\<exists>w'. refWriteImpl emptyCapEnv [intVal 2, ptr 0] (vmApplier failingEnv 0) (world0\<lparr> w_objs := [0 \<mapsto> ORefCell UnitVal], w_onext := 1 \<rparr>) =
     (Ret UnitVal emptyCapEnv, w') \<and> refReadImpl emptyCapEnv [ptr 0] (vmApplier failingEnv 0) w' = (Ret (intVal 2) emptyCapEnv, w')"
  using ref_laws [of "world0\<lparr> w_objs := [0 \<mapsto> ORefCell UnitVal], w_onext := 1 \<rparr>" 0 UnitVal emptyCapEnv "vmApplier failingEnv 0" "intVal 2"]
  by (fastforce simp: storeOK_def world0_def simp del: vmApplier.simps)



section \<open>Mutable maps simulate persistent ones\<close>

text \<open>
  The outcome of an operation on the object at an address, given the outcome of the persistent operation on the map it holds: the object becomes the
  resulting map, or the error is the same and the object satisfies \<open>P\<close>.
\<close>

definition simulates :: "nat \<Rightarrow> (val mapVal \<Rightarrow> bool) \<Rightarrow> val gores \<Rightarrow> val gores \<Rightarrow> bool" where
  "simulates a P p q \<longleftrightarrow>
     (\<forall>m' c w. p = (Ret (HostVal (HMap m')) c, w) \<longrightarrow> q = (Ret UnitVal c, writeObj a (OMutMap m') w)) \<and>
     (\<forall>e c w. p = (Err e c, w) \<longrightarrow> (\<exists>m'. P m' \<and> q = (Err e c, writeObj a (OMutMap m') w))) \<and>
     (\<forall>w. p = (Panic, w) \<longrightarrow> q = (Panic, w)) \<and> (\<forall>w. p = (Diverge, w) \<longrightarrow> q = (Diverge, w))"

lemma writeObj_same: "w_objs w a = Some ob \<Longrightarrow> writeObj a ob w = w"
  by (cases w) (auto simp: writeObj_def)

lemma simulates_charge:
  assumes "w_objs w a = Some (OMutMap m)" "P m"
    and k: "\<And>w1. onlyBudget w w1 \<Longrightarrow> simulates a P (k w1) (k' w1)"
  shows "simulates a P (charge n ce w k) (charge n ce w k')"
proof -
  obtain e b where c: "chargeAlloc n (w_budget w) = (e, b)" by fastforce
  let ?w = "w\<lparr> w_budget := b \<rparr>"
  have "writeObj a (OMutMap m) ?w = ?w" using assms(1) by (intro writeObj_same) simp
  then show ?thesis using c assms(2) k [of ?w]
    by (cases e) (auto simp: charge_def simulates_def onlyBudget_def)
qed

lemma simulates_into:
  assumes "\<And>t e c w. res = (t, (Err e c, w)) \<Longrightarrow> P (MapVal t (mcmp m) (msize m))"
  shows "simulates a P
    (callR (withTree res) (\<lambda>_. ce) (\<lambda>(t, changed) c w. (Ret (mapHost t (mcmp m) (if changed then msize m + delta else msize m)) c, w)))
    (intoObj a m ce res delta)"
  using assms by (cases "(a, m, ce, res, delta)" rule: intoObj.cases) (auto simp: simulates_def withTree_def)

lemma insert_simulates:
  "simulates a (\<lambda>m'. m' = m)
     (callR (avlInsert (mroot m) key v (mcmp m) ce ap w) (\<lambda>_. ce) (\<lambda>(t, ins) c w. (Ret (mapHost t (mcmp m) (if ins then msize m + 1 else msize m)) c, w)))
     (intoObj a m ce (avlInsertMut (mroot m) key v (mcmp m) ce ap w) 1)"
  unfolding avlInsertMut_persistent [symmetric] by (rule simulates_into) (auto dest!: avlInsertMut_error)

lemma delete_simulates:
  "simulates a (\<lambda>_. True)
     (callR (avlDelete (mroot m) key (mcmp m) ce ap w) (\<lambda>_. ce) (\<lambda>(t, del) c w. (Ret (mapHost t (mcmp m) (if del then msize m - 1 else msize m)) c, w)))
     (intoObj a m ce (avlDeleteMut (mroot m) key (mcmp m) ce ap w) (- 1))"
  unfolding avlDeleteMut_persistent [symmetric]
  by (rule simulates_into [where delta = "- 1", unfolded add_uminus_conv_diff]) simp

text \<open>
  C16: Mutable maps are persistent maps in a cell. For every comparator and applier, inserting into the object that holds a map, or deleting from it,
  leaves the object holding the map that the persistent operation returns, with the same charges, calls and errors; a failed insertion leaves the
  object as it was. Lookup, membership, size, listing and folding are the persistent operations on the map the object holds.
\<close>

theorem mmap_simulates_map:
  assumes "w_objs w a = Some (OMutMap m)"
  shows "simulates a (\<lambda>m'. m' = m) (mapInsertImpl ce [x, key, v, HostVal (HMap m)] ap w) (mmapInsertImpl ce [x, key, v, ptr a] ap w) \<and>
    simulates a (\<lambda>_. True) (mapDeleteImpl ce [x, key, HostVal (HMap m)] ap w) (mmapDeleteImpl ce [x, key, ptr a] ap w) \<and>
    mmapLookupImpl ce [x, key, ptr a] ap w = mapLookupImpl ce [x, key, HostVal (HMap m)] ap w \<and>
    mmapMemberImpl ce [x, key, ptr a] ap w = mapMemberImpl ce [x, key, HostVal (HMap m)] ap w \<and>
    mmapSizeImpl ce [ptr a] ap w = mapSizeImpl ce [HostVal (HMap m)] ap w \<and>
    mmapToListImpl ce [ptr a] ap w = mapToListImpl ce [HostVal (HMap m)] ap w \<and>
    mmapKeysImpl ce [ptr a] ap w = mapKeysImpl ce [HostVal (HMap m)] ap w \<and>
    mmapValuesImpl ce [ptr a] ap w = mapValuesImpl ce [HostVal (HMap m)] ap w \<and>
    mmapFoldlWithKeyImpl ce [f, z, ptr a] ap w = mapFoldlWithKeyImpl ce [f, z, HostVal (HMap m)] ap w"
proof (intro conjI)
  note arg = asMutMapVal_simps(2) [OF assms]
  show "simulates a (\<lambda>m'. m' = m) (mapInsertImpl ce [x, key, v, HostVal (HMap m)] ap w) (mmapInsertImpl ce [x, key, v, ptr a] ap w)"
    using simulates_charge [OF assms] insert_simulates by (simp add: mapInsertImpl_def mmapInsertImpl_def arg numeral_3_eq_3)
  show "simulates a (\<lambda>_. True) (mapDeleteImpl ce [x, key, HostVal (HMap m)] ap w) (mmapDeleteImpl ce [x, key, ptr a] ap w)"
    using simulates_charge [OF assms] delete_simulates by (simp add: mapDeleteImpl_def mmapDeleteImpl_def arg)
qed (simp_all add: asMutMapVal_simps(2) [OF assms] mmapLookupImpl_def mapLookupImpl_def mmapMemberImpl_def mapMemberImpl_def mmapSizeImpl_def
    mapSizeImpl_def mmapToListImpl_def mapToListImpl_def mmapKeysImpl_def mapKeysImpl_def mmapValuesImpl_def mapValuesImpl_def
    mmapFoldlWithKeyImpl_def mapFoldlWithKeyImpl_def)

theorem mmap_simulates_map_witness:
  "mmapInsertImpl emptyCapEnv [UnitVal, intVal 1, intVal 2, ptr 0] (vmApplier failingEnv 0) (world0\<lparr> w_objs := [0 \<mapsto> OMutMap (MapVal AvlNil UnitVal 0)] \<rparr>) =
     (Ret UnitVal emptyCapEnv, world0\<lparr> w_objs := [0 \<mapsto> OMutMap (MapVal (avlNewNode (intVal 1) (intVal 2)) UnitVal 1)] \<rparr>)"
proof -
  let ?w = "world0\<lparr> w_objs := [0 \<mapsto> OMutMap (MapVal AvlNil UnitVal 0)] \<rparr>"
  have "mapInsertImpl emptyCapEnv [UnitVal, intVal 1, intVal 2, HostVal (HMap (MapVal AvlNil UnitVal 0))] (vmApplier failingEnv 0) ?w =
      (Ret (mapHost (avlNewNode (intVal 1) (intVal 2)) UnitVal 1) emptyCapEnv, ?w)"
    by (simp add: mapInsertImpl_def charge_def chargeAlloc_def world0_def numeral_3_eq_3 del: vmApplier.simps)
  then show ?thesis
    using mmap_simulates_map [of ?w 0 "MapVal AvlNil UnitVal 0" emptyCapEnv UnitVal "intVal 1" "intVal 2" "vmApplier failingEnv 0"]
    by (simp add: simulates_def writeObj_def del: vmApplier.simps)
qed

text \<open>The same for sets, which are maps to unit.\<close>

theorem mset_simulates_set:
  assumes "w_objs w a = Some (OMutMap m)"
  shows "simulates a (\<lambda>m'. m' = m) (setInsertImpl ce [x, key, HostVal (HMap m)] ap w) (msetInsertImpl ce [x, key, ptr a] ap w) \<and>
    simulates a (\<lambda>_. True) (setDeleteImpl ce [x, key, HostVal (HMap m)] ap w) (msetDeleteImpl ce [x, key, ptr a] ap w) \<and>
    msetMemberImpl ce [x, key, ptr a] ap w = setMemberImpl ce [x, key, HostVal (HMap m)] ap w \<and>
    msetSizeImpl ce [ptr a] ap w = setSizeImpl ce [HostVal (HMap m)] ap w \<and>
    msetToListImpl ce [ptr a] ap w = setToListImpl ce [HostVal (HMap m)] ap w"
proof (intro conjI)
  note arg = asMutSetVal_simps(2) [OF assms]
  show "simulates a (\<lambda>m'. m' = m) (setInsertImpl ce [x, key, HostVal (HMap m)] ap w) (msetInsertImpl ce [x, key, ptr a] ap w)"
    using simulates_charge [OF assms] insert_simulates by (simp add: setInsertImpl_def msetInsertImpl_def arg)
  show "simulates a (\<lambda>_. True) (setDeleteImpl ce [x, key, HostVal (HMap m)] ap w) (msetDeleteImpl ce [x, key, ptr a] ap w)"
    using simulates_charge [OF assms] delete_simulates by (simp add: setDeleteImpl_def msetDeleteImpl_def arg)
qed (simp_all add: asMutSetVal_simps(2) [OF assms] msetMemberImpl_def setMemberImpl_def mapMemberImpl_def msetSizeImpl_def
    setSizeImpl_def mapSizeImpl_def msetToListImpl_def setToListImpl_def)

section \<open>Building from lists, the comparator argument\<close>

lemma mmapFromListLoop_map:
  "mapFromListLoop list root sz cmp ce ap w = (Ret (t, n) c, w') \<Longrightarrow> mmapFromListLoop list root sz cmp ce ap w = (Ret (t, n) c, w')"
proof (induction list arbitrary: root sz ce w rule: measure_induct_rule [where f = size])
  case (less list)
  show ?case
  proof (cases "listView list")
    case (ConsNode x rest)
    then obtain d k where list: "list = ConVal ListCons [x, rest] d k" using listView_ConsNode by blast
    obtain e b where b: "chargeAlloc costAVLNode (w_budget w) = (e, b)" by fastforce
    have IH: "mapFromListLoop rest r z cmp c1 ap w1 = (Ret (t, n) c, w') \<Longrightarrow> mmapFromListLoop rest r z cmp c1 ap w1 = (Ret (t, n) c, w')" for r z c1 w1
      using less.IH [OF listView_size [OF ConsNode]] .
    show ?thesis using less.prems
      by (subst mmapFromListLoop.simps)
        (auto simp: list listNode_def listView_def avlInsertMut_persistent charge_def b split: val.splits option.splits
          elim!: callR_RetE dest!: IH)
  qed (use less.prems in \<open>(cases list; auto simp: mmapFromListLoop.simps [of "ConVal _ _ _ _"] listNode_def listView_def split: if_splits list.splits)\<close>)+
qed

text \<open>The primitives that \<^verbatim>\<open>withLabelNoCompare\<close> wraps do not read the place of the comparator.\<close>

theorem compare_argument_unread:
  "fn \<in> {mmapInsertImpl, mmapLookupImpl, mmapDeleteImpl, mmapMemberImpl, mmapAdjustImpl, msetInsertImpl, msetMemberImpl, msetDeleteImpl} \<Longrightarrow>
   fn ce (x # args) ap w = fn ce (y # args) ap w"
  by (auto simp: mmapInsertImpl_def mmapLookupImpl_def mmapDeleteImpl_def mmapMemberImpl_def mmapAdjustImpl_def msetInsertImpl_def
      msetMemberImpl_def msetDeleteImpl_def argN_def cong: option.case_cong)

section \<open>An error in the middle of a deletion\<close>

text \<open>
  Deleting a node with two children overwrites its key with that of its successor before it deletes the successor. When a comparison fails there, the
  error is returned but the key to delete is gone, its successor is in the tree twice and the size counts an entry that is lost.
\<close>

theorem delete_error_corrupts:
  "\<exists>ap e. let t = AvlNode (intVal 2) UnitVal (avlNewNode (intVal 1) UnitVal) (avlNewNode (intVal 3) UnitVal) 2;
            w = world0\<lparr> w_objs := [0 \<mapsto> OMutMap (MapVal t UnitVal 3)] \<rparr>
    in mmapDeleteImpl emptyCapEnv [UnitVal, intVal 2, ptr 0] ap w =
      (Err e emptyCapEnv, w\<lparr> w_objs := [0 \<mapsto> OMutMap (MapVal
         (AvlNode (intVal 3) UnitVal (avlNewNode (intVal 1) UnitVal) (avlNewNode (intVal 3) UnitVal) 2) UnitVal 3)] \<rparr>)"
proof -
  define ap where "ap = (applierFrom (\<lambda>_ _ c w. (Panic, w)))
      \<lparr> applyNA := (\<lambda>f args c w. if args = [intVal 2, intVal 2] then (Ret (mkCon OrderEQ []) c, w) else (Err (PlainErr ''limit'') c, w)) \<rparr>"
  have arg: "asMutMapVal (ptr 0) (world0\<lparr> w_objs := [0 \<mapsto> OMutMap m] \<rparr>) = Inr (0, m)" for m by (simp add: asMutMapVal_simps)
  have "charge n c (world0\<lparr> w_objs := h \<rparr>) k = k (world0\<lparr> w_objs := h \<rparr>)" for n c h and k :: "world \<Rightarrow> val gores"
    by (simp add: charge_def chargeAlloc_def world0_def)
  then show ?thesis
    by (intro exI [of _ ap] exI [of _ "PlainErr ''limit''"])
      (simp add: Let_def mmapDeleteImpl_def arg compareKeys_def ap_def mkCon_def avlNewNode_def intVal_def writeObj_def)
qed

end
