(* ===== verification/Opt_Fuel.thy ===== *)
theory Opt_Fuel
  imports Opt_Subst
begin

text \<open>
  The fuel of substitution: \<open>substMany\<close> satisfies the equation of the code. A renaming keeps the size of a term, so that the second substitution into a renamed body is
  on a term no larger than the body.
\<close>

section \<open>Loops with a counter\<close>

lemma mapCounted_cong:
  "(\<And>x m. x \<in> set xs \<Longrightarrow> f x m = g x m) \<Longrightarrow> mapCounted f xs n = mapCounted g xs n"
  by (induction xs arbitrary: n) (auto split: prod.splits)

lemma mapCounted_pure:
  "(\<And>x m. x \<in> set xs \<Longrightarrow> f x m = (g x, m)) \<Longrightarrow> mapCounted f xs n = (map g xs, n)"
  by (induction xs arbitrary: n) auto

lemma mapCounted_length: "length (fst (mapCounted f xs n)) = length xs"
  by (induction xs arbitrary: n) (auto split: prod.splits, metis fst_conv)

lemma mapCounted_rel:
  fixes n n' :: nat
  assumes "mapCounted f xs n = (ys, n')" "\<And>x m y m'. x \<in> set xs \<Longrightarrow> f x m = (y, m') \<Longrightarrow> m \<le> m'"
  shows "n \<le> n' \<and> list_all2 (\<lambda>x y. \<exists>m m'. n \<le> m \<and> f x m = (y, m') \<and> m' \<le> n') xs ys"
  using assms
proof (induction xs arbitrary: n ys)
  case (Cons x xs)
  obtain y n1 zs where s: "f x n = (y, n1)" "mapCounted f xs n1 = (zs, n')" "ys = y # zs"
    using Cons.prems(1) by (auto split: prod.splits)
  have "n \<le> n1" using Cons.prems(2) s(1) by auto
  moreover have "n1 \<le> n' \<and> list_all2 (\<lambda>x y. \<exists>m m'. n1 \<le> m \<and> f x m = (y, m') \<and> m' \<le> n') xs zs"
    using Cons.IH [OF s(2)] Cons.prems(2) by auto
  ultimately show ?case using s by (auto elim!: list_all2_mono intro: order_trans)
qed simp

lemma mapCounted_size:
  "(\<And>x m. x \<in> set xs \<Longrightarrow> sz (fst (f x m)) = sz x) \<Longrightarrow> size_list sz (fst (mapCounted f xs n)) = size_list sz xs"
proof (induction xs arbitrary: n)
  case (Cons x xs)
  have "sz (fst (f x n)) = sz x" using Cons.prems by simp
  then show ?case using Cons by (auto split: prod.splits) (metis fst_conv)+
qed simp

section \<open>A renaming keeps the size\<close>

definition renaming :: "tsubst \<Rightarrow> bool" where
  "renaming subs \<longleftrightarrow> (\<forall>(k, v) \<in> set subs. \<exists>z. v = localVar z)"

lemma renaming_one [simp]: "renaming [(x, localVar z)]" "renaming []"
  by (auto simp: renaming_def)

lemma set_withoutKey: "set (withoutKey m k) \<subseteq> set m"
  by (auto simp: withoutKey_def)

lemma renaming_withoutKey: "renaming subs \<Longrightarrow> renaming (withoutKey subs k)"
  using set_withoutKey by (fastforce simp: renaming_def)

lemma set_activeSubs: "set (activeSubs bs subs) \<subseteq> set subs"
  by (induction bs subs rule: activeSubs.induct) (auto split: if_splits dest: subsetD [OF set_withoutKey])

lemma renaming_activeSubs: "renaming subs \<Longrightarrow> renaming (activeSubs bs subs)"
  using set_activeSubs by (fastforce simp: renaming_def)

lemma renaming_renameBinders: "renaming rn \<Longrightarrow> renaming (fst (renameBinders F bs rn p n))"
proof (induction F bs rn p n rule: renameBinders.induct)
  case (2 F b bs rn p n)
  have "renaming (AList.update b (localVar z) rn)" for z
    using 2(3) by (induction rn) (auto simp: renaming_def)
  then show ?case using 2 by (auto simp: freshName_def Let_def)
qed simp

lemma Clone_localVar: "Clone (localVar z) = Var z [] (- 1)"
  by (simp add: Clone_def Transform_def localVar_def rec_node cloneNode_def)

lemma renaming_lookup: "renaming subs \<Longrightarrow> map_of subs x = Some r \<Longrightarrow> \<exists>z. r = localVar z"
  by (auto simp: renaming_def dest!: map_of_SomeD)

definition keepsSize :: "substFun \<Rightarrow> bool" where
  "keepsSize sb \<longleftrightarrow> (\<forall>c subs F n. renaming subs \<longrightarrow> size (fst (sb c subs F n)) = size c)"

lemma keepsSizeD: "keepsSize sb \<Longrightarrow> renaming subs \<Longrightarrow> sb c subs F n = (c', n') \<Longrightarrow> size c' = size c"
  unfolding keepsSize_def by (metis fst_conv)

lemma enterBinder_size: "keepsSize sb \<Longrightarrow> enterBinder sb F x b n = (x', b', n') \<Longrightarrow> size b' = size b"
  by (auto simp: enterBinder_def freshName_def Let_def split: if_splits prod.splits dest: keepsSizeD [OF _ renaming_one(1)])

lemma renameBinders_size:
  "keepsSize sb \<Longrightarrow> renameBinders F bs [] p n = (rn, p', n1) \<Longrightarrow> sb b rn F' n1 = (b', n2) \<Longrightarrow> size b' = size b"
  using renaming_renameBinders [OF renaming_one(2), of F bs p n] by (auto dest: keepsSizeD)

lemma substAlt_size:
  assumes "keepsSize sb" "renaming subs"
  shows "size_prod (\<lambda>_. 0) (size_prod size (\<lambda>_. 0)) (fst (substAlt sb subs F alt n)) = size_prod (\<lambda>_. 0) (size_prod size (\<lambda>_. 0)) alt"
proof -
  obtain p b g where alt: "alt = (p, b, g)" by (cases alt)
  show ?thesis
    using renaming_activeSubs [OF assms(2), of "Bindings p"] renameBinders_size [OF assms(1)] keepsSizeD [OF assms(1)]
    by (auto simp: alt substAlt_def Let_def split: prod.splits if_splits)
qed

lemma keepsSize_node:
  assumes "keepsSize sb" shows "keepsSize (substNode sb)"
proof -
  have "size (fst (substNode sb c subs F n)) = size c" if r: "renaming subs" for c subs F n
  proof -
    have s: "sb c' subs F n' = (c'', n'') \<Longrightarrow> size c'' = size c'" for c' n' c'' n'' using keepsSizeD [OF assms r] .
    have w: "sb c' (withoutKey subs k) F n' = (c'', n'') \<Longrightarrow> size c'' = size c'" for c' k n' c'' n''
      using keepsSizeD [OF assms renaming_withoutKey [OF r]] .
    note e = enterBinder_size [OF assms]
    have args: "size_list size (fst (mapCounted (\<lambda>a. sb a subs F) xs m)) = size_list size xs" for xs m
      using s by (intro mapCounted_size) (metis fst_conv surj_pair)
    have flds: "size_list (size_prod (\<lambda>_. 0) size) (fst (mapCounted (\<lambda>(l, e) n. case sb e subs F n of (e', n1) \<Rightarrow> ((l, e'), n1)) fs m))
        = size_list (size_prod (\<lambda>_. 0) size) fs" for fs m
      by (rule mapCounted_size) (auto split: prod.splits dest: s)
    have alts: "size_list (size_prod (\<lambda>_. 0) (size_prod size (\<lambda>_. 0))) (fst (mapCounted (substAlt sb subs F) as m))
        = size_list (size_prod (\<lambda>_. 0) (size_prod size (\<lambda>_. 0))) as" for as m
      by (rule mapCounted_size) (rule substAlt_size [OF assms r])
    show ?thesis
    proof (cases c)
      case (Var x m i)
      then show ?thesis using renaming_lookup [OF r, of x]
        by (auto simp: substNode_def Clone_localVar split: option.splits)
    next
      case (Con c m as d)
      then show ?thesis using args [of as n] by (auto simp: substNode_def split: prod.splits)
    next
      case (PrimOp p k eff as)
      then show ?thesis using args [of as n] by (auto simp: substNode_def split: prod.splits)
    next
      case (Case e as)
      then show ?thesis using alts [of as n] by (auto simp: substNode_def split: prod.splits dest: s)
    next
      case (RecordLit fs)
      then show ?thesis using flds [of fs n] by (auto simp: substNode_def split: prod.splits)
    next
      case (RecordUpdate e fs)
      then show ?thesis using flds [of fs n] by (auto simp: substNode_def split: prod.splits dest: s)
    next
      case (Bind e x b disc g)
      define act where "act = (if hasKey subs x then withoutKey subs x else subs)"
      have ra: "renaming act" using r renaming_withoutKey [OF r] by (simp add: act_def)
      obtain e' n1 x' b' n2 b'' n3 where p: "sb e subs F n = (e', n1)" "enterBinder sb F x b n1 = (x', b', n2)" "sb b' act F n2 = (b'', n3)"
        by (metis prod_cases3 surj_pair)
      have "size e' = size e" "size b' = size b" "size b'' = size b'" using s [OF p(1)] e [OF p(2)] keepsSizeD [OF assms ra p(3)] by simp_all
      then show ?thesis using p by (simp add: Bind substNode_def act_def [symmetric])
    qed (auto simp: substNode_def Let_def split: prod.splits dest!: s w e)
  qed
  then show ?thesis by (simp add: keepsSize_def)
qed

lemma keepsSize_fuel: "keepsSize (substFuel k)"
  by (induction k) (simp add: keepsSize_def, simp add: keepsSize_node)

section \<open>The equation of the code\<close>

lemma substNode_cong:
  assumes "keepsSize sb" "\<And>e subs F n. size e < size c \<Longrightarrow> sb e subs F n = sb' e subs F n"
  shows "substNode sb c subs F n = substNode sb' c subs F n"
proof -
  have enter: "enterBinder sb F x b n = enterBinder sb' F x b n" if "size b < size c" for x b n
    using assms(2) [OF that] by (simp add: enterBinder_def)
  have after: "sb b' s F m = sb' b' s F m" if "enterBinder sb F x b n = (x', b', m)" "size b < size c" for x b n x' b' m s
    using assms(2) [of b'] enterBinder_size [OF assms(1) that(1)] that(2) by simp
  have alt: "substAlt sb subs F (p, b, g) n = substAlt sb' subs F (p, b, g) n" if "size b < size c" for p b g n
  proof -
    obtain rn p' n1 where rn: "renameBinders F (Bindings p) [] p n = (rn, p', n1)" by (cases "renameBinders F (Bindings p) [] p n")
    have "sb b rn F' n1 = sb' b rn F' n1" for F' by (rule assms(2) [OF that])
    moreover have "sb b' s F m = sb' b' s F m" if "sb b rn F' n1 = (b', m)" for b' F' s m
      using assms(2) [of b'] renameBinders_size [OF assms(1) rn that] \<open>size b < size c\<close> by simp
    moreover have "sb b s F m = sb' b s F m" for s m by (rule assms(2) [OF that])
    ultimately show ?thesis by (auto simp: substAlt_def rn Let_def split: prod.splits)
  qed
  show ?thesis
  proof (cases c)
    case (Con cn m as d)
    then have "mapCounted (\<lambda>a. sb a subs F) as n = mapCounted (\<lambda>a. sb' a subs F) as n"
      by (intro mapCounted_cong assms(2)) (auto dest: size_mem_list)
    then show ?thesis by (simp add: Con substNode_def)
  next
    case (PrimOp p k eff as)
    then have "mapCounted (\<lambda>a. sb a subs F) as n = mapCounted (\<lambda>a. sb' a subs F) as n"
      by (intro mapCounted_cong assms(2)) (auto dest: size_mem_list)
    then show ?thesis by (simp add: PrimOp substNode_def)
  next
    case (Case e as)
    have "mapCounted (substAlt sb subs F) as n = mapCounted (substAlt sb' subs F) as n"
    proof (rule mapCounted_cong)
      fix x m assume x: "x \<in> set as"
      obtain p b g where "x = (p, b, g)" by (cases x)
      moreover from this have "size b < size c" using size_mem_alt [of p b g as] x by (simp add: Case)
      ultimately show "substAlt sb subs F x m = substAlt sb' subs F x m" using alt by simp
    qed
    then show ?thesis using assms(2) [of e] by (simp add: Case substNode_def)
  next
    case (RecordLit fs)
    have "mapCounted (\<lambda>(l, e) n. case sb e subs F n of (e', n1) \<Rightarrow> ((l, e'), n1)) fs n = mapCounted (\<lambda>(l, e) n. case sb' e subs F n of (e', n1) \<Rightarrow> ((l, e'), n1)) fs n"
      by (rule mapCounted_cong) (use assms(2) in \<open>auto simp: RecordLit dest!: size_mem_pair\<close>)
    then show ?thesis by (simp add: RecordLit substNode_def)
  next
    case (RecordUpdate e fs)
    have "mapCounted (\<lambda>(l, e) n. case sb e subs F n of (e', n1) \<Rightarrow> ((l, e'), n1)) fs n = mapCounted (\<lambda>(l, e) n. case sb' e subs F n of (e', n1) \<Rightarrow> ((l, e'), n1)) fs n"
      by (rule mapCounted_cong) (use assms(2) in \<open>auto simp: RecordUpdate dest!: size_mem_pair\<close>)
    then show ?thesis using assms(2) [of e] by (simp add: RecordUpdate substNode_def)
  next
    case (Lam s x t b g)
    then show ?thesis using assms(2) [of b] enter [of b] after [of x b]
      by (auto simp: substNode_def Let_def split: prod.splits)
  next
    case (Fix x b)
    then show ?thesis using assms(2) [of b] enter [of b] after [of x b]
      by (auto simp: substNode_def Let_def split: prod.splits)
  next
    case (Bind e x b disc g)
    then show ?thesis using assms(2) [of b] assms(2) [of e] enter [of b] after [of x b]
      by (auto simp: substNode_def Let_def split: prod.splits)
  qed (auto simp: substNode_def assms(2))
qed

lemma substFuel_enough: "size c < k \<Longrightarrow> size c < k' \<Longrightarrow> substFuel k c subs F n = substFuel k' c subs F n"
proof (induction k arbitrary: k' c subs F n)
  case (Suc k)
  obtain j where k': "k' = Suc j" using Suc.prems(2) by (cases k') auto
  have "substNode (substFuel k) c subs F n = substNode (substFuel j) c subs F n"
  proof (rule substNode_cong [OF keepsSize_fuel])
    show "substFuel k e s G m = substFuel j e s G m" if "size e < size c" for e s G m
      using Suc.IH [of e j] Suc.prems that by (simp add: k')
  qed
  then show ?case by (simp add: k')
qed simp

lemma keepsSize_substMany: "keepsSize substMany"
  using keepsSize_fuel unfolding keepsSize_def substMany_def by blast

theorem substMany_node: "substMany c subs F n = substNode substMany c subs F n"
proof -
  have "substMany c subs F n = substNode (substFuel (size c)) c subs F n" by (simp add: substMany_def)
  also have "\<dots> = substNode substMany c subs F n"
    by (rule substNode_cong [OF keepsSize_fuel]) (simp only: substMany_def, rule substFuel_enough, auto)
  finally show ?thesis .
qed

end
