(* ===== verification/Opt_Strip.thy ===== *)
theory Opt_Strip
  imports Opt_Fuel
begin

text \<open>
  What copying a term does not change. \<open>strip\<close> forgets the indices of variables and the dictionary flags of constructors; a clone, at any depth, strips to the same term. The
  names of a term, its free names, its binders and the shape of its patterns do not depend on what is stripped.
\<close>

section \<open>Stripping\<close>

definition plainNode :: "tm \<Rightarrow> tm" where
  "plainNode c = (case c of Var x m i \<Rightarrow> Var x m 0 | Con n m args d \<Rightarrow> Con n m args False | _ \<Rightarrow> c)"

definition strip :: "tm \<Rightarrow> tm" where "strip = bottomUp plainNode"

lemma strip_node: "strip c = plainNode (mapKids strip c)"
  unfolding strip_def by (subst bottomUp.simps) simp

lemma strip_simps [simp]:
  "strip (Var x m i) = Var x m 0"
  "strip (Lam s x pty b g) = Lam s x pty (strip b) g"
  "strip (App f a) = App (strip f) (strip a)"
  "strip (TyApp e t) = TyApp (strip e) t"
  "strip (TyLam y k b) = TyLam y k (strip b)"
  "strip (Con n m args d) = Con n m (map strip args) False"
  "strip (Case e alts) = Case (strip e) (map (\<lambda>(p, b, g). (p, strip b, g)) alts)"
  "strip (Fix x b) = Fix x (strip b)"
  "strip (Pure e) = Pure (strip e)"
  "strip (Bind e x b disc g) = Bind (strip e) x (strip b) disc g"
  "strip (Thunk s e) = Thunk s (strip e)"
  "strip (Force e) = Force (strip e)"
  "strip (Merge s1 s2 l r ll rl) = Merge s1 s2 (strip l) (strip r) ll rl"
  "strip (PrimOp q ar eff args) = PrimOp q ar eff (map strip args)"
  "strip (Lit v) = Lit v"
  "strip (RecordLit fs) = RecordLit (map (\<lambda>(l, e). (l, strip e)) fs)"
  "strip (RecordProj e lbl) = RecordProj (strip e) lbl"
  "strip (RecordUpdate e fs) = RecordUpdate (strip e) (map (\<lambda>(l, e). (l, strip e)) fs)"
  "strip (VariantLit tag e) = VariantLit tag (strip e)"
  "strip CoreError = CoreError"
  by (subst strip_node, simp add: plainNode_def)+

lemma scoped_strip: "scoped (strip c) = map (\<lambda>(ns, k). (ns, strip k)) (scoped c)"
  by (cases c) (auto simp: comp_def case_prod_unfold)

lemma strip_strip [simp]: "strip (strip c) = strip c"
proof (induction c rule: core_induct)
  case (node c)
  have "mapKids strip (mapKids strip c) = mapKids strip c" using node
    by (cases c) (auto simp: field_kid alt_kid case_prod_unfold intro!: image_eqI)
  moreover have "mapKids strip (plainNode d) = plainNode (mapKids strip d)" for d by (cases d) (simp_all add: plainNode_def)
  moreover have "plainNode (plainNode d) = plainNode d" for d by (cases d) (simp_all add: plainNode_def)
  ultimately show ?case by (simp add: strip_node)
qed

section \<open>Transformations that keep the stripped term\<close>

definition keepsStrip :: "rewrite \<Rightarrow> bool" where "keepsStrip f \<longleftrightarrow> (\<forall>c. strip (applied f c) = strip c)"

lemma keepsStripD: "keepsStrip f \<Longrightarrow> strip (applied f c) = strip c" "keepsStrip f \<Longrightarrow> strip (orElse c (f c)) = strip c"
  by (simp_all add: keepsStrip_def applied_def)

lemma spine_strip:
  assumes "keepsStrip f" "\<And>g a. (g, a) \<in> set (fst (spineApps c)) \<Longrightarrow> strip (t a) = strip a" "strip th = strip (snd (spineApps c))"
  shows "strip (mutSpine (applied f) th (rev (map (\<lambda>(g, a). t a) (fst (spineApps c))))) = strip c"
  using assms(2,3)
proof (induction c rule: spineApps.induct)
  case (1 g a)
  have "strip (mutSpine (applied f) th (rev (map (\<lambda>(f, a). t a) (fst (spineApps g))))) = strip g"
    using 1 by (auto simp: case_prod_unfold)
  moreover have "strip (t a) = strip a" using 1(2) [of g a] by (simp add: case_prod_unfold)
  ultimately show ?case using keepsStripD [OF assms(1)] by (simp add: case_prod_unfold mutSpine_snoc)
qed (simp_all add: mutSpine_def)

lemma chain_strip:
  assumes "keepsStrip f" "\<And>e x b disc gen. (e, x, b, disc, gen) \<in> set (fst (bindChain c)) \<Longrightarrow> strip (t e) = strip e" "strip tt = strip (snd (bindChain c))"
  shows "strip (mutChain (applied f) tt (rev (map (\<lambda>(e, x, b, disc, gen). (t e, x, b, disc, gen)) (fst (bindChain c))))) = strip c"
  using assms(2,3)
proof (induction c rule: bindChain.induct)
  case (1 e x b disc gen)
  have "strip (mutChain (applied f) tt (rev (map (\<lambda>(e, x, b, disc, gen). (t e, x, b, disc, gen)) (fst (bindChain b))))) = strip b"
  proof (rule 1(1))
    show "strip (t e') = strip e'" if "(e', x', b', disc', gen') \<in> set (fst (bindChain b))" for e' x' b' disc' gen'
      using 1(2) [of e' x' b' disc' gen'] that by (simp add: case_prod_unfold)
  qed (use 1(3) in \<open>simp add: case_prod_unfold\<close>)
  moreover have "strip (t e) = strip e" using 1(2) [of e x b disc gen] by (simp add: case_prod_unfold)
  ultimately show ?case using keepsStripD [OF assms(1)] by (simp add: case_prod_unfold mutChain_snoc)
qed (simp_all add: mutChain_def)

lemma offerSpine_strip: "keepsStrip f \<Longrightarrow> strip (orElse c (offerSpine f (rev (fst (spineApps c))))) = strip c"
proof (induction c rule: spineApps.induct)
  case (1 g a)
  then have ih: "strip (orElse g (offerSpine f (rev (fst (spineApps g))))) = strip g" by (simp add: case_prod_unfold)
  show ?case using ih keepsStripD [OF 1(2)]
    by (auto simp: case_prod_unfold offerSpine_snoc split: option.splits)
qed simp_all

lemma offerChain_strip: "keepsStrip f \<Longrightarrow> strip (orElse c (offerChain f (rev (fst (bindChain c))))) = strip c"
proof (induction c rule: bindChain.induct)
  case (1 e x b disc gen)
  then have ih: "strip (orElse b (offerChain f (rev (fst (bindChain b))))) = strip b" by (simp add: case_prod_unfold)
  show ?case using ih keepsStripD [OF 1(2)]
    by (auto simp: case_prod_unfold offerChain_snoc split: option.splits)
qed simp_all

lemma shared_strip:
  assumes "keepsStrip f" "\<And>k. k \<in> set (kids c) \<Longrightarrow> strip (orElse k (t k)) = strip k"
  shows "strip (orElse c (shared f t c)) = strip c"
proof -
  have "mapKids strip (mapKids (\<lambda>k. orElse k (t k)) c) = mapKids strip c"
    using assms(2) by (cases c) (auto simp: field_kid alt_kid case_prod_unfold intro!: image_eqI)
  moreover have "strip (mapKids h c) = plainNode (mapKids strip (mapKids h c))" for h by (rule strip_node)
  ultimately have "strip (mapKids (\<lambda>k. orElse k (t k)) c) = strip c" by (simp add: strip_node [of c])
  then show ?thesis using keepsStripD [OF assms(1)] by (auto simp: shared_def rebuilt_def)
qed

text \<open>A constructor application that is rebuilt loses its flag, which stripping forgets.\<close>

lemma con_strip:
  assumes "keepsStrip f" "\<And>k. k \<in> set args \<Longrightarrow> strip (orElse k (t k)) = strip k"
  shows "strip (orElse (Con n m args d) (case transformSlice args (map t args) of None \<Rightarrow> f (Con n m args d) | Some args' \<Rightarrow> rebuilt f (Con n m args' False)))
    = strip (Con n m args d)"
  using assms(2) keepsStripD [OF assms(1)]
  by (auto simp: transformSlice_def rebuilt_def zip_map_same comp_def)

lemma rec_strip: "keepsStrip f \<Longrightarrow> strip (orElse c (transformRec f c d)) = strip c"
proof (induction c arbitrary: d rule: measure_induct_rule [where f = size])
  case (less c)
  note kp = less.prems
  have part: "strip (orElse k (transformRec f k d)) = strip k" if "size k < size c" for k d
    using less.IH [OF that kp] .
  consider "isApp c" | "\<not> isApp c" "isBind c" | "\<not> isApp c" "\<not> isBind c" by blast
  then show ?case
  proof cases
    case 1
    let ?h = "snd (spineApps c)" and ?sp = "fst (spineApps c)"
    have h: "size ?h < size c" using spine_sizes(1) [OF 1] .
    have hk: "strip (orElse k (transformRec f k 0)) = strip k" if "k \<in> set (kids ?h)" for k
      using part [of k 0] kids_size [OF that] h by simp
    have hd: "strip (orElse ?h (transformHead f ?h)) = strip ?h"
    proof (cases ?h)
      case (TyApp e t)
      then have "transformHead f ?h = shared f (\<lambda>k. transformRec f k 0) ?h"
        by (simp add: rec_spineOrRec shared_def del: transformLeftSpineOrRec.simps split: option.splits)
      then show ?thesis using shared_strip [OF kp hk] by simp
    next
      case (TyLam x k b)
      then have "transformHead f ?h = shared f (\<lambda>k. transformRec f k 0) ?h"
        by (simp add: rec_spineOrRec shared_def del: transformLeftSpineOrRec.simps split: option.splits)
      then show ?thesis using shared_strip [OF kp hk] by simp
    qed (use part [OF h, of 0] in simp_all)
    have args: "strip (orElse a (transformRec f a 0)) = strip a" if "(g, a) \<in> set ?sp" for g a
      using part spine_sizes(2) [OF that] by simp
    have eq: "map2 (\<lambda>(g, a) r. orElse a r) ?sp (map (\<lambda>(g, a). transformRec f a 0) ?sp) = map (\<lambda>(g, a). orElse a (transformRec f a 0)) ?sp"
      by (simp add: zip_map_same comp_def case_prod_unfold)
    have "strip (orElse c (transformLeftSpine f c)) = strip c"
      using 1 offerSpine_strip [OF kp, of c] spine_strip [OF kp args hd]
      by (auto simp: transformLeftSpine.simps [of f c] Let_def rebuildSpine_mut eq)
    then show ?thesis using 1 by (cases c) (simp_all add: rec_node)
  next
    case 2
    let ?ch = "fst (bindChain c)" and ?t = "snd (bindChain c)"
    have tl: "strip (orElse ?t (transformRec f ?t 0)) = strip ?t" using part spine_sizes(3) [OF 2(2)] by simp
    have args: "strip (orElse e (transformRec f e 0)) = strip e" if "(e, x, b, disc, gen) \<in> set ?ch" for e x b disc gen
      using part spine_sizes(4) [OF that] by simp
    have eq: "map2 (\<lambda>(e, x, b, disc, g) r. (orElse e r, x, b, disc, g)) ?ch (map (\<lambda>(e, x, b, disc, g). transformRec f e 0) ?ch) =
        map (\<lambda>(e, x, b, disc, g). (orElse e (transformRec f e 0), x, b, disc, g)) ?ch"
      by (simp add: zip_map_same comp_def case_prod_unfold)
    have "strip (orElse c (transformBindChain f c)) = strip c"
      using 2 offerChain_strip [OF kp, of c] chain_strip [OF kp args tl]
      by (auto simp: transformBindChain.simps [of f c] Let_def rebuildChain_mut eq)
    then show ?thesis using 2 by (cases c) (simp_all add: rec_node)
  next
    case 3
    show ?thesis
    proof (cases "d \<le> maxTraversalDepth")
      case True
      show ?thesis
      proof (cases "flagged c")
        case False
        show ?thesis using transform_shared [OF 3 False True] shared_strip [OF kp, of c] part kids_size [of _ c] by simp
      next
        case True
        then obtain n m args where c: "c = Con n m args True" by (cases c) auto
        have "strip (orElse k (transformRec f k (Suc d))) = strip k" if "k \<in> set args" for k
          using part [of k] size_mem_list [OF that] by (simp add: c)
        then show ?thesis using con_strip [OF kp, of args "\<lambda>k. transformRec f k (Suc d)" n m True] \<open>d \<le> maxTraversalDepth\<close> by (simp add: c rec_node)
      qed
    next
      case False
      then show ?thesis using 3 by (cases c) (simp_all add: rec_node)
    qed
  qed
qed

lemma keepsStrip_clone: "keepsStrip cloneNode"
  by (auto simp: keepsStrip_def applied_cloneNode split: core.splits)

text \<open>A clone strips to the same term, however deep the term is.\<close>

theorem strip_Clone [simp]: "strip (Clone c) = strip c"
  using rec_strip [OF keepsStrip_clone, of c 0] by (simp add: Clone_def Transform_def)

end
