(* ===== verification/Opt_Names.thy ===== *)
theory Opt_Names
  imports Opt_Strip
begin

text \<open>
  Names of terms for the laws of substitution: the free local names, all names (those of qualified references too), the names bound by abstractions and fixpoints, generated names, and the substitution
  \<open>plainSub\<close> that renames nothing, which is what \<^verbatim>\<open>substMany\<close> computes when no binder is in the way.
\<close>

section \<open>Names of a term\<close>

fun ownName :: "'a core \<Rightarrow> string set" where
  "ownName (Var x m i) = (if m = [] then {x} else {})"
| "ownName c = {}"

fun anyName :: "'a core \<Rightarrow> string set" where
  "anyName (Var x m i) = {x}"
| "anyName c = {}"

fun ownBinder :: "'a core \<Rightarrow> string set" where
  "ownBinder (Lam s x t b g) = {x}"
| "ownBinder (Fix x b) = {x}"
| "ownBinder c = {}"

fun ownPats :: "'a core \<Rightarrow> pat list" where
  "ownPats (Case e alts) = map fst alts"
| "ownPats c = []"

function localFree :: "tm \<Rightarrow> string set" where
  "localFree c = ownName c \<union> (\<Union>s \<in> set (scoped c). localFree (snd s) - set (fst s))"
  by auto
termination by (relation "measure size") (use kids_size in fastforce)+

function allNames :: "tm \<Rightarrow> string set" where
  "allNames c = anyName c \<union> (\<Union>s \<in> set (scoped c). set (fst s) \<union> allNames (snd s))"
  by auto
termination by (relation "measure size") (use kids_size in fastforce)+

function lamBinders :: "tm \<Rightarrow> string set" where
  "lamBinders c = ownBinder c \<union> (\<Union>k \<in> set (kids c). lamBinders k)"
  by auto
termination by (relation "measure size") (use kids_size in fastforce)+

definition linearPat :: "pat \<Rightarrow> bool" where "linearPat p \<longleftrightarrow> distinct (Bindings p) \<and> noPayloadPat p"

function linear :: "tm \<Rightarrow> bool" where
  "linear c \<longleftrightarrow> list_all linearPat (ownPats c) \<and> (\<forall>k \<in> set (kids c). linear k)"
  by auto
termination by (relation "measure size") (use kids_size in fastforce)+

declare localFree.simps [simp del] allNames.simps [simp del] lamBinders.simps [simp del] linear.simps [simp del]

lemma own_strip [simp]: "ownName (strip c) = ownName c" "anyName (strip c) = anyName c" "ownBinder (strip c) = ownBinder c" "ownPats (strip c) = ownPats c"
  by (cases c; simp add: comp_def case_prod_unfold)+

lemma names_strip [simp]:
  "localFree (strip c) = localFree c" "allNames (strip c) = allNames c" "lamBinders (strip c) = lamBinders c" "linear (strip c) = linear c"
proof (induction c rule: core_induct)
  case (node c)
  {
    case 1
    show ?case using node(1) by (subst (1 2) localFree.simps) (force simp: scoped_strip)
  next
    case 2
    show ?case using node(2) by (subst (1 2) allNames.simps) (force simp: scoped_strip)
  next
    case 3
    show ?case using node(3) by (subst (1 2) lamBinders.simps) (force simp: scoped_strip)
  next
    case 4
    show ?case using node(4) by (subst (1 2) linear.simps) (force simp: scoped_strip)
  }
qed

lemma names_Clone [simp]:
  "localFree (Clone c) = localFree c" "allNames (Clone c) = allNames c" "lamBinders (Clone c) = lamBinders c" "linear (Clone c) = linear c"
  by (metis names_strip strip_Clone)+

lemma names_localVar [simp]:
  "localFree (localVar z) = {z}" "allNames (localVar z) = {z}" "lamBinders (localVar z) = {}" "linear (localVar z)"
  by (simp_all add: localVar_def localFree.simps [of "Var _ _ _"] allNames.simps [of "Var _ _ _"] lamBinders.simps [of "Var _ _ _"] linear.simps [of "Var _ _ _"])

lemma localFree_allNames: "localFree c \<subseteq> allNames c"
proof (induction c rule: core_induct)
  case (node c)
  moreover have "ownName c \<subseteq> anyName c" by (cases c) auto
  ultimately show ?case by (subst localFree.simps, subst allNames.simps) force
qed

lemma allNames_kid: "(ns, k) \<in> set (scoped c) \<Longrightarrow> set ns \<union> allNames k \<subseteq> allNames c"
  by (subst (2) allNames.simps) force

lemma localFree_kid: "(ns, k) \<in> set (scoped c) \<Longrightarrow> localFree k - set ns \<subseteq> localFree c"
  by (subst (2) localFree.simps) force

lemma lamBinders_kid: "k \<in> set (kids c) \<Longrightarrow> lamBinders k \<subseteq> lamBinders c"
  by (subst (2) lamBinders.simps) force

lemma linear_kid: "linear c \<Longrightarrow> k \<in> set (kids c) \<Longrightarrow> linear k"
  by (subst (asm) linear.simps) force

text \<open>The free names are those that the free-variable analysis of the code knows; it has no key for the empty name.\<close>

lemma localFree_freeKeys: "x \<noteq> [] \<Longrightarrow> x \<in> localFree c \<longleftrightarrow> LocalKey x \<in> freeKeys c"
proof (induction c rule: core_induct)
  case (node c)
  have "freeKeys c = (case c of Var n m i \<Rightarrow> {(m, n)} - {emptyKey} | _ \<Rightarrow> {}) \<union> (\<Union>s \<in> set (scoped c). freeKeys (snd s) - LocalKey ` set (fst s))"
    by (subst freeBy.simps, cases c) (simp_all add: scopedBy_def case_prod_unfold)
  moreover have "LocalKey x \<in> LocalKey ` S \<longleftrightarrow> x \<in> S" for S by (auto simp: LocalKey_def)
  moreover have "x \<in> ownName c \<longleftrightarrow> LocalKey x \<in> (case c of Var n m i \<Rightarrow> {(m, n)} - {emptyKey} | _ \<Rightarrow> {})"
    using \<open>x \<noteq> []\<close> by (cases c) (auto simp: LocalKey_def)
  ultimately show ?case using node by (subst localFree.simps) fastforce
qed

lemma FreeVars_names:
  assumes "FreeVars c = (ks, False)" "[] \<notin> localFree c"
  shows "localFree c \<subseteq> set (fvNames ks)"
proof
  fix x assume x: "x \<in> localFree c"
  then have "LocalKey x \<in> freeKeys c" using localFree_freeKeys assms(2) by metis
  then have "LocalKey x \<in> set ks"
    using FreeVars_keys [OF assms(1)] freeBy_mono [of patDeleted Bindings c] patDeleted_Bindings by auto
  then show "x \<in> set (fvNames ks)" by (force simp: fvNames_def LocalKey_def)
qed

section \<open>Generated names\<close>

text \<open>A name is old when the counter has passed every number it could have been generated with.\<close>

definition old :: "nat \<Rightarrow> string \<Rightarrow> bool" where "old n x \<longleftrightarrow> (\<forall>b k. x = b @ ''$r'' @ itoa k \<longrightarrow> k \<le> n)"

lemma old_mono: "old n x \<Longrightarrow> n \<le> n' \<Longrightarrow> old n' x"
  by (force simp: old_def)

lemma digits_split:
  assumes "b @ CHR ''r'' # ds = b' @ CHR ''r'' # ds'" "list_all isDigit ds" "list_all isDigit ds'"
  shows "b = b' \<and> ds = ds'"
proof -
  have r: "\<not> isDigit CHR ''r''" by (simp add: isDigit_def)
  have "rev ds @ CHR ''r'' # rev b = rev ds' @ CHR ''r'' # rev b'" using arg_cong [OF assms(1), of rev] by simp
  moreover have "list_all isDigit (rev ds)" "list_all isDigit (rev ds')" using assms by (simp_all add: list_all_iff)
  moreover have "xs @ CHR ''r'' # u = ys @ CHR ''r'' # v \<Longrightarrow> list_all isDigit xs \<Longrightarrow> list_all isDigit ys \<Longrightarrow> xs = ys \<and> u = v" for xs ys u v
  proof (induction xs arbitrary: ys)
    case Nil
    then show ?case using r by (cases ys) auto
  next
    case (Cons x xs)
    then show ?case using r by (cases ys) auto
  qed
  ultimately show ?thesis by (metis rev_rev_ident)
qed

lemma itoa_eq: "itoa m = itoa n \<Longrightarrow> m = n"
proof (induction m arbitrary: n rule: itoa.induct)
  case (1 m)
  have c: "(char_of (48 + a) :: char) = char_of (48 + b) \<Longrightarrow> a < 10 \<Longrightarrow> b < 10 \<Longrightarrow> a = b" for a b :: nat
    using arg_cong [of "char_of (48 + a) :: char" "char_of (48 + b)" "of_char :: char \<Rightarrow> nat"] by simp
  have ne: "itoa k \<noteq> []" for k using itoa_digits by blast
  consider "m < 10" "n < 10" | "m < 10" "\<not> n < 10" | "\<not> m < 10" "n < 10" | "\<not> m < 10" "\<not> n < 10" by blast
  then show ?case
  proof cases
    case 1
    then show ?thesis using "1.prems" c by (simp add: itoa.simps)
  next
    case 2
    then show ?thesis using "1.prems" ne [of "n div 10"] by (simp add: itoa.simps [of m] itoa.simps [of n])
  next
    case 3
    then show ?thesis using "1.prems" ne [of "m div 10"] by (simp add: itoa.simps [of m] itoa.simps [of n])
  next
    case 4
    then have "itoa (m div 10) = itoa (n div 10)" "(char_of (48 + m mod 10) :: char) = char_of (48 + n mod 10)"
      using "1.prems" by (simp_all add: itoa.simps [of m] itoa.simps [of n])
    then have "m div 10 = n div 10" "m mod 10 = n mod 10" using "1.IH" 4 c [of "m mod 10" "n mod 10"] by simp_all
    then show ?thesis by (metis div_mult_mod_eq)
  qed
qed

lemma fresh_inj: "b @ ''$r'' @ itoa k = b' @ ''$r'' @ itoa k' \<Longrightarrow> b = b' \<and> k = k'"
  using digits_split [of "b @ ''$''" "itoa k" "b' @ ''$''" "itoa k'"] itoa_digits itoa_eq by auto

lemma fresh_new: "n < k \<Longrightarrow> \<not> old n (b @ ''$r'' @ itoa k)"
  unfolding old_def by (metis leD)

lemma fresh_old: "old n (b @ ''$r'' @ itoa k) \<longleftrightarrow> k \<le> n"
proof
  assume "k \<le> n"
  then show "old n (b @ ''$r'' @ itoa k)" unfolding old_def using fresh_inj by blast
qed (simp add: old_def)

section \<open>Substitution without renaming\<close>

definition drops :: "string list \<Rightarrow> tsubst \<Rightarrow> tsubst" where "drops ns subs = filter (\<lambda>(k, v). k \<notin> set ns) subs"

lemma drops_simps [simp]: "drops [] subs = subs" "drops ns [] = []"
  by (simp_all add: drops_def)

lemma drops_lookup: "map_of (drops ns subs) x = (if x \<in> set ns then None else map_of subs x)"
  by (induction subs) (auto simp: drops_def)

lemma drops_set: "set (drops ns subs) \<subseteq> set subs"
  by (auto simp: drops_def)

lemma drops_absent: "\<not> hasKey subs x \<Longrightarrow> drops [x] subs = subs"
  by (induction subs) (auto simp: drops_def hasKey_def split: if_splits)

lemma drops_drops: "drops ms (drops ns subs) = drops (ns @ ms) subs"
  by (auto simp: drops_def intro: filter_cong)

lemma withoutKey_drops: "hasKey subs x \<Longrightarrow> withoutKey subs x = drops [x] subs"
  by (cases subs) (auto simp: withoutKey_def hasKey_def drops_def split: if_splits)

lemma activeSubs_drops: "activeSubs bs subs = drops bs subs"
proof (induction bs subs rule: activeSubs.induct)
  case (2 b bs subs)
  then show ?case using drops_drops [of bs "[b]" subs] by (auto simp: withoutKey_drops drops_absent)
qed simp

fun mapScoped :: "(string list \<Rightarrow> tm \<Rightarrow> tm) \<Rightarrow> tm \<Rightarrow> tm" where
  "mapScoped h (Var n m i) = Var n m i"
| "mapScoped h (Lam s x t b g) = Lam s x t (h [x] b) g"
| "mapScoped h (App f a) = App (h [] f) (h [] a)"
| "mapScoped h (TyApp e t) = TyApp (h [] e) t"
| "mapScoped h (TyLam x k b) = TyLam x k (h [] b)"
| "mapScoped h (Con n m args dict) = Con n m (map (h []) args) False"
| "mapScoped h (Case e alts) = Case (h [] e) (map (\<lambda>(p, b, g). (p, h (Bindings p) b, g)) alts)"
| "mapScoped h (Fix x b) = Fix x (h [x] b)"
| "mapScoped h (Pure e) = Pure (h [] e)"
| "mapScoped h (Bind e x b disc g) = Bind (h [] e) x (h [x] b) disc g"
| "mapScoped h (Thunk s e) = Thunk s (h [] e)"
| "mapScoped h (Force e) = Force (h [] e)"
| "mapScoped h (Merge s1 s2 l r ls rs) = Merge s1 s2 (h [] l) (h [] r) ls rs"
| "mapScoped h (PrimOp n k eff args) = PrimOp n k eff (map (h []) args)"
| "mapScoped h (Lit v) = Lit v"
| "mapScoped h (RecordLit fs) = RecordLit (map (\<lambda>(l, e). (l, h [] e)) fs)"
| "mapScoped h (RecordProj e l) = RecordProj (h [] e) l"
| "mapScoped h (RecordUpdate e fs) = RecordUpdate (h [] e) (map (\<lambda>(l, e). (l, h [] e)) fs)"
| "mapScoped h (VariantLit t e) = VariantLit t (h [] e)"
| "mapScoped h CoreError = CoreError"

lemma mapScoped_cong [fundef_cong]:
  "c = c' \<Longrightarrow> (\<And>ns k. (ns, k) \<in> set (scoped c') \<Longrightarrow> h ns k = h' ns k) \<Longrightarrow> mapScoped h c = mapScoped h' c'"
  by (cases c') (auto simp: image_iff Bex_def)

lemma scoped_mapScoped: "scoped (mapScoped h c) = map (\<lambda>(ns, k). (ns, h ns k)) (scoped c)"
  by (cases c) (auto simp: comp_def case_prod_unfold)

function plainSub :: "tsubst \<Rightarrow> tm \<Rightarrow> tm" where
  "plainSub subs c =
     (if subs = [] then c
      else case c of
        Var x m i \<Rightarrow> (if m = [] then case map_of subs x of Some r \<Rightarrow> Clone r | None \<Rightarrow> c else c)
      | _ \<Rightarrow> mapScoped (\<lambda>ns k. plainSub (drops ns subs) k) c)"
  by auto
termination by (relation "measure (\<lambda>(subs, c). size c)") (use scoped_size in fastforce)+

declare plainSub.simps [simp del]

lemma plainSub_Nil [simp]: "plainSub [] c = c"
  by (simp add: plainSub.simps)

lemma plainSub_node:
  assumes "subs \<noteq> []"
  shows "plainSub subs (Lam s x pty b g) = Lam s x pty (plainSub (drops [x] subs) b) g"
    "plainSub subs (App f a) = App (plainSub subs f) (plainSub subs a)"
    "plainSub subs (TyApp e t) = TyApp (plainSub subs e) t"
    "plainSub subs (TyLam y k b) = TyLam y k (plainSub subs b)"
    "plainSub subs (Con n m args d) = Con n m (map (plainSub subs) args) False"
    "plainSub subs (Case e alts) = Case (plainSub subs e) (map (\<lambda>(p, b, g). (p, plainSub (drops (Bindings p) subs) b, g)) alts)"
    "plainSub subs (Fix x b) = Fix x (plainSub (drops [x] subs) b)"
    "plainSub subs (Pure e) = Pure (plainSub subs e)"
    "plainSub subs (Bind e x b disc g) = Bind (plainSub subs e) x (plainSub (drops [x] subs) b) disc g"
    "plainSub subs (Thunk s e) = Thunk s (plainSub subs e)"
    "plainSub subs (Force e) = Force (plainSub subs e)"
    "plainSub subs (Merge s1 s2 l r ll rl) = Merge s1 s2 (plainSub subs l) (plainSub subs r) ll rl"
    "plainSub subs (PrimOp q ar eff args) = PrimOp q ar eff (map (plainSub subs) args)"
    "plainSub subs (Lit v) = Lit v"
    "plainSub subs (RecordLit fs) = RecordLit (map (\<lambda>(l, e). (l, plainSub subs e)) fs)"
    "plainSub subs (RecordProj e lbl) = RecordProj (plainSub subs e) lbl"
    "plainSub subs (RecordUpdate e fs) = RecordUpdate (plainSub subs e) (map (\<lambda>(l, e). (l, plainSub subs e)) fs)"
    "plainSub subs (VariantLit tag e) = VariantLit tag (plainSub subs e)"
    "plainSub subs CoreError = CoreError"
  by (subst plainSub.simps, simp add: assms)+

lemma plainSub_scoped:
  "subs \<noteq> [] \<Longrightarrow> (\<And>x m i. c = Var x m i \<Longrightarrow> False) \<Longrightarrow> plainSub subs c = mapScoped (\<lambda>ns k. plainSub (drops ns subs) k) c"
  by (subst plainSub.simps) (cases c; simp)

lemma plainSub_Var: "plainSub subs (Var x m i) = (if m = [] then case map_of subs x of Some r \<Rightarrow> Clone r | None \<Rightarrow> Var x m i else Var x m i)"
  by (subst plainSub.simps) auto

end
