(* ===== verification/Opt_Meaning.thy ===== *)
theory Opt_Meaning
  imports Opt_Names
begin

text \<open>
  The substitution theorem. A model of Core gives every term a meaning in an environment of its local names, compositionally: the meaning of a node depends on its former,
  its labels and the meanings of its children as functions of what their binders stand for, not on the names of the binders. In every model the meaning of
  \<^verbatim>\<open>substMany\<close>'s result is the meaning of the term where the substituted names stand for the replacements.
\<close>

section \<open>The shape of a node\<close>

fun shapePat :: "pat \<Rightarrow> pat" where
  "shapePat (PVar x g) = PVar [] g"
| "shapePat PWild = PWild"
| "shapePat (PCon c m args) = PCon c m (map shapePat args)"
| "shapePat (PRecord fs) = PRecord (map (\<lambda>(l, p). (l, shapePat p)) fs)"
| "shapePat (PLit v) = PLit v"
| "shapePat (PLabel l x) = PLabel l (if HasPayload x then ''x'' else [])"

text \<open>The node without its children and without the names it binds.\<close>

fun nodeShape :: "tm \<Rightarrow> tm" where
  "nodeShape (Var x m i) = Var x m 0"
| "nodeShape (Lam s x t b g) = Lam s [] t CoreError g"
| "nodeShape (App f a) = App CoreError CoreError"
| "nodeShape (TyApp e t) = TyApp CoreError t"
| "nodeShape (TyLam y k b) = TyLam y k CoreError"
| "nodeShape (Con n m args d) = Con n m (map (\<lambda>_. CoreError) args) False"
| "nodeShape (Case e alts) = Case CoreError (map (\<lambda>(p, b, g). (shapePat p, CoreError, g)) alts)"
| "nodeShape (Fix x b) = Fix [] CoreError"
| "nodeShape (Pure e) = Pure CoreError"
| "nodeShape (Bind e x b disc g) = Bind CoreError [] CoreError disc g"
| "nodeShape (Thunk s e) = Thunk s CoreError"
| "nodeShape (Force e) = Force CoreError"
| "nodeShape (Merge s1 s2 l r ls rs) = Merge s1 s2 CoreError CoreError ls rs"
| "nodeShape (PrimOp p k eff args) = PrimOp p k eff (map (\<lambda>_. CoreError) args)"
| "nodeShape (Lit v) = Lit v"
| "nodeShape (RecordLit fs) = RecordLit (map (\<lambda>(l, e). (l, CoreError)) fs)"
| "nodeShape (RecordProj e l) = RecordProj CoreError l"
| "nodeShape (RecordUpdate e fs) = RecordUpdate CoreError (map (\<lambda>(l, e). (l, CoreError)) fs)"
| "nodeShape (VariantLit t e) = VariantLit t CoreError"
| "nodeShape CoreError = CoreError"

lemma shapePat_Bindings: "shapePat p = shapePat q \<Longrightarrow> length (Bindings p) = length (Bindings q)"
proof (induction p arbitrary: q rule: Bindings.induct)
  case (3 c m args)
  obtain args' where q: "q = PCon c m args'" "map shapePat args = map shapePat args'" using 3(2) by (cases q) auto
  have "map (\<lambda>p. length (Bindings p)) args = map (\<lambda>p. length (Bindings p)) args'"
    using q(2) 3(1) by (auto simp: list_eq_iff_nth_eq)
  then show ?case by (simp add: q length_concat comp_def)
next
  case (4 fs)
  obtain fs' where q: "q = PRecord fs'" "map (\<lambda>(l, p). (l, shapePat p)) fs = map (\<lambda>(l, p). (l, shapePat p)) fs'" using 4(2) by (cases q) auto
  have "map (\<lambda>(l, p). length (Bindings p)) fs = map (\<lambda>(l, p). length (Bindings p)) fs'"
  proof (rule nth_equalityI)
    show len: "length (map (\<lambda>(l, p). length (Bindings p)) fs) = length (map (\<lambda>(l, p). length (Bindings p)) fs')"
      using map_eq_imp_length_eq [OF q(2)] by simp
    fix i assume i: "i < length (map (\<lambda>(l, p). length (Bindings p)) fs)"
    then have i': "i < length fs" "i < length fs'" using len by simp_all
    have "shapePat (snd (fs ! i)) = shapePat (snd (fs' ! i))"
      using arg_cong [OF q(2), of "\<lambda>xs. xs ! i"] i' by (simp add: case_prod_unfold)
    then show "map (\<lambda>(l, p). length (Bindings p)) fs ! i = map (\<lambda>(l, p). length (Bindings p)) fs' ! i"
      using 4(1) [of "fs ! i" "fst (fs ! i)" "snd (fs ! i)" "snd (fs' ! i)"] i' by (simp add: case_prod_unfold)
  qed
  then show ?case by (simp add: q length_concat comp_def case_prod_unfold)
next
  case (1 x g)
  then show ?case by (cases q) auto
next
  case 2
  then show ?case by (cases q) auto
next
  case (5 v)
  then show ?case by (cases q) auto
next
  case (6 l x)
  then show ?case by (cases q) (auto simp: HasPayload_def split: if_splits)
qed

lemma nodeShape_mapScoped [simp]: "nodeShape (mapScoped h c) = nodeShape c"
  by (cases c) auto

lemma nodeShape_strip [simp]: "nodeShape (strip c) = nodeShape c"
  by (cases c) auto

lemma nodeShape_ownName: "nodeShape c = nodeShape c' \<Longrightarrow> ownName c = ownName c'"
  by (cases c; cases c'; simp)

section \<open>Renaming the binders of a pattern\<close>

lemma renamePatternVar_Bindings: "noPayloadPat p \<Longrightarrow> Bindings (renamePatternVar p b z) = map (\<lambda>x. if x = b then z else x) (Bindings p)"
proof (induction p b z rule: renamePatternVar.induct)
  case (2 c m args b z)
  then have "map (\<lambda>p. Bindings (renamePatternVar p b z)) args = map (\<lambda>p. map (\<lambda>x. if x = b then z else x) (Bindings p)) args"
    by (auto simp: list_all_iff)
  from arg_cong [OF this, of concat] show ?case by (simp add: comp_def map_concat)
next
  case (3 fs b z)
  then have "map (\<lambda>(l, p). Bindings (renamePatternVar p b z)) fs = map (\<lambda>(l, p). map (\<lambda>x. if x = b then z else x) (Bindings p)) fs"
    by (auto simp: list_all_iff)
  from arg_cong [OF this, of concat] show ?case by (simp add: comp_def map_concat case_prod_unfold)
qed (auto simp: HasPayload_def)

lemma renamePatternVar_shape: "shapePat (renamePatternVar p b z) = shapePat p" "noPayloadPat (renamePatternVar p b z) = noPayloadPat p"
  by (induction p b z rule: renamePatternVar.induct) (auto simp: list_all_iff)

lemma update_absent: "k \<notin> fst ` set al \<Longrightarrow> AList.update k v al = al @ [(k, v)]"
  by (induction al) auto

lemma renameBinders_spec:
  assumes "renameBinders F bs rn0 p n = (rn, p', n')" "distinct bs" "\<forall>y \<in> set bs. old n y" "noPayloadPat p" "fst ` set rn0 \<inter> set bs = {}"
  shows "\<exists>\<sigma>. Bindings p' = map \<sigma> (Bindings p) \<and> rn = rn0 @ map (\<lambda>y. (y, localVar (\<sigma> y))) (filter (\<lambda>y. y \<in> set F) bs) \<and>
    (\<forall>y. y \<notin> set bs \<inter> set F \<longrightarrow> \<sigma> y = y) \<and> (\<forall>y \<in> set bs \<inter> set F. \<exists>k. n < k \<and> k \<le> n' \<and> \<sigma> y = y @ ''$r'' @ itoa k) \<and>
    n \<le> n' \<and> shapePat p' = shapePat p \<and> noPayloadPat p'"
  using assms
proof (induction F bs rn0 p n arbitrary: rn p' n' rule: renameBinders.induct)
  case (1 F rn0 p n)
  then show ?case by (intro exI [of _ id]) simp
next
  case (2 F b bs rn0 p n)
  show ?case
  proof (cases "b \<in> set F")
    case False
    then have run: "renameBinders F bs rn0 p n = (rn, p', n')" using 2(3) by simp
    have "\<exists>\<sigma>. Bindings p' = map \<sigma> (Bindings p) \<and> rn = rn0 @ map (\<lambda>y. (y, localVar (\<sigma> y))) (filter (\<lambda>y. y \<in> set F) bs) \<and>
      (\<forall>y. y \<notin> set bs \<inter> set F \<longrightarrow> \<sigma> y = y) \<and> (\<forall>y \<in> set bs \<inter> set F. \<exists>k. n < k \<and> k \<le> n' \<and> \<sigma> y = y @ ''$r'' @ itoa k) \<and>
      n \<le> n' \<and> shapePat p' = shapePat p \<and> noPayloadPat p'"
      by (rule 2(2) [OF False run]) (use 2(4-7) in auto)
    then show ?thesis using False by auto
  next
    case True
    define z where "z = b @ ''$r'' @ itoa (Suc n)"
    have run: "renameBinders F bs (AList.update b (localVar z) rn0) (renamePatternVar p b z) (Suc n) = (rn, p', n')"
      using 2(3) True by (simp add: freshName_def z_def Let_def)
    have up: "AList.update b (localVar z) rn0 = rn0 @ [(b, localVar z)]" using 2(7) by (intro update_absent) auto
    have "\<exists>\<sigma>. Bindings p' = map \<sigma> (Bindings (renamePatternVar p b z)) \<and>
      rn = AList.update b (localVar z) rn0 @ map (\<lambda>y. (y, localVar (\<sigma> y))) (filter (\<lambda>y. y \<in> set F) bs) \<and>
      (\<forall>y. y \<notin> set bs \<inter> set F \<longrightarrow> \<sigma> y = y) \<and> (\<forall>y \<in> set bs \<inter> set F. \<exists>k. Suc n < k \<and> k \<le> n' \<and> \<sigma> y = y @ ''$r'' @ itoa k) \<and>
      Suc n \<le> n' \<and> shapePat p' = shapePat (renamePatternVar p b z) \<and> noPayloadPat p'"
      proof (rule 2(1) [OF True _ run])
      show "(z, Suc n) = freshName b n" by (simp add: freshName_def z_def Let_def)
      show "distinct bs" "noPayloadPat (renamePatternVar p b z)" using 2(4,6) by (simp_all add: renamePatternVar_shape)
      show "\<forall>a \<in> set bs. old (Suc n) a" using 2(5) old_mono [of n _ "Suc n"] by simp
      show "fst ` set (AList.update b (localVar z) rn0) \<inter> set bs = {}" using 2(4,7) by (auto simp: up)
    qed
    then obtain \<sigma> where s: "Bindings p' = map \<sigma> (Bindings (renamePatternVar p b z))"
      "rn = AList.update b (localVar z) rn0 @ map (\<lambda>y. (y, localVar (\<sigma> y))) (filter (\<lambda>y. y \<in> set F) bs)"
      "\<forall>y. y \<notin> set bs \<inter> set F \<longrightarrow> \<sigma> y = y" "\<forall>y \<in> set bs \<inter> set F. \<exists>k. Suc n < k \<and> k \<le> n' \<and> \<sigma> y = y @ ''$r'' @ itoa k"
      "Suc n \<le> n'" "shapePat p' = shapePat (renamePatternVar p b z)" "noPayloadPat p'"
      by blast
    have "\<not> old n z" using fresh_new [of n "Suc n" b] by (simp add: z_def)
    then have z: "z \<notin> set bs" using 2(5) by auto
    define \<tau> where "\<tau> = (\<lambda>x. if x = b then z else \<sigma> x)"
    have b: "b \<notin> set bs" using 2(4) by simp
    have "Bindings p' = map \<tau> (Bindings p)" using s(1,3) z by (auto simp: renamePatternVar_Bindings [OF 2(6)] \<tau>_def)
    moreover have "rn = rn0 @ map (\<lambda>y. (y, localVar (\<tau> y))) (filter (\<lambda>y. y \<in> set F) (b # bs))"
      using s(2) up True b by (auto simp: \<tau>_def)
    moreover have "\<forall>y. y \<notin> set (b # bs) \<inter> set F \<longrightarrow> \<tau> y = y" using s(3) True by (auto simp: \<tau>_def)
    moreover have "\<forall>y \<in> set (b # bs) \<inter> set F. \<exists>k. n < k \<and> k \<le> n' \<and> \<tau> y = y @ ''$r'' @ itoa k"
    proof
      fix y assume y: "y \<in> set (b # bs) \<inter> set F"
      show "\<exists>k. n < k \<and> k \<le> n' \<and> \<tau> y = y @ ''$r'' @ itoa k"
      proof (cases "y = b")
        case True
        then show ?thesis using s(5) by (intro exI [of _ "Suc n"]) (simp add: \<tau>_def z_def)
      next
        case False
        then obtain k where "Suc n < k \<and> k \<le> n' \<and> \<sigma> y = y @ ''$r'' @ itoa k" using s(4) y by auto
        then show ?thesis using False by (intro exI [of _ k]) (simp add: \<tau>_def)
      qed
    qed
    moreover have "n \<le> n' \<and> shapePat p' = shapePat p \<and> noPayloadPat p'" using s(5-7) by (simp add: renamePatternVar_shape)
    ultimately show ?thesis by blast
  qed
qed

end
