(* ===== verification/Opt_Run.thy ===== *)
theory Opt_Run
  imports Opt_Meaning
begin

text \<open>
  What one call of \<^verbatim>\<open>substMany\<close> does to the children of a node. Where no binder is in the way it is the plain substitution, so a renaming of a body with a fresh name is plain. In
  general each child is renamed plainly and then substituted into, with the counter going up from child to child.
\<close>

section \<open>Substitution with nothing in the way\<close>

lemma renameBinders_free: "set F \<inter> set bs = {} \<Longrightarrow> renameBinders F bs rn p n = (rn, p, n)"
  by (induction F bs rn p n rule: renameBinders.induct) auto

lemma withoutKey_active: "(if hasKey subs x then withoutKey subs x else subs) = drops [x] subs"
  by (simp add: withoutKey_drops drops_absent)

lemma substMany_plain:
  "set F \<inter> allNames c = {} \<Longrightarrow> subs \<noteq> [] \<Longrightarrow> substMany c subs F n = (plainSub subs c, n)"
proof (induction c arbitrary: subs n rule: measure_induct_rule [where f = size])
  case (less c)
  note F = less.prems(1) and ne = less.prems(2)
  have sub: "substMany k (drops ns subs) F m = (plainSub (drops ns subs) k, m)" if "(ns, k) \<in> set (scoped c)" "drops ns subs \<noteq> []" for ns k m
    using less.IH [OF scoped_size [OF that(1)] _ that(2)] allNames_kid [OF that(1)] F by blast
  have free: "set F \<inter> set ns = {}" if "(ns, k) \<in> set (scoped c)" for ns k
    using allNames_kid [OF that] F by blast
  have fld: "mapCounted (\<lambda>(l, e) n. case substMany e subs F n of (e', n1) \<Rightarrow> ((l, e'), n1)) fs m = (map (\<lambda>(l, e). (l, plainSub subs e)) fs, m)"
    if "\<And>l e. (l, e) \<in> set fs \<Longrightarrow> ([], e) \<in> set (scoped c)" for fs :: "(string \<times> tm) list" and m
  proof (rule mapCounted_pure)
    fix x k assume "x \<in> set fs"
    moreover obtain l e where "x = (l, e)" by (cases x)
    ultimately show "(case x of (l, e) \<Rightarrow> \<lambda>n. case substMany e subs F n of (e', n1) \<Rightarrow> ((l, e'), n1)) k = ((case x of (l, e) \<Rightarrow> (l, plainSub subs e)), k)"
      using sub [of "[]" e] ne that by simp
  qed
  show ?case
  proof (cases c)
    case (Var x m i)
    then show ?thesis by (subst substMany_node) (simp add: substNode_def plainSub_Var IsUnqualified_def split: option.splits)
  next
    case (Lam s x t b g)
    have "enterBinder substMany F x b n = (x, b, n)" using free [of "[x]" b] Lam by (simp add: enterBinder_def)
    then show ?thesis using sub [of "[x]" b] ne Lam drops_absent [of subs x]
      by (subst substMany_node) (auto simp: substNode_def plainSub_node withoutKey_drops Let_def)
  next
    case (Fix x b)
    have "enterBinder substMany F x b n = (x, b, n)" using free [of "[x]" b] Fix by (simp add: enterBinder_def)
    then show ?thesis using sub [of "[x]" b] ne Fix drops_absent [of subs x]
      by (subst substMany_node) (auto simp: substNode_def plainSub_node withoutKey_drops Let_def)
  next
    case (Bind e x b disc g)
    have "enterBinder substMany F x b n = (x, b, n)" using free [of "[x]" b] Bind by (simp add: enterBinder_def)
    then show ?thesis using sub [of "[x]" b] sub [of "[]" e] ne Bind
      by (subst substMany_node) (auto simp: substNode_def plainSub_node withoutKey_active Let_def)
  next
    case (Case e alts)
    have "mapCounted (substAlt substMany subs F) alts n = (map (\<lambda>(p, b, g). (p, plainSub (drops (Bindings p) subs) b, g)) alts, n)"
    proof (rule mapCounted_pure)
      fix x m assume "x \<in> set alts"
      moreover obtain p b g where x: "x = (p, b, g)" by (cases x)
      ultimately have "(Bindings p, b) \<in> set (scoped c)" by (force simp: Case)
      then show "substAlt substMany subs F x m = ((case x of (p, b, g) \<Rightarrow> (p, plainSub (drops (Bindings p) subs) b, g)), m)"
        using sub [of "Bindings p" b] free [of "Bindings p" b] by (auto simp: x substAlt_def Let_def activeSubs_drops renameBinders_free)
    qed
    then show ?thesis using sub [of "[]" e] ne Case by (subst substMany_node) (auto simp: substNode_def plainSub_node)
  next
    case (Con cn m args d)
    have "mapCounted (\<lambda>a. substMany a subs F) args n = (map (plainSub subs) args, n)"
      by (rule mapCounted_pure) (use sub [of "[]"] ne Con in auto)
    then show ?thesis using ne Con by (subst substMany_node) (simp add: substNode_def plainSub_node)
  next
    case (PrimOp p k eff args)
    have "mapCounted (\<lambda>a. substMany a subs F) args n = (map (plainSub subs) args, n)"
      by (rule mapCounted_pure) (use sub [of "[]"] ne PrimOp in auto)
    then show ?thesis using ne PrimOp by (subst substMany_node) (simp add: substNode_def plainSub_node)
  next
    case (RecordLit fs)
    then show ?thesis using ne fld [of fs n] by (subst substMany_node) (force simp: substNode_def plainSub_node)
  next
    case (RecordUpdate e fs)
    have "mapCounted (\<lambda>(l, e) n. case substMany e subs F n of (e', n1) \<Rightarrow> ((l, e'), n1)) fs n = (map (\<lambda>(l, e). (l, plainSub subs e)) fs, n)"
      by (rule fld) (force simp: RecordUpdate)
    then show ?thesis using ne RecordUpdate sub [of "[]" e] by (subst substMany_node) (simp add: substNode_def plainSub_node)
  qed (use ne sub [of "[]"] in \<open>subst substMany_node; simp add: substNode_def plainSub_node\<close>)+
qed

lemma plainSub_size: "renaming subs \<Longrightarrow> size (plainSub subs c) = size c"
  using keepsSizeD [OF keepsSize_substMany _ substMany_plain [of "[]" c subs 0]] by (cases "subs = []") simp_all

section \<open>The children of a node\<close>

definition renamed :: "(string \<Rightarrow> string) \<Rightarrow> string list \<Rightarrow> string list \<Rightarrow> tsubst" where
  "renamed \<sigma> F ns = map (\<lambda>y. (y, localVar (\<sigma> y))) (filter (\<lambda>y. y \<in> set F) ns)"

definition childRun :: "tsubst \<Rightarrow> string list \<Rightarrow> nat \<Rightarrow> nat \<Rightarrow> string list \<times> tm \<Rightarrow> string list \<times> tm \<Rightarrow> bool" where
  "childRun subs F n n' = (\<lambda>(ns, k) (ns', k'). \<exists>m m1 m2 \<sigma>. n \<le> m \<and> m \<le> m1 \<and> m1 \<le> m2 \<and> m2 \<le> n' \<and> ns' = map \<sigma> ns \<and>
     (\<forall>y. y \<notin> set ns \<inter> set F \<longrightarrow> \<sigma> y = y) \<and> (\<forall>y \<in> set ns \<inter> set F. \<exists>j. m < j \<and> j \<le> m1 \<and> \<sigma> y = y @ ''$r'' @ itoa j) \<and>
     (if drops ns subs = [] then (plainSub (renamed \<sigma> F ns) k, m1) else substMany (plainSub (renamed \<sigma> F ns) k) (drops ns subs) F m1) = (k', m2))"

lemma childRunI:
  "n \<le> m \<Longrightarrow> m \<le> m1 \<Longrightarrow> m1 \<le> m2 \<Longrightarrow> m2 \<le> n' \<Longrightarrow> ns' = map \<sigma> ns \<Longrightarrow> \<forall>y. y \<notin> set ns \<inter> set F \<longrightarrow> \<sigma> y = y \<Longrightarrow>
   \<forall>y \<in> set ns \<inter> set F. \<exists>j. m < j \<and> j \<le> m1 \<and> \<sigma> y = y @ ''$r'' @ itoa j \<Longrightarrow>
   (if drops ns subs = [] then (plainSub (renamed \<sigma> F ns) k, m1) else substMany (plainSub (renamed \<sigma> F ns) k) (drops ns subs) F m1) = (k', m2) \<Longrightarrow>
   childRun subs F n n' (ns, k) (ns', k')"
  unfolding childRun_def prod.case by blast

text \<open>The inputs on which substitution is exact; the last clause says that no abstraction shadows one of several substituted names that is also free in a replacement.\<close>

definition ready :: "tm \<Rightarrow> tsubst \<Rightarrow> string list \<Rightarrow> nat \<Rightarrow> bool" where
  "ready c subs F n \<longleftrightarrow> (\<forall>x \<in> allNames c. old n x) \<and> linear c \<and> (\<forall>x \<in> set F. old n x) \<and>
     (\<forall>(k, v) \<in> set subs. old n k \<and> localFree v \<subseteq> set F) \<and> (length subs \<le> 1 \<or> fst ` set subs \<inter> lamBinders c \<inter> set F = {})"

lemma childRun_plain: "substMany k subs F m = (k', m') \<Longrightarrow> subs \<noteq> [] \<Longrightarrow> n \<le> m \<Longrightarrow> m \<le> m' \<Longrightarrow> m' \<le> n' \<Longrightarrow> childRun subs F n n' ([], k) ([], k')"
  by (rule childRunI [of n m m m' n' _ id]) (auto simp: renamed_def)

lemma enterBinder_run:
  assumes "enterBinder substMany F x b m = (x', b', m1)" "\<forall>y \<in> allNames b. old m y"
  shows "\<exists>\<sigma>. [x'] = map \<sigma> [x] \<and> m \<le> m1 \<and> (\<forall>y. y \<notin> set [x] \<inter> set F \<longrightarrow> \<sigma> y = y) \<and> (\<forall>y \<in> set [x] \<inter> set F. \<exists>j. m < j \<and> j \<le> m1 \<and> \<sigma> y = y @ ''$r'' @ itoa j) \<and>
    b' = plainSub (renamed \<sigma> F [x]) b"
proof (cases "x \<in> set F")
  case True
  define z where "z = x @ ''$r'' @ itoa (Suc m)"
  have "z \<notin> allNames b" using assms(2) fresh_new [of m "Suc m" x] by (auto simp: z_def)
  then have "substMany b [(x, localVar z)] [z] (Suc m) = (plainSub [(x, localVar z)] b, Suc m)" by (intro substMany_plain) auto
  then have "x' = z" "b' = plainSub [(x, localVar z)] b" "m1 = Suc m"
    using assms(1) True by (auto simp: enterBinder_def freshName_def Let_def z_def)
  then show ?thesis using True by (intro exI [of _ "\<lambda>y. if y = x then z else y"]) (auto simp: renamed_def z_def intro!: exI [of _ "Suc m"])
next
  case False
  then show ?thesis using assms(1) by (intro exI [of _ id]) (auto simp: enterBinder_def renamed_def)
qed

lemma childRun_binder:
  assumes "enterBinder substMany F x b m = (x', b', m1)" "\<forall>y \<in> allNames b. old m y" "n \<le> m" "m1 \<le> m2" "m2 \<le> n'"
    "(if drops [x] subs = [] then (b', m1) else substMany b' (drops [x] subs) F m1) = (b'', m2)"
  shows "childRun subs F n n' ([x], b) ([x'], b'')"
proof -
  obtain \<sigma> where s: "[x'] = map \<sigma> [x]" "m \<le> m1" "\<forall>y. y \<notin> set [x] \<inter> set F \<longrightarrow> \<sigma> y = y"
    "\<forall>y \<in> set [x] \<inter> set F. \<exists>j. m < j \<and> j \<le> m1 \<and> \<sigma> y = y @ ''$r'' @ itoa j" "b' = plainSub (renamed \<sigma> F [x]) b"
    using enterBinder_run [OF assms(1,2)] by (elim exE conjE) (rule that)
  show ?thesis by (rule childRunI [OF assms(3) s(2) assms(4,5) s(1,3,4)]) (use s(5) assms(6) in \<open>simp split: if_splits\<close>)
qed

lemma substAlt_run:
  assumes "substAlt substMany subs F (p, b, g) m = ((p', b'', g'), m2)" "linearPat p" "\<forall>y \<in> allNames b \<union> set (Bindings p). old m y" "n \<le> m" "m2 \<le> n'"
    "\<And>e s m m' e'. size e = size b \<Longrightarrow> substMany e s F m = (e', m') \<Longrightarrow> m \<le> m'"
  shows "childRun subs F n n' (Bindings p, b) (Bindings p', b'') \<and> shapePat p' = shapePat p \<and> g' = g \<and> linearPat p' \<and> m \<le> m2"
proof -
  obtain rn p1 m1 where rn: "renameBinders F (Bindings p) [] p m = (rn, p1, m1)" by (metis prod_cases3)
  have pat: "distinct (Bindings p)" "noPayloadPat p" using assms(2) by (simp_all add: linearPat_def)
  obtain \<sigma> where s: "Bindings p1 = map \<sigma> (Bindings p)" "rn = renamed \<sigma> F (Bindings p)" "\<forall>y. y \<notin> set (Bindings p) \<inter> set F \<longrightarrow> \<sigma> y = y"
    "\<forall>y \<in> set (Bindings p) \<inter> set F. \<exists>k. m < k \<and> k \<le> m1 \<and> \<sigma> y = y @ ''$r'' @ itoa k" "m \<le> m1" "shapePat p1 = shapePat p" "noPayloadPat p1"
    using renameBinders_spec [OF rn pat(1) _ pat(2)] assms(3) by (auto simp: renamed_def)
  have new: "\<not> old m (\<sigma> y)" if "y \<in> set (Bindings p) \<inter> set F" for y
  proof -
    obtain k where "m < k" "\<sigma> y = y @ ''$r'' @ itoa k" using s(4) \<open>y \<in> _\<close> by blast
    then show ?thesis using fresh_new [of m k y] by simp
  qed
  have step: "(if rn = [] then (b, m1) else substMany b rn (map (\<lambda>(k, v). varName v) rn) m1) = (plainSub rn b, m1)"
  proof (cases "rn = []")
    case False
    have "map (\<lambda>(k, v). varName v) rn = map \<sigma> (filter (\<lambda>y. y \<in> set F) (Bindings p))"
      by (simp add: s(2) renamed_def varName_def localVar_def)
    then have "set (map (\<lambda>(k, v). varName v) rn) \<inter> allNames b = {}" using new assms(3) by auto
    then show ?thesis using False substMany_plain [of _ b rn m1] by simp
  qed simp
  let ?act = "drops (Bindings p) subs"
  have run: "p' = p1" "g' = g" "(if ?act = [] then (plainSub rn b, m1) else substMany (plainSub rn b) ?act F m1) = (b'', m2)"
    using assms(1) by (simp_all add: substAlt_def Let_def activeSubs_drops rn step split: prod.splits if_splits)
  have "size (plainSub rn b) = size b"
    using plainSub_size renaming_renameBinders [OF renaming_one(2), of F "Bindings p" p m] rn by simp
  then have le: "m1 \<le> m2" using run(3) assms(6) by (auto split: if_splits)
  have "inj_on \<sigma> (set (Bindings p))"
  proof (rule inj_onI)
    fix y z assume yz: "y \<in> set (Bindings p)" "z \<in> set (Bindings p)" "\<sigma> y = \<sigma> z"
    have "y \<in> set F \<longleftrightarrow> z \<in> set F" using yz new [of y] new [of z] s(3) assms(3) by (metis IntI IntE UnI2)
    then show "y = z" using yz s(3,4) fresh_inj by (metis IntI IntE)
  qed
  then have "linearPat p1" using pat s(1,7) by (simp add: linearPat_def distinct_map)
  moreover have "childRun subs F n n' (Bindings p, b) (Bindings p', b'')" 
    by (rule childRunI [OF assms(4) s(5) le assms(5) _ s(3,4)]) (use s(1,2) run in \<open>simp_all split: if_splits\<close>)
  ultimately show ?thesis using run s(5,6) le by simp
qed

section \<open>One call\<close>

text \<open>Either the node is returned as it is, because it shadows the only substituted name, or it is rebuilt from its children.\<close>

definition nodeRun :: "tm \<Rightarrow> tsubst \<Rightarrow> string list \<Rightarrow> nat \<Rightarrow> tm \<Rightarrow> nat \<Rightarrow> bool" where
  "nodeRun c subs F n c' n' \<longleftrightarrow>
     (c' = c \<and> n' = n \<and> (\<forall>s \<in> set (scoped c). drops (fst s) subs = [])) \<or>
     (n \<le> n' \<and> nodeShape c' = nodeShape c \<and> list_all linearPat (ownPats c') \<and> list_all2 (childRun subs F n n') (scoped c) (scoped c'))"

lemma nodeRunI:
  "n \<le> n' \<Longrightarrow> nodeShape c' = nodeShape c \<Longrightarrow> list_all linearPat (ownPats c') \<Longrightarrow> list_all2 (childRun subs F n n') (scoped c) (scoped c') \<Longrightarrow> nodeRun c subs F n c' n'"
  by (simp add: nodeRun_def)

lemma mapCounted_children:
  fixes n n' :: nat
  assumes "mapCounted f xs n = (ys, n')" "\<And>x m y m'. x \<in> set xs \<Longrightarrow> f x m = (y, m') \<Longrightarrow> n \<le> m \<Longrightarrow> m \<le> m' \<and> (m' \<le> n' \<longrightarrow> R x y)"
  shows "n \<le> n' \<and> list_all2 R xs ys"
  using assms
proof (induction xs arbitrary: n ys)
  case (Cons x xs)
  obtain y n1 zs where s: "f x n = (y, n1)" "mapCounted f xs n1 = (zs, n')" "ys = y # zs"
    using Cons.prems(1) by (auto split: prod.splits)
  have le: "n \<le> n1" using Cons.prems(2) [of x n y n1] s(1) by simp
  have "n1 \<le> n' \<and> list_all2 R xs zs"
  proof (rule Cons.IH [OF s(2)])
    show "m \<le> m' \<and> (m' \<le> n' \<longrightarrow> R x y)" if "x \<in> set xs" "f x m = (y, m')" "n1 \<le> m" for x m y m'
      using Cons.prems(2) [of x m y m'] that le by simp
  qed
  then show ?case using Cons.prems(2) [of x n y n1] s le by auto
qed simp

lemma substMany_nodeRun:
  assumes "substMany c subs F n = (c', n')" "subs \<noteq> []" "ready c subs F n" "ownName c = {}"
    and mono: "\<And>e s m m' e'. size e < size c \<Longrightarrow> substMany e s F m = (e', m') \<Longrightarrow> m \<le> m'"
  shows "nodeRun c subs F n c' n'"
proof -
  have node: "substNode substMany c subs F n = (c', n')" using assms(1) by (simp add: substMany_node [of c])
  have olds: "\<forall>y \<in> allNames k \<union> set ns. old m y" if "(ns, k) \<in> set (scoped c)" "n \<le> m" for ns k m
    using assms(3) allNames_kid [OF that(1)] old_mono [OF _ that(2)] unfolding ready_def by blast
  have kid: "m \<le> m'" if "([], k) \<in> set (scoped c)" "substMany k s F m = (k', m')" for k s m m' k'
    using mono [OF scoped_size [OF that(1)] that(2)] .
  have run: "childRun subs F n n' ([], k) ([], k')" if "([], k) \<in> set (scoped c)" "substMany k subs F m = (k', m')" "n \<le> m" "m' \<le> n'" for k m m' k'
    using childRun_plain [OF that(2) assms(2) that(3) kid [OF that(1,2)] that(4)] .
  have flds: "m \<le> m' \<and> list_all2 (\<lambda>x y. fst y = fst x \<and> (m' \<le> n' \<longrightarrow> childRun subs F n n' ([], snd x) ([], snd y))) fs fs'"
    if "mapCounted (\<lambda>(l, e) n. case substMany e subs F n of (e', n1) \<Rightarrow> ((l, e'), n1)) fs m = (fs', m')" "\<And>l e. (l, e) \<in> set fs \<Longrightarrow> ([], e) \<in> set (scoped c)" "n \<le> m"
    for fs fs' :: "(string \<times> tm) list" and m m'
  proof (rule mapCounted_children [OF that(1)])
    fix x k y k' assume x: "x \<in> set fs" "(case x of (l, e) \<Rightarrow> \<lambda>n. case substMany e subs F n of (e', n1) \<Rightarrow> ((l, e'), n1)) k = (y, k')" "m \<le> k"
    obtain l e where le: "x = (l, e)" by (cases x)
    then obtain e' where e': "substMany e subs F k = (e', k')" "y = (l, e')" using x(2) by (auto split: prod.splits)
    have c: "([], e) \<in> set (scoped c)" using that(2) x(1) le by simp
    show "k \<le> k' \<and> (k' \<le> m' \<longrightarrow> fst y = fst x \<and> (m' \<le> n' \<longrightarrow> childRun subs F n n' ([], snd x) ([], snd y)))"
      using kid [OF c e'(1)] run [OF c e'(1)] that(3) x(3) by (auto simp: le e'(2))
  qed
  have args: "m \<le> m' \<and> list_all2 (\<lambda>x y. m' \<le> n' \<longrightarrow> childRun subs F n n' ([], x) ([], y)) xs ys"
    if "mapCounted (\<lambda>a. substMany a subs F) xs m = (ys, m')" "\<And>e. e \<in> set xs \<Longrightarrow> ([], e) \<in> set (scoped c)" "n \<le> m" for xs ys m m'
    using run kid that(2,3) by (intro mapCounted_children [OF that(1)]) (meson order_trans)
  have small: "size b' < size c" if "([x], b) \<in> set (scoped c)" "enterBinder substMany F x b m = (x', b', m1)" for x b m x' b' m1
    using enterBinder_size [OF keepsSize_substMany that(2)] scoped_size [OF that(1)] by simp
  have enter: "m \<le> m1" if "([x], b) \<in> set (scoped c)" "enterBinder substMany F x b m = (x', b', m1)" "n \<le> m" for x b m x' b' m1
    using enterBinder_run [OF that(2)] olds [OF that(1,3)] by blast
  have under: "childRun subs F n n' ([x], b) ([x'], b'') \<and> m \<le> m2"
    if "([x], b) \<in> set (scoped c)" "enterBinder substMany F x b m = (x', b', m1)" "n \<le> m" "m2 \<le> n'"
      "(if drops [x] subs = [] then (b', m1) else substMany b' (drops [x] subs) F m1) = (b'', m2)" for x b m x' b' m1 b'' m2
  proof -
    have le: "m1 \<le> m2" using that(5) mono [OF small [OF that(1,2)]] by (auto split: if_splits)
    have "\<forall>y \<in> allNames b. old m y" using olds [OF that(1,3)] by blast
    from childRun_binder [OF that(2) this that(3) le that(4,5)] show ?thesis using le enter [OF that(1-3)] by simp
  qed
  have shadowed: "childRun subs F n n' ([x], b) ([x], b') \<and> n \<le> n'"
    if "([x], b) \<in> set (scoped c)" "x \<in> lamBinders c" "hasKey subs x" "withoutKey subs x \<noteq> []" "substMany b (withoutKey subs x) F n = (b', n')" for x b b'
  proof -
    have le: "n \<le> n'" using mono [OF scoped_size [OF that(1)] that(5)] .
    have "\<not> length subs \<le> 1" using that(4) by (auto simp: withoutKey_def)
    moreover have "x \<in> fst ` set subs" using that(3) by (auto simp: hasKey_def map_of_eq_None_iff)
    ultimately have "x \<notin> set F" using assms(3) that(2) unfolding ready_def by blast
    then show ?thesis using that(4,5) le
      by (auto simp: renamed_def withoutKey_drops [OF that(3)] intro!: childRunI [of n n n n' n' _ id])
  qed
  have two: "n \<le> n' \<and> childRun subs F n n' ([], f) ([], f') \<and> childRun subs F n n' ([], a) ([], a')"
    if "([], f) \<in> set (scoped c)" "([], a) \<in> set (scoped c)" "substMany f subs F n = (f', n1)" "substMany a subs F n1 = (a', n')" for f a f' n1 a'
  proof -
    have "n \<le> n1" "n1 \<le> n'" using kid [OF that(1,3)] kid [OF that(2,4)] by simp_all
    then show ?thesis using run [OF that(1,3)] run [OF that(2,4)] by simp
  qed
  have labels: "map (\<lambda>(l, e). (l, CoreError)) fs' = (map (\<lambda>(l, e). (l, CoreError)) fs :: (string \<times> tm) list) \<and>
      list_all2 (childRun subs F n n') (map (\<lambda>(l, e). ([], e)) fs) (map (\<lambda>(l, e). ([], e)) fs')"
    if "list_all2 (\<lambda>x y. fst y = fst x \<and> childRun subs F n n' ([], snd x) ([], snd y)) fs fs'" for fs fs' :: "(string \<times> tm) list"
    using that by (induction rule: list_all2_induct) auto
  show ?thesis
  proof (cases c)
    case (Var x m i)
    then show ?thesis using node assms(4) by (auto simp: substNode_def nodeRun_def IsUnqualified_def split: if_splits)
  next
    case (Lam s x t b g)
    have sc: "([x], b) \<in> set (scoped c)" "x \<in> lamBinders c" by (simp_all add: Lam lamBinders.simps [of "Lam _ _ _ _ _"])
    show ?thesis
    proof (cases "hasKey subs x")
      case True
      then show ?thesis using node shadowed [OF sc True]
        by (auto simp: Lam substNode_def nodeRun_def Let_def withoutKey_drops split: prod.splits if_splits)
    next
      case False
      obtain x' b' n1 b'' where p: "enterBinder substMany F x b n = (x', b', n1)" "substMany b' subs F n1 = (b'', n')" "c' = Lam s x' t b'' g"
        using node False by (auto simp: Lam substNode_def split: prod.splits)
      have "childRun subs F n n' ([x], b) ([x'], b'') \<and> n \<le> n'"
        by (rule under [OF sc(1) p(1)]) (use p(2) False assms(2) in \<open>simp_all add: drops_absent\<close>)
      then show ?thesis using p(3) by (simp add: Lam nodeRun_def)
    qed
  next
    case (Fix x b)
    have sc: "([x], b) \<in> set (scoped c)" "x \<in> lamBinders c" by (simp_all add: Fix lamBinders.simps [of "Fix _ _"])
    show ?thesis
    proof (cases "hasKey subs x")
      case True
      then show ?thesis using node shadowed [OF sc True]
        by (auto simp: Fix substNode_def nodeRun_def Let_def withoutKey_drops split: prod.splits if_splits)
    next
      case False
      obtain x' b' n1 b'' where p: "enterBinder substMany F x b n = (x', b', n1)" "substMany b' subs F n1 = (b'', n')" "c' = Fix x' b''"
        using node False by (auto simp: Fix substNode_def split: prod.splits)
      have "childRun subs F n n' ([x], b) ([x'], b'') \<and> n \<le> n'"
        by (rule under [OF sc(1) p(1)]) (use p(2) False assms(2) in \<open>simp_all add: drops_absent\<close>)
      then show ?thesis using p(3) by (simp add: Fix nodeRun_def)
    qed
  next
    case (Bind e x b disc g)
    have sc: "([], e) \<in> set (scoped c)" "([x], b) \<in> set (scoped c)" by (simp_all add: Bind)
    obtain e' n1 x' b' n2 b'' where p: "substMany e subs F n = (e', n1)" "enterBinder substMany F x b n1 = (x', b', n2)"
      "(if drops [x] subs = [] then (b', n2) else substMany b' (drops [x] subs) F n2) = (b'', n')" "c' = Bind e' x' b'' disc g"
      using node by (auto simp: Bind substNode_def Let_def withoutKey_active split: prod.splits if_splits)
    have le: "n \<le> n1" using kid [OF sc(1) p(1)] .
    have b: "childRun subs F n n' ([x], b) ([x'], b'') \<and> n1 \<le> n'" using under [OF sc(2) p(2) le _ p(3)] by simp
    then have "childRun subs F n n' ([], e) ([], e')" using run [OF sc(1) p(1)] by simp
    then show ?thesis using b le p(4) by (simp add: Bind nodeRun_def)
  next
    case (App f a)
    obtain f' n1 a' where p: "substMany f subs F n = (f', n1)" "substMany a subs F n1 = (a', n')" "c' = App f' a'"
      using node by (auto simp: App substNode_def split: prod.splits)
    then show ?thesis using two [of f a, OF _ _ p(1,2)] by (intro nodeRunI) (simp_all add: App)
  next
    case (Merge s1 s2 l r ls rs)
    obtain l' n1 r' where p: "substMany l subs F n = (l', n1)" "substMany r subs F n1 = (r', n')" "c' = Merge s1 s2 l' r' ls rs"
      using node by (auto simp: Merge substNode_def split: prod.splits)
    then show ?thesis using two [of l r, OF _ _ p(1,2)] by (intro nodeRunI) (simp_all add: Merge)
  next
    case (Con cn m xs d)
    obtain ys where p: "mapCounted (\<lambda>a. substMany a subs F) xs n = (ys, n')" "c' = Con cn m ys False"
      using node by (auto simp: Con substNode_def split: prod.splits)
    have "n \<le> n' \<and> list_all2 (\<lambda>x y. childRun subs F n n' ([], x) ([], y)) xs ys" using args [OF p(1)] by (simp add: Con)
    then show ?thesis using p(2) by (intro nodeRunI) (auto simp: Con list_all2_map1 list_all2_map2 map_replicate_const dest: list_all2_lengthD)
  next
    case (PrimOp q k eff xs)
    obtain ys where p: "mapCounted (\<lambda>a. substMany a subs F) xs n = (ys, n')" "c' = PrimOp q k eff ys"
      using node by (auto simp: PrimOp substNode_def split: prod.splits)
    have "n \<le> n' \<and> list_all2 (\<lambda>x y. childRun subs F n n' ([], x) ([], y)) xs ys" using args [OF p(1)] by (simp add: PrimOp)
    then show ?thesis using p(2) by (intro nodeRunI) (auto simp: PrimOp list_all2_map1 list_all2_map2 map_replicate_const dest: list_all2_lengthD)
  next
    case (RecordLit fs)
    obtain fs' where p: "mapCounted (\<lambda>(l, e) n. case substMany e subs F n of (e', n1) \<Rightarrow> ((l, e'), n1)) fs n = (fs', n')" "c' = RecordLit fs'"
      using node by (auto simp: RecordLit substNode_def split: prod.splits)
    have r: "n \<le> n' \<and> list_all2 (\<lambda>x y. fst y = fst x \<and> childRun subs F n n' ([], snd x) ([], snd y)) fs fs'"
      using flds [OF p(1)] by (force simp: RecordLit)
    show ?thesis by (rule nodeRunI) (use r p(2) labels [OF conjunct2 [OF r]] in \<open>simp_all add: RecordLit\<close>)
  next
    case (RecordUpdate e fs)
    obtain fs' n1 e' where p: "mapCounted (\<lambda>(l, e) n. case substMany e subs F n of (e', n1) \<Rightarrow> ((l, e'), n1)) fs n = (fs', n1)"
      "substMany e subs F n1 = (e', n')" "c' = RecordUpdate e' fs'"
      using node by (auto simp: RecordUpdate substNode_def split: prod.splits)
    have e: "n1 \<le> n'" using kid [OF _ p(2)] by (simp add: RecordUpdate)
    then have r: "n \<le> n1 \<and> list_all2 (\<lambda>x y. fst y = fst x \<and> childRun subs F n n' ([], snd x) ([], snd y)) fs fs'"
      using flds [OF p(1)] by (force simp: RecordUpdate)
    have "childRun subs F n n' ([], e) ([], e')" using run [OF _ p(2)] r by (simp add: RecordUpdate)
    then show ?thesis by (intro nodeRunI) (use e r p(3) labels [OF conjunct2 [OF r]] in \<open>simp_all add: RecordUpdate\<close>)
  next
    case (Case e alts)
    obtain alts' n1 e' where p: "mapCounted (substAlt substMany subs F) alts n = (alts', n1)" "substMany e subs F n1 = (e', n')" "c' = Case e' alts'"
      using node by (auto simp: Case substNode_def split: prod.splits)
    have e: "n1 \<le> n'" using kid [OF _ p(2)] by (simp add: Case)
    let ?R = "\<lambda>(p, b, g) (p', b', g'). childRun subs F n n' (Bindings p, b) (Bindings p', b') \<and> shapePat p' = shapePat p \<and> g' = g \<and> linearPat p'"
    have r: "n \<le> n1 \<and> list_all2 ?R alts alts'"
    proof (rule mapCounted_children [OF p(1)])
      fix x k y k' assume x: "x \<in> set alts" "substAlt substMany subs F x k = (y, k')" "n \<le> k"
      obtain p b g p' b' g' where xy: "x = (p, b, g)" "y = (p', b', g')" by (cases x, cases y)
      have sc: "(Bindings p, b) \<in> set (scoped c)" using imageI [OF x(1), of "\<lambda>(p, b, g). (Bindings p, b)"] by (simp add: Case xy)
      have "linear c" using assms(3) by (simp add: ready_def)
      then have lin: "linearPat p" using x(1) by (auto simp: linear.simps [of "Case _ _"] Case xy list_all_iff)
      have m: "m \<le> m'" if "size e = size b" "substMany e s F m = (e', m')" for e s m m' e'
        using mono [OF _ that(2)] that(1) scoped_size [OF sc] by simp
      have all: "\<forall>y \<in> allNames b \<union> set (Bindings p). old k y" using olds [OF sc x(3)] .
      have a: "childRun subs F i j (Bindings p, b) (Bindings p', b') \<and> shapePat p' = shapePat p \<and> g' = g \<and> linearPat p' \<and> k \<le> k'" if "i \<le> k" "k' \<le> j" for i j
        by (rule substAlt_run [OF x(2) [unfolded xy] lin all that]) (rule m)
      have "k \<le> k'" using a [of k k'] by simp
      moreover have "?R x y" if "k' \<le> n1" using a [of n n'] x(3) that e by (simp add: xy)
      ultimately show "k \<le> k' \<and> (k' \<le> n1 \<longrightarrow> ?R x y)" by blast
    qed
    have "childRun subs F n n' ([], e) ([], e')" using run [OF _ p(2)] r by (simp add: Case)
    moreover have "list_all2 (childRun subs F n n') (map (\<lambda>(p, b, g). (Bindings p, b)) alts) (map (\<lambda>(p, b, g). (Bindings p, b)) alts')"
      using r by (auto simp: list_all2_map1 list_all2_map2 elim!: list_all2_mono)
    moreover have "map (\<lambda>(p, b, g). (shapePat p, CoreError, g)) alts' = (map (\<lambda>(p, b, g). (shapePat p, CoreError, g)) alts :: (pat \<times> tm \<times> genKind) list)"
      using conjunct2 [OF r] by (induction rule: list_all2_induct) auto
    moreover have "list_all linearPat (map fst alts')"
      using conjunct2 [OF r] by (induction rule: list_all2_induct) auto
    ultimately show ?thesis by (intro nodeRunI) (use e r p(3) in \<open>simp_all add: Case\<close>)
  qed (use node kid run in \<open>auto simp: substNode_def nodeRun_def split: prod.splits\<close>)
qed

end
