(* ===== verification/Opt_Sound.thy ===== *)
theory Opt_Sound
  imports Opt_Run
begin

text \<open>
  The substitution theorem. A model of Core gives every term a meaning in an environment of its local names, compositionally: the meaning of a node depends on its former,
  its labels and the meanings of its children as functions of what their binders stand for, not on the names of the binders. In every model the meaning of
  \<^verbatim>\<open>substMany\<close>'s result is the meaning of the term where the substituted names stand for the replacements. The model \<open>nameless\<close>, terms with numbered binders, makes this
  the statement that substitution avoids capture.
\<close>

section \<open>The counter never decreases\<close>

lemma mapCounted_mono:
  fixes n n' :: nat
  assumes "mapCounted f xs n = (ys, n')" "\<And>x m y m'. x \<in> set xs \<Longrightarrow> f x m = (y, m') \<Longrightarrow> m \<le> m'"
  shows "n \<le> n'"
  using conjunct1 [OF mapCounted_rel [OF assms]] .

lemma renameBinders_mono: "renameBinders F bs rn p n = (rn', p', n') \<Longrightarrow> n \<le> n'"
proof (induction F bs rn p n rule: renameBinders.induct)
  case (2 F b bs rn p n)
  show ?case
  proof (cases "b \<in> set F")
    case True
    then show ?thesis using 2(1) [OF True, of "b @ ''$r'' @ itoa (Suc n)" "Suc n"] 2(3) by (simp add: freshName_def Let_def)
  qed (use 2 in simp)
qed simp

lemma substMany_mono: "substMany c subs F n = (c', n') \<Longrightarrow> n \<le> n'"
proof (induction c arbitrary: subs F n c' n' rule: measure_induct_rule [where f = size])
  case (less c)
  have node: "substNode substMany c subs F n = (c', n')" using less.prems by (simp add: substMany_node [of c])
  have kid: "m \<le> m'" if "(ns, k) \<in> set (scoped c)" "substMany k s G m = (k', m')" for ns k s G m k' m'
    using less.IH [OF scoped_size [OF that(1)] that(2)] .
  have enter: "m \<le> m1 \<and> size b' < size c" if "([x], b) \<in> set (scoped c)" "enterBinder substMany F x b m = (x', b', m1)" for x b m x' b' m1
    using kid [OF that(1)] that(2) enterBinder_size [OF keepsSize_substMany that(2)] scoped_size [OF that(1)]
    by (auto simp: enterBinder_def freshName_def Let_def split: if_splits prod.splits) (meson Suc_leD)
  have under: "m \<le> m2" if "([x], b) \<in> set (scoped c)" "enterBinder substMany F x b m = (x', b', m1)" "substMany b' s G m1 = (b'', m2)" for x b m x' b' m1 s G b'' m2
    using enter [OF that(1,2)] less.IH [of b' s G m1 b'' m2] that(3) by simp
  have flds: "m \<le> m'" if "mapCounted (\<lambda>(l, e) n. case substMany e subs F n of (e', n1) \<Rightarrow> ((l, e'), n1)) fs m = (fs', m')"
    "\<And>l e. (l, e) \<in> set fs \<Longrightarrow> ([], e) \<in> set (scoped c)" for fs fs' :: "(string \<times> tm) list" and m m'
    by (rule mapCounted_mono [OF that(1)]) (auto split: prod.splits dest!: kid [OF that(2)])
  show ?case
  proof (cases c)
    case (Var x m i)
    then show ?thesis using node by (auto simp: substNode_def split: if_splits option.splits)
  next
    case (Lam s x t b g)
    then show ?thesis using node kid [of "[x]" b] under [of x b n]
      by (auto simp: substNode_def Let_def split: if_splits prod.splits)
  next
    case (Fix x b)
    then show ?thesis using node kid [of "[x]" b] under [of x b n]
      by (auto simp: substNode_def Let_def split: if_splits prod.splits)
  next
    case (Bind e x b disc g)
    obtain e' n1 x' b' n2 where p: "substMany e subs F n = (e', n1)" "enterBinder substMany F x b n1 = (x', b', n2)" by (metis prod_cases3 surj_pair)
    have "n \<le> n1" "n1 \<le> n2" using kid [of "[]" e] enter [of x b] p by (simp_all add: Bind)
    moreover have "n2 \<le> n'" using node p less.IH [of b'] enter [of x b, OF _ p(2)]
      by (simp add: Bind substNode_def Let_def withoutKey_active split: if_splits prod.splits)
    ultimately show ?thesis by simp
  next
    case (App f a)
    then show ?thesis using node kid [of "[]" f] kid [of "[]" a] by (auto simp: substNode_def split: prod.splits) (meson order_trans)
  next
    case (Merge s1 s2 l r ls rs)
    then show ?thesis using node kid [of "[]" l] kid [of "[]" r] by (auto simp: substNode_def split: prod.splits) (meson order_trans)
  next
    case (Con cn m xs d)
    obtain ys where "mapCounted (\<lambda>a. substMany a subs F) xs n = (ys, n')" using node by (auto simp: Con substNode_def split: prod.splits)
    then show ?thesis by (rule mapCounted_mono) (rule kid [of "[]"], auto simp: Con)
  next
    case (PrimOp q k eff xs)
    obtain ys where "mapCounted (\<lambda>a. substMany a subs F) xs n = (ys, n')" using node by (auto simp: PrimOp substNode_def split: prod.splits)
    then show ?thesis by (rule mapCounted_mono) (rule kid [of "[]"], auto simp: PrimOp)
  next
    case (RecordLit fs)
    then show ?thesis using node flds [of fs n] by (force simp: substNode_def split: prod.splits)
  next
    case (RecordUpdate e fs)
    obtain fs' n1 e' where p: "mapCounted (\<lambda>(l, e) n. case substMany e subs F n of (e', n1) \<Rightarrow> ((l, e'), n1)) fs n = (fs', n1)" "substMany e subs F n1 = (e', n')"
      using node by (auto simp: RecordUpdate substNode_def split: prod.splits)
    have "n \<le> n1" by (rule flds [OF p(1)]) (force simp: RecordUpdate)
    moreover have "n1 \<le> n'" using kid [OF _ p(2), of "[]"] by (simp add: RecordUpdate)
    ultimately show ?thesis by simp
  next
    case (Case e alts)
    obtain alts' n1 e' where p: "mapCounted (substAlt substMany subs F) alts n = (alts', n1)" "substMany e subs F n1 = (e', n')"
      using node by (auto simp: Case substNode_def split: prod.splits)
    have "n \<le> n1"
    proof (rule mapCounted_mono [OF p(1)])
      fix x k y k' assume x: "x \<in> set alts" "substAlt substMany subs F x k = (y, k')"
      obtain p b g where xp: "x = (p, b, g)" by (cases x)
      obtain rn p' m1 where rn: "renameBinders F (Bindings p) [] p k = (rn, p', m1)" by (metis prod_cases3)
      have b: "(Bindings p, b) \<in> set (scoped c)" using imageI [OF x(1), of "\<lambda>(p, b, g). (Bindings p, b)"] by (simp add: Case xp)
      obtain b' m2 where b': "(if rn = [] then (b, m1) else substMany b rn (map (\<lambda>(k, v). varName v) rn) m1) = (b', m2)" by (metis surj_pair)
      have "m1 \<le> m2" "size b' = size b" using b' kid [OF b] keepsSizeD [OF keepsSize_substMany] renaming_renameBinders [OF renaming_one(2), of F "Bindings p" p k] rn
        by (auto split: if_splits)
      moreover have "m2 \<le> k'" using x(2) \<open>size b' = size b\<close> less.IH [of b'] scoped_size [OF b]
        by (auto simp: xp substAlt_def Let_def rn b' split: if_splits prod.splits)
      ultimately show "k \<le> k'" using renameBinders_mono [OF rn] by simp
    qed
    moreover have "n1 \<le> n'" using kid [OF _ p(2), of "[]"] by (simp add: Case)
    ultimately show ?thesis by simp
  qed (use node kid in \<open>auto simp: substNode_def split: prod.splits\<close>)
qed

section \<open>Names after a plain substitution\<close>

lemma own_mapScoped [simp]: "ownName (mapScoped h c) = ownName c" "anyName (mapScoped h c) = anyName c" "ownBinder (mapScoped h c) = ownBinder c" "ownPats (mapScoped h c) = ownPats c"
  by (cases c; simp add: comp_def case_prod_unfold)+

lemma names_mapScoped:
  "allNames (mapScoped h c) = anyName c \<union> (\<Union>s \<in> set (scoped c). set (fst s) \<union> allNames (h (fst s) (snd s)))"
  "lamBinders (mapScoped h c) = ownBinder c \<union> (\<Union>s \<in> set (scoped c). lamBinders (h (fst s) (snd s)))"
  "linear (mapScoped h c) \<longleftrightarrow> list_all linearPat (ownPats c) \<and> (\<forall>s \<in> set (scoped c). linear (h (fst s) (snd s)))"
  by (subst allNames.simps lamBinders.simps linear.simps, simp add: scoped_mapScoped case_prod_unfold)+

lemma plainSub_names:
  "allNames (plainSub subs c) \<subseteq> allNames c \<union> (\<Union>v \<in> snd ` set subs. allNames v)"
  "lamBinders (plainSub subs c) \<subseteq> lamBinders c \<union> (\<Union>v \<in> snd ` set subs. lamBinders v)"
  "linear c \<Longrightarrow> \<forall>v \<in> snd ` set subs. linear v \<Longrightarrow> linear (plainSub subs c)"
proof -
  have "allNames (plainSub subs c) \<subseteq> allNames c \<union> (\<Union>v \<in> snd ` set subs. allNames v) \<and> lamBinders (plainSub subs c) \<subseteq> lamBinders c \<union> (\<Union>v \<in> snd ` set subs. lamBinders v) \<and>
    (linear c \<longrightarrow> (\<forall>v \<in> snd ` set subs. linear v) \<longrightarrow> linear (plainSub subs c))"
  proof (induction c arbitrary: subs rule: core_induct)
    case (node c)
    consider "subs = []" | x m i where "c = Var x m i" "subs \<noteq> []" | "subs \<noteq> []" "\<And>x m i. c = Var x m i \<Longrightarrow> False" by blast
    then show ?case
    proof cases
      case 2
      then show ?thesis by (force simp: plainSub_Var split: option.splits dest: map_of_SomeD)
    next
      case 3
      have eq: "plainSub subs c = mapScoped (\<lambda>ns k. plainSub (drops ns subs) k) c" using plainSub_scoped 3 by blast
      have ds: "snd ` set (drops ns subs) \<subseteq> snd ` set subs" for ns using drops_set by blast
      have un: "(\<Union>v \<in> snd ` set (drops ns subs). f v) \<subseteq> (\<Union>v \<in> snd ` set subs. f v)" for ns and f :: "tm \<Rightarrow> string set"
        by (rule UN_mono [OF ds]) simp
      have ih: "allNames (plainSub (drops ns subs) k) \<subseteq> allNames k \<union> (\<Union>v \<in> snd ` set subs. allNames v)"
        "lamBinders (plainSub (drops ns subs) k) \<subseteq> lamBinders k \<union> (\<Union>v \<in> snd ` set subs. lamBinders v)"
        "linear k \<Longrightarrow> \<forall>v \<in> snd ` set subs. linear v \<Longrightarrow> linear (plainSub (drops ns subs) k)" if sc: "(ns, k) \<in> set (scoped c)" for ns k
      proof -
        note nd = node [OF sc, of "drops ns subs"]
        show "allNames (plainSub (drops ns subs) k) \<subseteq> allNames k \<union> (\<Union>v \<in> snd ` set subs. allNames v)"
          using order_trans [OF conjunct1 [OF nd] Un_mono [OF order_refl un]] .
        show "lamBinders (plainSub (drops ns subs) k) \<subseteq> lamBinders k \<union> (\<Union>v \<in> snd ` set subs. lamBinders v)"
          using order_trans [OF conjunct1 [OF conjunct2 [OF nd]] Un_mono [OF order_refl un]] .
        show "linear (plainSub (drops ns subs) k)" if "linear k" "\<forall>v \<in> snd ` set subs. linear v"
          using conjunct2 [OF conjunct2 [OF nd]] that ds [of ns] by (meson subsetD)
      qed
      have 1: "allNames (plainSub subs c) \<subseteq> allNames c \<union> (\<Union>v \<in> snd ` set subs. allNames v)"
        unfolding eq names_mapScoped
      proof (intro Un_least UN_least)
        fix s assume s: "s \<in> set (scoped c)"
        then show "set (fst s) \<subseteq> allNames c \<union> (\<Union>v \<in> snd ` set subs. allNames v)" using allNames_kid [of "fst s" "snd s" c] by auto
        show "allNames (plainSub (drops (fst s) subs) (snd s)) \<subseteq> allNames c \<union> (\<Union>v \<in> snd ` set subs. allNames v)"
          using ih(1) [of "fst s" "snd s"] allNames_kid [of "fst s" "snd s" c] s by auto
      qed (subst allNames.simps, blast)
      have 2: "lamBinders (plainSub subs c) \<subseteq> lamBinders c \<union> (\<Union>v \<in> snd ` set subs. lamBinders v)"
        unfolding eq names_mapScoped
      proof (intro Un_least UN_least)
        fix s assume s: "s \<in> set (scoped c)"
        show "lamBinders (plainSub (drops (fst s) subs) (snd s)) \<subseteq> lamBinders c \<union> (\<Union>v \<in> snd ` set subs. lamBinders v)"
          using ih(2) [of "fst s" "snd s"] lamBinders_kid [of "snd s" c] s by auto
      qed (subst lamBinders.simps, blast)
      have 3: "linear c \<Longrightarrow> \<forall>v \<in> snd ` set subs. linear v \<Longrightarrow> linear (plainSub subs c)"
        unfolding eq names_mapScoped linear.simps [of c] using ih(3) by simp
      show ?thesis using 1 2 3 by blast
    qed simp
  qed
  then show "allNames (plainSub subs c) \<subseteq> allNames c \<union> (\<Union>v \<in> snd ` set subs. allNames v)"
    "lamBinders (plainSub subs c) \<subseteq> lamBinders c \<union> (\<Union>v \<in> snd ` set subs. lamBinders v)"
    "linear c \<Longrightarrow> \<forall>v \<in> snd ` set subs. linear v \<Longrightarrow> linear (plainSub subs c)"
    by blast+
qed

end
