(* ===== verification/Opt_Model.thy ===== *)
theory Opt_Model
  imports Opt_Sound
begin

text \<open>
  Models of Core and the substitution theorem. A model gives every term a meaning in an environment of its local names, compositionally: the meaning of a node depends on its former,
  its labels and the meanings of its children as functions of what their binders stand for, not on the names of the binders. In every model the meaning of
  \<^verbatim>\<open>substMany\<close>'s result is the meaning of the term where the substituted names stand for the replacements. The model \<open>nameless\<close>, terms with numbered binders, makes this
  the statement that substitution avoids capture.
\<close>

section \<open>Environments\<close>

definition binds :: "string list \<Rightarrow> 'd list \<Rightarrow> (string \<Rightarrow> 'd) \<Rightarrow> string \<Rightarrow> 'd" where
  "binds ns ds \<rho> = (\<lambda>x. case map_of (rev (zip ns ds)) x of Some d \<Rightarrow> d | None \<Rightarrow> \<rho> x)"

lemma binds_Nil [simp]: "binds [] ds \<rho> = \<rho>"
  by (simp add: binds_def)

lemma binds_one [simp]: "binds [x] [d] \<rho> = \<rho>(x := d)"
  by (auto simp: binds_def)

lemma binds_out: "x \<notin> set ns \<Longrightarrow> binds ns ds \<rho> x = \<rho> x"
  by (auto simp: binds_def split: option.splits dest!: map_of_SomeD set_zip_leftD)

lemma zip_lookup: "length ds = length ns \<Longrightarrow> x \<in> set ns \<Longrightarrow> map_of (rev (zip ns ds)) x \<noteq> None"
  by (simp add: map_of_eq_None_iff map_fst_zip rev_map [symmetric] flip: set_map)

lemma binds_in: "length ds = length ns \<Longrightarrow> x \<in> set ns \<Longrightarrow> binds ns ds \<rho> x = binds ns ds \<rho>' x"
  using zip_lookup [of ds ns x] by (auto simp: binds_def split: option.splits)

lemma binds_map:
  assumes "length ds = length ns" "inj_on \<sigma> (set ns)" "x \<in> set ns"
  shows "binds (map \<sigma> ns) ds \<rho> (\<sigma> x) = binds ns ds \<rho>' x"
proof -
  have "map_of (map (\<lambda>(k, d). (\<sigma> k, d)) xs) (\<sigma> x) = map_of xs x" if "set (map fst xs) \<subseteq> set ns" for xs
    using that by (induction xs) (auto dest: inj_onD [OF assms(2) _ assms(3)])
  moreover have eq: "rev (zip (map \<sigma> ns) ds) = map (\<lambda>(k, d). (\<sigma> k, d)) (rev (zip ns ds))"
    by (simp add: zip_map1 rev_map [symmetric] case_prod_unfold)
  moreover have "set (map fst (rev (zip ns ds))) \<subseteq> set ns" by (auto dest: set_zip_leftD)
  ultimately have "map_of (rev (zip (map \<sigma> ns) ds)) (\<sigma> x) = map_of (rev (zip ns ds)) x" by metis
  then show ?thesis using zip_lookup [OF assms(1,3)] by (auto simp: binds_def)
qed

section \<open>Models\<close>

locale core_model =
  fixes I :: "(string \<Rightarrow> 'd) \<Rightarrow> tm \<Rightarrow> 'd" and below :: "'d \<Rightarrow> 'd \<Rightarrow> bool"
  assumes below_refl: "below d d"
    and below_trans: "below d1 d2 \<Longrightarrow> below d2 d3 \<Longrightarrow> below d1 d3"
    and below_antisym: "below d1 d2 \<Longrightarrow> below d2 d1 \<Longrightarrow> d1 = d2"
    and I_var: "I \<rho> (Var x [] i) = \<rho> x"
    and I_node: "ownName c = {} \<Longrightarrow> nodeShape c = nodeShape c' \<Longrightarrow>
      list_all2 (\<lambda>(ns, k) (ns', k'). \<forall>ds. length ds = length ns \<longrightarrow> below (I (binds ns ds \<rho>) k) (I (binds ns' ds \<rho>') k')) (scoped c) (scoped c') \<Longrightarrow>
      below (I \<rho> c) (I \<rho>' c')"
begin

definition subEnv :: "tsubst \<Rightarrow> (string \<Rightarrow> 'd) \<Rightarrow> string \<Rightarrow> 'd" where
  "subEnv subs \<rho> = (\<lambda>x. case map_of subs x of Some r \<Rightarrow> I \<rho> r | None \<Rightarrow> \<rho> x)"

lemma subEnv_Nil [simp]: "subEnv [] \<rho> = \<rho>"
  by (simp add: subEnv_def)

lemma I_node_eq:
  assumes "ownName c = {}" "nodeShape c = nodeShape c'" "map (length \<circ> fst) (scoped c) = map (length \<circ> fst) (scoped c')"
    "list_all2 (\<lambda>(ns, k) (ns', k'). \<forall>ds. length ds = length ns \<longrightarrow> I (binds ns ds \<rho>) k = I (binds ns' ds \<rho>') k') (scoped c) (scoped c')"
  shows "I \<rho> c = I \<rho>' c'"
proof (rule below_antisym)
  show "below (I \<rho> c) (I \<rho>' c')"
    by (rule I_node [OF assms(1,2)]) (rule list_all2_mono [OF assms(4)], auto simp: below_refl)
  have own: "ownName c' = {}" using nodeShape_ownName assms(1,2) by metis
  have "list_all2 (\<lambda>(ns', k') (ns, k). \<forall>ds. length ds = length ns' \<longrightarrow> below (I (binds ns' ds \<rho>') k') (I (binds ns ds \<rho>) k)) (scoped c') (scoped c)"
    unfolding list_all2_conv_all_nth
  proof (intro conjI allI impI)
    show len: "length (scoped c') = length (scoped c)" using assms(3) map_eq_imp_length_eq by metis
    fix i assume i: "i < length (scoped c')"
    obtain ns k ns' k' where s: "scoped c ! i = (ns, k)" "scoped c' ! i = (ns', k')" by (metis surj_pair)
    have "length ns = length ns'" using arg_cong [OF assms(3), of "\<lambda>xs. xs ! i"] i len s by simp
    then show "(case scoped c' ! i of (ns', k') \<Rightarrow> \<lambda>(ns, k). \<forall>ds. length ds = length ns' \<longrightarrow> below (I (binds ns' ds \<rho>') k') (I (binds ns ds \<rho>) k)) (scoped c ! i)"
      using assms(4) i len s by (auto simp: list_all2_conv_all_nth below_refl)
  qed
  then show "below (I \<rho>' c') (I \<rho> c)" by (rule I_node [OF own assms(2) [symmetric]])
qed

text \<open>The meaning depends on the free names only, and not on what stripping forgets.\<close>

lemma coincidence: "(\<And>x. x \<in> localFree c \<Longrightarrow> \<rho> x = \<rho>' x) \<Longrightarrow> I \<rho> c = I \<rho>' c"
proof (induction c arbitrary: \<rho> \<rho>' rule: core_induct)
  case (node c)
  show ?case
  proof (cases "ownName c = {}")
    case True
    have "I (binds ns ds \<rho>) k = I (binds ns ds \<rho>') k" if "(ns, k) \<in> set (scoped c)" "length ds = length ns" for ns k ds
    proof (rule node(1) [OF that(1)])
      fix x assume "x \<in> localFree k"
      then show "binds ns ds \<rho> x = binds ns ds \<rho>' x"
        using node(2) [of x] subsetD [OF localFree_kid [OF that(1)], of x] binds_in [OF that(2), of x \<rho> \<rho>'] by (cases "x \<in> set ns") (auto simp: binds_out)
    qed
    then show ?thesis by (intro I_node_eq [OF True refl refl]) (auto simp: list_all2_same)
  next
    case False
    then obtain x i where "c = Var x [] i" by (cases c) (auto split: if_splits)
    then show ?thesis using node(2) by (simp add: I_var localFree.simps [of "Var _ _ _"])
  qed
qed

lemma I_strip: "I \<rho> (strip c) = I \<rho> c"
proof (induction c arbitrary: \<rho> rule: core_induct)
  case (node c)
  show ?case
  proof (cases "ownName c = {}")
    case True
    have sc: "scoped (strip c) = map (\<lambda>(ns, k). (ns, strip k)) (scoped c)" by (rule scoped_strip)
    show ?thesis
      by (rule I_node_eq) (use True node in \<open>auto simp: sc list_all2_map1 list_all2_same\<close>)
  next
    case False
    then obtain x i where "c = Var x [] i" by (cases c) (auto split: if_splits)
    then show ?thesis by (simp add: I_var)
  qed
qed

lemma I_Clone [simp]: "I \<rho> (Clone c) = I \<rho> c"
  using I_strip [of \<rho> c] I_strip [of \<rho> "Clone c"] by simp

section \<open>Plain substitution\<close>

lemma subEnv_under:
  assumes "length ds = length ns" "\<And>k v. (k, v) \<in> set subs \<Longrightarrow> k \<notin> set ns \<Longrightarrow> localFree v \<inter> set ns = {}"
  shows "subEnv (drops ns subs) (binds ns ds \<rho>) = binds ns ds (subEnv subs \<rho>)"
proof
  fix x
  show "subEnv (drops ns subs) (binds ns ds \<rho>) x = binds ns ds (subEnv subs \<rho>) x"
  proof (cases "x \<in> set ns")
    case True
    then show ?thesis using binds_in [OF assms(1) True] by (simp add: subEnv_def drops_lookup)
  next
    case False
    have "I (binds ns ds \<rho>) r = I \<rho> r" if "map_of subs x = Some r" for r
      using assms(2) [OF map_of_SomeD [OF that] False] by (intro coincidence binds_out) blast
    then show ?thesis using False by (auto simp: subEnv_def drops_lookup binds_out split: option.splits)
  qed
qed

lemma I_plainSub: "(\<And>k v. (k, v) \<in> set subs \<Longrightarrow> localFree v \<inter> allNames c = {}) \<Longrightarrow> I \<rho> (plainSub subs c) = I (subEnv subs \<rho>) c"
proof (induction c arbitrary: subs \<rho> rule: core_induct)
  case (node c)
  consider "subs = []" | x m i where "c = Var x m i" "subs \<noteq> []" | "subs \<noteq> []" "\<And>x m i. c = Var x m i \<Longrightarrow> False" by blast
  then show ?case
  proof cases
    case 2
    have "I \<rho> c = I (subEnv subs \<rho>) c" if "m \<noteq> []" using that by (intro coincidence) (simp add: 2 localFree.simps [of "Var _ _ _"])
    then show ?thesis using 2 by (auto simp: plainSub_Var I_var subEnv_def split: option.splits)
  next
    case 3
    have eq: "plainSub subs c = mapScoped (\<lambda>ns k. plainSub (drops ns subs) k) c" using plainSub_scoped 3 by blast
    have own: "ownName c = {}" using 3(2) by (cases c) auto
    have "I (binds ns ds \<rho>) (plainSub (drops ns subs) k) = I (binds ns ds (subEnv subs \<rho>)) k" if k: "(ns, k) \<in> set (scoped c)" and ds: "length ds = length ns" for ns k ds
    proof -
      have clear: "localFree v \<inter> (set ns \<union> allNames k) = {}" if "(y, v) \<in> set subs" for y v
        using node(2) [OF that] allNames_kid [OF k] by blast
      have "I (binds ns ds \<rho>) (plainSub (drops ns subs) k) = I (subEnv (drops ns subs) (binds ns ds \<rho>)) k"
        using clear drops_set by (intro node(1) [OF k]) blast
      then show ?thesis using subEnv_under [OF ds, of subs \<rho>] clear by (simp add: Int_Un_distrib)
    qed
    then show ?thesis unfolding eq
      by (intro I_node_eq) (use own in \<open>auto simp: scoped_mapScoped list_all2_map1 list_all2_same\<close>)
  qed simp
qed

end

end
