(* ===== verification/Opt_Subst_Laws.thy ===== *)
theory Opt_Subst_Laws
  imports Opt_Model
begin

text \<open>
  The substitution theorem in every model, and its instance for terms with numbered binders.
\<close>

section \<open>One child\<close>

lemma scoped_distinct: "linear c \<Longrightarrow> (ns, k) \<in> set (scoped c) \<Longrightarrow> distinct ns"
  by (cases c) (auto simp: linear.simps [of "Case _ _"] list_all_iff linearPat_def)

lemma renamed_lookup: "map_of (renamed \<sigma> F ns) y = (if y \<in> set ns \<inter> set F then Some (localVar (\<sigma> y)) else None)"
  by (induction ns) (auto simp: renamed_def)

lemma ready_kid:
  assumes "ready c subs F n" "(ns, k) \<in> set (scoped c)" "n \<le> m"
  shows "y \<in> allNames k \<union> set ns \<union> set F \<union> fst ` set subs \<Longrightarrow> old m y" "linear k" "distinct ns" "(x, v) \<in> set subs \<Longrightarrow> localFree v \<subseteq> set F"
proof -
  have all: "\<forall>y \<in> allNames c \<union> set F \<union> fst ` set subs. old n y" using assms(1) by (auto simp: ready_def)
  then show "y \<in> allNames k \<union> set ns \<union> set F \<union> fst ` set subs \<Longrightarrow> old m y"
    using allNames_kid [OF assms(2)] old_mono [OF _ assms(3)] by blast
  have lin: "linear c" using assms(1) by (simp add: ready_def)
  show "linear k" using linear_kid [OF lin] assms(2) by force
  show "distinct ns" using scoped_distinct [OF lin assms(2)] .
  show "(x, v) \<in> set subs \<Longrightarrow> localFree v \<subseteq> set F" using assms(1) by (auto simp: ready_def)
qed

lemma ready_child:
  assumes "ready c subs F n" "(ns, k) \<in> set (scoped c)" "n \<le> m" "m \<le> m1"
    "\<forall>y \<in> set ns \<inter> set F. \<exists>j. m < j \<and> j \<le> m1 \<and> \<sigma> y = y @ ''$r'' @ itoa j"
  shows "ready (plainSub (renamed \<sigma> F ns) k) (drops ns subs) F m1"
proof -
  let ?b = "plainSub (renamed \<sigma> F ns) k"
  have le: "n \<le> m1" using assms(3,4) by simp
  note r = ready_kid [OF assms(1,2) le]
  have vals: "snd ` set (renamed \<sigma> F ns) = (\<lambda>y. localVar (\<sigma> y)) ` (set ns \<inter> set F)" by (force simp: renamed_def)
  have new: "old m1 (\<sigma> y)" if "y \<in> set ns \<inter> set F" for y
    using assms(5) that fresh_old [of m1 y] by (metis)
  have "allNames ?b \<subseteq> allNames k \<union> \<sigma> ` (set ns \<inter> set F)" using plainSub_names(1) [of "renamed \<sigma> F ns" k] by (auto simp: vals)
  then have "\<forall>x \<in> allNames ?b. old m1 x" using r(1) new by blast
  moreover have "linear ?b" using plainSub_names(3) [OF r(2), of "renamed \<sigma> F ns"] by (simp add: vals)
  moreover have "\<forall>x \<in> set F. old m1 x" using r(1) by blast
  moreover have "\<forall>(k, v) \<in> set (drops ns subs). old m1 k \<and> localFree v \<subseteq> set F"
  proof (intro ballI, clarify)
    fix x v assume "(x, v) \<in> set (drops ns subs)"
    then have xv: "(x, v) \<in> set subs" using drops_set by blast
    then show "old m1 x \<and> localFree v \<subseteq> set F" using r(1) [of x] r(4) [OF xv] by force
  qed
  moreover have "length (drops ns subs) \<le> 1 \<or> fst ` set (drops ns subs) \<inter> lamBinders ?b \<inter> set F = {}"
  proof -
    have "lamBinders ?b \<subseteq> lamBinders c"
      using plainSub_names(2) [of "renamed \<sigma> F ns" k] lamBinders_kid [of k c] imageI [OF assms(2), of snd] by (simp add: vals)
    moreover have "fst ` set (drops ns subs) \<subseteq> fst ` set subs" using drops_set by blast
    moreover have "length (drops ns subs) \<le> length subs" by (simp add: drops_def)
    moreover have "length subs \<le> 1 \<or> fst ` set subs \<inter> lamBinders c \<inter> set F = {}" using assms(1) by (simp add: ready_def)
    ultimately show ?thesis by (cases "length subs \<le> 1") (linarith, blast)
  qed
  ultimately show ?thesis by (simp add: ready_def)
qed

context core_model
begin

lemma subst_child:
  assumes "ready c subs F n" "(ns, k) \<in> set (scoped c)" "childRun subs F n n' (ns, k) (ns', k')" "length ds = length ns"
    and ih: "\<And>e s m m' e' \<rho>. size e = size k \<Longrightarrow> ready e s F m \<Longrightarrow> s \<noteq> [] \<Longrightarrow> substMany e s F m = (e', m') \<Longrightarrow> I \<rho> e' = I (subEnv s \<rho>) e"
  shows "I (binds ns' ds \<rho>) k' = I (binds ns ds (subEnv subs \<rho>)) k"
proof -
  obtain m m1 m2 \<sigma> where run: "n \<le> m" "m \<le> m1" "ns' = map \<sigma> ns" "\<forall>y. y \<notin> set ns \<inter> set F \<longrightarrow> \<sigma> y = y"
    "\<forall>y \<in> set ns \<inter> set F. \<exists>j. m < j \<and> j \<le> m1 \<and> \<sigma> y = y @ ''$r'' @ itoa j"
    "(if drops ns subs = [] then (plainSub (renamed \<sigma> F ns) k, m1) else substMany (plainSub (renamed \<sigma> F ns) k) (drops ns subs) F m1) = (k', m2)"
    using assms(3) unfolding childRun_def prod.case by (elim exE conjE) (rule that)
  define b where "b = plainSub (renamed \<sigma> F ns) k"
  define \<tau> where "\<tau> = binds ns' ds \<rho>"
  define \<tau>' where "\<tau>' = subEnv (drops ns subs) \<tau>"
  note olds = ready_kid(1) [OF assms(1,2) run(1)]
  have new: "\<not> old m (\<sigma> y)" if "y \<in> set ns \<inter> set F" for y
    using run(5) that fresh_new by metis
  have inj: "inj_on \<sigma> (set ns)"
  proof (rule inj_onI)
    fix y z assume yz: "y \<in> set ns" "z \<in> set ns" "\<sigma> y = \<sigma> z"
    have "y \<in> set F \<longleftrightarrow> z \<in> set F" using yz new [of y] new [of z] run(4) olds [of y] olds [of z] by (metis IntI IntE UnI1 UnI2)
    then show "y = z" using yz run(4,5) fresh_inj by (metis IntI IntE)
  qed
  have size: "size b = size k" unfolding b_def by (rule plainSub_size) (auto simp: renaming_def renamed_def)
  have "I \<tau> k' = I \<tau>' b"
  proof (cases "drops ns subs = []")
    case True
    then show ?thesis using run(6) by (simp add: b_def \<tau>'_def)
  next
    case False
    then show ?thesis using run(6) ih [OF size ready_child [OF assms(1,2) run(1,2,5), folded b_def] False] by (simp add: b_def \<tau>'_def)
  qed
  also have "\<dots> = I (subEnv (renamed \<sigma> F ns) \<tau>') k"
    unfolding b_def
  proof (rule I_plainSub)
    fix z v assume "(z, v) \<in> set (renamed \<sigma> F ns)"
    then have "z \<in> set ns \<inter> set F" "v = localVar (\<sigma> z)" by (auto simp: renamed_def)
    then show "localFree v \<inter> allNames k = {}" using new [of z] olds [of "\<sigma> z"] by auto
  qed
  also have "\<dots> = I (binds ns ds (subEnv subs \<rho>)) k"
  proof (rule coincidence)
    fix y assume "y \<in> localFree k"
    then have y: "y \<in> allNames k" using localFree_allNames by blast
    have out: "\<tau> x = \<rho> x" if "old m x" "x \<notin> set ns - set F" for x
      unfolding \<tau>_def
    proof (rule binds_out)
      show "x \<notin> set ns'"
      proof
        assume "x \<in> set ns'"
        then obtain z where z: "z \<in> set ns" "x = \<sigma> z" by (auto simp: run(3))
        show False using z that new [of z] run(4) by (cases "z \<in> set F") auto
      qed
    qed
    show "subEnv (renamed \<sigma> F ns) \<tau>' y = binds ns ds (subEnv subs \<rho>) y"
    proof (cases "y \<in> set ns")
      case True
      have "map_of (drops ns subs) (\<sigma> y) = None"
      proof (cases "y \<in> set F")
        case True
        then have "\<sigma> y \<notin> fst ` set subs" using new [of y] olds [of "\<sigma> y"] \<open>y \<in> set ns\<close> by blast
        then show ?thesis by (simp add: drops_lookup map_of_eq_None_iff)
      next
        case False
        then show ?thesis using run(4) \<open>y \<in> set ns\<close> by (simp add: drops_lookup)
      qed
      then have "\<tau>' (\<sigma> y) = \<tau> (\<sigma> y)" by (simp add: \<tau>'_def subEnv_def)
      moreover have "subEnv (renamed \<sigma> F ns) \<tau>' y = \<tau>' (\<sigma> y)"
        using True run(4) I_var by (auto simp: subEnv_def renamed_lookup localVar_def)
      ultimately show ?thesis using binds_map [OF assms(4) inj True] by (simp add: \<tau>_def run(3))
    next
      case False
      have "I \<tau> r = I \<rho> r" if "map_of subs y = Some r" for r
      proof (rule coincidence)
        fix x assume "x \<in> localFree r"
        then have "x \<in> set F" using ready_kid(4) [OF assms(1,2) run(1) map_of_SomeD [OF that]] by blast
        then show "\<tau> x = \<rho> x" using out [of x] olds [of x] by blast
      qed
      moreover have "\<tau> y = \<rho> y" using out [of y] olds [of y] y False by blast
      ultimately have "\<tau>' y = subEnv subs \<rho> y" using False by (auto simp: \<tau>'_def subEnv_def drops_lookup split: option.splits)
      then show ?thesis using False by (simp add: subEnv_def [of "renamed \<sigma> F ns"] renamed_lookup binds_out)
    qed
  qed
  finally show ?thesis by (simp add: \<tau>_def)
qed

lemma substMany_sound:
  "ready c subs F n \<Longrightarrow> subs \<noteq> [] \<Longrightarrow> substMany c subs F n = (c', n') \<Longrightarrow> I \<rho> c' = I (subEnv subs \<rho>) c"
proof (induction c arbitrary: subs n c' n' \<rho> rule: measure_induct_rule [where f = size])
  case (less c)
  show ?case
  proof (cases "ownName c = {}")
    case False
    then obtain x i where c: "c = Var x [] i" by (cases c) (auto split: if_splits)
    then show ?thesis using less.prems(3) by (auto simp: substMany_node [of "Var x [] i"] substNode_def IsUnqualified_def I_var subEnv_def split: option.splits)
  next
    case True
    have child: "I (binds ns' ds \<rho>) k' = I (binds ns ds (subEnv subs \<rho>)) k"
      if "(ns, k) \<in> set (scoped c)" "childRun subs F n n' (ns, k) (ns', k')" "length ds = length ns" for ns k ns' k' ds
      using scoped_size [OF that(1)] by (intro subst_child [OF less.prems(1) that]) (rule less.IH, simp_all)
    have "nodeRun c subs F n c' n'" by (rule substMany_nodeRun [OF less.prems(3,2,1) True]) (rule substMany_mono)
    then consider "c' = c" "\<forall>s \<in> set (scoped c). drops (fst s) subs = []"
      | "nodeShape c' = nodeShape c" "list_all2 (childRun subs F n n') (scoped c) (scoped c')"
      unfolding nodeRun_def by blast
    then show ?thesis
    proof cases
      case 1
      have "I \<rho> c = I (subEnv subs \<rho>) c"
      proof (rule coincidence)
        fix x assume "x \<in> localFree c"
        then obtain ns k where k: "(ns, k) \<in> set (scoped c)" "x \<notin> set ns" by (subst (asm) localFree.simps) (auto simp: True)
        then have "map_of subs x = None" using 1(2) drops_lookup [of ns subs x] by force
        then show "\<rho> x = subEnv subs \<rho> x" by (simp add: subEnv_def)
      qed
      then show ?thesis using 1(1) by simp
    next
      case 2
      have lens: "length ns' = length ns" if "childRun subs F n n' (ns, k) (ns', k')" for ns k ns' k'
        using that unfolding childRun_def prod.case by (elim exE conjE) simp
      have "map (length \<circ> fst) (scoped c') = map (length \<circ> fst) (scoped c)"
        using 2(2) by (induction rule: list_all2_induct) (auto dest: lens)
      moreover have "list_all2 (\<lambda>(ns', k') (ns, k). \<forall>ds. length ds = length ns' \<longrightarrow> I (binds ns' ds \<rho>) k' = I (binds ns ds (subEnv subs \<rho>)) k) (scoped c') (scoped c)"
        using 2(2) child lens unfolding list_all2_conv_all_nth by (auto simp: case_prod_unfold) (metis nth_mem prod.collapse)
      ultimately show ?thesis using 2(1) True nodeShape_ownName [OF 2(1)] by (intro I_node_eq) simp_all
    qed
  qed
qed

end

section \<open>Numbered binders\<close>

text \<open>A term without binder names: every binder is the number of binders around it. Dictionary flags and indices are left out.\<close>

datatype db = Bound nat | Free string | Former tm "db list"

function (sequential) nameless :: "(string \<Rightarrow> nat \<Rightarrow> db) \<Rightarrow> tm \<Rightarrow> nat \<Rightarrow> db" where
  "nameless \<rho> c level =
     (if ownName c = {} then
        Former (nodeShape c) (map (\<lambda>s. nameless (binds (fst s) (map (\<lambda>i _. Bound (level + i)) [0..<length (fst s)]) \<rho>) (snd s) (level + length (fst s))) (scoped c))
      else case c of Var x m i \<Rightarrow> \<rho> x level | _ \<Rightarrow> Free [])"
  by pat_completeness auto
termination by (relation "measure (\<lambda>(\<rho>, c, level). size c)") (use kids_size in fastforce)+

declare nameless.simps [simp del]

lemma nodeShape_scoped: "nodeShape c = nodeShape c' \<Longrightarrow> map (length \<circ> fst) (scoped c) = map (length \<circ> fst) (scoped c')"
proof (induction c)
  case (Case e alts)
  obtain e' alts' where c': "c' = Case e' alts'"
    "(map (\<lambda>(p, b, g). (shapePat p, CoreError, g)) alts :: (pat \<times> tm \<times> genKind) list) = map (\<lambda>(p, b, g). (shapePat p, CoreError, g)) alts'"
    using Case.prems by (cases c') auto
  have "list_all2 (\<lambda>(p, b, g) (p', b', g'). shapePat p = shapePat p') alts alts'"
    using c'(2) by (auto simp: list_all2_conv_all_nth list_eq_iff_nth_eq case_prod_unfold)
  then have "map (\<lambda>(p, b, g). length (Bindings p)) alts = map (\<lambda>(p, b, g). length (Bindings p)) alts'"
    by (induction rule: list_all2_induct) (auto intro: shapePat_Bindings)
  then show ?case by (simp add: c' comp_def case_prod_unfold)
next
  case (RecordLit fs)
  then show ?case by (cases c') (auto simp: comp_def case_prod_unfold map_replicate_const dest: map_eq_imp_length_eq)
next
  case (RecordUpdate e fs)
  then show ?case by (cases c') (auto simp: comp_def case_prod_unfold map_replicate_const dest: map_eq_imp_length_eq)
qed (cases c'; auto simp: comp_def map_replicate_const)+

interpretation nl: core_model nameless "(=)"
proof
  show "nameless \<rho> (Var x [] i) = \<rho> x" for \<rho> x i by (simp add: fun_eq_iff nameless.simps [of _ "Var _ _ _"])
next
  fix c c' :: tm and \<rho> \<rho>'
  assume c: "ownName c = {}" "nodeShape c = nodeShape c'"
    and k: "list_all2 (\<lambda>(ns, k) (ns', k'). \<forall>ds. length ds = length ns \<longrightarrow> nameless (binds ns ds \<rho>) k = nameless (binds ns' ds \<rho>') k') (scoped c) (scoped c')"
  have own: "ownName c' = {}" using c nodeShape_ownName by metis
  have "map (\<lambda>s. nameless (binds (fst s) (map (\<lambda>i _. Bound (level + i)) [0..<length (fst s)]) \<rho>) (snd s) (level + length (fst s))) (scoped c) =
      map (\<lambda>s. nameless (binds (fst s) (map (\<lambda>i _. Bound (level + i)) [0..<length (fst s)]) \<rho>') (snd s) (level + length (fst s))) (scoped c')" for level
  proof (rule nth_equalityI)
    note len = list_all2_lengthD [OF k]
    then show "length (map (\<lambda>s. nameless (binds (fst s) (map (\<lambda>i _. Bound (level + i)) [0..<length (fst s)]) \<rho>) (snd s) (level + length (fst s))) (scoped c)) =
      length (map (\<lambda>s. nameless (binds (fst s) (map (\<lambda>i _. Bound (level + i)) [0..<length (fst s)]) \<rho>') (snd s) (level + length (fst s))) (scoped c'))" by simp
    fix i assume "i < length (map (\<lambda>s. nameless (binds (fst s) (map (\<lambda>i _. Bound (level + i)) [0..<length (fst s)]) \<rho>) (snd s) (level + length (fst s))) (scoped c))"
    then have i: "i < length (scoped c)" "i < length (scoped c')" using len by simp_all
    have "length (fst (scoped c ! i)) = length (fst (scoped c' ! i))"
      using arg_cong [OF nodeShape_scoped [OF c(2)], of "\<lambda>xs. xs ! i"] i by simp
    then show "map (\<lambda>s. nameless (binds (fst s) (map (\<lambda>i _. Bound (level + i)) [0..<length (fst s)]) \<rho>) (snd s) (level + length (fst s))) (scoped c) ! i =
      map (\<lambda>s. nameless (binds (fst s) (map (\<lambda>i _. Bound (level + i)) [0..<length (fst s)]) \<rho>') (snd s) (level + length (fst s))) (scoped c') ! i"
      using list_all2_nthD [OF k i(1)] i by (simp add: case_prod_unfold)
  qed
  then show "nameless \<rho> c = nameless \<rho>' c'" using c own by (simp add: fun_eq_iff nameless.simps [of _ c] nameless.simps [of _ c'])
qed auto

section \<open>Properties\<close>

lemma old_plain [simp]: "CHR ''$'' \<notin> set x \<Longrightarrow> old n x"
  by (auto simp: old_def)

lemma ready_one:
  assumes "\<forall>y \<in> insert x (allNames c \<union> set F). old n y" "linear c" "localFree a \<subseteq> set F"
  shows "ready c [(x, a)] F n"
  using assms by (simp add: ready_def)

text \<open>
  C3: Substitution avoids capture. When the counter of generated names has passed every name in sight, no pattern binds a name twice or the payload of a variant, and the set of names to avoid holds the free
  names of the replacement, the result of \<^verbatim>\<open>substFV\<close>, read as a term whose binders are numbers, is the term with the meaning of the replacement at the free occurrences of the
  name: no free name of the replacement is bound by the term, and nothing else changes.
\<close>

theorem subst_avoids_capture:
  assumes "\<forall>y \<in> insert x (allNames c \<union> set F). old n y" "linear c" "localFree a \<subseteq> set F"
  shows "nameless \<rho> (fst (substFV c x a F n)) = nameless (\<rho>(x := nameless \<rho> a)) c"
proof -
  obtain c' n' where s: "substMany c [(x, a)] F n = (c', n')" by (metis surj_pair)
  have "nl.subEnv [(x, a)] \<rho> = \<rho>(x := nameless \<rho> a)" by (auto simp: nl.subEnv_def)
  then show ?thesis using nl.substMany_sound [OF ready_one [OF assms] _ s] s by (simp add: substFV_def)
qed

definition freeName :: "string \<Rightarrow> nat \<Rightarrow> db" where "freeName x = (\<lambda>_. Free x)"

text \<open>Substituting \<open>y\<close> for \<open>x\<close> below a binder \<open>y\<close>: the binder is renamed.\<close>

theorem subst_avoids_capture_witness:
  "nameless freeName (fst (substFV (Lam () ''y'' None (App (localVar ''x'') (localVar ''y'')) UserWritten) ''x'' (localVar ''y'') [''y''] 0)) =
     nameless (freeName(''x'' := freeName ''y'')) (Lam () ''y'' None (App (localVar ''x'') (localVar ''y'')) UserWritten)"
proof -
  let ?c = "Lam () ''y'' None (App (localVar ''x'') (localVar ''y'')) UserWritten"
  have n: "allNames ?c = {''x'', ''y''}" by (auto simp: allNames.simps [of "Lam _ _ _ _ _"] allNames.simps [of "App _ _"] localVar_def allNames.simps [of "Var _ _ _"])
  have l: "linear ?c" by (simp add: linear.simps [of "Lam _ _ _ _ _"] linear.simps [of "App _ _"])
  show ?thesis using subst_avoids_capture [of "''x''" ?c "[''y'']" 0 "localVar ''y''" freeName] n l nl.I_var [of _ "''y''" 0] by (simp add: localVar_def localFree.simps [of "Var _ _ _"])
qed

end
