(* ===== verification/Opt_Rules.thy ===== *)
theory Opt_Rules
  imports Opt_Subst_Laws Vm_Execute
begin

text \<open>
  The rewrite rules of the optimizer, \<^verbatim>\<open>internal/compiler/optimize/optimize.go\<close>, \<^verbatim>\<open>case_of_case.go\<close> and \<^verbatim>\<open>cost.go\<close>. A rule gets the counter of generated
  names and answers \<open>None\<close> where the code returns the node it was given. Maps are association lists; the result of a rule does not depend on their order.
\<close>

type_synonym rule = "tm \<Rightarrow> nat \<Rightarrow> (tm \<times> nat) option"

section \<open>Reductions\<close>

definition betaReduce :: rule where
  "betaReduce c n =
     (case c of
        App (Lam s x t b g) a \<Rightarrow> (case FreeVars a of (fv, overflow) \<Rightarrow> if overflow then None else Some (substFV b x a (fvNames fv) n))
      | _ \<Rightarrow> None)"

text \<open>\<open>sub\<close> is \<^verbatim>\<open>TypeOps.Subst\<close>.\<close>

definition tyAppBeta :: "(ty \<Rightarrow> string \<Rightarrow> ty \<Rightarrow> ty) \<Rightarrow> rule" where
  "tyAppBeta sub c n =
     (case c of TyApp (TyLam a k b) t \<Rightarrow> Some (substTyVarInCore (\<lambda>u. sub u a t) a b, n) | _ \<Rightarrow> None)"

definition appTyLamFloat :: rule where
  "appTyLamFloat c n = (case c of App (TyLam a k b) x \<Rightarrow> Some (TyLam a k (App b x), n) | _ \<Rightarrow> None)"

text \<open>The substitution that matching a pattern with a known value gives, and the names that are free in it.\<close>

definition fieldOf :: "tm \<Rightarrow> string \<Rightarrow> tm" where
  "fieldOf val l =
     (case val of
        RecordLit flds \<Rightarrow> (case map_of flds l of Some v \<Rightarrow> v | None \<Rightarrow> RecordProj val l)
      | _ \<Rightarrow> RecordProj val l)"

lemma size_pat_field: "(l, p) \<in> set fs \<Longrightarrow> size p < Suc (size_list (size_prod (\<lambda>_. 0) size) fs)" for p :: pat
  by (induction fs) auto

lemma size_pat_arg: "p \<in> set ps \<Longrightarrow> size p < Suc (size_list size ps)" for p :: pat
  by (induction ps) auto

function (sequential) collectPatSubs :: "pat \<Rightarrow> tm \<Rightarrow> tsubst \<times> string list \<Rightarrow> tsubst \<times> string list" where
  "collectPatSubs (PVar x g) val (subs, subsFV) = (AList.update x val subs, fvNames (fst (FreeVars val)) @ subsFV)"
| "collectPatSubs (PRecord fs) val st = fold (\<lambda>(l, p) st. collectPatSubs p (fieldOf val l) st) fs st"
| "collectPatSubs (PCon c m ps) val st =
     (case val of
        Con c' m' args d \<Rightarrow> if c' = c \<and> m' = m then fold (\<lambda>(p, a) st. collectPatSubs p a st) (zip ps args) st else st
      | _ \<Rightarrow> st)"
| "collectPatSubs p val st = st"
  by pat_completeness auto
termination
  by (relation "measure (\<lambda>(p, val, st). size p)")
    (auto dest!: set_zip_leftD size_pat_field size_pat_arg)

fun matchingAlt :: "string \<Rightarrow> string \<Rightarrow> (pat \<times> tm \<times> genKind) list \<Rightarrow> (pat list \<times> tm) option" where
  "matchingAlt c m [] = None"
| "matchingAlt c m ((PCon c' m' ps, b, g) # alts) = (if c' \<noteq> c \<or> m' \<noteq> m then matchingAlt c m alts else Some (ps, b))"
| "matchingAlt c m (alt # alts) = matchingAlt c m alts"

definition caseOfKnownCtor :: rule where
  "caseOfKnownCtor c n =
     (case c of
        Case (Con cn m args d) alts \<Rightarrow>
          (case matchingAlt cn m alts of
             None \<Rightarrow> None
           | Some (ps, b) \<Rightarrow>
               (case fold (\<lambda>(p, a) st. collectPatSubs p a st) (zip ps args) ([], []) of
                  (subs, subsFV) \<Rightarrow> if subs = [] then Some (b, n) else Some (substMany b subs subsFV n)))
      | _ \<Rightarrow> None)"

fun litValEq :: "litVal \<Rightarrow> litVal \<Rightarrow> bool" where
  "litValEq (LitInt i) (LitInt j) \<longleftrightarrow> i = j"
| "litValEq (LitDouble i) (LitDouble j) \<longleftrightarrow> floatEq i j"
| "litValEq (LitString s) (LitString t) \<longleftrightarrow> s = t"
| "litValEq (LitRune r) (LitRune q) \<longleftrightarrow> r = q"
| "litValEq _ _ \<longleftrightarrow> False"

fun literalAlt :: "litVal \<Rightarrow> (pat \<times> tm \<times> genKind) list \<Rightarrow> tm option \<Rightarrow> nat \<Rightarrow> (tm \<times> nat) option" where
  "literalAlt v [] wildcard n = map_option (\<lambda>b. (b, n)) wildcard"
| "literalAlt v ((PLit p, b, g) # alts) wildcard n = (if litValEq p v then Some (b, n) else literalAlt v alts wildcard n)"
| "literalAlt v ((PWild, b, g) # alts) wildcard n = literalAlt v alts (Some b) n"
| "literalAlt v ((PVar x g', b, g) # alts) wildcard n =
     (case FreeVars (Lit v :: tm) of (fv, overflow) \<Rightarrow> if overflow then None else Some (substFV b x (Lit v) (fvNames fv) n))"
| "literalAlt v (alt # alts) wildcard n = literalAlt v alts wildcard n"

definition caseOfKnownLit :: rule where
  "caseOfKnownLit c n = (case c of Case (Lit v) alts \<Rightarrow> literalAlt v alts None n | _ \<Rightarrow> None)"

definition bindPureElim :: rule where
  "bindPureElim c n =
     (case c of
        Bind (Pure e) x b disc g \<Rightarrow> (case FreeVars e of (fv, overflow) \<Rightarrow> if overflow then None else Some (substFV b x e (fvNames fv) n))
      | _ \<Rightarrow> None)"

definition forceThunkElim :: rule where
  "forceThunkElim c n = (case c of Force (Thunk s e) \<Rightarrow> Some (e, n) | _ \<Rightarrow> None)"

definition recordProjKnown :: rule where
  "recordProjKnown c n =
     (case c of RecordProj (RecordLit flds) l \<Rightarrow> map_option (\<lambda>v. (v, n)) (map_of flds l) | _ \<Rightarrow> None)"

definition recordUpdateChain :: rule where
  "recordUpdateChain c n =
     (case c of
        RecordUpdate (RecordUpdate r inner) outer \<Rightarrow>
          Some (RecordUpdate r (filter (\<lambda>(l, v). l \<notin> set (map fst outer)) inner @ outer), n)
      | _ \<Rightarrow> None)"

fun peelTyApp :: "tm \<Rightarrow> tm" where
  "peelTyApp (TyApp e t) = peelTyApp e"
| "peelTyApp c = c"

definition primOpAbsorb :: rule where
  "primOpAbsorb c n =
     (case c of
        App f a \<Rightarrow>
          (case peelTyApp f of
             PrimOp p arity eff args \<Rightarrow> if length args \<ge> arity then None else Some (PrimOp p arity eff (args @ [a]), n)
           | _ \<Rightarrow> None)
      | _ \<Rightarrow> None)"

section \<open>The size of a term\<close>

definition sizeVisitor :: "nat \<Rightarrow> (unit, nat) visitor" where
  "sizeVisitor limit = (\<lambda>_ k. (limit = 0 \<or> Suc k \<le> limit, Suc k))"

definition nodeSize :: "tm \<Rightarrow> nat \<Rightarrow> nat" where
  "nodeSize c limit =
     (case Walk (sizeVisitor limit) c 0 of (complete, k) \<Rightarrow> if \<not> complete \<and> limit > 0 \<and> k \<le> limit then limit + 1 else k)"

section \<open>Case of case\<close>

abbreviation maxDuplicateSize :: nat where "maxDuplicateSize \<equiv> 50"

fun tooBig :: "nat \<Rightarrow> (pat \<times> tm \<times> genKind) list \<Rightarrow> bool" where
  "tooBig outerSize [] \<longleftrightarrow> False"
| "tooBig outerSize ((p, b, g) # alts) \<longleftrightarrow>
     (let outerSize = outerSize + nodeSize b (maxDuplicateSize + 1) in outerSize > maxDuplicateSize \<or> tooBig outerSize alts)"

text \<open>The names are drawn for all colliding binders before the first renaming.\<close>

fun drawNames :: "string list \<Rightarrow> string list \<Rightarrow> nat \<Rightarrow> (string \<times> string) list \<times> nat" where
  "drawNames freeNames [] n = ([], n)"
| "drawNames freeNames (x # xs) n =
     (if x \<in> set freeNames
      then case freshName x n of (fresh, n1) \<Rightarrow> case drawNames freeNames xs n1 of (rs, n2) \<Rightarrow> ((x, fresh) # rs, n2)
      else drawNames freeNames xs n)"

fun applyRenames :: "(string \<times> string) list \<Rightarrow> pat \<Rightarrow> tm \<Rightarrow> nat \<Rightarrow> (pat \<times> tm) \<times> nat" where
  "applyRenames [] p b n = ((p, b), n)"
| "applyRenames ((x, fresh) # rs) p b n =
     (case substMany b [(x, Var fresh [] (- 1))] [fresh] n of (b', n1) \<Rightarrow> applyRenames rs (renamePatternVar p x fresh) b' n1)"

definition avoidCapture :: "pat \<Rightarrow> tm \<Rightarrow> string list \<Rightarrow> nat \<Rightarrow> (pat \<times> tm) \<times> nat" where
  "avoidCapture p body freeNames n =
     (case drawNames freeNames (Bindings p) n of (renames, n1) \<Rightarrow> applyRenames renames p body n1)"

definition cloneAlts :: "(pat \<times> tm \<times> genKind) list \<Rightarrow> (pat \<times> tm \<times> genKind) list" where
  "cloneAlts alts = map (\<lambda>(p, b, g). (p, Clone b, g)) alts"

text \<open>A continuation is pushed into the branches of a case.\<close>

definition pushInto :: "string list \<Rightarrow> (tm \<Rightarrow> tm) \<Rightarrow> (pat \<times> tm \<times> genKind) list \<Rightarrow> nat \<Rightarrow> (pat \<times> tm \<times> genKind) list \<times> nat" where
  "pushInto outerFV wrap alts n =
     mapCounted (\<lambda>(p, b, g) n. case avoidCapture p b outerFV n of ((p', b'), n1) \<Rightarrow> ((p', wrap b', g), n1)) alts n"

definition caseOfCase :: rule where
  "caseOfCase c n =
     (case c of
        Case (Case e inner) outer \<Rightarrow>
          if tooBig 0 outer then None
          else let outerFV = concat (map (\<lambda>(p, b, g). fvNames (fst (FreeVars b))) outer)
               in case pushInto outerFV (\<lambda>b. Case b (cloneAlts outer)) inner n of (alts, n1) \<Rightarrow> Some (Case e alts, n1)
      | _ \<Rightarrow> None)"

definition bindOfCase :: rule where
  "bindOfCase c n =
     (case c of
        Bind (Case e inner) x b disc g \<Rightarrow>
          if nodeSize b (maxDuplicateSize + 1) > maxDuplicateSize then None
          else let bodyFV = fvNames (fst (FreeVars b))
               in case pushInto bodyFV (\<lambda>comp. Bind comp x (Clone b) disc g) inner n of (alts, n1) \<Rightarrow> Some (Case e alts, n1)
      | _ \<Rightarrow> None)"

end
