(* ===== verification/Opt_Faults.thy ===== *)
theory Opt_Faults
  imports Opt_Rules
begin

text \<open>
  Terms on which the rules of the optimizer go wrong.
\<close>

lemmas subst_node =
  substMany_node [of "Var _ _ _"] substMany_node [of "Lam _ _ _ _ _"] substMany_node [of "App _ _"] substMany_node [of "Case _ _"] substMany_node [of "Con _ _ _ _"]
  substMany_node [of "Lit _"]

lemmas free_node = FreeVars_def traverse_node mergeAll_def mergeFV_def fvNone_def fvResultToMap_def LocalKey_def

lemmas rule_ops = substNode_def withoutKey_def hasKey_def IsUnqualified_def localVar_def freshName_def fvNames_def Let_def

lemma clone_node [simp]: "Clone (Var x m i) = Var x m (- 1)" "Clone (Lit v) = Lit v"
  by (simp_all add: Clone_def Transform_def rec_node cloneNode_def)

text \<open>
  An abstraction that shadows one of two substituted names is entered without looking at what the other replacement has free: the free \<open>x\<close> of the pair is bound by the abstraction.
\<close>

lemma shadowing_captures:
  "caseOfKnownCtor (Case (Con ''Pair'' [] [Lit (LitInt 1), localVar ''x''] False)
      [(PCon ''Pair'' [] [PVar ''x'' UserWritten, PVar ''y'' UserWritten], Lam () ''x'' None (localVar ''y'') UserWritten, UserWritten)]) n =
    Some (Lam () ''x'' None (Var ''x'' [] (- 1)) UserWritten, n)"
  by (simp add: caseOfKnownCtor_def rule_ops subst_node free_node)

lemma itoa_one: "itoa (Suc 0) = ''1''"
proof -
  have "(char_of (49 :: nat) :: char) = CHR ''1''" by code_simp
  then show ?thesis by (simp add: itoa.simps)
qed

text \<open>Renaming leaves the payload variable of a pattern as it is and renames the variable in the body.\<close>

lemma payload_not_renamed:
  "substFV (Case (localVar ''v'') [(PLabel ''t'' ''x'', App (localVar ''y'') (localVar ''x''), UserWritten)]) ''y'' (localVar ''x'') [''x''] 0 =
    (Case (localVar ''v'') [(PLabel ''t'' ''x'', App (Var ''x'' [] (- 1)) (Var ''x$r1'' [] (- 1)), UserWritten)], 1)"
  by (simp add: substFV_def rule_ops subst_node substAlt_def HasPayload_def varName_def itoa_one)

text \<open>
  So a case of a case whose inner pattern binds a payload \<open>x\<close> and whose outer alternative mentions another \<open>x\<close> becomes a term where the inner variable is not bound and
  the outer one is.
\<close>

lemma node_size_var: "nodeSize (Var x m i) 51 = 1"
  by (simp add: nodeSize_def sizeVisitor_def Walk_def walkRec.simps [of _ "Var _ _ _"])

lemma case_of_case_payload:
  "caseOfCase (Case (Case (localVar ''v'') [(PLabel ''t'' ''x'', localVar ''x'', UserWritten)]) [(PVar ''z'' UserWritten, localVar ''x'', UserWritten)]) 0 =
    Some (Case (localVar ''v'') [(PLabel ''t'' ''x'', Case (Var ''x$r1'' [] (- 1)) [(PVar ''z'' UserWritten, Var ''x'' [] (- 1), UserWritten)], UserWritten)], 1)"
  by (simp add: caseOfCase_def node_size_var pushInto_def avoidCapture_def cloneAlts_def rule_ops subst_node free_node HasPayload_def itoa_one)

text \<open>An alternative before the matching constructor that matches everything is skipped, and literals inside the pattern are not compared; the first cannot come from a source program, in which redundant alternatives are errors.\<close>

lemma wildcard_skipped:
  "caseOfKnownCtor (Case (Con ''Just'' [] [Lit (LitInt 1)] False)
      [(PWild, Lit (LitInt 0), UserWritten), (PCon ''Just'' [] [PVar ''x'' UserWritten], localVar ''x'', UserWritten)]) n = Some (Lit (LitInt 1), n)"
  by (simp add: caseOfKnownCtor_def rule_ops subst_node free_node)

lemma inner_pattern_ignored:
  "caseOfKnownCtor (Case (Con ''Just'' [] [Lit (LitInt 1)] False)
      [(PCon ''Just'' [] [PLit (LitInt 2)], Lit (LitInt 0), UserWritten), (PWild, Lit (LitInt 5), UserWritten)]) n = Some (Lit (LitInt 0), n)"
  by (simp add: caseOfKnownCtor_def)

lemma literal_beats_wildcard:
  "caseOfKnownLit (Case (Lit (LitInt 1)) [(PWild, Lit (LitInt 0), UserWritten), (PLit (LitInt 1), Lit (LitInt 5), UserWritten)]) n = Some (Lit (LitInt 5), n)"
  by (simp add: caseOfKnownLit_def)

text \<open>Where the free-variable analysis gives up, the rule goes on as if the value had no free names.\<close>

lemma overflow_ignored:
  assumes "snd (FreeVars v)"
  shows "collectPatSubs (PVar x g) v ([], []) = ([(x, v)], [])"
  using assms by (auto simp: FreeVars_def Let_def fvNames_def split: if_splits)

text \<open>A dictionary loses its flag when a name in it is substituted.\<close>

lemma subst_drops_dict: "substFV (Con ''EqDict'' [] [localVar ''x''] True) ''x'' (Lit (LitInt 1)) [] n = (Con ''EqDict'' [] [Lit (LitInt 1)] False, n)"
  by (simp add: substFV_def rule_ops subst_node)

end
