(* ===== verification/Opt_Obs.thy ===== *)
theory Opt_Obs
  imports Opt_Rules
begin

text \<open>
  A semantics of Core against which the optimizer is judged: the observations one can make of a term. An observation is a finite piece of information: the tag of a
  constructor, an observation of one of its arguments, of a field, of the result of a computation, or that a function answers with an observation when its argument
  has finitely many others. \<open>obs M \<rho> c t\<close> derives the observation \<open>t\<close> of the term \<open>c\<close>; \<open>\<rho>\<close> tells the observations of its free names. The semantics covers functions,
  recursion and nested patterns, and is call-by-name: it gives a term at least the observations that evaluating its arguments first would give. Types, dictionary flags and indices are not observed.
  Primitives, merges of capability environments and imported bindings are parameters of the semantics, collected in a record.
\<close>

section \<open>Observations\<close>

datatype tok =
    TLit litVal
  | TTag string string nat
  | TArg string string nat tok
  | TRecord
  | TField string tok
  | TVariant string
  | TPayload string tok
  | TFun "tok list" tok
  | TPure
  | TResult tok
  | TThunk tok

text \<open>A primitive is given by the observations of its result that finitely many observations of its arguments allow.\<close>

type_synonym graph = "(tok list list \<times> tok) set"

record core_env =
  env_global :: "varKey \<Rightarrow> tok set"
  env_prim :: "string \<Rightarrow> graph"
  env_merge :: "string list option \<Rightarrow> string list option \<Rightarrow> graph"

definition inGraph :: "graph \<Rightarrow> tok set list \<Rightarrow> tok \<Rightarrow> bool" where
  "inGraph R ds t \<longleftrightarrow> (\<exists>uss. (uss, t) \<in> R \<and> list_all2 (\<lambda>us d. set us \<subseteq> d) uss ds)"

text \<open>Constructors and primitives take further arguments as functions do.\<close>

fun conTok :: "string \<Rightarrow> string \<Rightarrow> tok set list \<Rightarrow> tok \<Rightarrow> bool" where
  "conTok n m ds (TTag n' m' k) \<longleftrightarrow> n' = n \<and> m' = m \<and> k = length ds"
| "conTok n m ds (TArg n' m' i t) \<longleftrightarrow> n' = n \<and> m' = m \<and> i < length ds \<and> t \<in> ds ! i"
| "conTok n m ds (TFun us t) \<longleftrightarrow> conTok n m (ds @ [set us]) t"
| "conTok n m ds _ \<longleftrightarrow> False"

fun primTok :: "graph \<Rightarrow> nat \<Rightarrow> tok set list \<Rightarrow> tok \<Rightarrow> bool" where
  "primTok R k ds (TFun us t) \<longleftrightarrow> (if length ds < k then primTok R k (ds @ [set us]) t else inGraph R ds (TFun us t))"
| "primTok R k ds t \<longleftrightarrow> length ds \<ge> k \<and> inGraph R ds t"

section \<open>Matching\<close>

definition argOf :: "string \<Rightarrow> string \<Rightarrow> nat \<Rightarrow> tok set \<Rightarrow> tok set" where "argOf c m i d = {t. TArg c m i t \<in> d}"
definition fieldD :: "string \<Rightarrow> tok set \<Rightarrow> tok set" where "fieldD l d = {t. TField l t \<in> d}"
definition payloadOf :: "string \<Rightarrow> tok set \<Rightarrow> tok set" where "payloadOf l d = {t. TPayload l t \<in> d}"

definition argsOf :: "string \<Rightarrow> string \<Rightarrow> nat \<Rightarrow> tok set \<Rightarrow> tok set list" where
  "argsOf c m k d = map (\<lambda>i. argOf c m i d) [0..<k]"

function (sequential) hits :: "pat \<Rightarrow> tok set \<Rightarrow> bool" where
  "hits (PVar x g) d \<longleftrightarrow> True"
| "hits PWild d \<longleftrightarrow> True"
| "hits (PCon c m ps) d \<longleftrightarrow> TTag c m (length ps) \<in> d \<and> (\<forall>x \<in> set (zip ps (argsOf c m (length ps) d)). hits (fst x) (snd x))"
| "hits (PRecord fs) d \<longleftrightarrow> TRecord \<in> d \<and> (\<forall>f \<in> set fs. hits (snd f) (fieldD (fst f) d))"
| "hits (PLit v) d \<longleftrightarrow> (\<exists>w. TLit w \<in> d \<and> litValEq v w)"
| "hits (PLabel l x) d \<longleftrightarrow> TVariant (CHR ''#'' # l) \<in> d"
  by pat_completeness auto
termination by (relation "measure (\<lambda>(p, d). size p)") (auto dest!: set_zip_leftD size_pat_field size_pat_arg)

function (sequential) misses :: "pat \<Rightarrow> tok set \<Rightarrow> bool" where
  "misses (PVar x g) d \<longleftrightarrow> False"
| "misses PWild d \<longleftrightarrow> False"
| "misses (PCon c m ps) d \<longleftrightarrow>
     (\<exists>c' m' k. TTag c' m' k \<in> d \<and> (c', m', k) \<noteq> (c, m, length ps)) \<or>
     TTag c m (length ps) \<in> d \<and> (\<exists>x \<in> set (zip ps (argsOf c m (length ps) d)). misses (fst x) (snd x))"
| "misses (PRecord fs) d \<longleftrightarrow> TRecord \<in> d \<and> (\<exists>f \<in> set fs. misses (snd f) (fieldD (fst f) d))"
| "misses (PLit v) d \<longleftrightarrow> (\<exists>w. TLit w \<in> d \<and> \<not> litValEq v w)"
| "misses (PLabel l x) d \<longleftrightarrow> (\<exists>l'. TVariant l' \<in> d \<and> l' \<noteq> CHR ''#'' # l)"
  by pat_completeness auto
termination by (relation "measure (\<lambda>(p, d). size p)") (auto dest!: set_zip_leftD size_pat_field size_pat_arg)

function (sequential) bindsOf :: "pat \<Rightarrow> tok set \<Rightarrow> tok set list" where
  "bindsOf (PVar x g) d = [d]"
| "bindsOf (PCon c m ps) d = concat (map (\<lambda>x. bindsOf (fst x) (snd x)) (zip ps (argsOf c m (length ps) d)))"
| "bindsOf (PRecord fs) d = concat (map (\<lambda>f. bindsOf (snd f) (fieldD (fst f) d)) fs)"
| "bindsOf (PLabel l x) d = (if HasPayload x then [payloadOf (CHR ''#'' # l) d] else [])"
| "bindsOf p d = []"
  by pat_completeness auto
termination by (relation "measure (\<lambda>(p, d). size p)") (auto dest!: set_zip_leftD size_pat_field size_pat_arg)

text \<open>An alternative is taken when its pattern hits and the patterns before it miss.\<close>

fun taken :: "(pat \<times> 'b \<times> 'c) list \<Rightarrow> tok set \<Rightarrow> nat \<Rightarrow> bool" where
  "taken [] d i \<longleftrightarrow> False"
| "taken ((p, b, g) # alts) d 0 \<longleftrightarrow> hits p d"
| "taken ((p, b, g) # alts) d (Suc i) \<longleftrightarrow> misses p d \<and> taken alts d i"

section \<open>The observations of a term\<close>

inductive obs :: "core_env \<Rightarrow> (string \<Rightarrow> tok set) \<Rightarrow> tm \<Rightarrow> tok \<Rightarrow> bool" for M where
  oVar: "t \<in> \<rho> x \<Longrightarrow> obs M \<rho> (Var x [] i) t"
| oGlobal: "m \<noteq> [] \<Longrightarrow> t \<in> env_global M (m, x) \<Longrightarrow> obs M \<rho> (Var x m i) t"
| oLam: "obs M (\<rho>(x := set us)) b t \<Longrightarrow> obs M \<rho> (Lam s x ty b g) (TFun us t)"
| oApp: "obs M \<rho> f (TFun us t) \<Longrightarrow> \<forall>u \<in> set us. obs M \<rho> a u \<Longrightarrow> obs M \<rho> (App f a) t"
| oTyApp: "obs M \<rho> e t \<Longrightarrow> obs M \<rho> (TyApp e ty) t"
| oTyLam: "obs M \<rho> b t \<Longrightarrow> obs M \<rho> (TyLam a k b) t"
| oCon: "length uss = length args \<Longrightarrow> \<forall>i < length args. \<forall>u \<in> set (uss ! i). obs M \<rho> (args ! i) u \<Longrightarrow> conTok n m (map set uss) t \<Longrightarrow> obs M \<rho> (Con n m args d) t"
| oCase: "\<forall>u \<in> set us. obs M \<rho> e u \<Longrightarrow> i < length alts \<Longrightarrow> alts ! i = (p, b, g) \<Longrightarrow> taken alts (set us) i \<Longrightarrow>
    obs M (binds (Bindings p) (bindsOf p (set us)) \<rho>) b t \<Longrightarrow> obs M \<rho> (Case e alts) t"
| oFix: "\<forall>u \<in> set us. obs M \<rho> (Fix x b) u \<Longrightarrow> obs M (\<rho>(x := set us)) b t \<Longrightarrow> obs M \<rho> (Fix x b) t"
| oPure: "obs M \<rho> (Pure e) TPure"
| oResult: "obs M \<rho> e t \<Longrightarrow> obs M \<rho> (Pure e) (TResult t)"
| oBind: "obs M \<rho> c TPure \<Longrightarrow> \<forall>u \<in> set us. obs M \<rho> c (TResult u) \<Longrightarrow> obs M (\<rho>(x := set us)) b t \<Longrightarrow> obs M \<rho> (Bind c x b disc g) t"
| oThunk: "obs M \<rho> c t \<Longrightarrow> obs M \<rho> (Thunk s c) (TThunk t)"
| oForce: "obs M \<rho> e (TThunk t) \<Longrightarrow> obs M \<rho> (Force e) t"
| oMerge: "\<forall>u \<in> set us. obs M \<rho> l u \<Longrightarrow> \<forall>u \<in> set vs. obs M \<rho> r u \<Longrightarrow> inGraph (env_merge M ls rs) [set us, set vs] t \<Longrightarrow> obs M \<rho> (Merge s1 s2 l r ls rs) t"
| oPrim: "length uss = length args \<Longrightarrow> \<forall>i < length args. \<forall>u \<in> set (uss ! i). obs M \<rho> (args ! i) u \<Longrightarrow> primTok (env_prim M p) k (map set uss) t \<Longrightarrow> obs M \<rho> (PrimOp p k eff args) t"
| oLit: "obs M \<rho> (Lit v) (TLit v)"
| oRecord: "obs M \<rho> (RecordLit flds) TRecord"
| oField: "map_of flds l = Some e \<Longrightarrow> obs M \<rho> e t \<Longrightarrow> obs M \<rho> (RecordLit flds) (TField l t)"
| oProj: "obs M \<rho> e (TField l t) \<Longrightarrow> obs M \<rho> (RecordProj e l) t"
| oUpdated: "obs M \<rho> e TRecord \<Longrightarrow> obs M \<rho> (RecordUpdate e flds) TRecord"
| oKept: "obs M \<rho> e (TField l t) \<Longrightarrow> l \<notin> fst ` set flds \<Longrightarrow> obs M \<rho> (RecordUpdate e flds) (TField l t)"
| oNew: "obs M \<rho> e TRecord \<Longrightarrow> map_of flds l = Some v \<Longrightarrow> obs M \<rho> v t \<Longrightarrow> obs M \<rho> (RecordUpdate e flds) (TField l t)"
| oVariant: "obs M \<rho> (VariantLit l e) (TVariant l)"
| oPayload: "obs M \<rho> e t \<Longrightarrow> obs M \<rho> (VariantLit l e) (TPayload l t)"

definition meaning :: "core_env \<Rightarrow> (string \<Rightarrow> tok set) \<Rightarrow> tm \<Rightarrow> tok set" where
  "meaning M \<rho> c = {t. obs M \<rho> c t}"

inductive_simps obs_simps:
  "obs M \<rho> (Var x m i) t"
  "obs M \<rho> (Lam s x ty b g) t"
  "obs M \<rho> (App f a) t"
  "obs M \<rho> (TyApp e ty) t"
  "obs M \<rho> (TyLam a k b) t"
  "obs M \<rho> (Con n m args d) t"
  "obs M \<rho> (Case e alts) t"
  "obs M \<rho> (Pure e) t"
  "obs M \<rho> (Bind c x b disc g) t"
  "obs M \<rho> (Thunk s c) t"
  "obs M \<rho> (Force e) t"
  "obs M \<rho> (Merge s1 s2 l r ls rs) t"
  "obs M \<rho> (PrimOp p k eff args) t"
  "obs M \<rho> (Lit v) t"
  "obs M \<rho> (RecordLit flds) t"
  "obs M \<rho> (RecordProj e l) t"
  "obs M \<rho> (RecordUpdate e flds) t"
  "obs M \<rho> (VariantLit l e) t"
  "obs M \<rho> CoreError t"

inductive_cases obs_FixE: "obs M \<rho> (Fix x b) t"

section \<open>More is observed in larger environments\<close>

lemma snoc_mono: "list_all2 (\<subseteq>) ds ds' \<Longrightarrow> list_all2 (\<subseteq>) (ds @ [d]) (ds' @ [d])"
  by (intro list_all2_appendI) auto

lemma conTok_mono: "conTok n m ds t \<Longrightarrow> list_all2 (\<subseteq>) ds ds' \<Longrightarrow> conTok n m ds' t"
proof (induction t arbitrary: ds ds')
  case (TFun us t)
  then show ?case using TFun(2) [OF _ snoc_mono [OF TFun(4)]] by simp
qed (auto simp: list_all2_conv_all_nth)

lemma inGraph_mono: "inGraph R ds t \<Longrightarrow> list_all2 (\<subseteq>) ds ds' \<Longrightarrow> inGraph R ds' t"
proof -
  assume "inGraph R ds t" and l: "list_all2 (\<subseteq>) ds ds'"
  then obtain uss where u: "(uss, t) \<in> R" "list_all2 (\<lambda>us d. set us \<subseteq> d) uss ds" by (auto simp: inGraph_def)
  have "list_all2 (\<lambda>us d. set us \<subseteq> d) uss ds'" by (rule list_all2_trans [OF _ u(2) l]) (rule order_trans)
  then show ?thesis using u(1) by (auto simp: inGraph_def)
qed

lemma primTok_mono: "primTok R k ds t \<Longrightarrow> list_all2 (\<subseteq>) ds ds' \<Longrightarrow> primTok R k ds' t"
proof (induction t arbitrary: ds ds')
  case (TFun us t)
  then show ?case using TFun(2) [OF _ snoc_mono [OF TFun(4)]] inGraph_mono [OF _ TFun(4)] list_all2_lengthD [OF TFun(4)] by (auto split: if_splits)
qed (auto dest: inGraph_mono list_all2_lengthD)

lemma argOf_mono: "d \<subseteq> d' \<Longrightarrow> argOf c m i d \<subseteq> argOf c m i d'"
  by (auto simp: argOf_def)

lemma fieldD_mono: "d \<subseteq> d' \<Longrightarrow> fieldD l d \<subseteq> fieldD l d'"
  by (auto simp: fieldD_def)

lemma zip_args: "zip ps (argsOf c m (length ps) d) = map (\<lambda>i. (ps ! i, argOf c m i d)) [0..<length ps]"
  by (rule nth_equalityI) (auto simp: argsOf_def)

lemma hits_mono: "hits p d \<Longrightarrow> d \<subseteq> d' \<Longrightarrow> hits p d'"
proof (induction p d arbitrary: d' rule: hits.induct)
  case (3 c m ps d)
  have "hits (ps ! i) (argOf c m i d')" if "i < length ps" for i
    using 3(1) [of "(ps ! i, argOf c m i d)" "argOf c m i d'"] 3(2,3) that argOf_mono [OF 3(3)] by (auto simp: zip_args)
  then show ?case using 3(2,3) by (auto simp: zip_args)
next
  case (4 fs d)
  have "hits (snd f) (fieldD (fst f) d')" if "f \<in> set fs" for f
    using 4(1) [OF that] 4(2,3) that fieldD_mono by auto
  then show ?case using 4(2,3) by auto
qed auto

lemma misses_mono: "misses p d \<Longrightarrow> d \<subseteq> d' \<Longrightarrow> misses p d'"
proof (induction p d arbitrary: d' rule: misses.induct)
  case (3 c m ps d)
  have sub: "misses (ps ! i) (argOf c m i d')" if "i < length ps" "misses (ps ! i) (argOf c m i d)" for i
  proof -
    have "(ps ! i, argOf c m i d) \<in> set (zip ps (argsOf c m (length ps) d))" using that(1) by (auto simp: zip_args)
    from 3(1) [OF this] show ?thesis using that(2) argOf_mono [OF 3(3)] by simp
  qed
  from 3(2) consider (tag) c' m' k where "TTag c' m' k \<in> d" "(c', m', k) \<noteq> (c, m, length ps)"
    | (arg) i where "TTag c m (length ps) \<in> d" "i < length ps" "misses (ps ! i) (argOf c m i d)"
    by (auto simp: zip_args)
  then show ?case
  proof cases
    case tag
    then show ?thesis using 3(3) by (subst misses.simps) blast
  next
    case arg
    have "TTag c m (length ps) \<in> d' \<and> (\<exists>x \<in> set (zip ps (argsOf c m (length ps) d')). misses (fst x) (snd x))"
      using arg(1,2) sub [OF arg(2,3)] 3(3) by (auto simp: zip_args)
    then show ?thesis by simp
  qed
next
  case (4 fs d)
  have "misses (snd f) (fieldD (fst f) d')" if "f \<in> set fs" "misses (snd f) (fieldD (fst f) d)" for f
    using 4(1) [OF that(1) that(2)] 4(3) fieldD_mono by auto
  then show ?case using 4(2,3) by auto
qed auto

lemma concat_mono: "list_all2 (list_all2 (\<subseteq>)) xss yss \<Longrightarrow> list_all2 (\<subseteq>) (concat xss) (concat yss)"
  by (induction rule: list_all2_induct) (auto intro: list_all2_appendI)

lemma bindsOf_mono: "d \<subseteq> d' \<Longrightarrow> list_all2 (\<subseteq>) (bindsOf p d) (bindsOf p d')"
proof (induction p d arbitrary: d' rule: bindsOf.induct)
  case (2 c m ps d)
  have "list_all2 (\<subseteq>) (bindsOf (ps ! i) (argOf c m i d)) (bindsOf (ps ! i) (argOf c m i d'))" if "i < length ps" for i
    using 2(1) [of "(ps ! i, argOf c m i d)" "argOf c m i d'"] that argOf_mono [OF 2(2)] by (auto simp: zip_args)
  then show ?case by (auto intro!: concat_mono simp: zip_args list_all2_map1 list_all2_map2 list_all2_same)
next
  case (3 fs d)
  have "list_all2 (\<subseteq>) (bindsOf (snd f) (fieldD (fst f) d)) (bindsOf (snd f) (fieldD (fst f) d'))" if "f \<in> set fs" for f
    using 3(1) [OF that] 3(2) fieldD_mono by auto
  then show ?case by (auto intro!: concat_mono simp: list_all2_map1 list_all2_map2 list_all2_same)
qed (auto simp: payloadOf_def)

lemma bindsOf_length [simp]: "length (bindsOf p d) = length (Bindings p)"
proof (induction p d rule: bindsOf.induct)
  case (2 c m ps d)
  have "length (bindsOf (ps ! i) (argOf c m i d)) = length (Bindings (ps ! i))" if "i < length ps" for i
    using 2 [of "(ps ! i, argOf c m i d)"] that by (auto simp: zip_args)
  then have "map (\<lambda>i. length (bindsOf (ps ! i) (argOf c m i d))) [0..<length ps] = map (\<lambda>i. length (Bindings (ps ! i))) [0..<length ps]" by simp
  also have "\<dots> = map (length \<circ> Bindings) ps" by (rule nth_equalityI) auto
  finally show ?case by (simp add: length_concat comp_def zip_args)
next
  case (3 fs d)
  then have "map (\<lambda>f. length (bindsOf (snd f) (fieldD (fst f) d))) fs = map (\<lambda>f. length (Bindings (snd f))) fs" by auto
  from arg_cong [OF this, of sum_list] show ?case by (simp add: length_concat comp_def case_prod_unfold)
qed auto

lemma taken_mono: "taken alts d i \<Longrightarrow> d \<subseteq> d' \<Longrightarrow> taken alts d' i"
  by (induction alts d i rule: taken.induct) (auto intro: hits_mono misses_mono)

lemma binds_mono:
  assumes "list_all2 (\<subseteq>) ds ds'" "\<And>x. \<rho> x \<subseteq> \<rho>' x"
  shows "binds ns ds \<rho> x \<subseteq> binds ns ds' \<rho>' x"
proof -
  have "list_all2 (\<lambda>(k, d) (k', d'). k = k' \<and> d \<subseteq> d') (zip ns ds) (zip ns ds')"
    using assms(1) by (auto simp: list_all2_conv_all_nth)
  then have "list_all2 (\<lambda>(k, d) (k', d'). k = k' \<and> d \<subseteq> d') (rev (zip ns ds)) (rev (zip ns ds'))" by (simp add: list_all2_rev)
  then have "case map_of (rev (zip ns ds)) x of None \<Rightarrow> map_of (rev (zip ns ds')) x = None | Some d \<Rightarrow> \<exists>d'. map_of (rev (zip ns ds')) x = Some d' \<and> d \<subseteq> d'"
    by (induction rule: list_all2_induct) (auto split: option.splits)
  then show ?thesis using assms(2) by (auto simp: binds_def split: option.splits)
qed

lemma upd_mono: "(\<And>x. \<rho> x \<subseteq> \<rho>' x) \<Longrightarrow> d \<subseteq> d' \<Longrightarrow> (\<rho>(x := d)) y \<subseteq> (\<rho>'(x := d')) y"
  by simp

theorem obs_mono: "obs M \<rho> c t \<Longrightarrow> (\<And>x. \<rho> x \<subseteq> \<rho>' x) \<Longrightarrow> obs M \<rho>' c t"
proof (induction arbitrary: \<rho>' rule: obs.induct)
  case (oLam \<rho> x us b t s ty g)
  show ?case by (rule obs.oLam, rule oLam(2)) (use oLam(3) in simp)
next
  case (oCase us \<rho> e i alts p b g t)
  show ?case
  proof (rule obs.oCase [of us M \<rho>' e i alts p b g t])
    show "obs M (binds (Bindings p) (bindsOf p (set us)) \<rho>') b t"
      by (rule oCase.IH(2)) (rule binds_mono, auto simp: list_all2_same oCase.prems)
  qed (use oCase in auto)
next
  case (oFix us \<rho> x b t)
  show ?case by (rule obs.oFix [of us]) (use oFix in auto)
next
  case (oBind \<rho> c us x b t disc g)
  show ?case by (rule obs.oBind [of _ _ _ us]) (use oBind in auto)
next
  case (oCon uss args \<rho> n m t d)
  then show ?case by (intro obs.oCon [of uss]) auto
next
  case (oPrim uss args \<rho> p k t eff)
  then show ?case by (intro obs.oPrim [of uss]) auto
next
  case (oMerge us \<rho> l vs r ls rs t s1 s2)
  then show ?case by (intro obs.oMerge [of us _ _ _ vs]) auto
next
  case (oVar t \<rho> x i)
  then show ?case by (auto intro: obs.oVar)
qed (auto intro: obs.intros)

end
