(* ===== verification/Opt_Obs_Model.thy ===== *)
theory Opt_Obs_Model
  imports Opt_Obs
begin

text \<open>
  The observations of terms are a model of Core: they are compositional, so the substitution theorem holds for them. They are also continuous, which makes beta reduction an equation.
\<close>

section \<open>An observation needs finitely many others\<close>

definition approx :: "(string \<Rightarrow> tok set) \<Rightarrow> (string \<Rightarrow> tok set) \<Rightarrow> bool" where
  "approx \<rho>0 \<rho> \<longleftrightarrow> (\<forall>x. finite (\<rho>0 x) \<and> \<rho>0 x \<subseteq> \<rho> x)"

lemma approx_none: "approx (\<lambda>_. {}) \<rho>"
  by (simp add: approx_def)

lemma approx_join: "approx \<rho>1 \<rho> \<Longrightarrow> approx \<rho>2 \<rho> \<Longrightarrow> approx (\<lambda>x. \<rho>1 x \<union> \<rho>2 x) \<rho>"
  by (simp add: approx_def)

lemma obs_left: "obs M \<rho>1 c t \<Longrightarrow> obs M (\<lambda>x. \<rho>1 x \<union> \<rho>2 x) c t" and obs_right: "obs M \<rho>2 c t \<Longrightarrow> obs M (\<lambda>x. \<rho>1 x \<union> \<rho>2 x) c t"
  by (auto elim: obs_mono)

lemma approx_all:
  assumes "\<forall>u \<in> S. \<exists>\<rho>0. approx \<rho>0 \<rho> \<and> Q \<rho>0 u" "finite S" "\<And>\<rho>1 \<rho>2 u. Q \<rho>1 u \<Longrightarrow> (\<And>x. \<rho>1 x \<subseteq> \<rho>2 x) \<Longrightarrow> Q \<rho>2 u"
  shows "\<exists>\<rho>0. approx \<rho>0 \<rho> \<and> (\<forall>u \<in> S. Q \<rho>0 u)"
  using assms(2,1)
proof (induction S)
  case empty
  then show ?case using approx_none by blast
next
  case (insert a S)
  obtain \<rho>1 \<rho>2 where 1: "approx \<rho>1 \<rho>" "Q \<rho>1 a" and 2: "approx \<rho>2 \<rho>" "\<forall>u \<in> S. Q \<rho>2 u" using insert by auto
  have "Q (\<lambda>x. \<rho>1 x \<union> \<rho>2 x) a" using assms(3) [OF 1(2)] by simp
  moreover have "\<forall>u \<in> S. Q (\<lambda>x. \<rho>1 x \<union> \<rho>2 x) u" using assms(3) 2(2) by (metis Un_upper2)
  ultimately show ?case using approx_join [OF 1(1) 2(1)] by blast
qed

lemma approx_obs: "\<forall>u \<in> set us. obs M \<rho> c u \<and> (\<exists>\<rho>0. approx \<rho>0 \<rho> \<and> obs M \<rho>0 c u) \<Longrightarrow> \<exists>\<rho>0. approx \<rho>0 \<rho> \<and> (\<forall>u \<in> set us. obs M \<rho>0 c u)"
  by (rule approx_all [where Q = "\<lambda>\<rho>0 u. obs M \<rho>0 c u"]) (blast, simp, rule obs_mono, assumption, assumption)

lemma approx_args:
  assumes "\<forall>i < k. \<forall>u \<in> set (uss ! i). obs M \<rho> (args ! i) u \<and> (\<exists>\<rho>0. approx \<rho>0 \<rho> \<and> obs M \<rho>0 (args ! i) u)"
  shows "\<exists>\<rho>0. approx \<rho>0 \<rho> \<and> (\<forall>i < k. \<forall>u \<in> set (uss ! i). obs M \<rho>0 (args ! i) u)"
proof -
  have "\<exists>\<rho>0. approx \<rho>0 \<rho> \<and> (\<forall>i \<in> {..<k}. \<forall>u \<in> set (uss ! i). obs M \<rho>0 (args ! i) u)"
  proof (rule approx_all)
    show "\<forall>i \<in> {..<k}. \<exists>\<rho>0. approx \<rho>0 \<rho> \<and> (\<forall>u \<in> set (uss ! i). obs M \<rho>0 (args ! i) u)" using assms approx_obs by simp
    show "\<forall>u \<in> set (uss ! i). obs M \<rho>2 (args ! i) u" if "\<forall>u \<in> set (uss ! i). obs M \<rho>1 (args ! i) u" "\<And>x. \<rho>1 x \<subseteq> \<rho>2 x" for \<rho>1 \<rho>2 i
      using that obs_mono by blast
  qed simp
  then show ?thesis by auto
qed

text \<open>Below a binder.\<close>

lemma approx_under:
  assumes "approx \<rho>0 (binds ns ds \<rho>)" "obs M \<rho>0 b t" "length ds = length ns"
  shows "\<exists>\<rho>1. approx \<rho>1 \<rho> \<and> obs M (binds ns ds \<rho>1) b t"
proof (intro exI conjI)
  let ?\<rho> = "\<lambda>x. \<rho>0 x \<inter> \<rho> x"
  show "approx ?\<rho> \<rho>" using assms(1) by (simp add: approx_def)
  show "obs M (binds ns ds ?\<rho>) b t"
  proof (rule obs_mono [OF assms(2)])
    fix x
    have "\<rho>0 x \<subseteq> binds ns ds \<rho> x" using assms(1) by (simp add: approx_def)
    then show "\<rho>0 x \<subseteq> binds ns ds ?\<rho> x" using binds_in [OF assms(3), of x \<rho> ?\<rho>] by (cases "x \<in> set ns") (auto simp: binds_out)
  qed
qed

lemma approx_upd: "\<exists>\<rho>0. approx \<rho>0 (\<rho>(x := d)) \<and> obs M \<rho>0 b t \<Longrightarrow> \<exists>\<rho>1. approx \<rho>1 \<rho> \<and> obs M (\<rho>1(x := d)) b t"
  using approx_under [of _ "[x]" "[d]" \<rho> M b t] by auto

theorem obs_finite: "obs M \<rho> c t \<Longrightarrow> \<exists>\<rho>0. approx \<rho>0 \<rho> \<and> obs M \<rho>0 c t"
proof (induction rule: obs.induct)
  case (oVar t \<rho> x i)
  then show ?case by (intro exI [of _ "(\<lambda>_. {})(x := {t})"]) (auto simp: approx_def intro: obs.oVar)
next
  case (oLam \<rho> x us b t s ty g)
  then obtain \<rho>1 where "approx \<rho>1 \<rho>" "obs M (\<rho>1(x := set us)) b t" using approx_upd by blast
  then show ?case using obs.oLam by blast
next
  case (oApp \<rho> f us t a)
  obtain \<rho>1 \<rho>2 where "approx \<rho>1 \<rho>" "obs M \<rho>1 f (TFun us t)" "approx \<rho>2 \<rho>" "\<forall>u \<in> set us. obs M \<rho>2 a u" using oApp.IH approx_obs [of us M \<rho> a] by blast
  then have "obs M (\<lambda>x. \<rho>1 x \<union> \<rho>2 x) (App f a) t" using obs_left [of M \<rho>1] obs_right [of M \<rho>2] by (intro obs.oApp [of _ _ _ us]) blast+
  then show ?case using approx_join [of \<rho>1 \<rho> \<rho>2] \<open>approx \<rho>1 \<rho>\<close> \<open>approx \<rho>2 \<rho>\<close> by blast
next
  case (oCon uss args \<rho> n m t d)
  obtain \<rho>1 where "approx \<rho>1 \<rho>" "\<forall>i < length args. \<forall>u \<in> set (uss ! i). obs M \<rho>1 (args ! i) u" using approx_args [OF oCon.IH] by blast
  then show ?case using obs.oCon [OF oCon.hyps(1) _ oCon.hyps(2)] by blast
next
  case (oCase us \<rho> e i alts p b g t)
  obtain \<rho>1 where 1: "approx \<rho>1 \<rho>" "\<forall>u \<in> set us. obs M \<rho>1 e u" using oCase.IH(1) approx_obs [of us M \<rho> e] by blast
  obtain \<rho>0 where "approx \<rho>0 (binds (Bindings p) (bindsOf p (set us)) \<rho>)" "obs M \<rho>0 b t" using oCase.IH(2) by blast
  then obtain \<rho>2 where 2: "approx \<rho>2 \<rho>" "obs M (binds (Bindings p) (bindsOf p (set us)) \<rho>2) b t"
    using approx_under [of \<rho>0 "Bindings p" "bindsOf p (set us)" \<rho> M b t] by auto
  let ?\<rho> = "\<lambda>x. \<rho>1 x \<union> \<rho>2 x"
  have "obs M (binds (Bindings p) (bindsOf p (set us)) ?\<rho>) b t" by (rule obs_mono [OF 2(2)]) (rule binds_mono, auto simp: list_all2_same)
  then have "obs M ?\<rho> (Case e alts) t" using oCase.hyps 1(2) obs_left [of M \<rho>1 e] by (intro obs.oCase [of us M _ e i alts p b g t]) blast+
  then show ?case using approx_join [OF 1(1) 2(1)] by blast
next
  case (oFix us \<rho> x b t)
  obtain \<rho>1 \<rho>2 where 1: "approx \<rho>1 \<rho>" "\<forall>u \<in> set us. obs M \<rho>1 (Fix x b) u" and 2: "approx \<rho>2 \<rho>" "obs M (\<rho>2(x := set us)) b t"
    using oFix.IH(1) approx_obs [of us M \<rho> "Fix x b"] approx_upd [OF oFix.IH(2)] by blast
  let ?\<rho> = "\<lambda>x. \<rho>1 x \<union> \<rho>2 x"
  have "obs M (?\<rho>(x := set us)) b t" by (rule obs_mono [OF 2(2)]) simp
  then have "obs M ?\<rho> (Fix x b) t" using 1(2) obs_left [of M \<rho>1 "Fix x b"] by (intro obs.oFix [of us]) blast+
  then show ?case using approx_join [OF 1(1) 2(1)] by blast
next
  case (oBind \<rho> c us x b t disc g)
  have "\<exists>\<rho>0. approx \<rho>0 \<rho> \<and> (\<forall>u \<in> set us. obs M \<rho>0 c (TResult u))"
    by (rule approx_all [where Q = "\<lambda>\<rho>0 u. obs M \<rho>0 c (TResult u)"]) (use oBind.IH(2) in blast, simp, rule obs_mono, assumption, assumption)
  then obtain \<rho>1 \<rho>2 \<rho>3 where 1: "approx \<rho>1 \<rho>" "\<forall>u \<in> set us. obs M \<rho>1 c (TResult u)" and 2: "approx \<rho>2 \<rho>" "obs M (\<rho>2(x := set us)) b t" and 3: "approx \<rho>3 \<rho>" "obs M \<rho>3 c TPure"
    using oBind.IH(1) approx_upd [OF oBind.IH(3)] by blast
  let ?\<rho> = "\<lambda>x. (\<rho>1 x \<union> \<rho>2 x) \<union> \<rho>3 x"
  have "obs M (?\<rho>(x := set us)) b t" by (rule obs_mono [OF 2(2)]) auto
  moreover have "obs M ?\<rho> c TPure" using 3(2) by (rule obs_right)
  moreover have "\<forall>u \<in> set us. obs M ?\<rho> c (TResult u)" using 1(2) obs_left [of M "\<lambda>x. \<rho>1 x \<union> \<rho>2 x" c] obs_left [of M \<rho>1 c] by blast
  ultimately have "obs M ?\<rho> (Bind c x b disc g) t" by (intro obs.oBind [of _ _ _ us]) blast+
  then show ?case using approx_join [OF approx_join [OF 1(1) 2(1)] 3(1)] by blast
next
  case (oMerge us \<rho> l vs r ls rs t s1 s2)
  obtain \<rho>1 \<rho>2 where "approx \<rho>1 \<rho>" "\<forall>u \<in> set us. obs M \<rho>1 l u" "approx \<rho>2 \<rho>" "\<forall>u \<in> set vs. obs M \<rho>2 r u" using oMerge.IH approx_obs [of us M \<rho> l] approx_obs [of vs M \<rho> r] by blast
  then have "obs M (\<lambda>x. \<rho>1 x \<union> \<rho>2 x) (Merge s1 s2 l r ls rs) t" using oMerge.hyps obs_left [of M \<rho>1] obs_right [of M \<rho>2] by (intro obs.oMerge [of us _ _ _ vs]) blast+
  then show ?case using approx_join [of \<rho>1 \<rho> \<rho>2] \<open>approx \<rho>1 \<rho>\<close> \<open>approx \<rho>2 \<rho>\<close> by blast
next
  case (oPrim uss args \<rho> p k t eff)
  obtain \<rho>1 where "approx \<rho>1 \<rho>" "\<forall>i < length args. \<forall>u \<in> set (uss ! i). obs M \<rho>1 (args ! i) u" using approx_args [OF oPrim.IH] by blast
  then show ?case using obs.oPrim [OF oPrim.hyps(1) _ oPrim.hyps(2)] by blast
next
  case (oNew \<rho> e flds l v t)
  obtain \<rho>1 \<rho>2 where "approx \<rho>1 \<rho>" "obs M \<rho>1 e TRecord" "approx \<rho>2 \<rho>" "obs M \<rho>2 v t" using oNew.IH by blast
  then have "obs M (\<lambda>x. \<rho>1 x \<union> \<rho>2 x) (RecordUpdate e flds) (TField l t)" using oNew.hyps obs_left [of M \<rho>1] obs_right [of M \<rho>2] by (intro obs.oNew [of _ _ _ _ _ v]) blast+
  then show ?case using approx_join [of \<rho>1 \<rho> \<rho>2] \<open>approx \<rho>1 \<rho>\<close> \<open>approx \<rho>2 \<rho>\<close> by blast
next
  case (oGlobal m t x \<rho> i)
  then show ?case using approx_none obs.oGlobal by blast
qed (use approx_none in \<open>blast intro: obs.intros\<close>)+

section \<open>Observations are compositional\<close>

lemma hits_shapePat: "hits (shapePat p) d = hits p d"
  by (induction p d rule: hits.induct) (simp_all add: zip_map1 case_prod_unfold)

lemma misses_shapePat: "misses (shapePat p) d = misses p d"
  by (induction p d rule: misses.induct) (simp_all add: zip_map1 case_prod_unfold)

lemma bindsOf_shapePat: "bindsOf (shapePat p) d = bindsOf p d"
proof (induction p d rule: bindsOf.induct)
  case (2 c m ps d)
  have "bindsOf (shapePat (ps ! i)) (argOf c m i d) = bindsOf (ps ! i) (argOf c m i d)" if "i < length ps" for i
    using 2 [of "(ps ! i, argOf c m i d)"] that by (auto simp: zip_args)
  then show ?case using zip_args [of "map shapePat ps"] by (auto simp: zip_args intro!: arg_cong [of _ _ concat])
next
  case (3 fs d)
  then show ?case by (auto simp: case_prod_unfold intro!: arg_cong [of _ _ concat])
qed (auto simp: HasPayload_def)

lemma same_shapePat:
  assumes "shapePat p = shapePat q"
  shows "hits p d = hits q d" "misses p d = misses q d" "bindsOf p d = bindsOf q d"
  using assms hits_shapePat misses_shapePat bindsOf_shapePat by metis+

lemma taken_shapePat:
  "list_all2 (\<lambda>x y. shapePat (fst x) = shapePat (fst y)) alts alts' \<Longrightarrow> taken alts d i = taken alts' d i"
proof (induction arbitrary: i rule: list_all2_induct)
  case (Cons x xs y ys)
  then show ?case using same_shapePat [OF Cons(1)] by (cases x; cases y; cases i) simp_all
qed simp

lemma obs_fix:
  assumes "obs M \<rho> (Fix x b) t" "\<And>d t. obs M (\<rho>(x := d)) b t \<Longrightarrow> obs M (\<rho>'(y := d)) b' t"
  shows "obs M \<rho>' (Fix y b') t"
  using assms
proof (induction \<rho> "Fix x b" t rule: obs.induct)
  case (oFix us \<rho> t)
  then show ?case by (intro obs.oFix [of us]) blast+
qed

text \<open>Children that are observed at least as much, under any values of their binders.\<close>

definition kidsLe :: "core_env \<Rightarrow> (string \<Rightarrow> tok set) \<Rightarrow> (string \<Rightarrow> tok set) \<Rightarrow> (string list \<times> tm) list \<Rightarrow> (string list \<times> tm) list \<Rightarrow> bool" where
  "kidsLe M \<rho> \<rho>' = list_all2 (\<lambda>(ns, k) (ns', k'). \<forall>ds. length ds = length ns \<longrightarrow> (\<forall>t. obs M (binds ns ds \<rho>) k t \<longrightarrow> obs M (binds ns' ds \<rho>') k' t))"

lemma kidsLe_simps:
  "kidsLe M \<rho> \<rho>' [] [] = True"
  "kidsLe M \<rho> \<rho>' (([], k) # ks) (([], k') # ks') \<longleftrightarrow> (\<forall>t. obs M \<rho> k t \<longrightarrow> obs M \<rho>' k' t) \<and> kidsLe M \<rho> \<rho>' ks ks'"
  "kidsLe M \<rho> \<rho>' (([x], k) # ks) (([y], k') # ks') \<longleftrightarrow> (\<forall>d t. obs M (\<rho>(x := d)) k t \<longrightarrow> obs M (\<rho>'(y := d)) k' t) \<and> kidsLe M \<rho> \<rho>' ks ks'"
proof -
  show "kidsLe M \<rho> \<rho>' (([x], k) # ks) (([y], k') # ks') \<longleftrightarrow> (\<forall>d t. obs M (\<rho>(x := d)) k t \<longrightarrow> obs M (\<rho>'(y := d)) k' t) \<and> kidsLe M \<rho> \<rho>' ks ks'"
  proof -
    have "(\<forall>ds. length ds = length [x] \<longrightarrow> Q ds) \<longleftrightarrow> (\<forall>d. Q [d])" for Q :: "tok set list \<Rightarrow> bool" by (auto simp: length_Suc_conv)
    then show ?thesis by (simp add: kidsLe_def)
  qed
qed (auto simp: kidsLe_def)

lemma kidsLe_plain: "kidsLe M \<rho> \<rho>' (map (Pair []) ks) (map (Pair []) ks') \<longleftrightarrow> length ks = length ks' \<and> (\<forall>i < length ks. \<forall>t. obs M \<rho> (ks ! i) t \<longrightarrow> obs M \<rho>' (ks' ! i) t)"
  unfolding kidsLe_def list_all2_map1 list_all2_map2 by (auto simp: list_all2_conv_all_nth)

lemma kidsLe_fields:
  assumes "kidsLe M \<rho> \<rho>' (map (\<lambda>(l, e). ([], e)) fs) (map (\<lambda>(l, e). ([], e)) fs')"
    "map (\<lambda>(l, e). (l, CoreError)) fs = (map (\<lambda>(l, e). (l, CoreError)) fs' :: (string \<times> tm) list)" "map_of fs l = Some e"
  shows "\<exists>e'. map_of fs' l = Some e' \<and> (\<forall>t. obs M \<rho> e t \<longrightarrow> obs M \<rho>' e' t)"
proof -
  have "list_all2 (\<lambda>x y. \<forall>t. obs M \<rho> (snd x) t \<longrightarrow> obs M \<rho>' (snd y) t) fs fs'"
    using assms(1) unfolding kidsLe_def list_all2_map1 list_all2_map2 by (rule list_all2_mono) auto
  moreover have "map fst fs = map fst fs'" using arg_cong [OF assms(2), of "map fst"] by (simp add: comp_def case_prod_unfold)
  ultimately show ?thesis using assms(3) by (induction rule: list_all2_induct) (auto split: if_splits)
qed

lemma field_labels: "map (\<lambda>(l, e). (l, CoreError)) fs = (map (\<lambda>(l, e). (l, CoreError)) fs' :: (string \<times> tm) list) \<Longrightarrow> fst ` set fs = fst ` set fs'"
  by (drule arg_cong [where f = "\<lambda>xs. fst ` set xs"]) (simp add: image_image case_prod_unfold)

lemma obs_node:
  assumes "obs M \<rho> c t" "ownName c = {}" "nodeShape c = nodeShape c'" "kidsLe M \<rho> \<rho>' (scoped c) (scoped c')"
  shows "obs M \<rho>' c' t"
proof (cases c)
  case (Var x m i)
  then obtain i' where "c' = Var x m i'" "m \<noteq> []" using assms(2,3) by (cases c') (auto split: if_splits)
  then show ?thesis using assms(1) Var by (simp add: obs_simps)
next
  case (Lam s x ty b g)
  then obtain y b' where "c' = Lam s y ty b' g" using assms(3) by (cases c') auto
  then show ?thesis using assms(1,4) Lam by (auto simp: obs_simps kidsLe_simps)
next
  case (App f a)
  then obtain f' a' where "c' = App f' a'" using assms(3) by (cases c') auto
  then show ?thesis using assms(1,4) App by (auto simp: obs_simps kidsLe_simps)
next
  case (TyApp e ty)
  then obtain e' where "c' = TyApp e' ty" using assms(3) by (cases c') auto
  then show ?thesis using assms(1,4) TyApp by (auto simp: obs_simps kidsLe_simps)
next
  case (TyLam a k b)
  then obtain b' where "c' = TyLam a k b'" using assms(3) by (cases c') auto
  then show ?thesis using assms(1,4) TyLam by (auto simp: obs_simps kidsLe_simps)
next
  case (Con n m args d)
  then obtain args' d' where c': "c' = Con n m args' d'" using assms(3) by (cases c') auto
  then have "length args = length args'" "\<forall>i < length args. \<forall>t. obs M \<rho> (args ! i) t \<longrightarrow> obs M \<rho>' (args' ! i) t"
    using assms(4) Con by (simp_all add: kidsLe_plain)
  then show ?thesis using assms(1) Con c' by (simp add: obs_simps) metis
next
  case (PrimOp q k eff args)
  then obtain args' where c': "c' = PrimOp q k eff args'" using assms(3) by (cases c') auto
  then have "length args = length args'" "\<forall>i < length args. \<forall>t. obs M \<rho> (args ! i) t \<longrightarrow> obs M \<rho>' (args' ! i) t"
    using assms(4) PrimOp by (simp_all add: kidsLe_plain)
  then show ?thesis using assms(1) PrimOp c' by (simp add: obs_simps) metis
next
  case (Case e alts)
  then obtain e' alts' where c': "c' = Case e' alts'" "map (\<lambda>(p, b, g). (shapePat p, CoreError, g)) alts = (map (\<lambda>(p, b, g). (shapePat p, CoreError, g)) alts' :: (pat \<times> tm \<times> genKind) list)"
    using assms(3) by (cases c') auto
  have sh: "list_all2 (\<lambda>x y. shapePat (fst x) = shapePat (fst y)) alts alts'"
    using c'(2) by (auto simp: list_all2_conv_all_nth list_eq_iff_nth_eq case_prod_unfold)
  obtain us i p b g where o: "\<forall>u \<in> set us. obs M \<rho> e u" "i < length alts" "alts ! i = (p, b, g)" "taken alts (set us) i"
    "obs M (binds (Bindings p) (bindsOf p (set us)) \<rho>) b t"
    using assms(1) by (auto simp: Case obs_simps)
  obtain p' b' g' where a': "alts' ! i = (p', b', g')" by (metis prod_cases3)
  have i: "i < length alts'" using o(2) list_all2_lengthD [OF sh] by simp
  have p: "shapePat p = shapePat p'" using list_all2_nthD [OF sh o(2)] o(3) a' by simp
  have "\<forall>u \<in> set us. obs M \<rho>' e' u" using assms(4) o(1) by (simp add: Case c' kidsLe_simps)
  moreover have "taken alts' (set us) i" using o(4) taken_shapePat [OF sh] by simp
  moreover have "obs M (binds (Bindings p') (bindsOf p' (set us)) \<rho>') b' t"
  proof -
    have "list_all2 (\<lambda>(ns, k) (ns', k'). \<forall>ds. length ds = length ns \<longrightarrow> (\<forall>t. obs M (binds ns ds \<rho>) k t \<longrightarrow> obs M (binds ns' ds \<rho>') k' t))
        (map (\<lambda>(p, b, g). (Bindings p, b)) alts) (map (\<lambda>(p, b, g). (Bindings p, b)) alts')"
      using assms(4) by (simp add: Case c' kidsLe_simps) (simp add: kidsLe_def)
    from list_all2_nthD [OF this, of i] have "obs M (binds (Bindings p) (bindsOf p (set us)) \<rho>) b t \<longrightarrow> obs M (binds (Bindings p') (bindsOf p (set us)) \<rho>') b' t"
      using o(2,3) i a' by simp
    then show ?thesis using o(5) same_shapePat(3) [OF p] by simp
  qed
  ultimately show ?thesis unfolding c' using i a' by (intro obs.oCase [of us]) auto
next
  case (Fix x b)
  then obtain y b' where c': "c' = Fix y b'" using assms(3) by (cases c') auto
  show ?thesis unfolding c' by (rule obs_fix [of M \<rho> x b]) (use assms(1,4) Fix c' in \<open>simp_all add: kidsLe_simps\<close>)
next
  case (Pure e)
  then obtain e' where "c' = Pure e'" using assms(3) by (cases c') auto
  then show ?thesis using assms(1,4) Pure by (auto simp: obs_simps kidsLe_simps)
next
  case (Bind e x b disc g)
  then obtain e' y b' where "c' = Bind e' y b' disc g" using assms(3) by (cases c') auto
  then show ?thesis using assms(1,4) Bind by (simp add: obs_simps kidsLe_simps) blast
next
  case (Thunk s e)
  then obtain s' e' where "c' = Thunk s' e'" using assms(3) by (cases c') auto
  then show ?thesis using assms(1,4) Thunk by (auto simp: obs_simps kidsLe_simps)
next
  case (Force e)
  then obtain e' where "c' = Force e'" using assms(3) by (cases c') auto
  then show ?thesis using assms(1,4) Force by (auto simp: obs_simps kidsLe_simps)
next
  case (Merge s1 s2 l r ls rs)
  then obtain s1' s2' l' r' where "c' = Merge s1' s2' l' r' ls rs" using assms(3) by (cases c') auto
  then show ?thesis using assms(1,4) Merge by (auto simp: obs_simps kidsLe_simps) blast
next
  case (Lit v)
  then have "c' = Lit v" using assms(3) by (cases c') auto
  then show ?thesis using assms(1) Lit by (simp add: obs_simps)
next
  case (RecordLit fs)
  then obtain fs' where c': "c' = RecordLit fs'" "map (\<lambda>(l, e). (l, CoreError)) fs = (map (\<lambda>(l, e). (l, CoreError)) fs' :: (string \<times> tm) list)" using assms(3) by (cases c') auto
  have k: "kidsLe M \<rho> \<rho>' (map (\<lambda>(l, e). ([], e)) fs) (map (\<lambda>(l, e). ([], e)) fs')" using assms(4) by (simp add: RecordLit c')
  show ?thesis using assms(1) kidsLe_fields [OF k c'(2)] by (auto simp: RecordLit c'(1) obs_simps) blast
next
  case (RecordProj e l)
  then obtain e' where "c' = RecordProj e' l" using assms(3) by (cases c') auto
  then show ?thesis using assms(1,4) RecordProj by (auto simp: obs_simps kidsLe_simps)
next
  case (RecordUpdate e fs)
  then obtain e' fs' where c': "c' = RecordUpdate e' fs'" "map (\<lambda>(l, e). (l, CoreError)) fs = (map (\<lambda>(l, e). (l, CoreError)) fs' :: (string \<times> tm) list)" using assms(3) by (cases c') auto
  have k: "kidsLe M \<rho> \<rho>' (map (\<lambda>(l, e). ([], e)) fs) (map (\<lambda>(l, e). ([], e)) fs')" and e: "\<forall>t. obs M \<rho> e t \<longrightarrow> obs M \<rho>' e' t"
    using assms(4) by (simp_all add: RecordUpdate c' kidsLe_simps)
  from assms(1) consider (rec) "t = TRecord" "obs M \<rho> e TRecord" | (kept) l u where "t = TField l u" "obs M \<rho> e t" "l \<notin> fst ` set fs"
    | (new) l v u where "t = TField l u" "obs M \<rho> e TRecord" "map_of fs l = Some v" "obs M \<rho> v u"
    by (auto simp: RecordUpdate obs_simps)
  then show ?thesis
  proof cases
    case rec
    then show ?thesis using e by (simp add: c'(1) obs.oUpdated)
  next
    case kept
    then show ?thesis using e field_labels [OF c'(2)] by (simp add: c'(1) obs.oKept)
  next
    case new
    obtain v' where "map_of fs' l = Some v'" "obs M \<rho>' v' u" using kidsLe_fields [OF k c'(2) new(3)] new(4) by blast
    then show ?thesis using e new(1,2) by (simp add: c'(1) obs.oNew)
  qed
next
  case (VariantLit l e)
  then obtain e' where "c' = VariantLit l e'" using assms(3) by (cases c') auto
  then show ?thesis using assms(1,4) VariantLit by (auto simp: obs_simps kidsLe_simps)
next
  case CoreError
  then show ?thesis using assms(1) by (simp add: obs_simps)
qed

interpretation den: core_model "meaning M" "(\<subseteq>)" for M :: core_env
proof
  show "meaning M \<rho> (Var x [] i) = \<rho> x" for \<rho> x i by (auto simp: meaning_def obs_simps)
  show "meaning M \<rho> c \<subseteq> meaning M \<rho>' c'" if "ownName c = {}" "nodeShape c = nodeShape c'"
    "list_all2 (\<lambda>(ns, k) (ns', k'). \<forall>ds. length ds = length ns \<longrightarrow> meaning M (binds ns ds \<rho>) k \<subseteq> meaning M (binds ns' ds \<rho>') k') (scoped c) (scoped c')" for c c' \<rho> \<rho>'
  proof -
    have "kidsLe M \<rho> \<rho>' (scoped c) (scoped c')"
      unfolding kidsLe_def by (rule list_all2_mono [OF that(3)]) (auto simp: meaning_def)
    then show ?thesis using obs_node [OF _ that(1,2)] by (auto simp: meaning_def)
  qed
qed auto

end
