(* ===== verification/Spec2Isabelle.thy ===== *)
theory Spec2Isabelle
  imports Go_Base Budget Span_Source Edit_Suggest Bounded_Cache Runtime_Value Cap_Env Vm_Apply Stdlib_Base
    Vm_Code Vm_Machine Vm_Execute Vm_Laws Vm_Nested Vm_Faults Vm_Compiler Vm_Compiler_Faults Vm_Run Vm_Emit Vm_Patterns Vm_Data Vm_Case Vm_Correct
    Avl_Tree Avl_Balance Avl_Order Map_Set Map_Set_Laws Effect_Prims Finger_Tree Finger_Tree_Laws Sequence_Prims
    Type_Terms Core_IR Core_Free Core_Free_Laws Core_Index Core_Index_Laws Core_Walk Core_Transform Core_Transform_Laws
    Core_Verify Core_Labels Core_Deps List_Prims List_Laws
    Slice_Prims List_Fusion Mutable_Prims Mutable_Laws
    Opt_Subst Opt_Fuel Opt_Strip Opt_Names Opt_Meaning Opt_Run Opt_Sound Opt_Model Opt_Subst_Laws Opt_Rules Opt_Faults Opt_Obs Opt_Obs_Model
begin

text \<open>
  GICEL is an embeddable typed effect language written in Go. A source text is parsed, desugared and type checked
  (\<^verbatim>\<open>internal/compiler\<close>) into the Core intermediate representation (\<^verbatim>\<open>internal/lang/ir\<close>), which is optimised,
  annotated and compiled to bytecode; a stack machine (\<^verbatim>\<open>internal/runtime/vm\<close>) runs it under a resource budget
  (\<^verbatim>\<open>internal/infra/budget\<close>). Primitives of the standard library (\<^verbatim>\<open>internal/host/stdlib\<close>) are Go functions that get the budget, a capability
  environment, their arguments and an applier with which they call back into the machine.
  This development models two lines of that system: the runtime line (budget, values, capabilities, applier, standard
  library data structures) and the compiler line (the passes over the Core representation).

  \<^bold>\<open>The runtime line.\<close>
  \<^item> \<open>Go_Base\<close> is the prelude: the outcome type \<open>res\<close> (a value with its capability environment, an error with its capability environment, a
    panic, or divergence), the calling convention \<open>callR\<close>, signed 64-bit arithmetic, and shared lemmas.
  \<^item> \<open>Budget\<close> (\<^verbatim>\<open>infra/budget\<close>), \<open>Span_Source\<close> (\<^verbatim>\<open>infra/span\<close>), \<open>Edit_Suggest\<close> (\<^verbatim>\<open>infra/diagnostic/suggest.go\<close>) and \<open>Bounded_Cache\<close>
    (\<^verbatim>\<open>infra/cache\<close>) model the infrastructure: limits are never exceeded by an admitted run, cancellation is
    noticed within 64 operations, line and column are right, the two-row edit distance is optimal, the cache keeps its capacity.
  \<^item> \<open>Runtime_Value\<close> and \<open>Cap_Env\<close> (\<^verbatim>\<open>runtime/eval\<close>) give the values, one constructor per Go type, and the copy-on-write capability
    environments over an explicit store of Go maps. Shown: a shared handle never changes.
  \<^item> \<open>Vm_Apply\<close> (\<^verbatim>\<open>eval/prim.go\<close>, \<^verbatim>\<open>vm/vm_apply_host.go\<close>, \<^verbatim>\<open>vm_apply_prim.go\<close>) models calls from primitives into the machine, over a parameter
    \<open>vm_exec\<close> that runs a body; \<open>Vm_Execute\<close> instantiates it by the execution loop. The recursion through the applier is closed with a fuel that bounds the nesting
    of callbacks, and \<open>Diverge\<close> is the answer when it runs out, so no result is ever claimed for it.
  \<^item> \<open>Vm_Code\<close> (\<^verbatim>\<open>opcode.go\<close>, \<^verbatim>\<open>chunk.go\<close>), \<open>Vm_Machine\<close> (\<^verbatim>\<open>vm.go\<close>, \<^verbatim>\<open>vm_apply.go\<close>, \<^verbatim>\<open>vm_apply_multi.go\<close>) and \<open>Vm_Execute\<close> (\<^verbatim>\<open>vm_execute.go\<close>) model the
    stack machine: the bytes of the instructions, frames, operand stack and locals, every instruction of the dispatch loop and the nested runs between barrier frames.
    \<open>execute\<close> has a fuel of one unit per instruction and \<open>machineEnv\<close> one per nesting level. The slice of frames has a capacity (its growth is the parameter \<open>vc_grow\<close>) and a
    generation number, with which a write through a pointer into an outgrown slice is lost, as in Go. Reading a nil local or beyond a slice is \<open>Panic\<close>.
    A closure of a fixpoint contains itself; here its self slot is rebuilt when the closure is entered.
  \<^item> \<open>Vm_Laws\<close>, \<open>Vm_Nested\<close>, \<open>Vm_Faults\<close> hold the theorems on the machine: self-calls are calls, tail calls take no space, a nested run
    leaves frames, locals and shared environments as they were (the locales \<open>framed\<close>, \<open>kept_machine\<close> and \<open>nested_run\<close>, interpreted at the loop); and three programs on which the
    machine loses an update or panics.
  \<^item> \<open>Stdlib_Base\<close> (\<^verbatim>\<open>stdlib.go\<close>, \<^verbatim>\<open>num.go\<close>), \<open>Avl_Tree\<close>, \<open>Avl_Balance\<close>, \<open>Avl_Order\<close> (\<^verbatim>\<open>avl.go\<close>), \<open>Map_Set\<close>, \<open>Map_Set_Laws\<close>
    (\<^verbatim>\<open>map.go\<close>, \<^verbatim>\<open>set.go\<close>), \<open>Effect_Prims\<close> (\<^verbatim>\<open>state.go\<close>, \<^verbatim>\<open>fail.go\<close>), \<open>Finger_Tree\<close>, \<open>Finger_Tree_Laws\<close> (\<^verbatim>\<open>fingertree.go\<close>) and
    \<open>Sequence_Prims\<close> (\<^verbatim>\<open>sequence.go\<close>) model the standard library. The balance invariant holds for every comparator; for
    comparators that are orders (the locale \<open>key_order\<close> and its extensions, interpreted at \<^verbatim>\<open>Int\<close> keys on the machine's own
    applier) Map and Set refine finite maps and sets, and the finger tree refines lists through the locale \<open>deque\<close>. State
    handlers restore the label they handle, and roll back on errors.
  \<^item> \<open>List_Prims\<close>, \<open>List_Laws\<close> (\<^verbatim>\<open>list.go\<close>) and \<open>Slice_Prims\<close> (\<^verbatim>\<open>slice.go\<close>) model the list and slice packs. \<^verbatim>\<open>unfoldr\<close> may run forever and is
    a partial function. Shown: the first-order primitives compute the list functions of their names, the higher-order ones call their
    argument on the elements in the documented order, the merge sort of lists and the insertion sort of slices are the stable sort.
  \<^item> \<open>List_Fusion\<close> (\<^verbatim>\<open>list_fusion.go\<close> and the rules of \<^verbatim>\<open>slice.go\<close>, \<^verbatim>\<open>variant.go\<close>, \<^verbatim>\<open>str.go\<close>) models the rewrite rules that the packs register
    with the optimiser: they keep the free variables and, on the primitives of \<open>List_Prims\<close>, the value.
  \<^item> \<open>Mutable_Prims\<close>, \<open>Mutable_Laws\<close> (\<^verbatim>\<open>ref.go\<close>, \<^verbatim>\<open>array.go\<close>, \<^verbatim>\<open>avl_mut.go\<close>, \<^verbatim>\<open>mmap.go\<close>, \<^verbatim>\<open>mset.go\<close>) model references, arrays, mutable maps and
    sets as objects of the store of the world. The locale \<open>object_store\<close> is what their clients rely on and is interpreted at each
    of the four kinds of object; the in-place tree operations are the persistent ones, except for what an error in a deletion leaves behind.
    Nodes of a mutable tree are owned by one object, so the model keeps the tree in its object and returns the tree that the
    in-place code has left when it stops with an error.

  \<^bold>\<open>The compiler line.\<close>
  \<^item> \<open>Type_Terms\<close> (\<^verbatim>\<open>lang/types\<close>) has the data of types, as far as Core terms carry them.
  \<^item> \<open>Core_IR\<close> (\<^verbatim>\<open>core.go\<close>, \<^verbatim>\<open>pattern.go\<close>, \<^verbatim>\<open>spine.go\<close>, \<^verbatim>\<open>builtin.go\<close>) has the terms. Go keeps free-variable metadata in tables keyed by node
    pointers; here each closure former has a slot for its entry.
  \<^item> \<open>Core_Free\<close>, \<open>Core_Free_Laws\<close> (\<^verbatim>\<open>free.go\<close>): the traversal with its inline single-key optimisation computes the free variables and the
    annotations, up to the depth limit of 512, beyond which it answers overflow.
  \<^item> \<open>Core_Index\<close>, \<open>Core_Index_Laws\<close> (\<^verbatim>\<open>index.go\<close>): the indices resolve, in the environment that closures keep at run time, to the binding
    that lexical scoping gives. \<^verbatim>\<open>assignLam\<close>, \<^verbatim>\<open>assignThunk\<close>, \<^verbatim>\<open>assignFixThunk\<close> and \<^verbatim>\<open>assignMergeChild\<close> are branches of one traversal.
  \<^item> \<open>Core_Walk\<close>, \<open>Core_Transform\<close>, \<open>Core_Transform_Laws\<close> (\<^verbatim>\<open>walk.go\<close>): the iterative walk is the preorder, both rewriters are the bottom-up
    rewriting, a clone equals its original up to the flag it drops.
  \<^item> \<open>Core_Verify\<close> (\<^verbatim>\<open>verify.go\<close>), \<open>Core_Labels\<close> (\<^verbatim>\<open>label_erase.go\<close>), \<open>Core_Deps\<close> (\<^verbatim>\<open>deps.go\<close>): the verifier decides the structural
    invariants and accepts the annotations of the pass, erasure leaves no label argument, and the order of the bindings
    terminates and puts dependencies first.

  \<^item> \<open>Vm_Compiler\<close> (\<^verbatim>\<open>vm/compiler.go\<close>, \<^verbatim>\<open>compiler_emit.go\<close>, \<^verbatim>\<open>compiler_expr.go\<close>, \<^verbatim>\<open>compiler_match.go\<close>, \<^verbatim>\<open>compiler_closure.go\<close>, \<^verbatim>\<open>builtin.go\<close>) models the compiler from
    annotated Core terms to prototypes, a state monad over frames and pools that may panic. \<open>Vm_Compiler_Faults\<close> has terms that it compiles wrongly.
  \<^item> \<open>Vm_Run\<close>, \<open>Vm_Emit\<close>, \<open>Vm_Patterns\<close>, \<open>Vm_Data\<close>, \<open>Vm_Case\<close> and \<open>Vm_Correct\<close> join the two lines: for expressions that build and take apart data, the compiled code run
    by the machine returns what the evaluator \<open>evalD\<close>, the specification, says. \<open>Vm_Run\<close> has one rule for each instruction of that kind, \<open>Vm_Emit\<close> the effect of each
    compiler step on its frame, with the operands that are patched later as holes in the code; a case distinction runs the first alternative that matches.
    Functions, thunks, fixpoints and primitive calls are outside the theorem.

  \<^bold>\<open>The optimizer\<close> (\<^verbatim>\<open>compiler/optimize\<close>) rewrites Core terms before they are annotated and compiled.
  \<^item> \<open>Opt_Subst\<close>, \<open>Opt_Fuel\<close> (\<^verbatim>\<open>subst.go\<close>): simultaneous substitution with renaming of binders. The recursion renames a body before it substitutes in it, so it is not
    structural; its fuel is the size of the term, which renaming keeps, and \<open>substMany_node\<close> shows that it satisfies the equation of the code.
  \<^item> \<open>Opt_Strip\<close>, \<open>Opt_Names\<close>, \<open>Opt_Meaning\<close>, \<open>Opt_Run\<close>, \<open>Opt_Sound\<close>, \<open>Opt_Model\<close>, \<open>Opt_Subst_Laws\<close>: the substitution theorem. The locale \<open>core_model\<close> is what a
    meaning of terms has to satisfy (each node means a function of the meanings of its children, binders extend the environment); in every such
    meaning a substitution is a change of the environment. It is interpreted at terms with numbered binders, where the theorem says that nothing is captured.
  \<^item> \<open>Opt_Obs\<close>, \<open>Opt_Obs_Model\<close>: a second interpretation, at the finite observations of a term, for the meaning of the rules.
  \<^item> \<open>Opt_Rules\<close> (\<^verbatim>\<open>optimize.go\<close>, \<^verbatim>\<open>case_of_case.go\<close>, \<^verbatim>\<open>cost.go\<close>): the algebraic rules. \<open>Opt_Faults\<close>: terms that the substitution or a rule changes wrongly.

  \<^bold>\<open>Bounds.\<close> Budgets, costs and integers of the language are 64-bit words with Go's wrap-around. Sizes of trees and lengths of Go slices
  are integers: they count objects that exist in memory. Depth limits are those of the code.

  \<^bold>\<open>Not modelled.\<close> The lexer, parser, desugarer, type checker, unifier, constraint solver; the observer, trace hook and statistics of the machine;
  floating point, Unicode tables, JSON and other adapters to Go packages outside the repository; rendering of values, diagnostics and traces; the
  engine, command line and language server, which are glue and I/O.
\<close>

end
